(* ===== verification/F64.thy ===== *)
theory F64
  imports Prelude
begin

text \<open>
  The part of Rust's \<open>f64\<close> the source uses: \<open>str::parse::<f64>\<close>, the cast of an \<open>i64\<close>,
  comparison, and \<open>trunc() as i64\<close>. A finite value is sign, mantissa and binary exponent;
  parsing rounds the decimal to the nearest double, ties to even, as IEEE 754 asks.
\<close>

datatype f64 = NaN | Inf bool | Fin bool nat int

section \<open>Rounding a quotient to a double\<close>

fun bit_length :: "nat \<Rightarrow> nat" where
  "bit_length n = (if n = 0 then 0 else Suc (bit_length (n div 2)))"

declare bit_length.simps [simp del]

definition round_half_even :: "nat \<Rightarrow> nat \<Rightarrow> nat" where
  "round_half_even a b =
     (let q = a div b; r = a mod b
      in if 2 * r < b \<or> (2 * r = b \<and> even q) then q else q + 1)"

definition ge_pow2 :: "nat \<Rightarrow> nat \<Rightarrow> int \<Rightarrow> bool" where
  "ge_pow2 num den k =
     (if 0 \<le> k then den * 2 ^ nat k \<le> num else den \<le> num * 2 ^ nat (- k))"

definition floor_log2 :: "nat \<Rightarrow> nat \<Rightarrow> int" where
  "floor_log2 num den =
     (let k = int (bit_length num) - int (bit_length den)
      in if ge_pow2 num den k then k else k - 1)"

text \<open>53 bits of mantissa, least exponent \<open>- 1074\<close>, overflow to infinity past \<open>2 ^ 1024\<close>.\<close>

definition round_f64 :: "bool \<Rightarrow> nat \<Rightarrow> nat \<Rightarrow> f64" where
  "round_f64 neg num den =
     (if num = 0 then Fin neg 0 0
      else let e = max (floor_log2 num den - 52) (- 1074);
               m = (if 0 \<le> e then round_half_even num (den * 2 ^ nat e)
                    else round_half_even (num * 2 ^ nat (- e)) den)
           in if 971 < e \<or> (e = 971 \<and> m = 2 ^ 53) then Inf neg else Fin neg m e)"

definition f64_of_i64 :: "int \<Rightarrow> f64" where
  "f64_of_i64 i = round_f64 (i < 0) (nat \<bar>i\<bar>) 1"

section \<open>Comparison and truncation\<close>

definition f64_less :: "f64 \<Rightarrow> f64 \<Rightarrow> bool" where
  "f64_less x y =
     (case (x, y) of
        (NaN, _) \<Rightarrow> False
      | (_, NaN) \<Rightarrow> False
      | (Inf a, Inf b) \<Rightarrow> a \<and> \<not> b
      | (Inf a, Fin _ _ _) \<Rightarrow> a
      | (Fin _ _ _, Inf b) \<Rightarrow> \<not> b
      | (Fin a m e, Fin b n f) \<Rightarrow>
          (let g = min e f;
               u = (if a then - int m else int m) * 2 ^ nat (e - g);
               v = (if b then - int n else int n) * 2 ^ nat (f - g)
           in u < v))"

text \<open>\<open>x.trunc() as i64\<close>: toward zero, saturating, with \<open>NaN\<close> cast to \<open>0\<close>.\<close>

definition f64_trunc_i64 :: "f64 \<Rightarrow> int" where
  "f64_trunc_i64 x =
     (case x of
        NaN \<Rightarrow> 0
      | Inf neg \<Rightarrow> if neg then i64_min else i64_max
      | Fin neg m e \<Rightarrow>
          (let t = (if 0 \<le> e then m * 2 ^ nat e else m div 2 ^ nat (- e));
               v = (if neg then - int t else int t)
           in max i64_min (min i64_max v)))"

section \<open>Parsing\<close>

text \<open>The exponent of scientific notation: \<open>e\<close> or \<open>E\<close>, an optional sign, digits to the end.\<close>

definition parse_exponent :: "string \<Rightarrow> int option" where
  "parse_exponent s =
     (case s of
        [] \<Rightarrow> Some 0
      | c # cs \<Rightarrow>
          if ascii_lower c \<noteq> CHR ''e'' then None
          else let (neg, ds) = (case cs of
                     d # ds \<Rightarrow> if d = CHR ''-'' then (True, ds)
                               else if d = CHR ''+'' then (False, ds) else (False, cs)
                   | [] \<Rightarrow> (False, []))
               in if ds = [] \<or> \<not> list_all is_digit ds then None
                  else Some (if neg then - int (digits_value ds) else int (digits_value ds)))"

definition parse_decimal :: "bool \<Rightarrow> string \<Rightarrow> f64 option" where
  "parse_decimal neg s =
     (let ip = takeWhile is_digit s;
          rest = dropWhile is_digit s;
          fp = (case rest of c # cs \<Rightarrow> if c = CHR ''.'' then takeWhile is_digit cs else []
                | [] \<Rightarrow> []);
          tl' = (case rest of c # cs \<Rightarrow> if c = CHR ''.'' then dropWhile is_digit cs else rest
                 | [] \<Rightarrow> [])
      in if ip @ fp = [] then None
         else case parse_exponent tl' of
             None \<Rightarrow> None
           | Some x \<Rightarrow>
               (let d = digits_value (ip @ fp); e10 = x - int (length fp)
                in Some (if 0 \<le> e10 then round_f64 neg (d * 10 ^ nat e10) 1
                         else round_f64 neg d (10 ^ nat (- e10)))))"

definition parse_f64 :: "string \<Rightarrow> f64 option" where
  "parse_f64 s =
     (let (neg, t) = (case s of
            c # cs \<Rightarrow> if c = CHR ''-'' then (True, cs)
                       else if c = CHR ''+'' then (False, cs) else (False, s)
          | [] \<Rightarrow> (False, []));
          low = map ascii_lower t
      in if t = [] then None
         else if low = ''nan'' then Some NaN
         else if low = ''inf'' \<or> low = ''infinity'' then Some (Inf neg)
         else parse_decimal neg t)"

section \<open>Integers below \<open>2 ^ 53\<close> survive\<close>

lemma bit_length_0 [simp]: "bit_length 0 = 0"
  by (simp add: bit_length.simps)

lemma bit_length_bounds: "0 < n \<Longrightarrow> 2 ^ (bit_length n - 1) \<le> n \<and> n < 2 ^ bit_length n \<and> 0 < bit_length n"
proof (induction n rule: bit_length.induct)
  case (1 n)
  show ?case
  proof (cases "n div 2 = 0")
    case True
    with 1 show ?thesis by (auto simp: bit_length.simps [of n])
  next
    case False
    with 1 have ih: "2 ^ (bit_length (n div 2) - 1) \<le> n div 2" "n div 2 < 2 ^ bit_length (n div 2)"
      "0 < bit_length (n div 2)" by auto
    have "bit_length n = Suc (bit_length (n div 2))"
      using 1 by (simp add: bit_length.simps [of n])
    with ih show ?thesis
      by (cases "bit_length (n div 2)") (auto simp: field_simps)
  qed
qed

lemma bit_length_mono_mult:
  assumes "0 < n" "0 < d"
  shows "bit_length d \<le> bit_length (n * d)"
proof (rule ccontr)
  assume "\<not> ?thesis"
  then have "bit_length (n * d) \<le> bit_length d - 1" by simp
  then have "(2::nat) ^ bit_length (n * d) \<le> 2 ^ (bit_length d - 1)" by (rule power_increasing) simp
  also have "\<dots> \<le> d" using bit_length_bounds [OF assms(2)] by simp
  also have "\<dots> \<le> n * d" using assms(1) by simp
  finally show False using bit_length_bounds [of "n * d"] assms by simp
qed

lemma floor_log2_exact:
  assumes n: "0 < n" "n < 2 ^ 53" and d: "0 < d"
  shows "0 \<le> floor_log2 (n * d) d" and "floor_log2 (n * d) d \<le> 52"
proof -
  define k where "k = int (bit_length (n * d)) - int (bit_length d)"
  have k0: "0 \<le> k" using bit_length_mono_mult [OF n(1) d] by (simp add: k_def)
  have ge: "ge_pow2 (n * d) d j \<longleftrightarrow> 2 ^ nat j \<le> n" if "0 \<le> j" for j
    using that d by (simp add: ge_pow2_def mult.commute)
  show "0 \<le> floor_log2 (n * d) d"
    using k0 ge [of 0] n(1) by (cases "k = 0") (auto simp: floor_log2_def Let_def k_def [symmetric])
  have "2 ^ nat (k - 1) \<le> n" if "1 \<le> k"
  proof -
    have "2 ^ (bit_length (n * d) - 1) \<le> n * d" "d < 2 ^ bit_length d"
      using bit_length_bounds [of "n * d"] bit_length_bounds [OF d] n d by auto
    moreover have "bit_length (n * d) - 1 = nat (k - 1) + bit_length d"
      using that by (simp add: k_def)
    ultimately have "2 ^ nat (k - 1) * 2 ^ bit_length d < n * 2 ^ bit_length d"
      using n(1) d by (metis (no_types, lifting) le_less_trans mult_less_mono2 power_add)
    then show ?thesis by simp
  qed
  moreover have "j \<le> 52" if "2 ^ nat j \<le> n" "0 \<le> j" for j
  proof (rule ccontr)
    assume "\<not> j \<le> 52"
    then have "(2::nat) ^ 53 \<le> 2 ^ nat j" by (intro power_increasing) auto
    with that n(2) show False by simp
  qed
  ultimately show "floor_log2 (n * d) d \<le> 52"
    using k0 ge by (cases "k = 0") (auto simp: floor_log2_def Let_def k_def [symmetric])
qed

lemma round_half_even_exact [simp]: "0 < d \<Longrightarrow> round_half_even (q * d) d = q"
  by (simp add: round_half_even_def)

lemma round_f64_form:
  assumes "n < 2 ^ 53" "0 < d"
  shows "\<exists>j. round_f64 neg (n * d) d = Fin neg (n * 2 ^ j) (- int j)"
proof (cases "n = 0")
  case True
  then show ?thesis by (intro exI [of _ 0]) (simp add: round_f64_def)
next
  case False
  define j where "j = nat (52 - floor_log2 (n * d) d)"
  have e: "max (floor_log2 (n * d) d - 52) (- 1074) = - int j"
    using floor_log2_exact [of n d] False assms by (simp add: j_def)
  have "round_half_even (n * d * 2 ^ j) d = n * 2 ^ j"
    using round_half_even_exact [OF assms(2), of "n * 2 ^ j"] by (simp add: mult_ac)
  then have "round_f64 neg (n * d) d = Fin neg (n * 2 ^ j) (- int j)"
    using False assms(2) by (cases "j = 0") (auto simp: round_f64_def Let_def e)
  then show ?thesis ..
qed

lemma round_f64_exact:
  assumes "n < 2 ^ 53" "0 < d"
  shows "f64_trunc_i64 (round_f64 neg (n * d) d) = (if neg then - int n else int n)"
proof -
  obtain j where r: "round_f64 neg (n * d) d = Fin neg (n * 2 ^ j) (- int j)"
    using round_f64_form [OF assms] by blast
  have "int n \<le> i64_max" "i64_min \<le> - int n"
    using assms(1) by (simp_all add: i64_max_def i64_min_def)
  then show ?thesis
    by (cases "j = 0") (auto simp: r f64_trunc_i64_def Let_def i64_max_def i64_min_def)
qed

text \<open>Comparison of small integers cast to doubles sees the integers.\<close>

lemma f64_of_i64_form:
  assumes "\<bar>a\<bar> < 2 ^ 53"
  obtains j where "f64_of_i64 a = Fin (a < 0) (nat \<bar>a\<bar> * 2 ^ j) (- int j)"
proof -
  have "nat \<bar>a\<bar> < 2 ^ 53" using assms by (simp add: nat_less_iff)
  with that show ?thesis
    using round_f64_form [of "nat \<bar>a\<bar>" 1 "a < 0"] unfolding f64_of_i64_def mult_1_right by auto
qed

lemma f64_less_of_i64:
  assumes "\<bar>a\<bar> < 2 ^ 53" "\<bar>b\<bar> < 2 ^ 53"
  shows "f64_less (f64_of_i64 a) (f64_of_i64 b) \<longleftrightarrow> a < b"
proof -
  obtain i where i: "f64_of_i64 a = Fin (a < 0) (nat \<bar>a\<bar> * 2 ^ i) (- int i)"
    by (rule f64_of_i64_form [OF assms(1)])
  obtain j where j: "f64_of_i64 b = Fin (b < 0) (nat \<bar>b\<bar> * 2 ^ j) (- int j)"
    by (rule f64_of_i64_form [OF assms(2)])
  have val: "(if x < 0 then - int (nat \<bar>x\<bar> * 2 ^ k) else int (nat \<bar>x\<bar> * 2 ^ k)) = x * 2 ^ k"
    for x :: int and k by simp
  have g: "min (- int i) (- int j) = - int (max i j)" by simp
  have p: "x * 2 ^ k * 2 ^ nat (- int k - - int (max i j)) = x * 2 ^ max i j"
    if "k \<le> max i j" for x :: int and k
  proof -
    have "nat (- int k - - int (max i j)) = max i j - k" using that by linarith
    then have "(2::int) ^ k * 2 ^ nat (- int k - - int (max i j)) = 2 ^ (k + (max i j - k))"
      by (simp only: power_add)
    then show ?thesis using that by (simp add: mult.assoc)
  qed
  show ?thesis
    unfolding i j f64_less_def
    by (simp only: prod.case f64.case Let_def val g p max.cobounded1 max.cobounded2) simp
qed

text \<open>The text an integer prints as parses to the cast of that integer.\<close>

lemma digits_lower: "list_all is_digit s \<Longrightarrow> map ascii_lower s = s"
  by (induction s) (auto simp: ascii_lower_def is_digit_def Let_def)

lemma parse_decimal_digits:
  assumes "list_all is_digit s" "s \<noteq> []"
  shows "parse_decimal neg s = Some (round_f64 neg (digits_value s) 1)"
proof -
  have "takeWhile is_digit s = s" "dropWhile is_digit s = []"
    using assms(1) by (auto simp: list_all_iff takeWhile_eq_all_conv dropWhile_eq_Nil_conv)
  then show ?thesis
    using assms(2) unfolding parse_decimal_def
    by (simp only: Let_def list.case append_Nil2 parse_exponent_def option.case) simp
qed

lemma parse_f64_show_int: "parse_f64 (show_int i) = Some (f64_of_i64 i)"
proof -
  have nat_case: "parse_decimal neg (show_nat n) = Some (round_f64 neg n 1)"
    "map ascii_lower (show_nat n) \<notin> {''nan'', ''inf'', ''infinity''}" for neg n
  proof -
    show "parse_decimal neg (show_nat n) = Some (round_f64 neg n 1)"
      by (simp add: parse_decimal_digits)
    have "map ascii_lower (show_nat n) = show_nat n" by (simp add: digits_lower)
    moreover obtain c cs where "show_nat n = c # cs" "list_all is_digit (c # cs)"
      by (rule show_nat_ConsE)
    ultimately show "map ascii_lower (show_nat n) \<notin> {''nan'', ''inf'', ''infinity''}"
      by (auto simp: is_digit_def)
  qed
  show ?thesis
  proof (cases "i < 0")
    case True
    then show ?thesis
      using nat_case(1) [of True "nat (- i)"] nat_case(2) [of "nat (- i)"]
      by (simp add: show_int_def parse_f64_def f64_of_i64_def)
  next
    case False
    obtain c cs where "show_nat (nat i) = c # cs" "c \<noteq> CHR ''-''" "c \<noteq> CHR ''+''"
      by (rule show_nat_ConsE)
    with False show ?thesis
      using nat_case(1) [of False "nat i"] nat_case(2) [of "nat i"]
      by (auto simp: show_int_def parse_f64_def f64_of_i64_def Let_def)
  qed
qed

end
