(* ===== verification/Ls_Error.thy ===== *)
theory Ls_Error
  imports Prelude
begin

text \<open>
  The two error enums (\<open>crates/ls-core/src/error.rs\<close> and
  \<open>adapters/nautilus/src/error.rs\<close>) and the response-code predicates of
  \<open>inner.rs\<close> and \<open>error_catalog.rs\<close>. Of a \<open>reqwest::Error\<close> the source reads the HTTP
  status only (absent for a transport failure), so \<open>Http\<close> carries that. Human-readable texts
  that no code reads are kept short; codes and field names are the source's.
\<close>

section \<open>The SDK's error\<close>

datatype ls_error =
    Auth string
  | Http "nat option"
  | WebSocket string
  | Decode string
  | ApiError (err_code: string) (err_message: string)
  | AmbiguousOrder (err_code: string) (err_message: string)
  | DuplicateOrder
  | RateLimited
  | Config string
  | PaginationLimit nat
  | Parse string
  | Invalid (inv_field: string) (inv_reason: string)

definition PAPER_INCOMPATIBLE_CODE :: string where
  "PAPER_INCOMPATIBLE_CODE = ''01900''"

definition is_paper_incompatible :: "string \<Rightarrow> bool" where
  "is_paper_incompatible code = (code = PAPER_INCOMPATIBLE_CODE)"

definition PAPER_ORDER_INCAPABLE_CODE :: string where
  "PAPER_ORDER_INCAPABLE_CODE = ''01491''"

definition is_paper_order_incapable :: "string \<Rightarrow> bool" where
  "is_paper_order_incapable code = (code = PAPER_ORDER_INCAPABLE_CODE)"

fun err_is_paper_incompatible :: "ls_error \<Rightarrow> bool" where
  "err_is_paper_incompatible (ApiError code _) = is_paper_incompatible code"
| "err_is_paper_incompatible _ = False"

fun err_is_paper_order_incapable :: "ls_error \<Rightarrow> bool" where
  "err_is_paper_order_incapable (ApiError code _) = is_paper_order_incapable code"
| "err_is_paper_order_incapable _ = False"

section \<open>The error catalog\<close>

text \<open>
  The catalog itself is the embedded file \<open>metadata/error-catalog.yaml\<close>, so its contents are a
  map given to the look-ups: code to \<open>kind\<close> and \<open>explanation\<close>.
\<close>

record catalog_entry =
  ce_kind :: string
  ce_explanation :: string

definition UNKNOWN_CODE_EXPLANATION :: string where
  "UNKNOWN_CODE_EXPLANATION =
     ''An unrecognized gateway response code. See the LS gateway documentation; the raw broker message is withheld to avoid leaking account data.''"

definition explain :: "(string \<rightharpoonup> catalog_entry) \<Rightarrow> string \<Rightarrow> string option" where
  "explain codes code = map_option ce_explanation (codes code)"

definition explain_or_default :: "(string \<rightharpoonup> catalog_entry) \<Rightarrow> string \<Rightarrow> string" where
  "explain_or_default codes code =
     (case explain codes code of Some t \<Rightarrow> t | None \<Rightarrow> UNKNOWN_CODE_EXPLANATION)"

definition catalog_kind :: "(string \<rightharpoonup> catalog_entry) \<Rightarrow> string \<Rightarrow> string option" where
  "catalog_kind codes code = map_option ce_kind (codes code)"

fun err_explain :: "(string \<rightharpoonup> catalog_entry) \<Rightarrow> ls_error \<Rightarrow> string option" where
  "err_explain codes (ApiError code _) = Some (explain_or_default codes code)"
| "err_explain codes (AmbiguousOrder code _) = Some (explain_or_default codes code)"
| "err_explain codes _ = None"

definition is_ingress_validation_reject :: "string \<Rightarrow> bool" where
  "is_ingress_validation_reject rsp_cd = (rsp_cd = ''IGW40011'')"

section \<open>Response-code classification\<close>

text \<open>A read trusts the generic success codes; an order acknowledgement must not.\<close>

definition rsp_cd_is_success :: "string \<Rightarrow> bool" where
  "rsp_cd_is_success code =
     (if code = [] \<or> code = ''00000'' then True else code \<in> {''00136'', ''00707''})"

datatype order_ack = AckAccepted | AckRejected | AckAmbiguous

definition rsp_cd_is_order_success :: "string \<Rightarrow> bool" where
  "rsp_cd_is_order_success code =
     (code \<in> {''00039'', ''00040'', ''00462'', ''00463'', ''00156'', ''00132''})"

definition classify_order_rsp_cd :: "string \<Rightarrow> order_ack" where
  "classify_order_rsp_cd code =
     (if rsp_cd_is_order_success code then AckAccepted
      else if code = [] \<or> code = ''00000'' then AckAmbiguous
      else AckRejected)"

fun is_retryable :: "ls_error \<Rightarrow> bool" where
  "is_retryable (Http None) = True"
| "is_retryable (Http (Some status)) = (500 \<le> status \<and> status < 600)"
| "is_retryable _ = False"

lemma classify_order_cases:
  "classify_order_rsp_cd code = AckAccepted \<longleftrightarrow> rsp_cd_is_order_success code"
  "classify_order_rsp_cd code = AckAmbiguous \<longleftrightarrow> code = [] \<or> code = ''00000''"
  by (auto simp: classify_order_rsp_cd_def rsp_cd_is_order_success_def)

lemma order_success_not_read_success:
  "rsp_cd_is_order_success code \<Longrightarrow> \<not> rsp_cd_is_success code"
  by (auto simp: rsp_cd_is_order_success_def rsp_cd_is_success_def)

section \<open>The adapter's error\<close>

datatype adapter_error =
    Sdk ls_error
  | UnsupportedDomain string
  | ProductionRefused
  | FieldParse (fp_field: string) (fp_value: string) (fp_reason: string)
  | NoTickBand (nt_price: int) (nt_market: string) (nt_regime: string)
  | AdapterConfig string
  | Ingest string
  | IngestGateway (ig_tr: string) (ig_page: nat) (ig_per_sec: nat) (ig_source: ls_error)
  | OverlapRefused (ov_bar_type: string) (ov_attempted: string) (ov_stored: string)
  | OtherError string

end
