(* ===== verification/Client_Config.thy ===== *)
theory Client_Config
  imports F64 Ls_Error
begin

text \<open>
  \<open>crates/ls-core/src/config.rs\<close>, \<open>config_resolve.rs\<close>, \<open>rate_limiter.rs\<close> and the constructor
  of \<open>client.rs\<close>: environments, credential resolution from environment variables with the
  paper/real interlock, the default table, and the validation a client is built through. The
  process environment is a map of the variables that are set; URL parsing (\<open>reqwest::Url\<close>) is the
  argument \<open>url_parse\<close>, giving scheme and host.
\<close>

section \<open>Environments\<close>

datatype environment = Real | Paper

fun env_base_url :: "environment \<Rightarrow> string" where
  "env_base_url Real = ''https://openapi.ls-sec.co.kr:8080''"
| "env_base_url Paper = ''https://openapi.ls-sec.co.kr:8080''"

fun env_ws_url :: "environment \<Rightarrow> string" where
  "env_ws_url Real = ''wss://openapi.ls-sec.co.kr:9443/websocket''"
| "env_ws_url Paper = ''wss://openapi.ls-sec.co.kr:29443/websocket''"

definition is_paper :: "environment \<Rightarrow> bool" where
  "is_paper e = (e = Paper)"

definition is_production :: "environment \<Rightarrow> bool" where
  "is_production e = (e = Real)"

fun env_display :: "environment \<Rightarrow> string" where
  "env_display Real = ''real''"
| "env_display Paper = ''paper''"

definition env_from_str :: "string \<Rightarrow> ls_error + environment" where
  "env_from_str s =
     (let l = map ascii_lower s
      in if l = ''paper'' then Inr Paper
         else if l = ''real'' then Inr Real
         else Inl (Config (''unknown environment '' @ l)))"

datatype ws_overflow_policy = DropNewest | LatestOnly

record rate_limit_config =
  rl_market_data_per_sec :: "nat option"
  rl_orders_per_sec :: "nat option"
  rl_account_per_sec :: "nat option"
  rl_auth_per_sec :: "nat option"

record ls_config =
  appkey :: string
  appsecretkey :: string
  account_no :: string
  environment :: environment
  rate_limits :: "rate_limit_config option"
  base_url :: "string option"
  ws_base_url :: "string option"
  max_pages :: "nat option"
  connect_timeout_secs :: "nat option"
  request_timeout_secs :: "nat option"
  ws_connect_timeout_secs :: "nat option"
  allow_insecure_localhost :: bool
  ws_channel_capacity :: "nat option"
  ws_overflow :: "ws_overflow_policy option"

definition unwrap_or :: "'a \<Rightarrow> 'a option \<Rightarrow> 'a" where
  "unwrap_or d x = (case x of Some v \<Rightarrow> v | None \<Rightarrow> d)"

lemma unwrap_or_simps [simp]: "unwrap_or d (Some v) = v" "unwrap_or d None = d"
  by (simp_all add: unwrap_or_def)

definition resolve_base_url :: "ls_config \<Rightarrow> string" where
  "resolve_base_url c = unwrap_or (env_base_url (environment c)) (base_url c)"

definition resolve_ws_url :: "ls_config \<Rightarrow> string" where
  "resolve_ws_url c = unwrap_or (env_ws_url (environment c)) (ws_base_url c)"

section \<open>Credentials from the environment\<close>

type_synonym vars = "string \<rightharpoonup> string"

definition env_with_fallback :: "vars \<Rightarrow> string \<Rightarrow> string \<Rightarrow> ls_error + string" where
  "env_with_fallback vars primary legacy =
     (case vars primary of
        Some v \<Rightarrow> Inr v
      | None \<Rightarrow> (case vars legacy of
          Some v \<Rightarrow> Inr v
        | None \<Rightarrow> Inl (Config (''missing env var: '' @ primary @ '' (or '' @ legacy @ '')''))))"

definition resolve_paper_appkey :: "vars \<Rightarrow> ls_error + string" where
  "resolve_paper_appkey vars =
     (let paper = (case vars ''LS_PAPER_APIKEY'' of Some k \<Rightarrow> Some k | None \<Rightarrow> vars ''LS_PAPER_APPKEY'');
          real_capable_set = (vars ''LS_APPKEY'' \<noteq> None \<or> vars ''LS_REAL_APPKEY'' \<noteq> None)
      in case paper of
          Some key \<Rightarrow>
            if real_capable_set
            then Inl (Config ''paper run has both a paper appkey and a real-money-capable appkey set'')
            else Inr key
        | None \<Rightarrow> (case vars ''LS_APPKEY'' of
            Some k \<Rightarrow> Inr k
          | None \<Rightarrow> Inl (Config ''missing env var: LS_PAPER_APIKEY (or LS_PAPER_APPKEY, or legacy LS_APPKEY)'')))"

definition from_env :: "vars \<Rightarrow> ls_error + ls_config" where
  "from_env vars =
     bind_res (env_from_str (unwrap_or ''paper'' (vars ''LS_TRADING_ENV''))) (\<lambda>e.
     bind_res (if is_paper e then resolve_paper_appkey vars
               else env_with_fallback vars ''LS_REAL_APPKEY'' ''LS_APPKEY'') (\<lambda>key.
     let (secret_var, account_var) =
           (if is_paper e then (''LS_PAPER_SECRET'', ''LS_PAPER_ACCOUNT'')
            else (''LS_REAL_SECRET'', ''LS_REAL_ACCOUNT''))
     in bind_res (env_with_fallback vars secret_var ''LS_SECRET'') (\<lambda>secret.
        bind_res (env_with_fallback vars account_var ''LS_ACCOUNT'') (\<lambda>acct.
        Inr \<lparr>appkey = key, appsecretkey = secret, account_no = acct, environment = e,
             rate_limits = None, base_url = None, ws_base_url = None, max_pages = None,
             connect_timeout_secs = None, request_timeout_secs = None,
             ws_connect_timeout_secs = None, allow_insecure_localhost = False,
             ws_channel_capacity = None, ws_overflow = None\<rparr>))))"

section \<open>Resolution of the defaults\<close>

definition DEFAULT_CONNECT_TIMEOUT_SECS :: nat where "DEFAULT_CONNECT_TIMEOUT_SECS = 10"
definition DEFAULT_REQUEST_TIMEOUT_SECS :: nat where "DEFAULT_REQUEST_TIMEOUT_SECS = 30"
definition DEFAULT_WS_CONNECT_TIMEOUT_SECS :: nat where "DEFAULT_WS_CONNECT_TIMEOUT_SECS = 15"
definition DEFAULT_WS_CHANNEL_CAPACITY :: nat where "DEFAULT_WS_CHANNEL_CAPACITY = 64"
definition DEFAULT_MAX_PAGES :: nat where "DEFAULT_MAX_PAGES = 100"
definition DEFAULT_MARKET_DATA_PER_SEC :: nat where "DEFAULT_MARKET_DATA_PER_SEC = 5"
definition DEFAULT_ORDERS_PER_SEC :: nat where "DEFAULT_ORDERS_PER_SEC = 3"
definition DEFAULT_ACCOUNT_PER_SEC :: nat where "DEFAULT_ACCOUNT_PER_SEC = 1"
definition DEFAULT_AUTH_PER_SEC :: nat where "DEFAULT_AUTH_PER_SEC = 1"

record resolved_rate_limits =
  r_market_data_per_sec :: nat
  r_orders_per_sec :: nat
  r_account_per_sec :: nat
  r_auth_per_sec :: nat

definition rate_limits_from_raw :: "rate_limit_config option \<Rightarrow> resolved_rate_limits" where
  "rate_limits_from_raw raw =
     \<lparr>r_market_data_per_sec =
        unwrap_or DEFAULT_MARKET_DATA_PER_SEC (Option.bind raw rl_market_data_per_sec),
      r_orders_per_sec = unwrap_or DEFAULT_ORDERS_PER_SEC (Option.bind raw rl_orders_per_sec),
      r_account_per_sec = unwrap_or DEFAULT_ACCOUNT_PER_SEC (Option.bind raw rl_account_per_sec),
      r_auth_per_sec = unwrap_or DEFAULT_AUTH_PER_SEC (Option.bind raw rl_auth_per_sec)\<rparr>"

record resolved_config =
  rc_appkey :: string
  rc_appsecretkey :: string
  rc_account_no :: string
  rc_environment :: environment
  rc_base_url :: string
  rc_ws_url :: string
  rc_allow_insecure_localhost :: bool
  rc_connect_timeout :: nat
  rc_request_timeout :: nat
  rc_ws_connect_timeout :: nat
  rc_ws_channel_capacity :: nat
  rc_ws_overflow_policy :: ws_overflow_policy
  rc_max_pages :: nat
  rc_rate_limits :: resolved_rate_limits

definition config_from_raw :: "ls_config \<Rightarrow> ls_error + resolved_config" where
  "config_from_raw raw =
     (if ws_channel_capacity raw = Some 0
      then Inl (Config ''ws_channel_capacity must be >= 1 (None uses the SDK default of 64)'')
      else if max_pages raw = Some 0
      then Inl (Config ''max_pages must be >= 1 (None uses the SDK default of 100)'')
      else Inr \<lparr>rc_appkey = appkey raw, rc_appsecretkey = appsecretkey raw,
        rc_account_no = account_no raw, rc_environment = environment raw,
        rc_base_url = resolve_base_url raw, rc_ws_url = resolve_ws_url raw,
        rc_allow_insecure_localhost = allow_insecure_localhost raw,
        rc_connect_timeout = unwrap_or DEFAULT_CONNECT_TIMEOUT_SECS (connect_timeout_secs raw),
        rc_request_timeout = unwrap_or DEFAULT_REQUEST_TIMEOUT_SECS (request_timeout_secs raw),
        rc_ws_connect_timeout = unwrap_or DEFAULT_WS_CONNECT_TIMEOUT_SECS (ws_connect_timeout_secs raw),
        rc_ws_channel_capacity = unwrap_or DEFAULT_WS_CHANNEL_CAPACITY (ws_channel_capacity raw),
        rc_ws_overflow_policy = unwrap_or DropNewest (ws_overflow raw),
        rc_max_pages = unwrap_or DEFAULT_MAX_PAGES (max_pages raw),
        rc_rate_limits = rate_limits_from_raw (rate_limits raw)\<rparr>)"

section \<open>Rate-limit categories and the limiter's constructor\<close>

datatype rate_limit_category = MarketData | Orders | Account | AuthBucket

fun category_as_str :: "rate_limit_category \<Rightarrow> string" where
  "category_as_str MarketData = ''MarketData''"
| "category_as_str Orders = ''Orders''"
| "category_as_str Account = ''Account''"
| "category_as_str AuthBucket = ''Auth''"

text \<open>A bucket of the \<open>governor\<close> crate is known here by its positive quota per second.\<close>

record rate_limiter =
  q_market_data :: nat
  q_orders :: nat
  q_account :: nat
  q_auth :: nat

definition mk_bucket :: "nat \<Rightarrow> string \<Rightarrow> ls_error + nat" where
  "mk_bucket n field = (if n = 0 then Inl (Config (field @ '' must be non-zero'')) else Inr n)"

definition rate_limiter_new :: "resolved_rate_limits \<Rightarrow> ls_error + rate_limiter" where
  "rate_limiter_new l =
     bind_res (mk_bucket (r_market_data_per_sec l) ''market_data_per_sec'') (\<lambda>m.
     bind_res (mk_bucket (r_orders_per_sec l) ''orders_per_sec'') (\<lambda>or.
     bind_res (mk_bucket (r_account_per_sec l) ''account_per_sec'') (\<lambda>a.
     bind_res (mk_bucket (r_auth_per_sec l) ''auth_per_sec'') (\<lambda>u.
       Inr \<lparr>q_market_data = m, q_orders = or, q_account = a, q_auth = u\<rparr>))))"

section \<open>Building a client\<close>

definition loopback_hosts :: "string list" where
  "loopback_hosts = [''127.0.0.1'', ''[::1]'', ''localhost'']"

definition validate_url_scheme ::
    "(string \<Rightarrow> (string \<times> string option) option) \<Rightarrow> string \<Rightarrow> string list \<Rightarrow> bool \<Rightarrow> string \<Rightarrow>
       ls_error + unit" where
  "validate_url_scheme url_parse url allowed_schemes allow_loopback field_name =
     (case url_parse url of
        None \<Rightarrow> Inl (Config (field_name @ '': invalid URL''))
      | Some (scheme, host_str) \<Rightarrow>
          if scheme \<in> set allowed_schemes then Inr ()
          else if allow_loopback \<and> (scheme = ''http'' \<or> scheme = ''ws'') \<and>
                  unwrap_or [] host_str \<in> set loopback_hosts then Inr ()
          else Inl (Config (field_name @ '': scheme '' @ scheme @ ''://'')))"

definition client_new ::
    "(string \<Rightarrow> (string \<times> string option) option) \<Rightarrow> ls_config \<Rightarrow>
       ls_error + resolved_config \<times> rate_limiter" where
  "client_new url_parse c =
     (if appkey c = [] then Inl (Auth ''appkey is required'')
      else if appsecretkey c = [] then Inl (Auth ''appsecretkey is required'')
      else if account_no c = [] then Inl (Auth ''account_no is required'')
      else bind_res (validate_url_scheme url_parse (resolve_base_url c) [''https'']
                       (allow_insecure_localhost c) ''base_url'') (\<lambda>_.
           bind_res (validate_url_scheme url_parse (resolve_ws_url c) [''wss'']
                       (allow_insecure_localhost c) ''ws_base_url'') (\<lambda>_.
           bind_res (config_from_raw c) (\<lambda>resolved.
           bind_res (rate_limiter_new (rc_rate_limits resolved)) (\<lambda>rl. Inr (resolved, rl))))))"

section \<open>Lemmas\<close>

lemma bind_res_eq_Inr: "bind_res r f = Inr b \<longleftrightarrow> (\<exists>a. r = Inr a \<and> f a = Inr b)"
  by (cases r) auto

lemma ascii_lower_idem [simp]: "ascii_lower (ascii_lower c) = ascii_lower c"
  by (simp add: ascii_lower_def Let_def of_char_of)

lemma mk_bucket_Inr: "mk_bucket n f = Inr q \<longleftrightarrow> q = n \<and> 0 < n"
  by (auto simp: mk_bucket_def)

lemma url_scheme_Inr:
  "validate_url_scheme up url schemes loop f = Inr () \<longleftrightarrow>
     (\<exists>s h. up url = Some (s, h) \<and>
        (s \<in> set schemes \<or>
         loop \<and> (s = ''http'' \<or> s = ''ws'') \<and> unwrap_or [] h \<in> set loopback_hosts))"
  by (auto simp: validate_url_scheme_def split: option.splits)

section \<open>Properties\<close>

text \<open>
  The environment name round-trips: what \<open>Display\<close> prints parses back, in any letter case, and
  nothing else parses.
\<close>

theorem environment_roundtrip:
  "env_from_str s = Inr e \<longleftrightarrow> map ascii_lower s = env_display e"
  by (cases e) (auto simp: env_from_str_def Let_def)

text \<open>
  The real-money interlock: a paper configuration never takes its appkey from
  \<open>LS_REAL_APPKEY\<close>, and takes it from a paper variable only when no real-money-capable variable is
  set beside it.
\<close>

theorem paper_interlock:
  assumes "from_env vars = Inr c" and "environment c = Paper"
  shows "(vars ''LS_PAPER_APIKEY'' = Some (appkey c) \<or> vars ''LS_PAPER_APPKEY'' = Some (appkey c)) \<and>
      vars ''LS_APPKEY'' = None \<and> vars ''LS_REAL_APPKEY'' = None
    \<or> vars ''LS_PAPER_APIKEY'' = None \<and> vars ''LS_PAPER_APPKEY'' = None \<and>
      vars ''LS_APPKEY'' = Some (appkey c)"
proof -
  have "resolve_paper_appkey vars = Inr (appkey c)"
    using assms by (auto simp: from_env_def bind_res_eq_Inr is_paper_def Let_def split: if_splits)
  then show ?thesis
    by (auto simp: resolve_paper_appkey_def Let_def split: option.splits if_splits)
qed

definition demo_vars :: vars where
  "demo_vars = [''LS_PAPER_APIKEY'' \<mapsto> ''pk'', ''LS_PAPER_SECRET'' \<mapsto> ''ps'', ''LS_PAPER_ACCOUNT'' \<mapsto> ''acct'']"

theorem paper_interlock_witness:
  "\<exists>c. from_env demo_vars = Inr c \<and> appkey c = ''pk'' \<and>
     (demo_vars ''LS_PAPER_APIKEY'' = Some (appkey c) \<or> demo_vars ''LS_PAPER_APPKEY'' = Some (appkey c))"
proof -
  have l: "env_from_str ''paper'' = Inr Paper" by code_simp
  obtain c where c: "from_env demo_vars = Inr c" "environment c = Paper" "appkey c = ''pk''"
    by (simp add: from_env_def l demo_vars_def is_paper_def resolve_paper_appkey_def env_with_fallback_def)
  with paper_interlock [OF c(1,2)] show ?thesis by (auto simp: demo_vars_def)
qed

text \<open>
  Beside \<open>LS_REAL_APPKEY\<close> the legacy \<open>LS_APPKEY\<close> is still accepted for a paper run: without a
  paper variable the interlock does not look at the real one, so \<open>LS_APPKEY\<close> need not be the sole
  source.
\<close>

theorem paper_accepts_legacy_beside_real:
  "vars ''LS_PAPER_APIKEY'' = None \<Longrightarrow> vars ''LS_PAPER_APPKEY'' = None \<Longrightarrow>
   vars ''LS_REAL_APPKEY'' = Some k \<Longrightarrow> vars ''LS_APPKEY'' = Some k \<Longrightarrow>
     resolve_paper_appkey vars = Inr k"
  by (simp add: resolve_paper_appkey_def Let_def)

theorem paper_accepts_legacy_beside_real_witness:
  "resolve_paper_appkey [''LS_REAL_APPKEY'' \<mapsto> ''real-key'', ''LS_APPKEY'' \<mapsto> ''real-key''] = Inr ''real-key''"
  by (rule paper_accepts_legacy_beside_real) simp_all

text \<open>
  C40. A client that was built is usable: credentials are not empty, each URL uses TLS or, under the
  loopback opt-in, plain text to one of the three names of the local host and to no other; every rate
  bucket replenishes, at least one page is collected and the subscription channel holds a frame.
\<close>

theorem client_new_validated:
  assumes "client_new up c = Inr (r, rl)"
  shows "rc_appkey r \<noteq> [] \<and> rc_appsecretkey r \<noteq> [] \<and> rc_account_no r \<noteq> [] \<and>
    1 \<le> rc_max_pages r \<and> 1 \<le> rc_ws_channel_capacity r \<and>
    0 < q_market_data rl \<and> 0 < q_orders rl \<and> 0 < q_account rl \<and> 0 < q_auth rl \<and>
    rc_base_url r = resolve_base_url c \<and> rc_ws_url r = resolve_ws_url c \<and>
    (\<forall>(url, tls)\<in>{(rc_base_url r, ''https''), (rc_ws_url r, ''wss'')}. \<exists>s h. up url = Some (s, h) \<and>
      (s = tls \<or> rc_allow_insecure_localhost r \<and> s \<in> {''http'', ''ws''} \<and>
        h \<in> {Some ''127.0.0.1'', Some ''[::1]'', Some ''localhost''}))"
proof -
  have cred: "appkey c \<noteq> []" "appsecretkey c \<noteq> []" "account_no c \<noteq> []"
    and urls: "validate_url_scheme up (resolve_base_url c) [''https''] (allow_insecure_localhost c)
        ''base_url'' = Inr ()"
      "validate_url_scheme up (resolve_ws_url c) [''wss''] (allow_insecure_localhost c)
        ''ws_base_url'' = Inr ()"
    and res: "config_from_raw c = Inr r" and lim: "rate_limiter_new (rc_rate_limits r) = Inr rl"
    using assms by (auto simp: client_new_def bind_res_eq_Inr split: if_splits)
  have "0 < q_market_data rl \<and> 0 < q_orders rl \<and> 0 < q_account rl \<and> 0 < q_auth rl"
    using lim by (auto simp: rate_limiter_new_def bind_res_eq_Inr mk_bucket_Inr)
  moreover have "1 \<le> rc_max_pages r" "1 \<le> rc_ws_channel_capacity r"
    using res by (auto simp: config_from_raw_def unwrap_or_def DEFAULT_MAX_PAGES_def
        DEFAULT_WS_CHANNEL_CAPACITY_def split: if_splits option.splits)
  moreover have "h \<in> {Some ''127.0.0.1'', Some ''[::1]'', Some ''localhost''}" if "unwrap_or [] h \<in> set loopback_hosts" for h
    using that by (cases h) (auto simp: unwrap_or_def loopback_hosts_def)
  ultimately show ?thesis
    using cred urls res by (auto simp: config_from_raw_def url_scheme_Inr split: if_splits)
qed

theorem client_new_validated_witness:
  "\<exists>r rl c. client_new (\<lambda>u. if u = ''http://localhost:1'' then Some (''http'', Some ''localhost'')
       else Some (''wss'', None)) c = Inr (r, rl) \<and> rc_base_url r = ''http://localhost:1'' \<and>
     rc_allow_insecure_localhost r \<and> 1 \<le> rc_max_pages r"
proof -
  let ?up = "\<lambda>u. if u = ''http://localhost:1'' then Some (''http'', Some ''localhost'')
       else Some (''wss'', None) :: (string \<times> string option) option"
  let ?c = "\<lparr>appkey = ''k'', appsecretkey = ''s'', account_no = ''a'', environment = Paper,
     rate_limits = None, base_url = Some ''http://localhost:1'', ws_base_url = None, max_pages = None,
     connect_timeout_secs = None, request_timeout_secs = None, ws_connect_timeout_secs = None,
     allow_insecure_localhost = True, ws_channel_capacity = None, ws_overflow = None\<rparr>"
  obtain r rl where c: "client_new ?up ?c = Inr (r, rl)"
    by (simp add: client_new_def resolve_base_url_def resolve_ws_url_def validate_url_scheme_def
        config_from_raw_def rate_limiter_new_def rate_limits_from_raw_def mk_bucket_def
        DEFAULT_MARKET_DATA_PER_SEC_def DEFAULT_ORDERS_PER_SEC_def DEFAULT_ACCOUNT_PER_SEC_def
        DEFAULT_AUTH_PER_SEC_def unwrap_or_def loopback_hosts_def)
  note v = client_new_validated [OF c]
  then have "rc_base_url r = ''http://localhost:1''" by (simp add: resolve_base_url_def)
  moreover from this v have "rc_allow_insecure_localhost r" by auto
  ultimately show ?thesis using c v by blast
qed

end
