(* ===== verification/Order_Dedup.thy ===== *)
theory Order_Dedup
  imports Ls_Error
begin

text \<open>
  \<open>crates/ls-core/src/order_dedup.rs\<close>: the order deduplicator, a cache of accepted responses with
  a time to live, and the set of keys being dispatched. Instants and durations are nanoseconds;
  every read of the clock is an argument. The order key is a digest, and the digest function
  (\<open>sha2\<close>) is the argument \<open>sha\<close>.
\<close>

section \<open>State\<close>

record 'v cache_entry =
  entry_value :: 'v
  inserted :: nat

record 'v dedup =
  cache :: "(string \<times> 'v cache_entry) list"
  in_flight :: "string set"
  ttl :: nat
  created :: nat
  last_sweep_millis :: nat
  hits :: nat

definition nanos_per_sec :: nat where "nanos_per_sec = 1000000000"
definition nanos_per_milli :: nat where "nanos_per_milli = 1000000"

definition DEFAULT_TTL :: nat where "DEFAULT_TTL = 300 * nanos_per_sec"
definition SWEEP_INTERVAL :: nat where "SWEEP_INTERVAL = 30 * nanos_per_sec"

definition dedup_new :: "nat \<Rightarrow> nat \<Rightarrow> 'v dedup" where
  "dedup_new ttl_ns now =
     \<lparr>cache = [], in_flight = {}, ttl = ttl_ns, created = now, last_sweep_millis = 0, hits = 0\<rparr>"

definition with_default_ttl :: "nat \<Rightarrow> 'v dedup" where
  "with_default_ttl now = dedup_new DEFAULT_TTL now"

text \<open>\<open>Instant::elapsed\<close> saturates at zero; \<open>nat\<close> subtraction does the same.\<close>

definition elapsed :: "nat \<Rightarrow> nat \<Rightarrow> nat" where
  "elapsed since now = now - since"

section \<open>Operations\<close>

definition count_hit :: "'v dedup \<Rightarrow> 'v dedup" where
  "count_hit d = d\<lparr>hits := (hits d + 1) mod 2 ^ 64\<rparr>"

definition hit_count :: "'v dedup \<Rightarrow> nat" where
  "hit_count d = hits d"

text \<open>The guard returned on success is the reserved key; dropping it releases the key.\<close>

definition try_reserve :: "'v dedup \<Rightarrow> string \<Rightarrow> string option \<times> 'v dedup" where
  "try_reserve d key =
     (if key \<in> in_flight d then (None, count_hit d)
      else (Some key, d\<lparr>in_flight := insert key (in_flight d)\<rparr>))"

definition drop_reservation :: "'v dedup \<Rightarrow> string \<Rightarrow> 'v dedup" where
  "drop_reservation d key = d\<lparr>in_flight := in_flight d - {key}\<rparr>"

definition hex_digit :: "nat \<Rightarrow> char" where
  "hex_digit n = (if n < 10 then char_of (48 + n) else char_of (87 + n))"

definition hex :: "nat list \<Rightarrow> string" where
  "hex bytes = concat (map (\<lambda>b. [hex_digit (b div 16), hex_digit (b mod 16)]) bytes)"

definition key_message :: "string \<Rightarrow> string \<Rightarrow> string \<Rightarrow> string" where
  "key_message account_no tr_code body = account_no @ '':'' @ tr_code @ '':'' @ body"

definition dedup_key ::
    "(string \<Rightarrow> nat list) \<Rightarrow> ('req \<Rightarrow> string option) \<Rightarrow> string \<Rightarrow> string \<Rightarrow> 'req \<Rightarrow> ls_error + string" where
  "dedup_key sha to_string account_no tr_code req =
     (case to_string req of
        None \<Rightarrow> Inl (Decode ''to_string'')
      | Some body \<Rightarrow> Inr (hex (sha (key_message account_no tr_code body))))"

text \<open>
  A look-up reads the clock twice: once under the short read guard, once more when it evicts.
\<close>

definition dedup_get :: "'v dedup \<Rightarrow> string \<Rightarrow> nat \<Rightarrow> nat \<Rightarrow> 'v option \<times> 'v dedup" where
  "dedup_get d key t1 t2 =
     (let live = (case map_of (cache d) key of
            Some e \<Rightarrow> if elapsed (inserted e) t1 < ttl d then Some (entry_value e) else None
          | None \<Rightarrow> None)
      in case live of
          Some v \<Rightarrow> (Some v, count_hit d)
        | None \<Rightarrow>
            (None, (case map_of (cache d) key of
               Some e \<Rightarrow> if ttl d \<le> elapsed (inserted e) t2
                 then d\<lparr>cache := AList.delete key (cache d)\<rparr> else d
             | None \<Rightarrow> d)))"

text \<open>
  The sweep gate reads the clock at \<open>t1\<close> and \<open>retain\<close> runs at \<open>t2\<close>; \<open>won\<close> is the outcome of the
  compare-exchange, lost only to a concurrent sweeper.
\<close>

definition retain_live :: "'v dedup \<Rightarrow> nat \<Rightarrow> (string \<times> 'v cache_entry) list" where
  "retain_live d t = filter (\<lambda>(k, e). elapsed (inserted e) t < ttl d) (cache d)"

definition sweep_expired_if_due :: "'v dedup \<Rightarrow> bool \<Rightarrow> nat \<Rightarrow> nat \<Rightarrow> 'v dedup" where
  "sweep_expired_if_due d won t1 t2 =
     (let now_millis = (elapsed (created d) t1 div nanos_per_milli) mod 2 ^ 64
      in if now_millis - last_sweep_millis d < SWEEP_INTERVAL div nanos_per_milli then d
         else if \<not> won then d
         else d\<lparr>last_sweep_millis := now_millis, cache := retain_live d t2\<rparr>)"

definition dedup_insert ::
    "'v dedup \<Rightarrow> string \<Rightarrow> 'v \<Rightarrow> bool \<Rightarrow> nat \<Rightarrow> nat \<Rightarrow> nat \<Rightarrow> 'v dedup" where
  "dedup_insert d key v won t1 t2 t3 =
     (let d' = sweep_expired_if_due d won t1 t2
      in d'\<lparr>cache := AList.update key \<lparr>entry_value = v, inserted = t3\<rparr> (cache d')\<rparr>)"

definition dedup_len :: "'v dedup \<Rightarrow> nat" where
  "dedup_len d = length (cache d)"

definition dedup_is_empty :: "'v dedup \<Rightarrow> bool" where
  "dedup_is_empty d = (cache d = [])"

section \<open>What a look-up sees\<close>

definition peek :: "'v dedup \<Rightarrow> string \<Rightarrow> nat \<Rightarrow> 'v option" where
  "peek d key t =
     (case map_of (cache d) key of
        Some e \<Rightarrow> if elapsed (inserted e) t < ttl d then Some (entry_value e) else None
      | None \<Rightarrow> None)"

definition wf_dedup :: "'v dedup \<Rightarrow> bool" where
  "wf_dedup d = wf_map (cache d)"

lemma dedup_get_peek: "fst (dedup_get d key t1 t2) = peek d key t1"
  by (auto simp: dedup_get_def peek_def Let_def split: option.splits)

lemma dedup_get_hit: "peek d key t1 = Some v \<Longrightarrow> dedup_get d key t1 t2 = (Some v, count_hit d)"
  by (auto simp: dedup_get_def peek_def Let_def split: option.splits if_splits)

lemma dedup_get_frame:
  "in_flight (snd (dedup_get d key t1 t2)) = in_flight d" "ttl (snd (dedup_get d key t1 t2)) = ttl d"
  by (auto simp: dedup_get_def count_hit_def Let_def split: option.splits)

lemma dedup_insert_frame:
  "in_flight (dedup_insert d key v won t1 t2 t3) = in_flight d"
  "ttl (dedup_insert d key v won t1 t2 t3) = ttl d"
  by (simp_all add: dedup_insert_def sweep_expired_if_due_def Let_def)

lemma wf_dedup_get [simp]: "wf_dedup d \<Longrightarrow> wf_dedup (snd (dedup_get d key t1 t2))"
  by (auto simp: wf_dedup_def dedup_get_def count_hit_def Let_def split: option.splits)

lemma wf_dedup_insert [simp]: "wf_dedup d \<Longrightarrow> wf_dedup (dedup_insert d key v won t1 t2 t3)"
  by (simp add: wf_dedup_def dedup_insert_def sweep_expired_if_due_def retain_live_def Let_def)

lemma wf_dedup_new [simp]: "wf_dedup (dedup_new t now)"
  by (simp add: wf_dedup_def dedup_new_def)

lemma peek_sweep:
  assumes "wf_dedup d" "t2 \<le> t" "peek d key t = Some v"
  shows "peek (sweep_expired_if_due d won t1 t2) key t = Some v"
proof -
  obtain e where e: "map_of (cache d) key = Some e" "elapsed (inserted e) t < ttl d" "entry_value e = v"
    using assms(3) by (auto simp: peek_def split: option.splits if_splits)
  then have "elapsed (inserted e) t2 < ttl d" using assms(2) by (auto simp: elapsed_def)
  then have "map_of (retain_live d t2) key = Some e"
    using assms(1) e by (simp add: retain_live_def wf_dedup_def map_of_filter_pred)
  then show ?thesis
    using e by (simp add: peek_def sweep_expired_if_due_def Let_def)
qed

lemma peek_sweep_only:
  assumes "wf_dedup d" "peek (sweep_expired_if_due d won t1 t2) key t = Some v"
  shows "peek d key t = Some v"
proof -
  let ?d = "sweep_expired_if_due d won t1 t2"
  obtain e where e: "map_of (cache ?d) key = Some e" "elapsed (inserted e) t < ttl ?d" "entry_value e = v"
    using assms(2) by (auto simp: peek_def split: option.splits if_splits)
  have "ttl ?d = ttl d" "cache ?d = cache d \<or> cache ?d = retain_live d t2"
    by (simp_all add: sweep_expired_if_due_def Let_def)
  moreover have "map_of (cache d) key = Some e" if "map_of (retain_live d t2) key = Some e"
    using that assms(1)
    by (auto simp: retain_live_def wf_dedup_def map_of_filter_pred split: option.splits if_splits)
  ultimately show ?thesis using e by (auto simp: peek_def)
qed

lemma peek_insert_same:
  "t3 \<le> t \<Longrightarrow> t < t3 + ttl d \<Longrightarrow> peek (dedup_insert d key v won t1 t2 t3) key t = Some v"
  by (auto simp: peek_def dedup_insert_def sweep_expired_if_due_def elapsed_def Let_def)

lemma peek_insert_other:
  "key' \<noteq> key \<Longrightarrow> peek (dedup_insert d key v won t1 t2 t3) key' t =
     peek (sweep_expired_if_due d won t1 t2) key' t"
  by (simp add: peek_def dedup_insert_def Let_def split: option.split)

lemma peek_get_other:
  "key' \<noteq> key \<Longrightarrow> peek (snd (dedup_get d key t1 t2)) key' t = peek d key' t"
  by (auto simp: dedup_get_def peek_def count_hit_def map_of_delete Let_def split: option.split)

lemma peek_cong: "map_of (cache d') k = map_of (cache d) k \<Longrightarrow> ttl d' = ttl d \<Longrightarrow> peek d' k t = peek d k t"
  by (simp add: peek_def split: option.split)

lemma dedup_get_cache:
  "map_of (cache (snd (dedup_get d key t1 t2))) key' \<in> {None, map_of (cache d) key'}"
  by (auto simp: dedup_get_def count_hit_def Let_def split: option.split)

lemma peek_get_only:
  assumes "peek (snd (dedup_get d key t1 t2)) key' t = Some v"
  shows "peek d key' t = Some v"
proof -
  let ?d = "snd (dedup_get d key t1 t2)"
  have "map_of (cache ?d) key' = map_of (cache d) key'"
    using assms dedup_get_cache [of d key t1 t2 key'] by (auto simp: peek_def)
  with peek_cong [OF this dedup_get_frame(2), of t] assms show ?thesis by simp
qed

lemma peek_count_hit [simp]: "peek (count_hit d) key t = peek d key t"
  by (rule peek_cong) (simp_all add: count_hit_def)

lemma peek_in_flight [simp]: "peek (d\<lparr>in_flight := s\<rparr>) key t = peek d key t"
  by (rule peek_cong) simp_all

section \<open>The cache as an interface\<close>

text \<open>
  What \<open>post_order\<close> needs of a response cache: a value put is found again under its key until its
  time to live has passed, whatever else is put meanwhile, and nothing is found that was not put.
  \<open>put\<close> carries the instant of insertion; \<open>ok\<close> is the cache's own invariant.
\<close>

locale ttl_cache =
  fixes ok :: "'s \<Rightarrow> bool"
    and life :: "'s \<Rightarrow> nat"
    and find :: "'s \<Rightarrow> 'k \<Rightarrow> nat \<Rightarrow> 'v option"
    and put :: "'s \<Rightarrow> 'k \<Rightarrow> 'v \<Rightarrow> nat \<Rightarrow> 's"
  assumes ok_put: "ok s \<Longrightarrow> ok (put s k v t)"
    and life_put: "life (put s k v t) = life s"
    and find_put_same: "ok s \<Longrightarrow> t \<le> t' \<Longrightarrow> t' < t + life s \<Longrightarrow> find (put s k v t) k t' = Some v"
    and find_put_other: "ok s \<Longrightarrow> k' \<noteq> k \<Longrightarrow> t \<le> t' \<Longrightarrow> find s k' t' = Some w \<Longrightarrow>
      find (put s k v t) k' t' = Some w"
    and find_put_only: "ok s \<Longrightarrow> find (put s k v t) k' t' = Some w \<Longrightarrow>
      (k' = k \<and> w = v) \<or> find s k' t' = Some w"
begin

fun puts :: "'s \<Rightarrow> ('k \<times> 'v \<times> nat) list \<Rightarrow> 's" where
  "puts s [] = s"
| "puts s ((k, v, t) # xs) = puts (put s k v t) xs"

lemma ok_puts: "ok s \<Longrightarrow> ok (puts s xs)"
  by (induction s xs rule: puts.induct) (simp_all add: ok_put)

lemma life_puts: "life (puts s xs) = life s"
  by (induction s xs rule: puts.induct) (simp_all add: life_put)

lemma find_puts_keep:
  assumes "ok s" "find s k t' = Some v" "\<forall>(k', v', t) \<in> set xs. k' \<noteq> k \<and> t \<le> t'"
  shows "find (puts s xs) k t' = Some v"
  using assms by (induction s xs rule: puts.induct) (auto intro: ok_put find_put_other)

lemma find_after_put:
  assumes "ok s" "t \<le> t'" "t' < t + life s" "\<forall>(k', v', u) \<in> set xs. k' \<noteq> k \<and> u \<le> t'"
  shows "find (puts (put s k v t) xs) k t' = Some v"
  using assms by (intro find_puts_keep ok_put find_put_same)

lemma find_puts_only:
  "ok s \<Longrightarrow> find (puts s xs) k t = Some v \<Longrightarrow> (\<exists>u. (k, v, u) \<in> set xs) \<or> find s k t = Some v"
proof (induction s xs rule: puts.induct)
  case (2 s k' v' t' xs)
  then consider "\<exists>u. (k, v, u) \<in> set xs" | "find (put s k' v' t') k t = Some v"
    using ok_put by auto
  then show ?case
    using find_put_only [OF "2.prems"(1), of k' v' t' k t v] by cases auto
qed simp

end

text \<open>The deduplicator is such a cache, with the insertion reading the clock once for all uses.\<close>

definition dedup_put :: "'v dedup \<Rightarrow> string \<Rightarrow> 'v \<Rightarrow> nat \<Rightarrow> 'v dedup" where
  "dedup_put d key v t = dedup_insert d key v True t t t"

interpretation dc: ttl_cache wf_dedup ttl peek dedup_put
proof unfold_locales
  fix s :: "'a dedup" and k k' :: string and v w :: 'a and t t' :: nat
  assume ok: "wf_dedup s"
  show "wf_dedup (dedup_put s k v t)" using ok by (simp add: dedup_put_def)
  show "peek (dedup_put s k v t) k t' = Some v" if "t \<le> t'" "t' < t + ttl s"
    using that by (simp add: dedup_put_def peek_insert_same)
  show "peek (dedup_put s k v t) k' t' = Some w" if "k' \<noteq> k" "t \<le> t'" "peek s k' t' = Some w"
    using that ok by (simp add: dedup_put_def peek_insert_other peek_sweep)
  show "(k' = k \<and> w = v) \<or> peek s k' t' = Some w" if "peek (dedup_put s k v t) k' t' = Some w"
  proof (cases "k' = k")
    case True
    with that show ?thesis
      by (auto simp: dedup_put_def peek_def dedup_insert_def Let_def split: if_splits)
  next
    case False
    with that ok show ?thesis
      by (auto simp: dedup_put_def peek_insert_other dest: peek_sweep_only)
  qed
qed (simp add: dedup_put_def dedup_insert_frame)

section \<open>Keys\<close>

lemma hex_digit_code:
  "n < 16 \<Longrightarrow> (of_char (hex_digit n) :: nat) = (if n < 10 then 48 + n else 87 + n)"
  by (simp add: hex_digit_def of_char_of)

lemma hex_digit_inj:
  assumes "a < 16" "b < 16" "hex_digit a = hex_digit b"
  shows "a = b"
proof -
  have "(if a < 10 then 48 + a else 87 + a) = (if b < 10 then 48 + b else 87 + b)"
    using arg_cong [OF assms(3), of "of_char :: char \<Rightarrow> nat"]
    unfolding hex_digit_code [OF assms(1)] hex_digit_code [OF assms(2)] .
  then show ?thesis using assms(1,2) by (auto split: if_splits)
qed

lemma hex_inj:
  "\<forall>b \<in> set xs. b < 256 \<Longrightarrow> \<forall>b \<in> set ys. b < 256 \<Longrightarrow> hex xs = hex ys \<Longrightarrow> xs = ys"
proof (induction xs arbitrary: ys)
  case Nil
  then show ?case by (cases ys) (simp_all add: hex_def)
next
  case (Cons x xs)
  then obtain y ys' where y: "ys = y # ys'" by (cases ys) (simp_all add: hex_def)
  with Cons.prems have eq: "hex_digit (x div 16) = hex_digit (y div 16)"
    "hex_digit (x mod 16) = hex_digit (y mod 16)" "hex xs = hex ys'"
    by (simp_all add: hex_def)
  have lt: "x div 16 < 16" "y div 16 < 16" using Cons.prems y by auto
  have "x div 16 = y div 16" by (rule hex_digit_inj [OF lt eq(1)])
  moreover have "x mod 16 = y mod 16" by (rule hex_digit_inj [OF _ _ eq(2)]) simp_all
  ultimately have "x = y" by (metis div_mult_mod_eq)
  moreover have "xs = ys'" using Cons.prems y eq(3) by (intro Cons.IH) simp_all
  ultimately show ?case using y by simp
qed

lemma split_at_colon:
  "CHR '':'' \<notin> set a \<Longrightarrow> CHR '':'' \<notin> set b \<Longrightarrow> a @ CHR '':'' # x = b @ CHR '':'' # y \<Longrightarrow> a = b \<and> x = y"
proof (induction a arbitrary: b)
  case Nil
  then show ?case by (cases b) auto
next
  case (Cons c a)
  then show ?case by (cases b) auto
qed

section \<open>Properties\<close>

text \<open>
  Two orders share a key only if they are the same order: with a collision-free digest, equal
  keys mean equal account, equal TR code and byte-identical canonical request.
\<close>

theorem key_identifies_order:
  assumes sha: "inj sha" "\<And>m b. b \<in> set (sha m) \<Longrightarrow> b < 256"
    and colon: "CHR '':'' \<notin> set acct" "CHR '':'' \<notin> set acct'" "CHR '':'' \<notin> set tr" "CHR '':'' \<notin> set tr'"
    and keys: "dedup_key sha ser acct tr req = Inr k" "dedup_key sha ser acct' tr' req' = Inr k"
  shows "acct = acct' \<and> tr = tr' \<and> ser req = ser req'"
proof -
  obtain b b' where b: "ser req = Some b" "ser req' = Some b'"
    "k = hex (sha (key_message acct tr b))" "k = hex (sha (key_message acct' tr' b'))"
    using keys by (auto simp: dedup_key_def split: option.splits)
  then have "sha (key_message acct tr b) = sha (key_message acct' tr' b')"
    using hex_inj sha(2) by metis
  then have "key_message acct tr b = key_message acct' tr' b'" using sha(1) by (simp add: inj_eq)
  then have "acct = acct' \<and> tr @ CHR '':'' # b = tr' @ CHR '':'' # b'"
    using split_at_colon [OF colon(1,2)] by (simp add: key_message_def)
  with b show ?thesis using split_at_colon [OF colon(3,4)] by auto
qed

theorem key_identifies_order_witness:
  "dedup_key (map of_char) Some ''A'' ''T'' ''1'' = dedup_key (map of_char) Some ''A'' ''T'' ''1'' \<and>
   (\<forall>req k. dedup_key (map of_char) Some ''A'' ''T'' req = Inr k \<and>
      dedup_key (map of_char) Some ''A'' ''T'' ''1'' = Inr k \<longrightarrow> Some req = Some ''1'')"
proof -
  have i: "inj (map of_char :: string \<Rightarrow> nat list)" by (auto intro: inj_mapI simp: inj_def)
  have b: "b < 256" if "b \<in> set (map of_char (m :: string))" for m and b :: nat
  proof -
    from that obtain c :: char where "b = of_char c" by auto
    then show ?thesis by simp
  qed
  show ?thesis
    using key_identifies_order [where sha = "map of_char" and ser = Some and acct = "''A''"
        and acct' = "''A''" and tr = "''T''" and tr' = "''T''" and req' = "''1''", OF i b] by auto
qed

end
