(* ===== verification/Json.thy ===== *)
theory Json
  imports Prelude
begin

text \<open>
  \<open>serde_json::Value\<close> as the source uses it: look-up by key, \<open>as_str\<close>, insertion into an object
  (a \<open>BTreeMap\<close>, so entries are listed in key order). A number carries the two texts the source
  can see: the one \<open>serde_json\<close> prints, and \<open>Display\<close> of the \<open>u64\<close>, \<open>i64\<close> or \<open>f64\<close> a visitor
  gets (\<open>86400.0\<close> and \<open>86400\<close> for one number).
\<close>

datatype json =
    JNull
  | JBool bool
  | JNum (json_print: string) (visit_print: string)
  | JStr string
  | JArr "json list"
  | JObj "(string \<times> json) list"

fun obj_insert :: "string \<Rightarrow> 'v \<Rightarrow> (string \<times> 'v) list \<Rightarrow> (string \<times> 'v) list" where
  "obj_insert k v [] = [(k, v)]"
| "obj_insert k v ((k', v') # m) =
     (if k < k' then (k, v) # (k', v') # m
      else if k = k' then (k, v) # m
      else (k', v') # obj_insert k v m)"

definition jget :: "json \<Rightarrow> string \<Rightarrow> json option" where
  "jget v k = (case v of JObj m \<Rightarrow> map_of m k | _ \<Rightarrow> None)"

definition as_str :: "json \<Rightarrow> string option" where
  "as_str v = (case v of JStr s \<Rightarrow> Some s | _ \<Rightarrow> None)"

definition jget_str :: "json \<Rightarrow> string \<Rightarrow> string option" where
  "jget_str v k = Option.bind (jget v k) as_str"

definition jset :: "json \<Rightarrow> string \<Rightarrow> json \<Rightarrow> json" where
  "jset base k v = (case base of JObj m \<Rightarrow> JObj (obj_insert k v m) | _ \<Rightarrow> base)"

definition is_object :: "json \<Rightarrow> bool" where
  "is_object v = (case v of JObj _ \<Rightarrow> True | _ \<Rightarrow> False)"

lemma map_of_obj_insert [simp]: "map_of (obj_insert k v m) = (map_of m)(k \<mapsto> v)"
  by (induction k v m rule: obj_insert.induct) (auto simp: fun_upd_twist)

lemma jget_jset [simp]:
  "is_object base \<Longrightarrow> jget (jset base k v) k' = (if k' = k then Some v else jget base k')"
  by (cases base) (auto simp: jget_def jset_def is_object_def)

lemma is_object_jset [simp]: "is_object (jset base k v) = is_object base"
  by (cases base) (auto simp: jset_def is_object_def)

end
