(* ===== verification/Preflight.thy ===== *)
theory Preflight
  imports F64 Json Ls_Error
begin

text \<open>
  \<open>crates/ls-core/src/preflight.rs\<close>: the declarative request constraints, the validation that runs
  before any network call, and the generator of invalid variants the negative probe fires. The
  embedded schemas (\<open>metadata/constraints\<close>) are a map given to \<open>preflight_request\<close>; the Unicode
  tables behind \<open>char::is_alphanumeric\<close> beyond ASCII are the argument \<open>uni\<close>.
\<close>

section \<open>Constraint schemas\<close>

datatype field_type = FtString | FtInteger | FtNumber

record enum_rule =
  er_applicable :: bool
  er_values :: "string list"
  er_confirmed :: bool

record range_rule =
  rr_applicable :: bool
  rr_min :: "int option"
  rr_max :: "int option"
  rr_confirmed :: bool

datatype format_kind = Symbol | Date

record format_rule =
  fr_applicable :: bool
  fr_kind :: "format_kind option"
  fr_confirmed :: bool

record field_constraint =
  fc_name :: string
  fc_type :: field_type
  fc_required :: bool
  fc_enum :: enum_rule
  fc_range :: range_rule
  fc_format :: format_rule
  fc_gateway_tolerant :: "string list"
  fc_placed_nothing_codes :: "(string \<times> string list) list"
  fc_booking_determining :: "string list"

datatype cross_field_rule =
  DateOrder (do_start: string) (do_end: string) (do_confirmed: bool) (do_gateway_tolerant: bool)

record constraint_schema =
  cs_tr_code :: string
  cs_fields :: "field_constraint list"
  cs_cross_field :: "cross_field_rule list"

record preflight_error =
  pe_field :: string
  pe_reason :: string

definition preflight_error_to_ls :: "preflight_error \<Rightarrow> ls_error" where
  "preflight_error_to_ls e = Invalid (pe_field e) (pe_reason e)"

section \<open>Validation\<close>

definition scalar :: "json \<Rightarrow> string \<Rightarrow> string option" where
  "scalar v field =
     (case jget v field of
        Some (JStr s) \<Rightarrow> Some s
      | Some (JNum n _) \<Rightarrow> Some n
      | _ \<Rightarrow> None)"

definition present :: "json \<Rightarrow> string \<Rightarrow> bool" where
  "present v field = (case scalar v field of Some s \<Rightarrow> s \<noteq> [] | None \<Rightarrow> False)"

text \<open>UTF-8 decoding of the bytes of a valid string into code points (\<open>str::chars\<close>).\<close>

fun decode_utf8 :: "nat list \<Rightarrow> nat list" where
  "decode_utf8 [] = []"
| "decode_utf8 (a # bs) =
     (if a < 128 then a # decode_utf8 bs
      else if a < 224 then
        (case bs of b # bs' \<Rightarrow> ((a - 192) * 64 + (b - 128)) # decode_utf8 bs' | [] \<Rightarrow> [a])
      else if a < 240 then
        (case bs of b # c # bs' \<Rightarrow>
           ((a - 224) * 4096 + (b - 128) * 64 + (c - 128)) # decode_utf8 bs' | _ \<Rightarrow> [a])
      else
        (case bs of b # c # d # bs' \<Rightarrow>
           ((a - 240) * 262144 + (b - 128) * 4096 + (c - 128) * 64 + (d - 128)) # decode_utf8 bs'
         | _ \<Rightarrow> [a]))"

definition is_alphanumeric :: "(nat \<Rightarrow> bool) \<Rightarrow> nat \<Rightarrow> bool" where
  "is_alphanumeric uni c =
     (if c < 128 then (48 \<le> c \<and> c \<le> 57) \<or> (65 \<le> c \<and> c \<le> 90) \<or> (97 \<le> c \<and> c \<le> 122) else uni c)"

definition format_ok :: "(nat \<Rightarrow> bool) \<Rightarrow> format_kind \<Rightarrow> string \<Rightarrow> bool" where
  "format_ok uni kind s =
     (case kind of
        Symbol \<Rightarrow> s \<noteq> [] \<and> list_all (is_alphanumeric uni) (decode_utf8 (map of_char s))
      | Date \<Rightarrow> length s = 8 \<and> list_all is_digit s)"

definition blocked :: "string \<Rightarrow> string \<Rightarrow> preflight_error + unit" where
  "blocked field reason = Inl \<lparr>pe_field = field, pe_reason = reason\<rparr>"

definition check_type :: "field_constraint \<Rightarrow> string \<Rightarrow> preflight_error + unit" where
  "check_type f s =
     (case fc_type f of
        FtString \<Rightarrow> Inr ()
      | FtInteger \<Rightarrow>
          if parse_i64 s = None
          then blocked (fc_name f) (''must be an integer, got `'' @ s @ ''`'') else Inr ()
      | FtNumber \<Rightarrow>
          if parse_f64 s = None
          then blocked (fc_name f) (''must be a number, got `'' @ s @ ''`'') else Inr ())"

definition check_enum :: "field_constraint \<Rightarrow> string \<Rightarrow> preflight_error + unit" where
  "check_enum f s =
     (let r = fc_enum f
      in if er_applicable r \<and> er_confirmed r \<and> s \<notin> set (er_values r)
         then blocked (fc_name f)
                (''must be one of ['' @ join '', '' (er_values r) @ ''], got `'' @ s @ ''`'')
         else Inr ())"

definition check_range :: "field_constraint \<Rightarrow> string \<Rightarrow> preflight_error + unit" where
  "check_range f s =
     (let r = fc_range f
      in if rr_applicable r \<and> rr_confirmed r
         then case parse_f64 s of
             None \<Rightarrow> Inr ()
           | Some n \<Rightarrow>
               bind_res
                 (case rr_min r of
                    Some lo \<Rightarrow> if f64_less n (f64_of_i64 lo)
                      then blocked (fc_name f) (''must be >= '' @ show_int lo @ '', got '' @ s)
                      else Inr ()
                  | None \<Rightarrow> Inr ())
                 (\<lambda>_. case rr_max r of
                    Some hi \<Rightarrow> if f64_less (f64_of_i64 hi) n
                      then blocked (fc_name f) (''must be <= '' @ show_int hi @ '', got '' @ s)
                      else Inr ()
                  | None \<Rightarrow> Inr ())
         else Inr ())"

definition check_format :: "(nat \<Rightarrow> bool) \<Rightarrow> field_constraint \<Rightarrow> string \<Rightarrow> preflight_error + unit" where
  "check_format uni f s =
     (let r = fc_format f
      in if fr_applicable r \<and> fr_confirmed r
         then case fr_kind r of
             None \<Rightarrow> Inr ()
           | Some kind \<Rightarrow>
               if format_ok uni kind s then Inr ()
               else blocked (fc_name f)
                 (''must be '' @ (case kind of Symbol \<Rightarrow> ''an alphanumeric symbol''
                                   | Date \<Rightarrow> ''an 8-digit YYYYMMDD date'') @
                  '', got `'' @ s @ ''`'')
         else Inr ())"

definition validate_field ::
    "(nat \<Rightarrow> bool) \<Rightarrow> field_constraint \<Rightarrow> json \<Rightarrow> preflight_error + unit" where
  "validate_field uni f v =
     (if fc_required f \<and> \<not> present v (fc_name f)
      then blocked (fc_name f) ''is required but was missing or empty''
      else case scalar v (fc_name f) of
          None \<Rightarrow> Inr ()
        | Some s \<Rightarrow>
            if s = [] then Inr ()
            else bind_res (check_type f s) (\<lambda>_.
                 bind_res (check_enum f s) (\<lambda>_.
                 bind_res (check_range f s) (\<lambda>_. check_format uni f s))))"

fun validate_cross_field :: "cross_field_rule \<Rightarrow> json \<Rightarrow> preflight_error + unit" where
  "validate_cross_field (DateOrder start end' confirmed _) v =
     (if \<not> confirmed then Inr ()
      else case (scalar v start, scalar v end') of
          (Some s, Some e) \<Rightarrow>
            if s \<noteq> [] \<and> e \<noteq> [] \<and> e < s
            then blocked (start @ ''/'' @ end')
              (''start date `'' @ s @ ''` must not be after end date `'' @ e @ ''`'')
            else Inr ()
        | _ \<Rightarrow> Inr ())"

fun validate_all :: "('c \<Rightarrow> preflight_error + unit) \<Rightarrow> 'c list \<Rightarrow> preflight_error + unit" where
  "validate_all chk [] = Inr ()"
| "validate_all chk (c # cs) = bind_res (chk c) (\<lambda>_. validate_all chk cs)"

definition validate_request ::
    "(nat \<Rightarrow> bool) \<Rightarrow> constraint_schema \<Rightarrow> json \<Rightarrow> preflight_error + unit" where
  "validate_request uni schema v =
     bind_res (validate_all (\<lambda>f. validate_field uni f v) (cs_fields schema)) (\<lambda>_.
       validate_all (\<lambda>r. validate_cross_field r v) (cs_cross_field schema))"

definition has_a_field :: "constraint_schema \<Rightarrow> (string \<times> json) list \<Rightarrow> bool" where
  "has_a_field schema obj = list_ex (\<lambda>f. map_of obj (fc_name f) \<noteq> None) (cs_fields schema)"

definition locate_fields_object :: "json \<Rightarrow> constraint_schema \<Rightarrow> json" where
  "locate_fields_object v schema =
     (case v of
        JObj obj \<Rightarrow>
          if has_a_field schema obj then v
          else (case find (\<lambda>n. case n of JObj inner \<Rightarrow> has_a_field schema inner | _ \<Rightarrow> False)
                       (map snd obj) of
                  Some nested \<Rightarrow> nested
                | None \<Rightarrow> v)
      | _ \<Rightarrow> v)"

text \<open>
  \<open>ser\<close> is the request's derived \<open>Serialize\<close>; \<open>None\<close> is a serialization failure. \<open>schema_for\<close> is
  the embedded registry.
\<close>

definition preflight_request ::
    "(nat \<Rightarrow> bool) \<Rightarrow> (string \<rightharpoonup> constraint_schema) \<Rightarrow> ('req \<Rightarrow> json option) \<Rightarrow> string \<Rightarrow> 'req \<Rightarrow>
       ls_error + unit" where
  "preflight_request uni schema_for ser tr_code req =
     (case schema_for tr_code of
        None \<Rightarrow> Inr ()
      | Some schema \<Rightarrow>
          (case ser req of
             None \<Rightarrow> Inl (Decode ''to_value'')
           | Some v \<Rightarrow>
               (case validate_request uni schema (locate_fields_object v schema) of
                  Inl e \<Rightarrow> Inl (preflight_error_to_ls e)
                | Inr u \<Rightarrow> Inr u)))"

section \<open>Generating invalid variants\<close>

record invalid_variant =
  iv_field :: string
  iv_class :: string
  iv_request :: json

definition variants_of_field :: "json \<Rightarrow> field_constraint \<Rightarrow> invalid_variant list" where
  "variants_of_field seed f =
     (let mk = (\<lambda>c s. \<lparr>iv_field = fc_name f, iv_class = c,
                       iv_request = jset seed (fc_name f) (JStr s)\<rparr>)
      in (if fc_type f = FtInteger \<or> fc_type f = FtNumber then [mk ''type'' ''not-a-number''] else []) @
         (if fc_required f then [mk ''required'' []] else []) @
         (if er_applicable (fc_enum f)
          then [mk ''enum'' (join ''_'' (er_values (fc_enum f)) @ ''__invalid'')] else []) @
         (if rr_applicable (fc_range f)
          then [mk ''range'' (show_int (case (rr_min (fc_range f), rr_max (fc_range f)) of
                  (Some lo, _) \<Rightarrow> wrap64 (lo - 1)
                | (None, Some hi) \<Rightarrow> wrap64 (hi + 1)
                | (None, None) \<Rightarrow> - 1))] else []) @
         (if fr_applicable (fc_format f)
          then [mk ''format'' (case fr_kind (fc_format f) of
                  Some Symbol \<Rightarrow> ''!!bad!!''
                | Some Date \<Rightarrow> ''notadate''
                | None \<Rightarrow> ''??'')] else []))"

fun variant_of_rule :: "json \<Rightarrow> cross_field_rule \<Rightarrow> invalid_variant" where
  "variant_of_rule seed (DateOrder start end' _ _) =
     \<lparr>iv_field = start @ ''/'' @ end', iv_class = ''cross_field'',
      iv_request = jset (jset seed start (JStr ''99991231'')) end' (JStr ''00010101'')\<rparr>"

definition generate_invalid_variants :: "constraint_schema \<Rightarrow> json \<Rightarrow> invalid_variant list" where
  "generate_invalid_variants schema seed =
     concat (map (variants_of_field seed) (cs_fields schema)) @
     map (variant_of_rule seed) (cs_cross_field schema)"

section \<open>Classifying a probe\<close>

datatype probe_outcome = Clean | Held | Divergent

datatype variant_verdict = VAccepted | VRejected | VInconclusive

definition classify_probe :: "bool \<Rightarrow> variant_verdict \<Rightarrow> probe_outcome" where
  "classify_probe control_succeeded verdict =
     (if \<not> control_succeeded then Held
      else case verdict of VAccepted \<Rightarrow> Divergent | VRejected \<Rightarrow> Clean | VInconclusive \<Rightarrow> Held)"

definition is_noneval_code :: "string \<Rightarrow> bool" where
  "is_noneval_code rsp_cd = (rsp_cd = ''IGW00201'')"

definition is_read_merits_reject :: "string \<Rightarrow> bool" where
  "is_read_merits_reject rsp_cd =
     (is_ingress_validation_reject rsp_cd \<or> rsp_cd = ''IGW40013'' \<or> rsp_cd = ''00009'')"

section \<open>Lemmas\<close>

lemma blocked_Inl [simp]:
  "blocked f r \<noteq> Inr u" "\<exists>e. blocked f r = Inl e" "bind_res (blocked f r) k = blocked f r"
  by (simp_all add: blocked_def)

lemma bind_res_Inl: "(\<exists>e. bind_res r f = Inl e) \<longleftrightarrow> (\<exists>e. r = Inl e) \<or> (\<exists>a e. r = Inr a \<and> f a = Inl e)"
  by (cases r) auto

lemma bind_res_Inr_unit: "bind_res r f = Inr u \<longleftrightarrow> r = Inr () \<and> f () = Inr u"
  for r :: "'e + unit"
  by (cases r) auto

lemma unit_res_cases: "(\<exists>e. (r :: 'e + unit) = Inl e) \<longleftrightarrow> r \<noteq> Inr ()"
  by (cases r) auto

lemma validate_all_ok: "validate_all chk cs = Inr () \<longleftrightarrow> (\<forall>c \<in> set cs. chk c = Inr ())"
  by (induction cs) (auto simp: bind_res_Inr_unit)

lemma validate_request_ok:
  "validate_request uni schema v = Inr () \<longleftrightarrow>
     (\<forall>f \<in> set (cs_fields schema). validate_field uni f v = Inr ()) \<and>
     (\<forall>r \<in> set (cs_cross_field schema). validate_cross_field r v = Inr ())"
  by (auto simp: validate_request_def bind_res_Inr_unit validate_all_ok)

lemma length_join: "x \<in> set xs \<Longrightarrow> length x \<le> length (join sep xs)"
proof (induction xs)
  case (Cons y ys)
  have "length z \<le> length (concat (map (\<lambda>z. sep @ z) ys))" if "z \<in> set ys" for z
    using that by (induction ys) auto
  with Cons.prems show ?case by (auto simp: join_def intro: trans_le_add2)
qed simp

lemma bad_enum_fresh: "join ''_'' vs @ ''__invalid'' \<notin> set vs"
proof
  assume "join ''_'' vs @ ''__invalid'' \<in> set vs"
  from length_join [OF this, of "''_''"] show False by simp
qed

text \<open>What a field's check amounts to once the field holds the text \<open>s\<close>.\<close>

lemma validate_field_set:
  assumes "is_object seed" "s \<noteq> []"
  shows "validate_field uni f (jset seed (fc_name f) (JStr s)) = Inr () \<longleftrightarrow>
    check_type f s = Inr () \<and> check_enum f s = Inr () \<and> check_range f s = Inr () \<and>
    check_format uni f s = Inr ()"
  using assms by (simp add: validate_field_def present_def scalar_def bind_res_Inr_unit)

definition bounded_range :: "range_rule \<Rightarrow> bool" where
  "bounded_range r \<longleftrightarrow>
     (rr_min r \<noteq> None \<or> rr_max r \<noteq> None) \<and>
     (\<forall>b. rr_min r = Some b \<or> rr_max r = Some b \<longrightarrow> \<bar>b\<bar> \<le> 2 ^ 52)"

definition fully_confirmed :: "constraint_schema \<Rightarrow> bool" where
  "fully_confirmed schema \<longleftrightarrow>
     (\<forall>f \<in> set (cs_fields schema).
        (er_applicable (fc_enum f) \<longrightarrow> er_confirmed (fc_enum f)) \<and>
        (rr_applicable (fc_range f) \<longrightarrow> rr_confirmed (fc_range f) \<and> bounded_range (fc_range f)) \<and>
        (fr_applicable (fc_format f) \<longrightarrow> fr_confirmed (fc_format f) \<and> fr_kind (fc_format f) \<noteq> None)) \<and>
     (\<forall>r \<in> set (cs_cross_field schema). do_confirmed r \<and> do_start r \<noteq> do_end r)"

lemma not_a_number: "parse_i64 ''not-a-number'' = None" "parse_f64 ''not-a-number'' = None"
  by code_simp+

lemma bad_formats: "format_ok uni Symbol ''!!bad!!'' = False" "format_ok uni Date ''notadate'' = False"
  by (simp_all add: format_ok_def is_alphanumeric_def is_digit_def)

lemma range_variant_blocked:
  assumes "rr_applicable (fc_range f)" "rr_confirmed (fc_range f)" "bounded_range (fc_range f)"
  shows "check_range f (show_int (case (rr_min (fc_range f), rr_max (fc_range f)) of
      (Some lo, _) \<Rightarrow> wrap64 (lo - 1) | (None, Some hi) \<Rightarrow> wrap64 (hi + 1) | (None, None) \<Rightarrow> - 1))
    \<noteq> Inr ()"
proof (cases "rr_min (fc_range f)")
  case (Some lo)
  then have lo: "\<bar>lo\<bar> \<le> 2 ^ 52" using assms(3) by (auto simp: bounded_range_def)
  then have "wrap64 (lo - 1) = lo - 1"
    by (intro wrap64_id) (auto simp: i64_ok_def i64_min_def i64_max_def abs_le_iff)
  moreover have "f64_less (f64_of_i64 (lo - 1)) (f64_of_i64 lo)"
    using lo by (subst f64_less_of_i64) auto
  ultimately show ?thesis using assms Some by (simp add: check_range_def parse_f64_show_int)
next
  case None
  then obtain hi where hi: "rr_max (fc_range f) = Some hi" "\<bar>hi\<bar> \<le> 2 ^ 52"
    using assms(3) by (auto simp: bounded_range_def)
  then have "wrap64 (hi + 1) = hi + 1"
    by (intro wrap64_id) (auto simp: i64_ok_def i64_min_def i64_max_def abs_le_iff)
  moreover have "f64_less (f64_of_i64 hi) (f64_of_i64 (hi + 1))"
    using hi by (subst f64_less_of_i64) auto
  ultimately show ?thesis using assms None hi by (simp add: check_range_def parse_f64_show_int)
qed

lemma show_int_not_Nil [simp]: "show_int i \<noteq> []"
  by (simp add: show_int_def)

lemma field_variant_blocked:
  assumes seed: "is_object seed" and f: "f \<in> set (cs_fields schema)"
    and conf: "fully_confirmed schema" and iv: "iv \<in> set (variants_of_field seed f)"
  shows "validate_field uni f (iv_request iv) \<noteq> Inr ()"
proof -
  have c: "er_applicable (fc_enum f) \<Longrightarrow> er_confirmed (fc_enum f)"
    "rr_applicable (fc_range f) \<Longrightarrow> rr_confirmed (fc_range f) \<and> bounded_range (fc_range f)"
    "fr_applicable (fc_format f) \<Longrightarrow> fr_confirmed (fc_format f) \<and> fr_kind (fc_format f) \<noteq> None"
    using conf f by (auto simp: fully_confirmed_def)
  consider "iv_request iv = jset seed (fc_name f) (JStr ''not-a-number'')" "fc_type f \<noteq> FtString"
    | "iv_request iv = jset seed (fc_name f) (JStr [])" "fc_required f"
    | "iv_request iv = jset seed (fc_name f)
        (JStr (join ''_'' (er_values (fc_enum f)) @ ''__invalid''))" "er_applicable (fc_enum f)"
    | "iv_request iv = jset seed (fc_name f) (JStr (show_int
          (case (rr_min (fc_range f), rr_max (fc_range f)) of
             (Some lo, _) \<Rightarrow> wrap64 (lo - 1) | (None, Some hi) \<Rightarrow> wrap64 (hi + 1) | (None, None) \<Rightarrow> - 1)))"
      "rr_applicable (fc_range f)"
    | "iv_request iv = jset seed (fc_name f) (JStr (case fr_kind (fc_format f) of
          Some Symbol \<Rightarrow> ''!!bad!!'' | Some Date \<Rightarrow> ''notadate'' | None \<Rightarrow> ''??''))"
      "fr_applicable (fc_format f)"
    using iv by (auto simp: variants_of_field_def Let_def split: if_splits)
  then show ?thesis
  proof cases
    case 1
    then show ?thesis
      using seed by (cases "fc_type f") (simp_all add: validate_field_set check_type_def not_a_number)
  next
    case 2
    then show ?thesis using seed by (simp add: validate_field_def present_def scalar_def)
  next
    case 3
    then show ?thesis
      using seed c(1) bad_enum_fresh by (simp add: validate_field_set check_enum_def Let_def)
  next
    case 4
    then show ?thesis
      using seed c(2) range_variant_blocked [of f] by (simp add: validate_field_set)
  next
    case 5
    moreover obtain k where "fr_kind (fc_format f) = Some k" using c(3) 5 by auto
    ultimately show ?thesis
      using seed c(3) by (cases k) (simp_all add: validate_field_set check_format_def bad_formats)
  qed
qed

section \<open>Properties\<close>

text \<open>
  Generator and validator agree: once every declared bound of a schema is confirmed, preflight
  refuses every invalid variant the generator builds from any seed object, in each of the six
  classes.
\<close>

theorem generated_variants_are_refused:
  assumes "is_object seed" and "fully_confirmed schema"
    and "iv \<in> set (generate_invalid_variants schema seed)"
  shows "\<exists>e. validate_request uni schema (iv_request iv) = Inl e"
proof -
  consider f where "f \<in> set (cs_fields schema)" "iv \<in> set (variants_of_field seed f)"
    | r where "r \<in> set (cs_cross_field schema)" "iv = variant_of_rule seed r"
    using assms(3) by (auto simp: generate_invalid_variants_def)
  then have "validate_request uni schema (iv_request iv) \<noteq> Inr ()"
  proof cases
    case 1
    then show ?thesis using field_variant_blocked [OF assms(1) 1(1) assms(2)] validate_request_ok by blast
  next
    case 2
    then have "do_confirmed r" "do_start r \<noteq> do_end r" using assms(2) by (auto simp: fully_confirmed_def)
    then have "validate_cross_field r (iv_request iv) \<noteq> Inr ()"
      using 2 assms(1) by (cases r) (simp add: scalar_def)
    with 2 show ?thesis using validate_request_ok by blast
  qed
  then show ?thesis by (simp add: unit_res_cases)
qed

definition demo_schema :: constraint_schema where
  "demo_schema = \<lparr>cs_tr_code = ''t8412'', cs_fields = [\<lparr>fc_name = ''qrycnt'', fc_type = FtInteger,
     fc_required = True, fc_enum = \<lparr>er_applicable = False, er_values = [], er_confirmed = False\<rparr>,
     fc_range = \<lparr>rr_applicable = True, rr_min = Some 1, rr_max = Some 500, rr_confirmed = True\<rparr>,
     fc_format = \<lparr>fr_applicable = False, fr_kind = None, fr_confirmed = False\<rparr>,
     fc_gateway_tolerant = [], fc_placed_nothing_codes = [], fc_booking_determining = []\<rparr>],
     cs_cross_field = [DateOrder ''sdate'' ''edate'' True False]\<rparr>"

theorem generated_variants_are_refused_witness:
  "\<exists>e. validate_request (\<lambda>_. True) demo_schema (JObj [(''qrycnt'', JStr ''0'')]) = Inl e"
proof -
  have "\<lparr>iv_field = ''qrycnt'', iv_class = ''range'', iv_request = JObj [(''qrycnt'', JStr ''0'')]\<rparr>
      \<in> set (generate_invalid_variants demo_schema (JObj []))"
    by (simp add: generate_invalid_variants_def demo_schema_def variants_of_field_def jset_def
        wrap64_id i64_ok_def i64_min_def i64_max_def show_int_def show_nat.simps)
  from generated_variants_are_refused [OF _ _ this] show ?thesis
    by (simp add: is_object_def demo_schema_def fully_confirmed_def bounded_range_def)
qed

definition nothing_confirmed :: "constraint_schema \<Rightarrow> bool" where
  "nothing_confirmed schema \<longleftrightarrow>
     (\<forall>f \<in> set (cs_fields schema). \<not> er_confirmed (fc_enum f) \<and> \<not> rr_confirmed (fc_range f) \<and>
        \<not> fr_confirmed (fc_format f)) \<and>
     (\<forall>r \<in> set (cs_cross_field schema). \<not> do_confirmed r)"

definition grounded_ok :: "field_constraint \<Rightarrow> json \<Rightarrow> bool" where
  "grounded_ok f v \<longleftrightarrow>
     (fc_required f \<longrightarrow> present v (fc_name f)) \<and>
     (\<forall>s. scalar v (fc_name f) = Some s \<and> s \<noteq> [] \<longrightarrow>
        (fc_type f = FtInteger \<longrightarrow> parse_i64 s \<noteq> None) \<and> (fc_type f = FtNumber \<longrightarrow> parse_f64 s \<noteq> None))"

text \<open>
  The permissive rule: with no bound confirmed, preflight accepts exactly the requests whose
  required fields are present and whose non-empty numeric fields parse; enum, range, format and
  date-order declarations block nothing.
\<close>

theorem unconfirmed_is_permissive:
  assumes "nothing_confirmed schema"
  shows "validate_request uni schema v = Inr () \<longleftrightarrow> (\<forall>f \<in> set (cs_fields schema). grounded_ok f v)"
proof -
  have field: "validate_field uni f v = Inr () \<longleftrightarrow> grounded_ok f v" if "f \<in> set (cs_fields schema)" for f
  proof -
    have "\<not> er_confirmed (fc_enum f)" "\<not> rr_confirmed (fc_range f)" "\<not> fr_confirmed (fc_format f)"
      using assms that by (auto simp: nothing_confirmed_def)
    then show ?thesis
      by (cases "fc_type f"; cases "scalar v (fc_name f)")
        (auto simp: validate_field_def grounded_ok_def check_type_def check_enum_def check_range_def
          check_format_def present_def bind_res_Inr_unit)
  qed
  have "validate_cross_field r v = Inr ()" if "r \<in> set (cs_cross_field schema)" for r
    using assms that by (cases r) (auto simp: nothing_confirmed_def)
  with field show ?thesis by (auto simp: validate_request_ok)
qed

theorem unconfirmed_is_permissive_witness:
  "validate_request (\<lambda>_. True) (demo_schema\<lparr>cs_fields := [], cs_cross_field :=
      [DateOrder ''sdate'' ''edate'' False False]\<rparr>)
    (JObj [(''edate'', JStr ''20240101''), (''sdate'', JStr ''20250101'')]) = Inr ()"
  by (subst unconfirmed_is_permissive) (simp_all add: nothing_confirmed_def)

text \<open>
  A confirmed range does not bound a numeric field: the text \<open>nan\<close> parses as a double, compares
  below no minimum and above no maximum, and passes the type and the range check of every
  \<open>Number\<close> field.
\<close>

theorem nan_passes_every_range:
  "fc_type f = FtNumber \<Longrightarrow> check_type f ''nan'' = Inr () \<and> check_range f ''nan'' = Inr ()"
proof -
  have "parse_f64 ''nan'' = Some NaN" by code_simp
  moreover assume "fc_type f = FtNumber"
  ultimately show ?thesis
    by (simp add: check_type_def check_range_def f64_less_def Let_def split: option.splits)
      (auto split: f64.splits)
qed

theorem nan_passes_every_range_witness:
  "let f = (hd (cs_fields demo_schema))\<lparr>fc_type := FtNumber\<rparr>
   in check_range f ''nan'' = Inr () \<and> rr_confirmed (fc_range f)"
  using nan_passes_every_range [of "(hd (cs_fields demo_schema))\<lparr>fc_type := FtNumber\<rparr>"]
  by (simp add: demo_schema_def)

end
