(* ===== verification/Transport.thy ===== *)
theory Transport
  imports Client_Config Order_Dedup Preflight
begin

text \<open>
  The state of \<open>Inner\<close> (\<open>crates/ls-core/src/inner.rs\<close>), the endpoint policies
  (\<open>endpoint_policy/mod.rs\<close>), the lenient field deserializers (\<open>lib.rs\<close>) and the token manager
  (\<open>auth.rs\<close>, \<open>client.rs\<close>).

  The outside world is a record of functions: the gateway answers a request as any function of the
  requests sent before it, and the clocks answer their n-th reading. What the code does to the
  world is recorded in its state: every request sent, every rate-limit charge. A result is
  \<open>None\<close> when the code panics.
\<close>

section \<open>Endpoint policies\<close>

datatype protocol = Rest | WebSocketFeed

record endpoint_policy =
  tr_code :: string
  path :: string
  module :: string
  group :: string
  protocol :: protocol
  category :: rate_limit_category
  is_order :: bool
  has_pagination :: bool
  rate_limit_per_sec :: "nat option"
  corp_rate_limit_per_sec :: "nat option"

definition guard_non_order :: "endpoint_policy \<Rightarrow> ls_error + unit" where
  "guard_non_order p =
     (if is_order p
      then Inl (ApiError ''order-dispatch''
        (''order endpoint '' @ tr_code p @ '' must use the order dispatch path, not post/post_paginated''))
      else Inr ())"

definition guard_order :: "endpoint_policy \<Rightarrow> ls_error + unit" where
  "guard_order p =
     (if \<not> is_order p
      then Inl (ApiError ''non-order-dispatch''
        (''non-order endpoint '' @ tr_code p @ '' must not use the order dispatch path''))
      else Inr ())"

definition is_rest :: "endpoint_policy \<Rightarrow> bool" where
  "is_rest p = (protocol p = Rest)"

definition is_websocket :: "endpoint_policy \<Rightarrow> bool" where
  "is_websocket p = (protocol p = WebSocketFeed)"

section \<open>The world and the shared state\<close>

datatype http_body = Form "(string \<times> string) list" | Text string

record http_request =
  rq_url :: string
  rq_bearer :: "string option"
  rq_tr_cd :: "string option"
  rq_tr_cont :: string
  rq_tr_cont_key :: string
  rq_body :: http_body

text \<open>
  A failed send, or status, the two continuation headers (empty when absent) and the body as JSON
  (\<open>None\<close> when it is not).
\<close>

datatype http_result = SendFailed | Response nat string string "json option"

record env =
  uni :: "nat \<Rightarrow> bool"
  schemas :: "string \<rightharpoonup> constraint_schema"
  sha256 :: "string \<Rightarrow> nat list"
  gateway :: "http_request list \<Rightarrow> http_request \<Rightarrow> http_result"
  clock :: "nat \<Rightarrow> nat"
  utc :: "nat \<Rightarrow> int"

record token_data =
  access_token :: string
  expires_at :: int

record inner =
  config :: resolved_config
  token :: "token_data option"
  orders_enabled :: bool
  order_dedup :: "json dedup"
  sent :: "http_request list"
  charged :: "rate_limit_category list"
  clock_reads :: nat

type_synonym 'a io = "(ls_error + 'a) option"

definition send :: "env \<Rightarrow> http_request \<Rightarrow> inner \<Rightarrow> http_result \<times> inner" where
  "send e rq w = (gateway e (sent w) rq, w\<lparr>sent := sent w @ [rq]\<rparr>)"

definition rate_wait :: "rate_limit_category \<Rightarrow> inner \<Rightarrow> inner" where
  "rate_wait c w = w\<lparr>charged := charged w @ [c]\<rparr>"

definition read_clock :: "env \<Rightarrow> inner \<Rightarrow> nat \<times> inner" where
  "read_clock e w = (clock e (clock_reads w), w\<lparr>clock_reads := Suc (clock_reads w)\<rparr>)"

definition read_utc :: "env \<Rightarrow> inner \<Rightarrow> int \<times> inner" where
  "read_utc e w = (utc e (clock_reads w), w\<lparr>clock_reads := Suc (clock_reads w)\<rparr>)"

definition inner_new :: "resolved_config \<Rightarrow> nat \<Rightarrow> inner" where
  "inner_new cfg now =
     \<lparr>config = cfg, token = None, orders_enabled = True, order_dedup = with_default_ttl now,
      sent = [], charged = [], clock_reads = 0\<rparr>"

definition set_orders_enabled :: "bool \<Rightarrow> inner \<Rightarrow> inner" where
  "set_orders_enabled enabled w = w\<lparr>orders_enabled := enabled\<rparr>"

section \<open>Lenient field deserializers\<close>

definition string_or_number :: "json \<Rightarrow> string option" where
  "string_or_number v = (case v of JStr s \<Rightarrow> Some s | JNum _ n \<Rightarrow> Some n | _ \<Rightarrow> None)"

definition option_string_or_number :: "json \<Rightarrow> string option option" where
  "option_string_or_number v =
     (case v of JNull \<Rightarrow> Some None | _ \<Rightarrow> map_option Some (string_or_number v))"

section \<open>Tokens\<close>

text \<open>UTC instants are nanoseconds since the epoch; \<open>chrono\<close> panics past its last year.\<close>

definition DATETIME_MAX_SECS :: int where "DATETIME_MAX_SECS = 8210266876799"

definition is_expiring_soon :: "token_data \<Rightarrow> int \<Rightarrow> bool" where
  "is_expiring_soon td now = (expires_at td \<le> now + 300 * 10 ^ 9)"

definition check_envelope :: "json \<Rightarrow> ls_error + unit" where
  "check_envelope v =
     (case jget_str v ''code'' of
        Some code \<Rightarrow>
          if code \<noteq> [] \<and> code \<noteq> ''0000'' \<and> code \<noteq> ''00000''
          then Inl (ApiError code (unwrap_or [] (jget_str v ''message'')))
          else Inr ()
      | None \<Rightarrow> Inr ())"

text \<open>
  The derived \<open>Deserialize\<close> of \<open>TokenResponse\<close>: the token is required, the lifetime optional
  under two names, of which only one may be present.
\<close>

definition token_response :: "json \<Rightarrow> (string \<times> string option) option" where
  "token_response v =
     (case (Option.bind (jget v ''access_token'') string_or_number, jget v ''expire_in'',
            jget v ''expires_in'') of
        (None, _, _) \<Rightarrow> None
      | (Some t, None, None) \<Rightarrow> Some (t, None)
      | (Some t, Some x, None) \<Rightarrow> map_option (\<lambda>y. (t, y)) (option_string_or_number x)
      | (Some t, None, Some x) \<Rightarrow> map_option (\<lambda>y. (t, y)) (option_string_or_number x)
      | (Some t, Some _, Some _) \<Rightarrow> None)"

text \<open>
  A non-success answer becomes an error through \<open>error_for_status().unwrap_err()\<close>, and
  \<open>error_for_status\<close> makes an error of the 4xx and 5xx statuses only.
\<close>

definition status_error :: "nat \<Rightarrow> 'a io" where
  "status_error status =
     (if 400 \<le> status \<and> status < 600 then Some (Inl (Http (Some status))) else None)"

definition is_success :: "nat \<Rightarrow> bool" where
  "is_success status = (200 \<le> status \<and> status < 300)"

text \<open>The two unauthenticated form posts carry no gateway header.\<close>

definition form_request :: "string \<Rightarrow> (string \<times> string) list \<Rightarrow> http_request" where
  "form_request url form = \<lparr>rq_url = url, rq_bearer = None, rq_tr_cd = None, rq_tr_cont = [],
     rq_tr_cont_key = [], rq_body = Form form\<rparr>"

definition token_request :: "resolved_config \<Rightarrow> http_request" where
  "token_request cfg = form_request (rc_base_url cfg @ ''/oauth2/token'')
     [(''grant_type'', ''client_credentials''), (''appkey'', rc_appkey cfg),
      (''appsecretkey'', rc_appsecretkey cfg), (''scope'', ''oob'')]"

definition revoke_request :: "resolved_config \<Rightarrow> string \<Rightarrow> http_request" where
  "revoke_request cfg tok = form_request (rc_base_url cfg @ ''/oauth2/revoke'')
     [(''appkey'', rc_appkey cfg), (''appsecretkey'', rc_appsecretkey cfg),
      (''token_type_hint'', ''access_token''), (''token'', tok)]"

definition token_ttl :: "string option \<Rightarrow> ls_error + int" where
  "token_ttl expire_in =
     (case expire_in of
        None \<Rightarrow> Inr 86400
      | Some v \<Rightarrow> (case parse_i64 v of
          None \<Rightarrow> Inl (Auth (''token response contained invalid expire_in: '' @ v))
        | Some secs \<Rightarrow>
            if secs \<le> 0
            then Inl (Auth (''token response contained non-positive expire_in: '' @ show_int secs))
            else Inr secs))"

definition fetch_token :: "env \<Rightarrow> inner \<Rightarrow> token_data io \<times> inner" where
  "fetch_token e w =
     (case send e (token_request (config w)) w of
          (SendFailed, w1) \<Rightarrow> (Some (Inl (Http None)), w1)
        | (Response status _ _ body, w1) \<Rightarrow>
            if \<not> is_success status then (status_error status, w1)
            else (case body of
                None \<Rightarrow> (Some (Inl (Http None)), w1)
              | Some v \<Rightarrow> (case check_envelope v of
                  Inl err \<Rightarrow> (Some (Inl err), w1)
                | Inr _ \<Rightarrow> (case token_response v of
                    None \<Rightarrow> (Some (Inl (Decode ''TokenResponse'')), w1)
                  | Some (t, expire_in) \<Rightarrow> (case token_ttl expire_in of
                      Inl err \<Rightarrow> (Some (Inl err), w1)
                    | Inr secs \<Rightarrow>
                        let (now, w2) = read_utc e w1
                        in if DATETIME_MAX_SECS < now div 10 ^ 9 + secs then (None, w2)
                           else (Some (Inr \<lparr>access_token = t, expires_at = now + secs * 10 ^ 9\<rparr>), w2))))))"

text \<open>The look at the cached token, made once under the read lock and again under the write lock.\<close>

definition cached_token :: "env \<Rightarrow> inner \<Rightarrow> string option \<times> inner" where
  "cached_token e w =
     (case token w of
        None \<Rightarrow> (None, w)
      | Some td \<Rightarrow>
          let (now, w1) = read_utc e w
          in (if is_expiring_soon td now then None else Some (access_token td), w1))"

text \<open>
  The part of \<open>get_or_refresh\<close> below the write lock, which is held across the fetch: the second
  look, then the charge, the fetch and the store.
\<close>

definition slow_path :: "env \<Rightarrow> inner \<Rightarrow> string io \<times> inner" where
  "slow_path e w =
     (case cached_token e w of
        (Some t, w1) \<Rightarrow> (Some (Inr t), w1)
      | (None, w1) \<Rightarrow>
          (case fetch_token e (rate_wait AuthBucket w1) of
             (Some (Inr td), w2) \<Rightarrow> (Some (Inr (access_token td)), w2\<lparr>token := Some td\<rparr>)
           | (Some (Inl err), w2) \<Rightarrow> (Some (Inl err), w2)
           | (None, w2) \<Rightarrow> (None, w2)))"

definition get_or_refresh :: "env \<Rightarrow> inner \<Rightarrow> string io \<times> inner" where
  "get_or_refresh e w =
     (case cached_token e w of
        (Some t, w1) \<Rightarrow> (Some (Inr t), w1)
      | (None, w1) \<Rightarrow> slow_path e w1)"

definition clear_token :: "inner \<Rightarrow> inner" where
  "clear_token w = w\<lparr>token := None\<rparr>"

definition seed_token :: "token_data \<Rightarrow> inner \<Rightarrow> inner" where
  "seed_token td w = w\<lparr>token := Some td\<rparr>"

definition snapshot_token :: "inner \<Rightarrow> string option" where
  "snapshot_token w = map_option access_token (token w)"

definition revoke_token_http :: "env \<Rightarrow> string \<Rightarrow> inner \<Rightarrow> unit io \<times> inner" where
  "revoke_token_http e tok w =
     (case send e (revoke_request (config w) tok) w of
          (SendFailed, w1) \<Rightarrow> (Some (Inl (Http None)), w1)
        | (Response status _ _ body, w1) \<Rightarrow>
            if \<not> is_success status then (status_error status, w1)
            else (case body of
                None \<Rightarrow> (Some (Inl (Http None)), w1)
              | Some v \<Rightarrow> (Some (check_envelope v), w1)))"

definition revoke_token :: "env \<Rightarrow> inner \<Rightarrow> unit io \<times> inner" where
  "revoke_token e w =
     (case snapshot_token w of
        None \<Rightarrow> (Some (Inr ()), w)
      | Some tok \<Rightarrow>
          (case revoke_token_http e tok (rate_wait AuthBucket w) of
             (Some (Inr _), w1) \<Rightarrow> (Some (Inr ()), clear_token w1)
           | r \<Rightarrow> r))"

section \<open>Lemmas: what the token path may touch\<close>

text \<open>
  Everything the token path changes is the token, the log of sent requests, the charges and the
  clock position, which moves forward: the order state is framed.
\<close>

definition order_frame :: "inner \<Rightarrow> inner \<Rightarrow> bool" where
  "order_frame w w' \<longleftrightarrow>
     config w' = config w \<and> orders_enabled w' = orders_enabled w \<and> order_dedup w' = order_dedup w \<and>
     clock_reads w \<le> clock_reads w'"

lemma order_frame_refl [simp]: "order_frame w w"
  by (simp add: order_frame_def)

lemma order_frame_trans: "order_frame w w' \<Longrightarrow> order_frame w' w'' \<Longrightarrow> order_frame w w''"
  by (simp add: order_frame_def)

lemma order_frame_updates [simp]:
  "order_frame w (w'\<lparr>token := t\<rparr>) = order_frame w w'"
  "order_frame w (w'\<lparr>sent := s\<rparr>) = order_frame w w'"
  "order_frame w (w'\<lparr>charged := c\<rparr>) = order_frame w w'"
  by (auto simp: order_frame_def)

lemmas world_defs = send_def rate_wait_def read_clock_def read_utc_def

lemmas io_splits = http_result.splits option.splits sum.splits prod.splits if_splits

lemma order_frame_clock: "order_frame w w' \<Longrightarrow> clock_reads w \<le> clock_reads w'"
  by (simp add: order_frame_def)

lemma fetch_token_effect:
  assumes "fetch_token e w = (r, w')"
  shows "order_frame w w' \<and> sent w' = sent w @ [token_request (config w)] \<and> charged w' = charged w \<and> token w' = token w"
  using assms by (auto simp: fetch_token_def world_defs order_frame_def Let_def split: io_splits)

lemma token_ttl_pos: "token_ttl x = Inr secs \<Longrightarrow> 0 < secs"
  by (auto simp: token_ttl_def split: io_splits)

lemma fetch_token_fresh:
  assumes "fetch_token e w = (Some (Inr td), w')"
  shows "utc e (clock_reads w) < expires_at td"
  using assms
  by (auto simp: fetch_token_def world_defs Let_def status_error_def dest: token_ttl_pos split: io_splits)

lemma cached_token_effect:
  assumes "cached_token e w = (r, w')"
  shows "\<exists>n \<ge> clock_reads w. w' = w\<lparr>clock_reads := n\<rparr>"
    and "r = Some t \<Longrightarrow> \<exists>td. token w = Some td \<and> access_token td = t"
  using assms by (auto simp: cached_token_def world_defs Let_def split: io_splits intro: exI[of _ "clock_reads w"] exI[of _ "Suc (clock_reads w)"])

lemma slow_path_effect:
  assumes "slow_path e w = (r, w')"
  shows "order_frame w w' \<and> (sent w' = sent w \<and> charged w' = charged w \<or>
      sent w' = sent w @ [token_request (config w)] \<and> charged w' = charged w @ [AuthBucket])"
    and "r = Some (Inr t) \<Longrightarrow> \<exists>td. token w' = Some td \<and> access_token td = t"
    and "r = Some (Inl err) \<Longrightarrow> token w' = token w"
    and "r = None \<Longrightarrow> token w' = token w"
proof -
  obtain c w1 where c: "cached_token e w = (c, w1)" by fastforce
  obtain n where n: "clock_reads w \<le> n" and w1: "w1 = w\<lparr>clock_reads := n\<rparr>"
    using cached_token_effect(1)[OF c] by blast
  obtain f w2 where f: "fetch_token e (rate_wait AuthBucket w1) = (f, w2)" by fastforce
  have res: "(case c of Some t \<Rightarrow> (Some (Inr t), w1)
      | None \<Rightarrow> (case f of Some (Inr td) \<Rightarrow> (Some (Inr (access_token td)), w2\<lparr>token := Some td\<rparr>)
                | Some (Inl err) \<Rightarrow> (Some (Inl err), w2) | None \<Rightarrow> (None, w2))) = (r, w')"
    using assms unfolding slow_path_def c prod.case f
    by (auto simp: f split: option.splits sum.splits)
  note eff = fetch_token_effect[OF f]
  have c_token: "\<And>t. c = Some t \<Longrightarrow> \<exists>td. token w = Some td \<and> access_token td = t"
    using cached_token_effect(2)[OF c] by blast
  show "order_frame w w' \<and> (sent w' = sent w \<and> charged w' = charged w \<or>
      sent w' = sent w @ [token_request (config w)] \<and> charged w' = charged w @ [AuthBucket])"
    and "r = Some (Inr t) \<Longrightarrow> \<exists>td. token w' = Some td \<and> access_token td = t"
    and "r = Some (Inl err) \<Longrightarrow> token w' = token w"
    and "r = None \<Longrightarrow> token w' = token w"
    using res eff c_token n unfolding w1
    by (auto simp: rate_wait_def order_frame_def split: io_splits)
qed

lemma get_or_refresh_effect:
  assumes "get_or_refresh e w = (r, w')"
  shows "order_frame w w' \<and> (sent w' = sent w \<and> charged w' = charged w \<or>
      sent w' = sent w @ [token_request (config w)] \<and> charged w' = charged w @ [AuthBucket])"
    and "r = Some (Inr t) \<Longrightarrow> \<exists>td. token w' = Some td \<and> access_token td = t"
    and "r = Some (Inl err) \<Longrightarrow> token w' = token w"
    and "r = None \<Longrightarrow> token w' = token w"
proof -
  obtain c w1 where c: "cached_token e w = (c, w1)" by fastforce
  obtain n where n: "clock_reads w \<le> n" and w1: "w1 = w\<lparr>clock_reads := n\<rparr>"
    using cached_token_effect(1)[OF c] by blast
  have c_token: "\<And>t. c = Some t \<Longrightarrow> \<exists>td. token w = Some td \<and> access_token td = t"
    using cached_token_effect(2)[OF c] by blast
  have hit: "c = Some t' \<Longrightarrow> r = Some (Inr t') \<and> w' = w1" for t'
    using assms by (simp add: get_or_refresh_def c)
  have miss: "slow_path e w1 = (r, w')" if "c = None"
    using assms that by (simp add: get_or_refresh_def c)
  note slow = slow_path_effect[OF miss]
  show "order_frame w w' \<and> (sent w' = sent w \<and> charged w' = charged w \<or>
      sent w' = sent w @ [token_request (config w)] \<and> charged w' = charged w @ [AuthBucket])"
    using hit slow(1) w1 n by (cases c) (auto simp: order_frame_def)
  show "r = Some (Inr t) \<Longrightarrow> \<exists>td. token w' = Some td \<and> access_token td = t"
    using hit slow(2) w1 c_token by (cases c) auto
  show "r = Some (Inl err) \<Longrightarrow> token w' = token w"
    using hit slow(3) w1 by (cases c) auto
  show "r = None \<Longrightarrow> token w' = token w"
    using hit slow(4) w1 by (cases c) auto
qed

section \<open>Concurrent callers\<close>

text \<open>
  The write lock serialises the slow paths, so callers that all saw a stale token in the fast path
  run theirs one after the other.
\<close>

fun slow_paths :: "env \<Rightarrow> nat \<Rightarrow> inner \<Rightarrow> string io list \<times> inner" where
  "slow_paths e 0 w = ([], w)"
| "slow_paths e (Suc n) w =
     (let (r, w1) = slow_path e w; (rs, w2) = slow_paths e n w1 in (r # rs, w2))"

lemma slow_paths_cached:
  assumes "token w = Some td" and "\<And>k. utc e k + 300 * 10 ^ 9 < expires_at td"
  shows "\<exists>m. slow_paths e n w = (replicate n (Some (Inr (access_token td))), w\<lparr>clock_reads := m\<rparr>)"
  using assms(1)
proof (induction n arbitrary: w)
  case 0
  then show ?case by (auto intro: exI[of _ "clock_reads w"] exI[of _ "Suc (clock_reads w)"])
next
  case (Suc n)
  have "\<not> is_expiring_soon td (utc e (clock_reads w))"
    using assms(2)[of "clock_reads w"] by (simp add: is_expiring_soon_def)
  then have "slow_path e w = (Some (Inr (access_token td)), w\<lparr>clock_reads := Suc (clock_reads w)\<rparr>)"
    using Suc.prems by (simp add: slow_path_def cached_token_def world_defs)
  then show ?case
    using Suc.IH[of "w\<lparr>clock_reads := Suc (clock_reads w)\<rparr>"] Suc.prems by auto
qed

text \<open>
  The second look at the token makes the refresh single: when one caller's slow path succeeds
  with a token that stays clear of the five-minute margin, every caller queued behind it on the
  write lock returns that same token and none of them sends a request or charges the bucket.
\<close>

theorem refresh_is_single_flight:
  assumes "slow_path e w = (Some (Inr tok), w1)" and "token w1 = Some td"
    and "\<And>k. utc e k + 300 * 10 ^ 9 < expires_at td"
    and "slow_paths e n w1 = (rs, w2)"
  shows "rs = replicate n (Some (Inr tok)) \<and> sent w2 = sent w1 \<and> charged w2 = charged w1
    \<and> length (sent w2) \<le> length (sent w) + 1 \<and> token w2 = Some td"
proof -
  have tok: "access_token td = tok"
    using slow_path_effect(2)[OF assms(1)] assms(2) by auto
  obtain m where "slow_paths e n w1 =
      (replicate n (Some (Inr (access_token td))), w1\<lparr>clock_reads := m\<rparr>)"
    using slow_paths_cached[OF assms(2,3), of n] by blast
  moreover have "length (sent w1) \<le> length (sent w) + 1"
    using slow_path_effect(1)[OF assms(1)] by auto
  ultimately show ?thesis
    using assms(2,4) tok by auto
qed

text \<open>
  Revoking is not forgetting: the token leaves the cache when, and only when, the gateway
  confirmed the revocation (or there was none to revoke); on every error and on a panic it stays,
  so a later revoke still has it to send.
\<close>

theorem revoke_clears_iff_confirmed:
  assumes "revoke_token e w = (r, w')"
  shows "(r = Some (Inr ()) \<longleftrightarrow> token w' = None) \<and> (r \<noteq> Some (Inr ()) \<longrightarrow> token w' = token w)
    \<and> order_frame w w'"
  using assms
  by (auto simp: revoke_token_def revoke_token_http_def snapshot_token_def clear_token_def
      world_defs order_frame_def status_error_def split: io_splits)

section \<open>A concrete world\<close>

definition sample_config :: resolved_config where
  "sample_config =
     \<lparr>rc_appkey = ''k'', rc_appsecretkey = ''s'', rc_account_no = ''a'', rc_environment = Paper,
      rc_base_url = ''b'', rc_ws_url = ''w'', rc_allow_insecure_localhost = False,
      rc_connect_timeout = 10, rc_request_timeout = 30, rc_ws_connect_timeout = 10,
      rc_ws_channel_capacity = 64, rc_ws_overflow_policy = DropNewest, rc_max_pages = 2,
      rc_rate_limits = rate_limits_from_raw None\<rparr>"

definition sample_token :: token_data where
  "sample_token = \<lparr>access_token = ''tok'', expires_at = 86400 * 10 ^ 9\<rparr>"

definition sample_env :: "(http_request list \<Rightarrow> http_request \<Rightarrow> http_result) \<Rightarrow> env" where
  "sample_env g =
     \<lparr>uni = (\<lambda>_. False), schemas = Map.empty, sha256 = map (\<lambda>c. of_char c), gateway = g,
      clock = (\<lambda>n. n), utc = (\<lambda>_. 0)\<rparr>"

definition token_answer :: http_result where
  "token_answer = Response 200 [] [] (Some (JObj [(''access_token'', JStr ''tok'')]))"

theorem refresh_is_single_flight_witness:
  "fst (slow_paths (sample_env (\<lambda>_ _. token_answer)) 2
       (snd (slow_path (sample_env (\<lambda>_ _. token_answer)) (inner_new sample_config 0)))) =
     [Some (Inr ''tok''), Some (Inr ''tok'')]"
proof -
  let ?e = "sample_env (\<lambda>_ _. token_answer)" and ?w = "inner_new sample_config 0"
  obtain w1 where w1: "slow_path ?e ?w = (Some (Inr ''tok''), w1)" "token w1 = Some sample_token"
    by (simp add: slow_path_def cached_token_def fetch_token_def world_defs sample_env_def
        token_answer_def inner_new_def is_success_def check_envelope_def token_response_def
        jget_str_def jget_def as_str_def string_or_number_def token_ttl_def sample_token_def
        DATETIME_MAX_SECS_def)
  have "utc ?e k + 300 * 10 ^ 9 < expires_at sample_token" for k
    by (simp add: sample_env_def sample_token_def)
  from refresh_is_single_flight [OF w1 this, of 2]
  show ?thesis by (cases "slow_paths ?e 2 w1") (simp add: w1 numeral_2_eq_2)
qed

theorem revoke_clears_iff_confirmed_witness:
  "token (snd (revoke_token (sample_env (\<lambda>_ _. SendFailed))
     (seed_token sample_token (inner_new sample_config 0)))) = Some sample_token"
proof -
  let ?w = "seed_token sample_token (inner_new sample_config 0)"
  have "fst (revoke_token (sample_env (\<lambda>_ _. SendFailed)) ?w) \<noteq> Some (Inr ())"
    by (simp add: revoke_token_def revoke_token_http_def snapshot_token_def seed_token_def
        world_defs sample_env_def)
  with revoke_clears_iff_confirmed [of "sample_env (\<lambda>_ _. SendFailed)" ?w]
  show ?thesis by (cases "revoke_token (sample_env (\<lambda>_ _. SendFailed)) ?w") (simp add: seed_token_def)
qed

end
