(* ===== verification/Inner.thy ===== *)
theory Inner
  imports Transport
begin

text \<open>
  The dispatch core of \<open>crates/ls-core/src/inner.rs\<close>: one HTTP attempt and the classification of
  its answer, the retrying read path, the single-shot order path and the page collection.
  \<open>Serialize\<close> and \<open>Deserialize\<close> of the request and response types are the functions of a
  \<open>codec\<close>; the request's type is generated code.
\<close>

section \<open>Codecs and continuation\<close>

record ('req, 'res) codec =
  to_value :: "'req \<Rightarrow> json option"
  to_text :: "'req \<Rightarrow> string option"
  from_value :: "json \<Rightarrow> 'res option"
  res_to_value :: "'res \<Rightarrow> json option"

record 'a pagination =
  tr_cont :: "'a \<Rightarrow> string"
  tr_cont_key :: "'a \<Rightarrow> string"
  set_tr_cont :: "string \<Rightarrow> 'a \<Rightarrow> 'a"
  set_tr_cont_key :: "string \<Rightarrow> 'a \<Rightarrow> 'a"

section \<open>Classifying an answer\<close>

definition envelope_str :: "json option \<Rightarrow> string \<Rightarrow> string" where
  "envelope_str body k = unwrap_or [] (Option.bind body (\<lambda>v. jget_str v k))"

text \<open>
  The branch for a status outside 2xx. \<open>error_for_status_ref().unwrap_err()\<close> runs first, and
  panics when the status is not an error status either.
\<close>

definition classify_failure :: "endpoint_policy \<Rightarrow> nat \<Rightarrow> json option \<Rightarrow> 'res io" where
  "classify_failure p status body =
     (case status_error status of
        None \<Rightarrow> None
      | Some (e :: ls_error + 'res) \<Rightarrow>
          (let code = envelope_str body ''rsp_cd''; message = envelope_str body ''rsp_msg''
           in if is_order p
              then if is_ingress_validation_reject code then Some (Inl (ApiError code message))
                   else Some (Inl (AmbiguousOrder code message))
              else if code \<noteq> [] then Some (Inl (ApiError code message))
              else Some e))"

text \<open>The 2xx branch: inject the continuation headers, inspect \<open>rsp_cd\<close>, deserialize.\<close>

definition inject_headers :: "string \<Rightarrow> string \<Rightarrow> json \<Rightarrow> json" where
  "inject_headers cont key v = jset (jset v ''tr_cont'' (JStr cont)) ''tr_cont_key'' (JStr key)"

definition decode_res :: "('req, 'res) codec \<Rightarrow> json \<Rightarrow> ls_error + 'res" where
  "decode_res c v = (case from_value c v of None \<Rightarrow> Inl (Decode ''from_value'') | Some r \<Rightarrow> Inr r)"

definition classify_body :: "('req, 'res) codec \<Rightarrow> endpoint_policy \<Rightarrow> json \<Rightarrow> ls_error + 'res" where
  "classify_body c p v =
     (if is_order p
      then (let code = unwrap_or [] (jget_str v ''rsp_cd'');
                message = unwrap_or [] (jget_str v ''rsp_msg'')
            in case classify_order_rsp_cd code of
                 AckAccepted \<Rightarrow> decode_res c v
               | AckRejected \<Rightarrow> Inl (ApiError code message)
               | AckAmbiguous \<Rightarrow> Inl (AmbiguousOrder code message))
      else (case jget_str v ''rsp_cd'' of
              Some code \<Rightarrow>
                if \<not> rsp_cd_is_success code
                then Inl (ApiError code (unwrap_or [] (jget_str v ''rsp_msg'')))
                else decode_res c v
            | None \<Rightarrow> decode_res c v))"

section \<open>One attempt\<close>

definition tr_header :: "endpoint_policy \<Rightarrow> string option" where
  "tr_header p = (if tr_code p \<noteq> [] then Some (tr_code p) else None)"

definition api_request :: "resolved_config \<Rightarrow> endpoint_policy \<Rightarrow> string \<Rightarrow> string option \<Rightarrow>
    string option \<Rightarrow> string \<Rightarrow> http_request" where
  "api_request cfg p tok cont key body =
     \<lparr>rq_url = rc_base_url cfg @ path p, rq_bearer = Some tok,
      rq_tr_cd = tr_header p,
      rq_tr_cont = unwrap_or ''N'' cont, rq_tr_cont_key = unwrap_or [] key, rq_body = Text body\<rparr>"

definition send_and_classify ::
    "env \<Rightarrow> ('req, 'res) codec \<Rightarrow> endpoint_policy \<Rightarrow> http_request \<Rightarrow> inner \<Rightarrow> 'res io \<times> inner" where
  "send_and_classify e c p rq w =
     (case send e rq w of
        (SendFailed, w1) \<Rightarrow> (Some (Inl (Http None)), w1)
      | (Response status cont key body, w1) \<Rightarrow>
          (if \<not> is_success status then classify_failure p status body
           else case body of
               None \<Rightarrow> Some (Inl (Http None))
             | Some v \<Rightarrow> Some (classify_body c p (inject_headers cont key v)), w1))"

definition dispatch_once ::
    "env \<Rightarrow> ('req, 'res) codec \<Rightarrow> endpoint_policy \<Rightarrow> 'req \<Rightarrow> string option \<Rightarrow> string option \<Rightarrow> inner \<Rightarrow>
       'res io \<times> inner" where
  "dispatch_once e c p req cont key w =
     (case preflight_request (uni e) (schemas e) (to_value c) (tr_code p) req of
        Inl err \<Rightarrow> (Some (Inl err), w)
      | Inr _ \<Rightarrow>
          (case get_or_refresh e w of
             (None, w1) \<Rightarrow> (None, w1)
           | (Some (Inl err), w1) \<Rightarrow> (Some (Inl err), w1)
           | (Some (Inr tok), w1) \<Rightarrow>
               (case to_text c req of
                  None \<Rightarrow> (Some (Inl (Decode ''to_vec'')), w1)
                | Some body \<Rightarrow>
                    send_and_classify e c p (api_request (config w1) p tok cont key body) w1)))"

section \<open>Reads: retry and rate limit\<close>

text \<open>\<open>backon\<close>'s default builder allows three retries.\<close>

definition MAX_RETRIES :: nat where "MAX_RETRIES = 3"

fun retry_loop :: "nat \<Rightarrow> ('s \<Rightarrow> 'a io \<times> 's) \<Rightarrow> 's \<Rightarrow> 'a io \<times> 's" where
  "retry_loop retries attempt w =
     (case attempt w of
        (Some (Inl err), w1) \<Rightarrow>
          (case retries of
             0 \<Rightarrow> (Some (Inl err), w1)
           | Suc n \<Rightarrow> if is_retryable err then retry_loop n attempt w1 else (Some (Inl err), w1))
      | r \<Rightarrow> r)"

declare retry_loop.simps [simp del]

definition post_with_retry ::
    "env \<Rightarrow> ('req, 'res) codec \<Rightarrow> endpoint_policy \<Rightarrow> 'req \<Rightarrow> string option \<Rightarrow> string option \<Rightarrow> inner \<Rightarrow>
       'res io \<times> inner" where
  "post_with_retry e c p req cont key =
     retry_loop MAX_RETRIES (\<lambda>w. dispatch_once e c p req cont key (rate_wait (category p) w))"

definition post :: "env \<Rightarrow> ('req, 'res) codec \<Rightarrow> endpoint_policy \<Rightarrow> 'req \<Rightarrow> inner \<Rightarrow> 'res io \<times> inner" where
  "post e c p req w =
     (case guard_non_order p of
        Inl err \<Rightarrow> (Some (Inl err), w)
      | Inr _ \<Rightarrow> post_with_retry e c p req None None w)"

definition non_empty :: "string \<Rightarrow> string option" where
  "non_empty s = (if s \<noteq> [] then Some s else None)"

definition post_paginated ::
    "env \<Rightarrow> ('req, 'res) codec \<Rightarrow> 'req pagination \<Rightarrow> endpoint_policy \<Rightarrow> 'req \<Rightarrow> inner \<Rightarrow> 'res io \<times> inner" where
  "post_paginated e c pg p req w =
     (case guard_non_order p of
        Inl err \<Rightarrow> (Some (Inl err), w)
      | Inr _ \<Rightarrow> post_with_retry e c p req (non_empty (tr_cont pg req)) (non_empty (tr_cont_key pg req)) w)"

section \<open>Orders: exactly one attempt\<close>

definition dedup_get_now :: "env \<Rightarrow> string \<Rightarrow> inner \<Rightarrow> json option \<times> inner" where
  "dedup_get_now e key w =
     (let (t1, w1) = read_clock e w; (t2, w2) = read_clock e w1;
          (v, d) = dedup_get (order_dedup w2) key t1 t2
      in (v, w2\<lparr>order_dedup := d\<rparr>))"

text \<open>Alone on its thread, an insertion wins the compare-exchange of the sweep gate.\<close>

definition dedup_insert_now :: "env \<Rightarrow> string \<Rightarrow> json \<Rightarrow> inner \<Rightarrow> inner" where
  "dedup_insert_now e key v w =
     (let (t1, w1) = read_clock e w; (t2, w2) = read_clock e w1; (t3, w3) = read_clock e w2
      in w3\<lparr>order_dedup := dedup_insert (order_dedup w3) key v True t1 t2 t3\<rparr>)"

definition release :: "string \<Rightarrow> inner \<Rightarrow> inner" where
  "release key w = w\<lparr>order_dedup := drop_reservation (order_dedup w) key\<rparr>"

text \<open>
  What runs under the reservation: the charge, the attempt, and the insertion of an accepted
  response. The reservation is dropped on every exit, a panic included.
\<close>

definition dispatch_reserved ::
    "env \<Rightarrow> ('req, 'res) codec \<Rightarrow> endpoint_policy \<Rightarrow> 'req \<Rightarrow> string \<Rightarrow> inner \<Rightarrow> 'res io \<times> inner" where
  "dispatch_reserved e c p req key w =
     (case dispatch_once e c p req None None (rate_wait (category p) w) of
        (Some (Inr res), w1) \<Rightarrow>
          (Some (Inr res),
           case res_to_value c res of Some v \<Rightarrow> dedup_insert_now e key v w1 | None \<Rightarrow> w1)
      | r \<Rightarrow> r)"

definition post_order :: "env \<Rightarrow> ('req, 'res) codec \<Rightarrow> endpoint_policy \<Rightarrow> 'req \<Rightarrow> inner \<Rightarrow> 'res io \<times> inner" where
  "post_order e c p req w =
     (if \<not> orders_enabled w
      then (Some (Inl (ApiError ''orders-disabled''
              (''order dispatch is halted by the kill switch; order '' @ tr_code p @ '' was not sent''))), w)
      else case guard_order p of
        Inl err \<Rightarrow> (Some (Inl err), w)
      | Inr _ \<Rightarrow>
          (case dedup_key (sha256 e) (to_text c) (rc_account_no (config w)) (tr_code p) req of
             Inl err \<Rightarrow> (Some (Inl err), w)
           | Inr key \<Rightarrow>
               (case dedup_get_now e key w of
                  (Some cached, w1) \<Rightarrow> (Some (decode_res c cached), w1)
                | (None, w1) \<Rightarrow>
                    (case try_reserve (order_dedup w1) key of
                       (None, d) \<Rightarrow> (Some (Inl DuplicateOrder), w1\<lparr>order_dedup := d\<rparr>)
                     | (Some k, d) \<Rightarrow>
                         (case dispatch_reserved e c p req k (w1\<lparr>order_dedup := d\<rparr>) of
                            (r, w2) \<Rightarrow> (r, release k w2))))))"

section \<open>Collecting pages\<close>

text \<open>
  \<open>f\<close> is the caller's closure over its own state. The loop runs at most \<open>max_pages\<close> times; the
  first argument counts what is left, \<open>truncated\<close> and \<open>results\<close> are the loop's variables.
\<close>

fun collect_pages :: "('req \<Rightarrow> 's \<Rightarrow> 'res io \<times> 's) \<Rightarrow> 'req pagination \<Rightarrow> 'res pagination \<Rightarrow> nat \<Rightarrow>
    'req \<Rightarrow> 'res list \<Rightarrow> bool \<Rightarrow> 's \<Rightarrow> ('res list \<times> bool) io \<times> 's" where
  "collect_pages f pq pr 0 req results truncated s = (Some (Inr (results, truncated)), s)"
| "collect_pages f pq pr (Suc n) req results truncated s =
     (case f req s of
        (None, s1) \<Rightarrow> (None, s1)
      | (Some (Inl err), s1) \<Rightarrow> (Some (Inl err), s1)
      | (Some (Inr page), s1) \<Rightarrow>
          (let cont = tr_cont pr page
           in if cont = [] \<or> cont = ''N'' then (Some (Inr (results @ [page], False)), s1)
              else collect_pages f pq pr n
                (set_tr_cont_key pq (tr_cont_key pr page) (set_tr_cont pq cont req))
                (results @ [page]) True s1))"

definition collect_all :: "('req \<Rightarrow> 's \<Rightarrow> 'res io \<times> 's) \<Rightarrow> 'req pagination \<Rightarrow> 'res pagination \<Rightarrow> nat \<Rightarrow>
    'req \<Rightarrow> 's \<Rightarrow> 'res list io \<times> 's" where
  "collect_all f pq pr cap req s =
     (case collect_pages f pq pr cap req [] False s of
        (None, s1) \<Rightarrow> (None, s1)
      | (Some (Inl err), s1) \<Rightarrow> (Some (Inl err), s1)
      | (Some (Inr (results, truncated)), s1) \<Rightarrow>
          (if truncated then Some (Inl (PaginationLimit cap)) else Some (Inr results), s1))"

section \<open>What one attempt may touch\<close>

definition is_api :: "http_request \<Rightarrow> bool" where
  "is_api rq = (rq_bearer rq \<noteq> None)"

lemma is_api_token_request [simp]: "\<not> is_api (token_request cfg)"
  by (simp add: is_api_def token_request_def form_request_def)

lemma api_request_simps [simp]:
  "is_api (api_request cfg p tok cont key body)"
  "rq_tr_cd (api_request cfg p tok cont key body) = tr_header p"
  by (simp_all add: is_api_def api_request_def)

text \<open>
  One attempt sends at most a token request and then the request itself, charges nothing but the
  token's bucket, and leaves the order state alone.
\<close>

definition attempt_log :: "endpoint_policy \<Rightarrow> inner \<Rightarrow> inner \<Rightarrow> bool" where
  "attempt_log p w w' \<longleftrightarrow> order_frame w w' \<and>
     (\<exists>toks apis. sent w' = sent w @ toks @ apis \<and>
        charged w' = charged w @ map (\<lambda>_. AuthBucket) toks \<and>
        (toks = [] \<or> toks = [token_request (config w)]) \<and> length apis \<le> 1 \<and>
        (\<forall>rq \<in> set apis. is_api rq \<and>
           rq_tr_cd rq = tr_header p))"

lemma attempt_logI:
  assumes "order_frame w w'" "sent w' = sent w @ toks @ apis"
    "charged w' = charged w @ map (\<lambda>_. AuthBucket) toks"
    "toks = [] \<or> toks = [token_request (config w)]" "length apis \<le> 1"
    "\<And>rq. rq \<in> set apis \<Longrightarrow> is_api rq \<and>
       rq_tr_cd rq = tr_header p"
  shows "attempt_log p w w'"
  using assms unfolding attempt_log_def by blast

lemma send_and_classify_effect:
  assumes "send_and_classify e c p rq w = (r, w')"
  shows "w' = w\<lparr>sent := sent w @ [rq]\<rparr>"
  using assms by (auto simp: send_and_classify_def send_def split: http_result.splits)

lemma dispatch_once_cases [consumes 1, case_names not_sent was_sent]:
  assumes "dispatch_once e c p req cont key w = (r, w')"
  obtains (not_sent) "r = None \<or> (\<exists>err. r = Some (Inl err))"
      "w' = w \<or> (\<exists>tr. get_or_refresh e w = (tr, w'))"
    | (was_sent) tok w1 body where "get_or_refresh e w = (Some (Inr tok), w1)"
      "to_text c req = Some body"
      "send_and_classify e c p (api_request (config w1) p tok cont key body) w1 = (r, w')"
proof (cases "preflight_request (uni e) (schemas e) (to_value c) (tr_code p) req")
  case (Inl err)
  with assms show ?thesis by (intro not_sent) (auto simp: dispatch_once_def)
next
  case (Inr u)
  obtain tr w1 where t: "get_or_refresh e w = (tr, w1)" by fastforce
  show ?thesis
  proof (cases "\<exists>tok body. tr = Some (Inr tok) \<and> to_text c req = Some body")
    case True
    with assms Inr t was_sent show ?thesis by (auto simp: dispatch_once_def)
  next
    case False
    with assms Inr t not_sent show ?thesis
      by (auto simp: dispatch_once_def split: option.splits sum.splits)
  qed
qed

lemma attempt_log_refl: "attempt_log p w w"
  by (rule attempt_logI [of _ _ "[]" "[]"]) simp_all

lemma get_or_refresh_log:
  assumes "get_or_refresh e w = (r, w')"
  shows "attempt_log p w w'"
proof -
  note eff = get_or_refresh_effect(1) [OF assms]
  then show ?thesis
    by (elim conjE disjE)
      (auto intro: attempt_logI [of _ _ "[]" "[]"]
        attempt_logI [of _ _ "[token_request (config w)]" "[]"])
qed

lemma dispatch_once_log:
  assumes "dispatch_once e c p req cont key w = (r, w')"
  shows "attempt_log p w w'"
  using assms
proof (cases rule: dispatch_once_cases)
  case not_sent
  then show ?thesis
    using get_or_refresh_log attempt_log_refl by blast
next
  case (was_sent tok w1 body)
  let ?rq = "api_request (config w1) p tok cont key body"
  have w': "w' = w1\<lparr>sent := sent w1 @ [?rq]\<rparr>"
    using send_and_classify_effect [OF was_sent(3)] .
  show ?thesis
    using get_or_refresh_effect(1) [OF was_sent(1)] w'
    by (elim conjE disjE)
      (auto intro: attempt_logI [of _ _ "[]" "[?rq]"]
        attempt_logI [of _ _ "[token_request (config w)]" "[?rq]"])
qed

text \<open>How much of the log one attempt accounts for.\<close>

definition api_count :: "inner \<Rightarrow> nat" where
  "api_count w = length (filter is_api (sent w))"

lemma api_count_simps [simp]:
  "api_count (rate_wait b w) = api_count w"
  "api_count (w\<lparr>order_dedup := d\<rparr>) = api_count w"
  "api_count (w\<lparr>clock_reads := n\<rparr>) = api_count w"
  by (simp_all add: api_count_def rate_wait_def)

lemma attempt_log_count:
  assumes "attempt_log p w w'"
  shows "api_count w \<le> api_count w' \<and> api_count w' \<le> Suc (api_count w)"
  using assms by (auto simp: attempt_log_def api_count_def intro: le_trans [OF length_filter_le])

section \<open>Retries\<close>

text \<open>
  The loop is a chain of attempts that each failed with a retryable error, and one last attempt,
  whose outcome is the result; the chain stops early only at an outcome that must not be retried.
\<close>

definition retry_step :: "('s \<Rightarrow> 'a io \<times> 's) \<Rightarrow> 's \<Rightarrow> 's \<Rightarrow> bool" where
  "retry_step attempt w w' \<longleftrightarrow> (\<exists>err. attempt w = (Some (Inl err), w') \<and> is_retryable err)"

definition retryable_outcome :: "'a io \<Rightarrow> bool" where
  "retryable_outcome r \<longleftrightarrow> (\<exists>err. r = Some (Inl err) \<and> is_retryable err)"

lemma retry_loop_chain:
  assumes "retry_loop n attempt w = (r, w')"
  shows "\<exists>k w1. k \<le> n \<and> (retry_step attempt ^^ k) w w1 \<and> attempt w1 = (r, w') \<and>
    (retryable_outcome r \<longrightarrow> k = n)"
  using assms
proof (induction n arbitrary: w)
  case 0
  then show ?case
    by (auto simp: retry_loop.simps [of 0] split: prod.splits option.splits sum.splits)
next
  case (Suc n)
  show ?case
  proof (cases "\<exists>w2. retry_step attempt w w2")
    case True
    then obtain w2 err where step: "retry_step attempt w w2"
      "attempt w = (Some (Inl err), w2)" "is_retryable err"
      by (auto simp: retry_step_def)
    then have "retry_loop n attempt w2 = (r, w')"
      using Suc.prems by (simp add: retry_loop.simps [of "Suc n"])
    from Suc.IH [OF this] obtain k w1 where
      "k \<le> n" "(retry_step attempt ^^ k) w2 w1" "attempt w1 = (r, w')" "retryable_outcome r \<longrightarrow> k = n"
      by blast
    then show ?thesis
      using relpowp_Suc_I2 [of "retry_step attempt", OF step(1)]
      by (intro exI [of _ "Suc k"] exI [of _ w1]) auto
  next
    case False
    then have "attempt w = (r, w')" "\<not> retryable_outcome r"
      using Suc.prems
      by (auto simp: retry_step_def retryable_outcome_def retry_loop.simps [of "Suc n"]
          split: prod.splits option.splits sum.splits if_splits)
    then show ?thesis
      by (intro exI [of _ 0] exI [of _ w]) auto
  qed
qed

lemma attempts_log:
  assumes "(retry_step (\<lambda>w. dispatch_once e c p req cont key (rate_wait (category p) w)) ^^ k) w w'"
  shows "order_frame w w' \<and> api_count w \<le> api_count w' \<and> api_count w' \<le> api_count w + k"
  using assms
proof (induction k arbitrary: w')
  case (Suc k)
  then obtain w1 where w1:
    "(retry_step (\<lambda>w. dispatch_once e c p req cont key (rate_wait (category p) w)) ^^ k) w w1"
    "retry_step (\<lambda>w. dispatch_once e c p req cont key (rate_wait (category p) w)) w1 w'"
    by auto
  then have log: "attempt_log p (rate_wait (category p) w1) w'"
    by (auto simp: retry_step_def dest: dispatch_once_log)
  have "order_frame w1 w'"
    using log by (simp add: attempt_log_def order_frame_def rate_wait_def)
  then show ?case
    using Suc.IH [OF w1(1)] attempt_log_count [OF log] by (auto intro: order_frame_trans)
qed simp

section \<open>The branches of an order\<close>

lemma dedup_get_now_effect:
  assumes "dedup_get_now e key w = (v, w')"
  shows "v = peek (order_dedup w) key (clock e (clock_reads w))"
    and "w' = w\<lparr>clock_reads := clock_reads w + 2, order_dedup := order_dedup w'\<rparr>"
    and "in_flight (order_dedup w') = in_flight (order_dedup w)"
    and "ttl (order_dedup w') = ttl (order_dedup w)"
    and "wf_dedup (order_dedup w) \<Longrightarrow> wf_dedup (order_dedup w')"
proof -
  let ?g = "dedup_get (order_dedup w) key (clock e (clock_reads w)) (clock e (Suc (clock_reads w)))"
  have w': "v = fst ?g" "w' = w\<lparr>clock_reads := Suc (Suc (clock_reads w)), order_dedup := snd ?g\<rparr>"
    using assms by (auto simp: dedup_get_now_def read_clock_def split: prod.splits)
  then show "v = peek (order_dedup w) key (clock e (clock_reads w))"
    and "w' = w\<lparr>clock_reads := clock_reads w + 2, order_dedup := order_dedup w'\<rparr>"
    and "in_flight (order_dedup w') = in_flight (order_dedup w)"
    and "ttl (order_dedup w') = ttl (order_dedup w)"
    and "wf_dedup (order_dedup w) \<Longrightarrow> wf_dedup (order_dedup w')"
    by (simp_all add: dedup_get_peek dedup_get_frame)
qed

definition order_key :: "env \<Rightarrow> ('req, 'res) codec \<Rightarrow> endpoint_policy \<Rightarrow> 'req \<Rightarrow> inner \<Rightarrow> ls_error + string" where
  "order_key e c p req w = dedup_key (sha256 e) (to_text c) (rc_account_no (config w)) (tr_code p) req"

lemma post_order_cases [consumes 1, case_names refused hit duplicate live]:
  assumes "post_order e c p req w = (r, w')"
  obtains (refused) err where "r = Some (Inl err)" "w' = w"
      "\<not> orders_enabled w \<or> \<not> is_order p \<or> order_key e c p req w = Inl err"
    | (hit) key cached where "orders_enabled w" "is_order p" "order_key e c p req w = Inr key"
      "dedup_get_now e key w = (Some cached, w')" "r = Some (decode_res c cached)"
    | (duplicate) key w1 where "orders_enabled w" "is_order p" "order_key e c p req w = Inr key"
      "dedup_get_now e key w = (None, w1)" "key \<in> in_flight (order_dedup w1)"
      "r = Some (Inl DuplicateOrder)" "w' = w1\<lparr>order_dedup := count_hit (order_dedup w1)\<rparr>"
    | (live) key w1 w2 where "orders_enabled w" "is_order p" "order_key e c p req w = Inr key"
      "dedup_get_now e key w = (None, w1)" "key \<notin> in_flight (order_dedup w1)"
      "dispatch_reserved e c p req key
         (w1\<lparr>order_dedup := (order_dedup w1)\<lparr>in_flight := insert key (in_flight (order_dedup w1))\<rparr>\<rparr>)
         = (r, w2)"
      "w' = release key w2"
proof (cases "orders_enabled w \<and> is_order p")
  case False
  then have "\<exists>err. post_order e c p req w = (Some (Inl err), w)"
    by (auto simp: post_order_def guard_order_def)
  with assms False refused show ?thesis by auto
next
  case enabled: True
  show ?thesis
  proof (cases "order_key e c p req w")
    case (Inl err)
    with enabled have "post_order e c p req w = (Some (Inl err), w)"
      by (simp add: post_order_def guard_order_def order_key_def)
    with assms Inl refused show ?thesis by auto
  next
    case (Inr key)
    obtain v w1 where g: "dedup_get_now e key w = (v, w1)" by fastforce
    note post_order_def [simp] guard_order_def [simp] try_reserve_def [simp]
    have key: "dedup_key (sha256 e) (to_text c) (rc_account_no (config w)) (tr_code p) req = Inr key"
      using Inr by (simp add: order_key_def)
    show ?thesis
    proof (cases v)
      case (Some cached)
      with enabled key g have "post_order e c p req w = (Some (decode_res c cached), w1)"
        by simp
      with assms enabled Inr Some g hit show ?thesis by auto
    next
      case None
      show ?thesis
      proof (cases "key \<in> in_flight (order_dedup w1)")
        case True
        with None enabled key g have "post_order e c p req w =
            (Some (Inl DuplicateOrder), w1\<lparr>order_dedup := count_hit (order_dedup w1)\<rparr>)"
          by simp
        with assms enabled Inr None True g duplicate show ?thesis by auto
      next
        case False
        let ?d = "order_dedup w1"
        obtain r2 w2 where d: "dispatch_reserved e c p req key
            (w1\<lparr>order_dedup := ?d\<lparr>in_flight := insert key (in_flight ?d)\<rparr>\<rparr>) = (r2, w2)"
          by fastforce
        with False None enabled key g have "post_order e c p req w = (r2, release key w2)"
          by simp
        with assms have "r2 = r" "w' = release key w2" by simp_all
        with d live [OF _ _ Inr g [unfolded None] False] enabled show ?thesis by blast
      qed
    qed
  qed
qed

lemma dedup_insert_now_effect:
  "dedup_insert_now e key v w =
     w\<lparr>clock_reads := clock_reads w + 3,
       order_dedup := dedup_insert (order_dedup w) key v True (clock e (clock_reads w))
         (clock e (clock_reads w + 1)) (clock e (clock_reads w + 2))\<rparr>"
  by (simp add: dedup_insert_now_def read_clock_def numeral_3_eq_3)

lemma dispatch_reserved_cases [consumes 1, case_names cached plain]:
  assumes "dispatch_reserved e c p req key w = (r, w')"
  obtains (cached) res v w1 where "r = Some (Inr res)" "res_to_value c res = Some v"
      "dispatch_once e c p req None None (rate_wait (category p) w) = (r, w1)"
      "w' = dedup_insert_now e key v w1"
    | (plain) "dispatch_once e c p req None None (rate_wait (category p) w) = (r, w')"
      "\<And>res. r = Some (Inr res) \<Longrightarrow> res_to_value c res = None"
proof -
  obtain r1 w1 where d: "dispatch_once e c p req None None (rate_wait (category p) w) = (r1, w1)"
    by fastforce
  show ?thesis
  proof (cases "\<exists>res v. r1 = Some (Inr res) \<and> res_to_value c res = Some v")
    case True
    then obtain res v where r1: "r1 = Some (Inr res)" "res_to_value c res = Some v" by blast
    with assms d have "r = r1" "w' = dedup_insert_now e key v w1"
      by (simp_all add: dispatch_reserved_def)
    with cached r1 d show ?thesis by blast
  next
    case False
    with assms d show ?thesis
      by (intro plain) (auto simp: dispatch_reserved_def split: option.splits sum.splits)
  qed
qed

text \<open>
  What the reserved part may touch: one attempt in the log, one charge of the order's bucket, and
  the cache; the reservations stay.
\<close>

lemma dispatch_reserved_effect:
  assumes "dispatch_reserved e c p req key w = (r, w')"
  shows "config w' = config w \<and> orders_enabled w' = orders_enabled w \<and>
    clock_reads w \<le> clock_reads w' \<and>
    in_flight (order_dedup w') = in_flight (order_dedup w) \<and>
    ttl (order_dedup w') = ttl (order_dedup w) \<and>
    (wf_dedup (order_dedup w) \<longrightarrow> wf_dedup (order_dedup w')) \<and>
    (\<exists>toks apis. sent w' = sent w @ toks @ apis \<and>
       charged w' = charged w @ [category p] @ map (\<lambda>_. AuthBucket) toks \<and>
       (toks = [] \<or> toks = [token_request (config w)]) \<and> length apis \<le> 1 \<and>
       (\<forall>rq \<in> set apis. is_api rq \<and> rq_tr_cd rq = tr_header p))"
  using assms
proof (cases rule: dispatch_reserved_cases)
  case (cached res v w1)
  then show ?thesis
    using dispatch_once_log [OF cached(3)]
    by (auto simp: attempt_log_def order_frame_def rate_wait_def dedup_insert_now_effect
        dedup_insert_frame)
next
  case plain
  then show ?thesis
    using dispatch_once_log [OF plain(1)]
    by (auto simp: attempt_log_def order_frame_def rate_wait_def)
qed

text \<open>The whole order call, in terms of the log, the switch and the reservations.\<close>

lemma post_order_effect:
  assumes "post_order e c p req w = (r, w')"
  shows "config w' = config w \<and> orders_enabled w' = orders_enabled w \<and>
    clock_reads w \<le> clock_reads w' \<and>
    in_flight (order_dedup w') = in_flight (order_dedup w) \<and>
    ttl (order_dedup w') = ttl (order_dedup w) \<and>
    (wf_dedup (order_dedup w) \<longrightarrow> wf_dedup (order_dedup w')) \<and>
    (sent w' = sent w \<and> charged w' = charged w \<or>
     orders_enabled w \<and> is_order p \<and>
     (\<exists>toks apis. sent w' = sent w @ toks @ apis \<and>
        charged w' = charged w @ [category p] @ map (\<lambda>_. AuthBucket) toks \<and>
        (toks = [] \<or> toks = [token_request (config w)]) \<and> length apis \<le> 1 \<and>
        (\<forall>rq \<in> set apis. is_api rq \<and> rq_tr_cd rq = tr_header p)))"
  using assms
proof (cases rule: post_order_cases)
  case (refused err)
  then show ?thesis by simp
next
  case (hit key cached)
  note g = dedup_get_now_effect [OF hit(4)]
  show ?thesis using g(3-5) by (subst (1 2 3 4 5 6 7 8) g(2)) auto
next
  case (duplicate key w1)
  note g = dedup_get_now_effect [OF duplicate(4)]
  show ?thesis
    using g(3-5) duplicate(7) by (subst (asm) g(2)) (auto simp: count_hit_def wf_dedup_def)
next
  case (live key w1 w2)
  note g = dedup_get_now_effect [OF live(4)]
  have w1: "config w1 = config w" "orders_enabled w1 = orders_enabled w" "sent w1 = sent w"
    "charged w1 = charged w" "clock_reads w1 = clock_reads w + 2"
    by (subst g(2), simp)+
  show ?thesis
    using dispatch_reserved_effect [OF live(6)] g(3-5) live(1,2,5,7) w1
    by (auto simp: release_def drop_reservation_def wf_dedup_def)
qed

text \<open>
  C1. An order call is a single shot, whatever the gateway does: at most one request carrying the
  order leaves, preceded by at most one token request; the order's rate bucket is charged exactly
  once when anything is sent, and no reservation is left behind (or taken from another call), on
  success, rejection, ambiguity or panic.
\<close>

theorem order_is_single_shot:
  "case post_order e c p req w of (r, w') \<Rightarrow>
     in_flight (order_dedup w') = in_flight (order_dedup w) \<and>
     (sent w' = sent w \<and> charged w' = charged w \<or>
      (\<exists>toks apis. sent w' = sent w @ toks @ apis \<and> toks \<in> {[], [token_request (config w)]} \<and>
         length apis \<le> 1 \<and> set apis \<subseteq> {rq. is_api rq \<and> rq_tr_cd rq = tr_header p} \<and>
         charged w' = charged w @ [category p] @ map (\<lambda>_. AuthBucket) toks))"
proof -
  obtain r w' where p: "post_order e c p req w = (r, w')" by fastforce
  show ?thesis
    using post_order_effect [OF p] unfolding p prod.case by blast
qed

section \<open>Reads retry, orders do not\<close>

text \<open>
  A read is retried only after a transient failure (no answer, an undecodable body, a 5xx
  status without a broker code), at most three times, so at most four requests leave; it stops at the first outcome that
  is not transient, returns the last attempt's outcome, and leaves the order state alone.
\<close>

theorem reads_retry_only_transient:
  "case post_with_retry e c p req cont key w of (r, w') \<Rightarrow>
     \<exists>k w1. k \<le> 3 \<and>
       (retry_step (\<lambda>w. dispatch_once e c p req cont key (rate_wait (category p) w)) ^^ k) w w1 \<and>
       dispatch_once e c p req cont key (rate_wait (category p) w1) = (r, w') \<and>
       (if retryable_outcome r then k = 3 else k \<le> 3) \<and>
       order_frame w w' \<and> api_count w' \<le> api_count w + 4"
proof -
  let ?a = "\<lambda>w. dispatch_once e c p req cont key (rate_wait (category p) w)"
  obtain r w' where p: "post_with_retry e c p req cont key w = (r, w')" by fastforce
  then have "retry_loop 3 ?a w = (r, w')" by (simp add: post_with_retry_def MAX_RETRIES_def)
  from retry_loop_chain [OF this] obtain k w1 where k: "k \<le> 3" "(retry_step ?a ^^ k) w w1"
    "?a w1 = (r, w')" "retryable_outcome r \<longrightarrow> k = 3" by blast
  note pre = attempts_log [OF k(2)]
  note last = dispatch_once_log [OF k(3)]
  have "order_frame w1 w'"
    using last by (simp add: attempt_log_def order_frame_def rate_wait_def)
  with pre have "order_frame w w'" by (auto intro: order_frame_trans)
  moreover have "api_count w' \<le> api_count w + 4"
    using pre attempt_log_count [OF last] k(1) by simp
  ultimately show ?thesis
    using k unfolding p prod.case by (intro exI [of _ k] exI [of _ w1]) auto
qed

section \<open>The kill switch\<close>

datatype 'req client_op =
    Read endpoint_policy 'req
  | ReadPage endpoint_policy 'req
  | Place endpoint_policy 'req
  | Revoke

definition run_op ::
    "env \<Rightarrow> ('req, 'res) codec \<Rightarrow> 'req pagination \<Rightarrow> inner \<Rightarrow> 'req client_op \<Rightarrow> inner" where
  "run_op e c pg w op =
     (case op of
        Read p req \<Rightarrow> snd (post e c p req w)
      | ReadPage p req \<Rightarrow> snd (post_paginated e c pg p req w)
      | Place p req \<Rightarrow> snd (post_order e c p req w)
      | Revoke \<Rightarrow> snd (revoke_token e w))"

text \<open>
  The requests a client with the switch off may send: the token's own, and those of reads.
\<close>

definition harmless :: "'req client_op list \<Rightarrow> http_request \<Rightarrow> bool" where
  "harmless ops rq \<longleftrightarrow>
     \<not> is_api rq \<or>
     (\<exists>p req. (Read p req \<in> set ops \<or> ReadPage p req \<in> set ops) \<and> \<not> is_order p \<and> rq_tr_cd rq = tr_header p)"

definition sends_only :: "(http_request \<Rightarrow> bool) \<Rightarrow> inner \<Rightarrow> inner \<Rightarrow> bool" where
  "sends_only P w w' \<longleftrightarrow> (\<exists>rqs. sent w' = sent w @ rqs \<and> (\<forall>rq \<in> set rqs. P rq))"

lemma sends_only_refl: "sent w' = sent w \<Longrightarrow> sends_only P w w'"
  by (simp add: sends_only_def)

lemma sends_only_trans: "sends_only P w w' \<Longrightarrow> sends_only P w' w'' \<Longrightarrow> sends_only P w w''"
  unfolding sends_only_def by (metis append.assoc UnE set_append)

lemma sends_only_mono: "sends_only P w w' \<Longrightarrow> (\<And>rq. P rq \<Longrightarrow> Q rq) \<Longrightarrow> sends_only Q w w'"
  unfolding sends_only_def by blast

lemma attempt_sends:
  assumes "attempt_log p (rate_wait b w) w'"
  shows "sends_only (\<lambda>rq. \<not> is_api rq \<or> rq_tr_cd rq = tr_header p) w w'"
  using assms unfolding attempt_log_def sends_only_def rate_wait_def by force

lemma retries_send:
  assumes "(retry_step (\<lambda>w. dispatch_once e c p req cont key (rate_wait (category p) w)) ^^ k) w w'"
  shows "sends_only (\<lambda>rq. \<not> is_api rq \<or> rq_tr_cd rq = tr_header p) w w'"
  using assms
proof (induction k arbitrary: w')
  case 0
  then show ?case by (simp add: sends_only_refl)
next
  case (Suc k)
  then obtain w1 where w1:
    "(retry_step (\<lambda>w. dispatch_once e c p req cont key (rate_wait (category p) w)) ^^ k) w w1"
    "retry_step (\<lambda>w. dispatch_once e c p req cont key (rate_wait (category p) w)) w1 w'"
    by auto
  then show ?case
    using Suc.IH [OF w1(1)] sends_only_trans
    by (auto simp: retry_step_def dest!: dispatch_once_log attempt_sends)
qed

lemma retried_sends:
  assumes "post_with_retry e c p req cont key w = (r, w')"
  shows "order_frame w w' \<and> sends_only (\<lambda>rq. \<not> is_api rq \<or> rq_tr_cd rq = tr_header p) w w'"
proof -
  let ?a = "\<lambda>w. dispatch_once e c p req cont key (rate_wait (category p) w)"
  have "retry_loop 3 ?a w = (r, w')" using assms by (simp add: post_with_retry_def MAX_RETRIES_def)
  from retry_loop_chain [OF this] obtain k w1 where k: "(retry_step ?a ^^ k) w w1" "?a w1 = (r, w')"
    by blast
  have log: "attempt_log p (rate_wait (category p) w1) w'"
    by (rule dispatch_once_log [OF k(2)])
  then have "order_frame w1 w'" by (simp add: attempt_log_def order_frame_def rate_wait_def)
  then show ?thesis
    using attempts_log [OF k(1)] sends_only_trans [OF retries_send [OF k(1)] attempt_sends [OF log]]
    by (auto intro: order_frame_trans)
qed

lemma post_sends:
  assumes "post e c p req w = (r, w') \<or> post_paginated e c pg p req w = (r, w')"
  shows "order_frame w w' \<and> sends_only (\<lambda>rq. \<not> is_api rq \<or> \<not> is_order p \<and> rq_tr_cd rq = tr_header p) w w'"
proof (cases "is_order p")
  case True
  with assms show ?thesis by (auto simp: post_def post_paginated_def guard_non_order_def sends_only_refl)
next
  case False
  with assms obtain cont key where "post_with_retry e c p req cont key w = (r, w')"
    by (auto simp: post_def post_paginated_def guard_non_order_def)
  from retried_sends [OF this] False show ?thesis by simp
qed

lemma revoke_sends:
  assumes "revoke_token e w = (r, w')"
  shows "order_frame w w' \<and> sends_only (\<lambda>rq. \<not> is_api rq) w w'"
  using assms
  by (auto simp: revoke_token_def revoke_token_http_def snapshot_token_def clear_token_def
      world_defs order_frame_def sends_only_def is_api_def revoke_request_def form_request_def
      split: io_splits)

lemma harmless_mono: "harmless xs rq \<Longrightarrow> set xs \<subseteq> set ys \<Longrightarrow> harmless ys rq"
  unfolding harmless_def by blast

lemma run_op_halted:
  assumes "\<not> orders_enabled w"
  shows "order_frame w (run_op e c pg w op) \<and> sends_only (harmless [op]) w (run_op e c pg w op)"
proof (cases op)
  case (Read p req)
  obtain r w' where "post e c p req w = (r, w')" by fastforce
  from post_sends [OF disjI1, OF this] this Read show ?thesis
    by (auto simp: run_op_def harmless_def elim!: sends_only_mono)
next
  case (ReadPage p req)
  obtain r w' where "post_paginated e c pg p req w = (r, w')" by fastforce
  from post_sends [OF disjI2, OF this] this ReadPage show ?thesis
    by (auto simp: run_op_def harmless_def elim!: sends_only_mono)
next
  case (Place p req)
  then show ?thesis using assms by (simp add: run_op_def post_order_def sends_only_refl)
next
  case Revoke
  obtain r w' where "revoke_token e w = (r, w')" by fastforce
  from revoke_sends [OF this] this Revoke show ?thesis
    by (auto simp: run_op_def harmless_def elim!: sends_only_mono)
qed

lemma run_ops_halted:
  assumes "\<not> orders_enabled w"
  shows "order_frame w (foldl (run_op e c pg) w ops) \<and> sends_only (harmless ops) w (foldl (run_op e c pg) w ops)"
  using assms
proof (induction ops arbitrary: w)
  case Nil
  then show ?case by (simp add: sends_only_refl)
next
  case (Cons op ops)
  note one = run_op_halted [OF Cons.prems, of e c pg op]
  then have "\<not> orders_enabled (run_op e c pg w op)"
    using Cons.prems by (simp add: order_frame_def)
  note rest = Cons.IH [OF this]
  have "sends_only (harmless (op # ops)) w (foldl (run_op e c pg) (run_op e c pg w op) ops)"
  proof (rule sends_only_trans)
    show "sends_only (harmless (op # ops)) w (run_op e c pg w op)"
      using one by (auto elim!: sends_only_mono harmless_mono)
    show "sends_only (harmless (op # ops)) (run_op e c pg w op) (foldl (run_op e c pg) (run_op e c pg w op) ops)"
      using rest by (auto elim!: sends_only_mono harmless_mono)
  qed
  then show ?case using one rest by (auto intro: order_frame_trans)
qed

text \<open>
  C12. The kill switch halts orders for good: after \<open>set_orders_enabled(false)\<close>, whatever sequence
  of reads, paginated reads, orders and revocations follows, the switch stays off, the deduplication
  state does not move, and every request that leaves is a token request or belongs to one of the
  reads, whose endpoint is not an order's.
\<close>

theorem kill_switch_halts_orders:
  "let w' = foldl (run_op e c pg) (set_orders_enabled False w) ops
   in orders_enabled w' = False \<and> order_dedup w' = order_dedup w \<and>
      sends_only (harmless ops) (set_orders_enabled False w) w'"
  using run_ops_halted [of "set_orders_enabled False w" e c pg ops]
  by (simp add: set_orders_enabled_def order_frame_def Let_def)

section \<open>What the outcome of an order attempt means\<close>

lemma jget_str_inject [simp]:
  "k \<noteq> ''tr_cont'' \<Longrightarrow> k \<noteq> ''tr_cont_key'' \<Longrightarrow> jget_str (inject_headers cont key v) k = jget_str v k"
  by (cases v) (simp_all add: inject_headers_def jget_str_def jget_def jset_def)

text \<open>The code an answer carries: the string under \<open>rsp_cd\<close> of its JSON object, or nothing.\<close>

definition answer_code :: "http_result \<Rightarrow> string" where
  "answer_code a =
     (case a of
        Response _ _ _ (Some (JObj m)) \<Rightarrow> (case map_of m ''rsp_cd'' of Some (JStr code) \<Rightarrow> code | _ \<Rightarrow> [])
      | _ \<Rightarrow> [])"

fun answer_status :: "http_result \<Rightarrow> nat option" where
  "answer_status SendFailed = None"
| "answer_status (Response status _ _ _) = Some status"

text \<open>
  What the gateway's answer says of an order, as the contract has it and written out without the
  classifiers of the code: the six completion codes acknowledge it, no code and the generic
  success code say nothing, any other code under 2xx refuses it, and under an error status only the
  ingress refusal does.\<close>

definition contract_acks :: "string set" where
  "contract_acks = {''00039'', ''00040'', ''00462'', ''00463'', ''00156'', ''00132''}"

definition acknowledged :: "http_result \<Rightarrow> bool" where
  "acknowledged a \<longleftrightarrow> (\<exists>st cont key v. a = Response st cont key (Some v) \<and> 200 \<le> st \<and> st < 300) \<and>
     answer_code a \<in> contract_acks"

definition refused_for_sure :: "http_result \<Rightarrow> bool" where
  "refused_for_sure a \<longleftrightarrow> (\<exists>st cont key body. a = Response st cont key body \<and>
     (200 \<le> st \<and> st < 300 \<and> answer_code a \<notin> contract_acks \<and> answer_code a \<notin> {[], ''00000''} \<or>
      400 \<le> st \<and> st < 600 \<and> answer_code a = ''IGW40011''))"

lemma answer_code_read:
  "answer_code a = (case a of SendFailed \<Rightarrow> [] | Response _ _ _ body \<Rightarrow> envelope_str body ''rsp_cd'')"
  by (auto simp: answer_code_def envelope_str_def unwrap_or_def jget_str_def jget_def as_str_def
      split: http_result.split option.split json.split)

lemma contract_read:
  "acknowledged (Response st cont key (Some v)) \<longleftrightarrow> is_success st \<and> rsp_cd_is_order_success (envelope_str (Some v) ''rsp_cd'')"
  "is_success st \<Longrightarrow> refused_for_sure (Response st cont key body) \<longleftrightarrow>
     classify_order_rsp_cd (envelope_str body ''rsp_cd'') = AckRejected"
  "400 \<le> st \<Longrightarrow> st < 600 \<Longrightarrow> refused_for_sure (Response st cont key body) \<longleftrightarrow>
     is_ingress_validation_reject (envelope_str body ''rsp_cd'')"
  by (auto simp: acknowledged_def refused_for_sure_def answer_code_read is_success_def contract_acks_def
      rsp_cd_is_order_success_def classify_order_rsp_cd_def is_ingress_validation_reject_def)

lemma classify_failure_order:
  "is_order p \<Longrightarrow> 400 \<le> status \<Longrightarrow> status < 600 \<Longrightarrow> classify_failure p status body =
     Some (Inl ((if is_ingress_validation_reject (envelope_str body ''rsp_cd'') then ApiError else AmbiguousOrder)
       (envelope_str body ''rsp_cd'') (envelope_str body ''rsp_msg'')))"
  by (simp add: classify_failure_def status_error_def Let_def)

lemma classify_failure_panic:
  "\<not> (400 \<le> status \<and> status < 600) \<Longrightarrow> classify_failure p status body = None"
  by (auto simp: classify_failure_def status_error_def)

lemma classify_body_order:
  assumes "is_order p"
  shows "classify_body c p (inject_headers cont key v) =
    (case classify_order_rsp_cd (envelope_str (Some v) ''rsp_cd'') of
       AckAccepted \<Rightarrow> decode_res c (inject_headers cont key v)
     | AckRejected \<Rightarrow> Inl (ApiError (envelope_str (Some v) ''rsp_cd'') (envelope_str (Some v) ''rsp_msg''))
     | AckAmbiguous \<Rightarrow> Inl (AmbiguousOrder (envelope_str (Some v) ''rsp_cd'') (envelope_str (Some v) ''rsp_msg'')))"
  using assms by (simp add: classify_body_def envelope_str_def Let_def split: order_ack.split)

lemma order_verdict_cases:
  assumes "is_order p"
  shows "case gateway e (sent w) rq of
      SendFailed \<Rightarrow> fst (send_and_classify e c p rq w) = Some (Inl (Http None))
    | Response st cont key body \<Rightarrow>
        (let a = Response st cont key body
         in case fst (send_and_classify e c p rq w) of
              Some (Inr res) \<Rightarrow> acknowledged a
            | Some (Inl (ApiError code msg)) \<Rightarrow> refused_for_sure a \<and> code = answer_code a
            | Some (Inl (AmbiguousOrder code msg)) \<Rightarrow> code = answer_code a \<and>
                (if 200 \<le> st \<and> st < 300 then code \<in> {[], ''00000''} else 400 \<le> st \<and> st < 600 \<and> code \<noteq> ''IGW40011'')
            | Some (Inl err) \<Rightarrow> 200 \<le> st \<and> st < 300 \<and>
                (if body = None then err = Http None else acknowledged a \<and> err = Decode ''from_value'')
            | None \<Rightarrow> st < 200 \<or> 300 \<le> st \<and> st < 400 \<or> 600 \<le> st)"
proof (cases "gateway e (sent w) rq")
  case SendFailed
  then show ?thesis by (simp add: send_and_classify_def send_def)
next
  case (Response st cont key body)
  note defs = send_and_classify_def send_def answer_code_read contract_read
  show ?thesis
  proof (cases "is_success st")
    case False
    show ?thesis
    proof (cases "400 \<le> st \<and> st < 600")
      case True
      with False Response assms show ?thesis
        by (simp add: defs classify_failure_order is_success_def) (simp add: is_ingress_validation_reject_def)
    next
      case err: False
      then have "st < 200 \<or> 300 \<le> st \<and> st < 400 \<or> 600 \<le> st"
        using False by (auto simp: is_success_def)
      with False Response show ?thesis
        by (simp add: defs classify_failure_panic [OF err])
    qed
  next
    case True
    then have st: "200 \<le> st" "st < 300" by (simp_all add: is_success_def)
    show ?thesis
    proof (cases body)
      case None
      with True st Response show ?thesis by (simp add: defs)
    next
      case (Some v)
      let ?code = "envelope_str (Some v) ''rsp_cd''"
      show ?thesis
      proof (cases "classify_order_rsp_cd ?code")
        case AckAccepted
        then have "rsp_cd_is_order_success ?code" by (simp add: classify_order_cases)
        with AckAccepted Some True st Response assms show ?thesis
          by (cases "from_value c (inject_headers cont key v)")
            (simp_all add: defs classify_body_order decode_res_def Let_def)
      next
        case AckRejected
        with Some True st Response assms show ?thesis
          by (simp add: defs classify_body_order Let_def)
      next
        case AckAmbiguous
        then have "?code = [] \<or> ?code = ''00000''" by (simp add: classify_order_cases)
        with AckAmbiguous Some True st Response assms show ?thesis
          by (simp add: defs classify_body_order Let_def)
      qed
    qed
  qed
qed


text \<open>
  A status that is neither a success nor an error status (304, or a redirect without a
  location) is not ambiguous but a panic: \<open>error_for_status_ref().unwrap_err()\<close> has no error to
  unwrap, after the order went out.
\<close>

theorem order_redirect_panics:
  assumes "gateway e (sent w) rq = Response st cont key body" and "300 \<le> st" and "st < 400"
  shows "send_and_classify e c p rq w = (None, w\<lparr>sent := sent w @ [rq]\<rparr>)"
  using assms by (simp add: send_and_classify_def send_def is_success_def classify_failure_panic)

section \<open>The deduplication window\<close>

lemma dedup_get_now_peek:
  assumes "dedup_get_now e key' w = (r, w')" "key \<noteq> key'"
  shows "peek (order_dedup w') key t = peek (order_dedup w) key t"
  using assms(1) peek_get_other [OF assms(2), of "order_dedup w" "clock e (clock_reads w)"
    "clock e (Suc (clock_reads w))" t]
  by (auto simp: dedup_get_now_def read_clock_def split: prod.splits)

lemma dispatch_reserved_peek:
  assumes "dispatch_reserved e c p req key' w = (r, w')" "key \<noteq> key'" "wf_dedup (order_dedup w)"
    "peek (order_dedup w) key t = Some v" "\<And>i. i < clock_reads w' \<Longrightarrow> clock e i \<le> t"
  shows "peek (order_dedup w') key t = Some v"
  using assms(1)
proof (cases rule: dispatch_reserved_cases)
  case (cached res x w1)
  have d: "order_dedup w1 = order_dedup w"
    using dispatch_once_log [OF cached(3)] by (simp add: attempt_log_def order_frame_def rate_wait_def)
  have "clock e (clock_reads w1 + 1) \<le> t"
    using assms(5) cached(4) by (simp add: dedup_insert_now_effect)
  then show ?thesis
    using assms(2-4) cached(4) d
    by (simp add: dedup_insert_now_effect peek_insert_other peek_sweep)
next
  case plain
  then show ?thesis
    using dispatch_once_log [OF plain(1)] assms(4)
    by (simp add: attempt_log_def order_frame_def rate_wait_def)
qed

lemma post_order_peek_other:
  assumes "post_order e c p req w = (r, w')" "order_key e c p req w \<noteq> Inr key"
    "wf_dedup (order_dedup w)" "peek (order_dedup w) key t = Some v"
    "\<And>i. i < clock_reads w' \<Longrightarrow> clock e i \<le> t"
  shows "peek (order_dedup w') key t = Some v"
  using assms(1)
proof (cases rule: post_order_cases)
  case (refused err)
  then show ?thesis using assms(4) by simp
next
  case (hit key' cached)
  with assms(2) have "key \<noteq> key'" by auto
  with dedup_get_now_peek [OF hit(4)] assms(4) show ?thesis by simp
next
  case (duplicate key' w1)
  with assms(2) have "key \<noteq> key'" by auto
  with dedup_get_now_peek [OF duplicate(4)] duplicate(7) assms(4) show ?thesis by simp
next
  case (live key' w1 w2)
  with assms(2) have key: "key \<noteq> key'" by auto
  have "peek (order_dedup w1) key t = Some v"
    using dedup_get_now_peek [OF live(4) key] assms(4) by simp
  then have "peek (order_dedup w2) key t = Some v"
    using dispatch_reserved_peek [OF live(6) key] assms(3,5) live(7)
      dedup_get_now_effect(5) [OF live(4)]
    by (simp add: wf_dedup_def release_def)
  then show ?thesis
    using live(7) by (simp add: release_def drop_reservation_def)
qed

text \<open>An order answered live and accepted leaves its response behind, stamped with its last reading.\<close>

lemma accepted_order_cached:
  assumes "post_order e c p req w = (Some (Inr res), w1)" "order_key e c p req w = Inr key"
    "peek (order_dedup w) key (clock e (clock_reads w)) = None" "res_to_value c res = Some v"
  shows "\<exists>i < clock_reads w1. clock_reads w \<le> i \<and> (\<forall>t. clock e i \<le> t \<longrightarrow> t < clock e i + ttl (order_dedup w) \<longrightarrow>
    peek (order_dedup w1) key t = Some v)"
  using assms(1)
proof (cases rule: post_order_cases)
  case (hit key' cached)
  then show ?thesis using assms(2,3) dedup_get_now_effect(1) [OF hit(4)] by simp
next
  case (live key' u1 u2)
  note g = dedup_get_now_effect(4) [OF live(4)]
  have key: "key' = key" using live(3) assms(2) by simp
  from live(6) show ?thesis
  proof (cases rule: dispatch_reserved_cases)
    case (cached res' v' u3)
    have u1: "clock_reads u1 = clock_reads w + 2"
      by (subst dedup_get_now_effect(2) [OF live(4)]) simp
    have "order_frame (u1\<lparr>order_dedup := (order_dedup u1)
        \<lparr>in_flight := insert key' (in_flight (order_dedup u1))\<rparr>\<rparr>) u3"
      using dispatch_once_log [OF cached(3)] by (simp add: attempt_log_def order_frame_def rate_wait_def)
    then have d: "ttl (order_dedup u3) = ttl (order_dedup w)" "clock_reads w \<le> clock_reads u3"
      using g u1 by (simp_all add: order_frame_def)
    have "v' = v" using cached(1,2) assms(4) by simp
    then show ?thesis
      using cached(4) live(7) d key
      by (intro exI [of _ "clock_reads u3 + 2"])
        (auto simp: release_def drop_reservation_def dedup_insert_now_effect intro!: peek_insert_same)
  next
    case plain
    then show ?thesis using assms(4) by simp
  qed
qed auto

definition run_orders :: "env \<Rightarrow> ('req, 'res) codec \<Rightarrow> (endpoint_policy \<times> 'req) list \<Rightarrow> inner \<Rightarrow> inner" where
  "run_orders e c ops w = foldl (\<lambda>w (p, req). snd (post_order e c p req w)) w ops"

lemma run_orders_simps [simp]:
  "run_orders e c [] w = w"
  "run_orders e c ((p, req) # ops) w = run_orders e c ops (snd (post_order e c p req w))"
  by (simp_all add: run_orders_def)

lemma run_orders_frame:
  "config (run_orders e c ops w) = config w \<and>
   orders_enabled (run_orders e c ops w) = orders_enabled w \<and>
   ttl (order_dedup (run_orders e c ops w)) = ttl (order_dedup w) \<and>
   clock_reads w \<le> clock_reads (run_orders e c ops w)"
proof (induction ops arbitrary: w)
  case (Cons op ops)
  obtain p req where op: "op = (p, req)" by fastforce
  obtain r w' where "post_order e c p req w = (r, w')" by fastforce
  from post_order_effect [OF this] this Cons.IH [of w'] op show ?case by auto
qed simp

lemma run_orders_peek:
  assumes "\<forall>(p, req) \<in> set ops. order_key e c p req w \<noteq> Inr key" "wf_dedup (order_dedup w)"
    "peek (order_dedup w) key t = Some v"
    "\<And>i. i < clock_reads (run_orders e c ops w) \<Longrightarrow> clock e i \<le> t"
  shows "peek (order_dedup (run_orders e c ops w)) key t = Some v"
  using assms
proof (induction ops arbitrary: w)
  case (Cons op ops)
  obtain p req where op: "op = (p, req)" by fastforce
  obtain r w' where post: "post_order e c p req w = (r, w')" by fastforce
  note eff = post_order_effect [OF post]
  have run: "run_orders e c (op # ops) w = run_orders e c ops w'" using op post by simp
  have "clock_reads w' \<le> clock_reads (run_orders e c ops w')" using run_orders_frame by blast
  then have "peek (order_dedup w') key t = Some v"
    using post_order_peek_other [OF post] Cons.prems op run by auto
  moreover have "\<forall>(p, req) \<in> set ops. order_key e c p req w' \<noteq> Inr key"
    using Cons.prems(1) eff by (auto simp: order_key_def)
  ultimately show ?case
    using Cons.IH [of w'] Cons.prems eff run by auto
qed simp

text \<open>
  C4. An accepted order is idempotent for the whole deduplication window: resubmitted under the same
  key less than the time to live after the first call, with any other orders in between, it gets the
  very response of the first call back, and nothing is sent or charged.
\<close>

theorem resubmission_served_from_cache:
  assumes "wf_dedup (order_dedup w)"
    and "post_order e c p req w = (Some (Inr res), w1)" and "order_key e c p req w = Inr key"
    and "peek (order_dedup w) key (clock e (clock_reads w)) = None"
    and "res_to_value c res = Some v" and "from_value c v = Some res"
    and "\<forall>(p', req') \<in> set others. order_key e c p' req' w \<noteq> Inr key"
    and "\<And>i j. i \<le> j \<Longrightarrow> clock e i \<le> clock e j"
    and "w2 = run_orders e c others w1"
    and "clock e (clock_reads w2) < clock e (clock_reads w) + ttl (order_dedup w)"
  shows "\<exists>w3. post_order e c p req w2 = (Some (Inr res), w3) \<and> sent w3 = sent w2 \<and> charged w3 = charged w2"
proof -
  let ?t = "clock e (clock_reads w2)"
  note eff = post_order_effect [OF assms(2)]
  note fr = run_orders_frame [of e c others w1, folded assms(9)]
  obtain i where i: "i < clock_reads w1" "clock_reads w \<le> i"
    "\<And>t. clock e i \<le> t \<Longrightarrow> t < clock e i + ttl (order_dedup w) \<Longrightarrow> peek (order_dedup w1) key t = Some v"
    using accepted_order_cached [OF assms(2-5)] by blast
  have "clock e i \<le> ?t" "clock e (clock_reads w) \<le> clock e i"
    using i fr assms(8) by simp_all
  then have "peek (order_dedup w1) key ?t = Some v" using i(3) assms(10) by simp
  moreover have "\<forall>(p', req') \<in> set others. order_key e c p' req' w1 \<noteq> Inr key"
    using assms(7) eff by (auto simp: order_key_def)
  ultimately have pk: "peek (order_dedup w2) key ?t = Some v"
    using run_orders_peek [of others e c w1 key ?t v] assms(1,8,9) eff by auto
  have live: "orders_enabled w2" "is_order p" "order_key e c p req w2 = Inr key"
    using assms(2,3) eff fr by (auto simp: order_key_def elim!: post_order_cases)
  obtain v' w3 where g: "dedup_get_now e key w2 = (v', w3)" by fastforce
  have "v' = Some v" using dedup_get_now_effect(1) [OF g] pk by simp
  with g live assms(6) have "post_order e c p req w2 = (Some (Inr res), w3)"
    by (simp add: post_order_def guard_order_def order_key_def decode_res_def)
  moreover have "sent w3 = sent w2" "charged w3 = charged w2"
    by (subst dedup_get_now_effect(2) [OF g], simp)+
  ultimately show ?thesis by blast
qed

text \<open>
  Only acceptance is remembered: a rejected, ambiguous or failed order, and one that panicked,
  adds nothing to the cache, so a corrected resubmission reaches the exchange.
\<close>

theorem failed_order_not_cached:
  assumes "post_order e c p req w = (r, w')" and "\<And>res. r \<noteq> Some (Inr res)"
  shows "peek (order_dedup w') key t \<in> {None, peek (order_dedup w) key t}"
proof -
  have get: "peek (order_dedup w1) key t \<in> {None, peek (order_dedup w) key t}"
    if "dedup_get_now e k w = (g, w1)" for k g w1
    using that peek_get_only [of "order_dedup w" k "clock e (clock_reads w)"
        "clock e (Suc (clock_reads w))" key t]
    by (cases "peek (order_dedup w1) key t") (auto simp: dedup_get_now_def read_clock_def split: prod.splits)
  show ?thesis
    using assms(1)
  proof (cases rule: post_order_cases)
    case (refused err)
    then show ?thesis by simp
  next
    case (hit k cached)
    then show ?thesis using get by blast
  next
    case (duplicate k w1)
    then show ?thesis using get [OF duplicate(4)] by simp
  next
    case (live k w1 w2)
    from live(6) have "peek (order_dedup w2) key t = peek (order_dedup w1) key t"
    proof (cases rule: dispatch_reserved_cases)
      case (cached res x w3)
      then show ?thesis using assms(2) by blast
    next
      case plain
      then show ?thesis
        using dispatch_once_log [OF plain(1)]
        by (simp add: attempt_log_def order_frame_def rate_wait_def)
    qed
    then show ?thesis
      using get [OF live(4)] live(7) by (simp add: release_def drop_reservation_def)
  qed
qed

section \<open>Collecting pages\<close>

text \<open>The chain of pages the caller's closure serves, up to the first terminal one.\<close>

definition terminal :: "'res pagination \<Rightarrow> 'res \<Rightarrow> bool" where
  "terminal pr page \<longleftrightarrow> tr_cont pr page \<in> {[], ''N''}"

definition next_req :: "'req pagination \<Rightarrow> 'res pagination \<Rightarrow> 'res \<Rightarrow> 'req \<Rightarrow> 'req" where
  "next_req pq pr page req = set_tr_cont_key pq (tr_cont_key pr page) (set_tr_cont pq (tr_cont pr page) req)"

inductive page_walk :: "('req \<Rightarrow> 's \<Rightarrow> 'res io \<times> 's) \<Rightarrow> 'req pagination \<Rightarrow> 'res pagination \<Rightarrow>
    'req \<Rightarrow> 's \<Rightarrow> 'res list \<Rightarrow> 's \<Rightarrow> bool"
  for f :: "'req \<Rightarrow> 's \<Rightarrow> 'res io \<times> 's" and pq :: "'req pagination" and pr :: "'res pagination" where
  last_page: "f req s = (Some (Inr page), s') \<Longrightarrow> terminal pr page \<Longrightarrow> page_walk f pq pr req s [page] s'"
| more: "f req s = (Some (Inr page), s1) \<Longrightarrow> \<not> terminal pr page \<Longrightarrow>
    page_walk f pq pr (next_req pq pr page req) s1 pages s' \<Longrightarrow>
    page_walk f pq pr req s (page # pages) s'"

inductive_cases page_walk_ConsE: "page_walk f pq pr req s (page # pages) s'"
inductive_cases page_walk_NilE: "page_walk f pq pr req s [] s'"

lemma collect_pages_step:
  "f req s = (Some (Inr page), s1) \<Longrightarrow> collect_pages f pq pr (Suc n) req acc tr s =
     (if terminal pr page then (Some (Inr (acc @ [page], False)), s1)
      else collect_pages f pq pr n (next_req pq pr page req) (acc @ [page]) True s1)"
  by (simp add: terminal_def next_req_def Let_def)

lemma collect_pages_sound:
  assumes "collect_pages f pq pr n req acc tr s = (Some (Inr (res, False)), s')" "n = 0 \<longrightarrow> tr"
  shows "\<exists>pages. res = acc @ pages \<and> page_walk f pq pr req s pages s' \<and> length pages \<le> n"
  using assms
proof (induction n arbitrary: req acc tr s)
  case (Suc n)
  obtain r s1 where r: "f req s = (r, s1)" by fastforce
  with Suc.prems obtain page where page: "f req s = (Some (Inr page), s1)"
    by (auto split: option.splits sum.splits)
  show ?case
  proof (cases "terminal pr page")
    case True
    with Suc.prems page show ?thesis
      by (auto simp: collect_pages_step simp del: collect_pages.simps intro: page_walk.last_page)
  next
    case False
    with Suc.prems page have
      "collect_pages f pq pr n (next_req pq pr page req) (acc @ [page]) True s1 = (Some (Inr (res, False)), s')"
      by (simp add: collect_pages_step del: collect_pages.simps)
    from Suc.IH [OF this] obtain pages where "res = (acc @ [page]) @ pages"
      "page_walk f pq pr (next_req pq pr page req) s1 pages s'" "length pages \<le> n" by auto
    with page False show ?thesis
      by (intro exI [of _ "page # pages"]) (auto intro: page_walk.more)
  qed
qed simp

lemma collect_pages_complete:
  assumes "page_walk f pq pr req s pages s'" "length pages \<le> n"
  shows "collect_pages f pq pr n req acc tr s = (Some (Inr (acc @ pages, False)), s')"
  using assms
proof (induction arbitrary: n acc tr rule: page_walk.induct)
  case (last_page req s page s')
  then show ?case
    by (cases n) (simp_all add: collect_pages_step del: collect_pages.simps)
next
  case (more req s page s1 pages s')
  then show ?case
    by (cases n) (simp_all add: collect_pages_step del: collect_pages.simps)
qed

lemma collect_all_iff:
  assumes "1 \<le> cap"
  shows "collect_all f pq pr cap req s = (Some (Inr pages), s') \<longleftrightarrow>
    page_walk f pq pr req s pages s' \<and> length pages \<le> cap"
proof
  assume "collect_all f pq pr cap req s = (Some (Inr pages), s')"
  then have "collect_pages f pq pr cap req [] False s = (Some (Inr (pages, False)), s')"
    by (auto simp: collect_all_def split: prod.splits option.splits sum.splits if_splits)
  from collect_pages_sound [OF this] assms show "page_walk f pq pr req s pages s' \<and> length pages \<le> cap"
    by auto
next
  assume "page_walk f pq pr req s pages s' \<and> length pages \<le> cap"
  then have "collect_pages f pq pr cap req [] False s = (Some (Inr (pages, False)), s')"
    using collect_pages_complete [of f pq pr req s pages s' cap "[]"] by simp
  then show "collect_all f pq pr cap req s = (Some (Inr pages), s')"
    by (simp add: collect_all_def)
qed

text \<open>
  C36. Collection never truncates: for a page limit of at least one (the configuration rejects
  zero), \<open>collect_all\<close> returns pages exactly when they are the whole chain the closure serves up to
  the first terminal page and the chain fits the limit.
\<close>

theorem collect_all_is_whole_chain:
  assumes "1 \<le> cap"
  shows "collect_all f pq pr cap req s = (Some (Inr pages), s') \<longleftrightarrow>
    page_walk f pq pr req s pages s' \<and> length pages \<le> cap"
  using assms by (rule collect_all_iff)

section \<open>Concrete calls\<close>

definition sample_codec :: "(json \<Rightarrow> json option) \<Rightarrow> (string, json) codec" where
  "sample_codec decode = \<lparr>to_value = (\<lambda>s. Some (JStr s)), to_text = Some, from_value = decode, res_to_value = Some\<rparr>"

definition sample_policy :: endpoint_policy where
  "sample_policy =
     \<lparr>tr_code = ''CSPAT00601'', path = ''/stock/order'', module = ''order'', group = ''order'',
      protocol = Rest, category = Orders, is_order = True, has_pagination = False,
      rate_limit_per_sec = None, corp_rate_limit_per_sec = None\<rparr>"

definition ack_answer :: http_result where
  "ack_answer = Response 200 [] [] (Some (JObj [(''rsp_cd'', JStr ''00040'')]))"

definition sample_world :: env where
  "sample_world = sample_env (\<lambda>_ rq. if is_api rq then ack_answer else token_answer)"

definition sample_inner :: inner where
  "sample_inner = inner_new sample_config 0"

definition sample_ack :: json where
  "sample_ack = JObj [(''rsp_cd'', JStr ''00040''), (''tr_cont'', JStr []), (''tr_cont_key'', JStr [])]"

lemma sample_simps [simp]:
  "to_text (sample_codec d) s = Some s" "res_to_value (sample_codec d) v = Some v"
  "from_value (sample_codec d) = d" "schemas sample_world tr = None" "clock sample_world n = n"
  "is_order sample_policy" "category sample_policy = Orders"
  by (simp_all add: sample_codec_def sample_world_def sample_env_def sample_policy_def)

lemma sample_gateway: "gateway sample_world rqs rq = (if is_api rq then ack_answer else token_answer)"
  by (simp add: sample_world_def sample_env_def)

lemma sample_get:
  "token w = None \<Longrightarrow> get_or_refresh sample_world w =
   (Some (Inr ''tok''), w\<lparr>token := Some sample_token, sent := sent w @ [token_request (config w)],
      charged := charged w @ [AuthBucket], clock_reads := Suc (clock_reads w)\<rparr>)"
  by (simp add: sample_world_def sample_env_def get_or_refresh_def cached_token_def slow_path_def
      fetch_token_def rate_wait_def send_def token_answer_def is_success_def check_envelope_def
      token_response_def read_utc_def jget_str_def jget_def as_str_def string_or_number_def
      token_ttl_def sample_token_def DATETIME_MAX_SECS_def)

lemma sample_get_cached:
  "token w = Some sample_token \<Longrightarrow> get_or_refresh sample_world w =
   (Some (Inr ''tok''), w\<lparr>clock_reads := Suc (clock_reads w)\<rparr>)"
  by (simp add: sample_world_def sample_env_def get_or_refresh_def cached_token_def
      read_utc_def sample_token_def is_expiring_soon_def)

definition sample_outcome :: "(json \<Rightarrow> json option) \<Rightarrow> json io" where
  "sample_outcome d = Some (case d sample_ack of Some r \<Rightarrow> Inr r | None \<Rightarrow> Inl (Decode ''from_value''))"

lemma sample_sent:
  "send_and_classify sample_world (sample_codec d) sample_policy (api_request cfg p tok cont key body) w =
   (sample_outcome d, w\<lparr>sent := sent w @ [api_request cfg p tok cont key body]\<rparr>)"
  by (simp add: sample_gateway send_and_classify_def send_def ack_answer_def is_success_def
      sample_outcome_def classify_body_def jget_str_def jget_def inject_headers_def jset_def
      classify_order_rsp_cd_def rsp_cd_is_order_success_def decode_res_def as_str_def
      sample_ack_def split: option.split)

definition sample_request :: "string \<Rightarrow> inner \<Rightarrow> http_request" where
  "sample_request body w = api_request (config w) sample_policy ''tok'' None None body"

lemma sample_once:
  "token w = None \<Longrightarrow> dispatch_once sample_world (sample_codec d) sample_policy body None None w =
   (sample_outcome d, w\<lparr>token := Some sample_token,
      sent := sent w @ [token_request (config w), sample_request body w],
      charged := charged w @ [AuthBucket], clock_reads := Suc (clock_reads w)\<rparr>)"
  "token w = Some sample_token \<Longrightarrow>
   dispatch_once sample_world (sample_codec d) sample_policy body None None w =
   (sample_outcome d, w\<lparr>sent := sent w @ [sample_request body w], clock_reads := Suc (clock_reads w)\<rparr>)"
  by (simp_all add: dispatch_once_def sample_get sample_get_cached sample_sent preflight_request_def
      sample_request_def)

lemmas sample_order_defs = post_order_def guard_order_def dedup_key_def dedup_get_now_def
  dedup_get_def read_clock_def try_reserve_def dispatch_reserved_def sample_once sample_inner_def
  inner_new_def with_default_ttl_def dedup_new_def rate_wait_def release_def drop_reservation_def
  sample_outcome_def

text \<open>
  An order the gateway acknowledged, in a body the response type cannot decode, is a decode error
  and is not remembered: the identical resubmission sends the order a second time, inside the
  deduplication window.
\<close>

theorem undecodable_ack_is_sent_again:
  "let c = sample_codec (\<lambda>_. None);
       (r1, w1) = post_order sample_world c sample_policy ''buy 1'' sample_inner;
       (r2, w2) = post_order sample_world c sample_policy ''buy 1'' w1
   in r1 = Some (Inl (Decode ''from_value'')) \<and> acknowledged ack_answer \<and>
      api_count w1 = 1 \<and> r2 = r1 \<and> api_count w2 = 2"
  by (simp add: sample_order_defs api_count_def sample_request_def acknowledged_def ack_answer_def
      answer_code_def contract_acks_def envelope_str_def jget_str_def jget_def as_str_def rsp_cd_is_order_success_def
      is_success_def)

theorem failed_order_not_cached_witness:
  "peek (order_dedup (snd (post_order sample_world (sample_codec (\<lambda>_. None)) sample_policy ''buy 1''
     sample_inner))) ''k'' 0 = None"
proof -
  obtain w1 where w1: "post_order sample_world (sample_codec (\<lambda>_. None)) sample_policy ''buy 1'' sample_inner =
      (Some (Inl (Decode ''from_value'')), w1)"
    by (simp add: sample_order_defs)
  have "peek (order_dedup sample_inner) ''k'' 0 = None"
    by (simp add: sample_inner_def inner_new_def with_default_ttl_def dedup_new_def peek_def)
  with failed_order_not_cached [OF w1, of "''k''" 0] show ?thesis by (simp add: w1)
qed


theorem order_redirect_panics_witness:
  "fst (send_and_classify (sample_env (\<lambda>_ _. Response 304 [] [] None)) (sample_codec Some) sample_policy
     (sample_request ''buy 1'' sample_inner) sample_inner) = None"
  by (subst order_redirect_panics [of _ _ _ 304 "[]" "[]" None]) (simp_all add: sample_env_def)

theorem resubmission_served_from_cache_witness:
  "\<exists>w1 w3. post_order sample_world (sample_codec Some) sample_policy ''buy 1'' sample_inner = (Some (Inr sample_ack), w1)
     \<and> post_order sample_world (sample_codec Some) sample_policy ''buy 1'' w1 = (Some (Inr sample_ack), w3)
     \<and> sent w3 = sent w1"
proof -
  let ?c = "sample_codec Some"
  obtain w1 where w1: "post_order sample_world ?c sample_policy ''buy 1'' sample_inner = (Some (Inr sample_ack), w1)"
      "clock_reads w1 = 6"
    by (simp add: sample_order_defs dedup_insert_now_effect)
  obtain key where key: "order_key sample_world ?c sample_policy ''buy 1'' sample_inner = Inr key"
    by (simp add: order_key_def dedup_key_def)
  have "wf_dedup (order_dedup sample_inner)"
    by (simp add: sample_inner_def inner_new_def with_default_ttl_def)
  moreover have "peek (order_dedup sample_inner) key (clock sample_world (clock_reads sample_inner)) = None"
    by (simp add: sample_inner_def inner_new_def with_default_ttl_def dedup_new_def peek_def)
  moreover have "clock sample_world (clock_reads w1) <
      clock sample_world (clock_reads sample_inner) + ttl (order_dedup sample_inner)"
    using w1(2) by (simp add: sample_inner_def inner_new_def with_default_ttl_def dedup_new_def
        DEFAULT_TTL_def nanos_per_sec_def)
  ultimately show ?thesis
    using resubmission_served_from_cache [OF _ w1(1) key, of sample_ack "[]" w1] w1(1) by auto
qed

fun sample_page :: "string \<Rightarrow> nat \<Rightarrow> string io \<times> nat" where
  "sample_page req n = (Some (Inr (if n = 0 then ''Y'' else [])), Suc n)"

definition sample_pagination :: "string pagination" where
  "sample_pagination = \<lparr>tr_cont = id, tr_cont_key = id, set_tr_cont = (\<lambda>s _. s), set_tr_cont_key = (\<lambda>s _. s)\<rparr>"

theorem collect_all_is_whole_chain_witness:
  "page_walk sample_page sample_pagination sample_pagination [] 0 [''Y'', []] 2"
proof -
  have "collect_all sample_page sample_pagination sample_pagination 2 [] 0 = (Some (Inr [''Y'', []]), 2)"
    by (simp add: collect_all_def sample_pagination_def numeral_2_eq_2)
  with collect_all_is_whole_chain [of 2 sample_page sample_pagination sample_pagination "[]" 0 "[''Y'', []]" 2]
  show ?thesis by simp
qed
end
