(* ===== verification/Order_Race.thy ===== *)
theory Order_Race
  imports Inner
begin

text \<open>
  Concurrent calls of \<open>Inner::post_order\<close> (\<open>crates/ls-core/src/inner.rs\<close>). The deduplicator's
  operations are atomic (each takes its lock), the code between them is not: the steps below are
  those operations, interleaved over any number of calls. Call \<open>i\<close> submits an order with the key
  \<open>kf i\<close>.
\<close>

section \<open>Calls and their steps\<close>

datatype pc =
    Entered
  | Missed
  | Reserved
  | Answered bool
  | Inserted
  | Returned bool

record race =
  r_dedup :: "json dedup"
  r_now :: nat
  r_pc :: "nat \<Rightarrow> pc"
  r_log :: "(nat \<times> nat) list"

text \<open>
  \<open>look\<close> is the cache look-up, \<open>reserve\<close> and \<open>turned_away\<close> the two outcomes of \<open>try_reserve\<close>,
  \<open>answer\<close> the dispatch (logged with its instant) with an accepted or a failed outcome, \<open>insert\<close>
  the cache insertion of an accepted one, and \<open>drop\<close> the release of the guard.
\<close>

inductive race_step :: "(nat \<Rightarrow> string) \<Rightarrow> race \<Rightarrow> race \<Rightarrow> bool" for kf :: "nat \<Rightarrow> string" where
  tick: "race_step kf s (s\<lparr>r_now := Suc (r_now s)\<rparr>)"
| look: "r_pc s i = Entered \<Longrightarrow> dedup_get (r_dedup s) (kf i) (r_now s) (r_now s) = (v, d) \<Longrightarrow>
    race_step kf s (s\<lparr>r_dedup := d, r_pc := (r_pc s)(i := (if v = None then Missed else Returned True))\<rparr>)"
| reserve: "r_pc s i = Missed \<Longrightarrow> try_reserve (r_dedup s) (kf i) = (Some k, d) \<Longrightarrow>
    race_step kf s (s\<lparr>r_dedup := d, r_pc := (r_pc s)(i := Reserved)\<rparr>)"
| turned_away: "r_pc s i = Missed \<Longrightarrow> try_reserve (r_dedup s) (kf i) = (None, d) \<Longrightarrow>
    race_step kf s (s\<lparr>r_dedup := d, r_pc := (r_pc s)(i := Returned False)\<rparr>)"
| answer: "r_pc s i = Reserved \<Longrightarrow>
    race_step kf s (s\<lparr>r_log := r_log s @ [(i, r_now s)], r_pc := (r_pc s)(i := Answered ok)\<rparr>)"
| insert: "r_pc s i = Answered True \<Longrightarrow>
    race_step kf s (s\<lparr>r_dedup := dedup_put (r_dedup s) (kf i) v (r_now s), r_pc := (r_pc s)(i := Inserted)\<rparr>)"
| drop: "r_pc s i \<in> {Answered False, Inserted} \<Longrightarrow>
    race_step kf s (s\<lparr>r_dedup := drop_reservation (r_dedup s) (kf i),
      r_pc := (r_pc s)(i := Returned (r_pc s i = Inserted))\<rparr>)"

inductive_cases race_stepE: "race_step kf s s'"

definition race_start :: "nat \<Rightarrow> race" where
  "race_start now = \<lparr>r_dedup = with_default_ttl now, r_now = now, r_pc = (\<lambda>_. Entered), r_log = []\<rparr>"

inductive race_reachable :: "(nat \<Rightarrow> string) \<Rightarrow> nat \<Rightarrow> race \<Rightarrow> bool" for kf :: "nat \<Rightarrow> string" and now :: nat where
  start: "race_reachable kf now (race_start now)"
| step: "race_reachable kf now s \<Longrightarrow> race_step kf s s' \<Longrightarrow> race_reachable kf now s'"

section \<open>One order of a key in flight at a time\<close>

definition holds :: "pc \<Rightarrow> bool" where
  "holds p \<longleftrightarrow> p \<in> {Reserved, Answered True, Answered False, Inserted}"

lemma holds_simps [simp]:
  "\<not> holds Entered" "\<not> holds Missed" "holds Reserved" "holds (Answered b)" "holds Inserted"
  "\<not> holds (Returned b)"
  by (cases b; simp add: holds_def)+

definition holders :: "race \<Rightarrow> nat set" where
  "holders s = {i. holds (r_pc s i)}"

definition reservations_ok :: "(nat \<Rightarrow> string) \<Rightarrow> race \<Rightarrow> bool" where
  "reservations_ok kf s \<longleftrightarrow> in_flight (r_dedup s) = kf ` holders s \<and> inj_on kf (holders s)"

lemma holders_update:
  "holders (s\<lparr>r_pc := (r_pc s)(i := p)\<rparr>) = (if holds p then insert i (holders s) else holders s - {i})"
  "holders (s\<lparr>r_dedup := d\<rparr>) = holders s"
  "holders (s\<lparr>r_dedup := d, r_pc := (r_pc s)(i := p)\<rparr>) =
     (if holds p then insert i (holders s) else holders s - {i})"
  "holders (s\<lparr>r_log := l, r_pc := (r_pc s)(i := p)\<rparr>) =
     (if holds p then insert i (holders s) else holders s - {i})"
  "holders (s\<lparr>r_now := n\<rparr>) = holders s"
  by (auto simp: holders_def)

lemma reservations_step:
  assumes "race_step kf s s'" "reservations_ok kf s"
  shows "reservations_ok kf s'"
  using assms(1)
proof cases
  case (look i v d)
  moreover have "i \<notin> holders s" using look by (simp add: holders_def)
  moreover have "in_flight d = in_flight (r_dedup s)"
    using look(3) dedup_get_frame(1) [of "r_dedup s" "kf i" "r_now s" "r_now s"] by simp
  ultimately show ?thesis using assms(2) by (simp add: reservations_ok_def holders_update)
next
  case (reserve i k d)
  moreover have "i \<notin> holders s" using reserve by (simp add: holders_def)
  ultimately show ?thesis
    using assms(2) by (auto simp: reservations_ok_def holders_update try_reserve_def split: if_splits)
next
  case (turned_away i d)
  moreover have "i \<notin> holders s" using turned_away by (simp add: holders_def)
  ultimately show ?thesis
    using assms(2)
    by (auto simp: reservations_ok_def holders_update try_reserve_def count_hit_def split: if_splits)
next
  case (answer i ok)
  moreover have "i \<in> holders s" using answer by (simp add: holders_def)
  ultimately show ?thesis
    using assms(2) by (simp add: reservations_ok_def holders_update insert_absorb)
next
  case (insert i v)
  moreover have "i \<in> holders s" using insert by (simp add: holders_def)
  ultimately show ?thesis
    using assms(2)
    by (simp add: reservations_ok_def holders_update insert_absorb dedup_put_def dedup_insert_frame)
next
  case (drop i)
  moreover have "i \<in> holders s" using drop by (auto simp: holders_def)
  ultimately show ?thesis
    using assms(2)
    by (auto simp: reservations_ok_def holders_update drop_reservation_def inj_on_def)
qed (use assms(2) in \<open>simp add: reservations_ok_def holders_update\<close>)

lemma reservations_reachable:
  "race_reachable kf now s \<Longrightarrow> reservations_ok kf s"
proof (induction rule: race_reachable.induct)
  case start
  then show ?case
    by (simp add: reservations_ok_def race_start_def holders_def with_default_ttl_def dedup_new_def)
next
  case (step s s')
  then show ?case using reservations_step by blast
qed

text \<open>
  C7. The reservation is mutual exclusion per order: in every interleaving of any number of calls,
  two calls that are past \<open>try_reserve\<close> and not yet returned carry different keys, so no order is
  ever dispatched twice at the same time.
\<close>

theorem in_flight_exclusive:
  assumes "race_reachable kf now s" and "holds (r_pc s i)" and "holds (r_pc s j)" and "kf i = kf j"
  shows "i = j"
  using reservations_reachable [OF assms(1)] assms(2-4)
  by (auto simp: reservations_ok_def holders_def inj_on_def)

section \<open>The look-up is not covered by the reservation\<close>

definition race_advance :: "(nat \<Rightarrow> string) \<Rightarrow> nat \<Rightarrow> race \<Rightarrow> race" where
  "race_advance kf i s =
     (case r_pc s i of
        Entered \<Rightarrow>
          (case dedup_get (r_dedup s) (kf i) (r_now s) (r_now s) of (v, d) \<Rightarrow>
             s\<lparr>r_dedup := d, r_pc := (r_pc s)(i := (if v = None then Missed else Returned True))\<rparr>)
      | Missed \<Rightarrow>
          (case try_reserve (r_dedup s) (kf i) of
             (Some k, d) \<Rightarrow> s\<lparr>r_dedup := d, r_pc := (r_pc s)(i := Reserved)\<rparr>
           | (None, d) \<Rightarrow> s\<lparr>r_dedup := d, r_pc := (r_pc s)(i := Returned False)\<rparr>)
      | Reserved \<Rightarrow> s\<lparr>r_log := r_log s @ [(i, r_now s)], r_pc := (r_pc s)(i := Answered True)\<rparr>
      | Answered True \<Rightarrow>
          s\<lparr>r_dedup := dedup_put (r_dedup s) (kf i) JNull (r_now s), r_pc := (r_pc s)(i := Inserted)\<rparr>
      | Answered False \<Rightarrow>
          s\<lparr>r_dedup := drop_reservation (r_dedup s) (kf i), r_pc := (r_pc s)(i := Returned False)\<rparr>
      | Inserted \<Rightarrow>
          s\<lparr>r_dedup := drop_reservation (r_dedup s) (kf i), r_pc := (r_pc s)(i := Returned True)\<rparr>
      | Returned b \<Rightarrow> s)"

lemma race_advance_steps: "(race_step kf)\<^sup>*\<^sup>* s (race_advance kf i s)"
proof (cases "\<exists>b. r_pc s i = Returned b")
  case True
  then show ?thesis by (auto simp: race_advance_def)
next
  case False
  have "race_step kf s (race_advance kf i s)"
  proof (cases "r_pc s i")
    case Entered
    then show ?thesis
      using race_step.look [of s i kf] by (simp add: race_advance_def split: prod.split)
  next
    case Missed
    then show ?thesis
      by (auto simp: race_advance_def split: prod.split option.split intro: race_step.intros)
  next
    case (Answered b)
    then show ?thesis
      using race_step.insert [of s i kf JNull] race_step.drop [of s i kf]
      by (cases b) (simp_all add: race_advance_def)
  next
    case Inserted
    then show ?thesis using race_step.drop [of s i kf] by (simp add: race_advance_def)
  qed (use False in \<open>auto simp: race_advance_def intro: race_step.intros\<close>)
  then show ?thesis by blast
qed

lemma race_steps_reachable: "(race_step kf)\<^sup>*\<^sup>* s s' \<Longrightarrow> race_reachable kf now s \<Longrightarrow> race_reachable kf now s'"
  by (induction rule: rtranclp_induct) (auto intro: race_reachable.step)

lemma race_advance_reachable: "race_reachable kf now s \<Longrightarrow> race_reachable kf now (race_advance kf i s)"
  by (rule race_steps_reachable [OF race_advance_steps])

lemma race_ticks: "(race_step kf)\<^sup>*\<^sup>* s (s\<lparr>r_now := r_now s + n\<rparr>)"
proof (induction n)
  case (Suc n)
  then show ?case
    using race_step.tick [of kf "s\<lparr>r_now := r_now s + n\<rparr>"] by (simp add: rtranclp.rtrancl_into_rtrancl)
qed simp

lemma race_ttl: "race_reachable kf now s \<Longrightarrow> ttl (r_dedup s) = DEFAULT_TTL"
proof (induction rule: race_reachable.induct)
  case start
  then show ?case by (simp add: race_start_def with_default_ttl_def dedup_new_def)
next
  case (step s s')
  from step(2) step(3) show ?case
  proof cases
    case (look i v d)
    with step(3) dedup_get_frame(2) [of "r_dedup s" "kf i" "r_now s" "r_now s"] show ?thesis by simp
  qed (auto simp: try_reserve_def count_hit_def drop_reservation_def dedup_put_def dedup_insert_frame split: if_splits)
qed

text \<open>
  C11. The look-up happens before the reservation, and nothing looks again after it. Whenever two
  identical calls have both missed the cache and nothing holds their key, whatever the other calls
  are doing, one may be dispatched, cached and returned, and the other then still gets the reservation
  and is dispatched at any instant of the time to live, while the cache holds the first response: the
  reservation excludes only dispatches at the same time.
\<close>

theorem concurrent_resubmission_dispatches_twice:
  assumes "race_reachable kf now s" and "r_pc s i = Missed" and "r_pc s j = Missed" and "i \<noteq> j" and "kf i = kf j"
    and "kf i \<notin> in_flight (r_dedup s)" and "n < DEFAULT_TTL"
  shows "\<exists>s'. (race_step kf)\<^sup>*\<^sup>* s s' \<and> r_now s' = r_now s + n \<and>
    r_log s' = r_log s @ [(i, r_now s), (j, r_now s + n)] \<and> r_pc s' i = Returned True \<and>
    peek (r_dedup s') (kf j) (r_now s') \<noteq> None"
proof -
  let ?run = "foldl (\<lambda>s i. race_advance kf i s)"
  let ?s4 = "?run s [i, i, i, i]"
  let ?s5 = "?s4\<lparr>r_now := r_now ?s4 + n\<rparr>"
  let ?s7 = "?run ?s5 [j, j]"
  let ?d = "(r_dedup s)\<lparr>in_flight := insert (kf j) (in_flight (r_dedup s))\<rparr>"
  let ?p = "dedup_put ?d (kf j) JNull (r_now s)"
  have s4: "?s4 = s\<lparr>r_dedup := drop_reservation ?p (kf j), r_log := r_log s @ [(i, r_now s)],
      r_pc := (r_pc s)(i := Returned True)\<rparr>"
    using assms(2,5,6) by (simp add: race_advance_def try_reserve_def)
  have free: "kf j \<notin> in_flight (drop_reservation ?p (kf j))" by (simp add: drop_reservation_def)
  have s7: "?s7 = ?s5\<lparr>r_dedup := snd (try_reserve (drop_reservation ?p (kf j)) (kf j)),
      r_log := r_log s @ [(i, r_now s), (j, r_now s + n)], r_pc := (r_pc s)(i := Returned True, j := Answered True)\<rparr>"
    unfolding s4 using assms(3,4) free by (simp add: race_advance_def try_reserve_def fun_upd_twist)
  have "peek ?p (kf j) (r_now s + n) = Some JNull"
    using assms(7) race_ttl [OF assms(1)] by (simp add: dedup_put_def peek_insert_same)
  then have "peek (snd (try_reserve (drop_reservation ?p (kf j)) (kf j))) (kf j) (r_now s + n) = Some JNull"
    using free by (simp add: try_reserve_def drop_reservation_def)
  moreover have run: "(race_step kf)\<^sup>*\<^sup>* s (?run s xs)" for s xs
    by (induction xs arbitrary: s) (auto intro: rtranclp_trans race_advance_steps)
  have "(race_step kf)\<^sup>*\<^sup>* s ?s7"
    by (rule rtranclp_trans [OF run rtranclp_trans [OF race_ticks run]])
  moreover have "r_now ?s7 = r_now s + n" "r_log ?s7 = r_log s @ [(i, r_now s), (j, r_now s + n)]"
    "r_pc ?s7 i = Returned True"
    "r_dedup ?s7 = snd (try_reserve (drop_reservation ?p (kf j)) (kf j))"
    by (subst s7, use s4 assms(4) in simp)+
  ultimately show ?thesis by (intro exI [of _ ?s7]) simp
qed

theorem concurrent_resubmission_dispatches_twice_witness:
  "\<exists>s. race_reachable (\<lambda>_. ''k'') 0 s \<and> r_log s = [(0, 0), (1, 1000)] \<and> peek (r_dedup s) ''k'' 1000 \<noteq> None"
proof -
  let ?kf = "\<lambda>_ :: nat. ''k''"
  let ?s = "foldl (\<lambda>s i. race_advance ?kf i s) (race_start 0) [0, 1]"
  have r: "race_reachable ?kf 0 ?s" by (simp add: race_reachable.start race_advance_reachable)
  have s: "r_pc ?s 0 = Missed" "r_pc ?s 1 = Missed" "''k'' \<notin> in_flight (r_dedup ?s)" "r_now ?s = 0" "r_log ?s = []"
    by (simp_all add: race_advance_def race_start_def with_default_ttl_def dedup_new_def dedup_get_def)
  have "(1000 :: nat) < DEFAULT_TTL" by (simp add: DEFAULT_TTL_def nanos_per_sec_def)
  from concurrent_resubmission_dispatches_twice [OF r s(1,2) _ _ s(3) this] s(4,5)
  obtain s' where "(race_step ?kf)\<^sup>*\<^sup>* ?s s'" "r_now s' = 1000" "r_log s' = [(0, 0), (1, 1000)]"
    "peek (r_dedup s') ''k'' (r_now s') \<noteq> None" by auto
  with race_steps_reachable [OF this(1) r] show ?thesis by auto
qed

theorem in_flight_exclusive_witness:
  "\<exists>s. race_reachable (\<lambda>_. ''k'') 0 s \<and> holds (r_pc s 0) \<and> (\<forall>j. holds (r_pc s j) \<longrightarrow> j = 0)"
proof -
  let ?kf = "\<lambda>_ :: nat. ''k''"
  let ?s = "foldl (\<lambda>s i. race_advance ?kf i s) (race_start 0) [0, 0]"
  have "race_reachable ?kf 0 ?s" by (simp add: race_reachable.start race_advance_reachable)
  moreover have "holds (r_pc ?s 0)"
    by (simp add: race_advance_def race_start_def with_default_ttl_def dedup_new_def dedup_get_def
        try_reserve_def)
  ultimately show ?thesis using in_flight_exclusive [of ?kf 0 ?s] by blast
qed

end
