(* ===== verification/Reconcile.thy ===== *)
theory Reconcile
  imports Inner
begin

text \<open>
  \<open>crates/ls-sdk/src/orders/reconcile.rs\<close> and the parts of \<open>orders/mod.rs\<close> it serves: the request
  builders, the order handle's calls and the reconciliation of an ambiguous send against the rows
  of a \<open>t0425\<close> inquiry. The derived serializers of the request and response structs are codecs.
\<close>

section \<open>Requests\<close>

definition is_ascii_alphabetic_byte :: "char \<Rightarrow> bool" where
  "is_ascii_alphabetic_byte c = (let n = of_char c :: nat in 65 \<le> n \<and> n \<le> 90 \<or> 97 \<le> n \<and> n \<le> 122)"

definition normalize_symbol :: "string \<Rightarrow> string" where
  "normalize_symbol isuno =
     (let t = trim isuno
      in case t of
           c # rest \<Rightarrow> if is_ascii_alphabetic_byte c then rest else t
         | [] \<Rightarrow> t)"

record submit_request =
  s_isuno :: string
  s_ordqty :: string
  s_ordprc :: string
  s_bnstpcode :: string
  s_ordprcptncode :: string
  s_mgntrncode :: string
  s_loandt :: string
  s_ordcnditpcode :: string
  s_mbrno :: string

definition submit_limit :: "string \<Rightarrow> string \<Rightarrow> string \<Rightarrow> string \<Rightarrow> string \<Rightarrow> submit_request" where
  "submit_limit isuno ordqty ordprc bnstpcode mbrno =
     \<lparr>s_isuno = isuno, s_ordqty = ordqty, s_ordprc = ordprc, s_bnstpcode = bnstpcode,
      s_ordprcptncode = ''00'', s_mgntrncode = ''000'', s_loandt = [], s_ordcnditpcode = ''0'',
      s_mbrno = mbrno\<rparr>"

record modify_request =
  m_orgordno :: string
  m_isuno :: string
  m_ordqty :: string
  m_ordprcptncode :: string
  m_ordcnditpcode :: string
  m_ordprc :: string

definition modify_new ::
    "string \<Rightarrow> string \<Rightarrow> string \<Rightarrow> string \<Rightarrow> string \<Rightarrow> string \<Rightarrow> modify_request" where
  "modify_new orgordno isuno ordqty ordprc ordprcptncode ordcnditpcode =
     \<lparr>m_orgordno = orgordno, m_isuno = isuno, m_ordqty = ordqty, m_ordprcptncode = ordprcptncode,
      m_ordcnditpcode = ordcnditpcode, m_ordprc = ordprc\<rparr>"

definition modify_limit :: "string \<Rightarrow> string \<Rightarrow> string \<Rightarrow> string \<Rightarrow> modify_request" where
  "modify_limit orgordno isuno ordqty ordprc = modify_new orgordno isuno ordqty ordprc ''00'' ''0''"

record cancel_request =
  c_orgordno :: string
  c_isuno :: string
  c_ordqty :: string

definition cancel_new :: "string \<Rightarrow> string \<Rightarrow> string \<Rightarrow> cancel_request" where
  "cancel_new orgordno isuno ordqty =
     \<lparr>c_orgordno = orgordno, c_isuno = isuno, c_ordqty = ordqty\<rparr>"

record t0425_request =
  q_expcode :: string
  q_chegb :: string
  q_medosu :: string
  q_sortgb :: string
  q_cts_ordno :: string
  q_tr_cont :: string
  q_tr_cont_key :: string

definition for_symbol :: "string \<Rightarrow> t0425_request" where
  "for_symbol expcode =
     \<lparr>q_expcode = expcode, q_chegb = ''0'', q_medosu = ''0'', q_sortgb = ''2'', q_cts_ordno = '' '',
      q_tr_cont = [], q_tr_cont_key = []\<rparr>"

record t0425_row =
  ordno :: string
  expcode :: string
  medosu :: string
  qty :: string
  price :: string
  cheqty :: string
  cheprice :: string
  ordrem :: string
  status :: string
  orgordno :: string
  ordtime :: string

record t0425_response =
  outblock1 :: "t0425_row list"
  t_cts_ordno :: string
  t_tr_cont :: string
  t_tr_cont_key :: string

section \<open>Intents\<close>

datatype order_state = Accepted | Rejected | Duplicate | Modified | Canceled | Unknown

fun order_state_as_str :: "order_state \<Rightarrow> string" where
  "order_state_as_str Accepted = ''accepted''"
| "order_state_as_str Rejected = ''rejected''"
| "order_state_as_str Duplicate = ''duplicate''"
| "order_state_as_str Modified = ''modified''"
| "order_state_as_str Canceled = ''canceled''"
| "order_state_as_str Unknown = ''unknown''"

datatype order_action = SubmitAct | ModifyAct | CancelAct

record order_intent =
  i_account_no :: string
  i_symbol :: string
  i_side :: string
  i_qty :: string
  i_price :: string
  i_order_no :: "string option"
  i_org_order_no :: "string option"
  i_action :: order_action

definition intent_submit ::
    "string \<Rightarrow> string \<Rightarrow> string \<Rightarrow> string \<Rightarrow> string \<Rightarrow> string option \<Rightarrow> order_intent" where
  "intent_submit acct symbol side q p order_no =
     \<lparr>i_account_no = acct, i_symbol = symbol, i_side = side, i_qty = q, i_price = p,
      i_order_no = order_no, i_org_order_no = None, i_action = SubmitAct\<rparr>"

definition intent_modify ::
    "string \<Rightarrow> string \<Rightarrow> string \<Rightarrow> string \<Rightarrow> string \<Rightarrow> string \<Rightarrow> order_intent" where
  "intent_modify acct symbol side q p org_order_no =
     \<lparr>i_account_no = acct, i_symbol = symbol, i_side = side, i_qty = q, i_price = p,
      i_order_no = None, i_org_order_no = Some org_order_no, i_action = ModifyAct\<rparr>"

definition intent_cancel ::
    "string \<Rightarrow> string \<Rightarrow> string \<Rightarrow> string \<Rightarrow> string \<Rightarrow> order_intent" where
  "intent_cancel acct symbol side q org_order_no =
     \<lparr>i_account_no = acct, i_symbol = symbol, i_side = side, i_qty = q, i_price = [],
      i_order_no = None, i_org_order_no = Some org_order_no, i_action = CancelAct\<rparr>"

definition modify_reconcile_intent :: "modify_request \<Rightarrow> string \<Rightarrow> order_intent" where
  "modify_reconcile_intent r acct =
     intent_modify acct (normalize_symbol (m_isuno r)) [] (m_ordqty r) (m_ordprc r) (m_orgordno r)"

definition cancel_reconcile_intent :: "cancel_request \<Rightarrow> string \<Rightarrow> order_intent" where
  "cancel_reconcile_intent r acct =
     intent_cancel acct (normalize_symbol (c_isuno r)) [] (c_ordqty r) (c_orgordno r)"

record reconcile_outcome =
  state :: order_state
  safe_to_retry :: bool

definition outcome_duplicate :: reconcile_outcome where
  "outcome_duplicate = \<lparr>state = Duplicate, safe_to_retry = False\<rparr>"

section \<open>Matching rows\<close>

definition normalize_ordno :: "string \<Rightarrow> string" where
  "normalize_ordno s = (let t = trim s in case parse_u64 t of Some n \<Rightarrow> show_nat n | None \<Rightarrow> t)"

text \<open>The Korean texts, as UTF-8: sell, buy, the two rejection marks, cancel, modify.\<close>

definition kr_sell :: string where "kr_sell = utf8 [235,167,164,235,143,132]"
definition kr_buy :: string where "kr_buy = utf8 [235,167,164,236,136,152]"
definition kr_refused :: string where "kr_refused = utf8 [234,177,176,235,182,128]"
definition kr_declined :: string where "kr_declined = utf8 [234,177,176,236,160,136]"
definition kr_cancel :: string where "kr_cancel = utf8 [236,183,168,236,134,140]"
definition kr_modify :: string where "kr_modify = utf8 [236,160,149,236,160,149]"
definition kr_received :: string where "kr_received = utf8 [236,160,145,236,136,152]"

text \<open>The bytes as character literals, for evaluation.\<close>

lemma kr_code [code]:
  "kr_sell = [CHR 0xEB, CHR 0xA7, CHR 0xA4, CHR 0xEB, CHR 0x8F, CHR 0x84]"
  "kr_buy = [CHR 0xEB, CHR 0xA7, CHR 0xA4, CHR 0xEC, CHR 0x88, CHR 0x98]"
  "kr_refused = [CHR 0xEA, CHR 0xB1, CHR 0xB0, CHR 0xEB, CHR 0xB6, CHR 0x80]"
  "kr_declined = [CHR 0xEA, CHR 0xB1, CHR 0xB0, CHR 0xEC, CHR 0xA0, CHR 0x88]"
  "kr_cancel = [CHR 0xEC, CHR 0xB7, CHR 0xA8, CHR 0xEC, CHR 0x86, CHR 0x8C]"
  "kr_modify = [CHR 0xEC, CHR 0xA0, CHR 0x95, CHR 0xEC, CHR 0xA0, CHR 0x95]"
  "kr_received = [CHR 0xEC, CHR 0xA0, CHR 0x91, CHR 0xEC, CHR 0x88, CHR 0x98]"
  by (simp_all add: kr_sell_def kr_buy_def kr_refused_def kr_declined_def kr_cancel_def kr_modify_def
      kr_received_def utf8_def char_of_def bit_0)

definition side_matches :: "string \<Rightarrow> string \<Rightarrow> bool" where
  "side_matches bnstpcode row_medosu =
     (let c = trim bnstpcode
      in if c = ''1'' then contains row_medosu kr_sell
         else if c = ''2'' then contains row_medosu kr_buy
         else True)"

definition reference_order_no :: "order_intent \<Rightarrow> string option" where
  "reference_order_no i =
     (let raw = (case i_action i of SubmitAct \<Rightarrow> i_order_no i | _ \<Rightarrow> i_org_order_no i);
          n = normalize_ordno (unwrap_or [] raw)
      in if n \<noteq> [] \<and> n \<noteq> ''0'' then Some n else None)"

definition row_is_child_of :: "order_intent \<Rightarrow> t0425_row \<Rightarrow> string \<Rightarrow> bool" where
  "row_is_child_of i row refno \<longleftrightarrow>
     i_action i \<in> {ModifyAct, CancelAct} \<and> normalize_ordno (orgordno row) = refno"

definition row_matches :: "order_intent \<Rightarrow> t0425_row \<Rightarrow> bool" where
  "row_matches i row =
     (case reference_order_no i of
        Some refno \<Rightarrow> normalize_ordno (ordno row) = refno \<or> row_is_child_of i row refno
      | None \<Rightarrow>
          (let intent_price = trim (i_price i);
               price_ok = (intent_price = [] \<or> intent_price = ''0'' \<or> trim (price row) = intent_price)
           in trim (expcode row) = trim (i_symbol i) \<and> side_matches (i_side i) (medosu row) \<and>
              trim (qty row) = trim (i_qty i) \<and> price_ok))"

definition classify_status :: "string \<Rightarrow> order_state" where
  "classify_status s =
     (if contains s kr_refused \<or> contains s kr_declined then Rejected
      else if contains s kr_cancel then Canceled
      else if contains s kr_modify then Modified
      else Accepted)"

section \<open>Reconciling\<close>

definition reconcile_rows :: "order_intent \<Rightarrow> t0425_row list \<Rightarrow> bool \<Rightarrow> bool \<Rightarrow> reconcile_outcome" where
  "reconcile_rows i rows query_complete dedup_hit =
     (if dedup_hit then outcome_duplicate
      else let matched = filter (row_matches i) rows
        in if matched = [] then \<lparr>state = Unknown, safe_to_retry = query_complete\<rparr>
        else let any = (\<lambda>st. list_ex (\<lambda>r. classify_status (status r) = st) matched);
            any_rejected = any Rejected;
            any_canceled = any Canceled;
            any_modified = any Modified;
            has_live_child = (case reference_order_no i of
                None \<Rightarrow> False
              | Some refno \<Rightarrow> list_ex (\<lambda>r. row_is_child_of i r refno \<and>
                  classify_status (status r) \<in> {Accepted, Modified}) matched)
        in case i_action i of
             SubmitAct \<Rightarrow>
               \<lparr>state = (if any_rejected then Rejected else if any_canceled then Canceled
                         else if any_modified then Modified else Accepted), safe_to_retry = False\<rparr>
           | ModifyAct \<Rightarrow>
               (if any_canceled then \<lparr>state = Canceled, safe_to_retry = False\<rparr>
                else if any_modified \<or> has_live_child then \<lparr>state = Modified, safe_to_retry = False\<rparr>
                else if any_rejected then \<lparr>state = Rejected, safe_to_retry = True\<rparr>
                else \<lparr>state = Unknown, safe_to_retry = True\<rparr>)
           | CancelAct \<Rightarrow>
               (if any_canceled then \<lparr>state = Canceled, safe_to_retry = False\<rparr>
                else \<lparr>state = (if any_rejected then Rejected else Unknown), safe_to_retry = False\<rparr>))"

definition response_is_terminal :: "t0425_response \<Rightarrow> bool" where
  "response_is_terminal resp = (let c = trim (t_tr_cont resp) in c = [] \<or> c = ''n'' \<or> c = ''N'')"

definition outcome_unproven :: reconcile_outcome where
  "outcome_unproven = \<lparr>state = Unknown, safe_to_retry = False\<rparr>"

definition reconcile :: "order_intent \<Rightarrow> t0425_response option \<Rightarrow> bool \<Rightarrow> reconcile_outcome" where
  "reconcile i inquiry dedup_hit =
     (if dedup_hit then outcome_duplicate
      else case inquiry of
        None \<Rightarrow> outcome_unproven
      | Some resp \<Rightarrow> reconcile_rows i (outblock1 resp) (response_is_terminal resp) False)"

section \<open>The order handle\<close>

definition t0425_req_pages :: "t0425_request pagination" where
  "t0425_req_pages =
     \<lparr>tr_cont = q_tr_cont, tr_cont_key = q_tr_cont_key,
      set_tr_cont = (\<lambda>s r. r\<lparr>q_tr_cont := s\<rparr>), set_tr_cont_key = (\<lambda>s r. r\<lparr>q_tr_cont_key := s\<rparr>)\<rparr>"

definition t0425_res_pages :: "t0425_response pagination" where
  "t0425_res_pages =
     \<lparr>tr_cont = t_tr_cont, tr_cont_key = t_tr_cont_key,
      set_tr_cont = (\<lambda>s r. r\<lparr>t_tr_cont := s\<rparr>), set_tr_cont_key = (\<lambda>s r. r\<lparr>t_tr_cont_key := s\<rparr>)\<rparr>"

definition orders_inquiry ::
    "env \<Rightarrow> (t0425_request, t0425_response) codec \<Rightarrow> endpoint_policy \<Rightarrow> t0425_request \<Rightarrow> inner \<Rightarrow>
       t0425_response io \<times> inner" where
  "orders_inquiry e c t0425_policy req = post_paginated e c t0425_req_pages t0425_policy req"

text \<open>\<open>None\<close> is a panic inside the inquiry.\<close>

definition orders_reconcile ::
    "env \<Rightarrow> (t0425_request, t0425_response) codec \<Rightarrow> endpoint_policy \<Rightarrow> order_intent \<Rightarrow> bool \<Rightarrow> inner \<Rightarrow>
       reconcile_outcome option \<times> inner" where
  "orders_reconcile e c t0425_policy i dedup_hit w =
     (if dedup_hit then (Some outcome_duplicate, w)
      else case collect_all (orders_inquiry e c t0425_policy) t0425_req_pages t0425_res_pages
          (rc_max_pages (config w)) (for_symbol (i_symbol i)) w of
        (None, w1) \<Rightarrow> (None, w1)
      | (Some (Inr pages), w1) \<Rightarrow> (Some (reconcile_rows i (concat (map outblock1 pages)) True False), w1)
      | (Some (Inl _), w1) \<Rightarrow> (Some outcome_unproven, w1))"

section \<open>The evidence record\<close>

definition EVIDENCE_RETENTION_DAYS :: nat where "EVIDENCE_RETENTION_DAYS = 7"
definition MIN_HMAC_KEY_LEN :: nat where "MIN_HMAC_KEY_LEN = 32"

definition keyed_hash :: "(nat list \<Rightarrow> string \<Rightarrow> nat list) \<Rightarrow> nat list \<Rightarrow> string \<Rightarrow> string" where
  "keyed_hash hmac key data = hex (hmac key data)"

record reconciliation_record =
  e_recorded_at :: string
  e_tr_code :: string
  e_account_ref :: string
  e_request_ref :: string
  e_symbol :: string
  e_side :: string
  e_qty :: string
  e_price :: string
  e_state :: string
  e_safe_to_retry :: bool
  e_error :: "string option"
  e_retention_days :: nat

definition record_new ::
    "(nat list \<Rightarrow> string \<Rightarrow> nat list) \<Rightarrow> string \<Rightarrow> string \<Rightarrow> nat list \<Rightarrow> order_intent \<Rightarrow> string \<Rightarrow>
       reconcile_outcome \<Rightarrow> string option \<Rightarrow> ls_error + reconciliation_record" where
  "record_new hmac recorded_at tr hmac_key i key outcome err =
     (if length hmac_key < MIN_HMAC_KEY_LEN
      then Inl (Config ''reconciliation HMAC key must be at least 32 bytes'')
      else Inr \<lparr>e_recorded_at = recorded_at, e_tr_code = tr,
        e_account_ref = keyed_hash hmac hmac_key (i_account_no i),
        e_request_ref = keyed_hash hmac hmac_key key,
        e_symbol = i_symbol i, e_side = i_side i, e_qty = i_qty i, e_price = i_price i,
        e_state = order_state_as_str (state outcome), e_safe_to_retry = safe_to_retry outcome,
        e_error = err, e_retention_days = EVIDENCE_RETENTION_DAYS\<rparr>)"

section \<open>Which rows count\<close>

definition matched_states :: "order_intent \<Rightarrow> t0425_row list \<Rightarrow> order_state set" where
  "matched_states i rows = {classify_status (status r) |r. r \<in> set rows \<and> row_matches i r}"

definition live_child :: "order_intent \<Rightarrow> t0425_row list \<Rightarrow> bool" where
  "live_child i rows \<longleftrightarrow> (\<exists>refno. reference_order_no i = Some refno \<and>
     (\<exists>r \<in> set rows. row_matches i r \<and> row_is_child_of i r refno \<and>
        classify_status (status r) \<in> {Accepted, Modified}))"

text \<open>The specification: what the scan may conclude, from the set of states of the matching rows.\<close>

definition verdict :: "order_action \<Rightarrow> order_state set \<Rightarrow> bool \<Rightarrow> bool \<Rightarrow> reconcile_outcome" where
  "verdict a S child complete =
     (if S = {} then \<lparr>state = Unknown, safe_to_retry = complete\<rparr>
      else case a of
        SubmitAct \<Rightarrow> \<lparr>state = (if Rejected \<in> S then Rejected else if Canceled \<in> S then Canceled
            else if Modified \<in> S then Modified else Accepted), safe_to_retry = False\<rparr>
      | ModifyAct \<Rightarrow> \<lparr>state = (if Canceled \<in> S then Canceled else if Modified \<in> S \<or> child then Modified
            else if Rejected \<in> S then Rejected else Unknown),
          safe_to_retry = (S \<subseteq> {Accepted, Rejected} \<and> \<not> child)\<rparr>
      | CancelAct \<Rightarrow> \<lparr>state = (if Canceled \<in> S then Canceled else if Rejected \<in> S then Rejected
            else Unknown), safe_to_retry = False\<rparr>)"

lemma classify_status_range: "classify_status s \<in> {Accepted, Rejected, Canceled, Modified}"
  by (simp add: classify_status_def)

lemma matched_states_range: "matched_states i rows \<subseteq> {Accepted, Rejected, Canceled, Modified}"
  using classify_status_range by (auto simp: matched_states_def)

lemma matched_states_empty: "matched_states i rows = {} \<longleftrightarrow> filter (row_matches i) rows = []"
  by (auto simp: matched_states_def filter_empty_conv)

lemma any_matched:
  "list_ex (\<lambda>r. classify_status (status r) = st) (filter (row_matches i) rows) \<longleftrightarrow> st \<in> matched_states i rows"
  by (auto simp: matched_states_def list_ex_iff)

lemma any_child:
  "(case reference_order_no i of None \<Rightarrow> False
    | Some refno \<Rightarrow> list_ex (\<lambda>r. row_is_child_of i r refno \<and> classify_status (status r) \<in> {Accepted, Modified})
        (filter (row_matches i) rows)) \<longleftrightarrow> live_child i rows"
  by (auto simp: live_child_def list_ex_iff split: option.split)

lemma reconcile_rows_verdict:
  "reconcile_rows i rows complete False =
     verdict (i_action i) (matched_states i rows) (live_child i rows) complete"
proof -
  have S: "matched_states i rows \<subseteq> {Accepted, Rejected} \<longleftrightarrow>
      Canceled \<notin> matched_states i rows \<and> Modified \<notin> matched_states i rows"
    using matched_states_range [of i rows] by blast
  show ?thesis
    unfolding reconcile_rows_def verdict_def Let_def any_matched any_child matched_states_empty [symmetric] S
    by (auto split: order_action.split)
qed

text \<open>
  C6. The scan implements the specification: the outcome of \<open>reconcile_rows\<close> is the verdict on
  the set of states of all matching rows, so it depends neither on their order nor on repetition,
  and no row is overlooked because an earlier one matched.
\<close>

theorem reconcile_rows_refines_verdict:
  "reconcile_rows i rows complete False =
     verdict (i_action i) (matched_states i rows) (live_child i rows) complete"
  by (rule reconcile_rows_verdict)

lemma retry_safe_cases:
  "safe_to_retry (reconcile_rows i rows complete dedup_hit) \<longleftrightarrow>
     dedup_hit = False \<and>
     (if matched_states i rows = {} then complete
      else i_action i = ModifyAct \<and> matched_states i rows \<subseteq> {Accepted, Rejected} \<and> \<not> live_child i rows)"
proof (cases dedup_hit)
  case True
  then show ?thesis by (simp add: reconcile_rows_def outcome_duplicate_def)
next
  case False
  then show ?thesis
    using reconcile_rows_verdict [of i rows complete]
    by (auto simp: verdict_def split: order_action.splits)
qed

text \<open>
  A retry is declared safe in two situations only: a complete query in which no row matches,
  or a modify whose matching rows show neither a cancellation nor a modification nor a live child.
  For a submit and a cancel only proven absence makes a retry safe.
\<close>

theorem retry_safe_iff:
  "safe_to_retry (reconcile_rows i rows complete dedup_hit) \<longleftrightarrow>
     dedup_hit = False \<and>
     (if matched_states i rows = {} then complete
      else i_action i = ModifyAct \<and> matched_states i rows \<subseteq> {Accepted, Rejected} \<and> \<not> live_child i rows)"
  by (rule retry_safe_cases)

text \<open>
  More evidence never makes a retry safer: if a complete query over some rows declares a
  retry safe, so does a complete query over any part of them.
\<close>

theorem retry_safe_antitone:
  assumes "set rows \<subseteq> set rows'" and "safe_to_retry (reconcile_rows i rows' True dedup_hit)"
  shows "safe_to_retry (reconcile_rows i rows True dedup_hit)"
proof -
  have "matched_states i rows \<subseteq> matched_states i rows'" "live_child i rows \<Longrightarrow> live_child i rows'"
    using assms(1) by (auto simp: matched_states_def live_child_def)
  then show ?thesis
    using assms(2) unfolding retry_safe_cases by (auto split: if_splits)
qed

text \<open>
  A cancel is never assumed to have worked: it is reported canceled exactly when some matching
  row carries the cancellation text (and no rejection text), it is never reported accepted or
  modified, and while any row matches no retry is declared safe.
\<close>

theorem cancel_fails_toward_live:
  assumes "i_action i = CancelAct"
  shows "(state (reconcile_rows i rows complete False) = Canceled \<longleftrightarrow>
      (\<exists>r \<in> set rows. row_matches i r \<and> contains (status r) kr_cancel \<and>
         \<not> contains (status r) kr_refused \<and> \<not> contains (status r) kr_declined)) \<and>
    state (reconcile_rows i rows complete False) \<in> {Canceled, Rejected, Unknown} \<and>
    (safe_to_retry (reconcile_rows i rows complete False) \<longleftrightarrow>
       complete \<and> filter (row_matches i) rows = [])"
proof -
  have c: "Canceled \<in> matched_states i rows \<longleftrightarrow>
      (\<exists>r \<in> set rows. row_matches i r \<and> contains (status r) kr_cancel \<and>
         \<not> contains (status r) kr_refused \<and> \<not> contains (status r) kr_declined)"
    by (auto simp: matched_states_def classify_status_def split: if_splits)
  show ?thesis
    unfolding reconcile_rows_verdict c [symmetric] matched_states_empty [symmetric]
    using assms by (auto simp: verdict_def)
qed

section \<open>Order numbers\<close>

lemma show_nat_inject [simp]: "show_nat m = show_nat n \<longleftrightarrow> m = n"
  by (metis digits_value_show_nat)

lemma normalize_digits:
  assumes "s \<noteq> []" "list_all is_digit s" "digits_value s < 2 ^ 64"
  shows "normalize_ordno s = show_nat (digits_value s)"
proof -
  have "\<And>c. c \<in> set s \<Longrightarrow> plain_char c"
    using assms(2) by (auto simp: list_all_iff is_digit_def plain_char_def)
  then have "trim s = s" by (rule trim_plain)
  moreover have "parse_u64 s = Some (digits_value s)"
    using assms by (cases s) (auto simp: parse_u64_def Let_def dest: digit_not_sign)
  ultimately show ?thesis by (simp add: normalize_ordno_def)
qed

text \<open>
  Order numbers of different message types compare as numbers: two digit strings in the range
  of a \<open>u64\<close>, with whatever leading zeros, are normalized alike exactly when they denote the same
  number, and the normal form is a fixed point.
\<close>

theorem order_numbers_compare_numerically:
  assumes "s \<noteq> []" "list_all is_digit s" "digits_value s < 2 ^ 64"
    and "t \<noteq> []" "list_all is_digit t" "digits_value t < 2 ^ 64"
  shows "(normalize_ordno s = normalize_ordno t \<longleftrightarrow> digits_value s = digits_value t) \<and>
    normalize_ordno (normalize_ordno s) = normalize_ordno s"
proof -
  have "normalize_ordno (show_nat (digits_value s)) = show_nat (digits_value s)"
    using normalize_digits [of "show_nat (digits_value s)"] assms(3) by simp
  then show ?thesis
    using assms by (simp add: normalize_digits)
qed

section \<open>The handle: absence needs the whole chain\<close>

text \<open>
  C5. When \<open>Orders::reconcile\<close> declares a retry of a submit or a cancel safe, the inquiry has
  walked the whole chain of pages from the first to a terminal one within the page limit, and no
  row of any page matches the order; a failed, truncated or panicking inquiry never does.
\<close>

theorem orders_reconcile_absence_is_proven:
  assumes "orders_reconcile e c pol i dedup_hit w = (Some out, w')" and "safe_to_retry out"
    and "i_action i \<noteq> ModifyAct" and "1 \<le> rc_max_pages (config w)"
  shows "\<exists>pages. page_walk (orders_inquiry e c pol) t0425_req_pages t0425_res_pages
      (for_symbol (i_symbol i)) w pages w' \<and> length pages \<le> rc_max_pages (config w) \<and>
    list_all (\<lambda>page. list_all (\<lambda>r. \<not> row_matches i r) (outblock1 page)) pages"
proof -
  let ?collect = "collect_all (orders_inquiry e c pol) t0425_req_pages t0425_res_pages
    (rc_max_pages (config w)) (for_symbol (i_symbol i)) w"
  obtain pages where p: "?collect = (Some (Inr pages), w')"
    "out = reconcile_rows i (concat (map outblock1 pages)) True False"
    using assms(1,2)
    by (auto simp: orders_reconcile_def outcome_duplicate_def outcome_unproven_def
        split: if_splits prod.splits option.splits sum.splits)
  have "filter (row_matches i) (concat (map outblock1 pages)) = []"
    using assms(2,3) p(2) by (simp add: retry_safe_cases matched_states_empty split: if_splits)
  then have "list_all (\<lambda>page. list_all (\<lambda>r. \<not> row_matches i r) (outblock1 page)) pages"
    by (auto simp: filter_empty_conv list_all_iff)
  then show ?thesis
    using p(1) unfolding collect_all_iff [OF assms(4)] by auto
qed

text \<open>
  The body cursor never advances: whatever pages came back, the next \<open>t0425\<close> request of a
  collection still carries the first page's \<open>cts_ordno\<close>, a blank; only the two header tokens move.
  The cursor a page returns in its own \<open>t0425OutBlock\<close> is dropped.
\<close>

theorem inquiry_cursor_never_advances:
  "q_cts_ordno (foldl (\<lambda>req page. next_req t0425_req_pages t0425_res_pages page req) (for_symbol symbol) pages) = '' ''"
proof -
  have "q_cts_ordno (foldl (\<lambda>req page. next_req t0425_req_pages t0425_res_pages page req) req pages) =
      q_cts_ordno req" for req
    by (induction pages arbitrary: req) (simp_all add: next_req_def t0425_req_pages_def)
  then show ?thesis by (simp add: for_symbol_def)
qed

section \<open>The evidence record is redacted\<close>

text \<open>
  The record holds the account and the deduplication key only as keyed hashes: a short key is
  refused, and two orders that agree on the public fields and hash alike under the operator's key
  give the same record, whatever their account numbers and keys are.
\<close>

theorem evidence_record_redacts:
  assumes "i_symbol i' = i_symbol i" "i_side i' = i_side i" "i_qty i' = i_qty i" "i_price i' = i_price i"
    and "hmac k (i_account_no i') = hmac k (i_account_no i)" and "hmac k key' = hmac k key"
  shows "record_new hmac at tr k i' key' out err = record_new hmac at tr k i key out err \<and>
    (\<exists>e. if length k < 32 then record_new hmac at tr k i key out err = Inl e
         else \<exists>r. record_new hmac at tr k i key out err = Inr r \<and>
           e_account_ref r = hex (hmac k (i_account_no i)) \<and> e_request_ref r = hex (hmac k key))"
  using assms by (simp add: record_new_def keyed_hash_def MIN_HMAC_KEY_LEN_def)

section \<open>Concrete orders\<close>

definition sample_row :: "string \<Rightarrow> string \<Rightarrow> t0425_row" where
  "sample_row no st =
     \<lparr>ordno = no, expcode = ''005930'', medosu = kr_buy, qty = ''10'', price = ''60000'', cheqty = ''0'',
      cheprice = [], ordrem = ''10'', status = st, orgordno = ''0'', ordtime = []\<rparr>"

definition sample_cancel :: order_intent where
  "sample_cancel = intent_cancel ''a'' ''005930'' [] ''10'' ''42''"

lemma sample_cancel_action [simp]: "i_action sample_cancel = CancelAct"
  by (simp add: sample_cancel_def intent_cancel_def)

lemma sample_rows:
  "row_matches sample_cancel (sample_row ''0042'' kr_received)"
  "\<not> row_matches sample_cancel (sample_row ''43'' kr_received)"
proof -
  have "normalize_ordno ''42'' = show_nat 42" "normalize_ordno ''0042'' = show_nat 42"
    "normalize_ordno ''43'' = show_nat 43" "normalize_ordno ''0'' = show_nat 0" "''0'' = show_nat 0"
    by (simp_all add: normalize_digits digits_value_def digit_val_def show_nat.simps [of 0])
  then show "row_matches sample_cancel (sample_row ''0042'' kr_received)"
    "\<not> row_matches sample_cancel (sample_row ''43'' kr_received)"
    by (simp_all add: row_matches_def reference_order_no_def sample_cancel_def intent_cancel_def
        sample_row_def row_is_child_of_def Let_def del: digit_char_simps)
qed

theorem retry_safe_antitone_witness:
  "safe_to_retry (reconcile_rows sample_cancel [] True False)"
  by (rule retry_safe_antitone [of _ "[sample_row ''43'' kr_received]"])
    (simp_all add: reconcile_rows_def sample_rows)

theorem cancel_fails_toward_live_witness:
  "\<not> safe_to_retry (reconcile_rows sample_cancel [sample_row ''0042'' kr_received] True False)"
  using cancel_fails_toward_live [of sample_cancel "[sample_row ''0042'' kr_received]" True]
  by (simp add: sample_rows)

theorem order_numbers_compare_numerically_witness:
  "normalize_ordno ''0042'' = normalize_ordno ''42''"
  using order_numbers_compare_numerically [of "''0042''" "''42''"]
  by (simp add: digits_value_def digit_val_def)

theorem evidence_record_redacts_witness:
  "record_new (\<lambda>_ _. [7]) ''t'' ''CSPAT00801'' (replicate 32 0) sample_cancel ''k1'' outcome_duplicate None =
   record_new (\<lambda>_ _. [7]) ''t'' ''CSPAT00801'' (replicate 32 0) (sample_cancel\<lparr>i_account_no := ''b''\<rparr>) ''k2''
     outcome_duplicate None"
  using evidence_record_redacts [of "sample_cancel\<lparr>i_account_no := ''b''\<rparr>" sample_cancel "\<lambda>_ _. [7]"
      "replicate 32 0" "''k2''" "''k1''"]
  by simp

definition sample_t0425_codec :: "(t0425_request, t0425_response) codec" where
  "sample_t0425_codec = \<lparr>to_value = (\<lambda>_. Some JNull), to_text = (\<lambda>_. Some []),
     from_value = (\<lambda>_. Some \<lparr>outblock1 = [sample_row ''43'' kr_received], t_cts_ordno = [], t_tr_cont = [],
       t_tr_cont_key = []\<rparr>), res_to_value = (\<lambda>_. None)\<rparr>"

definition sample_read_world :: env where
  "sample_read_world = sample_env (\<lambda>_ rq. if is_api rq then Response 200 [] [] (Some (JObj [])) else token_answer)"

lemma sample_read_schemas: "schemas sample_read_world tr = None"
  by (simp add: sample_read_world_def sample_env_def)

lemma sample_read_gateway: "gateway sample_read_world rqs rq =
    (if is_api rq then Response 200 [] [] (Some (JObj [])) else token_answer)"
  by (simp add: sample_read_world_def sample_env_def)

abbreviation sample_read_policy :: endpoint_policy where
  "sample_read_policy \<equiv> sample_policy\<lparr>is_order := False\<rparr>"

lemma sample_read_get:
  "token w = None \<Longrightarrow> get_or_refresh sample_read_world w =
     (Some (Inr ''tok''), w\<lparr>token := Some sample_token, sent := sent w @ [token_request (config w)],
      charged := charged w @ [AuthBucket], clock_reads := Suc (clock_reads w)\<rparr>)"
  by (simp add: sample_read_world_def sample_env_def get_or_refresh_def cached_token_def slow_path_def
      fetch_token_def rate_wait_def send_def token_answer_def is_success_def check_envelope_def
      token_response_def read_utc_def jget_str_def jget_def as_str_def string_or_number_def
      token_ttl_def sample_token_def DATETIME_MAX_SECS_def)

definition sample_response :: t0425_response where
  "sample_response = \<lparr>outblock1 = [sample_row ''43'' kr_received], t_cts_ordno = [], t_tr_cont = [], t_tr_cont_key = []\<rparr>"

lemma sample_classify:
  "\<exists>w'. send_and_classify sample_read_world sample_t0425_codec sample_read_policy (api_request cfg p tok cont key body) w =
     (Some (Inr sample_response), w')"
  by (simp add: send_and_classify_def send_def sample_read_gateway is_success_def classify_body_def decode_res_def
      jget_str_def jget_def inject_headers_def jset_def as_str_def sample_t0425_codec_def sample_response_def)

lemma sample_inquiry:
  assumes "token w = None"
  shows "\<exists>w'. orders_inquiry sample_read_world sample_t0425_codec sample_read_policy req w = (Some (Inr sample_response), w')"
proof -
  have d: "\<exists>w'. dispatch_once sample_read_world sample_t0425_codec sample_read_policy req cont key (rate_wait b w) =
      (Some (Inr sample_response), w')" for cont key b
  proof -
    have "to_text sample_t0425_codec req = Some []" by (simp add: sample_t0425_codec_def)
    then show ?thesis
      using sample_read_get [of "rate_wait b w"] assms sample_classify
      by (simp add: dispatch_once_def preflight_request_def sample_read_schemas rate_wait_def)
  qed
  show ?thesis
    using d [of "non_empty (tr_cont t0425_req_pages req)" "non_empty (tr_cont_key t0425_req_pages req)"
        "category sample_read_policy"]
    by (auto simp: orders_inquiry_def post_paginated_def guard_non_order_def post_with_retry_def
        MAX_RETRIES_def retry_loop.simps [of 3])
qed

theorem orders_reconcile_absence_is_proven_witness:
  "\<exists>pages w'. page_walk (orders_inquiry sample_read_world sample_t0425_codec sample_read_policy)
     t0425_req_pages t0425_res_pages (for_symbol ''005930'') sample_inner pages w'"
proof -
  have pages: "rc_max_pages (config sample_inner) = Suc 1" "token sample_inner = None"
    by (simp_all add: sample_inner_def inner_new_def sample_config_def)
  obtain w1 where "orders_inquiry sample_read_world sample_t0425_codec sample_read_policy (for_symbol ''005930'') sample_inner
      = (Some (Inr sample_response), w1)"
    using sample_inquiry [OF pages(2)] by blast
  then obtain out w' where r: "orders_reconcile sample_read_world sample_t0425_codec sample_read_policy sample_cancel False
      sample_inner = (Some out, w')" "safe_to_retry out"
    using sample_rows(2)
    by (simp add: orders_reconcile_def collect_all_def pages sample_cancel_def intent_cancel_def
        t0425_res_pages_def sample_response_def reconcile_rows_def)
  with orders_reconcile_absence_is_proven [OF r] pages show ?thesis
    by (auto simp: sample_cancel_def intent_cancel_def)
qed

end
