(* ===== verification/Order_Map.thy ===== *)
theory Order_Map
  imports Reconcile
begin

text \<open>
  \<open>adapters/nautilus/src/orders/map.rs\<close>: what the execution client does with a failed order call
  and with a reconciliation outcome.
\<close>

datatype submit_action = Accept | Reject | Deny | DropDuplicate | Pending

fun classify_submit_error :: "ls_error \<Rightarrow> submit_action" where
  "classify_submit_error (ApiError _ _) = Reject"
| "classify_submit_error (Invalid _ _) = Deny"
| "classify_submit_error DuplicateOrder = DropDuplicate"
| "classify_submit_error (AmbiguousOrder _ _) = Pending"
| "classify_submit_error (Http _) = Pending"
| "classify_submit_error (Decode _) = Pending"
| "classify_submit_error (Auth _) = Deny"
| "classify_submit_error RateLimited = Deny"
| "classify_submit_error (Config _) = Deny"
| "classify_submit_error (Parse _) = Pending"
| "classify_submit_error (PaginationLimit _) = Pending"
| "classify_submit_error (WebSocket _) = Pending"

datatype reconcile_event = EvAccepted | EvModified | EvCanceled | EvRejected | StayPending

definition classify_reconcile :: "reconcile_outcome \<Rightarrow> reconcile_event" where
  "classify_reconcile out =
     (case state out of
        Accepted \<Rightarrow> EvAccepted
      | Modified \<Rightarrow> EvModified
      | Canceled \<Rightarrow> EvCanceled
      | Rejected \<Rightarrow> EvRejected
      | Unknown \<Rightarrow> StayPending
      | Duplicate \<Rightarrow> StayPending)"

definition may_retry :: "reconcile_outcome \<Rightarrow> bool" where
  "may_retry out = safe_to_retry out"

fun_cases classify_submit_rejectE: "classify_submit_error err = Reject"
fun_cases classify_submit_denyE: "classify_submit_error err = Deny"

lemma send_and_classify_errors:
  assumes "is_order p" "send_and_classify e c p rq w = (Some (Inl err), w')"
  shows "(\<exists>code msg. err = ApiError code msg \<and> refused_for_sure (gateway e (sent w) rq)) \<or>
    (\<exists>code msg. err = AmbiguousOrder code msg) \<or> err = Http None \<or> err = Decode ''from_value''"
proof -
  have fst: "fst (send_and_classify e c p rq w) = Some (Inl err)" using assms(2) by simp
  show ?thesis
    using order_verdict_cases [OF assms(1), of e c rq w] unfolding fst
    by (cases "gateway e (sent w) rq"; cases err) (auto simp: Let_def split: if_splits)
qed

text \<open>
  C13. A verdict that nothing was placed is never a guess: when a failed order call maps to
  \<open>Reject\<close> or \<open>Deny\<close>, either no request carrying the order left the process, or the call sent one
  request, the last of the log, and the gateway's answer to it ruled the placement out: a code that
  neither acknowledges nor is silent under 2xx, or the ingress refusal under an error status.
\<close>

theorem placed_nothing_is_proven:
  assumes "post_order e c p req w = (Some (Inl err), w')"
    and "classify_submit_error err \<in> {Reject, Deny}"
  shows "filter is_api (sent w') = filter is_api (sent w) \<or>
    (\<exists>toks rq. sent w' = sent w @ toks @ [rq] \<and> toks \<in> {[], [token_request (config w)]} \<and>
       is_api rq \<and> rq_tr_cd rq = tr_header p \<and> refused_for_sure (gateway e (sent w @ toks) rq))"
  using assms(1)
proof (cases rule: post_order_cases)
  case (hit key cached)
  have "sent w' = sent w" by (subst dedup_get_now_effect(2) [OF hit(4)]) simp
  then show ?thesis by simp
next
  case (live key w1 w2)
  let ?w = "w1\<lparr>order_dedup := (order_dedup w1)\<lparr>in_flight := insert key (in_flight (order_dedup w1))\<rparr>\<rparr>"
  let ?v = "rate_wait (category p) ?w"
  have "sent w1 = sent w" "config w1 = config w" by (subst dedup_get_now_effect(2) [OF live(4)], simp)+
  then have v: "sent ?v = sent w" "config ?v = config w" by (simp_all add: rate_wait_def)
  have w': "sent w' = sent w2" using live(7) by (simp add: release_def)
  have "dispatch_once e c p req None None ?v = (Some (Inl err), w2)"
    using live(6) by (cases rule: dispatch_reserved_cases) auto
  then show ?thesis
  proof (cases rule: dispatch_once_cases)
    case not_sent
    then have "filter is_api (sent w2) = filter is_api (sent ?v)"
      using get_or_refresh_effect(1) by fastforce
    with v w' show ?thesis by simp
  next
    case (was_sent tok w3 body)
    let ?rq = "api_request (config w3) p tok None None body"
    obtain toks where toks: "sent w3 = sent w @ toks" "toks \<in> {[], [token_request (config w)]}"
      using get_or_refresh_effect(1) [OF was_sent(1)] v by auto
    have "refused_for_sure (gateway e (sent w3) ?rq)"
      using send_and_classify_errors [OF live(2) was_sent(3)] assms(2) by auto
    moreover have "sent w2 = sent w3 @ [?rq]"
      using send_and_classify_effect [OF was_sent(3)] by simp
    ultimately show ?thesis using toks w' by (intro disjI2 exI [of _ toks] exI [of _ ?rq]) simp
  qed
qed (use assms(2) in simp_all)

text \<open>
  The two retry authorities agree: an outcome whose event keeps the order pending authorizes a
  retry only when absence was proven or a modify found nothing but the untouched original, and no
  outcome that reports the order accepted, modified or canceled authorizes one.
\<close>

theorem retry_authority:
  assumes "may_retry (reconcile_rows i rows complete dedup_hit)"
  shows "classify_reconcile (reconcile_rows i rows complete dedup_hit) \<in> {StayPending, EvRejected} \<and>
    (classify_reconcile (reconcile_rows i rows complete dedup_hit) = EvRejected \<longrightarrow> i_action i = ModifyAct)"
proof -
  have d: "dedup_hit = False" using assms by (simp add: may_retry_def retry_safe_cases)
  show ?thesis
    using assms unfolding d reconcile_rows_verdict may_retry_def
    by (auto simp: classify_reconcile_def verdict_def split: order_action.splits if_splits)
qed

theorem retry_authority_witness:
  "classify_reconcile (reconcile_rows sample_cancel [] True False) \<in> {StayPending, EvRejected}"
proof -
  have "may_retry (reconcile_rows sample_cancel [] True False)"
    by (simp add: may_retry_def reconcile_rows_def)
  from retry_authority [OF this] show ?thesis by blast
qed

definition reject_world :: env where
  "reject_world = sample_env (\<lambda>_ rq. if is_api rq
     then Response 200 [] [] (Some (JObj [(''rsp_cd'', JStr ''40510'')])) else token_answer)"

lemma reject_place:
  "\<exists>w'. post_order reject_world (sample_codec Some) sample_policy ''buy 1'' (seed_token sample_token sample_inner)
      = (Some (Inl (ApiError ''40510'' [])), w') \<and> api_count w' = 1"
  by (simp add: post_order_def guard_order_def dedup_key_def dedup_get_now_def dedup_get_def
      read_clock_def try_reserve_def dispatch_reserved_def dispatch_once_def preflight_request_def
      reject_world_def sample_env_def seed_token_def sample_inner_def inner_new_def with_default_ttl_def
      dedup_new_def rate_wait_def get_or_refresh_def cached_token_def read_utc_def is_expiring_soon_def
      sample_token_def send_and_classify_def send_def is_success_def classify_body_def jget_str_def
      jget_def inject_headers_def jset_def as_str_def classify_order_rsp_cd_def
      rsp_cd_is_order_success_def release_def api_count_def)

theorem placed_nothing_is_proven_witness:
  "\<exists>w' toks rq. post_order reject_world (sample_codec Some) sample_policy ''buy 1'' (seed_token sample_token sample_inner)
      = (Some (Inl (ApiError ''40510'' [])), w') \<and> sent w' = toks @ [rq] \<and> refused_for_sure (gateway reject_world toks rq)"
proof -
  let ?w = "seed_token sample_token sample_inner"
  obtain w' where w': "post_order reject_world (sample_codec Some) sample_policy ''buy 1'' ?w
      = (Some (Inl (ApiError ''40510'' [])), w')" "api_count w' = 1"
    using reject_place by blast
  have s: "sent ?w = []" by (simp add: seed_token_def sample_inner_def inner_new_def)
  then have "filter is_api (sent w') \<noteq> filter is_api (sent ?w)" using w'(2) by (auto simp: api_count_def)
  with placed_nothing_is_proven [OF w'(1)] w'(1) s show ?thesis by auto
qed

end
