(* ===== verification/Order_Chain.thy ===== *)
theory Order_Chain
  imports Prelude
begin

text \<open>
  \<open>adapters/nautilus/src/orders/chain.rs\<close>: the map between a client order id and the chain of
  order numbers the exchange gave it, and the contract the fill ledger needs of such a map.
\<close>

section \<open>The contract\<close>

text \<open>
  An index from numbers to owners that remembers each owner's numbers: \<open>own\<close> looks an owner up,
  \<open>nums\<close> lists an owner's numbers, \<open>add\<close> gives a number to an owner (taking it from any other),
  \<open>drop\<close> forgets an owner.
\<close>

locale ordno_index =
  fixes ok :: "'s \<Rightarrow> bool"
    and own :: "'s \<Rightarrow> 'o \<Rightarrow> 'c option"
    and nums :: "'s \<Rightarrow> 'c \<Rightarrow> 'o list"
    and add :: "'s \<Rightarrow> 'c \<Rightarrow> 'o \<Rightarrow> 's"
    and drop :: "'s \<Rightarrow> 'c \<Rightarrow> 's"
  assumes ok_add: "ok s \<Longrightarrow> ok (add s c x)"
    and ok_drop: "ok s \<Longrightarrow> ok (drop s c)"
    and own_nums: "ok s \<Longrightarrow> own s x = Some c \<Longrightarrow> x \<in> set (nums s c)"
    and own_add: "own (add s c x) y = (if y = x then Some c else own s y)"
    and own_drop: "ok s \<Longrightarrow> own (drop s c) y = (if y \<in> set (nums s c) then None else own s y)"
    and nums_add: "nums (add s c x) d = (if d = c then nums s c @ [x] else nums s d)"
begin

lemma own_drop_self: "ok s \<Longrightarrow> own (drop s c) x \<noteq> Some c"
  using own_nums by (auto simp: own_drop)

lemma own_drop_other: "ok s \<Longrightarrow> own (drop s c) x = Some d \<Longrightarrow> own s x = Some d \<and> d \<noteq> c"
  using own_drop_self [of s c x] by (auto simp: own_drop split: if_splits)

fun adds :: "'s \<Rightarrow> 'c \<Rightarrow> 'o list \<Rightarrow> 's" where
  "adds s c [] = s"
| "adds s c (x # xs) = adds (add s c x) c xs"

lemma ok_adds: "ok s \<Longrightarrow> ok (adds s c xs)"
  by (induction s c xs rule: adds.induct) (simp_all add: ok_add)

lemma own_adds: "own (adds s c xs) y = (if y \<in> set xs then Some c else own s y)"
  by (induction s c xs rule: adds.induct) (simp_all add: own_add)

lemma nums_adds: "nums (adds s c xs) c = nums s c @ xs"
  by (induction s c xs rule: adds.induct) (simp_all add: nums_add)

lemma forget_frees: "ok s \<Longrightarrow> y \<in> set xs \<Longrightarrow> own (drop (adds s c xs) c) y = None"
  by (simp add: own_drop ok_adds nums_adds)

end

section \<open>The model\<close>

record order_chain =
  by_client :: "(string \<times> string list) list"
  by_ordno :: "(string \<times> string) list"

definition chain_new :: order_chain where
  "chain_new = \<lparr>by_client = [], by_ordno = []\<rparr>"

definition chain_of :: "order_chain \<Rightarrow> string \<Rightarrow> string list option" where
  "chain_of ch client = map_of (by_client ch) client"

definition chain_register :: "order_chain \<Rightarrow> string \<Rightarrow> string \<Rightarrow> order_chain" where
  "chain_register ch client ord_no =
     (let ords = (case map_of (by_client ch) client of None \<Rightarrow> [] | Some os \<Rightarrow> os)
      in ch\<lparr>by_client := AList.update client (ords @ [ord_no]) (by_client ch),
            by_ordno := AList.update ord_no client (by_ordno ch)\<rparr>)"

definition chain_resolve :: "order_chain \<Rightarrow> string \<Rightarrow> string option" where
  "chain_resolve ch ord_no = map_of (by_ordno ch) ord_no"

definition chain_append_child :: "order_chain \<Rightarrow> string \<Rightarrow> string \<Rightarrow> bool \<times> order_chain" where
  "chain_append_child ch parent_ord_no new_ord_no =
     (case map_of (by_ordno ch) parent_ord_no of
        Some client \<Rightarrow>
          (let ords = (case map_of (by_client ch) client of None \<Rightarrow> [] | Some os \<Rightarrow> os)
           in (True, ch\<lparr>by_client := AList.update client (ords @ [new_ord_no]) (by_client ch),
                 by_ordno := AList.update new_ord_no client (by_ordno ch)\<rparr>))
      | None \<Rightarrow> (False, ch))"

definition chain_forget :: "order_chain \<Rightarrow> string \<Rightarrow> order_chain" where
  "chain_forget ch client =
     (case map_of (by_client ch) client of
        Some ords \<Rightarrow> ch\<lparr>by_client := AList.delete client (by_client ch),
          by_ordno := foldl (\<lambda>m ord_no. AList.delete ord_no m) (by_ordno ch) ords\<rparr>
      | None \<Rightarrow> ch)"

section \<open>The model keeps the contract\<close>

definition chain_ords :: "order_chain \<Rightarrow> string \<Rightarrow> string list" where
  "chain_ords ch client = (case chain_of ch client of None \<Rightarrow> [] | Some os \<Rightarrow> os)"

definition chain_ok :: "order_chain \<Rightarrow> bool" where
  "chain_ok ch \<longleftrightarrow> wf_map (by_client ch) \<and> wf_map (by_ordno ch) \<and>
     (\<forall>x c. chain_resolve ch x = Some c \<longrightarrow> x \<in> set (chain_ords ch c))"

lemma chain_append_child_register:
  "chain_append_child ch parent x =
     (case chain_resolve ch parent of Some c \<Rightarrow> (True, chain_register ch c x) | None \<Rightarrow> (False, ch))"
  by (simp add: chain_append_child_def chain_resolve_def chain_register_def split: option.split)

lemma map_of_delete_all:
  "map_of (foldl (\<lambda>m x. AList.delete x m) m xs) y = (if y \<in> set xs then None else map_of m y)"
  by (induction xs arbitrary: m) auto

lemma wf_map_delete_all: "wf_map m \<Longrightarrow> wf_map (foldl (\<lambda>m x. AList.delete x m) m xs)"
  by (induction xs arbitrary: m) (auto simp: distinct_delete)

lemma chain_ords_register:
  "chain_ords (chain_register ch c x) d = (if d = c then chain_ords ch c @ [x] else chain_ords ch d)"
  by (simp add: chain_ords_def chain_of_def chain_register_def Let_def)

lemma chain_resolve_register:
  "chain_resolve (chain_register ch c x) y = (if y = x then Some c else chain_resolve ch y)"
  by (simp add: chain_resolve_def chain_register_def Let_def)

lemma chain_forget_resolve:
  "chain_resolve (chain_forget ch c) y = (if y \<in> set (chain_ords ch c) then None else chain_resolve ch y)"
  by (simp add: chain_resolve_def chain_forget_def chain_ords_def chain_of_def map_of_delete_all
      split: option.split)

lemma chain_forget_ords:
  "chain_ords (chain_forget ch c) d = (if d = c then [] else chain_ords ch d)"
  by (auto simp: chain_ords_def chain_forget_def chain_of_def split: option.split)

lemma chain_ok_register: "chain_ok ch \<Longrightarrow> chain_ok (chain_register ch c x)"
  by (simp add: chain_ok_def chain_resolve_register chain_ords_register)
    (simp add: chain_register_def Let_def)

lemma chain_ok_forget: "chain_ok ch \<Longrightarrow> chain_ok (chain_forget ch c)"
  by (auto simp: chain_ok_def chain_forget_resolve chain_forget_ords)
    (auto simp: chain_forget_def wf_map_delete_all distinct_delete split: option.split)

lemma chain_ok_new [simp]: "chain_ok chain_new"
  by (simp add: chain_ok_def chain_new_def chain_resolve_def)

interpretation oc: ordno_index chain_ok chain_resolve chain_ords chain_register chain_forget
  by unfold_locales
    (auto simp: chain_ok_register chain_ok_forget chain_resolve_register chain_forget_resolve
      chain_ords_register, simp add: chain_ok_def)

text \<open>
  Every number of an order's chain leads back to the order, and forgetting the order frees all
  of them and no others: after any numbers were registered for a client, each resolves to it; after
  the client is forgotten none does, and a number outside its chain still resolves as before.
\<close>

theorem chain_resolves_until_forgotten:
  assumes "chain_ok ch"
  shows "(\<forall>x. chain_resolve (oc.adds ch c xs) x = (if x \<in> set xs then Some c else chain_resolve ch x)) \<and>
    (\<forall>x. chain_resolve (chain_forget (oc.adds ch c xs) c) x =
       (if x \<in> set (chain_ords ch c @ xs) then None else chain_resolve ch x))"
  by (auto simp: oc.own_adds oc.own_drop [OF oc.ok_adds [OF assms]] oc.nums_adds)

theorem chain_resolves_until_forgotten_witness:
  "chain_resolve (oc.adds chain_new ''c1'' [''10'', ''11'']) ''11'' = Some ''c1''"
  using chain_resolves_until_forgotten [OF chain_ok_new, of "''c1''" "[''10'', ''11'']"] by simp

end
