(* ===== verification/Krx_Rules.thy ===== *)
theory Krx_Rules
  imports Ls_Error "HOL-Library.Product_Lexorder"
begin

text \<open>
  \<open>adapters/nautilus/src/rules.rs\<close>: the KRX tick-size ladders of both regimes, the session
  close, rounding to the tick grid, and the pricing of a marketable limit order for the closing
  auction.
\<close>

section \<open>Dates, times, markets and regimes\<close>

text \<open>A \<open>NaiveDate\<close> compares as (year, month, day); a \<open>NaiveTime\<close> is its second of the day.\<close>

type_synonym naive_date = "int \<times> nat \<times> nat"

definition hms :: "nat \<Rightarrow> nat \<Rightarrow> nat \<Rightarrow> nat" where
  "hms h m s = 3600 * h + 60 * m + s"

definition TICK_REFORM_DATE :: naive_date where "TICK_REFORM_DATE = (2023, 1, 25)"
definition CLOSE_REFORM_DATE :: naive_date where "CLOSE_REFORM_DATE = (2016, 8, 1)"
definition KRX_REGULAR_CLOSE :: nat where "KRX_REGULAR_CLOSE = hms 15 30 0"
definition KRX_REGULAR_CLOSE_PRE_2016 :: nat where "KRX_REGULAR_CLOSE_PRE_2016 = hms 15 0 0"

datatype market = Kospi | Kosdaq

definition market_from_gubun :: "string \<Rightarrow> market" where
  "market_from_gubun gubun = (if trim gubun = ''2'' then Kosdaq else Kospi)"

fun market_as_str :: "market \<Rightarrow> string" where
  "market_as_str Kospi = ''KOSPI''"
| "market_as_str Kosdaq = ''KOSDAQ''"

datatype tick_regime = Pre2023 | Post2023

definition tick_regime_for_date :: "naive_date \<Rightarrow> tick_regime" where
  "tick_regime_for_date date = (if TICK_REFORM_DATE \<le> date then Post2023 else Pre2023)"

fun tick_regime_as_str :: "tick_regime \<Rightarrow> string" where
  "tick_regime_as_str Pre2023 = ''pre_2023''"
| "tick_regime_as_str Post2023 = ''post_2023''"

datatype session_regime = Pre2016 | Post2016

definition session_regime_for_date :: "naive_date \<Rightarrow> session_regime" where
  "session_regime_for_date date = (if CLOSE_REFORM_DATE \<le> date then Post2016 else Pre2016)"

fun regular_close :: "session_regime \<Rightarrow> nat" where
  "regular_close Pre2016 = KRX_REGULAR_CLOSE_PRE_2016"
| "regular_close Post2016 = KRX_REGULAR_CLOSE"

section \<open>Tick ladders\<close>

record band =
  upper_exclusive :: "int option"
  tick :: int

definition band_upto :: "int \<Rightarrow> int \<Rightarrow> band" where
  "band_upto u t = \<lparr>upper_exclusive = Some u, tick = t\<rparr>"

definition band_rest :: "int \<Rightarrow> band" where
  "band_rest t = \<lparr>upper_exclusive = None, tick = t\<rparr>"

definition POST_2023 :: "band list" where
  "POST_2023 =
     [band_upto 2000 1, band_upto 5000 5, band_upto 20000 10, band_upto 50000 50,
      band_upto 200000 100, band_upto 500000 500, band_rest 1000]"

definition PRE_2023_KOSPI :: "band list" where
  "PRE_2023_KOSPI =
     [band_upto 1000 1, band_upto 5000 5, band_upto 10000 10, band_upto 50000 50,
      band_upto 100000 100, band_upto 500000 500, band_rest 1000]"

definition PRE_2023_KOSDAQ :: "band list" where
  "PRE_2023_KOSDAQ =
     [band_upto 1000 1, band_upto 5000 5, band_upto 10000 10, band_upto 50000 50, band_rest 100]"

definition ladder :: "market \<Rightarrow> tick_regime \<Rightarrow> band list" where
  "ladder m regime =
     (case regime of
        Post2023 \<Rightarrow> POST_2023
      | Pre2023 \<Rightarrow> (case m of Kospi \<Rightarrow> PRE_2023_KOSPI | Kosdaq \<Rightarrow> PRE_2023_KOSDAQ))"

fun scan_bands :: "band list \<Rightarrow> int \<Rightarrow> int option" where
  "scan_bands [] price = None"
| "scan_bands (b # bs) price =
     (case upper_exclusive b of
        Some upper \<Rightarrow> if price < upper then Some (tick b) else scan_bands bs price
      | None \<Rightarrow> Some (tick b))"

definition tick_size :: "market \<Rightarrow> tick_regime \<Rightarrow> int \<Rightarrow> adapter_error + int" where
  "tick_size m regime price =
     (let err = NoTickBand price (market_as_str m) (tick_regime_as_str regime)
      in if price < 0 then Inl err
         else case scan_bands (ladder m regime) price of Some t \<Rightarrow> Inr t | None \<Rightarrow> Inl err)"

section \<open>Rounding\<close>

text \<open>\<open>rem_euclid\<close> by a positive tick is HOL's \<open>mod\<close>.\<close>

definition round_down_to_tick :: "market \<Rightarrow> tick_regime \<Rightarrow> int \<Rightarrow> adapter_error + int" where
  "round_down_to_tick m regime price =
     bind_res (tick_size m regime price) (\<lambda>tick. Inr (wrap64 (price - price mod tick)))"

definition round_up_to_tick :: "market \<Rightarrow> tick_regime \<Rightarrow> int \<Rightarrow> adapter_error + int" where
  "round_up_to_tick m regime price =
     bind_res (tick_size m regime price) (\<lambda>tick.
       let r = price mod tick;
           up = (if r = 0 then price else wrap64 (price + (tick - r)))
       in bind_res (tick_size m regime up) (\<lambda>tick_up.
            let rem_up = up mod tick_up
            in Inr (if rem_up = 0 then up else wrap64 (up + (tick_up - rem_up)))))"

section \<open>The marketable limit\<close>

text \<open>\<open>OrderSide\<close> of the nautilus model crate, whose third value the source refuses.\<close>

datatype order_side = Buy | Sell | NoOrderSide

record price_band =
  pb_lower :: int
  pb_upper :: int

definition saturate64 :: "int \<Rightarrow> int" where
  "saturate64 x = max i64_min (min i64_max x)"

definition clamp_to_band :: "int \<Rightarrow> price_band \<Rightarrow> int" where
  "clamp_to_band x band =
     (if x < pb_lower band then pb_lower band
      else if x > pb_upper band then pb_upper band else x)"

definition marketable_limit ::
    "market \<Rightarrow> tick_regime \<Rightarrow> int \<Rightarrow> order_side \<Rightarrow> int \<Rightarrow> price_band \<Rightarrow> adapter_error + int" where
  "marketable_limit m regime last_px side k band =
     (if last_px \<le> 0 then Inl (AdapterConfig ''last price must be positive'')
      else if k < 0 then Inl (AdapterConfig ''tick offset k must be >= 0'')
      else if pb_lower band \<le> 0 \<or> pb_upper band < pb_lower band
        then Inl (AdapterConfig ''invalid daily price band'')
      else bind_res (tick_size m regime last_px) (\<lambda>tick.
        bind_res (case side of
            Buy \<Rightarrow> Inr (saturate64 (last_px + saturate64 (k * tick)))
          | Sell \<Rightarrow> Inr (max (saturate64 (last_px - saturate64 (k * tick))) 1)
          | NoOrderSide \<Rightarrow> Inl (AdapterConfig ''unsupported order side'')) (\<lambda>stepped.
        bind_res (case side of
            Buy \<Rightarrow> round_up_to_tick m regime stepped
          | _ \<Rightarrow> round_down_to_tick m regime stepped) (\<lambda>snapped.
        let clamped = clamp_to_band snapped band
        in bind_res (case side of
            Buy \<Rightarrow> round_down_to_tick m regime clamped
          | _ \<Rightarrow> round_up_to_tick m regime clamped) (\<lambda>priced.
        if priced \<le> 0 then Inl (AdapterConfig ''refusing a non-positive limit'')
        else Inr priced)))))"

section \<open>Lemmas about the grid\<close>

lemmas ladder_defs = ladder_def POST_2023_def PRE_2023_KOSPI_def PRE_2023_KOSDAQ_def
  band_upto_def band_rest_def

lemma scan_ladder:
  "scan_bands (ladder m regime) p =
     Some (case regime of
         Post2023 \<Rightarrow> if p < 2000 then 1 else if p < 5000 then 5 else if p < 20000 then 10
           else if p < 50000 then 50 else if p < 200000 then 100 else if p < 500000 then 500
           else 1000
       | Pre2023 \<Rightarrow> (case m of
           Kospi \<Rightarrow> if p < 1000 then 1 else if p < 5000 then 5 else if p < 10000 then 10
             else if p < 50000 then 50 else if p < 100000 then 100 else if p < 500000 then 500
             else 1000
         | Kosdaq \<Rightarrow> if p < 1000 then 1 else if p < 5000 then 5 else if p < 10000 then 10
             else if p < 50000 then 50 else 100))"
  by (cases regime; cases m) (simp_all add: ladder_defs)

definition tick_at :: "market \<Rightarrow> tick_regime \<Rightarrow> int \<Rightarrow> int" where
  "tick_at m regime p = the (scan_bands (ladder m regime) p)"

lemma tick_size_eq:
  "tick_size m regime p =
     (if p < 0 then Inl (NoTickBand p (market_as_str m) (tick_regime_as_str regime))
      else Inr (tick_at m regime p))"
  by (simp add: tick_size_def tick_at_def scan_ladder Let_def)

text \<open>A price sits on the grid when it is a multiple of the tick of its own band.\<close>

definition on_grid :: "market \<Rightarrow> tick_regime \<Rightarrow> int \<Rightarrow> bool" where
  "on_grid m regime p = (0 \<le> p \<and> p mod tick_at m regime p = 0)"

lemma tick_at_values: "tick_at m regime p \<in> {1, 5, 10, 50, 100, 500, 1000}"
  by (cases regime; cases m) (simp_all add: tick_at_def scan_ladder)

lemma tick_at_pos: "0 < tick_at m regime p" "tick_at m regime p \<le> 1000"
  using tick_at_values [of m regime p] by auto

text \<open>
  Where the band of a price starts. Three facts carry every rounding proof: the ticks of a ladder
  form a divisibility chain, a band starts on a multiple of its own tick, and the tick is constant
  from the start of the band to the price.
\<close>

definition band_start :: "market \<Rightarrow> tick_regime \<Rightarrow> int \<Rightarrow> int" where
  "band_start m regime p =
     (case regime of
         Post2023 \<Rightarrow> if p < 2000 then 0 else if p < 5000 then 2000 else if p < 20000 then 5000
           else if p < 50000 then 20000 else if p < 200000 then 50000
           else if p < 500000 then 200000 else 500000
       | Pre2023 \<Rightarrow> (case m of
           Kospi \<Rightarrow> if p < 1000 then 0 else if p < 5000 then 1000 else if p < 10000 then 5000
             else if p < 50000 then 10000 else if p < 100000 then 50000
             else if p < 500000 then 100000 else 500000
         | Kosdaq \<Rightarrow> if p < 1000 then 0 else if p < 5000 then 1000 else if p < 10000 then 5000
             else if p < 50000 then 10000 else 50000))"

lemma tick_dvd_mono: "p \<le> q \<Longrightarrow> tick_at m regime p dvd tick_at m regime q"
  unfolding tick_at_def scan_ladder option.sel by (cases regime; cases m) auto

lemma band_start_le: "0 \<le> p \<Longrightarrow> band_start m regime p \<le> p"
  unfolding band_start_def by (cases regime; cases m) auto

lemma band_start_nonneg: "0 \<le> band_start m regime p"
  unfolding band_start_def by (cases regime; cases m) auto

lemma band_start_dvd: "tick_at m regime p dvd band_start m regime p"
  unfolding band_start_def tick_at_def scan_ladder option.sel by (cases regime; cases m) auto

lemma band_same_tick:
  "band_start m regime p \<le> q \<Longrightarrow> q \<le> p \<Longrightarrow> tick_at m regime q = tick_at m regime p"
  unfolding band_start_def tick_at_def scan_ladder option.sel
  by (cases regime; cases m) (auto split: if_splits)

lemma multiple_le_floor:
  assumes "0 < (t::int)" "t dvd b" "b \<le> p"
  shows "b \<le> p - p mod t"
proof -
  obtain k where k: "b = t * k" using assms(2) by (elim dvdE)
  have "p - p mod t = t * (p div t)" by (simp add: minus_mod_eq_mult_div)
  moreover have "k \<le> p div t"
    using zdiv_mono1 [OF assms(3,1)] assms(1) by (simp add: k)
  ultimately show ?thesis using assms(1) k by simp
qed

lemma ceil_le_multiple:
  assumes "0 < (t::int)" "t dvd b" "p \<le> b"
  shows "(if p mod t = 0 then p else p + (t - p mod t)) \<le> b"
proof (cases "p mod t = 0")
  case False
  have m: "0 \<le> p mod t" "p mod t < t" using assms(1) by simp_all
  obtain k where k: "b = t * k" using assms(2) by (elim dvdE)
  have p: "p = t * (p div t) + p mod t" by simp
  have p': "t * (p div t) = p - p mod t" by (simp add: minus_mod_eq_mult_div)
  have "p div t < k"
  proof (rule ccontr)
    assume "\<not> ?thesis"
    then have "t * k \<le> t * (p div t)" using assms(1) by simp
    with p k assms(3) m False show False by linarith
  qed
  then have "t * (p div t + 1) \<le> t * k" using assms(1) by simp
  then have "p + (t - p mod t) \<le> b"
    unfolding k distrib_left p' by simp
  with False show ?thesis by simp
qed (use assms in simp)

lemma ceil_dvd: "0 < (t::int) \<Longrightarrow> t dvd (if p mod t = 0 then p else p + (t - p mod t))"
proof (cases "p mod t = 0")
  case False
  have "p + (t - p mod t) = (p - p mod t) + t" by simp
  then have "t dvd p + (t - p mod t)"
    by (metis dvd_add dvd_minus_mod dvd_refl)
  with False show ?thesis by simp
qed (simp add: dvd_eq_mod_eq_0)

definition floor_grid :: "market \<Rightarrow> tick_regime \<Rightarrow> int \<Rightarrow> int" where
  "floor_grid m regime p = p - p mod tick_at m regime p"

definition ceil_grid :: "market \<Rightarrow> tick_regime \<Rightarrow> int \<Rightarrow> int" where
  "ceil_grid m regime p =
     (let t = tick_at m regime p in if p mod t = 0 then p else p + (t - p mod t))"

lemma floor_grid_props:
  assumes "0 \<le> p"
  shows "on_grid m regime (floor_grid m regime p)" and "floor_grid m regime p \<le> p"
    and "p - floor_grid m regime p < tick_at m regime p"
    and "\<And>q. floor_grid m regime p < q \<Longrightarrow> q \<le> p \<Longrightarrow> \<not> on_grid m regime q"
proof -
  let ?t = "tick_at m regime p" and ?r = "floor_grid m regime p"
  have t: "0 < ?t" by (rule tick_at_pos)
  have s: "band_start m regime p \<le> ?r"
    unfolding floor_grid_def by (rule multiple_le_floor [OF t band_start_dvd band_start_le [OF assms]])
  show le: "?r \<le> p" using t by (simp add: floor_grid_def)
  show "p - ?r < ?t" using t by (simp add: floor_grid_def)
  have "0 \<le> ?r" using s band_start_nonneg order_trans by blast
  then show "on_grid m regime ?r"
    using band_same_tick [OF s le] by (simp add: on_grid_def floor_grid_def mod_simps)
  fix q assume q: "?r < q" "q \<le> p"
  then have "tick_at m regime q = ?t" using s by (intro band_same_tick) auto
  then show "\<not> on_grid m regime q"
    using multiple_le_floor [OF t, of q p] q by (auto simp: on_grid_def floor_grid_def dvd_eq_mod_eq_0)
qed

lemma ceil_grid_props:
  assumes "0 \<le> p"
  shows "on_grid m regime (ceil_grid m regime p)" and "p \<le> ceil_grid m regime p"
    and "ceil_grid m regime p < p + tick_at m regime p"
    and "\<And>q. p \<le> q \<Longrightarrow> q < ceil_grid m regime p \<Longrightarrow> \<not> on_grid m regime q"
proof -
  let ?t = "tick_at m regime p" and ?r = "ceil_grid m regime p"
  have t: "0 < ?t" by (rule tick_at_pos)
  have m: "0 \<le> p mod ?t" "p mod ?t < ?t" using t by simp_all
  then show le: "p \<le> ?r" and "?r < p + ?t"
    using t by (cases "p mod ?t = 0"; simp add: ceil_grid_def Let_def order.strict_iff_order)+
  have least: "?r \<le> b" if "?t dvd b" "p \<le> b" for b
    using ceil_le_multiple [OF t that] by (simp add: ceil_grid_def Let_def)
  have dvd: "?t dvd ?r" using ceil_dvd [OF t, of p] by (simp add: ceil_grid_def Let_def)
  have "tick_at m regime ?r dvd ?r"
  proof (cases "band_start m regime ?r \<le> p")
    case True
    then have "tick_at m regime p = tick_at m regime ?r" using le by (rule band_same_tick)
    with dvd show ?thesis by simp
  next
    case False
    have "?t dvd band_start m regime ?r"
      using tick_dvd_mono [OF le] band_start_dvd dvd_trans by blast
    then have "?r \<le> band_start m regime ?r" using False by (intro least) auto
    moreover have "band_start m regime ?r \<le> ?r" using le assms by (intro band_start_le) auto
    ultimately show ?thesis using band_start_dvd [of m regime ?r] by simp
  qed
  then show "on_grid m regime ?r"
    using le assms by (simp add: on_grid_def dvd_eq_mod_eq_0)
  fix q assume q: "p \<le> q" "q < ?r"
  show "\<not> on_grid m regime q"
  proof
    assume "on_grid m regime q"
    then have "tick_at m regime q dvd q" by (simp add: on_grid_def dvd_eq_mod_eq_0)
    then have "?t dvd q" using tick_dvd_mono [OF q(1)] dvd_trans by blast
    then show False using least q by fastforce
  qed
qed

text \<open>The two routines compute these, away from the top of the \<open>i64\<close> range.\<close>

lemma round_down_eq:
  "0 \<le> p \<Longrightarrow> p \<le> i64_max \<Longrightarrow> round_down_to_tick m regime p = Inr (floor_grid m regime p)"
  using floor_grid_props(1,2) [of p m regime]
  by (auto simp: round_down_to_tick_def tick_size_eq floor_grid_def on_grid_def i64_ok_def
      i64_min_def intro!: wrap64_id)

lemma round_up_eq:
  assumes "0 \<le> p" "p \<le> i64_max - 1000"
  shows "round_up_to_tick m regime p = Inr (ceil_grid m regime p)"
proof -
  let ?r = "ceil_grid m regime p"
  have le: "p \<le> ?r" "?r < p + tick_at m regime p" and g: "on_grid m regime ?r"
    using ceil_grid_props [OF assms(1)] by blast+
  then have ok: "i64_ok ?r"
    using assms tick_at_pos(2) [of m regime p] by (simp add: i64_ok_def i64_min_def)
  have up: "(if p mod tick_at m regime p = 0 then p
      else wrap64 (p + (tick_at m regime p - p mod tick_at m regime p))) = ?r"
    using ok by (auto simp: ceil_grid_def Let_def i64_simps)
  then show ?thesis
    using assms g le by (simp add: round_up_to_tick_def tick_size_eq Let_def on_grid_def)
qed

text \<open>Whatever \<open>round_up_to_tick\<close> returns is the least grid price, also near the top of the range.\<close>

definition up_step :: "market \<Rightarrow> tick_regime \<Rightarrow> int \<Rightarrow> int" where
  "up_step m regime p =
     (let t = tick_at m regime p
      in if p mod t = 0 then p else wrap64 (p + (t - p mod t)))"

lemma round_up_unfold:
  "0 \<le> p \<Longrightarrow> round_up_to_tick m regime p =
     (let up = up_step m regime p
      in if up < 0 then Inl (NoTickBand up (market_as_str m) (tick_regime_as_str regime))
         else Inr (if up mod tick_at m regime up = 0 then up
                   else wrap64 (up + (tick_at m regime up - up mod tick_at m regime up))))"
  by (simp add: round_up_to_tick_def tick_size_eq Let_def up_step_def)

lemma round_up_Inr:
  assumes "0 \<le> p" "p \<le> i64_max" "round_up_to_tick m regime p = Inr r"
  shows "r = ceil_grid m regime p"
proof -
  let ?t = "tick_at m regime p" and ?c = "ceil_grid m regime p"
  let ?up = "up_step m regime p"
  have nonneg: "0 \<le> ?up"
    and res: "r = (if ?up mod tick_at m regime ?up = 0 then ?up
      else wrap64 (?up + (tick_at m regime ?up - ?up mod tick_at m regime ?up)))"
    using assms by (auto simp: round_up_unfold Let_def split: if_splits)
  have le: "p \<le> ?c" "?c < p + ?t" and g: "on_grid m regime ?c"
    using ceil_grid_props [OF assms(1)] by blast+
  have "?up = ?c"
  proof (rule ccontr)
    assume ne: "?up \<noteq> ?c"
    then have u: "?up = wrap64 ?c" "\<not> i64_ok ?c"
      by (auto simp: up_step_def ceil_grid_def Let_def i64_simps split: if_splits)
    then have "i64_max < ?c" using le(1) assms(1) by (simp add: i64_ok_def i64_min_def)
    moreover have "?c \<le> i64_max + 1000" using le(2) assms(2) tick_at_pos(2) [of m regime p] by linarith
    ultimately have "wrap64 ?c < 0" by (rule wrap64_over)
    with u(1) nonneg show False by simp
  qed
  with res g show ?thesis by (simp add: on_grid_def)
qed

lemma on_grid_fixpoints:
  assumes "on_grid m regime p" "p \<le> i64_max"
  shows "floor_grid m regime p = p" and "ceil_grid m regime p = p"
  using assms by (simp_all add: on_grid_def floor_grid_def ceil_grid_def Let_def)

lemma clamp_on_grid:
  "on_grid m regime x \<Longrightarrow> on_grid m regime (pb_lower band) \<Longrightarrow> on_grid m regime (pb_upper band) \<Longrightarrow>
     on_grid m regime (clamp_to_band x band)"
  by (simp add: clamp_to_band_def)

section \<open>Properties\<close>

text \<open>
  Rounding down gives the greatest price of the tick grid at or below the input, although the
  code looks only at the tick of the input's own band.
\<close>

theorem round_down_greatest:
  assumes "0 \<le> p" and "i64_ok p"
  shows "\<exists>r. round_down_to_tick m regime p = Inr r \<and> on_grid m regime r \<and> r \<le> p \<and>
    (\<forall>q. on_grid m regime q \<and> q \<le> p \<longrightarrow> q \<le> r)"
proof -
  have "q \<le> floor_grid m regime p" if "on_grid m regime q" "q \<le> p" for q
    using floor_grid_props(4) [OF assms(1), of m regime q] that by force
  then show ?thesis
    using round_down_eq floor_grid_props(1,2) [OF assms(1)] assms by (auto simp: i64_ok_def)
qed

theorem round_down_greatest_witness:
  "\<exists>r. round_down_to_tick Kospi Post2023 50049 = Inr r \<and> on_grid Kospi Post2023 r \<and> r \<le> 50049 \<and>
    (\<forall>q. on_grid Kospi Post2023 q \<and> q \<le> 50049 \<longrightarrow> q \<le> r)"
  by (rule round_down_greatest) (simp_all add: i64_ok_def i64_min_def i64_max_def)

text \<open>
  Rounding up gives the least grid price at or above the input, also when the result lies in
  the next, coarser band: the second resolution in the code never has to move the price again.
\<close>

theorem round_up_least:
  assumes "0 \<le> p" and "p \<le> i64_max - 1000"
  shows "\<exists>r. round_up_to_tick m regime p = Inr r \<and> on_grid m regime r \<and> p \<le> r \<and>
    (\<forall>q. on_grid m regime q \<and> p \<le> q \<longrightarrow> r \<le> q)"
proof -
  have "ceil_grid m regime p \<le> q" if "on_grid m regime q" "p \<le> q" for q
    using ceil_grid_props(4) [OF assms(1), of q m regime] that by force
  then show ?thesis
    using round_up_eq [OF assms] ceil_grid_props(1,2) [OF assms(1)] by blast
qed

theorem round_up_least_witness:
  "\<exists>r. round_up_to_tick Kosdaq Post2023 49999 = Inr r \<and> on_grid Kosdaq Post2023 r \<and> 49999 \<le> r \<and>
    (\<forall>q. on_grid Kosdaq Post2023 q \<and> 49999 \<le> q \<longrightarrow> r \<le> q)"
  by (rule round_up_least) (simp_all add: i64_max_def)

text \<open>
  C37. A marketable limit priced against an on-grid daily band is on the tick grid, inside the band,
  and crosses: a buy is at least \<open>k\<close> ticks above the last price unless the upper limit stops it,
  a sell at least \<open>k\<close> ticks below unless the lower limit does.
\<close>

theorem marketable_limit_crosses:
  assumes priced: "marketable_limit m regime last_px side k band = Inr x"
    and grid: "on_grid m regime (pb_lower band)" "on_grid m regime (pb_upper band)"
    and range: "i64_ok last_px" "i64_ok k" "i64_ok (pb_upper band)"
  shows "on_grid m regime x \<and> pb_lower band \<le> x \<and> x \<le> pb_upper band \<and>
    (side = Buy \<longrightarrow> min (pb_upper band) (last_px + k * tick_at m regime last_px) \<le> x) \<and>
    (side = Sell \<longrightarrow> x \<le> max (pb_lower band) (last_px - k * tick_at m regime last_px))"
proof -
  let ?t = "tick_at m regime last_px"
  have pos: "0 < last_px" "0 \<le> k" "0 < pb_lower band" "pb_lower band \<le> pb_upper band"
    using priced by (auto simp: marketable_limit_def split: if_splits)
  have up: "pb_upper band \<le> i64_max" using range by (simp add: i64_ok_def)
  have kt: "0 \<le> k * ?t" using pos tick_at_pos(1) [of m regime last_px] by simp
  have clamp: "pb_lower band \<le> clamp_to_band y band" "clamp_to_band y band \<le> pb_upper band" for y
    using pos by (simp_all add: clamp_to_band_def)
  have sat: "saturate64 y = min i64_max y" if "0 \<le> y" for y
    using that by (simp add: saturate64_def i64_min_def i64_max_def)
  consider (buy) s where "side = Buy" "s = saturate64 (last_px + saturate64 (k * ?t))"
      "bind_res (round_up_to_tick m regime s)
        (\<lambda>y. round_down_to_tick m regime (clamp_to_band y band)) = Inr x"
    | (sell) s where "side = Sell" "s = max (saturate64 (last_px - saturate64 (k * ?t))) 1"
      "bind_res (round_down_to_tick m regime s)
        (\<lambda>y. round_up_to_tick m regime (clamp_to_band y band)) = Inr x"
    using priced pos
    by (cases side) (auto simp: marketable_limit_def tick_size_eq Let_def bind_res_def
        split: sum.splits if_splits)
  then show ?thesis
  proof cases
    case buy
    have s: "min i64_max (last_px + k * ?t) \<le> s" "0 \<le> s" "s \<le> i64_max"
      using kt pos range by (auto simp: buy(2) sat i64_max_def i64_ok_def)
    from buy(3) obtain y where y: "round_up_to_tick m regime s = Inr y"
      "round_down_to_tick m regime (clamp_to_band y band) = Inr x"
      by (auto simp: bind_res_def split: sum.splits)
    have yc: "y = ceil_grid m regime s" using round_up_Inr s y by blast
    have "on_grid m regime (clamp_to_band y band)"
      using clamp_on_grid [OF _ grid] ceil_grid_props(1) [OF s(2)] yc by simp
    then have "x = clamp_to_band y band"
      using y(2) round_down_eq [of "clamp_to_band y band"] on_grid_fixpoints clamp [of y] up
      by (fastforce simp: on_grid_def)
    moreover have "s \<le> y" using ceil_grid_props(2) [OF s(2)] yc by simp
    ultimately show ?thesis
      using clamp_on_grid [OF _ grid] ceil_grid_props(1) [OF s(2)] yc clamp [of y] s up buy(1)
      by (auto simp: clamp_to_band_def min_def split: if_splits)
  next
    case sell
    have s: "s \<le> max 1 (last_px - k * ?t)" "1 \<le> s" "s \<le> i64_max"
      using kt pos range by (auto simp: sell(2) sat saturate64_def i64_max_def i64_min_def i64_ok_def)
    from sell(3) obtain y where y: "round_down_to_tick m regime s = Inr y"
      "round_up_to_tick m regime (clamp_to_band y band) = Inr x"
      by (auto simp: bind_res_def split: sum.splits)
    have yf: "y = floor_grid m regime s" using round_down_eq s y by force
    have g: "on_grid m regime (clamp_to_band y band)"
      using clamp_on_grid [OF _ grid] floor_grid_props(1) [of s] s yf by simp
    then have "x = clamp_to_band y band"
      using round_up_Inr [OF _ _ y(2)] on_grid_fixpoints(2) clamp [of y] up
      by (force simp: on_grid_def)
    moreover have "y \<le> s" using floor_grid_props(2) [of s] s yf by simp
    ultimately show ?thesis
      using g clamp [of y] s pos sell(1)
      by (auto simp: clamp_to_band_def max_def split: if_splits)
  qed
qed

theorem marketable_limit_crosses_witness:
  "marketable_limit Kospi Post2023 49950 Buy 3 \<lparr>pb_lower = 35000, pb_upper = 65000\<rparr> = Inr 50100 \<and>
   on_grid Kospi Post2023 50100 \<and> 49950 + 3 * tick_at Kospi Post2023 49950 \<le> 50100"
proof -
  have p: "marketable_limit Kospi Post2023 49950 Buy 3 \<lparr>pb_lower = 35000, pb_upper = 65000\<rparr> = Inr 50100"
    by code_simp
  show ?thesis
    using marketable_limit_crosses [OF p] p
    by (simp add: on_grid_def tick_at_def scan_ladder i64_ok_def i64_min_def i64_max_def)
qed

text \<open>
  The last snap is not always inward: against a band whose lower limit is off the grid, a buy
  clamped to that limit is rounded down, and the order leaves the band it was clamped into.
\<close>

theorem marketable_limit_leaves_off_grid_band:
  "\<exists>last_px k band x. marketable_limit Kospi Post2023 last_px Buy k band = Inr x \<and>
     pb_lower band \<le> pb_upper band \<and> x < pb_lower band"
proof (intro exI conjI)
  let ?b = "\<lparr>pb_lower = 2003, pb_upper = 3000\<rparr>"
  show "marketable_limit Kospi Post2023 1000 Buy 1 ?b = Inr 2000"
    by code_simp
  show "pb_lower ?b \<le> pb_upper ?b" "2000 < pb_lower ?b" by simp_all
qed

text \<open>
  The 2023 reform refined the KOSPI ladder everywhere, and the KOSDAQ ladder exactly below
  200000 won, where the former 100-won cap is the finer tick.
\<close>

theorem reform_refines_ladder:
  "0 \<le> p \<Longrightarrow>
   (\<exists>t t'. tick_size m Post2023 p = Inr t \<and> tick_size m Pre2023 p = Inr t' \<and> t \<le> t') \<longleftrightarrow>
     m = Kospi \<or> p < 200000"
  by (cases m) (auto simp: tick_size_eq tick_at_def scan_ladder)

theorem reform_refines_ladder_witness:
  "\<not> (\<exists>t t'. tick_size Kosdaq Post2023 200000 = Inr t \<and> tick_size Kosdaq Pre2023 200000 = Inr t' \<and>
      t \<le> t')"
  using reform_refines_ladder [of 200000 Kosdaq] by simp

end
