(* ===== verification/Fill_Ledger.thy ===== *)
theory Fill_Ledger
  imports Order_Chain Krx_Rules
begin

text \<open>
  \<open>adapters/nautilus/src/orders/ledger.rs\<close>: the single point where the two fill sources, the
  \<open>t0425\<close> poll and the order-event lane, become executions to emit. Quantities and prices are
  \<open>i64\<close>. Of a nautilus order the ledger reads identity, symbol, side, quantity and price.
\<close>

section \<open>Observations and results\<close>

datatype fill_source = FromPoll | FromSc

record fill_observation =
  ob_source :: fill_source
  ob_ord_no :: string
  ob_qty :: int
  ob_price :: int
  ob_price_approximated :: bool
  ob_exec_no :: "string option"
  ob_symbol :: "string option"

definition obs_poll :: "string \<Rightarrow> int \<Rightarrow> int \<Rightarrow> bool \<Rightarrow> fill_observation" where
  "obs_poll ord_no cumulative_qty p approximated =
     \<lparr>ob_source = FromPoll, ob_ord_no = ord_no, ob_qty = cumulative_qty, ob_price = p,
      ob_price_approximated = approximated, ob_exec_no = None, ob_symbol = None\<rparr>"

definition obs_sc :: "string \<Rightarrow> int \<Rightarrow> int \<Rightarrow> string \<Rightarrow> fill_observation" where
  "obs_sc ord_no exec_qty exec_price exec_no =
     \<lparr>ob_source = FromSc, ob_ord_no = ord_no, ob_qty = exec_qty, ob_price = exec_price,
      ob_price_approximated = False, ob_exec_no = Some exec_no, ob_symbol = None\<rparr>"

definition with_symbol :: "string option \<Rightarrow> fill_observation \<Rightarrow> fill_observation" where
  "with_symbol s obs = obs\<lparr>ob_symbol := s\<rparr>"

record fill_delta =
  fd_client :: string
  fd_ord_no :: string
  fd_qty :: int
  fd_price :: int
  fd_price_approximated :: bool
  fd_trade_id :: string
  fd_terminal :: bool

record ledger_fill =
  lf_symbol :: string
  lf_side :: order_side
  lf_qty :: int
  lf_price :: int
  lf_price_approximated :: bool
  lf_trade_id :: string
  lf_observed_ns :: nat

record apply_outcome =
  ao_deltas :: "fill_delta list"
  ao_reconcile_needed :: bool

definition outcome_none :: apply_outcome where
  "outcome_none = \<lparr>ao_deltas = [], ao_reconcile_needed = False\<rparr>"

definition outcome_reconcile :: apply_outcome where
  "outcome_reconcile = \<lparr>ao_deltas = [], ao_reconcile_needed = True\<rparr>"

section \<open>State\<close>

record ordno_state =
  watermark :: int
  sc_cumulative :: int

definition ordno_default :: ordno_state where
  "ordno_default = \<lparr>watermark = 0, sc_cumulative = 0\<rparr>"

record order_any =
  oa_client :: string
  oa_symbol :: string
  oa_side :: order_side
  oa_quantity :: int
  oa_price :: "int option"

record ledger_entry =
  en_order :: order_any
  en_symbol :: string
  en_side :: order_side
  en_order_qty :: int
  en_limit_price :: int
  en_per_ordno :: "(string \<times> ordno_state) list"
  en_seen_execnos :: "string set"
  en_terminal :: bool

definition chain_total :: "ledger_entry \<Rightarrow> int" where
  "chain_total en = wrap64 (sum_list (map (\<lambda>(_, st). watermark st) (en_per_ordno en)))"

record recon_candidate =
  rc_client :: string
  rc_symbol :: string
  rc_side :: order_side
  rc_qty :: int
  rc_price :: int

record fill_ledger =
  chain :: order_chain
  entries :: "(string \<times> ledger_entry) list"
  pending_reconcile :: "string set"
  fills :: "ledger_fill list"

definition ledger_new :: fill_ledger where
  "ledger_new = \<lparr>chain = chain_new, entries = [], pending_reconcile = {}, fills = []\<rparr>"

section \<open>Registration and chaining\<close>

definition ledger_register :: "order_any \<Rightarrow> string \<Rightarrow> fill_ledger \<Rightarrow> fill_ledger" where
  "ledger_register ord ord_no l =
     l\<lparr>chain := chain_register (chain l) (oa_client ord) ord_no,
       entries := AList.update (oa_client ord)
         \<lparr>en_order = ord, en_symbol = oa_symbol ord, en_side = oa_side ord,
          en_order_qty = oa_quantity ord,
          en_limit_price = (case oa_price ord of Some p \<Rightarrow> p | None \<Rightarrow> 0),
          en_per_ordno = [(ord_no, ordno_default)], en_seen_execnos = {}, en_terminal = False\<rparr>
         (entries l)\<rparr>"

text \<open>\<open>entry(..).or_default()\<close> on a map.\<close>

definition or_default :: "string \<Rightarrow> (string \<times> ordno_state) list \<Rightarrow> (string \<times> ordno_state) list" where
  "or_default k m = (case map_of m k of None \<Rightarrow> AList.update k ordno_default m | Some _ \<Rightarrow> m)"

definition open_ordno :: "string \<Rightarrow> string \<Rightarrow> fill_ledger \<Rightarrow> fill_ledger" where
  "open_ordno client ord_no l =
     (case map_of (entries l) client of
        Some en \<Rightarrow> l\<lparr>entries := AList.update client
          (en\<lparr>en_per_ordno := or_default ord_no (en_per_ordno en)\<rparr>) (entries l)\<rparr>
      | None \<Rightarrow> l)"

definition ledger_append_child :: "string \<Rightarrow> string \<Rightarrow> fill_ledger \<Rightarrow> bool \<times> fill_ledger" where
  "ledger_append_child parent_ord_no new_ord_no l =
     (case chain_append_child (chain l) parent_ord_no new_ord_no of
        (True, ch) \<Rightarrow>
          (let l1 = l\<lparr>chain := ch\<rparr>
           in (True, case chain_resolve ch new_ord_no of
                 Some client \<Rightarrow> open_ordno client new_ord_no l1
               | None \<Rightarrow> l1))
      | (False, ch) \<Rightarrow> (False, l\<lparr>chain := ch\<rparr>))"

definition ledger_adopt :: "string \<Rightarrow> string \<Rightarrow> fill_ledger \<Rightarrow> bool \<times> fill_ledger" where
  "ledger_adopt ord_no known_ord_no l =
     (case chain_resolve (chain l) known_ord_no of
        Some client \<Rightarrow>
          (True, open_ordno client ord_no (l\<lparr>chain := chain_register (chain l) client ord_no\<rparr>))
      | None \<Rightarrow> (False, l))"

definition ledger_adopt_for_client :: "string \<Rightarrow> string \<Rightarrow> fill_ledger \<Rightarrow> bool \<times> fill_ledger" where
  "ledger_adopt_for_client ord_no client l =
     (if map_of (entries l) client = None then (False, l)
      else (True, open_ordno client ord_no (l\<lparr>chain := chain_register (chain l) client ord_no\<rparr>)))"

definition ledger_resolve :: "fill_ledger \<Rightarrow> string \<Rightarrow> string option" where
  "ledger_resolve l ord_no = chain_resolve (chain l) ord_no"

definition latest_ord_no :: "fill_ledger \<Rightarrow> string \<Rightarrow> string option" where
  "latest_ord_no l client =
     (case chain_of (chain l) client of
        None \<Rightarrow> None
      | Some ords \<Rightarrow> if ords = [] then None else Some (last ords))"

definition note_modify :: "string \<Rightarrow> int \<Rightarrow> int \<Rightarrow> fill_ledger \<Rightarrow> fill_ledger" where
  "note_modify client new_qty new_price l =
     (case map_of (entries l) client of
        Some en \<Rightarrow> l\<lparr>entries := AList.update client
          (en\<lparr>en_order_qty := new_qty, en_limit_price := new_price\<rparr>) (entries l)\<rparr>
      | None \<Rightarrow> l)"

definition ledger_close :: "string \<Rightarrow> fill_ledger \<Rightarrow> fill_ledger" where
  "ledger_close client l =
     (let l1 = (case map_of (entries l) client of
            Some en \<Rightarrow> l\<lparr>entries := AList.update client (en\<lparr>en_terminal := True\<rparr>) (entries l)\<rparr>
          | None \<Rightarrow> l)
      in l1\<lparr>chain := chain_forget (chain l1) client\<rparr>)"

section \<open>Queries\<close>

definition ledger_order :: "fill_ledger \<Rightarrow> string \<Rightarrow> order_any option" where
  "ledger_order l client = map_option en_order (map_of (entries l) client)"

definition has_open_orders :: "fill_ledger \<Rightarrow> bool" where
  "has_open_orders l = list_ex (\<lambda>(_, en). \<not> en_terminal en) (entries l)"

definition open_symbols :: "fill_ledger \<Rightarrow> string list" where
  "open_symbols l =
     remdups_adj (sort (map (\<lambda>(_, en). en_symbol en) (filter (\<lambda>(_, en). \<not> en_terminal en) (entries l))))"

definition limit_price :: "fill_ledger \<Rightarrow> string \<Rightarrow> int option" where
  "limit_price l client = map_option en_limit_price (map_of (entries l) client)"

definition order_qty :: "fill_ledger \<Rightarrow> string \<Rightarrow> int option" where
  "order_qty l client = map_option en_order_qty (map_of (entries l) client)"

definition remaining_qty :: "fill_ledger \<Rightarrow> string \<Rightarrow> int option" where
  "remaining_qty l client =
     map_option (\<lambda>en. max 0 (wrap64 (en_order_qty en - chain_total en))) (map_of (entries l) client)"

definition open_recon_candidates :: "fill_ledger \<Rightarrow> recon_candidate list" where
  "open_recon_candidates l =
     map (\<lambda>(client, en). \<lparr>rc_client = client, rc_symbol = en_symbol en, rc_side = en_side en,
            rc_qty = en_order_qty en, rc_price = en_limit_price en\<rparr>)
       (filter (\<lambda>(client, en). \<not> en_terminal en \<and>
          (case chain_of (chain l) client of
             None \<Rightarrow> False
           | Some c \<Rightarrow> c \<noteq> [] \<and> list_all (\<lambda>x. starts_with x ''RECON-'') c)) (entries l))"

section \<open>Symbols owed a reconcile scan\<close>

definition record_pending_symbol :: "string \<Rightarrow> fill_ledger \<Rightarrow> fill_ledger" where
  "record_pending_symbol symbol l =
     (let s = trim symbol
      in if s \<noteq> [] then l\<lparr>pending_reconcile := insert s (pending_reconcile l)\<rparr> else l)"

definition has_pending :: "fill_ledger \<Rightarrow> bool" where
  "has_pending l = (pending_reconcile l \<noteq> {})"

definition take_pending_symbols :: "fill_ledger \<Rightarrow> string list \<times> fill_ledger" where
  "take_pending_symbols l = (sorted_list_of_set (pending_reconcile l), l\<lparr>pending_reconcile := {}\<rparr>)"

definition reinsert_pending_symbols :: "string list \<Rightarrow> fill_ledger \<Rightarrow> fill_ledger" where
  "reinsert_pending_symbols symbols l = foldl (\<lambda>l s. record_pending_symbol s l) l symbols"

definition note_unknown_symbol :: "fill_observation \<Rightarrow> fill_ledger \<Rightarrow> fill_ledger" where
  "note_unknown_symbol obs l =
     (if ob_source obs = FromSc
      then (case ob_symbol obs of Some s \<Rightarrow> record_pending_symbol s l | None \<Rightarrow> l)
      else l)"

definition seed_fill :: "ledger_fill \<Rightarrow> fill_ledger \<Rightarrow> fill_ledger" where
  "seed_fill f l = l\<lparr>fills := fills l @ [f]\<rparr>"

section \<open>Applying an observation\<close>

definition put_entry :: "string \<Rightarrow> ledger_entry \<Rightarrow> fill_ledger \<Rightarrow> fill_ledger" where
  "put_entry client en l = l\<lparr>entries := AList.update client en (entries l)\<rparr>"

definition ordno_of :: "ledger_entry \<Rightarrow> string \<Rightarrow> ordno_state" where
  "ordno_of en ord_no = (case map_of (en_per_ordno en) ord_no of Some st \<Rightarrow> st | None \<Rightarrow> ordno_default)"

definition set_ordno :: "string \<Rightarrow> ordno_state \<Rightarrow> ledger_entry \<Rightarrow> ledger_entry" where
  "set_ordno ord_no st en = en\<lparr>en_per_ordno := AList.update ord_no st (en_per_ordno en)\<rparr>"

text \<open>
  The source's cumulative quantity. An execution number seen before ends the call; a new one adds
  to the lane's running sum, and both are remembered.
\<close>

definition source_cumulative :: "fill_observation \<Rightarrow> ledger_entry \<Rightarrow> int option \<times> ledger_entry" where
  "source_cumulative obs en =
     (case ob_source obs of
        FromPoll \<Rightarrow> (Some (ob_qty obs), en)
      | FromSc \<Rightarrow>
          (if (case ob_exec_no obs of Some x \<Rightarrow> x \<in> en_seen_execnos en | None \<Rightarrow> False) then (None, en)
           else
             let en1 = (case ob_exec_no obs of
                   Some x \<Rightarrow> en\<lparr>en_seen_execnos := insert x (en_seen_execnos en)\<rparr>
                 | None \<Rightarrow> en);
                 st = ordno_of en1 (ob_ord_no obs);
                 cum = wrap64 (sc_cumulative st + max 0 (ob_qty obs))
             in (Some cum, set_ordno (ob_ord_no obs) (st\<lparr>sc_cumulative := cum\<rparr>) en1)))"

definition trade_id :: "fill_observation \<Rightarrow> int \<Rightarrow> string" where
  "trade_id obs src =
     (case (ob_source obs, ob_exec_no obs) of
        (FromSc, Some execno) \<Rightarrow> ''SC-'' @ execno
      | _ \<Rightarrow> ''POLL-'' @ ob_ord_no obs @ ''-'' @ show_int src)"

definition settle :: "string \<Rightarrow> fill_observation \<Rightarrow> nat \<Rightarrow> int \<Rightarrow> ledger_entry \<Rightarrow> fill_ledger \<Rightarrow>
    apply_outcome \<times> fill_ledger" where
  "settle client obs now src en l =
     (let st = ordno_of en (ob_ord_no obs)
      in if ob_source obs = FromPoll \<and> src < watermark st then (outcome_reconcile, put_entry client en l)
         else let delta_qty = max 0 (wrap64 (src - watermark st))
           in if delta_qty = 0 then (outcome_none, put_entry client en l)
           else let approximated = (ob_price_approximated obs \<or> ob_source obs = FromPoll \<and> 0 < watermark st);
               en1 = set_ordno (ob_ord_no obs) (st\<lparr>watermark := src\<rparr>) en;
               term = (en_order_qty en1 \<le> chain_total en1);
               en2 = (if term then en1\<lparr>en_terminal := True\<rparr> else en1);
               tid = trade_id obs src;
               l1 = (put_entry client en2 l)\<lparr>fills := fills l @
                 [\<lparr>lf_symbol = en_symbol en2, lf_side = en_side en2, lf_qty = delta_qty, lf_price = ob_price obs,
                   lf_price_approximated = approximated, lf_trade_id = tid, lf_observed_ns = now\<rparr>]\<rparr>;
               l2 = (if term then l1\<lparr>chain := chain_forget (chain l1) client\<rparr> else l1)
             in (\<lparr>ao_deltas = [\<lparr>fd_client = client, fd_ord_no = ob_ord_no obs, fd_qty = delta_qty,
                    fd_price = ob_price obs, fd_price_approximated = approximated, fd_trade_id = tid,
                    fd_terminal = term\<rparr>], ao_reconcile_needed = False\<rparr>, l2))"

definition ledger_apply :: "fill_observation \<Rightarrow> nat \<Rightarrow> fill_ledger \<Rightarrow> apply_outcome \<times> fill_ledger" where
  "ledger_apply obs now l =
     (case chain_resolve (chain l) (ob_ord_no obs) of
        None \<Rightarrow> (outcome_reconcile, note_unknown_symbol obs l)
      | Some client \<Rightarrow>
          (case map_of (entries l) client of
             None \<Rightarrow> (outcome_reconcile, note_unknown_symbol obs l)
           | Some en \<Rightarrow>
               if en_terminal en then (outcome_none, l)
               else let en1 = en\<lparr>en_per_ordno := or_default (ob_ord_no obs) (en_per_ordno en)\<rparr>
                 in case source_cumulative obs en1 of
                      (None, en2) \<Rightarrow> (outcome_none, put_entry client en2 l)
                    | (Some src, en2) \<Rightarrow> settle client obs now src en2 l))"

section \<open>The branches of an application\<close>

lemma ledger_apply_cases [consumes 1, case_names unknown closed replayed settled]:
  assumes "ledger_apply obs now l = (out, l')"
  obtains (unknown) "out = outcome_reconcile" "l' = note_unknown_symbol obs l"
      "\<And>c. chain_resolve (chain l) (ob_ord_no obs) = Some c \<Longrightarrow> map_of (entries l) c = None"
    | (closed) c en where "chain_resolve (chain l) (ob_ord_no obs) = Some c"
      "map_of (entries l) c = Some en" "en_terminal en" "out = outcome_none" "l' = l"
    | (replayed) c en en2 where "chain_resolve (chain l) (ob_ord_no obs) = Some c"
      "map_of (entries l) c = Some en" "\<not> en_terminal en"
      "source_cumulative obs (en\<lparr>en_per_ordno := or_default (ob_ord_no obs) (en_per_ordno en)\<rparr>) = (None, en2)"
      "out = outcome_none" "l' = put_entry c en2 l"
    | (settled) c en src en2 where "chain_resolve (chain l) (ob_ord_no obs) = Some c"
      "map_of (entries l) c = Some en" "\<not> en_terminal en"
      "source_cumulative obs (en\<lparr>en_per_ordno := or_default (ob_ord_no obs) (en_per_ordno en)\<rparr>) = (Some src, en2)"
      "settle c obs now src en2 l = (out, l')"
proof (cases "chain_resolve (chain l) (ob_ord_no obs)")
  case None
  with assms show ?thesis by (intro unknown) (auto simp: ledger_apply_def)
next
  case c: (Some c)
  show ?thesis
  proof (cases "map_of (entries l) c")
    case None
    with assms c show ?thesis by (intro unknown) (auto simp: ledger_apply_def)
  next
    case en: (Some en)
    show ?thesis
    proof (cases "en_terminal en")
      case True
      with assms c en show ?thesis by (intro closed) (auto simp: ledger_apply_def)
    next
      case False
      obtain r en2 where s: "source_cumulative obs
          (en\<lparr>en_per_ordno := or_default (ob_ord_no obs) (en_per_ordno en)\<rparr>) = (r, en2)"
        by fastforce
      show ?thesis
      proof (cases r)
        case None
        with assms c en False s have "out = outcome_none" "l' = put_entry c en2 l"
          by (simp_all add: ledger_apply_def)
        with replayed [OF c en False s [unfolded None]] show ?thesis by blast
      next
        case (Some src)
        with assms c en False s have "settle c obs now src en2 l = (out, l')"
          by (simp add: ledger_apply_def)
        with settled [OF c en False s [unfolded Some]] show ?thesis by blast
      qed
    qed
  qed
qed

text \<open>The entry an application leaves when it emits, and the delta it emits.\<close>

definition advanced :: "fill_observation \<Rightarrow> int \<Rightarrow> ledger_entry \<Rightarrow> ledger_entry" where
  "advanced obs src en = set_ordno (ob_ord_no obs) (ordno_of en (ob_ord_no obs)\<lparr>watermark := src\<rparr>) en"

definition completes :: "ledger_entry \<Rightarrow> bool" where
  "completes en \<longleftrightarrow> en_order_qty en \<le> chain_total en"

lemma settle_cases [consumes 1, case_names quiet emit]:
  assumes "settle c obs now src en l = (out, l')"
  obtains (quiet) "ao_deltas out = []" "l' = put_entry c en l"
      "ob_source obs = FromPoll \<and> src < watermark (ordno_of en (ob_ord_no obs)) \<or>
       wrap64 (src - watermark (ordno_of en (ob_ord_no obs))) \<le> 0"
      "ao_reconcile_needed out \<longleftrightarrow> ob_source obs = FromPoll \<and> src < watermark (ordno_of en (ob_ord_no obs))"
    | (emit) d f where "ao_deltas out = [d]" "\<not> ao_reconcile_needed out"
      "ob_source obs = FromPoll \<longrightarrow> watermark (ordno_of en (ob_ord_no obs)) \<le> src"
      "0 < wrap64 (src - watermark (ordno_of en (ob_ord_no obs)))"
      "fd_client d = c" "fd_ord_no d = ob_ord_no obs"
      "fd_qty d = wrap64 (src - watermark (ordno_of en (ob_ord_no obs)))" "fd_trade_id d = trade_id obs src"
      "fd_terminal d = completes (advanced obs src en)"
      "fd_price_approximated d = (ob_price_approximated obs \<or>
         ob_source obs = FromPoll \<and> 0 < watermark (ordno_of en (ob_ord_no obs)))"
      "lf_qty f = fd_qty d" "lf_trade_id f = fd_trade_id d"
      "entries l' = AList.update c ((advanced obs src en)
         \<lparr>en_terminal := (completes (advanced obs src en) \<or> en_terminal (advanced obs src en))\<rparr>) (entries l)"
      "chain l' = (if completes (advanced obs src en) then chain_forget (chain l) c else chain l)"
      "pending_reconcile l' = pending_reconcile l" "fills l' = fills l @ [f]"
proof (cases "ob_source obs = FromPoll \<and> src < watermark (ordno_of en (ob_ord_no obs)) \<or>
       wrap64 (src - watermark (ordno_of en (ob_ord_no obs))) \<le> 0")
  case True
  have "max 0 (wrap64 (src - watermark (ordno_of en (ob_ord_no obs)))) = 0 \<longleftrightarrow>
      wrap64 (src - watermark (ordno_of en (ob_ord_no obs))) \<le> 0" by auto
  with True assms show ?thesis
    by (intro quiet) (auto simp: settle_def Let_def outcome_reconcile_def outcome_none_def split: if_splits)
next
  case False
  let ?st = "ordno_of en (ob_ord_no obs)" and ?a = "advanced obs src en"
  let ?q = "wrap64 (src - watermark ?st)"
  let ?approx = "ob_price_approximated obs \<or> ob_source obs = FromPoll \<and> 0 < watermark ?st"
  let ?d = "\<lparr>fd_client = c, fd_ord_no = ob_ord_no obs, fd_qty = ?q, fd_price = ob_price obs,
    fd_price_approximated = ?approx, fd_trade_id = trade_id obs src, fd_terminal = completes ?a\<rparr>"
  let ?f = "\<lparr>lf_symbol = en_symbol ?a, lf_side = en_side ?a, lf_qty = ?q, lf_price = ob_price obs,
    lf_price_approximated = ?approx, lf_trade_id = trade_id obs src, lf_observed_ns = now\<rparr>"
  have "max 0 ?q = ?q" "0 < ?q" using False by auto
  then show ?thesis
    using assms False
    by (intro emit [of ?d ?f])
      (auto simp: settle_def Let_def put_entry_def advanced_def completes_def split: if_splits)
qed

lemma source_cumulative_frame:
  assumes "source_cumulative obs en = (r, en2)"
  shows "en_terminal en2 = en_terminal en \<and> en_order_qty en2 = en_order_qty en \<and>
    (\<forall>x. watermark (ordno_of en2 x) = watermark (ordno_of en x)) \<and>
    (\<forall>x. x \<noteq> ob_ord_no obs \<longrightarrow> ordno_of en2 x = ordno_of en x) \<and> en_seen_execnos en \<subseteq> en_seen_execnos en2"
  using assms
  by (auto simp: source_cumulative_def set_ordno_def ordno_of_def Let_def
      split: fill_source.splits option.splits if_splits)

lemma ordno_of_or_default [simp]:
  "ordno_of (en\<lparr>en_per_ordno := or_default x (en_per_ordno en)\<rparr>) y = ordno_of en y"
  by (auto simp: ordno_of_def or_default_def split: option.split)

lemma ordno_of_advanced:
  "ordno_of (advanced obs src en) x =
     (if x = ob_ord_no obs then ordno_of en x\<lparr>watermark := src\<rparr> else ordno_of en x)"
  "en_seen_execnos (advanced obs src en) = en_seen_execnos en"
  "en_terminal (advanced obs src en) = en_terminal en"
  by (simp_all add: advanced_def ordno_of_def set_ordno_def)

section \<open>Numbers lead to open orders\<close>

definition ledger_ok :: "fill_ledger \<Rightarrow> bool" where
  "ledger_ok l \<longleftrightarrow> chain_ok (chain l) \<and>
     (\<forall>x c. chain_resolve (chain l) x = Some c \<longrightarrow>
        (\<exists>en. map_of (entries l) c = Some en \<and> \<not> en_terminal en))"

lemma ledger_okD:
  "ledger_ok l \<Longrightarrow> chain_resolve (chain l) x = Some c \<Longrightarrow> \<exists>en. map_of (entries l) c = Some en \<and> \<not> en_terminal en"
  by (simp add: ledger_ok_def)

lemma ledger_ok_chain: "ledger_ok l \<Longrightarrow> chain_ok (chain l)"
  by (simp add: ledger_ok_def)

lemma ledger_ok_new: "ledger_ok ledger_new"
  by (simp add: ledger_ok_def ledger_new_def) (simp add: chain_new_def chain_resolve_def)

lemma ledger_ok_put: "ledger_ok l \<Longrightarrow> \<not> en_terminal en \<Longrightarrow> ledger_ok (put_entry c en l)"
  by (auto simp: ledger_ok_def put_entry_def)

lemma ledger_ok_cong:
  "ledger_ok l \<Longrightarrow> chain l' = chain l \<Longrightarrow> entries l' = entries l \<Longrightarrow> ledger_ok l'"
  by (simp add: ledger_ok_def)

lemma ledger_ok_forget:
  assumes "ledger_ok l" "chain l' = chain_forget (chain l) c"
    "\<And>d. d \<noteq> c \<Longrightarrow> map_of (entries l') d = map_of (entries l) d"
  shows "ledger_ok l'"
  using assms oc.own_drop_other [of "chain l" c] oc.ok_drop [of "chain l" c]
  unfolding ledger_ok_def by metis

lemma ledger_ok_claim:
  assumes "ledger_ok l" "chain l' = chain_register (chain l) c x"
    "map_of (entries l') c = Some en" "\<not> en_terminal en"
    "\<And>d. d \<noteq> c \<Longrightarrow> map_of (entries l') d = map_of (entries l) d"
  shows "ledger_ok l'"
proof -
  have "\<exists>en. map_of (entries l') d = Some en \<and> \<not> en_terminal en"
    if "chain_resolve (chain l') y = Some d" for y d
    using that assms ledger_okD [OF assms(1), of y d]
    by (cases "d = c") (auto simp: chain_resolve_register split: if_splits)
  then show ?thesis
    using assms(1,2) oc.ok_add [of "chain l" c x] by (simp add: ledger_ok_def)
qed

lemma open_ordno_entries:
  "map_of (entries (open_ordno c x l)) d =
     (if d = c then map_option (\<lambda>en. en\<lparr>en_per_ordno := or_default x (en_per_ordno en)\<rparr>) (map_of (entries l) c)
      else map_of (entries l) d)"
  "chain (open_ordno c x l) = chain l"
  by (auto simp: open_ordno_def split: option.split)

lemma ledger_ok_open_ordno:
  assumes "ledger_ok l" "map_of (entries l) c = Some en" "\<not> en_terminal en"
  shows "ledger_ok (open_ordno c x (l\<lparr>chain := chain_register (chain l) c x\<rparr>))"
  by (rule ledger_ok_claim [OF assms(1), of _ c x "en\<lparr>en_per_ordno := or_default x (en_per_ordno en)\<rparr>"])
    (use assms in \<open>auto simp: open_ordno_entries\<close>)

lemma ledger_ok_adopt: "ledger_ok l \<Longrightarrow> ledger_ok (snd (ledger_adopt x known l))"
  using ledger_okD ledger_ok_open_ordno by (fastforce simp: ledger_adopt_def split: option.split)

lemma ledger_ok_append_child: "ledger_ok l \<Longrightarrow> ledger_ok (snd (ledger_append_child parent x l))"
proof (cases "chain_resolve (chain l) parent")
  case None
  then show "ledger_ok l \<Longrightarrow> ?thesis"
    by (auto simp: ledger_append_child_def chain_append_child_register intro: ledger_ok_cong)
next
  case (Some c)
  moreover assume "ledger_ok l"
  moreover from this Some obtain en where "map_of (entries l) c = Some en" "\<not> en_terminal en"
    using ledger_okD by blast
  ultimately show ?thesis
    using ledger_ok_open_ordno
    by (simp add: ledger_append_child_def chain_append_child_register chain_resolve_register)
qed

lemma ledger_ok_adopt_for_client:
  assumes "ledger_ok l" "map_of (entries l) c = Some en" "\<not> en_terminal en"
  shows "ledger_ok (snd (ledger_adopt_for_client x c l))"
  using assms ledger_ok_open_ordno by (simp add: ledger_adopt_for_client_def)

lemma ledger_ok_register: "ledger_ok l \<Longrightarrow> ledger_ok (ledger_register ord x l)"
  by (rule ledger_ok_claim) (auto simp: ledger_register_def)

lemma ledger_ok_note_modify: "ledger_ok l \<Longrightarrow> ledger_ok (note_modify c q p l)"
  by (auto simp: ledger_ok_def note_modify_def split: option.split) fastforce

lemma ledger_ok_close: "ledger_ok l \<Longrightarrow> ledger_ok (ledger_close c l)"
  by (rule ledger_ok_forget [of l _ c]) (auto simp: ledger_close_def Let_def split: option.split)

lemma record_pending_frame [simp]:
  "chain (record_pending_symbol s l) = chain l" "entries (record_pending_symbol s l) = entries l"
  "fills (record_pending_symbol s l) = fills l"
  by (simp_all add: record_pending_symbol_def Let_def)

lemma note_unknown_frame [simp]:
  "chain (note_unknown_symbol obs l) = chain l" "entries (note_unknown_symbol obs l) = entries l"
  "fills (note_unknown_symbol obs l) = fills l"
  by (simp_all add: note_unknown_symbol_def split: option.split)

lemma ledger_ok_apply:
  assumes "ledger_ok l" "ledger_apply obs now l = (out, l')"
  shows "ledger_ok l'"
  using assms(2)
proof (cases rule: ledger_apply_cases)
  case unknown
  with assms(1) show ?thesis by (auto intro: ledger_ok_cong)
next
  case (closed c en)
  with assms(1) show ?thesis by simp
next
  case (replayed c en en2)
  with source_cumulative_frame [OF replayed(4)] assms(1) show ?thesis by (auto intro: ledger_ok_put)
next
  case (settled c en src en2)
  have nt: "\<not> en_terminal en2" using source_cumulative_frame [OF settled(4)] settled(3) by simp
  from settled(5) show ?thesis
  proof (cases rule: settle_cases)
    case quiet
    with nt assms(1) show ?thesis by (auto intro: ledger_ok_put)
  next
    case (emit d f)
    show ?thesis
    proof (cases "completes (advanced obs src en2)")
      case True
      with emit assms(1) show ?thesis by (intro ledger_ok_forget [of l l' c]) auto
    next
      case False
      with emit nt have "ledger_ok (put_entry c (advanced obs src en2\<lparr>en_terminal := False\<rparr>) l)"
        by (intro ledger_ok_put assms(1)) simp
      then show ?thesis
        using False emit nt by (elim ledger_ok_cong) (simp_all add: put_entry_def ordno_of_advanced)
    qed
  qed
qed

datatype ledger_op =
    OpRegister order_any string
  | OpAppendChild string string
  | OpAdopt string string
  | OpNoteModify string int int
  | OpClose string
  | OpApply fill_observation nat
  | OpPending string
  | OpSeed ledger_fill

fun ledger_step :: "fill_ledger \<Rightarrow> ledger_op \<Rightarrow> fill_ledger" where
  "ledger_step l (OpRegister ord x) = ledger_register ord x l"
| "ledger_step l (OpAppendChild parent x) = snd (ledger_append_child parent x l)"
| "ledger_step l (OpAdopt x known) = snd (ledger_adopt x known l)"
| "ledger_step l (OpNoteModify c q p) = note_modify c q p l"
| "ledger_step l (OpClose c) = ledger_close c l"
| "ledger_step l (OpApply obs now) = snd (ledger_apply obs now l)"
| "ledger_step l (OpPending s) = record_pending_symbol s l"
| "ledger_step l (OpSeed f) = seed_fill f l"

lemma ledger_step_ok: "ledger_ok l \<Longrightarrow> ledger_ok (ledger_step l op)"
proof (cases op)
  case (OpApply obs now)
  assume "ledger_ok l"
  obtain out l' where "ledger_apply obs now l = (out, l')" by fastforce
  from ledger_ok_apply [OF \<open>ledger_ok l\<close> this] this OpApply show ?thesis by simp
qed (auto intro: ledger_ok_register ledger_ok_append_child ledger_ok_adopt ledger_ok_note_modify
    ledger_ok_close ledger_ok_cong simp: seed_fill_def)

lemma ledger_run_ok: "ledger_ok l \<Longrightarrow> ledger_ok (foldl ledger_step l ops)"
  by (induction ops arbitrary: l) (simp_all add: ledger_step_ok)

text \<open>
  A number that resolves always resolves to an open order, after any sequence of operations.
  So an observation for a completed or cancelled order finds its number forgotten: it emits nothing,
  but it never takes the quiet branch for a late frame; it is answered as an unknown number, with a
  reconcile request.
\<close>

theorem late_observation_asks_for_reconcile:
  "let l = foldl ledger_step ledger_new ops; (out, l') = ledger_apply obs now l
   in case chain_resolve (chain l) (ob_ord_no obs) of
        Some c \<Rightarrow> \<exists>en. map_of (entries l) c = Some en \<and> en_terminal en = False
      | None \<Rightarrow> out = outcome_reconcile \<and> entries l' = entries l"
proof -
  let ?l = "foldl ledger_step ledger_new ops"
  have ok: "ledger_ok ?l" by (rule ledger_run_ok [OF ledger_ok_new])
  show ?thesis
    using ledger_okD [OF ok] by (auto simp: ledger_apply_def split: option.split)
qed

section \<open>Exactly once\<close>

fun apply_all :: "(fill_observation \<times> nat) list \<Rightarrow> fill_ledger \<Rightarrow> fill_delta list \<times> fill_ledger" where
  "apply_all [] l = ([], l)"
| "apply_all ((obs, now) # rest) l =
     (let (out, l1) = ledger_apply obs now l; (ds, l2) = apply_all rest l1 in (ao_deltas out @ ds, l2))"

definition deltas_on :: "string \<Rightarrow> fill_delta list \<Rightarrow> fill_delta list" where
  "deltas_on x ds = filter (\<lambda>d. fd_ord_no d = x) ds"

definition emitted_on :: "string \<Rightarrow> fill_delta list \<Rightarrow> int" where
  "emitted_on x ds = sum_list (map fd_qty (deltas_on x ds))"

lemma deltas_on_append [simp]: "deltas_on x (ds @ ds') = deltas_on x ds @ deltas_on x ds'"
  by (simp add: deltas_on_def)

lemma emitted_on_append [simp]: "emitted_on x (ds @ ds') = emitted_on x ds + emitted_on x ds'"
  by (simp add: emitted_on_def)

lemma emitted_on_Nil [simp]: "emitted_on x [] = 0"
  by (simp add: emitted_on_def deltas_on_def)

text \<open>
  The truth behind the observations on a number \<open>x\<close>: the executions \<open>X\<close> the exchange made on it,
  by execution number, with their quantities. A poll never reports more than their sum; an
  order event reports one of them.
\<close>

definition true_fill :: "string set \<Rightarrow> (string \<Rightarrow> int) \<Rightarrow> int" where
  "true_fill X exq = sum exq X"

definition truthful :: "string \<Rightarrow> string set \<Rightarrow> (string \<Rightarrow> int) \<Rightarrow> fill_observation \<Rightarrow> bool" where
  "truthful x X exq obs \<longleftrightarrow> ob_ord_no obs \<noteq> x \<or>
     (case ob_source obs of
        FromPoll \<Rightarrow> ob_qty obs \<le> true_fill X exq
      | FromSc \<Rightarrow> (case ob_exec_no obs of Some e \<Rightarrow> e \<in> X \<and> ob_qty obs = exq e | None \<Rightarrow> False))"

definition executions_ok :: "string set \<Rightarrow> (string \<Rightarrow> int) \<Rightarrow> bool" where
  "executions_ok X exq \<longleftrightarrow> finite X \<and> (\<forall>e \<in> X. 0 \<le> exq e) \<and> true_fill X exq \<le> i64_max"

text \<open>The ids an order number's emissions may have used so far.\<close>

definition used_ids :: "string \<Rightarrow> int \<Rightarrow> string set \<Rightarrow> string set" where
  "used_ids x n seen = {''POLL-'' @ x @ ''-'' @ show_int k |k. 0 \<le> k \<and> k \<le> n} \<union> {''SC-'' @ e |e. e \<in> seen}"

text \<open>
  The state of the accounting of number \<open>x\<close> of client \<open>c\<close>: \<open>n\<close> is what has been emitted on it,
  \<open>T\<close> the trade ids used.
\<close>

definition tracked :: "string set \<Rightarrow> (string \<Rightarrow> int) \<Rightarrow> string \<Rightarrow> string \<Rightarrow> int \<Rightarrow> string set \<Rightarrow> fill_ledger \<Rightarrow> bool" where
  "tracked X exq c x n T l \<longleftrightarrow>
     (\<forall>d. chain_resolve (chain l) x = Some d \<longrightarrow> d = c) \<and>
     (\<exists>en. map_of (entries l) c = Some en \<and> watermark (ordno_of en x) = n \<and> 0 \<le> n \<and> n \<le> true_fill X exq \<and>
        0 \<le> sc_cumulative (ordno_of en x) \<and>
        sc_cumulative (ordno_of en x) \<le> sum exq (X \<inter> en_seen_execnos en) \<and>
        T \<subseteq> used_ids x n (en_seen_execnos en))"

lemma used_ids_mono: "n \<le> n' \<Longrightarrow> seen \<subseteq> seen' \<Longrightarrow> used_ids x n seen \<subseteq> used_ids x n' seen'"
  unfolding used_ids_def by fastforce

lemma show_int_inject: "0 \<le> i \<Longrightarrow> 0 \<le> k \<Longrightarrow> show_int i = show_int k \<Longrightarrow> i = k"
  by (metis show_int_def not_less digits_value_show_nat nat_eq_iff2 int_nat_eq)

lemma new_id_poll: "n < src \<Longrightarrow> 0 \<le> n \<Longrightarrow> ''POLL-'' @ x @ ''-'' @ show_int src \<notin> used_ids x n seen"
  using show_int_inject [of src] by (fastforce simp: used_ids_def)

lemma new_id_sc: "e \<notin> seen \<Longrightarrow> ''SC-'' @ e \<notin> used_ids x n seen"
  by (auto simp: used_ids_def)

text \<open>What the source contributes, given the truth.\<close>

lemma source_cumulative_truth:
  assumes "executions_ok X exq" "truthful x X exq obs" "ob_ord_no obs = x"
    and "0 \<le> sc_cumulative (ordno_of en x)"
    and "sc_cumulative (ordno_of en x) \<le> sum exq (X \<inter> en_seen_execnos en)"
    and "source_cumulative obs en = (r, en2)"
  shows "0 \<le> sc_cumulative (ordno_of en2 x) \<and>
    sc_cumulative (ordno_of en2 x) \<le> sum exq (X \<inter> en_seen_execnos en2) \<and>
    (\<forall>src. r = Some src \<longrightarrow> src \<le> true_fill X exq) \<and>
    (\<forall>src. r = Some src \<longrightarrow> ob_source obs = FromPoll \<longrightarrow> src = ob_qty obs) \<and>
    (\<forall>src. r = Some src \<longrightarrow> ob_source obs = FromSc \<longrightarrow> 0 \<le> src) \<and>
    (\<forall>src e. r = Some src \<longrightarrow> ob_source obs = FromSc \<longrightarrow> ob_exec_no obs = Some e \<longrightarrow>
       e \<notin> en_seen_execnos en \<and> e \<in> en_seen_execnos en2)"
proof (cases "ob_source obs")
  case FromPoll
  with assms show ?thesis by (auto simp: source_cumulative_def truthful_def)
next
  case FromSc
  then obtain e where e: "ob_exec_no obs = Some e" "e \<in> X" "ob_qty obs = exq e"
    using assms(2,3) by (auto simp: truthful_def split: option.splits)
  show ?thesis
  proof (cases "e \<in> en_seen_execnos en")
    case True
    with FromSc e assms(4-6) show ?thesis by (auto simp: source_cumulative_def)
  next
    case False
    let ?seen = "insert e (en_seen_execnos en)" and ?sc = "sc_cumulative (ordno_of en x)"
    have fin: "finite X" and nn: "\<forall>e \<in> X. 0 \<le> exq e" and bound: "true_fill X exq \<le> i64_max"
      using assms(1) by (auto simp: executions_ok_def)
    have "X \<inter> ?seen = insert e (X \<inter> en_seen_execnos en)" using e(2) by auto
    then have sum: "sum exq (X \<inter> ?seen) = exq e + sum exq (X \<inter> en_seen_execnos en)"
      using False fin by simp
    have "sum exq (X \<inter> ?seen) \<le> true_fill X exq"
      unfolding true_fill_def using fin nn by (intro sum_mono2) auto
    then have le: "?sc + exq e \<le> sum exq (X \<inter> ?seen)" "?sc + exq e \<le> true_fill X exq"
      using sum assms(5) by simp_all
    have "0 \<le> exq e" using nn e(2) by blast
    then have cum: "wrap64 (?sc + max 0 (exq e)) = ?sc + exq e"
      using le bound assms(4) by (intro wrap64_id [THEN trans]) (simp_all add: i64_ok_def i64_min_def)
    have "ordno_of (en\<lparr>en_seen_execnos := S\<rparr>) y = ordno_of en y" for S y
      by (simp add: ordno_of_def)
    then have en2: "r = Some (?sc + exq e)" "en_seen_execnos en2 = ?seen"
      "sc_cumulative (ordno_of en2 x) = ?sc + exq e"
      using assms(3,6) FromSc e False cum
      by (auto simp: source_cumulative_def Let_def set_ordno_def ordno_of_def)
    show ?thesis
      using en2 le \<open>0 \<le> exq e\<close> assms(4) FromSc e False by auto
  qed
qed

lemma ordno_of_terminal [simp]: "ordno_of (en\<lparr>en_terminal := b\<rparr>) x = ordno_of en x"
  by (simp add: ordno_of_def)

text \<open>One application keeps the accounting: what it emits on \<open>x\<close> is what the watermark gains.\<close>

lemma tracked_frame:
  assumes "tracked X exq c x n T l"
    and "\<And>d. chain_resolve (chain l') x = Some d \<Longrightarrow> chain_resolve (chain l) x = Some d"
    and "map_of (entries l) c = Some en" and "map_of (entries l') c = Some en'"
    and "ordno_of en' x = ordno_of en x" and "en_seen_execnos en \<subseteq> en_seen_execnos en'"
    and "executions_ok X exq"
  shows "tracked X exq c x n T l'"
proof -
  have "sum exq (X \<inter> en_seen_execnos en) \<le> sum exq (X \<inter> en_seen_execnos en')"
    using assms(6,7) by (intro sum_mono2) (auto simp: executions_ok_def)
  moreover have "used_ids x n (en_seen_execnos en) \<subseteq> used_ids x n (en_seen_execnos en')"
    using assms(6) by (intro used_ids_mono) auto
  ultimately show ?thesis
    using assms(1-5) unfolding tracked_def by (intro conjI exI [of _ en']) (auto 4 3)
qed

lemma forget_resolves:
  "chain_ok ch \<Longrightarrow> chain_resolve (chain_forget ch c) x = Some d \<Longrightarrow> chain_resolve ch x = Some d"
  by (simp add: chain_forget_resolve split: if_splits)

lemma settle_frame:
  assumes "settle d obs now src en l = (out, l')" "chain_ok (chain l)"
  shows "\<And>y k. chain_resolve (chain l') y = Some k \<Longrightarrow> chain_resolve (chain l) y = Some k"
    and "\<And>k. k \<noteq> d \<Longrightarrow> map_of (entries l') k = map_of (entries l) k"
    and "x \<noteq> ob_ord_no obs \<Longrightarrow> deltas_on x (ao_deltas out) = []"
    and "\<exists>en'. map_of (entries l') d = Some en' \<and> en_seen_execnos en' = en_seen_execnos en \<and>
      (\<forall>y. y \<noteq> ob_ord_no obs \<longrightarrow> ordno_of en' y = ordno_of en y)"
  using assms
  by (auto elim!: settle_cases simp: put_entry_def deltas_on_def ordno_of_advanced ordno_of_terminal
      split: if_splits dest: forget_resolves)

lemma apply_tracked:
  assumes "executions_ok X exq" "truthful x X exq obs" "ledger_ok l" "tracked X exq c x n T l"
    and "ledger_apply obs now l = (out, l')"
  shows "tracked X exq c x (n + emitted_on x (ao_deltas out))
      (T \<union> set (map fd_trade_id (deltas_on x (ao_deltas out)))) l' \<and>
    distinct (map fd_trade_id (deltas_on x (ao_deltas out))) \<and>
    T \<inter> set (map fd_trade_id (deltas_on x (ao_deltas out))) = {} \<and>
    (ob_ord_no obs = x \<longrightarrow> ob_source obs = FromPoll \<longrightarrow> chain_resolve (chain l) x = Some c \<longrightarrow>
       ob_qty obs \<le> n + emitted_on x (ao_deltas out))"
proof -
  obtain en where en: "map_of (entries l) c = Some en" "watermark (ordno_of en x) = n" "0 \<le> n"
    "n \<le> true_fill X exq" "0 \<le> sc_cumulative (ordno_of en x)"
    "sc_cumulative (ordno_of en x) \<le> sum exq (X \<inter> en_seen_execnos en)"
    "T \<subseteq> used_ids x n (en_seen_execnos en)"
    and owner: "\<And>d. chain_resolve (chain l) x = Some d \<Longrightarrow> d = c"
    using assms(4) by (auto simp: tracked_def)
  have ok: "chain_ok (chain l)" using assms(3) by (rule ledger_ok_chain)
  show ?thesis
    using assms(5)
  proof (cases rule: ledger_apply_cases)
    case unknown
    have "tracked X exq c x n T l'"
      by (rule tracked_frame [OF assms(4) _ en(1)]) (use unknown en assms(1) in auto)
    with unknown en(1) show ?thesis by (auto simp: outcome_reconcile_def deltas_on_def)
  next
    case (closed d e)
    with ledger_okD [OF assms(3) closed(1)] show ?thesis by auto
  next
    case (replayed d e e2)
    note fr = source_cumulative_frame [OF replayed(4)]
    have out: "deltas_on x (ao_deltas out) = []" using replayed(5) by (simp add: outcome_none_def deltas_on_def)
    have l': "chain l' = chain l" "map_of (entries l') k = (if k = d then Some e2 else map_of (entries l) k)" for k
      using replayed(6) by (simp_all add: put_entry_def)
    have poll: "ob_source obs = FromSc"
      using replayed(4) by (auto simp: source_cumulative_def split: fill_source.splits)
    have "tracked X exq c x n T l'"
    proof (cases "d = c")
      case False
      show ?thesis
        by (rule tracked_frame [OF assms(4) _ en(1) _ _ _ assms(1)]) (use False l' en(1) in auto)
    next
      case True
      then have e: "e = en" using replayed(2) en(1) by simp
      have "e2 = e\<lparr>en_per_ordno := or_default (ob_ord_no obs) (en_per_ordno e)\<rparr>"
        using replayed(4) by (auto simp: source_cumulative_def Let_def split: fill_source.splits if_splits)
      then have "ordno_of e2 x = ordno_of en x" "en_seen_execnos e2 = en_seen_execnos en"
        using e by simp_all
      then show ?thesis
        by (intro tracked_frame [OF assms(4) _ en(1), of _ e2] assms(1)) (use True l' in auto)
    qed
    with out poll show ?thesis by (simp add: emitted_on_def)
  next
    case (settled d e src e2)
    note fr = source_cumulative_frame [OF settled(4)] and sf = settle_frame [OF settled(5) ok]
    obtain e3 where e3: "map_of (entries l') d = Some e3" "en_seen_execnos e3 = en_seen_execnos e2"
      "\<forall>y. y \<noteq> ob_ord_no obs \<longrightarrow> ordno_of e3 y = ordno_of e2 y"
      using sf(4) by blast
    show ?thesis
    proof (cases "ob_ord_no obs = x")
      case False
      then have out: "deltas_on x (ao_deltas out) = []" using sf(3) [of x] by auto
      have "tracked X exq c x n T l'"
      proof (cases "d = c")
        case True
        then have "e = en" using settled(2) en(1) by simp
        then have "ordno_of e3 x = ordno_of en x" "en_seen_execnos en \<subseteq> en_seen_execnos e3"
          using False e3(2,3) fr by auto
        with True e3(1) show ?thesis
          by (intro tracked_frame [OF assms(4) _ en(1) _ _ _ assms(1)]) (use sf(1) in auto)
      next
        case ne: False
        then show ?thesis
          by (intro tracked_frame [OF assms(4) _ en(1) _ _ _ assms(1)]) (use sf(1,2) en(1) in auto)
      qed
      with out False show ?thesis by (simp add: emitted_on_def)
    next
      case x: True
      then have d: "d = c" using owner settled(1) by simp
      then have e: "e = en" using settled(2) en(1) by simp
      let ?en1 = "e\<lparr>en_per_ordno := or_default (ob_ord_no obs) (en_per_ordno e)\<rparr>"
      have pre: "0 \<le> sc_cumulative (ordno_of ?en1 x)"
        "sc_cumulative (ordno_of ?en1 x) \<le> sum exq (X \<inter> en_seen_execnos ?en1)"
        using en(5,6) e by simp_all
      note src = source_cumulative_truth [OF assms(1,2) x pre settled(4)]
      have wm: "watermark (ordno_of e2 x) = n" using fr en(2) e by simp
      have seen: "en_seen_execnos en \<subseteq> en_seen_execnos e2" using fr e by simp
      have "src \<le> i64_max" using src assms(1) by (auto simp: executions_ok_def)
      from settled(5) show ?thesis
      proof (cases rule: settle_cases)
        case quiet
        have l': "chain l' = chain l" "map_of (entries l') c = Some e2"
          using quiet(2) d by (simp_all add: put_entry_def)
        have "T \<subseteq> used_ids x n (en_seen_execnos e2)"
          using en(7) used_ids_mono [OF order_refl seen] by blast
        then have t: "tracked X exq c x n T l'"
          using l' owner wm en(3,4) src unfolding tracked_def by auto
        have "src \<le> n" if "ob_source obs = FromPoll"
        proof (rule ccontr)
          assume "\<not> src \<le> n"
          then have "i64_ok (src - n)" using en(3) \<open>src \<le> i64_max\<close> by (simp add: i64_ok_def i64_min_def)
          with quiet(3) \<open>\<not> src \<le> n\<close> x wm show False by (auto simp: wrap64_id)
        qed
        with t quiet(1) src show ?thesis by (auto simp: deltas_on_def emitted_on_def)
      next
        case (emit dl f)
        have src0: "0 \<le> src"
          using src emit(3) x wm en(3) by (cases "ob_source obs") auto
        then have "i64_ok (src - n)"
          using en(3,4) \<open>src \<le> i64_max\<close> assms(1) by (auto simp: i64_ok_def i64_min_def i64_max_def executions_ok_def)
        then have q: "fd_qty dl = src - n" "n < src"
          using emit(4,7) x wm by (simp_all add: wrap64_id)
        have ds: "deltas_on x (ao_deltas out) = [dl]" using emit(1,6) x by (simp add: deltas_on_def)
        let ?a = "advanced obs src e2"
        let ?e3 = "?a\<lparr>en_terminal := (completes ?a \<or> en_terminal ?a)\<rparr>"
        have l': "map_of (entries l') c = Some ?e3" using emit(13) d by simp
        have e3': "watermark (ordno_of ?e3 x) = src" "sc_cumulative (ordno_of ?e3 x) = sc_cumulative (ordno_of e2 x)"
          "en_seen_execnos ?e3 = en_seen_execnos e2"
          using x by (simp_all add: ordno_of_advanced)
        have T: "T \<subseteq> used_ids x src (en_seen_execnos e2)"
          using en(7) used_ids_mono [of n src, OF _ seen] q(2) by force
        have new: "trade_id obs src \<in> used_ids x src (en_seen_execnos e2) \<and> trade_id obs src \<notin> T"
        proof (cases "ob_source obs")
          case FromPoll
          then have "trade_id obs src = ''POLL-'' @ x @ ''-'' @ show_int src"
            using x by (simp add: trade_id_def split: option.split)
          with new_id_poll [OF q(2) en(3), of x "en_seen_execnos en"] en(7) src0 show ?thesis
            by (auto simp: used_ids_def)
        next
          case FromSc
          then obtain ex where ex: "ob_exec_no obs = Some ex"
            using assms(2) x by (auto simp: truthful_def split: option.splits)
          then have "ex \<notin> en_seen_execnos en" "ex \<in> en_seen_execnos e2" "trade_id obs src = ''SC-'' @ ex"
            using src FromSc e by (auto simp: trade_id_def)
          with new_id_sc [of ex "en_seen_execnos en" x n] en(7) show ?thesis
            by (auto simp: used_ids_def)
        qed
        have "chain_resolve (chain l') x = Some k \<Longrightarrow> k = c" for k
          using sf(1) owner by blast
        then have "tracked X exq c x src (T \<union> {trade_id obs src}) l'"
          using l' e3' src0 src T new unfolding tracked_def by auto
        with ds q new emit(8) src show ?thesis by (auto simp: emitted_on_def)
      qed
    qed
  qed
qed

lemma apply_qty_pos:
  assumes "ledger_apply obs now l = (out, l')" "d \<in> set (ao_deltas out)"
  shows "0 < fd_qty d"
  using assms
  by (auto elim!: ledger_apply_cases settle_cases simp: outcome_none_def outcome_reconcile_def)

lemma emitted_nonneg:
  "ledger_apply obs now l = (out, l') \<Longrightarrow> 0 \<le> emitted_on x (ao_deltas out)"
  using apply_qty_pos [of obs now l out l']
  by (auto simp: emitted_on_def deltas_on_def intro!: sum_list_nonneg) fastforce

lemma apply_resolves_back:
  assumes "ledger_apply obs now l = (out, l')" "chain_ok (chain l)" "chain_resolve (chain l') x = Some k"
  shows "chain_resolve (chain l) x = Some k"
  using assms settle_frame(1) [OF _ assms(2)]
  by (auto elim!: ledger_apply_cases simp: put_entry_def)

lemma apply_all_resolves_back:
  "apply_all os l = (ds, l') \<Longrightarrow> ledger_ok l \<Longrightarrow> chain_resolve (chain l') x = Some k \<Longrightarrow>
    chain_resolve (chain l) x = Some k"
proof (induction os arbitrary: l ds)
  case (Cons o1 os)
  obtain obs now where o1: "o1 = (obs, now)" by fastforce
  obtain out l1 where a: "ledger_apply obs now l = (out, l1)" by fastforce
  obtain ds1 where r: "apply_all os l1 = (ds1, l')"
    using Cons.prems(1) o1 a by (auto split: prod.splits)
  show ?case
    using Cons.IH [OF r ledger_ok_apply [OF Cons.prems(2) a] Cons.prems(3)]
      apply_resolves_back [OF a] Cons.prems(2) ledger_ok_chain by blast
qed simp

lemma apply_all_tracked:
  assumes "executions_ok X exq" "list_all (\<lambda>(obs, now). truthful x X exq obs) os" "ledger_ok l"
    "tracked X exq c x n T l" "apply_all os l = (ds, l')"
  shows "tracked X exq c x (n + emitted_on x ds) (T \<union> set (map fd_trade_id (deltas_on x ds))) l' \<and>
    distinct (map fd_trade_id (deltas_on x ds)) \<and> T \<inter> set (map fd_trade_id (deltas_on x ds)) = {} \<and>
    0 \<le> emitted_on x ds \<and>
    (chain_resolve (chain l') x = Some c \<longrightarrow> (\<forall>(obs, now) \<in> set os. ob_ord_no obs = x \<longrightarrow>
       ob_source obs = FromPoll \<longrightarrow> ob_qty obs \<le> n + emitted_on x ds))"
  using assms(2-5)
proof (induction os arbitrary: l n T ds)
  case Nil
  then show ?case by (simp add: deltas_on_def)
next
  case (Cons o1 os)
  obtain obs now where o1: "o1 = (obs, now)" by fastforce
  obtain out l1 where a: "ledger_apply obs now l = (out, l1)" by fastforce
  obtain ds1 where r: "apply_all os l1 = (ds1, l')" and ds: "ds = ao_deltas out @ ds1"
    using Cons.prems(4) o1 a by (auto split: prod.splits)
  have tr: "truthful x X exq obs" "list_all (\<lambda>(obs, now). truthful x X exq obs) os"
    using Cons.prems(1) o1 by auto
  note one = apply_tracked [OF assms(1) tr(1) Cons.prems(2,3) a]
  note ok1 = ledger_ok_apply [OF Cons.prems(2) a]
  note rest = Cons.IH [OF tr(2) ok1 conjunct1 [OF one] r]
  have nn: "0 \<le> emitted_on x (ao_deltas out)" by (rule emitted_nonneg [OF a])
  have earlier: "chain_resolve (chain l') x = Some c \<Longrightarrow> chain_resolve (chain l) x = Some c"
    using apply_all_resolves_back [OF r ok1] apply_resolves_back [OF a] ledger_ok_chain Cons.prems(2)
    by blast
  have "\<forall>(obs, now) \<in> set (o1 # os). ob_ord_no obs = x \<longrightarrow> ob_source obs = FromPoll \<longrightarrow>
      ob_qty obs \<le> n + emitted_on x ds" if "chain_resolve (chain l') x = Some c"
    using that one rest earlier [OF that] unfolding ds o1 by fastforce
  moreover have "tracked X exq c x (n + emitted_on x ds) (T \<union> set (map fd_trade_id (deltas_on x ds))) l'"
    using rest unfolding ds by (simp add: add.assoc Un_assoc image_Un)
  ultimately show ?case
    using one rest nn unfolding ds by auto
qed

text \<open>
  C2. Exactly once across both lanes: however the poll readings and the order events of an order
  number interleave, repeat or go missing, and whatever is observed on other numbers, the quantity
  emitted on the number never exceeds what was executed, no trade id is used twice on it, and once a
  poll has shown the full executed quantity while the order stays open, exactly that was emitted.
\<close>

theorem fills_emitted_exactly_once:
  assumes "executions_ok X exq" and "list_all (\<lambda>(obs, now). truthful x X exq obs) os"
    and "ledger_ok l" and "chain_resolve (chain l) x = Some c" and "map_of (entries l) c = Some en"
    and "ordno_of en x = ordno_default" and "apply_all os l = (ds, l')"
  shows "emitted_on x ds \<le> true_fill X exq \<and> distinct (map fd_trade_id (deltas_on x ds)) \<and>
    (chain_resolve (chain l') x = Some c \<longrightarrow>
       list_ex (\<lambda>(obs, now). ob_ord_no obs = x \<and> ob_source obs = FromPoll \<and> ob_qty obs = true_fill X exq) os \<longrightarrow>
       emitted_on x ds = true_fill X exq)"
proof -
  have nn: "0 \<le> sum exq (X \<inter> en_seen_execnos en)" "0 \<le> true_fill X exq"
    using assms(1) unfolding executions_ok_def true_fill_def by (auto intro: sum_nonneg)
  have "tracked X exq c x 0 {} l"
    using assms(4-6) nn by (simp add: tracked_def ordno_default_def)
  note t = apply_all_tracked [OF assms(1-3) this assms(7)]
  then have le: "emitted_on x ds \<le> true_fill X exq" by (auto simp: tracked_def)
  have "true_fill X exq \<le> emitted_on x ds"
    if "chain_resolve (chain l') x = Some c"
      "list_ex (\<lambda>(obs, now). ob_ord_no obs = x \<and> ob_source obs = FromPoll \<and> ob_qty obs = true_fill X exq) os"
    using t that by (fastforce simp: list_ex_iff)
  with le t show ?thesis by auto
qed

section \<open>Completion is final\<close>

lemma apply_delta_client:
  assumes "ledger_apply obs now l = (out, l')" "d \<in> set (ao_deltas out)"
  shows "chain_resolve (chain l) (ob_ord_no obs) = Some (fd_client d)"
    and "chain_ok (chain l) \<Longrightarrow> fd_terminal d \<Longrightarrow> chain_resolve (chain l') x \<noteq> Some (fd_client d)"
  using assms
  by (auto elim!: ledger_apply_cases settle_cases simp: outcome_none_def outcome_reconcile_def
      dest: oc.own_drop_self)

lemma apply_all_unowned:
  assumes "apply_all os l = (ds, l')" "ledger_ok l" "\<And>x. chain_resolve (chain l) x \<noteq> Some c"
  shows "list_all (\<lambda>d. fd_client d \<noteq> c) ds"
  using assms
proof (induction os arbitrary: l ds)
  case (Cons o1 os)
  obtain obs now where o1: "o1 = (obs, now)" by fastforce
  obtain out l1 where a: "ledger_apply obs now l = (out, l1)" by fastforce
  obtain ds1 where r: "apply_all os l1 = (ds1, l')" and ds: "ds = ao_deltas out @ ds1"
    using Cons.prems(1) o1 a by (auto split: prod.splits)
  have "\<And>x. chain_resolve (chain l1) x \<noteq> Some c"
    using apply_resolves_back [OF a] Cons.prems(2,3) ledger_ok_chain by blast
  then have "list_all (\<lambda>d. fd_client d \<noteq> c) ds1"
    using Cons.IH [OF r ledger_ok_apply [OF Cons.prems(2) a]] by blast
  moreover have "list_all (\<lambda>d. fd_client d \<noteq> c) (ao_deltas out)"
    using apply_delta_client(1) [OF a] Cons.prems(3) by (fastforce simp: list_all_iff)
  ultimately show ?case unfolding ds by simp
qed simp

text \<open>
  Completion is final: once an application emitted the execution that completes an order, no
  later observation, on whatever number and from whichever lane, emits anything for that order.
\<close>

theorem completed_order_emits_nothing:
  assumes "ledger_ok l" and "ledger_apply obs now l = (out, l1)" and "d \<in> set (ao_deltas out)"
    and "fd_terminal d" and "apply_all os l1 = (ds, l2)"
  shows "list_all (\<lambda>d'. fd_client d' \<noteq> fd_client d) ds"
  using apply_all_unowned [OF assms(5) ledger_ok_apply [OF assms(1,2)]]
    apply_delta_client(2) [OF assms(2,3) ledger_ok_chain [OF assms(1)] assms(4)]
  by blast

section \<open>A concrete order\<close>

definition sample_order :: "string \<Rightarrow> int \<Rightarrow> order_any" where
  "sample_order c q = \<lparr>oa_client = c, oa_symbol = ''005930'', oa_side = Buy, oa_quantity = q, oa_price = Some 60000\<rparr>"

definition sample_ledger :: fill_ledger where
  "sample_ledger = ledger_register (sample_order ''c1'' 10) ''77'' ledger_new"

lemma sample_ledger_facts:
  "ledger_ok sample_ledger" "chain_resolve (chain sample_ledger) ''77'' = Some ''c1''"
  "\<exists>en. map_of (entries sample_ledger) ''c1'' = Some en \<and> ordno_of en ''77'' = ordno_default"
  by (auto simp: sample_ledger_def ledger_ok_register ledger_ok_new)
    (auto simp: ledger_register_def sample_order_def chain_resolve_register ordno_of_def)

definition sample_executions :: "string \<Rightarrow> int" where
  "sample_executions e = (if e = ''e1'' then 3 else 2)"

theorem fills_emitted_exactly_once_witness:
  "emitted_on ''77'' (fst (apply_all
     [(obs_sc ''77'' 3 60000 ''e1'', 0), (obs_poll ''77'' 3 60000 False, 1), (obs_sc ''77'' 3 60000 ''e1'', 2),
      (obs_poll ''77'' 5 60000 False, 3), (obs_sc ''77'' 2 60100 ''e2'', 4)] sample_ledger)) \<le> 5"
proof -
  let ?os = "[(obs_sc ''77'' 3 60000 ''e1'', 0), (obs_poll ''77'' 3 60000 False, 1),
    (obs_sc ''77'' 3 60000 ''e1'', 2), (obs_poll ''77'' 5 60000 False, 3), (obs_sc ''77'' 2 60100 ''e2'', 4)]
    :: (fill_observation \<times> nat) list"
  let ?X = "{''e1'', ''e2''}"
  have five: "true_fill ?X sample_executions = 5"
    by (simp add: true_fill_def sample_executions_def)
  then have ok: "executions_ok ?X sample_executions"
    by (simp add: executions_ok_def sample_executions_def i64_max_def)
  have tr: "list_all (\<lambda>(obs, now). truthful ''77'' ?X sample_executions obs) ?os"
    by (simp add: truthful_def obs_sc_def obs_poll_def five) (simp add: sample_executions_def)
  obtain en where en: "map_of (entries sample_ledger) ''c1'' = Some en" "ordno_of en ''77'' = ordno_default"
    using sample_ledger_facts(3) by blast
  obtain ds l' where "apply_all ?os sample_ledger = (ds, l')" by fastforce
  from fills_emitted_exactly_once [OF ok tr sample_ledger_facts(1,2) en this] this five show ?thesis by simp
qed

lemma sample_completion:
  "\<exists>out l1 d. ledger_apply (obs_poll ''77'' 10 60000 False) 0 sample_ledger = (out, l1) \<and>
     d \<in> set (ao_deltas out) \<and> fd_terminal d \<and> fd_client d = ''c1''"
  by (simp add: ledger_apply_def sample_ledger_def ledger_register_def sample_order_def obs_poll_def
      chain_resolve_register or_default_def source_cumulative_def settle_def ordno_of_def ordno_default_def
      set_ordno_def chain_total_def wrap64_id i64_ok_def i64_min_def i64_max_def Let_def)

theorem completed_order_emits_nothing_witness:
  "\<exists>out l1. ledger_apply (obs_poll ''77'' 10 60000 False) 0 sample_ledger = (out, l1) \<and>
     list_all (\<lambda>d. fd_client d \<noteq> ''c1'') (fst (apply_all [(obs_sc ''77'' 1 60000 ''e9'', 1)] l1))"
proof -
  obtain out l1 d where a: "ledger_apply (obs_poll ''77'' 10 60000 False) 0 sample_ledger = (out, l1)"
    "d \<in> set (ao_deltas out)" "fd_terminal d" "fd_client d = ''c1''"
    using sample_completion by blast
  obtain ds l2 where r: "apply_all [(obs_sc ''77'' 1 60000 ''e9'', 1)] l1 = (ds, l2)" by fastforce
  from completed_order_emits_nothing [OF sample_ledger_facts(1) a(1-3) r] a(1,4) r show ?thesis by simp
qed

end
