(* ===== verification/Numeric_Parse.thy ===== *)
theory Numeric_Parse
  imports F64 Ls_Error
begin

text \<open>
  \<open>adapters/nautilus/src/parse.rs\<close>: the two integer parsers of the adapter, and
  \<open>adapters/nautilus/src/guard.rs\<close>, the resting-price guard that relies on the strict one.
\<close>

section \<open>lossy_i64 and strict_i64\<close>

definition lossy_i64 :: "string \<Rightarrow> int" where
  "lossy_i64 s =
     (let t = trim s
      in if t = [] then 0
         else case parse_i64 t of
             Some i \<Rightarrow> i
           | None \<Rightarrow> (case parse_f64 t of Some f \<Rightarrow> f64_trunc_i64 f | None \<Rightarrow> 0))"

definition strict_i64 :: "string \<Rightarrow> string \<Rightarrow> adapter_error + int" where
  "strict_i64 field value =
     (let v = trim value
      in if v = [] then Inr 0
         else case parse_i64 v of
             Some i \<Rightarrow> Inr i
           | None \<Rightarrow> (case parse_f64 v of
               Some f \<Rightarrow> Inr (f64_trunc_i64 f)
             | None \<Rightarrow> Inl (FieldParse field value ''expected an integer amount'')))"

lemma strict_lossy: "strict_i64 field s = Inr i \<Longrightarrow> lossy_i64 s = i"
  by (auto simp: strict_i64_def lossy_i64_def Let_def split: if_splits option.splits)

lemma strict_error_lossy_zero: "strict_i64 field s = Inl e \<Longrightarrow> lossy_i64 s = 0"
  by (auto simp: strict_i64_def lossy_i64_def Let_def split: if_splits option.splits)

lemma f64_trunc_i64_ok [simp]: "i64_ok (f64_trunc_i64 f)"
  by (cases f) (auto simp: f64_trunc_i64_def i64_ok_def i64_min_def i64_max_def Let_def)

lemma lossy_i64_ok [simp]: "i64_ok (lossy_i64 s)"
  by (auto simp: lossy_i64_def Let_def i64_ok_def i64_min_def i64_max_def
      dest: parse_i64_ok split: option.splits)
    (insert f64_trunc_i64_ok parse_i64_ok, auto simp: i64_ok_def i64_min_def i64_max_def)

lemma strict_i64_show_nat: "int n \<le> i64_max \<Longrightarrow> strict_i64 field (show_nat n) = Inr (int n)"
  by (simp add: strict_i64_def Let_def parse_i64_show_nat)

text \<open>A decorated integer: the digits of \<open>n\<close>, a point, zeros.\<close>

lemma takeWhile_digits:
  "takeWhile is_digit (show_nat n @ CHR ''.'' # z) = show_nat n"
  "dropWhile is_digit (show_nat n @ CHR ''.'' # z) = CHR ''.'' # z"
proof -
  have d: "\<And>c. c \<in> set (show_nat n) \<Longrightarrow> is_digit c" using show_nat_digits by blast
  have "\<not> is_digit CHR ''.''" by (simp add: is_digit_def)
  with d show "takeWhile is_digit (show_nat n @ CHR ''.'' # z) = show_nat n"
    "dropWhile is_digit (show_nat n @ CHR ''.'' # z) = CHR ''.'' # z"
    by (simp_all add: takeWhile_append2 dropWhile_append2)
qed

lemma digits_value_zeros:
  "digits_value (s @ replicate k (CHR ''0'')) = digits_value s * 10 ^ k"
proof (induction k)
  case (Suc k)
  have "s @ replicate (Suc k) (CHR ''0'') = (s @ replicate k (CHR ''0'')) @ [CHR ''0'']"
    by (simp add: replicate_append_same)
  then have "digits_value (s @ replicate (Suc k) (CHR ''0'')) =
      10 * digits_value (s @ replicate k (CHR ''0''))"
    by (simp only: digits_value_def foldl_append) (simp add: digit_val_def)
  with Suc show ?case by simp
qed simp

lemma show_nat_low_not_alpha:
  "map ascii_lower (show_nat n @ CHR ''.'' # z) \<notin> {''nan'', ''inf'', ''infinity''}"
proof -
  obtain c cs where c: "show_nat n = c # cs" "list_all is_digit (c # cs)"
    by (rule show_nat_ConsE)
  then have "ascii_lower c = c"
    by (simp add: ascii_lower_def is_digit_def Let_def)
  with c show ?thesis by (auto simp: is_digit_def)
qed

lemma decorated_head:
  assumes "show_nat n = c # cs" "c \<noteq> CHR ''-''" "c \<noteq> CHR ''+''"
  shows "parse_f64 (show_nat n @ t) =
    (let low = map ascii_lower (show_nat n @ t)
     in if low = ''nan'' then Some NaN
        else if low = ''inf'' \<or> low = ''infinity'' then Some (Inf False)
        else parse_decimal False (show_nat n @ t))"
  using assms by (simp add: parse_f64_def Let_def)

lemma zeros_take:
  "takeWhile is_digit (replicate k (CHR ''0'')) = replicate k (CHR ''0'')"
  "dropWhile is_digit (replicate k (CHR ''0'')) = []"
  by (induction k) (simp_all add: is_digit_def)

lemma parse_decorated:
  assumes "n < 2 ^ 53" "0 < k"
  shows "\<exists>f. parse_f64 (show_nat n @ CHR ''.'' # replicate k (CHR ''0'')) = Some f \<and>
    f64_trunc_i64 f = int n"
proof -
  let ?s = "show_nat n @ CHR ''.'' # replicate k (CHR ''0'')"
  obtain c cs where c: "show_nat n = c # cs" "c \<noteq> CHR ''-''" "c \<noteq> CHR ''+''"
    by (rule show_nat_ConsE)
  have "parse_f64 ?s = parse_decimal False ?s"
    using show_nat_low_not_alpha [of n "replicate k (CHR ''0'')"]
    by (simp only: decorated_head [OF c] Let_def) auto
  also have "\<dots> = Some (round_f64 False (n * 10 ^ k) (10 ^ k))"
    using assms(2) unfolding parse_decimal_def takeWhile_digits
    by (simp add: zeros_take Let_def parse_exponent_def digits_value_zeros)
  finally show ?thesis using round_f64_exact [OF assms(1), of "10 ^ k" False] by simp
qed

lemma decorated_plain: "c \<in> set (show_nat n @ CHR ''.'' # replicate k (CHR ''0'')) \<Longrightarrow> plain_char c"
  using show_nat_digits by (auto simp: plain_char_def)

lemma decorated_not_int:
  "parse_i64 (show_nat n @ CHR ''.'' # z) = None"
proof -
  obtain c cs where c: "show_nat n = c # cs" "c \<noteq> CHR ''-''" "c \<noteq> CHR ''+''"
    by (rule show_nat_ConsE)
  moreover have "\<not> is_digit CHR ''.''" by (simp add: is_digit_def)
  ultimately show ?thesis by (simp add: parse_i64_def Let_def)
qed

section \<open>The resting-price guard\<close>

datatype guard_refusal =
    PriceNotInteger | AskUnparseable | LowerUnparseable | UpperUnparseable
  | NoAskSide | BandUnusable int int | AtOrAboveAsk int int | OutsideBand int int int

definition check_resting_price ::
    "string \<Rightarrow> string \<Rightarrow> string \<Rightarrow> string \<Rightarrow> guard_refusal + int" where
  "check_resting_price price offerho1 dnlmtprice uplmtprice =
     (case strict_i64 ''LS_NODE_PRICE'' price of Inl _ \<Rightarrow> Inl PriceNotInteger | Inr price' \<Rightarrow>
     (case strict_i64 ''offerho1'' offerho1 of Inl _ \<Rightarrow> Inl AskUnparseable | Inr best_ask \<Rightarrow>
     (case strict_i64 ''dnlmtprice'' dnlmtprice of Inl _ \<Rightarrow> Inl LowerUnparseable | Inr lower \<Rightarrow>
     (case strict_i64 ''uplmtprice'' uplmtprice of Inl _ \<Rightarrow> Inl UpperUnparseable | Inr upper \<Rightarrow>
        if best_ask \<le> 0 then Inl NoAskSide
        else if lower \<le> 0 \<or> upper \<le> 0 \<or> upper < lower then Inl (BandUnusable lower upper)
        else if price' \<ge> best_ask then Inl (AtOrAboveAsk price' best_ask)
        else if price' < lower \<or> price' > upper then Inl (OutsideBand price' lower upper)
        else Inr price'))))"

text \<open>
  The two parsers agree: whenever the strict one accepts a text, the lossy one reads the same
  number, and whenever the strict one refuses, the lossy one reads zero; every result is in
  \<open>i64\<close> range.
\<close>

theorem parsers_agree:
  "lossy_i64 s = (case strict_i64 field s of Inr i \<Rightarrow> i | Inl _ \<Rightarrow> 0) \<and> i64_ok (lossy_i64 s)"
  using strict_lossy [of field s] strict_error_lossy_zero [of field s]
  by (auto split: sum.splits)

text \<open>
  A gateway integer decorated with a point and zeros (\<open>60600.00\<close>) is read exactly, on the
  whole range where a double holds every integer: the detour through \<open>f64\<close> loses nothing.
\<close>

theorem strict_i64_decorated:
  assumes "n < 2 ^ 53" and "0 < k"
  shows "strict_i64 field (show_nat n @ CHR ''.'' # replicate k (CHR ''0'')) = Inr (int n)"
proof -
  let ?s = "show_nat n @ CHR ''.'' # replicate k (CHR ''0'')"
  have "trim ?s = ?s" by (rule trim_plain) (rule decorated_plain)
  moreover obtain f where "parse_f64 ?s = Some f" "f64_trunc_i64 f = int n"
    using parse_decorated [OF assms] by blast
  ultimately show ?thesis by (simp add: strict_i64_def Let_def decorated_not_int)
qed

theorem strict_i64_decorated_witness:
  "strict_i64 ''offerho1'' (show_nat 60600 @ CHR ''.'' # replicate 2 (CHR ''0'')) = Inr 60600"
  using strict_i64_decorated [of 60600 2 "''offerho1''"] by simp

text \<open>
  The guard is fail-closed: it lets a price through only when all four fields parse, the
  best ask and the band are positive and the band is not inverted, the price is strictly below
  the best ask and inside the band.
\<close>

theorem check_resting_price_sound:
  assumes "check_resting_price price ask lo hi = Inr p"
  shows "strict_i64 ''LS_NODE_PRICE'' price = Inr p \<and>
    (\<exists>a l u. strict_i64 ''offerho1'' ask = Inr a \<and> strict_i64 ''dnlmtprice'' lo = Inr l \<and>
      strict_i64 ''uplmtprice'' hi = Inr u \<and> 0 < l \<and> l \<le> p \<and> p \<le> u \<and> p < a)"
  using assms by (auto simp: check_resting_price_def split: sum.splits if_splits)

theorem check_resting_price_sound_witness:
  "check_resting_price ''60000'' ''60600'' ''42000'' ''78000'' = Inr 60000 \<and>
   (\<exists>a. strict_i64 ''offerho1'' ''60600'' = Inr a \<and> 60000 < a)"
proof -
  have s: "show_nat 60000 = ''60000''" "show_nat 60600 = ''60600''" "show_nat 42000 = ''42000''"
    "show_nat 78000 = ''78000''"
    by (simp_all add: show_nat.simps)
  have n: "strict_i64 f ''60000'' = Inr 60000" "strict_i64 f ''60600'' = Inr 60600"
    "strict_i64 f ''42000'' = Inr 42000" "strict_i64 f ''78000'' = Inr 78000" for f
    using strict_i64_show_nat [of 60000 f] strict_i64_show_nat [of 60600 f]
      strict_i64_show_nat [of 42000 f] strict_i64_show_nat [of 78000 f]
    by (simp_all add: s i64_max_def)
  then have "check_resting_price ''60000'' ''60600'' ''42000'' ''78000'' = Inr 60000"
    by (simp add: check_resting_price_def)
  from this check_resting_price_sound [OF this] show ?thesis by auto
qed

text \<open>The strict parser's silent readings: texts that are numbers to \<open>f64\<close> only.\<close>

lemma strict_i64_nan: "strict_i64 field ''nan'' = Inr 0"
proof -
  have "trim ''nan'' = ''nan''" by (rule trim_plain) (auto simp: plain_char_def)
  then show ?thesis
    by (simp add: strict_i64_def parse_i64_def parse_f64_def is_digit_def f64_trunc_i64_def Let_def
        ascii_lower_def)
qed

lemma strict_i64_inf: "strict_i64 field ''inf'' = Inr i64_max"
proof -
  have "trim ''inf'' = ''inf''" by (rule trim_plain) (auto simp: plain_char_def)
  then show ?thesis
    by (simp add: strict_i64_def parse_i64_def parse_f64_def is_digit_def f64_trunc_i64_def Let_def
        ascii_lower_def)
qed

end
