(* ===== verification/Poll.thy ===== *)
theory Poll
  imports Fill_Ledger Numeric_Parse Reconcile
begin

text \<open>
  \<open>adapters/nautilus/src/orders/poll.rs\<close>: the poll lane, which reads one \<open>t0425\<close> page per symbol
  and feeds the ledger, and the bounded drive around it. The fetcher is a function of the number of
  calls made before; a failed fetch is \<open>None\<close>. The lane's pacing and backoff only delay it.
\<close>

section \<open>One pass\<close>

record poll_outcome =
  po_deltas :: "fill_delta list"
  po_reconcile_needed :: bool

definition poll_default :: poll_outcome where
  "poll_default = \<lparr>po_deltas = [], po_reconcile_needed = False\<rparr>"

record poll_state =
  p_ledger :: fill_ledger
  p_fetched :: "string list"

type_synonym fetcher = "nat \<Rightarrow> string \<Rightarrow> t0425_response option"

definition side_from_medosu :: "string \<Rightarrow> order_side option" where
  "side_from_medosu m =
     (let t = trim m
      in if t = kr_buy \<or> t = ''2'' then Some Buy
         else if t = kr_sell \<or> t = ''1'' then Some Sell
         else None)"

text \<open>The row's symbol, side, quantity and price against a candidate's.\<close>

definition corroborates :: "string \<Rightarrow> order_side \<Rightarrow> int \<Rightarrow> int \<Rightarrow> recon_candidate \<Rightarrow> bool" where
  "corroborates symbol side q p cand \<longleftrightarrow>
     rc_symbol cand = symbol \<and> rc_side cand = side \<and> rc_qty cand = q \<and> rc_price cand = p"

text \<open>The adopted order, the ledger, and whether to flag a reconcile.\<close>

definition adopt_unknown_row ::
    "fill_ledger \<Rightarrow> string \<Rightarrow> t0425_row \<Rightarrow> string \<Rightarrow> string option \<times> fill_ledger \<times> bool" where
  "adopt_unknown_row led symbol row ord_no =
     (let org = trim (orgordno row)
      in if org \<noteq> [] \<and> ledger_resolve led org \<noteq> None
         then (let (_, led1) = ledger_adopt ord_no org led in (ledger_resolve led1 ord_no, led1, False))
         else case side_from_medosu (medosu row) of
             None \<Rightarrow> (None, led, True)
           | Some side \<Rightarrow>
               (case filter (corroborates symbol side (lossy_i64 (qty row)) (lossy_i64 (price row)))
                  (open_recon_candidates led) of
                  [only] \<Rightarrow> (Some (rc_client only), snd (ledger_adopt_for_client ord_no (rc_client only) led), False)
                | _ \<Rightarrow> (None, led, True)))"

definition apply_row :: "nat \<Rightarrow> string \<Rightarrow> t0425_row \<Rightarrow> poll_outcome \<times> fill_ledger \<Rightarrow> poll_outcome \<times> fill_ledger" where
  "apply_row now symbol row = (\<lambda>(out, led).
     (let ord_no = trim (ordno row)
      in if ord_no = [] then (out, led)
         else case strict_i64 ''cheqty'' (cheqty row) of
             Inl _ \<Rightarrow> (out\<lparr>po_reconcile_needed := True\<rparr>, led)
           | Inr q \<Rightarrow>
               (let (client, led1, flag) = (case ledger_resolve led ord_no of
                      Some c \<Rightarrow> (Some c, led, False)
                    | None \<Rightarrow> adopt_unknown_row led symbol row ord_no);
                    out1 = (if flag then out\<lparr>po_reconcile_needed := True\<rparr> else out)
                in case client of
                     None \<Rightarrow> (out1\<lparr>po_reconcile_needed := True\<rparr>, led1)
                   | Some c \<Rightarrow>
                       (let lim = (case limit_price led1 c of Some p \<Rightarrow> p | None \<Rightarrow> lossy_i64 (price row));
                            che = lossy_i64 (cheprice row);
                            (p, approx) = (if 0 < che then (che, False) else (lim, True));
                            sym = (if trim symbol \<noteq> [] then Some (trim symbol) else None);
                            (ao, led2) = ledger_apply (with_symbol sym (obs_poll ord_no q p approx)) now led1
                        in (out1\<lparr>po_deltas := po_deltas out1 @ ao_deltas ao,
                              po_reconcile_needed := po_reconcile_needed out1 \<or> ao_reconcile_needed ao\<rparr>, led2)))))"

text \<open>The state of the loop over the symbols: the outcome, the symbols scanned, the poll's state.\<close>

definition poll_symbol :: "fetcher \<Rightarrow> string \<Rightarrow> poll_outcome \<times> string list \<times> poll_state \<Rightarrow>
    poll_outcome \<times> string list \<times> poll_state" where
  "poll_symbol fetch symbol = (\<lambda>(out, scanned, s).
     (let n = length (p_fetched s);
          s1 = s\<lparr>p_fetched := p_fetched s @ [symbol]\<rparr>
      in case fetch n symbol of
           None \<Rightarrow> (out\<lparr>po_reconcile_needed := True\<rparr>, scanned, s1)
         | Some resp \<Rightarrow>
             if trim (t_cts_ordno resp) \<noteq> [] then (out\<lparr>po_reconcile_needed := True\<rparr>, scanned, s1)
             else (let (out1, led1) = fold (apply_row n symbol) (outblock1 resp) (out, p_ledger s1)
                   in (out1, scanned @ [symbol], s1\<lparr>p_ledger := led1\<rparr>))))"

definition poll_set :: "fill_ledger \<Rightarrow> string list" where
  "poll_set led = sorted_list_of_set (set (open_symbols led) \<union> pending_reconcile led)"

definition poll_open_orders :: "fetcher \<Rightarrow> poll_state \<Rightarrow> poll_outcome \<times> poll_state" where
  "poll_open_orders fetch s =
     (let symbols = poll_set (p_ledger s);
          (pending, led) = take_pending_symbols (p_ledger s);
          (out, scanned, s1) = fold (poll_symbol fetch) symbols (poll_default, [], s\<lparr>p_ledger := led\<rparr>);
          unscanned = filter (\<lambda>x. x \<notin> set scanned) pending
      in (out, if unscanned \<noteq> [] then s1\<lparr>p_ledger := reinsert_pending_symbols unscanned (p_ledger s1)\<rparr> else s1))"

section \<open>The bounded drive\<close>

definition DRIVE_MAX_REPOLLS :: nat where "DRIVE_MAX_REPOLLS = 2"

datatype drive_terminal = Resolved | Exhausted

record driven_outcome =
  dr_deltas :: "fill_delta list"
  dr_terminal :: drive_terminal

text \<open>The loop of \<open>drive_poll_pass\<close> after a pass; the first argument counts the re-polls left.\<close>

fun drive_loop :: "nat \<Rightarrow> fetcher \<Rightarrow> poll_outcome \<Rightarrow> fill_delta list \<Rightarrow> poll_state \<Rightarrow> driven_outcome \<times> poll_state" where
  "drive_loop repolls fetch pass deltas s =
     (if po_reconcile_needed pass
      then (case repolls of
          0 \<Rightarrow> (\<lparr>dr_deltas = deltas, dr_terminal = Exhausted\<rparr>, s)
        | Suc n \<Rightarrow> (let (pass1, s1) = poll_open_orders fetch s
                   in drive_loop n fetch pass1 (deltas @ po_deltas pass1) s1))
      else (\<lparr>dr_deltas = deltas, dr_terminal = Resolved\<rparr>, s))"

declare drive_loop.simps [simp del]

definition drive_poll_pass :: "fetcher \<Rightarrow> poll_state \<Rightarrow> driven_outcome \<times> poll_state" where
  "drive_poll_pass fetch s =
     (let (pass, s1) = poll_open_orders fetch s
      in drive_loop DRIVE_MAX_REPOLLS fetch pass (po_deltas pass) s1)"

definition exhausted :: "driven_outcome \<Rightarrow> bool" where
  "exhausted d = (dr_terminal d = Exhausted)"

section \<open>Every pass keeps the ledger's invariant\<close>

definition ledger_wf :: "fill_ledger \<Rightarrow> bool" where
  "ledger_wf l \<longleftrightarrow> ledger_ok l \<and> wf_map (entries l)"

lemma ledger_wf_cong:
  "ledger_wf l \<Longrightarrow> chain l' = chain l \<Longrightarrow> entries l' = entries l \<Longrightarrow> ledger_wf l'"
  using ledger_ok_cong by (auto simp: ledger_wf_def)

lemma ledger_wf_apply:
  assumes "ledger_wf l" "ledger_apply obs now l = (out, l')"
  shows "ledger_wf l'"
  using assms ledger_ok_apply [OF _ assms(2)]
  by (auto simp: ledger_wf_def elim!: ledger_apply_cases settle_cases)
    (auto simp: put_entry_def)

lemma wf_open_ordno: "wf_map (entries l) \<Longrightarrow> wf_map (entries (open_ordno c x l))"
  by (simp add: open_ordno_def split: option.split)

lemma ledger_wf_adopt:
  "ledger_wf l \<Longrightarrow> ledger_wf (snd (ledger_adopt x known l))"
  using ledger_ok_adopt by (auto simp: ledger_wf_def ledger_adopt_def wf_open_ordno split: option.split)

lemma candidate_open:
  assumes "ledger_wf l" "cand \<in> set (open_recon_candidates l)"
  shows "\<exists>en. map_of (entries l) (rc_client cand) = Some en \<and> \<not> en_terminal en"
  using assms by (fastforce simp: ledger_wf_def open_recon_candidates_def)

lemma ledger_wf_adopt_row:
  assumes "ledger_wf l" "adopt_unknown_row l symbol row x = (c, l', flag)"
  shows "ledger_wf l' \<and> fills l' = fills l \<and> pending_reconcile l' = pending_reconcile l"
proof (cases "trim (orgordno row) \<noteq> [] \<and> ledger_resolve l (trim (orgordno row)) \<noteq> None")
  case True
  with assms(2) have "l' = snd (ledger_adopt x (trim (orgordno row)) l)"
    by (auto simp: adopt_unknown_row_def split: prod.splits)
  moreover have "fills (snd (ledger_adopt x y l)) = fills l \<and>
      pending_reconcile (snd (ledger_adopt x y l)) = pending_reconcile l" for y
    by (simp add: ledger_adopt_def open_ordno_def split: option.split)
  ultimately show ?thesis using ledger_wf_adopt [OF assms(1)] by simp
next
  case False
  have adopt: "ledger_wf (snd (ledger_adopt_for_client x (rc_client cand) l)) \<and>
      fills (snd (ledger_adopt_for_client x (rc_client cand) l)) = fills l \<and>
      pending_reconcile (snd (ledger_adopt_for_client x (rc_client cand) l)) = pending_reconcile l"
    if cand: "cand \<in> set (open_recon_candidates l)" for cand
  proof -
    obtain en where "map_of (entries l) (rc_client cand) = Some en" "\<not> en_terminal en"
      using candidate_open [OF assms(1) cand] by blast
    with assms(1) show ?thesis
      using ledger_ok_adopt_for_client
      by (auto simp: ledger_wf_def ledger_adopt_for_client_def open_ordno_def)
  qed
  show ?thesis
  proof (cases "side_from_medosu (medosu row)")
    case None
    with assms False show ?thesis by (auto simp: adopt_unknown_row_def Let_def)
  next
    case (Some side)
    let ?m = "filter (corroborates symbol side (lossy_i64 (qty row)) (lossy_i64 (price row)))
      (open_recon_candidates l)"
    show ?thesis
    proof (cases "\<exists>only. ?m = [only]")
      case True
      then obtain only where only: "?m = [only]" by blast
      then have "only \<in> set ?m" by simp
      then have "only \<in> set (open_recon_candidates l)" by simp
      note adopt [OF this]
      moreover have "l' = snd (ledger_adopt_for_client x (rc_client only) l)"
        using assms(2) False Some only by (auto simp: adopt_unknown_row_def Let_def)
      ultimately show ?thesis by simp
    next
      case many: False
      have "l' = l"
        using assms(2) False Some many
        by (auto simp: adopt_unknown_row_def Let_def split: list.splits)
      with assms(1) show ?thesis by simp
    qed
  qed
qed

lemma apply_poll_pending:
  assumes "ledger_apply obs now l = (out, l')" "ob_source obs = FromPoll"
  shows "pending_reconcile l' = pending_reconcile l"
  using assms
  by (auto elim!: ledger_apply_cases settle_cases simp: note_unknown_symbol_def put_entry_def)

lemma apply_row_frame:
  assumes "apply_row now symbol row (out, l) = (out', l')" "ledger_wf l"
  shows "ledger_wf l' \<and> pending_reconcile l' = pending_reconcile l \<and>
    (po_reconcile_needed out \<longrightarrow> po_reconcile_needed out')"
proof -
  let ?x = "trim (ordno row)"
  show ?thesis
  proof (cases "?x = []")
    case True
    with assms show ?thesis by (simp add: apply_row_def)
  next
    case x: False
    show ?thesis
    proof (cases "strict_i64 ''cheqty'' (cheqty row)")
      case (Inl err)
      with assms x show ?thesis by (auto simp: apply_row_def)
    next
      case (Inr q)
      obtain c l1 flag where r: "(case ledger_resolve l ?x of Some c \<Rightarrow> (Some c, l, False)
          | None \<Rightarrow> adopt_unknown_row l symbol row ?x) = (c, l1, flag)"
        using prod_cases3 by blast
      have l1: "ledger_wf l1 \<and> pending_reconcile l1 = pending_reconcile l"
        using r assms(2) ledger_wf_adopt_row [OF assms(2)] by (auto split: option.splits)
      show ?thesis
      proof (cases c)
        case None
        with assms(1) x Inr r l1 show ?thesis by (auto simp: apply_row_def Let_def)
      next
        case (Some c')
        obtain p approx where p: "(if 0 < lossy_i64 (cheprice row) then (lossy_i64 (cheprice row), False)
            else ((case limit_price l1 c' of Some p \<Rightarrow> p | None \<Rightarrow> lossy_i64 (price row)), True)) = (p, approx)"
          by fastforce
        let ?obs = "with_symbol (if trim symbol \<noteq> [] then Some (trim symbol) else None) (obs_poll ?x q p approx)"
        obtain ao l2 where a: "ledger_apply ?obs now l1 = (ao, l2)" by fastforce
        have "l' = l2" "po_reconcile_needed out \<longrightarrow> po_reconcile_needed out'"
          using assms(1) x Inr r Some p a by (auto simp: apply_row_def Let_def split: if_splits)
        moreover have "ob_source ?obs = FromPoll" by (simp add: with_symbol_def obs_poll_def)
        ultimately show ?thesis
          using l1 ledger_wf_apply [OF _ a] apply_poll_pending [OF a] by simp
      qed
    qed
  qed
qed

lemma apply_rows_frame:
  assumes "fold (apply_row now symbol) rows (out, l) = (out', l')" "ledger_wf l"
  shows "ledger_wf l' \<and> pending_reconcile l' = pending_reconcile l \<and>
    (po_reconcile_needed out \<longrightarrow> po_reconcile_needed out')"
  using assms
proof (induction rows arbitrary: out l)
  case (Cons row rows)
  obtain out1 l1 where one: "apply_row now symbol row (out, l) = (out1, l1)" by fastforce
  with Cons.prems have "fold (apply_row now symbol) rows (out1, l1) = (out', l')" by simp
  from Cons.IH [OF this] apply_row_frame [OF one Cons.prems(2)] show ?case by simp
qed simp

section \<open>What a pass owes\<close>

text \<open>A fetch that concludes: it answered, and its page has no further cursor.\<close>

definition conclusive :: "t0425_response option \<Rightarrow> bool" where
  "conclusive r \<longleftrightarrow> (\<exists>resp. r = Some resp \<and> trim (t_cts_ordno resp) = [])"

lemma poll_symbol_frame:
  assumes "poll_symbol fetch symbol (out, scanned, s) = (out', scanned', s')" "ledger_wf (p_ledger s)"
  shows "ledger_wf (p_ledger s') \<and> pending_reconcile (p_ledger s') = pending_reconcile (p_ledger s) \<and>
    p_fetched s' = p_fetched s @ [symbol] \<and> (po_reconcile_needed out \<longrightarrow> po_reconcile_needed out') \<and>
    (if conclusive (fetch (length (p_fetched s)) symbol) then scanned' = scanned @ [symbol]
     else scanned' = scanned \<and> po_reconcile_needed out' \<and> po_deltas out' = po_deltas out \<and>
       p_ledger s' = p_ledger s)"
proof (cases "conclusive (fetch (length (p_fetched s)) symbol)")
  case False
  with assms show ?thesis
    by (auto simp: poll_symbol_def conclusive_def Let_def split: option.splits if_splits)
next
  case True
  then obtain resp where resp: "fetch (length (p_fetched s)) symbol = Some resp" "trim (t_cts_ordno resp) = []"
    by (auto simp: conclusive_def)
  obtain out1 l1 where rows: "fold (apply_row (length (p_fetched s)) symbol) (outblock1 resp) (out, p_ledger s) = (out1, l1)"
    by fastforce
  with assms resp have "out' = out1" "scanned' = scanned @ [symbol]"
    "s' = s\<lparr>p_fetched := p_fetched s @ [symbol], p_ledger := l1\<rparr>"
    by (auto simp: poll_symbol_def Let_def)
  with apply_rows_frame [OF rows assms(2)] True show ?thesis by simp
qed

lemma poll_symbols_frame:
  assumes "fold (poll_symbol fetch) symbols (out, scanned, s) = (out', scanned', s')" "ledger_wf (p_ledger s)"
  shows "ledger_wf (p_ledger s') \<and> pending_reconcile (p_ledger s') = pending_reconcile (p_ledger s) \<and>
    p_fetched s' = p_fetched s @ symbols \<and> (po_reconcile_needed out \<longrightarrow> po_reconcile_needed out') \<and>
    set scanned' \<subseteq> set scanned \<union> {x. x \<in> set symbols \<and> (\<exists>n. conclusive (fetch n x))} \<and>
    (\<forall>x \<in> set symbols. x \<in> set scanned' \<or> po_reconcile_needed out') \<and> set scanned \<subseteq> set scanned' \<and>
    ((\<forall>n x. \<not> conclusive (fetch n x)) \<longrightarrow> scanned' = scanned \<and> po_deltas out' = po_deltas out \<and> p_ledger s' = p_ledger s)"
  using assms
proof (induction symbols arbitrary: out scanned s)
  case (Cons x xs)
  obtain out1 scanned1 s1 where one: "poll_symbol fetch x (out, scanned, s) = (out1, scanned1, s1)"
    by (metis prod_cases3)
  with Cons.prems have rest: "fold (poll_symbol fetch) xs (out1, scanned1, s1) = (out', scanned', s')" by simp
  note f1 = poll_symbol_frame [OF one Cons.prems(2)]
  note f2 = Cons.IH [OF rest conjunct1 [OF f1]]
  show ?case
  proof (cases "conclusive (fetch (length (p_fetched s)) x)")
    case True
    with f1 have s1: "scanned1 = scanned @ [x]" by simp
    then show ?thesis using f1 f2 True by auto
  next
    case False
    with f1 have s1: "scanned1 = scanned" "po_reconcile_needed out1" "po_deltas out1 = po_deltas out"
      "p_ledger s1 = p_ledger s" by simp_all
    then show ?thesis using f1 f2 by auto
  qed
qed simp

lemma record_pending_set:
  "pending_reconcile (record_pending_symbol x l) =
     (if trim x \<noteq> [] then insert (trim x) (pending_reconcile l) else pending_reconcile l)"
  by (simp add: record_pending_symbol_def Let_def)

lemma reinsert_set:
  "pending_reconcile (reinsert_pending_symbols xs l) =
     pending_reconcile l \<union> {trim x |x. x \<in> set xs \<and> trim x \<noteq> []}"
proof (induction xs arbitrary: l)
  case (Cons x xs)
  have "reinsert_pending_symbols (x # xs) l = reinsert_pending_symbols xs (record_pending_symbol x l)"
    by (simp add: reinsert_pending_symbols_def)
  then show ?case by (auto simp: Cons.IH record_pending_set)
qed (simp add: reinsert_pending_symbols_def)

lemma reinsert_frame:
  "chain (reinsert_pending_symbols xs l) = chain l" "entries (reinsert_pending_symbols xs l) = entries l"
  "fills (reinsert_pending_symbols xs l) = fills l"
  by (induction xs arbitrary: l) (simp_all add: reinsert_pending_symbols_def)

text \<open>Pending symbols are stored trimmed and never blank; every way in goes through \<open>trim\<close>.\<close>

definition pending_ok :: "fill_ledger \<Rightarrow> bool" where
  "pending_ok l \<longleftrightarrow> finite (pending_reconcile l) \<and> (\<forall>x \<in> pending_reconcile l. trim x = x \<and> x \<noteq> [])"

lemma pending_ok_record: "pending_ok l \<Longrightarrow> pending_ok (record_pending_symbol x l)"
  by (simp add: pending_ok_def record_pending_set)

lemma open_symbols_finite [simp]: "finite (set (open_symbols l))"
  by simp

lemma poll_open_orders_cases:
  assumes "poll_open_orders fetch s = (out, s')" "ledger_wf (p_ledger s)" "pending_ok (p_ledger s)"
  obtains scanned s1 where
    "fold (poll_symbol fetch) (poll_set (p_ledger s))
       (poll_default, [], s\<lparr>p_ledger := (p_ledger s)\<lparr>pending_reconcile := {}\<rparr>\<rparr>) = (out, scanned, s1)"
    "ledger_wf (p_ledger s1)" "pending_reconcile (p_ledger s1) = {}"
    "p_fetched s' = p_fetched s1" "chain (p_ledger s') = chain (p_ledger s1)"
    "entries (p_ledger s') = entries (p_ledger s1)" "fills (p_ledger s') = fills (p_ledger s1)"
    "pending_reconcile (p_ledger s') = {x \<in> pending_reconcile (p_ledger s). x \<notin> set scanned}"
proof -
  let ?l0 = "(p_ledger s)\<lparr>pending_reconcile := {}\<rparr>"
  obtain scanned s1 out1 where f: "fold (poll_symbol fetch) (poll_set (p_ledger s))
      (poll_default, [], s\<lparr>p_ledger := ?l0\<rparr>) = (out1, scanned, s1)"
    by (metis prod_cases3)
  have wf0: "ledger_wf ?l0" by (rule ledger_wf_cong [OF assms(2)]) simp_all
  have fr: "ledger_wf (p_ledger s1)" "pending_reconcile (p_ledger s1) = {}"
    using poll_symbols_frame [OF f] wf0 by simp_all
  have fin: "finite (pending_reconcile (p_ledger s))" using assms(3) by (simp add: pending_ok_def)
  let ?un = "filter (\<lambda>x. x \<notin> set scanned) (sorted_list_of_set (pending_reconcile (p_ledger s)))"
  have s': "out = out1" "s' = (if ?un \<noteq> []
      then s1\<lparr>p_ledger := reinsert_pending_symbols ?un (p_ledger s1)\<rparr> else s1)"
    using assms(1) f by (simp_all add: poll_open_orders_def take_pending_symbols_def Let_def split: if_splits)
  have pended: "pending_reconcile (p_ledger (if un \<noteq> [] then s1\<lparr>p_ledger := reinsert_pending_symbols un (p_ledger s1)\<rparr> else s1))
      = pending_reconcile (p_ledger s1) \<union> {trim x |x. x \<in> set un \<and> trim x \<noteq> []}" for un
    by (simp add: reinsert_set)
  have "{trim x |x. x \<in> set ?un \<and> trim x \<noteq> []} = {x \<in> pending_reconcile (p_ledger s). x \<notin> set scanned}"
  proof -
    have un: "set ?un = {x \<in> pending_reconcile (p_ledger s). x \<notin> set scanned}"
      by (simp only: set_filter set_sorted_list_of_set [OF fin])
    have ok: "trim x = x" "x \<noteq> []" if "x \<in> pending_reconcile (p_ledger s)" for x
      using assms(3) that unfolding pending_ok_def by fast+
    show ?thesis unfolding un by (rule set_eqI) (use ok in \<open>auto simp only: mem_Collect_eq; metis\<close>)
  qed
  then have pend: "pending_reconcile (p_ledger s') = {x \<in> pending_reconcile (p_ledger s). x \<notin> set scanned}"
    using pended [of ?un] fr(2) s'(2) by (simp only: Un_empty_left)
  have fields: "p_fetched (if un \<noteq> [] then s1\<lparr>p_ledger := reinsert_pending_symbols un (p_ledger s1)\<rparr> else s1) = p_fetched s1"
    "chain (p_ledger (if un \<noteq> [] then s1\<lparr>p_ledger := reinsert_pending_symbols un (p_ledger s1)\<rparr> else s1)) = chain (p_ledger s1)"
    "entries (p_ledger (if un \<noteq> [] then s1\<lparr>p_ledger := reinsert_pending_symbols un (p_ledger s1)\<rparr> else s1)) = entries (p_ledger s1)"
    "fills (p_ledger (if un \<noteq> [] then s1\<lparr>p_ledger := reinsert_pending_symbols un (p_ledger s1)\<rparr> else s1)) = fills (p_ledger s1)" for un
    by (simp_all add: reinsert_frame)
  have "p_fetched s' = p_fetched s1" "chain (p_ledger s') = chain (p_ledger s1)"
    "entries (p_ledger s') = entries (p_ledger s1)" "fills (p_ledger s') = fills (p_ledger s1)"
    using s'(2) fields [of ?un] by presburger+
  then show ?thesis using that [of scanned s1] f fr s'(1) pend by blast
qed

lemma poll_set_members:
  "pending_ok l \<Longrightarrow> set (poll_set l) = set (open_symbols l) \<union> pending_reconcile l"
  by (simp add: poll_set_def pending_ok_def)

text \<open>
  C28. No owed scan is lost: a pass asks for every open and every owed symbol once; an owed symbol
  leaves the set only if its fetch concluded (an answer with no further cursor), nothing new is owed,
  and a pass that asks for no reconcile has concluded on every symbol and owes none.
\<close>

theorem no_owed_scan_is_lost:
  assumes "poll_open_orders fetch s = (out, s')" and "ledger_wf (p_ledger s)" and "pending_ok (p_ledger s)"
  shows "ledger_wf (p_ledger s') \<and> pending_ok (p_ledger s') \<and>
    p_fetched s' = p_fetched s @ poll_set (p_ledger s) \<and>
    pending_reconcile (p_ledger s') \<subseteq> pending_reconcile (p_ledger s) \<and>
    (\<forall>x. x \<in> pending_reconcile (p_ledger s) - pending_reconcile (p_ledger s') \<longrightarrow> (\<exists>n. conclusive (fetch n x))) \<and>
    (po_reconcile_needed out \<or> pending_reconcile (p_ledger s') = {} \<and>
       set (poll_set (p_ledger s)) \<subseteq> {x. \<exists>n. conclusive (fetch n x)})"
  using assms
proof (cases rule: poll_open_orders_cases)
  case (1 scanned s1)
  let ?l0 = "(p_ledger s)\<lparr>pending_reconcile := {}\<rparr>"
  have wf0: "ledger_wf ?l0" by (rule ledger_wf_cong [OF assms(2)]) simp_all
  note fr = poll_symbols_frame [OF 1(1)]
  have scan: "set scanned \<subseteq> {x. x \<in> set (poll_set (p_ledger s)) \<and> (\<exists>n. conclusive (fetch n x))}"
    "\<forall>x \<in> set (poll_set (p_ledger s)). x \<in> set scanned \<or> po_reconcile_needed out"
    "p_fetched s1 = p_fetched s @ poll_set (p_ledger s)"
    using fr wf0 by simp_all
  have "ledger_wf (p_ledger s')"
    using 1(2,5,6) ledger_wf_cong by blast
  moreover have "pending_ok (p_ledger s')"
    using assms(3) 1(8) by (auto simp: pending_ok_def)
  ultimately show ?thesis
    using scan 1(4,8) poll_set_members [OF assms(3)] by auto
qed

text \<open>
  A read that shows nothing proves nothing: a pass in which every fetch failed or came back
  truncated emits nothing, leaves every order, chain, execution and owed symbol as it was, and asks
  for a reconcile unless it had nothing to ask.
\<close>

theorem inconclusive_pass_concludes_nothing:
  assumes "poll_open_orders fetch s = (out, s')" and "ledger_wf (p_ledger s)" and "pending_ok (p_ledger s)"
    and "\<And>n x. \<not> conclusive (fetch n x)"
  shows "po_deltas out = [] \<and> p_ledger s' = p_ledger s \<and>
    (po_reconcile_needed out \<or> poll_set (p_ledger s) = [])"
  using assms(1-3)
proof (cases rule: poll_open_orders_cases)
  case (1 scanned s1)
  let ?l0 = "(p_ledger s)\<lparr>pending_reconcile := {}\<rparr>"
  have wf0: "ledger_wf ?l0" by (rule ledger_wf_cong [OF assms(2)]) simp_all
  note frame = poll_symbols_frame [OF 1(1)]
  have fr: "scanned = []" "po_deltas out = []" "p_ledger s1 = ?l0"
    using frame wf0 assms(4) by (simp_all add: poll_default_def)
  have "\<forall>x \<in> set (poll_set (p_ledger s)). x \<in> set scanned \<or> po_reconcile_needed out"
    using frame wf0 by simp
  then have "po_reconcile_needed out \<or> poll_set (p_ledger s) = []"
    using fr(1) by (cases "poll_set (p_ledger s)") auto
  moreover have "p_ledger s' = p_ledger s"
    using 1(5-8) fr by (simp add: fill_ledger.equality)
  ultimately show ?thesis using fr(2) by simp
qed

section \<open>The drive\<close>

fun passes :: "nat \<Rightarrow> fetcher \<Rightarrow> poll_state \<Rightarrow> poll_outcome list \<times> poll_state" where
  "passes 0 fetch s = ([], s)"
| "passes (Suc n) fetch s =
     (let (out, s1) = poll_open_orders fetch s; (outs, s2) = passes n fetch s1 in (out # outs, s2))"

lemma drive_loop_passes:
  assumes "drive_loop n fetch pass deltas s = (d, s')"
  shows "\<exists>k outs. k \<le> n \<and> passes k fetch s = (outs, s') \<and>
    dr_deltas d = deltas @ concat (map po_deltas outs) \<and>
    list_all po_reconcile_needed (butlast (pass # outs)) \<and>
    (if dr_terminal d = Exhausted then k = n \<and> po_reconcile_needed (last (pass # outs))
     else \<not> po_reconcile_needed (last (pass # outs)))"
  using assms
proof (induction n arbitrary: pass deltas s)
  case 0
  then show ?case by (auto simp: drive_loop.simps [of 0] intro!: exI [of _ 0] split: if_splits)
next
  case (Suc n)
  show ?case
  proof (cases "po_reconcile_needed pass")
    case False
    with Suc.prems show ?thesis
      by (auto simp: drive_loop.simps [of "Suc n"] intro!: exI [of _ 0])
  next
    case True
    obtain pass1 s1 where p: "poll_open_orders fetch s = (pass1, s1)" by fastforce
    with True Suc.prems have "drive_loop n fetch pass1 (deltas @ po_deltas pass1) s1 = (d, s')"
      by (simp add: drive_loop.simps [of "Suc n"])
    from Suc.IH [OF this] obtain k outs where k: "k \<le> n" "passes k fetch s1 = (outs, s')"
      "dr_deltas d = (deltas @ po_deltas pass1) @ concat (map po_deltas outs)"
      "list_all po_reconcile_needed (butlast (pass1 # outs))"
      "if dr_terminal d = Exhausted then k = n \<and> po_reconcile_needed (last (pass1 # outs))
       else \<not> po_reconcile_needed (last (pass1 # outs))" by blast
    show ?thesis
      by (rule exI [of _ "Suc k"], rule exI [of _ "pass1 # outs"])
        (use k p True in \<open>auto split: if_splits\<close>)
  qed
qed

text \<open>
  C39. The drive is bounded and reports its last pass: it makes between one and three passes, stops
  at the first that asks for no reconcile, ends \<open>Exhausted\<close> exactly when all three asked for one, and
  returns the executions of all its passes in order.
\<close>

theorem drive_is_bounded:
  "case drive_poll_pass fetch s of (d, s') \<Rightarrow>
     \<exists>k outs. 1 \<le> k \<and> k \<le> 3 \<and> passes k fetch s = (outs, s') \<and>
       dr_deltas d = concat (map po_deltas outs) \<and> list_all po_reconcile_needed (butlast outs) \<and>
       (exhausted d \<longleftrightarrow> k = 3 \<and> po_reconcile_needed (last outs)) \<and>
       (exhausted d \<longleftrightarrow> po_reconcile_needed (last outs))"
proof -
  obtain pass s1 where p: "poll_open_orders fetch s = (pass, s1)" by fastforce
  obtain d s' where d: "drive_poll_pass fetch s = (d, s')" by fastforce
  then have "drive_loop 2 fetch pass (po_deltas pass) s1 = (d, s')"
    using p by (simp add: drive_poll_pass_def DRIVE_MAX_REPOLLS_def)
  from drive_loop_passes [OF this] obtain k outs where k: "k \<le> 2" "passes k fetch s1 = (outs, s')"
    "dr_deltas d = po_deltas pass @ concat (map po_deltas outs)"
    "list_all po_reconcile_needed (butlast (pass # outs))"
    "if dr_terminal d = Exhausted then k = 2 \<and> po_reconcile_needed (last (pass # outs))
     else \<not> po_reconcile_needed (last (pass # outs))" by blast
  show ?thesis
    unfolding d prod.case
    by (rule exI [of _ "Suc k"], rule exI [of _ "pass # outs"])
      (use k p in \<open>auto simp: exhausted_def split: if_splits\<close>)
qed

section \<open>A completed order on the page\<close>

text \<open>Two orders of the same symbol, the first filled completely and so forgotten by the chain.\<close>

definition twin_order :: "string \<Rightarrow> int \<Rightarrow> order_any" where
  "twin_order c q = \<lparr>oa_client = c, oa_symbol = ''005930'', oa_side = Buy, oa_quantity = q, oa_price = Some 60\<rparr>"

definition after_first :: "order_any \<Rightarrow> string \<Rightarrow> poll_state" where
  "after_first ord x = \<lparr>p_ledger = ledger_register ord x
      (snd (ledger_apply (obs_poll ''77'' 10 60 False) 0
        (ledger_register (twin_order ''c1'' 10) ''77'' ledger_new))), p_fetched = []\<rparr>"

definition done_row :: t0425_row where
  "done_row = \<lparr>ordno = ''77'', expcode = ''005930'', medosu = ''2'', qty = ''10'', price = ''60'',
     cheqty = ''10'', cheprice = ''60'', ordrem = ''0'', status = [], orgordno = [], ordtime = []\<rparr>"

definition open_row :: t0425_row where
  "open_row = done_row\<lparr>ordno := ''78'', qty := ''5'', cheqty := ''0'', cheprice := ''0''\<rparr>"

definition page :: "t0425_row list \<Rightarrow> t0425_response" where
  "page rows = \<lparr>outblock1 = rows, t_cts_ordno = [], t_tr_cont = [], t_tr_cont_key = []\<rparr>"

text \<open>
  The row of a completed order is an unknown row: as long as the symbol's page lists it (the
  inquiry asks for filled orders too) every pass over another open order of the symbol asks for a
  reconcile, and the drive exhausts its budget although the page is complete and nothing is owed.
\<close>

theorem completed_row_exhausts_the_drive:
  "let s = after_first (twin_order ''c2'' 5) ''78'';
       (d, s') = drive_poll_pass (\<lambda>_ _. Some (page [done_row, open_row])) s
   in exhausted d \<and> dr_deltas d = [] \<and> pending_reconcile (p_ledger s') = {} \<and>
      p_fetched s' = [''005930'', ''005930'', ''005930'']"
  by code_simp

text \<open>
  Worse, an order of unknown fate adopts it: a second order with the same symbol, side, quantity
  and price, known only by its \<open>RECON-\<close> placeholder, is corroborated by the completed order's row,
  takes its number, and emits the first order's execution a second time, as its own complete fill.
\<close>

theorem completed_row_fills_its_twin:
  "let s = after_first (twin_order ''c2'' 10) ''RECON-c2'';
       (d, s') = drive_poll_pass (\<lambda>_ _. Some (page [done_row])) s
   in map (\<lambda>x. (fd_client x, fd_ord_no x, fd_qty x, fd_terminal x)) (dr_deltas d) = [(''c2'', ''77'', 10, True)] \<and>
      map lf_trade_id (fills (p_ledger s')) = [''POLL-77-10'', ''POLL-77-10'']"
  by code_simp

section \<open>A concrete pass\<close>

definition owed :: poll_state where
  "owed = \<lparr>p_ledger = record_pending_symbol ''005930'' ledger_new, p_fetched = []\<rparr>"

lemma owed_ok: "ledger_wf (p_ledger owed)" "pending_ok (p_ledger owed)" "pending_reconcile (p_ledger owed) = {''005930''}"
proof -
  show "ledger_wf (p_ledger owed)"
    by (rule ledger_wf_cong [of ledger_new]) (simp_all add: owed_def ledger_wf_def ledger_ok_new, simp add: ledger_new_def)
  have "trim ''005930'' = ''005930''" by code_simp
  then show "pending_reconcile (p_ledger owed) = {''005930''}"
    by (simp add: owed_def record_pending_set ledger_new_def)
  have "pending_ok ledger_new" by (simp add: pending_ok_def ledger_new_def)
  then show "pending_ok (p_ledger owed)"
    unfolding owed_def by (simp add: pending_ok_record)
qed

theorem no_owed_scan_is_lost_witness:
  "\<exists>out s'. poll_open_orders (\<lambda>_ _. None) owed = (out, s') \<and> p_fetched s' = poll_set (p_ledger owed)"
proof -
  obtain out s' where p: "poll_open_orders (\<lambda>_ _. None) owed = (out, s')" by fastforce
  have "p_fetched s' = p_fetched owed @ poll_set (p_ledger owed)"
    using no_owed_scan_is_lost [OF p owed_ok(1,2)] by blast
  moreover have "p_fetched owed = []" by (simp add: owed_def)
  ultimately show ?thesis using p by simp
qed

theorem inconclusive_pass_concludes_nothing_witness:
  "\<exists>out s'. poll_open_orders (\<lambda>_ _. None) owed = (out, s') \<and> pending_reconcile (p_ledger s') = {''005930''} \<and>
     po_reconcile_needed out"
proof -
  obtain out s' where p: "poll_open_orders (\<lambda>_ _. None) owed = (out, s')" by fastforce
  have "poll_set (p_ledger owed) \<noteq> []"
    using poll_set_members [OF owed_ok(2)] owed_ok(3) by (metis Un_empty empty_not_insert list.set(1))
  moreover have "po_deltas out = [] \<and> p_ledger s' = p_ledger owed \<and> (po_reconcile_needed out \<or> poll_set (p_ledger owed) = [])"
  proof -
    have nc: "\<not> conclusive None" by (simp only: conclusive_def option.distinct simp_thms)
    show ?thesis by (rule inconclusive_pass_concludes_nothing [where fetch = "\<lambda>_ _. None", OF p owed_ok(1,2) nc])
  qed
  ultimately show ?thesis using p owed_ok(3) by metis
qed

end
