(* ===== verification/Krx_Calendar.thy ===== *)
theory Krx_Calendar
  imports Json F64 "HOL-Library.Multiset"
begin

text \<open>
  The calendar library (\<open>adapters/nautilus/nautilus-ls-calendar/src\<close>): the snapshot of \<open>schema.rs\<close>,
  its identities (\<open>canonical.rs\<close>), loading and validation (\<open>load.rs\<close>), queries as of an instant
  (\<open>query.rs\<close>), freshness (\<open>freshness.rs\<close>), reconciliation of evidence (\<open>reconcile.rs\<close>) and the
  witness rule (\<open>witness.rs\<close>). A \<open>NaiveDate\<close> is its day number (\<open>num_days_from_ce\<close>) in the range of
  \<open>chrono\<close>; a \<open>DateTime<Utc>\<close> is its nanoseconds since the epoch. The derived serializer, the
  digest and the printing of dates are the functions of a \<open>snapshot_codec\<close>.
\<close>

section \<open>Civil dates\<close>

text \<open>The bounds of \<open>NaiveDate\<close>: the first day of the year -262143, the last of 262142.\<close>

definition DATE_MIN :: int where "DATE_MIN = - 95746129"
definition DATE_MAX :: int where "DATE_MAX = 95745399"

definition succ_opt :: "int \<Rightarrow> int option" where
  "succ_opt d = (if d < DATE_MAX then Some (d + 1) else None)"

definition pred_opt :: "int \<Rightarrow> int option" where
  "pred_opt d = (if DATE_MIN < d then Some (d - 1) else None)"

definition nanos_per_day :: int where "nanos_per_day = 86400 * 10 ^ 9"

text \<open>\<open>DateTime<Utc>::date_naive\<close>: 1970-01-01 is day 719163.\<close>

definition date_naive :: "int \<Rightarrow> int" where
  "date_naive t = 719163 + t div nanos_per_day"

section \<open>The snapshot\<close>

datatype day_status = DayTradingSession | DayClosed | DayUnknown
datatype source_kind =
  KrxDailyMarket | KasiHoliday | KrxRule | FirstPartyNotice | CorrectionSource | HumanAdjudication
datatype evidence_kind =
  PositiveWitness | HolidayFact | DeterministicRule | ClosureNotice | Correction | Adjudication
datatype alert_kind =
  WitnessOverridesInference | WitnessVsClosureNotice | FirstPartyConflict | AbsenceIgnored | Superseded | Adjudicated

record calendar_scope =
  sc_name :: string
  sc_venue :: string
  sc_class :: string
  sc_timezone :: string
  sc_synthetic :: bool

record authorization =
  au_authorized :: bool
  au_authority :: string
  au_granted :: int
  au_expires :: "int option"
  au_terminated :: "int option"

record source_bound =
  sb_source :: string
  sb_from :: "int option"
  sb_through :: "int option"

record coverage =
  cv_from :: int
  cv_through :: int
  cv_retro :: int
  cv_scheduled :: int
  cv_sources :: "source_bound list"

record freshness =
  fr_refreshed :: int
  fr_holidays :: "int option"
  fr_full :: "int option"
  fr_forward :: "int option"
  fr_incremental :: "int option"

record calendar_source =
  cs_id :: string
  cs_kind :: source_kind
  cs_label :: string
  cs_synthetic :: bool

record evidence_citation =
  ec_reference :: string
  ec_issuer :: string
  ec_note :: "string option"

record evidence_record =
  ev_id :: string
  ev_source :: string
  ev_date :: int
  ev_kind :: evidence_kind
  ev_valid :: bool
  ev_superseded :: "string option"
  ev_citation :: "evidence_citation option"
  ev_recorded :: int

record alert =
  al_id :: string
  al_date :: int
  al_kind :: alert_kind
  al_message :: string

record day_row =
  dr_date :: int
  dr_status :: day_status
  dr_decisive :: "string list"
  dr_conflicting :: "string list"
  dr_alerts :: "string list"

record snapshot =
  sn_schema :: string
  sn_artifact :: string
  sn_calendar :: string
  sn_predecessor :: "string option"
  sn_scope :: calendar_scope
  sn_authorization :: authorization
  sn_coverage :: coverage
  sn_freshness :: freshness
  sn_sources :: "calendar_source list"
  sn_evidence :: "evidence_record list"
  sn_alerts :: "alert list"
  sn_rows :: "day_row list"

record snapshot_codec =
  sk_value :: "snapshot \<Rightarrow> json"
  sk_date :: "int \<Rightarrow> string"
  sk_string :: "string \<Rightarrow> string"
  sk_sha :: "string \<Rightarrow> string"

section \<open>Identities\<close>

definition SCHEMA_VERSION :: string where "SCHEMA_VERSION = ''1.0.0''"

definition parse_major :: "string \<Rightarrow> nat option" where
  "parse_major v =
     (case split_on CHR ''.'' v of
        [major, minor, patch] \<Rightarrow>
          (case parse_u64 major of
             None \<Rightarrow> None
           | Some m \<Rightarrow> if parse_u64 minor = None \<or> parse_u64 patch = None then None else Some m)
      | _ \<Rightarrow> None)"

definition schema_is_compatible :: "string \<Rightarrow> bool" where
  "schema_is_compatible declared =
     (case (parse_major declared, parse_major SCHEMA_VERSION) of
        (Some d, Some s) \<Rightarrow> d = s | _ \<Rightarrow> False)"

fun canonical_string :: "snapshot_codec \<Rightarrow> json \<Rightarrow> string" where
  "canonical_string c JNull = ''null''"
| "canonical_string c (JBool b) = (if b then ''true'' else ''false'')"
| "canonical_string c (JNum n _) = n"
| "canonical_string c (JStr s) = sk_string c s"
| "canonical_string c (JArr xs) = ''['' @ join '','' (map (canonical_string c) xs) @ '']''"
| "canonical_string c (JObj m) =
     ''{'' @ join '','' (map (\<lambda>(k, v). sk_string c k @ '':'' @ v)
       (sort_key fst (map (\<lambda>(k, v). (k, canonical_string c v)) m))) @ ''}''"

definition hash_canonical :: "snapshot_codec \<Rightarrow> json \<Rightarrow> string" where
  "hash_canonical c v = sk_sha c (canonical_string c v)"

definition compute_artifact_id :: "snapshot_codec \<Rightarrow> snapshot \<Rightarrow> string" where
  "compute_artifact_id c s =
     hash_canonical c (case sk_value c s of
        JObj m \<Rightarrow> JObj (filter (\<lambda>(k, v). k \<noteq> ''artifact_id'' \<and> k \<noteq> ''calendar_id'') m)
      | v \<Rightarrow> v)"

definition status_json :: "day_status \<Rightarrow> json" where
  "status_json st = JStr (case st of
     DayTradingSession \<Rightarrow> ''trading_session'' | DayClosed \<Rightarrow> ''closed'' | DayUnknown \<Rightarrow> ''unknown'')"

definition kind_json :: "evidence_kind \<Rightarrow> json" where
  "kind_json k = JStr (case k of
     PositiveWitness \<Rightarrow> ''positive_witness'' | HolidayFact \<Rightarrow> ''holiday_fact''
   | DeterministicRule \<Rightarrow> ''deterministic_rule'' | ClosureNotice \<Rightarrow> ''closure_notice''
   | Correction \<Rightarrow> ''correction'' | Adjudication \<Rightarrow> ''adjudication'')"

definition row_claim :: "snapshot_codec \<Rightarrow> day_row \<Rightarrow> json" where
  "row_claim c r = JArr [JStr (sk_date c (dr_date r)), status_json (dr_status r), JArr (map JStr (sort (dr_decisive r)))]"

definition evidence_claim :: "evidence_record \<Rightarrow> json" where
  "evidence_claim e = JArr [JStr (ev_id e), kind_json (ev_kind e), JBool (ev_valid e)]"

definition decisive_claims :: "snapshot \<Rightarrow> json list" where
  "decisive_claims s =
     map evidence_claim (List.map_filter (\<lambda>i. find (\<lambda>e. ev_id e = i) (sn_evidence s))
       (remdups_adj (sort (concat (map dr_decisive (sn_rows s))))))"

definition compute_calendar_id :: "snapshot_codec \<Rightarrow> snapshot \<Rightarrow> string" where
  "compute_calendar_id c s =
     hash_canonical c (JArr
       [JArr (sort_key (canonical_string c) (map (row_claim c) (sn_rows s))),
        JArr (sort_key (canonical_string c) (decisive_claims s))])"

section \<open>Loading\<close>

datatype load_error =
    Missing
  | Unreadable string
  | Corrupt string
  | UnsupportedSchema string
  | HashMismatch string
  | Unauthorized
  | Expired
  | OutOfRange
  | Gapped int
  | Duplicated int
  | DanglingReference string
  | ImpossibleCoverage string

definition validate_coverage :: "snapshot_codec \<Rightarrow> coverage \<Rightarrow> load_error option" where
  "validate_coverage c cv =
     (if cv_through cv < cv_from cv
      then Some (ImpossibleCoverage (''materialized_from '' @ sk_date c (cv_from cv) @
             '' is after materialized_through '' @ sk_date c (cv_through cv)))
      else if cv_through cv < cv_retro cv
      then Some (ImpossibleCoverage (''retrospectively_checked_through '' @ sk_date c (cv_retro cv) @
             '' is beyond materialized_through '' @ sk_date c (cv_through cv)))
      else None)"

fun walk_rows :: "snapshot_codec \<Rightarrow> int \<Rightarrow> int \<Rightarrow> day_row list \<Rightarrow> load_error + int" where
  "walk_rows c through cursor [] = Inr cursor"
| "walk_rows c through cursor (r # rs) =
     (if through < dr_date r
      then Inl (ImpossibleCoverage (''row '' @ sk_date c (dr_date r) @ '' is past materialized_through '' @ sk_date c through))
      else if dr_date r < cursor then Inl (Duplicated (dr_date r))
      else if cursor < dr_date r then Inl (Gapped cursor)
      else case succ_opt cursor of
          None \<Rightarrow> Inl (ImpossibleCoverage ''civil-date overflow while walking coverage'')
        | Some next \<Rightarrow> walk_rows c through next rs)"

definition validate_rows :: "snapshot_codec \<Rightarrow> snapshot \<Rightarrow> load_error option" where
  "validate_rows c s =
     (case walk_rows c (cv_through (sn_coverage s)) (cv_from (sn_coverage s)) (sn_rows s) of
        Inl e \<Rightarrow> Some e
      | Inr cursor \<Rightarrow>
          (case succ_opt (cv_through (sn_coverage s)) of
             None \<Rightarrow> Some (ImpossibleCoverage ''materialized_through is the maximum representable date'')
           | Some expected_end \<Rightarrow> if cursor \<noteq> expected_end then Some (Gapped cursor) else None))"

definition dangling_in :: "string list \<Rightarrow> string list \<Rightarrow> day_row \<Rightarrow> string option" where
  "dangling_in evidence_ids alert_ids r =
     (case find (\<lambda>i. i \<notin> set evidence_ids) (dr_decisive r @ dr_conflicting r) of
        Some i \<Rightarrow> Some i
      | None \<Rightarrow> find (\<lambda>i. i \<notin> set alert_ids) (dr_alerts r))"

definition validate_references :: "snapshot \<Rightarrow> load_error option" where
  "validate_references s =
     (let found = List.map_filter (dangling_in (map ev_id (sn_evidence s)) (map al_id (sn_alerts s))) (sn_rows s)
      in case found of [] \<Rightarrow> None | i # _ \<Rightarrow> Some (DanglingReference i))"

definition validate_authorization :: "authorization \<Rightarrow> int \<Rightarrow> load_error option" where
  "validate_authorization a as_of =
     (if \<not> au_authorized a then Some Unauthorized
      else if (case au_expires a of Some t \<Rightarrow> t < as_of | None \<Rightarrow> False) then Some Expired
      else if (case au_terminated a of Some t \<Rightarrow> t < as_of | None \<Rightarrow> False) then Some Expired
      else None)"

fun first_error :: "(unit \<Rightarrow> 'e option) list \<Rightarrow> 'e option" where
  "first_error [] = None"
| "first_error (f # fs) = (case f () of Some e \<Rightarrow> Some e | None \<Rightarrow> first_error fs)"

definition validate :: "snapshot_codec \<Rightarrow> snapshot \<Rightarrow> int \<Rightarrow> load_error option" where
  "validate c s as_of = first_error
     [\<lambda>_. if schema_is_compatible (sn_schema s) then None else Some (UnsupportedSchema (sn_schema s)),
      \<lambda>_. if compute_artifact_id c s \<noteq> sn_artifact s then Some (HashMismatch ''artifact_id'') else None,
      \<lambda>_. if compute_calendar_id c s \<noteq> sn_calendar s then Some (HashMismatch ''calendar_id'') else None,
      \<lambda>_. validate_coverage c (sn_coverage s),
      \<lambda>_. validate_rows c s,
      \<lambda>_. validate_references s,
      \<lambda>_. validate_authorization (sn_authorization s) as_of]"

definition from_snapshot :: "snapshot_codec \<Rightarrow> snapshot \<Rightarrow> int \<Rightarrow> load_error + snapshot" where
  "from_snapshot c s as_of = (case validate c s as_of of Some e \<Rightarrow> Inl e | None \<Rightarrow> Inr s)"

text \<open>\<open>load_from_path\<close>, on what reading the file and parsing its bytes give.\<close>

datatype snapshot_file = NoFile | ReadFails string | NotJson string | Parsed snapshot

definition load_from_path :: "snapshot_codec \<Rightarrow> snapshot_file \<Rightarrow> int \<Rightarrow> load_error + snapshot" where
  "load_from_path c f as_of =
     (case f of
        NoFile \<Rightarrow> Inl Missing
      | ReadFails m \<Rightarrow> Inl (Unreadable m)
      | NotJson m \<Rightarrow> Inl (Corrupt m)
      | Parsed s \<Rightarrow> from_snapshot c s as_of)"

section \<open>Queries as of an instant\<close>

datatype query_error = QueryOutOfRange int | DateOverflow
datatype presence = Present | Absent | IndeterminatePresence
datatype session_search = Found int | NoSession | IndeterminateSearch

record day_fact =
  df_date :: int
  df_status :: day_status
  df_decisive :: "evidence_record list"
  df_conflicting :: "evidence_record list"
  df_alerts :: "alert list"

text \<open>A \<open>DateRange\<close> is its canonical span; the constructors make every span non-empty.\<close>

type_synonym date_range = "(int \<times> int) option"

definition range_inclusive :: "int \<Rightarrow> int \<Rightarrow> query_error + date_range" where
  "range_inclusive a b = (if b < a then Inr None else Inr (Some (a, b)))"

definition range_half_open :: "int \<Rightarrow> int \<Rightarrow> query_error + date_range" where
  "range_half_open a b =
     (if b \<le> a then Inr None
      else case pred_opt b of None \<Rightarrow> Inl DateOverflow | Some l \<Rightarrow> Inr (Some (a, l)))"

definition range_strictly_between :: "int \<Rightarrow> int \<Rightarrow> query_error + date_range" where
  "range_strictly_between a b =
     (case succ_opt a of
        None \<Rightarrow> Inl DateOverflow
      | Some f \<Rightarrow>
          (case pred_opt b of
             None \<Rightarrow> Inl DateOverflow
           | Some l \<Rightarrow> if l < f then Inr None else Inr (Some (f, l))))"

record as_of_view =
  av_calendar :: snapshot
  av_instant :: int

definition evaluate_authorization :: "authorization \<Rightarrow> int \<Rightarrow> load_error option" where
  "evaluate_authorization a as_of =
     (if \<not> au_authorized a then Some Unauthorized
      else if (case au_expires a of Some t \<Rightarrow> t < as_of | None \<Rightarrow> False) then Some Expired
      else if (case au_terminated a of Some t \<Rightarrow> t < as_of | None \<Rightarrow> False) then Some Expired
      else None)"

definition as_of :: "snapshot \<Rightarrow> int \<Rightarrow> load_error + as_of_view" where
  "as_of s t =
     (case evaluate_authorization (sn_authorization s) t of
        Some e \<Rightarrow> Inl e
      | None \<Rightarrow> Inr \<lparr>av_calendar = s, av_instant = t\<rparr>)"

definition resolve_row :: "snapshot \<Rightarrow> day_row \<Rightarrow> day_fact" where
  "resolve_row s r =
     (let evidence = List.map_filter (\<lambda>i. find (\<lambda>e. ev_id e = i) (sn_evidence s))
      in \<lparr>df_date = dr_date r, df_status = dr_status r, df_decisive = evidence (dr_decisive r),
          df_conflicting = evidence (dr_conflicting r),
          df_alerts = List.map_filter (\<lambda>i. find (\<lambda>a. al_id a = i) (sn_alerts s)) (dr_alerts r)\<rparr>)"

definition view_day :: "as_of_view \<Rightarrow> int \<Rightarrow> query_error + day_fact" where
  "view_day v d =
     (let s = av_calendar v
      in if d < cv_from (sn_coverage s) \<or> cv_through (sn_coverage s) < d then Inl (QueryOutOfRange d)
         else case find (\<lambda>r. dr_date r = d) (sn_rows s) of
             None \<Rightarrow> Inl (QueryOutOfRange d)
           | Some r \<Rightarrow> Inr (resolve_row s r))"

definition rows_in_range :: "as_of_view \<Rightarrow> date_range \<Rightarrow> query_error + day_row list" where
  "rows_in_range v rg =
     (case rg of
        None \<Rightarrow> Inr []
      | Some (a, b) \<Rightarrow>
          (let s = av_calendar v
           in if a < cv_from (sn_coverage s) then Inl (QueryOutOfRange a)
              else if cv_through (sn_coverage s) < b then Inl (QueryOutOfRange b)
              else Inr (filter (\<lambda>r. a \<le> dr_date r \<and> dr_date r \<le> b) (sn_rows s))))"

fun scan_presence :: "bool \<Rightarrow> day_row list \<Rightarrow> presence" where
  "scan_presence unknown [] = (if unknown then IndeterminatePresence else Absent)"
| "scan_presence unknown (r # rs) =
     (case dr_status r of
        DayTradingSession \<Rightarrow> Present
      | DayUnknown \<Rightarrow> scan_presence True rs
      | DayClosed \<Rightarrow> scan_presence unknown rs)"

fun scan_session :: "day_row list \<Rightarrow> session_search" where
  "scan_session [] = NoSession"
| "scan_session (r # rs) =
     (case dr_status r of
        DayTradingSession \<Rightarrow> Found (dr_date r)
      | DayUnknown \<Rightarrow> IndeterminateSearch
      | DayClosed \<Rightarrow> scan_session rs)"

definition view_presence :: "as_of_view \<Rightarrow> date_range \<Rightarrow> query_error + presence" where
  "view_presence v rg = bind_res (rows_in_range v rg) (\<lambda>rs. Inr (scan_presence False rs))"

definition first_session :: "as_of_view \<Rightarrow> date_range \<Rightarrow> query_error + session_search" where
  "first_session v rg = bind_res (rows_in_range v rg) (\<lambda>rs. Inr (scan_session rs))"

definition last_session :: "as_of_view \<Rightarrow> date_range \<Rightarrow> query_error + session_search" where
  "last_session v rg = bind_res (rows_in_range v rg) (\<lambda>rs. Inr (scan_session (rev rs)))"

definition sessions_in :: "as_of_view \<Rightarrow> date_range \<Rightarrow> query_error + int list" where
  "sessions_in v rg = bind_res (rows_in_range v rg)
     (\<lambda>rs. Inr (map dr_date (filter (\<lambda>r. dr_status r = DayTradingSession) rs)))"

definition session_count :: "as_of_view \<Rightarrow> date_range \<Rightarrow> query_error + nat \<times> int option" where
  "session_count v rg = bind_res (sessions_in v rg)
     (\<lambda>ds. Inr (length ds, if ds = [] then None else Some (last ds)))"

definition candidate_sessions_in :: "as_of_view \<Rightarrow> date_range \<Rightarrow> query_error + int list" where
  "candidate_sessions_in v rg = bind_res (rows_in_range v rg)
     (\<lambda>rs. Inr (map dr_date (filter (\<lambda>r. dr_status r \<noteq> DayClosed) rs)))"

section \<open>Freshness\<close>

definition KASI_STALE_AFTER_DAYS :: int where "KASI_STALE_AFTER_DAYS = 14"
definition FULL_HISTORY_STALE_AFTER_DAYS :: int where "FULL_HISTORY_STALE_AFTER_DAYS = 120"
definition INCREMENTAL_STALE_AFTER_DAYS :: int where "INCREMENTAL_STALE_AFTER_DAYS = 2"
definition FORWARD_READINESS_MIN_DAYS :: int where "FORWARD_READINESS_MIN_DAYS = 45"

datatype dimension_staleness = Fresh | Stale | Unevaluated

definition is_stale :: "dimension_staleness \<Rightarrow> bool" where
  "is_stale d = (d = Stale)"

record freshness_report =
  fp_as_of :: int
  fp_kasi :: dimension_staleness
  fp_full :: dimension_staleness
  fp_incremental :: dimension_staleness
  fp_forward :: dimension_staleness

definition any_stale :: "freshness_report \<Rightarrow> bool" where
  "any_stale r = (is_stale (fp_kasi r) \<or> is_stale (fp_full r) \<or> is_stale (fp_incremental r) \<or> is_stale (fp_forward r))"

definition instant_staleness :: "int option \<Rightarrow> int \<Rightarrow> int \<Rightarrow> dimension_staleness" where
  "instant_staleness anchor t threshold =
     (case anchor of
        None \<Rightarrow> Unevaluated
      | Some a \<Rightarrow> if a + threshold * nanos_per_day < t then Stale else Fresh)"

definition forward_readiness_staleness :: "int option \<Rightarrow> int \<Rightarrow> dimension_staleness" where
  "forward_readiness_staleness through t =
     (case through of
        None \<Rightarrow> Unevaluated
      | Some d \<Rightarrow> if d - date_naive t < FORWARD_READINESS_MIN_DAYS then Stale else Fresh)"

definition view_freshness :: "as_of_view \<Rightarrow> freshness_report" where
  "view_freshness v =
     (let f = sn_freshness (av_calendar v); t = av_instant v
      in \<lparr>fp_as_of = t,
          fp_kasi = instant_staleness (fr_holidays f) t KASI_STALE_AFTER_DAYS,
          fp_full = instant_staleness (fr_full f) t FULL_HISTORY_STALE_AFTER_DAYS,
          fp_incremental = instant_staleness (fr_incremental f) t INCREMENTAL_STALE_AFTER_DAYS,
          fp_forward = forward_readiness_staleness (fr_forward f) t\<rparr>)"

section \<open>Reconciling the evidence for a date\<close>

record reconcile_alert =
  ra_date :: int
  ra_kind :: alert_kind
  ra_message :: string

record reconciled_day =
  rd_status :: day_status
  rd_decisive :: "string list"
  rd_conflicting :: "string list"
  rd_alerts :: "reconcile_alert list"

definition is_superseded :: "evidence_record list \<Rightarrow> evidence_record \<Rightarrow> bool" where
  "is_superseded evs r =
     (case ev_superseded r of Some i \<Rightarrow> i \<in> set (map ev_id evs) | None \<Rightarrow> False)"

definition effective :: "evidence_record list \<Rightarrow> evidence_record \<Rightarrow> bool" where
  "effective evs r = (ev_valid r \<and> \<not> is_superseded evs r)"

definition effective_ids :: "evidence_record list \<Rightarrow> evidence_kind \<Rightarrow> string list" where
  "effective_ids evs k = map ev_id (filter (\<lambda>r. effective evs r \<and> ev_kind r = k) evs)"

definition cited_closures :: "evidence_record list \<Rightarrow> string list" where
  "cited_closures evs =
     map ev_id (filter (\<lambda>r. effective evs r \<and> ev_kind r = ClosureNotice \<and> ev_citation r \<noteq> None) evs)"

definition superseded_by_correction :: "evidence_record list \<Rightarrow> bool" where
  "superseded_by_correction evs = list_ex (\<lambda>r. case ev_superseded r of
     Some i \<Rightarrow> list_ex (\<lambda>x. ev_id x = i \<and> ev_kind x = Correction) evs | None \<Rightarrow> False) evs"

definition absence_marker :: "evidence_record list \<Rightarrow> bool" where
  "absence_marker evs =
     list_ex (\<lambda>r. ev_kind r = PositiveWitness \<and> \<not> ev_valid r \<and> ev_superseded r = None) evs"

definition reconcile_date :: "int \<Rightarrow> evidence_record list \<Rightarrow> reconciled_day" where
  "reconcile_date d evidence =
     (let evs = filter (\<lambda>r. ev_date r = d) evidence;
          witnesses = effective_ids evs PositiveWitness;
          holiday_facts = effective_ids evs HolidayFact;
          rules = effective_ids evs DeterministicRule;
          closures = cited_closures evs;
          alert = (\<lambda>b k m. if b then [\<lparr>ra_date = d, ra_kind = k, ra_message = m\<rparr>] else []);
          (status, decisive, conflicting, alerts) =
            (if witnesses \<noteq> [] then
               (if closures \<noteq> [] then
                  (DayUnknown, [], witnesses @ closures,
                   alert True WitnessVsClosureNotice
                     ''KRX positive witness conflicts with a direct first-party closure notice'')
                else
                  (DayTradingSession, witnesses, holiday_facts @ rules,
                   alert (holiday_facts @ rules \<noteq> []) WitnessOverridesInference
                     ''KRX positive witness overrides an inferred closure'' @
                   alert (absence_marker evs) AbsenceIgnored
                     ''a later empty/malformed KRX response was ignored; the accepted witness stands''))
             else if 2 \<le> length closures then
               (DayUnknown, [], closures,
                alert True FirstPartyConflict ''two conflicting first-party closure notices for the date'')
             else if length closures = 1 then (DayClosed, closures, [], [])
             else if rules \<noteq> [] then (DayClosed, holiday_facts @ rules, [], [])
             else (DayUnknown, [], [], []))
      in \<lparr>rd_status = status, rd_decisive = decisive, rd_conflicting = conflicting,
          rd_alerts = alerts @
            alert (superseded_by_correction evs) Superseded ''evidence was superseded by an explicit correction'' @
            alert (list_ex (\<lambda>r. ev_kind r = Adjudication) evs) Adjudicated
              ''a human adjudication changed evidence validity/supersession''\<rparr>)"

section \<open>The witness rule\<close>

text \<open>2010-01-04.\<close>

definition MIN_WITNESS_DATE :: int where "MIN_WITNESS_DATE = 733776"

record krx_daily_row =
  kr_date :: int
  kr_market :: string

definition is_structurally_valid :: "krx_daily_row \<Rightarrow> bool" where
  "is_structurally_valid r = (trim (kr_market r) \<noteq> [])"

definition is_qualifying_kospi :: "int \<Rightarrow> krx_daily_row \<Rightarrow> bool" where
  "is_qualifying_kospi requested r = (kr_date r = requested \<and> eq_ignore_case (trim (kr_market r)) ''KOSPI'')"

record krx_response =
  kw_success :: bool
  kw_requested :: int
  kw_rows :: "krx_daily_row list"
  kw_error :: "string option"

datatype non_witness =
  EmptyResponse | Malformed | FailedResponse | ErrorEnvelope | DateMismatch | Pre2010 | NoQualifyingRow
datatype witness_outcome = Witness evidence_record | NonEvidence non_witness

definition build_witness_record :: "int \<Rightarrow> string \<Rightarrow> string \<Rightarrow> int \<Rightarrow> evidence_record" where
  "build_witness_record d i src t =
     \<lparr>ev_id = i, ev_source = src, ev_date = d, ev_kind = PositiveWitness, ev_valid = True,
      ev_superseded = None, ev_citation = None, ev_recorded = t\<rparr>"

definition default_witness_id :: "snapshot_codec \<Rightarrow> int \<Rightarrow> string" where
  "default_witness_id c d = ''krx-witness-'' @ sk_date c d"

definition witness_from_response :: "snapshot_codec \<Rightarrow> krx_response \<Rightarrow> witness_outcome" where
  "witness_from_response c w =
     (let d = kw_requested w
      in if kw_error w \<noteq> None then NonEvidence ErrorEnvelope
         else if \<not> kw_success w then NonEvidence FailedResponse
         else if kw_rows w = [] then NonEvidence EmptyResponse
         else if list_ex (\<lambda>r. \<not> is_structurally_valid r) (kw_rows w) then NonEvidence Malformed
         else if d < MIN_WITNESS_DATE then NonEvidence Pre2010
         else if \<not> list_ex (\<lambda>r. kr_date r = d) (kw_rows w) then NonEvidence DateMismatch
         else if \<not> list_ex (is_qualifying_kospi d) (kw_rows w) then NonEvidence NoQualifyingRow
         else Witness (build_witness_record d (default_witness_id c d) ''krx-daily-market''
           ((d - 719163) * nanos_per_day)))"

section \<open>What a loaded calendar is\<close>

text \<open>One row for every date of the window, in order, and every reference resolves.\<close>

definition calendar_ok :: "snapshot \<Rightarrow> bool" where
  "calendar_ok s \<longleftrightarrow> cv_from (sn_coverage s) \<le> cv_through (sn_coverage s) \<and>
     map dr_date (sn_rows s) = [cv_from (sn_coverage s)..cv_through (sn_coverage s)] \<and>
     list_all (\<lambda>r. set (dr_decisive r @ dr_conflicting r) \<subseteq> ev_id ` set (sn_evidence s) \<and>
       set (dr_alerts r) \<subseteq> al_id ` set (sn_alerts s)) (sn_rows s)"

lemma walk_rows_dates:
  "walk_rows k th a rs = Inr c \<Longrightarrow> map dr_date rs = [a..c - 1] \<and> a \<le> c"
proof (induction rs arbitrary: a)
  case (Cons r rs)
  then have "dr_date r = a" "walk_rows k th (a + 1) rs = Inr c"
    by (auto simp: succ_opt_def split: if_splits)
  with Cons.IH [of "a + 1"] show ?case by (simp add: upto_rec1)
qed simp

lemma find_none_subset: "find (\<lambda>i. i \<notin> set ids) xs = None \<longleftrightarrow> set xs \<subseteq> set ids"
  by (auto simp: find_None_iff)

lemma map_filter_Nil: "List.map_filter f xs = [] \<longleftrightarrow> list_all (\<lambda>x. f x = None) xs"
  by (induction xs) (auto simp: map_filter_simps split: option.split)

lemma first_error_None: "first_error fs = None \<longleftrightarrow> list_all (\<lambda>f. f () = None) fs"
  by (induction fs) (auto split: option.split)

lemma from_snapshot_ok:
  assumes "from_snapshot c s t = Inr cal"
  shows "cal = s" "calendar_ok s" "validate_authorization (sn_authorization s) t = None"
    "compute_artifact_id c s = sn_artifact s" "compute_calendar_id c s = sn_calendar s"
    "schema_is_compatible (sn_schema s)"
proof -
  have v: "validate c s t = None" and "cal = s"
    using assms by (auto simp: from_snapshot_def split: option.splits)
  then have parts: "schema_is_compatible (sn_schema s)" "compute_artifact_id c s = sn_artifact s"
      "compute_calendar_id c s = sn_calendar s" "validate_coverage c (sn_coverage s) = None"
      "validate_rows c s = None" "validate_references s = None"
      "validate_authorization (sn_authorization s) t = None"
    unfolding validate_def first_error_None list.pred_inject by (simp_all split: if_splits)
  then obtain cur where cur: "walk_rows c (cv_through (sn_coverage s)) (cv_from (sn_coverage s)) (sn_rows s) = Inr cur"
      "cur = cv_through (sn_coverage s) + 1"
    by (auto simp: validate_rows_def succ_opt_def split: sum.splits if_splits)
  have refs: "list_all (\<lambda>r. dangling_in (map ev_id (sn_evidence s)) (map al_id (sn_alerts s)) r = None) (sn_rows s)"
    using parts(6) by (simp add: validate_references_def map_filter_Nil Let_def split: list.splits)
  have sub: "dangling_in es as r = None \<longleftrightarrow> set (dr_decisive r @ dr_conflicting r) \<subseteq> set es \<and> set (dr_alerts r) \<subseteq> set as"
    for es as r
    unfolding dangling_in_def find_none_subset [symmetric]
    by (cases "find (\<lambda>i. i \<notin> set es) (dr_decisive r @ dr_conflicting r)") (simp_all only: option.case, simp_all)
  show "calendar_ok s"
    unfolding calendar_ok_def
    using walk_rows_dates [OF cur(1)] cur(2) parts(4) refs
    by (auto simp: validate_coverage_def sub list_all_iff split: if_splits)
  show "cal = s" "validate_authorization (sn_authorization s) t = None"
    "compute_artifact_id c s = sn_artifact s" "compute_calendar_id c s = sn_calendar s"
    "schema_is_compatible (sn_schema s)"
    by fact+
qed

lemma as_of_calendar: "as_of s t = Inr v \<Longrightarrow> av_calendar v = s \<and> av_instant v = t"
  by (auto simp: as_of_def split: option.splits)

text \<open>The status of a date, if it is materialized.\<close>

definition status_on :: "snapshot \<Rightarrow> int \<Rightarrow> day_status option" where
  "status_on s d = map_option dr_status (find (\<lambda>r. dr_date r = d) (sn_rows s))"

lemma filter_upto: "filter (\<lambda>d. a \<le> d \<and> d \<le> b) [l..u] = [max a l..min b u]"
proof (rule sorted_distinct_set_unique)
  show "set (filter (\<lambda>d. a \<le> d \<and> d \<le> b) [l..u]) = set [max a l..min b u]" by auto
qed (simp_all add: sorted_wrt_filter)

lemma rows_found:
  assumes "distinct (map dr_date rs)" and "r \<in> set rs"
  shows "find (\<lambda>x. dr_date x = dr_date r) rs = Some r"
  using assms
proof (induction rs)
  case (Cons x xs)
  then show ?case by (cases "dr_date x = dr_date r") (auto simp: image_iff)
qed simp

lemma dates_distinct: "calendar_ok s \<Longrightarrow> distinct (map dr_date (sn_rows s))"
  by (simp add: calendar_ok_def)

lemma row_status:
  "calendar_ok s \<Longrightarrow> r \<in> set (sn_rows s) \<Longrightarrow> status_on s (dr_date r) = Some (dr_status r)"
  unfolding status_on_def by (simp add: rows_found dates_distinct)

lemma status_on_defined:
  assumes "calendar_ok s"
  shows "status_on s d \<noteq> None \<longleftrightarrow> cv_from (sn_coverage s) \<le> d \<and> d \<le> cv_through (sn_coverage s)"
proof -
  have "d \<in> set (map dr_date (sn_rows s)) \<longleftrightarrow> cv_from (sn_coverage s) \<le> d \<and> d \<le> cv_through (sn_coverage s)"
    using assms by (simp add: calendar_ok_def)
  then show ?thesis by (auto simp: status_on_def find_None_iff)
qed

lemma range_dates:
  assumes "calendar_ok s" and "cv_from (sn_coverage s) \<le> a" and "b \<le> cv_through (sn_coverage s)"
  shows "map dr_date (filter (\<lambda>r. a \<le> dr_date r \<and> dr_date r \<le> b) (sn_rows s)) = [a..b]"
proof -
  have "map dr_date (filter (\<lambda>r. a \<le> dr_date r \<and> dr_date r \<le> b) (sn_rows s)) =
      filter (\<lambda>d. a \<le> d \<and> d \<le> b) (map dr_date (sn_rows s))"
    by (simp add: filter_map comp_def)
  also have "\<dots> = [a..b]"
    using assms by (simp add: calendar_ok_def filter_upto max_def min_def)
  finally show ?thesis .
qed


lemma scan_presence_cases:
  "scan_presence u rs =
     (if DayTradingSession \<in> dr_status ` set rs then Present
      else if u \<or> DayUnknown \<in> dr_status ` set rs then IndeterminatePresence else Absent)"
  by (induction u rs rule: scan_presence.induct) (auto split: day_status.split)

definition in_window :: "snapshot \<Rightarrow> int \<Rightarrow> int \<Rightarrow> bool" where
  "in_window s a b = (cv_from (sn_coverage s) \<le> a \<and> b \<le> cv_through (sn_coverage s))"

lemma rows_in_range_Some:
  "rows_in_range v (Some (a, b)) =
     (if in_window (av_calendar v) a b
      then Inr (filter (\<lambda>r. a \<le> dr_date r \<and> dr_date r \<le> b) (sn_rows (av_calendar v)))
      else Inl (QueryOutOfRange (if a < cv_from (sn_coverage (av_calendar v)) then a else b)))"
  by (simp add: rows_in_range_def in_window_def Let_def)

lemma range_statuses:
  assumes "calendar_ok s" and "in_window s a b"
    and rs: "rs = filter (\<lambda>r. a \<le> dr_date r \<and> dr_date r \<le> b) (sn_rows s)"
  shows "map dr_date rs = [a..b]" "r \<in> set rs \<Longrightarrow> status_on s (dr_date r) = Some (dr_status r)"
  using range_dates [OF assms(1), of a b] assms row_status [OF assms(1)] by (auto simp: in_window_def)

lemma range_status_set:
  assumes "calendar_ok s" and "in_window s a b"
    and "rs = filter (\<lambda>r. a \<le> dr_date r \<and> dr_date r \<le> b) (sn_rows s)"
  shows "st \<in> dr_status ` set rs \<longleftrightarrow> (\<exists>d\<in>{a..b}. status_on s d = Some st)"
proof
  assume "st \<in> dr_status ` set rs"
  then obtain r where r: "r \<in> set rs" "dr_status r = st" by auto
  then have "dr_date r \<in> set (map dr_date rs)" by simp
  then have "dr_date r \<in> {a..b}" using range_statuses(1) [OF assms] by simp
  with r range_statuses(2) [OF assms r(1)] show "\<exists>d\<in>{a..b}. status_on s d = Some st" by auto
next
  assume "\<exists>d\<in>{a..b}. status_on s d = Some st"
  then obtain d where d: "d \<in> {a..b}" "status_on s d = Some st" by auto
  then have "d \<in> set (map dr_date rs)" using range_statuses(1) [OF assms] by simp
  then obtain r where r: "r \<in> set rs" "dr_date r = d" by auto
  then show "st \<in> dr_status ` set rs" using range_statuses(2) [OF assms r(1)] d(2) by auto
qed

lemma view_presence_is:
  assumes "calendar_ok (av_calendar v)" and "in_window (av_calendar v) a b"
  shows "view_presence v (Some (a, b)) = Inr
     (if \<exists>d\<in>{a..b}. status_on (av_calendar v) d = Some DayTradingSession then Present
      else if \<exists>d\<in>{a..b}. status_on (av_calendar v) d = Some DayUnknown then IndeterminatePresence
      else Absent)"
  using range_status_set [OF assms refl]
  by (simp add: view_presence_def rows_in_range_Some assms(2) scan_presence_cases bind_res_def)

lemma find_on_dates:
  assumes "\<And>r. r \<in> set rs \<Longrightarrow> P r = Q (dr_date r)"
  shows "map_option dr_date (find P rs) = find Q (map dr_date rs)"
  using assms by (induction rs) auto

lemma scan_session_find:
  "scan_session rs =
     (case find (\<lambda>r. dr_status r \<noteq> DayClosed) rs of
        None \<Rightarrow> NoSession
      | Some r \<Rightarrow> if dr_status r = DayTradingSession then Found (dr_date r) else IndeterminateSearch)"
  by (induction rs) (auto split: day_status.split)


lemma find_upto:
  "find Q [a..b] = Some d \<longleftrightarrow> a \<le> d \<and> d \<le> b \<and> Q d \<and> (\<forall>x\<in>{a..<d}. \<not> Q x)"
proof (induction a b rule: upto.induct)
  case (1 a b)
  show ?case
  proof (cases "a \<le> b")
    case True
    have *: "{a..<d} = insert a {a + 1..<d}" if "a < d" for d using that by auto
    show ?thesis
      using 1 [OF True] True * [of d] by (cases "a = d") (auto simp: upto_rec1)
  qed simp
qed

lemma find_rev_upto:
  "find Q (rev [a..b]) = Some d \<longleftrightarrow> a \<le> d \<and> d \<le> b \<and> Q d \<and> (\<forall>x\<in>{d<..b}. \<not> Q x)"
proof (induction "nat (b - a + 1)" arbitrary: b)
  case (Suc n)
  then have ab: "a \<le> b" "n = nat (b - 1 - a + 1)" by simp_all
  have *: "{d<..b} = insert b {d<..b - 1}" if "d < b" for d using that by auto
  show ?case
    using Suc.hyps(1) [OF ab(2)] ab(1) * [of d] by (cases "b = d") (auto simp: upto_rec2)
qed auto

definition not_closed :: "snapshot \<Rightarrow> int \<Rightarrow> bool" where
  "not_closed s d = (status_on s d \<noteq> Some DayClosed)"

lemma scan_session_dates:
  assumes "\<And>r. r \<in> set rs \<Longrightarrow> status_on s (dr_date r) = Some (dr_status r)"
  shows "scan_session rs = Found d \<longleftrightarrow>
    find (not_closed s) (map dr_date rs) = Some d \<and> status_on s d = Some DayTradingSession"
proof -
  have "map_option dr_date (find (\<lambda>r. dr_status r \<noteq> DayClosed) rs) = find (not_closed s) (map dr_date rs)"
    by (rule find_on_dates) (simp add: not_closed_def assms)
  moreover have "status_on s (dr_date r) = Some (dr_status r)"
    if "find (\<lambda>r. dr_status r \<noteq> DayClosed) rs = Some r" for r
    using that assms by (auto simp: find_Some_iff)
  ultimately show ?thesis
    unfolding scan_session_find
    by (cases "find (\<lambda>r. dr_status r \<noteq> DayClosed) rs") (auto split: if_splits)
qed

lemma session_ends:
  assumes ok: "calendar_ok (av_calendar v)" and w: "in_window (av_calendar v) a b"
  shows "first_session v (Some (a, b)) = Inr (Found d) \<longleftrightarrow>
      a \<le> d \<and> d \<le> b \<and> status_on (av_calendar v) d = Some DayTradingSession \<and>
      (\<forall>x\<in>{a..<d}. status_on (av_calendar v) x = Some DayClosed)"
    and "last_session v (Some (a, b)) = Inr (Found d) \<longleftrightarrow>
      a \<le> d \<and> d \<le> b \<and> status_on (av_calendar v) d = Some DayTradingSession \<and>
      (\<forall>x\<in>{d<..b}. status_on (av_calendar v) x = Some DayClosed)"
proof -
  let ?rs = "filter (\<lambda>r. a \<le> dr_date r \<and> dr_date r \<le> b) (sn_rows (av_calendar v))"
  note dates = range_statuses [OF ok w refl]
  have "scan_session ?rs = Found d \<longleftrightarrow>
      find (not_closed (av_calendar v)) [a..b] = Some d \<and> status_on (av_calendar v) d = Some DayTradingSession"
    using scan_session_dates [OF dates(2)] by (simp only: dates(1))
  then show "first_session v (Some (a, b)) = Inr (Found d) \<longleftrightarrow>
      a \<le> d \<and> d \<le> b \<and> status_on (av_calendar v) d = Some DayTradingSession \<and>
      (\<forall>x\<in>{a..<d}. status_on (av_calendar v) x = Some DayClosed)"
    by (auto simp: first_session_def rows_in_range_Some w find_upto not_closed_def)
  have "scan_session (rev ?rs) = Found d \<longleftrightarrow>
      find (not_closed (av_calendar v)) (map dr_date (rev ?rs)) = Some d \<and>
      status_on (av_calendar v) d = Some DayTradingSession"
    by (rule scan_session_dates) (rule dates(2), simp)
  then show "last_session v (Some (a, b)) = Inr (Found d) \<longleftrightarrow>
      a \<le> d \<and> d \<le> b \<and> status_on (av_calendar v) d = Some DayTradingSession \<and>
      (\<forall>x\<in>{d<..b}. status_on (av_calendar v) x = Some DayClosed)"
    by (auto simp: last_session_def rows_in_range_Some w rev_map [symmetric] dates(1) find_rev_upto not_closed_def)
qed

lemma view_day_is:
  assumes "calendar_ok (av_calendar v)"
  shows "view_day v d =
     (case find (\<lambda>r. dr_date r = d) (sn_rows (av_calendar v)) of
        None \<Rightarrow> Inl (QueryOutOfRange d) | Some r \<Rightarrow> Inr (resolve_row (av_calendar v) r))"
  using status_on_defined [OF assms, of d]
  by (auto simp: view_day_def Let_def status_on_def not_less split: option.split)

lemma resolved_ids:
  assumes "set ids \<subseteq> key ` set xs"
  shows "map key (List.map_filter (\<lambda>i. find (\<lambda>x. key x = i) xs) ids) = ids"
  using assms
proof (induction ids)
  case (Cons i ids)
  then obtain x where "find (\<lambda>x. key x = i) xs = Some x" "key x = i"
    by (cases "find (\<lambda>x. key x = i) xs") (auto simp: find_None_iff find_Some_iff)
  with Cons show ?case by (simp add: map_filter_simps)
qed (simp add: map_filter_simps)

text \<open>A snapshot with a session, a weekend and an unknown Monday, 2024-01-05 to 2024-01-08.\<close>

definition plain_codec :: snapshot_codec where
  "plain_codec = \<lparr>sk_value = \<lambda>_. JNull, sk_date = \<lambda>_. ''day'', sk_string = \<lambda>x. x, sk_sha = \<lambda>x. x\<rparr>"

definition sample_rule :: evidence_record where
  "sample_rule = \<lparr>ev_id = ''weekend'', ev_source = ''krx'', ev_date = 738891, ev_kind = DeterministicRule,
     ev_valid = True, ev_superseded = None, ev_citation = None, ev_recorded = 0\<rparr>"

definition sample_rows :: "day_row list" where
  "sample_rows = map (\<lambda>(d, st, ev).
     \<lparr>dr_date = d, dr_status = st, dr_decisive = ev, dr_conflicting = [], dr_alerts = []\<rparr>)
     [(738890, DayTradingSession, [''w'']), (738891, DayClosed, [''weekend'']),
      (738892, DayClosed, [''weekend'']), (738893, DayUnknown, [])]"

definition sample_body :: snapshot where
  "sample_body = \<lparr>sn_schema = SCHEMA_VERSION, sn_artifact = [], sn_calendar = [], sn_predecessor = None,
     sn_scope = \<lparr>sc_name = [], sc_venue = [], sc_class = [], sc_timezone = [], sc_synthetic = True\<rparr>,
     sn_authorization = \<lparr>au_authorized = True, au_authority = [], au_granted = 0, au_expires = None, au_terminated = None\<rparr>,
     sn_coverage = \<lparr>cv_from = 738890, cv_through = 738893, cv_retro = 738890, cv_scheduled = 738893, cv_sources = []\<rparr>,
     sn_freshness = \<lparr>fr_refreshed = 0, fr_holidays = None, fr_full = None, fr_forward = None, fr_incremental = None\<rparr>,
     sn_sources = [], sn_evidence = [build_witness_record 738890 ''w'' ''krx'' 0, sample_rule],
     sn_alerts = [], sn_rows = sample_rows\<rparr>"

definition sample_calendar :: snapshot where
  "sample_calendar = sample_body \<lparr>sn_artifact := compute_artifact_id plain_codec sample_body,
     sn_calendar := compute_calendar_id plain_codec sample_body\<rparr>"

definition sample_view :: as_of_view where
  "sample_view = \<lparr>av_calendar = sample_calendar, av_instant = 0\<rparr>"

lemma schema_self: "schema_is_compatible SCHEMA_VERSION"
  by (simp add: schema_is_compatible_def parse_major_def SCHEMA_VERSION_def parse_u64_def Let_def
      digits_value_def is_digit_def digit_val_def)

lemma sample_loads: "from_snapshot plain_codec sample_calendar 0 = Inr sample_calendar"
proof -
  have ids: "compute_artifact_id plain_codec sample_calendar = sn_artifact sample_calendar"
      "compute_calendar_id plain_codec sample_calendar = sn_calendar sample_calendar"
    by (simp_all add: sample_calendar_def compute_artifact_id_def compute_calendar_id_def
        decisive_claims_def plain_codec_def)
  have rest: "sn_schema sample_calendar = SCHEMA_VERSION"
      "validate_coverage plain_codec (sn_coverage sample_calendar) = None"
      "validate_authorization (sn_authorization sample_calendar) 0 = None"
    by (simp_all add: sample_calendar_def sample_body_def validate_coverage_def validate_authorization_def)
  have rows: "validate_rows plain_codec sample_calendar = None"
    by (simp add: sample_calendar_def sample_body_def sample_rows_def validate_rows_def succ_opt_def DATE_MAX_def)
  have refs: "validate_references sample_calendar = None"
    by (simp add: sample_calendar_def sample_body_def sample_rows_def validate_references_def dangling_in_def
        build_witness_record_def sample_rule_def map_filter_simps)
  show ?thesis
    by (simp add: from_snapshot_def validate_def ids rest rows refs schema_self)
qed

lemma sample_view_is: "as_of sample_calendar 0 = Inr sample_view"
  by (simp add: as_of_def sample_view_def evaluate_authorization_def sample_calendar_def sample_body_def)

section \<open>Properties\<close>

text \<open>
  A calendar that loaded answers for exactly the dates of its window, each with the status of
  its row, and every evidence record and alert the row cites is in the answer.\<close>

theorem calendar_answers_its_window:
  assumes "from_snapshot c s t = Inr cal" and "as_of cal u = Inr v"
  shows "(if cv_from (sn_coverage s) \<le> d \<and> d \<le> cv_through (sn_coverage s)
     then \<exists>r f. r \<in> set (sn_rows s) \<and> dr_date r = d \<and> view_day v d = Inr f \<and> df_status f = dr_status r \<and>
       map ev_id (df_decisive f) = dr_decisive r \<and> map ev_id (df_conflicting f) = dr_conflicting r \<and>
       map al_id (df_alerts f) = dr_alerts r
     else view_day v d = Inl (QueryOutOfRange d))"
proof -
  note ok = from_snapshot_ok [OF assms(1)]
  have v: "av_calendar v = s" using as_of_calendar [OF assms(2)] ok(1) by simp
  have vd: "view_day v d = (case find (\<lambda>r. dr_date r = d) (sn_rows s) of
      None \<Rightarrow> Inl (QueryOutOfRange d) | Some r \<Rightarrow> Inr (resolve_row s r))"
    using view_day_is [of v d] ok(2) unfolding v by simp
  have refs: "map ev_id (df_decisive (resolve_row s r)) = dr_decisive r"
      "map ev_id (df_conflicting (resolve_row s r)) = dr_conflicting r"
      "map al_id (df_alerts (resolve_row s r)) = dr_alerts r" if "r \<in> set (sn_rows s)" for r
    using ok(2) that
    by (simp_all add: calendar_ok_def list_all_iff resolve_row_def Let_def resolved_ids)
  show ?thesis
  proof (cases "find (\<lambda>r. dr_date r = d) (sn_rows s)")
    case None
    then show ?thesis using status_on_defined [OF ok(2), of d] vd by (auto simp: status_on_def)
  next
    case (Some r)
    then have "r \<in> set (sn_rows s)" "dr_date r = d" by (auto simp: find_Some_iff)
    with Some refs [of r] show ?thesis
      using status_on_defined [OF ok(2), of d] vd by (auto simp: status_on_def resolve_row_def Let_def)
  qed
qed

theorem calendar_answers_its_window_witness:
  "\<exists>f. view_day sample_view 738891 = Inr f \<and> map ev_id (df_decisive f) = [''weekend'']"
proof -
  have cov: "sn_coverage sample_calendar = sn_coverage sample_body" "sn_rows sample_calendar = sample_rows"
    by (simp_all add: sample_calendar_def sample_body_def)
  show ?thesis
    using calendar_answers_its_window [OF sample_loads sample_view_is, of 738891]
    by (auto simp: cov sample_body_def sample_rows_def)
qed

text \<open>
  C24. On a loaded calendar \<open>presence\<close> says Present exactly when a session is proven in the range
  and Absent exactly when every date of it is proven closed, and \<open>first_session\<close> and
  \<open>last_session\<close> find a date exactly when it is a proven session with only proven closures before
  (after) it.\<close>

theorem session_answers_are_proofs:
  assumes "from_snapshot c s t = Inr cal" and "as_of cal u = Inr v" and "in_window s a b"
  shows "(view_presence v (Some (a, b)) = Inr Present \<longleftrightarrow> (\<exists>d. a \<le> d \<and> d \<le> b \<and> status_on s d = Some DayTradingSession)) \<and>
    (view_presence v (Some (a, b)) = Inr Absent \<longleftrightarrow> (\<forall>d\<in>{a..b}. status_on s d = Some DayClosed)) \<and>
    (first_session v (Some (a, b)) = Inr (Found d) \<longleftrightarrow>
      a \<le> d \<and> d \<le> b \<and> status_on s d = Some DayTradingSession \<and> (\<forall>x\<in>{a..<d}. status_on s x = Some DayClosed)) \<and>
    (last_session v (Some (a, b)) = Inr (Found d) \<longleftrightarrow>
      a \<le> d \<and> d \<le> b \<and> status_on s d = Some DayTradingSession \<and> (\<forall>x\<in>{d<..b}. status_on s x = Some DayClosed))"
proof -
  have v: "av_calendar v = s" and ok: "calendar_ok s"
    using as_of_calendar [OF assms(2)] from_snapshot_ok(1,2) [OF assms(1)] by auto
  have tri: "status_on s d = Some DayClosed \<longleftrightarrow>
      status_on s d \<noteq> Some DayTradingSession \<and> status_on s d \<noteq> Some DayUnknown" if "d \<in> {a..b}" for d
    using status_on_defined [OF ok, of d] that assms(3)
    by (cases "status_on s d"; cases "the (status_on s d)") (auto simp: in_window_def)
  have closed: "(\<forall>d\<in>{a..b}. status_on s d = Some DayClosed) \<longleftrightarrow>
      \<not> (\<exists>d\<in>{a..b}. status_on s d = Some DayTradingSession) \<and> \<not> (\<exists>d\<in>{a..b}. status_on s d = Some DayUnknown)"
    using tri by auto
  show ?thesis
    using view_presence_is [of v a b] session_ends [of v a b d] ok assms(3) unfolding v
    by (simp add: closed) auto
qed

theorem session_answers_are_proofs_witness:
  "view_presence sample_view (Some (738891, 738892)) = Inr Absent"
proof -
  have w: "in_window sample_calendar 738891 738892"
    by (simp add: in_window_def sample_calendar_def sample_body_def)
  have "d = 738891 \<or> d = 738892" if "d \<in> {738891..738892}" for d :: int using that by auto
  then have "\<forall>d\<in>{738891..738892}. status_on sample_calendar d = Some DayClosed"
    by (auto simp: status_on_def sample_calendar_def sample_body_def sample_rows_def)
  then show ?thesis
    using session_answers_are_proofs [OF sample_loads sample_view_is w] by blast
qed

section \<open>Properties of reconciliation\<close>

lemma reconcile_status:
  "rd_status (reconcile_date d evidence) =
     (let evs = filter (\<lambda>r. ev_date r = d) evidence; closures = cited_closures evs
      in if effective_ids evs PositiveWitness \<noteq> []
         then (if closures = [] then DayTradingSession else DayUnknown)
         else if length closures = 1 \<or> closures = [] \<and> effective_ids evs DeterministicRule \<noteq> []
         then DayClosed else DayUnknown)"
  by (cases "cited_closures (filter (\<lambda>r. ev_date r = d) evidence)" rule: remdups_adj.cases)
    (auto simp: reconcile_date_def Let_def)

lemma effective_ids_Nil:
  "effective_ids evs k = [] \<longleftrightarrow> list_all (\<lambda>r. \<not> (effective evs r \<and> ev_kind r = k)) evs"
  by (simp add: effective_ids_def filter_empty_conv list_all_iff)

lemma cited_closures_Nil:
  "cited_closures evs = [] \<longleftrightarrow>
     list_all (\<lambda>r. \<not> (effective evs r \<and> ev_kind r = ClosureNotice \<and> ev_citation r \<noteq> None)) evs"
  by (simp add: cited_closures_def filter_empty_conv list_all_iff)

lemma superseded_snoc_fresh:
  assumes "list_all (\<lambda>r. ev_superseded r \<noteq> Some (ev_id x)) evs"
  shows "r \<in> set evs \<Longrightarrow> is_superseded (evs @ [x]) r = is_superseded evs r"
  using assms by (auto simp: is_superseded_def list_all_iff split: option.splits)

lemma ineffective_snoc:
  assumes "list_all (\<lambda>r. ev_superseded r \<noteq> Some (ev_id x)) evs" and "\<not> ev_valid x"
  shows "effective_ids (evs @ [x]) k = effective_ids evs k" "cited_closures (evs @ [x]) = cited_closures evs"
proof -
  have "effective (evs @ [x]) r = effective evs r" if "r \<in> set evs" for r
    using superseded_snoc_fresh [OF assms(1) that] by (simp add: effective_def)
  moreover have "\<not> effective (evs @ [x]) x" using assms(2) by (simp add: effective_def)
  ultimately show "effective_ids (evs @ [x]) k = effective_ids evs k" "cited_closures (evs @ [x]) = cited_closures evs"
    by (simp_all add: effective_ids_def cited_closures_def cong: filter_cong)
qed

lemma witness_snoc:
  assumes "list_all (\<lambda>r. ev_superseded r \<noteq> Some (ev_id x)) evs"
    and "ev_kind x = PositiveWitness" "ev_valid x" "ev_superseded x = None"
  shows "cited_closures (evs @ [x]) = cited_closures evs" "effective_ids (evs @ [x]) PositiveWitness \<noteq> []"
proof -
  have "effective (evs @ [x]) r = effective evs r" if "r \<in> set evs" for r
    using superseded_snoc_fresh [OF assms(1) that] by (simp add: effective_def)
  then show "cited_closures (evs @ [x]) = cited_closures evs"
    using assms(2) by (simp add: cited_closures_def cong: filter_cong)
  show "effective_ids (evs @ [x]) PositiveWitness \<noteq> []"
    using assms(2-4) by (simp add: effective_ids_Nil effective_def is_superseded_def)
qed

text \<open>
  What a day is reconciled to: a session exactly when some effective witness stands and no
  effective cited closure notice does; closed exactly when no effective witness stands and there is
  one effective cited notice, or none and an effective rule. A holiday fact alone, an uncited notice,
  a correction or an adjudication decides nothing.\<close>

theorem reconciled_status_is_justified:
  "(rd_status (reconcile_date d evidence) = DayTradingSession \<longleftrightarrow>
      effective_ids (filter (\<lambda>r. ev_date r = d) evidence) PositiveWitness \<noteq> [] \<and>
      cited_closures (filter (\<lambda>r. ev_date r = d) evidence) = []) \<and>
   (rd_status (reconcile_date d evidence) = DayClosed \<longleftrightarrow>
      effective_ids (filter (\<lambda>r. ev_date r = d) evidence) PositiveWitness = [] \<and>
      (length (cited_closures (filter (\<lambda>r. ev_date r = d) evidence)) = 1 \<or>
       cited_closures (filter (\<lambda>r. ev_date r = d) evidence) = [] \<and>
       effective_ids (filter (\<lambda>r. ev_date r = d) evidence) DeterministicRule \<noteq> [])) \<and>
   (if rd_status (reconcile_date d evidence) = DayUnknown then rd_decisive (reconcile_date d evidence) = []
    else rd_decisive (reconcile_date d evidence) \<noteq> [])"
proof -
  have "rd_status (reconcile_date d evidence) = DayUnknown \<longleftrightarrow> rd_decisive (reconcile_date d evidence) = []"
    by (cases "cited_closures (filter (\<lambda>r. ev_date r = d) evidence)" rule: remdups_adj.cases)
      (auto simp: reconcile_date_def Let_def)
  then show ?thesis by (auto simp: reconcile_status Let_def)
qed

text \<open>
  Absence never retracts: recording an empty or malformed answer (a witness record that is
  not valid, under a new id) changes neither the status nor the decisive evidence of any day.\<close>

theorem absence_never_retracts:
  assumes "\<not> ev_valid x" and "list_all (\<lambda>r. ev_superseded r \<noteq> Some (ev_id x)) evidence"
  shows "rd_status (reconcile_date d (evidence @ [x])) = rd_status (reconcile_date d evidence) \<and>
    rd_decisive (reconcile_date d (evidence @ [x])) = rd_decisive (reconcile_date d evidence)"
proof (cases "ev_date x = d")
  case True
  let ?evs = "filter (\<lambda>r. ev_date r = d) evidence"
  have fresh: "list_all (\<lambda>r. ev_superseded r \<noteq> Some (ev_id x)) ?evs"
    using assms(2) by (simp add: list_all_iff)
  have fl: "filter (\<lambda>r. ev_date r = d) (evidence @ [x]) = ?evs @ [x]" using True by simp
  note same = ineffective_snoc [OF fresh assms(1)]
  have dec: "rd_decisive (reconcile_date d (evidence @ [x])) = rd_decisive (reconcile_date d evidence)"
    unfolding reconcile_date_def Let_def fl same
    by (cases "cited_closures ?evs" rule: remdups_adj.cases) simp_all
  show ?thesis unfolding reconcile_status Let_def fl same using dec by simp
qed (simp add: reconcile_date_def)

theorem absence_never_retracts_witness:
  "rd_status (reconcile_date 738890 ([build_witness_record 738890 ''w'' ''krx'' 0] @
     [build_witness_record 738890 ''later'' ''krx'' 1 \<lparr>ev_valid := False\<rparr>])) = DayTradingSession"
  using absence_never_retracts [of "build_witness_record 738890 ''later'' ''krx'' 1 \<lparr>ev_valid := False\<rparr>"
      "[build_witness_record 738890 ''w'' ''krx'' 0]" 738890]
  by (simp add: reconcile_status Let_def effective_ids_def cited_closures_def effective_def
      is_superseded_def build_witness_record_def)

text \<open>
  The witness rule only ever strengthens a day: what it accepts is a valid witness for the
  requested date, so adding it never closes a day, and it opens every day without a cited notice.\<close>

theorem witness_never_closes:
  assumes "witness_from_response c w = Witness e"
    and "list_all (\<lambda>r. ev_superseded r \<noteq> Some (ev_id e)) evidence"
  shows "rd_status (reconcile_date (kw_requested w) (evidence @ [e])) =
    (if cited_closures (filter (\<lambda>r. ev_date r = kw_requested w) evidence) = [] then DayTradingSession else DayUnknown)"
proof -
  have e: "ev_date e = kw_requested w" "ev_kind e = PositiveWitness" "ev_valid e" "ev_superseded e = None"
    using assms(1) by (auto simp: witness_from_response_def Let_def build_witness_record_def split: if_splits)
  have "list_all (\<lambda>r. ev_superseded r \<noteq> Some (ev_id e)) (filter (\<lambda>r. ev_date r = kw_requested w) evidence)"
    using assms(2) by (simp add: list_all_iff)
  from witness_snoc [OF this e(2-4)] e(1) show ?thesis
    by (simp add: reconcile_status Let_def)
qed

theorem witness_never_closes_witness:
  "rd_status (reconcile_date 738890 ([sample_rule \<lparr>ev_date := 738890\<rparr>] @
     [build_witness_record 738890 ''krx-witness-day'' ''krx-daily-market'' ((738890 - 719163) * nanos_per_day)])) =
   DayTradingSession"
proof -
  let ?w = "\<lparr>kw_success = True, kw_requested = 738890,
    kw_rows = [\<lparr>kr_date = 738890, kr_market = ''KOSPI''\<rparr>], kw_error = None\<rparr>"
  have "trim ''KOSPI'' = ''KOSPI''" by (rule trim_plain) (auto simp: plain_char_def)
  then have "witness_from_response plain_codec ?w =
      Witness (build_witness_record 738890 ''krx-witness-day'' ''krx-daily-market'' ((738890 - 719163) * nanos_per_day))"
    by (simp add: witness_from_response_def is_structurally_valid_def is_qualifying_kospi_def
        default_witness_id_def plain_codec_def MIN_WITNESS_DATE_def eq_ignore_case_def)
  from witness_never_closes [OF this, of "[sample_rule \<lparr>ev_date := 738890\<rparr>]"]
  show ?thesis by (simp add: build_witness_record_def sample_rule_def cited_closures_def)
qed

text \<open>
  One notice listed twice is a first-party conflict with itself.\<close>

theorem duplicate_notice_conflicts:
  "rd_status (reconcile_date d [n, n]) = (if ev_date n = d \<and> effective [n] n \<and> ev_kind n = ClosureNotice \<and> ev_citation n \<noteq> None
     then DayUnknown else rd_status (reconcile_date d [n]))"
  by (auto simp: reconcile_status Let_def cited_closures_def effective_ids_def effective_def is_superseded_def
      split: option.splits)

section \<open>What the calendar identity depends on\<close>

lemma map_sort_key: "map k (sort_key k xs) = sort (map k xs)"
  by (rule properties_for_sort [symmetric]) simp_all

lemma sort_mset_cong: "mset xs = mset ys \<Longrightarrow> sort xs = sort ys"
  by (metis sorted_list_of_multiset_mset)

definition row_essence :: "day_row \<Rightarrow> int \<times> day_status \<times> string multiset" where
  "row_essence r = (dr_date r, dr_status r, mset (dr_decisive r))"

lemma row_claims_mset:
  assumes "mset (map row_essence rs) = mset (map row_essence rs')"
  shows "mset (map (row_claim c) rs) = mset (map (row_claim c) rs')"
proof -
  define g where "g = (\<lambda>(d, st, m). JArr [JStr (sk_date c d), status_json st,
    JArr (map JStr (sorted_list_of_multiset m))])"
  have "map (row_claim c) xs = map g (map row_essence xs)" for xs
    by (simp add: g_def row_claim_def row_essence_def)
  then show ?thesis using assms by (metis mset_map)
qed

lemma decisive_mset:
  assumes "mset (map row_essence rs) = mset (map row_essence rs')"
  shows "mset (concat (map dr_decisive rs)) = mset (concat (map dr_decisive rs'))"
proof -
  have *: "mset (concat (map dr_decisive xs)) = sum_mset (image_mset (snd \<circ> snd) (mset (map row_essence xs)))" for xs
    by (induction xs) (simp_all add: row_essence_def)
  show ?thesis by (simp only: * assms)
qed

lemma evidence_claim_inj:
  "evidence_claim e = evidence_claim e' \<Longrightarrow> ev_id e = ev_id e'"
  by (simp add: evidence_claim_def)

lemma find_claim:
  assumes "map evidence_claim es = map evidence_claim es'"
  shows "map_option evidence_claim (find (\<lambda>e. ev_id e = i) es) = map_option evidence_claim (find (\<lambda>e. ev_id e = i) es')"
  using assms
proof (induction es arbitrary: es')
  case (Cons e es)
  then obtain e' es'' where es': "es' = e' # es''" "evidence_claim e = evidence_claim e'"
      "map evidence_claim es = map evidence_claim es''" by (cases es') auto
  then show ?case using Cons.IH [of es''] evidence_claim_inj [of e e'] by simp
qed simp

lemma map_map_filter: "map f (List.map_filter g xs) = List.map_filter (\<lambda>x. map_option f (g x)) xs"
  by (induction xs) (auto simp: map_filter_simps split: option.split)

text \<open>
  The calendar identity is the identity of the calendar's meaning: it depends on the days,
  their statuses and decisive evidence as a multiset and on the id, kind and validity of the
  evidence, and on nothing else: not on the order of the rows, on conflicts, alerts, sources,
  instants, authorization, freshness or the predecessor.\<close>

theorem calendar_id_is_semantic:
  assumes "mset (map row_essence (sn_rows s)) = mset (map row_essence (sn_rows s'))"
    and "map evidence_claim (sn_evidence s) = map evidence_claim (sn_evidence s')"
  shows "compute_calendar_id c s = compute_calendar_id c s'"
proof -
  have "sort (map (canonical_string c) (map (row_claim c) (sn_rows s))) =
      sort (map (canonical_string c) (map (row_claim c) (sn_rows s')))"
    by (rule sort_mset_cong) (simp only: mset_map [of "canonical_string c"] row_claims_mset [OF assms(1)])
  moreover have "decisive_claims s = decisive_claims s'"
    unfolding decisive_claims_def map_map_filter find_claim [OF assms(2)]
      sort_mset_cong [OF decisive_mset [OF assms(1)]] ..
  ultimately show ?thesis
    by (simp add: compute_calendar_id_def hash_canonical_def map_sort_key)
qed

theorem calendar_id_is_semantic_witness:
  "compute_calendar_id plain_codec (sample_calendar \<lparr>sn_rows := rev sample_rows, sn_predecessor := Some ''p''\<rparr>) =
   sn_calendar sample_calendar"
proof -
  have "compute_calendar_id plain_codec (sample_calendar \<lparr>sn_rows := rev sample_rows, sn_predecessor := Some ''p''\<rparr>) =
      compute_calendar_id plain_codec sample_calendar"
    by (rule calendar_id_is_semantic) (simp_all add: sample_calendar_def sample_body_def)
  then show ?thesis using from_snapshot_ok(5) [OF sample_loads] by simp
qed

end
