(* ===== verification/Scrub.thy ===== *)
theory Scrub
  imports Prelude
begin

text \<open>
  \<open>adapters/nautilus/src/scrub.rs\<close>: the masking of account numbers and secrets in free text. The
  source walks characters; only ASCII letters, digits and the hyphen matter to it, and no byte of a
  longer UTF-8 character is one of those, so the walk over bytes is the same walk.
\<close>

definition ascii_alnum :: "char \<Rightarrow> bool" where
  "ascii_alnum c = (let n = of_char c :: nat in
     48 \<le> n \<and> n \<le> 57 \<or> 65 \<le> n \<and> n \<le> 90 \<or> 97 \<le> n \<and> n \<le> 122)"

definition token_char :: "char \<Rightarrow> bool" where
  "token_char c = (ascii_alnum c \<or> c = CHR ''-'')"

fun six_digits :: "nat \<Rightarrow> string \<Rightarrow> bool" where
  "six_digits n [] = False"
| "six_digits n (c # cs) =
     (if is_digit c then (if 6 \<le> n + 1 then True else six_digits (n + 1) cs) else six_digits 0 cs)"

definition run_is_sensitive :: "string \<Rightarrow> bool" where
  "run_is_sensitive run = (six_digits 0 run \<or> 20 \<le> length (filter ascii_alnum run))"

definition flush_run :: "string \<Rightarrow> string" where
  "flush_run run = (if run_is_sensitive run then ''***'' else run)"

fun scrub_loop :: "string \<Rightarrow> string \<Rightarrow> string \<Rightarrow> string" where
  "scrub_loop out run [] = out @ flush_run run"
| "scrub_loop out run (c # cs) =
     (if token_char c then scrub_loop out (run @ [c]) cs
      else scrub_loop ((out @ flush_run run) @ [c]) [] cs)"

definition scrub_secrets :: "string \<Rightarrow> string" where
  "scrub_secrets s = scrub_loop [] [] s"

section \<open>The tokens of a text\<close>

fun tokens_from :: "string \<Rightarrow> string \<Rightarrow> string list" where
  "tokens_from run [] = [run]"
| "tokens_from run (c # cs) =
     (if token_char c then tokens_from (run @ [c]) cs else run # tokens_from [] cs)"

definition tokens :: "string \<Rightarrow> string list" where
  "tokens s = tokens_from [] s"

definition clean_text :: "string \<Rightarrow> bool" where
  "clean_text s = list_all (\<lambda>t. \<not> run_is_sensitive t) (tokens s)"

lemma star_no_token [simp]: "\<not> token_char CHR ''*''"
  by code_simp

lemma empty_not_sensitive [simp]: "\<not> run_is_sensitive []"
  by (simp add: run_is_sensitive_def)

lemma scrub_loop_out: "scrub_loop out run s = out @ scrub_loop [] run s"
proof (induction s arbitrary: out run)
  case (Cons c s)
  show ?case
  proof (cases "token_char c")
    case True
    with Cons [of out "run @ [c]"] show ?thesis by simp
  next
    case False
    with Cons [of "(out @ flush_run run) @ [c]" "[]"] Cons [of "flush_run run @ [c]" "[]"]
    show ?thesis by simp
  qed
qed simp

lemma scrub_loop_step:
  "\<not> token_char c \<Longrightarrow> scrub_loop [] run (c # s) = flush_run run @ c # scrub_loop [] [] s"
  using scrub_loop_out [of "flush_run run @ [c]" "[]" s] by simp

lemma tokens_from_run:
  "list_all token_char run \<Longrightarrow> tokens_from acc (run @ s) = tokens_from (acc @ run) s"
  by (induction run arbitrary: acc) simp_all

lemma tokens_flush:
  assumes "list_all token_char run" "\<not> token_char c"
    and "list_all (\<lambda>t. \<not> run_is_sensitive t) (tokens_from [] s)"
  shows "list_all (\<lambda>t. \<not> run_is_sensitive t) (tokens_from [] (flush_run run @ c # s))"
proof (cases "run_is_sensitive run")
  case True
  with assms show ?thesis by (simp add: flush_run_def)
next
  case False
  with assms tokens_from_run [of run "[]" "c # s"] show ?thesis by (simp add: flush_run_def)
qed

lemma tokens_flush_end:
  "list_all token_char run \<Longrightarrow> list_all (\<lambda>t. \<not> run_is_sensitive t) (tokens_from [] (flush_run run))"
  using tokens_from_run [of run "[]" "[]"] by (simp add: flush_run_def)

lemma scrub_loop_clean:
  "list_all token_char run \<Longrightarrow>
     list_all (\<lambda>t. \<not> run_is_sensitive t) (tokens_from [] (scrub_loop [] run s))"
proof (induction s arbitrary: run)
  case Nil
  then show ?case by (simp add: tokens_flush_end)
next
  case (Cons c s)
  show ?case
  proof (cases "token_char c")
    case True
    with Cons.prems Cons.IH [of "run @ [c]"] show ?thesis by simp
  next
    case False
    with tokens_flush [OF Cons.prems False Cons.IH [of "[]"]] show ?thesis
      by (simp only: scrub_loop_step list.pred_inject simp_thms)
  qed
qed

lemma scrub_loop_keeps:
  "list_all (\<lambda>t. \<not> run_is_sensitive t) (tokens_from run s) \<Longrightarrow> scrub_loop [] run s = run @ s"
proof (induction s arbitrary: run)
  case Nil
  then show ?case by (simp add: flush_run_def)
next
  case (Cons c s)
  show ?case
  proof (cases "token_char c")
    case True
    with Cons show ?thesis by simp
  next
    case False
    with Cons.prems have "\<not> run_is_sensitive run" "scrub_loop [] [] s = [] @ s"
      using Cons.IH [of "[]"] by simp_all
    with scrub_loop_step [OF False, of run s] show ?thesis
      by (simp only: flush_run_def if_False append_Nil)
  qed
qed

lemma scrub_clean: "clean_text (scrub_secrets s)"
  using scrub_loop_clean [of "[]" s] by (simp add: clean_text_def tokens_def scrub_secrets_def)

lemma scrub_keeps: "clean_text s \<Longrightarrow> scrub_secrets s = s"
  using scrub_loop_keeps [of "[]" s] by (simp add: clean_text_def tokens_def scrub_secrets_def)

text \<open>
  Scrubbing leaves no account-like or secret-like token, changes nothing more the second time, and
  leaves a text alone exactly when it holds no such token.
\<close>

theorem scrub_is_safe:
  "clean_text (scrub_secrets s) \<and> scrub_secrets (scrub_secrets s) = scrub_secrets s \<and>
     (scrub_secrets s = s \<longleftrightarrow> clean_text s)"
  using scrub_clean [of s] scrub_keeps [of s] scrub_keeps [OF scrub_clean [of s]] by metis

end
