(* ===== verification/Advisory_Lock.thy ===== *)
theory Advisory_Lock
  imports Ls_Error
begin

text \<open>
  \<open>adapters/nautilus/src/lock.rs\<close>: the advisory lockfiles that keep a bulk ingest and a live session
  apart and serialize the appends to the dispatch chain. A lock directory is the set of the file
  names in it; failures of the file system other than an existing file are not modelled.
\<close>

section \<open>Acquiring and releasing\<close>

datatype lock_kind = IngestLock | LiveLock | DispatchLock

fun lock_filename :: "lock_kind \<Rightarrow> string" where
  "lock_filename IngestLock = ''.ls-ingest.lock''"
| "lock_filename LiveLock = ''.ls-live.lock''"
| "lock_filename DispatchLock = ''.ls-dispatch.lock''"

fun counterpart :: "lock_kind \<Rightarrow> lock_kind option" where
  "counterpart IngestLock = Some LiveLock"
| "counterpart LiveLock = Some IngestLock"
| "counterpart DispatchLock = None"

fun lock_label :: "lock_kind \<Rightarrow> string" where
  "lock_label IngestLock = ''ingest''"
| "lock_label LiveLock = ''live-session''"
| "lock_label DispatchLock = ''dispatch''"

definition is_held :: "string set \<Rightarrow> lock_kind \<Rightarrow> bool" where
  "is_held dir k = (lock_filename k \<in> dir)"

text \<open>The two halves of \<open>acquire\<close>: the look at the counterpart's file, and \<open>O_CREAT | O_EXCL\<close>.\<close>

definition check_counterpart :: "string set \<Rightarrow> lock_kind \<Rightarrow> string + unit" where
  "check_counterpart dir k =
     (case counterpart k of
        Some other \<Rightarrow>
          if is_held dir other
          then Inl (''refusing to start '' @ lock_label k @ '': the '' @ lock_label other @ '' lock is held'')
          else Inr ()
      | None \<Rightarrow> Inr ())"

definition create_new :: "string set \<Rightarrow> lock_kind \<Rightarrow> (string + unit) \<times> string set" where
  "create_new dir k =
     (if is_held dir k then (Inl (''refusing to start '' @ lock_label k @ '': a lock already exists''), dir)
      else (Inr (), insert (lock_filename k) dir))"

definition lock_acquire :: "string set \<Rightarrow> lock_kind \<Rightarrow> (string + unit) \<times> string set" where
  "lock_acquire dir k =
     (case check_counterpart dir k of
        Inl why \<Rightarrow> (Inl why, dir)
      | Inr _ \<Rightarrow> create_new dir k)"

definition lock_release :: "string set \<Rightarrow> lock_kind \<Rightarrow> string set" where
  "lock_release dir k = dir - {lock_filename k}"

lemma lock_filename_inj [simp]: "lock_filename k = lock_filename k' \<longleftrightarrow> k = k'"
  by (cases k; cases k') simp_all

lemma release_undoes_acquire:
  "lock_acquire dir k = (Inr (), dir') \<Longrightarrow> lock_release dir' k = dir"
  by (auto simp: lock_acquire_def create_new_def lock_release_def is_held_def split: sum.splits if_splits)

section \<open>Processes racing for the locks\<close>

text \<open>
  A process is idle, has looked at its counterpart, or holds its lock. A refusal returns it to idle,
  as a drop does. Process \<open>p\<close> acquires the lock of kind \<open>kf p\<close>.
\<close>

datatype lock_pc = LockIdle | LockChecked | LockHeld

record lock_world =
  lw_dir :: "string set"
  lw_pc :: "nat \<Rightarrow> lock_pc"

inductive lock_step :: "(nat \<Rightarrow> lock_kind) \<Rightarrow> lock_world \<Rightarrow> lock_world \<Rightarrow> bool" for kf where
  check_ok: "lw_pc w p = LockIdle \<Longrightarrow> check_counterpart (lw_dir w) (kf p) = Inr () \<Longrightarrow>
     lock_step kf w (w\<lparr>lw_pc := (lw_pc w)(p := LockChecked)\<rparr>)"
| create_ok: "lw_pc w p = LockChecked \<Longrightarrow> create_new (lw_dir w) (kf p) = (Inr (), d) \<Longrightarrow>
     lock_step kf w (w\<lparr>lw_dir := d, lw_pc := (lw_pc w)(p := LockHeld)\<rparr>)"
| create_refused: "lw_pc w p = LockChecked \<Longrightarrow> create_new (lw_dir w) (kf p) = (Inl why, d) \<Longrightarrow>
     lock_step kf w (w\<lparr>lw_dir := d, lw_pc := (lw_pc w)(p := LockIdle)\<rparr>)"
| drop_lock: "lw_pc w p = LockHeld \<Longrightarrow>
     lock_step kf w (w\<lparr>lw_dir := lock_release (lw_dir w) (kf p), lw_pc := (lw_pc w)(p := LockIdle)\<rparr>)"

inductive_cases lock_stepE: "lock_step kf w w'"

definition lock_start :: lock_world where
  "lock_start = \<lparr>lw_dir = {}, lw_pc = (\<lambda>_. LockIdle)\<rparr>"

inductive lock_reachable :: "(nat \<Rightarrow> lock_kind) \<Rightarrow> lock_world \<Rightarrow> bool" for kf where
  start: "lock_reachable kf lock_start"
| step: "lock_reachable kf w \<Longrightarrow> lock_step kf w w' \<Longrightarrow> lock_reachable kf w'"

text \<open>A lock has one holder, and its file exists exactly while it is held.\<close>

definition locks_ok :: "(nat \<Rightarrow> lock_kind) \<Rightarrow> lock_world \<Rightarrow> bool" where
  "locks_ok kf w \<longleftrightarrow>
     (\<forall>p q. lw_pc w p = LockHeld \<longrightarrow> lw_pc w q = LockHeld \<longrightarrow> kf p = kf q \<longrightarrow> p = q) \<and>
     (\<forall>k. is_held (lw_dir w) k \<longleftrightarrow> (\<exists>p. kf p = k \<and> lw_pc w p = LockHeld))"

lemma locks_ok_step: "locks_ok kf w \<Longrightarrow> lock_step kf w w' \<Longrightarrow> locks_ok kf w'"
proof (erule lock_stepE)
  fix p assume ok: "locks_ok kf w" and w': "w' = w\<lparr>lw_pc := (lw_pc w)(p := LockChecked)\<rparr>"
    and p: "lw_pc w p = LockIdle"
  then show ?thesis by (auto simp: locks_ok_def) (metis lock_pc.distinct(3))
next
  fix p d assume ok: "locks_ok kf w"
    and w': "w' = w\<lparr>lw_dir := d, lw_pc := (lw_pc w)(p := LockHeld)\<rparr>"
    and p: "lw_pc w p = LockChecked" and c: "create_new (lw_dir w) (kf p) = (Inr (), d)"
  from c have d: "\<not> is_held (lw_dir w) (kf p)" "d = insert (lock_filename (kf p)) (lw_dir w)"
    by (auto simp: create_new_def split: if_splits)
  with ok have no: "kf q = kf p \<Longrightarrow> lw_pc w q \<noteq> LockHeld" for q by (metis locks_ok_def)
  have held: "is_held d k \<longleftrightarrow> k = kf p \<or> is_held (lw_dir w) k" for k
    by (auto simp: d(2) is_held_def)
  show ?thesis
    using ok no held p unfolding w' locks_ok_def by (auto split: if_splits) (metis+)
next
  fix p why d assume ok: "locks_ok kf w"
    and w': "w' = w\<lparr>lw_dir := d, lw_pc := (lw_pc w)(p := LockIdle)\<rparr>"
    and p: "lw_pc w p = LockChecked" and c: "create_new (lw_dir w) (kf p) = (Inl why, d)"
  then have "d = lw_dir w" by (auto simp: create_new_def split: if_splits)
  with ok p show ?thesis unfolding w' by (auto simp: locks_ok_def) (metis lock_pc.distinct(5))
next
  fix p assume ok: "locks_ok kf w"
    and w': "w' = w\<lparr>lw_dir := lock_release (lw_dir w) (kf p), lw_pc := (lw_pc w)(p := LockIdle)\<rparr>"
    and p: "lw_pc w p = LockHeld"
  have held: "is_held (lock_release (lw_dir w) (kf p)) k \<longleftrightarrow> k \<noteq> kf p \<and> is_held (lw_dir w) k" for k
    by (auto simp: is_held_def lock_release_def)
  show ?thesis
    using ok held p unfolding w' locks_ok_def by (auto split: if_splits) (metis+)
qed

lemma locks_ok_reachable: "lock_reachable kf w \<Longrightarrow> locks_ok kf w"
proof (induction rule: lock_reachable.induct)
  case start
  then show ?case by (simp add: locks_ok_def lock_start_def is_held_def)
next
  case (step w w')
  then show ?case using locks_ok_step by blast
qed

text \<open>
  Among processes of one kind the lock is exclusive, however they interleave, and its file is there
  exactly while some process holds it.
\<close>

theorem same_kind_exclusive:
  assumes "lock_reachable kf w" and "lw_pc w p = LockHeld" and "lw_pc w q = LockHeld" and "kf p = kf q"
  shows "p = q \<and> is_held (lw_dir w) (kf p)"
  using locks_ok_reachable [OF assms(1)] assms(2-4) unfolding locks_ok_def by blast

text \<open>Process 0 ingests, every other trades.\<close>

definition ingest_and_live :: "nat \<Rightarrow> lock_kind" where
  "ingest_and_live p = (if p = 0 then IngestLock else LiveLock)"

text \<open>
  Between an ingest and a live session the exclusion fails: each looks for the other's file before creating
  its own, so two that look first and create second both run.
\<close>

theorem counterparts_run_together:
  "\<exists>w. lock_reachable ingest_and_live w \<and> lw_pc w 0 = LockHeld \<and> lw_pc w 1 = LockHeld"
proof -
  let ?k = ingest_and_live
  let ?w1 = "lock_start\<lparr>lw_pc := (lw_pc lock_start)(0 := LockChecked)\<rparr>"
  let ?w2 = "?w1\<lparr>lw_pc := (lw_pc ?w1)(1 := LockChecked)\<rparr>"
  let ?w3 = "?w2\<lparr>lw_dir := {''.ls-ingest.lock''}, lw_pc := (lw_pc ?w2)(0 := LockHeld)\<rparr>"
  let ?w4 = "?w3\<lparr>lw_dir := {''.ls-live.lock'', ''.ls-ingest.lock''}, lw_pc := (lw_pc ?w3)(1 := LockHeld)\<rparr>"
  have "lock_step ?k lock_start ?w1"
    by (rule check_ok) (simp_all add: lock_start_def ingest_and_live_def check_counterpart_def is_held_def)
  moreover have "lock_step ?k ?w1 ?w2"
    by (rule check_ok) (simp_all add: lock_start_def ingest_and_live_def check_counterpart_def is_held_def)
  moreover have "lock_step ?k ?w2 ?w3"
    by (rule create_ok) (simp_all add: lock_start_def ingest_and_live_def create_new_def is_held_def)
  moreover have "lock_step ?k ?w3 ?w4"
    by (rule create_ok) (simp_all add: lock_start_def ingest_and_live_def create_new_def is_held_def)
  ultimately have "lock_reachable ?k ?w4" by (meson lock_reachable.intros)
  then show ?thesis by (intro exI [of _ ?w4]) simp
qed

lemma lock_reachable_held: "\<exists>w. lock_reachable (\<lambda>_. LiveLock) w \<and> lw_pc w 0 = LockHeld"
proof -
  let ?w1 = "lock_start\<lparr>lw_pc := (lw_pc lock_start)(0 := LockChecked)\<rparr>"
  let ?w2 = "?w1\<lparr>lw_dir := {''.ls-live.lock''}, lw_pc := (lw_pc ?w1)(0 := LockHeld)\<rparr>"
  have "lock_step (\<lambda>_. LiveLock) lock_start ?w1"
    by (rule check_ok) (simp_all add: lock_start_def check_counterpart_def is_held_def)
  moreover have "lock_step (\<lambda>_. LiveLock) ?w1 ?w2"
    by (rule create_ok) (simp_all add: lock_start_def create_new_def is_held_def)
  ultimately have "lock_reachable (\<lambda>_. LiveLock) ?w2" by (meson lock_reachable.intros)
  then show ?thesis by (intro exI [of _ ?w2]) simp
qed

theorem same_kind_exclusive_witness:
  "\<exists>w. lock_reachable (\<lambda>_. LiveLock) w \<and> is_held (lw_dir w) LiveLock"
  using lock_reachable_held same_kind_exclusive [of "\<lambda>_. LiveLock" _ 0 0] by blast

end
