(* ===== verification/Dispatch_Chain.thy ===== *)
theory Dispatch_Chain
  imports Scrub Advisory_Lock
begin

text \<open>
  \<open>adapters/nautilus/lab/src/dispatch/chain.rs\<close> and the vocabulary of \<open>dispatch/mod.rs\<close>: the
  append-only, hash-chained file that authorizes live sessions. The file is its text; reading it
  fails when it is not UTF-8. The JSON printer and parser, the digest and the calendar date of an
  instant are the functions of a \<open>chain_codec\<close>. Failing writes are not modelled, but a file may
  hold any text, so it may end in a torn line.
\<close>

section \<open>Vocabulary\<close>

definition RUNG_SUSPENDED :: nat where "RUNG_SUSPENDED = 0"
definition RUNG_MIN :: nat where "RUNG_MIN = 1"
definition RUNG_MAX :: nat where "RUNG_MAX = 4"

datatype tier = NonDeferrable | Deferrable | Informational
datatype check_status = Green | GreenWithNote | Red | Throttled

record check_record =
  cr_name :: string
  cr_tier :: tier
  cr_status :: check_status
  cr_detail :: string
  cr_deferred :: bool

record deferral =
  df_item :: string
  df_reason :: string

record citation =
  ci_reference :: string
  ci_issuer :: string
  ci_note :: "string option"

record unknown_override =
  uo_kst_date :: string
  uo_run_id :: string
  uo_operator :: string
  uo_authorized_at :: int
  uo_artifact_id :: string
  uo_calendar_id :: string
  uo_alerts :: "string list"
  uo_reason :: string
  uo_citation :: citation

definition is_well_formed :: "unknown_override \<Rightarrow> bool" where
  "is_well_formed ov =
     (trim (uo_kst_date ov) \<noteq> [] \<and> trim (uo_run_id ov) \<noteq> [] \<and> trim (uo_operator ov) \<noteq> [] \<and>
      trim (uo_reason ov) \<noteq> [] \<and> trim (ci_reference (uo_citation ov)) \<noteq> [] \<and>
      trim (ci_issuer (uo_citation ov)) \<noteq> [])"

definition override_covers :: "unknown_override \<Rightarrow> string \<Rightarrow> string \<Rightarrow> bool" where
  "override_covers ov kst_date run_id =
     (is_well_formed ov \<and> uo_kst_date ov = kst_date \<and> uo_run_id ov = run_id)"

section \<open>Records\<close>

datatype safety_trip_kind = KillSwitch | Watchdog | Breaker
datatype trip_action = Engage | Clear
datatype dispatch_outcome = OutcomeGreen | OutcomeRefused

record session_dispatch =
  sd_outcome :: dispatch_outcome
  sd_checks :: "check_record list"
  sd_deferrals :: "deferral list"
  sd_readiness :: "string option"
  sd_override :: "unknown_override option"

record escalation =
  es_from_rung :: nat
  es_to_rung :: nat
  es_evidence :: "string list"

record de_escalation =
  de_from_rung :: nat
  de_to_rung :: nat
  de_events :: "string list"
  de_consumed_through :: string

record re_registration =
  rg_set_rung :: nat
  rg_archived :: "string option"
  rg_reason :: string

record safety_trip =
  st_trip :: safety_trip_kind
  st_action :: trip_action
  st_run_id :: "string option"
  st_detail :: string

record consumption =
  cn_dispatch :: string
  cn_run_id :: "string option"

datatype record_kind =
    Genesis
  | SessionDispatch session_dispatch
  | Escalation escalation
  | DeEscalation de_escalation
  | ReRegistration re_registration
  | SafetyTrip safety_trip
  | Consumption consumption

record record_body =
  rb_id :: string
  rb_date :: string
  rb_prev :: string
  rb_chain_rung :: nat
  rb_effective_rung :: nat
  rb_prereg :: "string option"
  rb_kind :: record_kind

record chain_record =
  ch_body :: record_body
  ch_hash :: string

record chain_codec =
  cd_body :: "record_body \<Rightarrow> string"
  cd_line :: "chain_record \<Rightarrow> string"
  cd_parse :: "string \<Rightarrow> chain_record option"
  cd_sha :: "string \<Rightarrow> string"
  cd_kst :: "int \<Rightarrow> string"

definition GENESIS_PREV_HASH :: string where "GENESIS_PREV_HASH = ''GENESIS''"

definition compute_record_hash :: "chain_codec \<Rightarrow> record_body \<Rightarrow> string" where
  "compute_record_hash c b = cd_sha c (cd_body c b)"

definition sealed :: "chain_codec \<Rightarrow> record_body \<Rightarrow> chain_record" where
  "sealed c b = \<lparr>ch_body = b, ch_hash = compute_record_hash c b\<rparr>"

section \<open>Scrubbing a payload\<close>

definition scrub_override :: "unknown_override \<Rightarrow> unknown_override" where
  "scrub_override ov =
     ov\<lparr>uo_reason := scrub_secrets (uo_reason ov), uo_operator := scrub_secrets (uo_operator ov),
        uo_citation := \<lparr>ci_reference = scrub_secrets (ci_reference (uo_citation ov)),
          ci_issuer = scrub_secrets (ci_issuer (uo_citation ov)),
          ci_note = map_option scrub_secrets (ci_note (uo_citation ov))\<rparr>,
        uo_alerts := map scrub_secrets (uo_alerts ov)\<rparr>"

fun scrub_kind :: "record_kind \<Rightarrow> record_kind" where
  "scrub_kind (SessionDispatch s) =
     SessionDispatch (s\<lparr>sd_checks := map (\<lambda>k. k\<lparr>cr_detail := scrub_secrets (cr_detail k)\<rparr>) (sd_checks s),
       sd_deferrals := map (\<lambda>d. d\<lparr>df_reason := scrub_secrets (df_reason d)\<rparr>) (sd_deferrals s),
       sd_override := map_option scrub_override (sd_override s)\<rparr>)"
| "scrub_kind (DeEscalation d) = DeEscalation (d\<lparr>de_events := map scrub_secrets (de_events d)\<rparr>)"
| "scrub_kind (ReRegistration r) = ReRegistration (r\<lparr>rg_reason := scrub_secrets (rg_reason r)\<rparr>)"
| "scrub_kind (SafetyTrip t) = SafetyTrip (t\<lparr>st_detail := scrub_secrets (st_detail t)\<rparr>)"
| "scrub_kind Genesis = Genesis"
| "scrub_kind (Escalation e) = Escalation e"
| "scrub_kind (Consumption n) = Consumption n"

section \<open>The file\<close>

datatype chain_file = Absent | NotUtf8 string | Utf8 string

record dispatch_store =
  ds_file :: chain_file
  ds_archive :: "(string \<times> chain_file) list"
  ds_locks :: "string set"

text \<open>\<open>str::lines\<close>: split at line feeds, a carriage return before one goes with it.\<close>

definition strip_cr :: "string \<Rightarrow> string" where
  "strip_cr l = (if l \<noteq> [] \<and> last l = CHR 0x0D then butlast l else l)"

fun lines_from :: "string \<Rightarrow> string \<Rightarrow> string list" where
  "lines_from acc [] = (if acc = [] then [] else [acc])"
| "lines_from acc (ch # cs) =
     (if ch = CHR 0x0A then strip_cr acc # lines_from [] cs else lines_from (acc @ [ch]) cs)"

definition str_lines :: "string \<Rightarrow> string list" where
  "str_lines t = lines_from [] t"

definition raw_lines :: "dispatch_store \<Rightarrow> string + string list" where
  "raw_lines st =
     (case ds_file st of
        Absent \<Rightarrow> Inr []
      | NotUtf8 _ \<Rightarrow> Inl ''stream did not contain valid UTF-8''
      | Utf8 t \<Rightarrow> Inr (filter (\<lambda>l. trim l \<noteq> []) (str_lines t)))"

definition chain_tip :: "chain_codec \<Rightarrow> dispatch_store \<Rightarrow> string + string \<times> nat" where
  "chain_tip c st =
     (case raw_lines st of
        Inl e \<Rightarrow> Inl e
      | Inr ls \<Rightarrow>
          if ls = [] then Inr (GENESIS_PREV_HASH, 0)
          else case cd_parse c (last ls) of
              None \<Rightarrow> Inl ''refusing to append onto an unparseable chain tip''
            | Some r \<Rightarrow> Inr (ch_hash r, length ls))"

definition write_line :: "string \<Rightarrow> chain_file \<Rightarrow> chain_file" where
  "write_line l f =
     (case f of
        Absent \<Rightarrow> Utf8 (l @ [CHR 0x0A])
      | NotUtf8 b \<Rightarrow> NotUtf8 (b @ l @ [CHR 0x0A])
      | Utf8 t \<Rightarrow> Utf8 (t @ l @ [CHR 0x0A]))"

definition write_body :: "chain_codec \<Rightarrow> record_body \<Rightarrow> dispatch_store \<Rightarrow> chain_record \<times> dispatch_store" where
  "write_body c b st =
     (let r = sealed c b in (r, st\<lparr>ds_file := write_line (cd_line c r) (ds_file st)\<rparr>))"

definition drop_lock :: "dispatch_store \<Rightarrow> dispatch_store" where
  "drop_lock st = st\<lparr>ds_locks := lock_release (ds_locks st) DispatchLock\<rparr>"

definition pad4 :: "nat \<Rightarrow> string" where
  "pad4 n = replicate (4 - length (show_nat n)) CHR ''0'' @ show_nat n"

definition chain_append ::
    "chain_codec \<Rightarrow> int \<Rightarrow> nat \<Rightarrow> nat \<Rightarrow> string option \<Rightarrow> record_kind \<Rightarrow> dispatch_store \<Rightarrow>
       (string + chain_record) \<times> dispatch_store" where
  "chain_append c now chain_rung effective_rung prereg kind st =
     (case lock_acquire (ds_locks st) DispatchLock of
        (Inl why, _) \<Rightarrow> (Inl (''dispatch chain append refused (lock): '' @ why), st)
      | (Inr _, locks) \<Rightarrow>
          (let st1 = st\<lparr>ds_locks := locks\<rparr>
           in case chain_tip c st1 of
               Inl e \<Rightarrow> (Inl e, drop_lock st1)
             | Inr (prev, n) \<Rightarrow>
                 (let kst = cd_kst c now;
                      (r, st2) = write_body c
                        \<lparr>rb_id = kst @ ''-'' @ pad4 n, rb_date = kst, rb_prev = prev,
                         rb_chain_rung = chain_rung, rb_effective_rung = effective_rung,
                         rb_prereg = prereg, rb_kind = scrub_kind kind\<rparr> st1
                  in (Inr r, drop_lock st2))))"

definition file_bytes :: "chain_file \<Rightarrow> string" where
  "file_bytes f = (case f of Absent \<Rightarrow> [] | NotUtf8 b \<Rightarrow> b | Utf8 t \<Rightarrow> t)"

definition reregister ::
    "chain_codec \<Rightarrow> int \<Rightarrow> nat \<Rightarrow> string option \<Rightarrow> string \<Rightarrow> dispatch_store \<Rightarrow>
       (string + chain_record) \<times> dispatch_store" where
  "reregister c now set_rung prereg reason st =
     (case lock_acquire (ds_locks st) DispatchLock of
        (Inl why, _) \<Rightarrow> (Inl (''dispatch chain re-registration refused (lock): '' @ why), st)
      | (Inr _, locks) \<Rightarrow>
          (let st1 = st\<lparr>ds_locks := locks\<rparr>;
               archived = (if ds_file st1 = Absent then None else Some (cd_sha c (file_bytes (ds_file st1))));
               st2 = (case archived of
                   None \<Rightarrow> st1
                 | Some h \<Rightarrow>
                     (if map_of (ds_archive st1) h = None
                      then st1\<lparr>ds_archive := (h, ds_file st1) # ds_archive st1, ds_file := Absent\<rparr>
                      else st1\<lparr>ds_file := Absent\<rparr>));
               kst = cd_kst c now;
               (r, st3) = write_body c
                 \<lparr>rb_id = kst @ ''-0000'', rb_date = kst,
                  rb_prev = (case archived of Some h \<Rightarrow> h | None \<Rightarrow> GENESIS_PREV_HASH),
                  rb_chain_rung = set_rung, rb_effective_rung = set_rung, rb_prereg = prereg,
                  rb_kind = ReRegistration \<lparr>rg_set_rung = set_rung, rg_archived = archived,
                    rg_reason = scrub_secrets reason\<rparr>\<rparr> st2
           in (Inr r, drop_lock st3)))"

section \<open>Loading and verifying\<close>

datatype chain_status = NoChain | Valid | Defective string

record last_dispatch =
  ld_id :: string
  ld_date :: string
  ld_outcome :: dispatch_outcome
  ld_chain_rung :: nat
  ld_effective_rung :: nat
  ld_consumed :: bool
  ld_run_id :: "string option"

record chain_state =
  cs_status :: chain_status
  cs_rung :: nat
  cs_tip :: "string option"
  cs_prereg :: "string option"
  cs_last :: "last_dispatch option"
  cs_kill :: bool
  cs_records :: "chain_record list"

definition suspended :: "chain_status \<Rightarrow> chain_state" where
  "suspended s = \<lparr>cs_status = s, cs_rung = 0, cs_tip = None, cs_prereg = None, cs_last = None,
     cs_kill = False, cs_records = []\<rparr>"

definition opens_epoch :: "record_kind \<Rightarrow> bool" where
  "opens_epoch k = (case k of Genesis \<Rightarrow> True | ReRegistration _ \<Rightarrow> True | _ \<Rightarrow> False)"

fun verify_links :: "chain_codec \<Rightarrow> nat \<Rightarrow> string option \<Rightarrow> chain_record list \<Rightarrow> string option" where
  "verify_links c i prev [] = None"
| "verify_links c i prev (r # rs) =
     (if compute_record_hash c (ch_body r) \<noteq> ch_hash r
      then Some (''record '' @ show_nat (i + 1) @ '' hash mismatch (tamper)'')
      else case prev of
          None \<Rightarrow>
            if \<not> opens_epoch (rb_kind (ch_body r))
            then Some ''epoch does not open with a genesis/re-registration record''
            else verify_links c (i + 1) (Some (ch_hash r)) rs
        | Some h \<Rightarrow>
            if rb_prev (ch_body r) \<noteq> h
            then Some (''record '' @ show_nat (i + 1) @ '' prev_hash does not link to record '' @ show_nat i)
            else verify_links c (i + 1) (Some (ch_hash r)) rs)"

definition walk_step :: "chain_record \<Rightarrow> chain_state \<Rightarrow> chain_state" where
  "walk_step r s =
     (let b = ch_body r;
          s1 = (if rb_prereg b \<noteq> None then s\<lparr>cs_prereg := rb_prereg b\<rparr> else s)
      in case rb_kind b of
          Genesis \<Rightarrow> s1\<lparr>cs_rung := max (rb_chain_rung b) RUNG_MIN\<rparr>
        | ReRegistration g \<Rightarrow> s1\<lparr>cs_rung := rg_set_rung g\<rparr>
        | Escalation e \<Rightarrow> s1\<lparr>cs_rung := es_to_rung e\<rparr>
        | DeEscalation d \<Rightarrow> s1\<lparr>cs_rung := de_to_rung d\<rparr>
        | SessionDispatch sd \<Rightarrow>
            s1\<lparr>cs_last := Some \<lparr>ld_id = rb_id b, ld_date = rb_date b, ld_outcome = sd_outcome sd,
              ld_chain_rung = rb_chain_rung b, ld_effective_rung = rb_effective_rung b,
              ld_consumed = False, ld_run_id = None\<rparr>\<rparr>
        | Consumption n \<Rightarrow>
            (case cs_last s1 of
               Some l \<Rightarrow>
                 if ld_id l = cn_dispatch n
                 then s1\<lparr>cs_last := Some (l\<lparr>ld_consumed := True, ld_run_id := cn_run_id n\<rparr>)\<rparr> else s1
             | None \<Rightarrow> s1)
        | SafetyTrip t \<Rightarrow>
            if st_trip t = KillSwitch then s1\<lparr>cs_kill := (st_action t = Engage)\<rparr> else s1)"

definition walk :: "chain_record list \<Rightarrow> chain_state" where
  "walk rs = (fold walk_step rs (suspended Valid))
     \<lparr>cs_tip := (if rs = [] then None else Some (ch_hash (last rs))), cs_records := rs\<rparr>"

fun parse_all :: "chain_codec \<Rightarrow> nat \<Rightarrow> string list \<Rightarrow> nat + chain_record list" where
  "parse_all c i [] = Inr []"
| "parse_all c i (l # ls) =
     (case cd_parse c l of
        None \<Rightarrow> Inl (i + 1)
      | Some r \<Rightarrow> (case parse_all c (i + 1) ls of Inl n \<Rightarrow> Inl n | Inr rs \<Rightarrow> Inr (r # rs)))"

definition chain_load :: "chain_codec \<Rightarrow> dispatch_store \<Rightarrow> chain_state" where
  "chain_load c st =
     (case raw_lines st of
        Inl e \<Rightarrow> suspended (Defective (''unreadable: '' @ e))
      | Inr ls \<Rightarrow>
          if ls = [] then suspended NoChain
          else case parse_all c 0 ls of
              Inl n \<Rightarrow> suspended (Defective (''record '' @ show_nat n @ '' unparseable''))
            | Inr rs \<Rightarrow>
                (case verify_links c 0 None rs of
                   Some why \<Rightarrow> suspended (Defective why)
                 | None \<Rightarrow> walk rs))"

section \<open>Mounting\<close>

datatype mount_authz = Ready string nat nat | Consumed | Expired | NoAuthz

definition mount_authz :: "chain_state \<Rightarrow> string \<Rightarrow> mount_authz" where
  "mount_authz s today =
     (if cs_rung s = 0 then NoAuthz
      else case cs_last s of
          None \<Rightarrow> NoAuthz
        | Some l \<Rightarrow>
            if ld_outcome l \<noteq> OutcomeGreen then NoAuthz
            else if ld_consumed l then Consumed
            else if ld_date l \<noteq> today then Expired
            else Ready (ld_id l) (ld_chain_rung l) (ld_effective_rung l))"

section \<open>Lines of a text\<close>

definition whole_lines :: "string \<Rightarrow> bool" where
  "whole_lines t \<longleftrightarrow> t = [] \<or> last t = CHR 0x0A"

lemma lines_from_append:
  assumes "CHR 0x0A \<notin> set l" "l \<noteq> []" "last l \<noteq> CHR 0x0D"
  shows "lines_from acc (l @ [CHR 0x0A]) = [acc @ l]"
  using assms
proof (induction l arbitrary: acc)
  case (Cons x l)
  show ?case
  proof (cases "l = []")
    case True
    with Cons.prems show ?thesis by (simp add: strip_cr_def)
  next
    case False
    with Cons.prems Cons.IH [of "acc @ [x]"] show ?thesis by auto
  qed
qed simp

lemma lines_from_whole:
  assumes "t \<noteq> []" "last t = CHR 0x0A"
  shows "lines_from acc (t @ u) = lines_from acc t @ lines_from [] u"
  using assms
proof (induction t arbitrary: acc)
  case (Cons x t)
  show ?case
  proof (cases "t = []")
    case True
    with Cons.prems show ?thesis by simp
  next
    case False
    with Cons.prems Cons.IH show ?thesis by simp
  qed
qed simp

definition clean_line :: "string \<Rightarrow> bool" where
  "clean_line l \<longleftrightarrow> CHR 0x0A \<notin> set l \<and> last l \<noteq> CHR 0x0D \<and> trim l \<noteq> []"

lemma clean_line_nonempty: "clean_line l \<Longrightarrow> l \<noteq> []"
  by (auto simp: clean_line_def)

lemma str_lines_append:
  assumes "whole_lines t" "clean_line l"
  shows "str_lines (t @ l @ [CHR 0x0A]) = str_lines t @ [l]"
proof -
  have l: "lines_from [] (l @ [CHR 0x0A]) = [l]"
    using lines_from_append [of l "[]"] assms(2) clean_line_nonempty by (simp add: clean_line_def)
  show ?thesis
  proof (cases "t = []")
    case True
    with l show ?thesis by (simp add: str_lines_def)
  next
    case False
    with assms(1) lines_from_whole [of t "[]" "l @ [CHR 0x0A]"] l show ?thesis
      by (simp add: str_lines_def whole_lines_def)
  qed
qed

section \<open>Appending to a verified epoch\<close>

text \<open>
  What the chain relies on of the JSON library: a printed record is one clean line and parses back.
\<close>

definition codec_ok :: "chain_codec \<Rightarrow> chain_record \<Rightarrow> bool" where
  "codec_ok c r \<longleftrightarrow> clean_line (cd_line c r) \<and> cd_parse c (cd_line c r) = Some r"

text \<open>A store whose file is whole lines that parse and verify.\<close>

definition file_text :: "dispatch_store \<Rightarrow> string" where
  "file_text st = file_bytes (ds_file st)"

definition holds_epoch :: "chain_codec \<Rightarrow> dispatch_store \<Rightarrow> chain_record list \<Rightarrow> bool" where
  "holds_epoch c st rs \<longleftrightarrow> whole_lines (file_text st) \<and>
     (\<exists>ls. raw_lines st = Inr ls \<and> parse_all c 0 ls = Inr rs) \<and> verify_links c 0 None rs = None"

lemma parse_all_iff:
  "parse_all c i ls = Inr rs \<longleftrightarrow> list_all2 (\<lambda>l r. cd_parse c l = Some r) ls rs"
proof (induction ls arbitrary: i rs)
  case (Cons l ls)
  show ?case
  proof (cases rs)
    case Nil
    then show ?thesis by (auto split: option.splits sum.splits)
  next
    case (Cons r rs')
    with Cons.IH [of "i + 1" rs'] show ?thesis
      by (auto split: option.splits sum.splits)
  qed
qed (simp add: eq_commute)

lemma parse_all_append:
  "parse_all c 0 ls = Inr rs \<Longrightarrow> cd_parse c l = Some r \<Longrightarrow> parse_all c 0 (ls @ [l]) = Inr (rs @ [r])"
  by (simp add: parse_all_iff list_all2_appendI)

lemma parse_all_length: "parse_all c i ls = Inr rs \<Longrightarrow> length rs = length ls"
  by (simp add: parse_all_iff list_all2_lengthD)

lemma parse_all_last:
  assumes "parse_all c i ls = Inr rs" "ls \<noteq> []"
  shows "cd_parse c (last ls) = Some (last rs)"
proof -
  have len: "length rs = length ls" using parse_all_length [OF assms(1)] .
  with assms(2) have "rs \<noteq> []" by auto
  then show ?thesis
    using assms list_all2_nthD [of _ ls rs "length ls - 1"] len
    by (simp add: parse_all_iff last_conv_nth)
qed

lemma verify_links_append:
  assumes "verify_links c i prev rs = None"
    and "compute_record_hash c (ch_body r) = ch_hash r"
    and "if rs = [] then (case prev of None \<Rightarrow> opens_epoch (rb_kind (ch_body r)) | Some h \<Rightarrow> rb_prev (ch_body r) = h)
         else rb_prev (ch_body r) = ch_hash (last rs)"
  shows "verify_links c i prev (rs @ [r]) = None"
  using assms
proof (induction rs arbitrary: i prev)
  case Nil
  then show ?case by (simp split: option.splits)
next
  case (Cons q rs)
  then have "verify_links c (i + 1) (Some (ch_hash q)) (rs @ [r]) = None"
    by (intro Cons.IH) (auto split: option.splits if_splits)
  with Cons.prems(1) show ?case by (auto split: option.splits if_splits)
qed

lemma sealed_verifies [simp]: "compute_record_hash c (ch_body (sealed c b)) = ch_hash (sealed c b)"
  by (simp add: sealed_def)

lemma load_epoch:
  "holds_epoch c st rs \<Longrightarrow> rs \<noteq> [] \<Longrightarrow> chain_load c st = walk rs"
  by (auto simp: holds_epoch_def chain_load_def)

lemma walk_status [simp]: "cs_status (walk rs) = Valid"
proof -
  have step: "cs_status (walk_step r s) = cs_status s" for r s
    by (simp add: walk_step_def Let_def split: record_kind.split option.split)
  have "cs_status (fold walk_step rs s) = cs_status s" for s
    by (induction rs arbitrary: s) (simp_all add: step)
  then show ?thesis by (simp add: walk_def suspended_def)
qed

lemma walk_records [simp]: "cs_records (walk rs) = rs" "rs \<noteq> [] \<Longrightarrow> cs_tip (walk rs) = Some (ch_hash (last rs))"
  by (simp_all add: walk_def)

lemma chain_tip_epoch:
  assumes "holds_epoch c st rs"
  shows "chain_tip c st = Inr (if rs = [] then GENESIS_PREV_HASH else ch_hash (last rs), length rs)"
proof -
  from assms obtain ls where ls: "raw_lines st = Inr ls" "parse_all c 0 ls = Inr rs"
    by (auto simp: holds_epoch_def)
  note len = parse_all_length [OF ls(2)]
  show ?thesis
  proof (cases "ls = []")
    case True
    with ls len show ?thesis by (simp add: chain_tip_def)
  next
    case False
    with ls len parse_all_last [OF ls(2) False] show ?thesis
      by (auto simp: chain_tip_def)
  qed
qed

lemma raw_lines_locks [simp]: "raw_lines (st\<lparr>ds_locks := x\<rparr>) = raw_lines st"
  by (simp add: raw_lines_def)

lemma holds_epoch_locks [simp]: "holds_epoch c (st\<lparr>ds_locks := x\<rparr>) rs = holds_epoch c st rs"
  by (simp add: holds_epoch_def file_text_def)

lemma holds_epoch_drop: "holds_epoch c (drop_lock st) rs = holds_epoch c st rs"
  unfolding drop_lock_def by (rule holds_epoch_locks)

lemma holds_epoch_write:
  assumes "holds_epoch c st rs" "codec_ok c r" "compute_record_hash c (ch_body r) = ch_hash r"
    and "if rs = [] then opens_epoch (rb_kind (ch_body r)) else rb_prev (ch_body r) = ch_hash (last rs)"
  shows "holds_epoch c (st\<lparr>ds_file := write_line (cd_line c r) (ds_file st)\<rparr>) (rs @ [r])"
proof -
  from assms(1) obtain ls where ls: "raw_lines st = Inr ls" "parse_all c 0 ls = Inr rs"
    and whole: "whole_lines (file_text st)" and links: "verify_links c 0 None rs = None"
    by (auto simp: holds_epoch_def)
  have clean: "clean_line (cd_line c r)" and parse: "cd_parse c (cd_line c r) = Some r"
    using assms(2) by (simp_all add: codec_ok_def)
  have "raw_lines (st\<lparr>ds_file := write_line (cd_line c r) (ds_file st)\<rparr>) = Inr (ls @ [cd_line c r])"
  proof (cases "ds_file st")
    case Absent
    with ls(1) str_lines_append [of "[]", OF _ clean] clean show ?thesis
      by (simp add: raw_lines_def write_line_def whole_lines_def str_lines_def clean_line_def)
  next
    case (NotUtf8 b)
    with ls(1) show ?thesis by (simp add: raw_lines_def)
  next
    case (Utf8 t)
    with whole have "whole_lines t" by (simp add: file_text_def file_bytes_def)
    from str_lines_append [OF this clean] Utf8 ls(1) clean show ?thesis
      by (simp add: raw_lines_def write_line_def clean_line_def)
  qed
  moreover have "whole_lines (file_text (st\<lparr>ds_file := write_line (cd_line c r) (ds_file st)\<rparr>))"
    by (simp add: file_text_def file_bytes_def write_line_def whole_lines_def split: chain_file.split)
  moreover have "verify_links c 0 None (rs @ [r]) = None"
    by (rule verify_links_append [OF links assms(3)]) (use assms(4) in auto)
  ultimately show ?thesis
    using parse_all_append [OF ls(2) parse] by (auto simp: holds_epoch_def)
qed

lemma opens_epoch_scrub [simp]: "opens_epoch (scrub_kind k) = opens_epoch k"
  by (cases k) (simp_all add: opens_epoch_def)

definition appended :: "chain_codec \<Rightarrow> int \<Rightarrow> nat \<Rightarrow> nat \<Rightarrow> string option \<Rightarrow> record_kind \<Rightarrow>
    chain_record list \<Rightarrow> chain_record" where
  "appended c now cr er prereg kind rs = sealed c
     \<lparr>rb_id = cd_kst c now @ ''-'' @ pad4 (length rs), rb_date = cd_kst c now,
      rb_prev = (if rs = [] then GENESIS_PREV_HASH else ch_hash (last rs)),
      rb_chain_rung = cr, rb_effective_rung = er, rb_prereg = prereg, rb_kind = scrub_kind kind\<rparr>"

lemma append_result:
  assumes "holds_epoch c st rs" and "ds_locks st = {}"
  shows "chain_append c now cr er prereg kind st =
    (Inr (appended c now cr er prereg kind rs),
     drop_lock (st\<lparr>ds_locks := {lock_filename DispatchLock},
       ds_file := write_line (cd_line c (appended c now cr er prereg kind rs)) (ds_file st)\<rparr>))"
proof -
  have lock: "lock_acquire (ds_locks st) DispatchLock = (Inr (), {lock_filename DispatchLock})"
    by (simp add: assms(2) lock_acquire_def check_counterpart_def create_new_def is_held_def)
  have "holds_epoch c (st\<lparr>ds_locks := {lock_filename DispatchLock}\<rparr>) rs" using assms(1) by simp
  note tip = chain_tip_epoch [OF this]
  have fl: "ds_file (st\<lparr>ds_locks := {lock_filename DispatchLock}\<rparr>) = ds_file st" by simp
  show ?thesis
    unfolding chain_append_def lock prod.case sum.case Let_def tip write_body_def appended_def fl by (rule refl)
qed

lemma append_epoch:
  assumes "holds_epoch c st rs" and "ds_locks st = {}" and "rs \<noteq> [] \<or> opens_epoch kind"
    and "codec_ok c (appended c now cr er prereg kind rs)"
  shows "\<exists>st'. chain_append c now cr er prereg kind st = (Inr (appended c now cr er prereg kind rs), st') \<and>
     holds_epoch c st' (rs @ [appended c now cr er prereg kind rs]) \<and> ds_locks st' = {} \<and>
     prefix (file_text st) (file_text st') \<and> ds_archive st' = ds_archive st"
proof -
  let ?r = "appended c now cr er prereg kind rs"
  let ?st1 = "st\<lparr>ds_locks := {lock_filename DispatchLock}\<rparr>"
  let ?st2 = "?st1\<lparr>ds_file := write_line (cd_line c ?r) (ds_file ?st1)\<rparr>"
  have "holds_epoch c ?st1 rs" using assms(1) by simp
  note app = append_result [OF assms(1,2)]
  have "holds_epoch c ?st2 (rs @ [?r])"
    by (rule holds_epoch_write)
      (use assms in \<open>auto simp: appended_def sealed_def\<close>)
  then have "holds_epoch c (drop_lock ?st2) (rs @ [?r])" by (simp only: holds_epoch_drop)
  moreover have "ds_locks (drop_lock ?st2) = {}" by (simp add: drop_lock_def lock_release_def)
  moreover have "prefix (file_text st) (file_text (drop_lock ?st2))"
    using assms(1) by (auto simp: file_text_def file_bytes_def drop_lock_def write_line_def holds_epoch_def
        raw_lines_def split: chain_file.splits)
  ultimately show ?thesis using app by (simp add: drop_lock_def)
qed

section \<open>What the chain promises\<close>

text \<open>
  C38. Appending is safe: onto a verified epoch (or a fresh file, for a registration) it succeeds, keeps
  every byte already written, and the chain that is read back is the old one with exactly that
  record at its end.
\<close>

theorem append_extends_epoch:
  assumes "holds_epoch c st rs" and "ds_locks st = {}" and "rs \<noteq> [] \<or> opens_epoch kind"
    and "codec_ok c (appended c now cr er prereg kind rs)"
  shows "\<exists>st'. chain_append c now cr er prereg kind st = (Inr (appended c now cr er prereg kind rs), st') \<and>
     chain_load c st' = walk (rs @ [appended c now cr er prereg kind rs]) \<and>
     prefix (file_text st) (file_text st')"
  using append_epoch [OF assms] load_epoch by blast

lemma walk_snoc:
  "walk (rs @ [r]) = (walk_step r (walk rs))\<lparr>cs_tip := Some (ch_hash r), cs_records := rs @ [r]\<rparr>"
proof -
  have step: "walk_step r (s\<lparr>cs_tip := t, cs_records := q\<rparr>) = (walk_step r s)\<lparr>cs_tip := t, cs_records := q\<rparr>"
    for s t q
    by (cases s) (simp add: walk_step_def Let_def split: record_kind.split option.split)
  show ?thesis unfolding walk_def step by simp
qed

lemma verify_links_snocD:
  "verify_links c i prev (rs @ [r]) = None \<Longrightarrow>
     verify_links c i prev rs = None \<and> compute_record_hash c (ch_body r) = ch_hash r \<and>
     (rs \<noteq> [] \<longrightarrow> rb_prev (ch_body r) = ch_hash (last rs)) \<and>
     (rs = [] \<longrightarrow> prev \<noteq> None \<longrightarrow> Some (rb_prev (ch_body r)) = prev)"
proof (induction rs arbitrary: i prev)
  case Nil
  then show ?case by (auto split: option.splits if_splits)
next
  case (Cons q rs)
  from Cons.prems have rest: "verify_links c (i + 1) (Some (ch_hash q)) (rs @ [r]) = None"
    and hash: "compute_record_hash c (ch_body q) = ch_hash q"
    and first: "case prev of None \<Rightarrow> opens_epoch (rb_kind (ch_body q)) | Some h \<Rightarrow> rb_prev (ch_body q) = h"
    by (simp_all split: option.splits if_splits)
  from Cons.IH [OF rest] have "verify_links c (i + 1) (Some (ch_hash q)) rs = None"
    and r: "compute_record_hash c (ch_body r) = ch_hash r"
      "rs \<noteq> [] \<longrightarrow> rb_prev (ch_body r) = ch_hash (last rs)" "rs = [] \<longrightarrow> rb_prev (ch_body r) = ch_hash q"
    by simp_all
  then have "verify_links c i prev (q # rs) = None" using hash first by (simp split: option.splits)
  moreover have "rb_prev (ch_body r) = ch_hash (last (q # rs))" using r(2,3) by (cases rs) simp_all
  ultimately show ?case using r(1) by blast
qed

text \<open>
  The tip commits to the history: with a digest that does not collide on the records at hand, two
  verified epochs of one length with the same tip are the same, record for record.
\<close>

theorem tip_commits_to_history:
  assumes "verify_links c 0 None rs = None" and "verify_links c 0 None rs' = None"
    and "length rs = length rs'" and "rs \<noteq> []" and "ch_hash (last rs) = ch_hash (last rs')"
    and "inj_on (compute_record_hash c) (ch_body ` (set rs \<union> set rs'))"
  shows "rs = rs'"
  using assms
proof (induction rs arbitrary: rs' rule: rev_induct)
  case (snoc r rs)
  from snoc.prems(3) have "rs' \<noteq> []" by auto
  then obtain qs q where rs': "rs' = qs @ [q]" by (metis append_butlast_last_id)
  then have len: "length rs = length qs" using snoc.prems(3) by simp
  note r = verify_links_snocD [OF snoc.prems(1)]
  note q = verify_links_snocD [OF snoc.prems(2) [unfolded rs']]
  have hash: "ch_hash r = ch_hash q" using snoc.prems(5) by (simp add: rs')
  have "compute_record_hash c (ch_body r) = compute_record_hash c (ch_body q)"
    using r q hash by simp
  then have body: "ch_body r = ch_body q"
    by (rule inj_onD [OF snoc.prems(6)]) (simp_all add: rs')
  with hash have rq: "r = q" by simp
  show ?case
  proof (cases "rs = []")
    case True
    with rs' rq len show ?thesis by simp
  next
    case False
    with len have "qs \<noteq> []" by auto
    have inj: "inj_on (compute_record_hash c) (ch_body ` (set rs \<union> set qs))"
      using snoc.prems(6) by (rule inj_on_subset) (auto simp: rs')
    have "ch_hash (last rs) = ch_hash (last qs)" using r q body False \<open>qs \<noteq> []\<close> by simp
    with snoc.IH [OF conjunct1 [OF r] conjunct1 [OF q] len False _ inj]
    have "rs = qs" by simp
    with rs' rq show ?thesis by simp
  qed
qed simp

text \<open>What the verifier checks, record by record.\<close>

lemma verified_links:
  "verify_links c i prev rs = None \<Longrightarrow>
     (\<forall>r\<in>set rs. ch_hash r = cd_sha c (cd_body c (ch_body r))) \<and>
     successively (\<lambda>q r. rb_prev (ch_body r) = ch_hash q) rs \<and>
     (rs \<noteq> [] \<longrightarrow> (case prev of None \<Rightarrow> opens_epoch (rb_kind (ch_body (hd rs))) | Some h \<Rightarrow> rb_prev (ch_body (hd rs)) = h))"
proof (induction rs arbitrary: i prev)
  case (Cons r rs)
  then have "verify_links c (i + 1) (Some (ch_hash r)) rs = None" "compute_record_hash c (ch_body r) = ch_hash r"
    "case prev of None \<Rightarrow> opens_epoch (rb_kind (ch_body r)) | Some h \<Rightarrow> rb_prev (ch_body r) = h"
    by (auto split: option.splits if_splits)
  with Cons.IH [OF this(1)] show ?case by (cases rs; cases prev) (auto simp: compute_record_hash_def)
qed simp

lemma verified_epoch:
  assumes "verify_links c 0 None rs = None"
  shows "\<forall>r\<in>set rs. ch_hash r = cd_sha c (cd_body c (ch_body r))"
    and "\<forall>i. Suc i < length rs \<longrightarrow> rb_prev (ch_body (rs ! Suc i)) = ch_hash (rs ! i)"
    and "rs \<noteq> [] \<Longrightarrow> rb_kind (ch_body (hd rs)) = Genesis \<or> (\<exists>g. rb_kind (ch_body (hd rs)) = ReRegistration g)"
  using verified_links [OF assms]
  by (auto simp: successively_conv_nth opens_epoch_def split: record_kind.splits)

text \<open>The rung a record sets, if it sets one.\<close>

definition sets_rung :: "chain_record \<Rightarrow> nat option" where
  "sets_rung r = (case rb_kind (ch_body r) of
     Genesis \<Rightarrow> Some (max (rb_chain_rung (ch_body r)) RUNG_MIN)
   | ReRegistration g \<Rightarrow> Some (rg_set_rung g)
   | Escalation e \<Rightarrow> Some (es_to_rung e)
   | DeEscalation d \<Rightarrow> Some (de_to_rung d)
   | _ \<Rightarrow> None)"

lemma walk_step_rung: "cs_rung (walk_step r s) = (case sets_rung r of Some n \<Rightarrow> n | None \<Rightarrow> cs_rung s)"
  by (simp add: walk_step_def sets_rung_def Let_def split: record_kind.split option.split)

lemma walk_rung_snoc: "cs_rung (walk (rs @ [r])) = (case sets_rung r of Some n \<Rightarrow> n | None \<Rightarrow> cs_rung (walk rs))"
  by (simp add: walk_snoc walk_step_rung)

text \<open>
  C19. Authority is always verified: a chain that authorizes any rung was read from a file all of whose
  lines parse; the first record is a registration, every record carries the digest of its body, every
  record but the first names the digest of the one before it; and the rung is the one set by the last
  record that sets one.
\<close>

theorem authority_is_verified:
  assumes "0 < cs_rung (chain_load c st)"
  shows "\<exists>ls rs. raw_lines st = Inr ls \<and> list_all2 (\<lambda>l r. cd_parse c l = Some r) ls rs \<and>
     rs \<noteq> [] \<and> (rb_kind (ch_body (hd rs)) = Genesis \<or> (\<exists>g. rb_kind (ch_body (hd rs)) = ReRegistration g)) \<and>
     (\<forall>r\<in>set rs. ch_hash r = cd_sha c (cd_body c (ch_body r))) \<and>
     (\<forall>i. Suc i < length rs \<longrightarrow> rb_prev (ch_body (rs ! Suc i)) = ch_hash (rs ! i)) \<and>
     chain_load c st = walk rs \<and>
     (\<exists>xs r ys. rs = xs @ r # ys \<and> sets_rung r = Some (cs_rung (chain_load c st)) \<and>
        list_all (\<lambda>y. sets_rung y = None) ys)"
proof -
  from assms obtain ls rs where ls: "raw_lines st = Inr ls" "parse_all c 0 ls = Inr rs"
    "verify_links c 0 None rs = None" "chain_load c st = walk rs"
    by (auto simp: chain_load_def suspended_def split: sum.splits if_splits option.splits)
  have "0 < cs_rung (walk rs) \<Longrightarrow> \<exists>xs r ys. rs = xs @ r # ys \<and> sets_rung r = Some (cs_rung (walk rs)) \<and>
      list_all (\<lambda>y. sets_rung y = None) ys"
  proof (induction rs rule: rev_induct)
    case Nil
    then show ?case by (simp add: walk_def suspended_def)
  next
    case (snoc r rs)
    show ?case
    proof (cases "sets_rung r")
      case None
      with snoc obtain xs q ys where q: "rs = xs @ q # ys" "sets_rung q = Some (cs_rung (walk rs))"
        "list_all (\<lambda>y. sets_rung y = None) ys" by (auto simp: walk_rung_snoc)
      have "rs @ [r] = xs @ q # (ys @ [r]) \<and> sets_rung q = Some (cs_rung (walk (rs @ [r]))) \<and>
          list_all (\<lambda>y. sets_rung y = None) (ys @ [r])"
        using q None by (simp add: walk_rung_snoc del: append_assoc)
      then show ?thesis by blast
    next
      case (Some n)
      then have "rs @ [r] = rs @ r # [] \<and> sets_rung r = Some (cs_rung (walk (rs @ [r]))) \<and>
          list_all (\<lambda>y. sets_rung y = None) []"
        by (simp add: walk_rung_snoc)
      then show ?thesis by blast
    qed
  qed
  with assms ls(4) have last: "\<exists>xs r ys. rs = xs @ r # ys \<and> sets_rung r = Some (cs_rung (chain_load c st)) \<and>
      list_all (\<lambda>y. sets_rung y = None) ys" by simp
  have "rs \<noteq> []" using assms ls(4) by (auto simp: walk_def suspended_def)
  moreover have "list_all2 (\<lambda>l r. cd_parse c l = Some r) ls rs" using ls(2) by (simp add: parse_all_iff)
  moreover note verified_epoch [OF ls(3)] ls(1,4) last
  ultimately show ?thesis by (intro exI [of _ ls], intro exI [of _ rs], intro conjI) blast+
qed

text \<open>One dispatch mounts one session.\<close>

definition is_dispatch :: "chain_record \<Rightarrow> bool" where
  "is_dispatch r = (case rb_kind (ch_body r) of SessionDispatch _ \<Rightarrow> True | _ \<Rightarrow> False)"

definition consumes :: "string \<Rightarrow> chain_record \<Rightarrow> bool" where
  "consumes x r = (case rb_kind (ch_body r) of Consumption n \<Rightarrow> cn_dispatch n = x | _ \<Rightarrow> False)"

definition can_mount :: "chain_state \<Rightarrow> string \<Rightarrow> bool" where
  "can_mount s today = (case mount_authz s today of Ready _ _ _ \<Rightarrow> True | _ \<Rightarrow> False)"

lemma walk_step_last:
  assumes "\<not> is_dispatch r" "cs_last s = Some l"
  shows "\<exists>l'. cs_last (walk_step r s) = Some l' \<and> ld_id l' = ld_id l \<and>
     (ld_consumed l' \<longleftrightarrow> ld_consumed l \<or> consumes (ld_id l) r)"
  using assms
  by (auto simp: walk_step_def is_dispatch_def consumes_def Let_def split: record_kind.splits)

lemma walk_last:
  assumes "list_all (\<lambda>r. \<not> is_dispatch r) later" "cs_last (walk rs) = Some l"
  shows "\<exists>l'. cs_last (walk (rs @ later)) = Some l' \<and> ld_id l' = ld_id l \<and>
     (ld_consumed l' \<longleftrightarrow> ld_consumed l \<or> list_ex (consumes (ld_id l)) later)"
  using assms
proof (induction later rule: rev_induct)
  case (snoc r later)
  then obtain l' where l': "cs_last (walk (rs @ later)) = Some l'" "ld_id l' = ld_id l"
    "ld_consumed l' \<longleftrightarrow> ld_consumed l \<or> list_ex (consumes (ld_id l)) later" by auto
  have "\<not> is_dispatch r" using snoc.prems(1) by simp
  from walk_step_last [OF this l'(1)] l'(2,3) show ?case
    unfolding append_assoc [symmetric] walk_snoc by auto
qed simp

text \<open>
  A green dispatch mounts one session: once a consumption marker for it is on the chain, nothing can
  mount, on any day and whatever other records follow, until a new dispatch is recorded.
\<close>

theorem dispatch_is_single_use:
  assumes "mount_authz (walk rs) today = Ready x chain_rung effective_rung"
    and "list_all (\<lambda>r. \<not> is_dispatch r) later" and "list_ex (consumes x) later"
  shows "\<not> can_mount (walk (rs @ later)) day"
proof -
  from assms(1) obtain l where l: "cs_last (walk rs) = Some l" "ld_id l = x"
    by (auto simp: mount_authz_def split: if_splits option.splits)
  from walk_last [OF assms(2) l(1)] l(2) assms(3) obtain l' where
    "cs_last (walk (rs @ later)) = Some l'" "ld_consumed l'" by auto
  then show ?thesis by (simp add: can_mount_def mount_authz_def)
qed

section \<open>Re-registration\<close>

lemma walk_single: "walk [r] = (walk_step r (suspended Valid))\<lparr>cs_tip := Some (ch_hash r), cs_records := [r]\<rparr>"
  by (simp add: walk_def)

definition reregistered :: "chain_codec \<Rightarrow> int \<Rightarrow> nat \<Rightarrow> string option \<Rightarrow> string \<Rightarrow> string option \<Rightarrow> chain_record" where
  "reregistered c now set_rung prereg reason archived = sealed c
     \<lparr>rb_id = cd_kst c now @ ''-0000'', rb_date = cd_kst c now,
      rb_prev = (case archived of Some h \<Rightarrow> h | None \<Rightarrow> GENESIS_PREV_HASH),
      rb_chain_rung = set_rung, rb_effective_rung = set_rung, rb_prereg = prereg,
      rb_kind = ReRegistration \<lparr>rg_set_rung = set_rung, rg_archived = archived,
        rg_reason = scrub_secrets reason\<rparr>\<rparr>"

lemma reregister_epoch:
  assumes "ds_file st \<noteq> Absent" and "ds_locks st = {}"
    and "codec_ok c (reregistered c now set_rung prereg reason (Some (cd_sha c (file_text st))))"
  shows "\<exists>st'. reregister c now set_rung prereg reason st =
       (Inr (reregistered c now set_rung prereg reason (Some (cd_sha c (file_text st)))), st') \<and>
     holds_epoch c st' [reregistered c now set_rung prereg reason (Some (cd_sha c (file_text st)))] \<and>
     ds_locks st' = {} \<and> map_of (ds_archive st') (cd_sha c (file_text st)) \<noteq> None"
proof -
  let ?h = "cd_sha c (file_text st)"
  let ?r = "reregistered c now set_rung prereg reason (Some ?h)"
  let ?st1 = "st\<lparr>ds_locks := {lock_filename DispatchLock}\<rparr>"
  let ?st2 = "if map_of (ds_archive ?st1) ?h = None
    then ?st1\<lparr>ds_archive := (?h, ds_file ?st1) # ds_archive ?st1, ds_file := Absent\<rparr>
    else ?st1\<lparr>ds_file := Absent\<rparr>"
  let ?st3 = "?st2\<lparr>ds_file := write_line (cd_line c ?r) (ds_file ?st2)\<rparr>"
  have lock: "lock_acquire (ds_locks st) DispatchLock = (Inr (), {lock_filename DispatchLock})"
    by (simp add: assms(2) lock_acquire_def check_counterpart_def create_new_def is_held_def)
  have arch: "(if ds_file ?st1 = Absent then None else Some (cd_sha c (file_bytes (ds_file ?st1)))) = Some ?h"
    using assms(1) by (simp add: file_text_def)
  have run: "reregister c now set_rung prereg reason st = (Inr ?r, drop_lock ?st3)"
    unfolding reregister_def lock prod.case sum.case Let_def arch option.case write_body_def
      reregistered_def by (rule refl)
  have absent: "ds_file ?st2 = Absent" by simp
  have "holds_epoch c ?st2 []"
    by (simp add: holds_epoch_def raw_lines_def file_text_def file_bytes_def whole_lines_def)
  then have "holds_epoch c ?st3 ([] @ [?r])"
    by (rule holds_epoch_write) (use assms(3) in \<open>simp_all add: reregistered_def sealed_def opens_epoch_def\<close>)
  then have "holds_epoch c (drop_lock ?st3) [?r]" by (simp only: holds_epoch_drop append_Nil)
  moreover have "ds_locks (drop_lock ?st3) = {}" by (simp add: drop_lock_def lock_release_def)
  moreover have "map_of (ds_archive (drop_lock ?st3)) ?h \<noteq> None" by (simp add: drop_lock_def)
  ultimately show ?thesis using run by blast
qed

text \<open>
  A re-registration starts from nothing: whatever the file held, the old text is archived under its
  digest, and the chain that is read back is the new record alone, at the rung it names. With it go
  the engaged kill switch, the last dispatch and every de-escalation record of the old epoch.
\<close>

theorem reregistration_starts_over:
  assumes "ds_file st \<noteq> Absent" and "ds_locks st = {}"
    and "codec_ok c (reregistered c now set_rung prereg reason (Some (cd_sha c (file_text st))))"
  shows "\<exists>r st'. reregister c now set_rung prereg reason st = (Inr r, st') \<and>
     map_of (ds_archive st') (cd_sha c (file_text st)) \<noteq> None \<and>
     (let s = chain_load c st' in cs_records s = [r] \<and> cs_rung s = set_rung \<and> cs_status s = Valid \<and>
        \<not> cs_kill s \<and> cs_last s = None)"
proof -
  from reregister_epoch [OF assms] obtain st' where st':
    "reregister c now set_rung prereg reason st =
       (Inr (reregistered c now set_rung prereg reason (Some (cd_sha c (file_text st)))), st')"
    "holds_epoch c st' [reregistered c now set_rung prereg reason (Some (cd_sha c (file_text st)))]"
    "map_of (ds_archive st') (cd_sha c (file_text st)) \<noteq> None" by blast
  from load_epoch [OF st'(2)] show ?thesis
    using st'(1,3) by (simp add: walk_single walk_step_def reregistered_def sealed_def suspended_def Let_def)
qed

section \<open>A concrete chain\<close>

text \<open>
  A codec small enough to evaluate: a record is printed as its id, the digest is the text itself,
  and the three records below are all that parses.
\<close>

definition ex_record :: "string \<Rightarrow> string \<Rightarrow> nat \<Rightarrow> record_kind \<Rightarrow> chain_record" where
  "ex_record i prev rung k =
     \<lparr>ch_body = \<lparr>rb_id = i, rb_date = ''2026-07-16'', rb_prev = prev, rb_chain_rung = rung,
        rb_effective_rung = rung, rb_prereg = None, rb_kind = k\<rparr>, ch_hash = i\<rparr>"

definition ex_green :: record_kind where
  "ex_green = SessionDispatch \<lparr>sd_outcome = OutcomeGreen, sd_checks = [], sd_deferrals = [],
     sd_readiness = None, sd_override = None\<rparr>"

definition ex_genesis :: chain_record where
  "ex_genesis = ex_record ''2026-07-16-0000'' GENESIS_PREV_HASH 1 Genesis"

definition ex_dispatch :: chain_record where
  "ex_dispatch = ex_record ''2026-07-16-0001'' ''2026-07-16-0000'' 1 ex_green"

definition ex_mounted :: chain_record where
  "ex_mounted = ex_record ''2026-07-16-0002'' ''2026-07-16-0001'' 1
     (Consumption \<lparr>cn_dispatch = ''2026-07-16-0001'', cn_run_id = None\<rparr>)"

definition ex_codec :: chain_codec where
  "ex_codec = \<lparr>cd_body = rb_id, cd_line = (\<lambda>r. rb_id (ch_body r)),
     cd_parse = (\<lambda>l. if l = ''2026-07-16-0000'' then Some ex_genesis
       else if l = ''2026-07-16-0001'' then Some ex_dispatch
       else if l = ''2026-07-16-0002'' then Some ex_mounted else None),
     cd_sha = (\<lambda>t. t), cd_kst = (\<lambda>_. ''2026-07-16'')\<rparr>"

definition ex_store :: "string \<Rightarrow> dispatch_store" where
  "ex_store t = \<lparr>ds_file = Utf8 t, ds_archive = [], ds_locks = {}\<rparr>"

definition newline :: string where "newline = [CHR 0x0A]"

lemmas ex_defs = ex_record_def ex_green_def ex_genesis_def ex_dispatch_def ex_mounted_def ex_codec_def
  ex_store_def newline_def sealed_def compute_record_hash_def

lemma ex_trim [simp]:
  "trim ''2026-07-16-0000'' = ''2026-07-16-0000''" "trim ''2026-07-16-0001'' = ''2026-07-16-0001''"
  "trim ''2026-07-16-00002026-07-16-0001'' = ''2026-07-16-00002026-07-16-0001''"
  by (rule trim_plain, auto simp: plain_char_def)+

lemma ex_lines:
  "raw_lines (ex_store (''2026-07-16-0000'' @ newline)) = Inr [''2026-07-16-0000'']"
  "raw_lines (ex_store ''2026-07-16-0000'') = Inr [''2026-07-16-0000'']"
  "raw_lines (ex_store (''2026-07-16-00002026-07-16-0001'' @ newline)) = Inr [''2026-07-16-00002026-07-16-0001'']"
  by (simp_all add: raw_lines_def ex_store_def str_lines_def strip_cr_def newline_def)

lemma ex_pad [simp]: "pad4 (Suc 0) = ''0001''"
  by (simp add: pad4_def show_nat.simps numeral_3_eq_3)

lemma ex_holds: "holds_epoch ex_codec (ex_store (''2026-07-16-0000'' @ newline)) [ex_genesis]"
  unfolding holds_epoch_def ex_lines
  by (simp add: whole_lines_def file_text_def file_bytes_def ex_defs opens_epoch_def)

lemma ex_appended: "appended ex_codec now 1 1 None ex_green [ex_genesis] = ex_dispatch"
  by (simp add: appended_def ex_defs)

lemma ex_codec_ok: "codec_ok ex_codec ex_dispatch"
  by (simp add: codec_ok_def clean_line_def ex_defs)

lemma ex_links: "verify_links ex_codec 0 None [ex_genesis, ex_dispatch] = None"
  by (simp add: ex_defs opens_epoch_def)

section \<open>Instances\<close>

theorem append_extends_epoch_witness:
  "\<exists>st'. chain_append ex_codec 0 1 1 None ex_green (ex_store (''2026-07-16-0000'' @ newline)) = (Inr ex_dispatch, st') \<and>
     chain_load ex_codec st' = walk [ex_genesis, ex_dispatch] \<and>
     prefix (file_text (ex_store (''2026-07-16-0000'' @ newline))) (file_text st')"
  using append_extends_epoch [OF ex_holds, of ex_green 0 1 1 None, unfolded ex_appended, OF _ _ ex_codec_ok]
  by (simp add: ex_store_def)

theorem tip_commits_to_history_witness: "[ex_genesis, ex_dispatch] = [ex_genesis, ex_dispatch]"
  by (rule tip_commits_to_history [OF ex_links ex_links]) (simp_all add: ex_defs inj_on_def)

theorem authority_is_verified_witness:
  "\<exists>rs. chain_load ex_codec (ex_store (''2026-07-16-0000'' @ newline)) = walk rs \<and> rs \<noteq> [] \<and>
     (\<forall>r\<in>set rs. ch_hash r = cd_sha ex_codec (cd_body ex_codec (ch_body r)))"
proof -
  define st where "st = ex_store (''2026-07-16-0000'' @ newline)"
  have "0 < cs_rung (chain_load ex_codec st)"
    unfolding st_def load_epoch [OF ex_holds list.distinct(2)]
    by (simp add: walk_single walk_step_def ex_genesis_def ex_record_def RUNG_MIN_def Let_def)
  from authority_is_verified [OF this] show ?thesis unfolding st_def [symmetric] by blast
qed

theorem dispatch_is_single_use_witness:
  "mount_authz (walk [ex_genesis, ex_dispatch]) ''2026-07-16'' = Ready ''2026-07-16-0001'' 1 1 \<and>
   \<not> can_mount (walk [ex_genesis, ex_dispatch, ex_mounted]) ''2026-07-16''"
proof -
  have "mount_authz (walk [ex_genesis, ex_dispatch]) ''2026-07-16'' = Ready ''2026-07-16-0001'' 1 1"
    by (simp add: walk_def walk_step_def ex_defs suspended_def RUNG_MIN_def mount_authz_def Let_def)
  moreover from dispatch_is_single_use [OF this, of "[ex_mounted]" "''2026-07-16''"]
  have "\<not> can_mount (walk [ex_genesis, ex_dispatch, ex_mounted]) ''2026-07-16''"
    by (simp add: is_dispatch_def consumes_def ex_mounted_def ex_record_def)
  ultimately show ?thesis by blast
qed

section \<open>Where the file and the mount fall short\<close>

text \<open>
  A file that lost only the final line feed loads as valid and is appended to; the new record then
  lands on the same line, and the chain no longer loads. So a torn write is not always rejected when
  it is read: it can surface at the next append, which itself reports success.
\<close>

theorem torn_newline_breaks_the_next_append:
  "cs_status (chain_load ex_codec (ex_store ''2026-07-16-0000'')) = Valid \<and>
   (case chain_append ex_codec 0 1 1 None ex_green (ex_store ''2026-07-16-0000'') of (r, st) \<Rightarrow>
      r = Inr ex_dispatch \<and> (\<exists>why. cs_status (chain_load ex_codec st) = Defective why))"
proof -
  let ?st = "ex_store ''2026-07-16-0000''"
  have "chain_load ex_codec ?st = walk [ex_genesis]"
    by (simp add: chain_load_def ex_lines) (simp add: ex_defs opens_epoch_def)
  moreover have "chain_append ex_codec 0 1 1 None ex_green ?st =
      (Inr ex_dispatch, ex_store (''2026-07-16-00002026-07-16-0001'' @ newline))"
  proof -
    have lock: "lock_acquire (ds_locks ?st) DispatchLock = (Inr (), {lock_filename DispatchLock})"
      by (simp add: ex_store_def lock_acquire_def check_counterpart_def create_new_def is_held_def)
    have tip: "chain_tip ex_codec (?st\<lparr>ds_locks := x\<rparr>) = Inr (''2026-07-16-0000'', 1)" for x
      by (simp add: chain_tip_def ex_lines) (simp add: ex_defs)
    show ?thesis
      unfolding chain_append_def lock prod.case sum.case Let_def tip
      by (simp add: write_body_def write_line_def drop_lock_def lock_release_def ex_defs)
  qed
  moreover have "chain_load ex_codec (ex_store (''2026-07-16-00002026-07-16-0001'' @ newline)) =
      suspended (Defective ''record 1 unparseable'')"
    unfolding chain_load_def ex_lines by (simp add: ex_codec_def show_nat.simps)
  ultimately show ?thesis by (simp add: suspended_def)
qed

text \<open>An escalated ladder whose green dispatch is followed by a step down and a kill switch.\<close>

definition stale_chain :: "chain_record list" where
  "stale_chain =
     [ex_genesis,
      ex_record ''2026-07-16-0001'' ''2026-07-16-0000'' 3
        (Escalation \<lparr>es_from_rung = 2, es_to_rung = 3, es_evidence = []\<rparr>),
      ex_record ''2026-07-16-0002'' ''2026-07-16-0001'' 3 ex_green,
      ex_record ''2026-07-16-0003'' ''2026-07-16-0002'' 3
        (DeEscalation \<lparr>de_from_rung = 3, de_to_rung = 2, de_events = [], de_consumed_through = []\<rparr>),
      ex_record ''2026-07-16-0004'' ''2026-07-16-0003'' 2
        (SafetyTrip \<lparr>st_trip = KillSwitch, st_action = Engage, st_run_id = None, st_detail = []\<rparr>)]"

text \<open>
  The rung a mount is checked against is the one its dispatch recorded: neither a de-escalation appended
  after the dispatch nor an engaged kill switch stops the session or lowers its rung.
\<close>

theorem mount_outlives_deescalation:
  "verify_links ex_codec 0 None stale_chain = None \<and> cs_rung (walk stale_chain) = 2 \<and>
   cs_kill (walk stale_chain) \<and>
   mount_authz (walk stale_chain) ''2026-07-16'' = Ready ''2026-07-16-0002'' 3 3"
  by (simp add: stale_chain_def walk_def walk_step_def ex_defs suspended_def RUNG_MIN_def
      mount_authz_def opens_epoch_def Let_def)

end
