(* ===== verification/Dispatch_Gate.thy ===== *)
theory Dispatch_Gate
  imports Krx_Calendar F64 Dispatch_Chain
begin

text \<open>
  The dispatch gate of \<open>adapters/nautilus/lab/src/dispatch\<close>: the operator nonce (\<open>nonce.rs\<close>), the
  precondition checks and the verdict over them (\<open>checks.rs\<close>). Every check is a function of a
  gathered context; details are scrubbed when an outcome is made, as in the source.
\<close>

section \<open>The operator nonce\<close>

definition NONCE_TTL_SECS :: int where "NONCE_TTL_SECS = 600"
definition NONCE_MAX_SKEW_SECS :: int where "NONCE_MAX_SKEW_SECS = 60"

definition validate_nonce :: "string \<Rightarrow> string \<Rightarrow> int \<Rightarrow> string + unit" where
  "validate_nonce act raw now =
     (let nonce = trim raw
      in if nonce = [] then Inl (''refusing '' @ act @ '': LS_DISPATCH_NONCE is empty'')
         else case parse_i64 nonce of
             None \<Rightarrow> Inl (''refusing '' @ act @ '': LS_DISPATCH_NONCE must be a fresh unix-seconds timestamp'')
           | Some issued \<Rightarrow>
               (let age = wrap64 (now - issued)
                in if NONCE_TTL_SECS < age then Inl (''refusing '' @ act @ '': LS_DISPATCH_NONCE is stale'')
                   else if age < - NONCE_MAX_SKEW_SECS
                   then Inl (''refusing '' @ act @ '': LS_DISPATCH_NONCE is from the future'')
                   else Inr ()))"

record operator_gate =
  og_marker :: "string option"
  og_nonce :: "string option"
  og_now :: int

definition authorize :: "operator_gate \<Rightarrow> string \<Rightarrow> string + unit" where
  "authorize g act =
     (case og_marker g of
        Some why \<Rightarrow> Inl (''refusing '' @ act @ '': detected unattended context ('' @ why @ '')'')
      | None \<Rightarrow>
          (case og_nonce g of
             None \<Rightarrow> Inl (''refusing '' @ act @ '': operator nonce absent'')
           | Some n \<Rightarrow> validate_nonce act n (og_now g)))"

text \<open>The environment of the process: its variables, and whether standard input is a terminal.\<close>

record process_env =
  pe_var :: "string \<Rightarrow> string option"
  pe_tty :: bool

definition detect_unattended_marker :: "process_env \<Rightarrow> string option" where
  "detect_unattended_marker pe =
     (case find (\<lambda>v. case pe_var pe v of Some x \<Rightarrow> x \<noteq> [] | None \<Rightarrow> False) [''CI'', ''GITHUB_ACTIONS''] of
        Some v \<Rightarrow> Some (v @ '' is set'')
      | None \<Rightarrow> if pe_tty pe then None else Some ''stdin is not a TTY'')"

section \<open>The gathered context\<close>

datatype date_fact = TradingSession | VenueClosed | UnknownDate | Unavailable

text \<open>\<open>WeekdayKrxCalendar::in_time_window\<close>: the minute of the day in Seoul, nine hours ahead of UTC.\<close>

definition kst_minute :: "int \<Rightarrow> int" where
  "kst_minute now = (now + 32400) mod 86400 div 60"

definition in_time_window :: "int \<Rightarrow> bool" where
  "in_time_window now = (9 * 60 \<le> kst_minute now \<and> kst_minute now \<le> 15 * 60 + 30)"

definition date_fact_from_view :: "as_of_view option \<Rightarrow> int \<Rightarrow> date_fact" where
  "date_fact_from_view view d =
     (case view of
        None \<Rightarrow> Unavailable
      | Some v \<Rightarrow>
          (case view_day v d of
             Inr f \<Rightarrow>
               (case df_status f of
                  DayTradingSession \<Rightarrow> TradingSession
                | DayClosed \<Rightarrow> VenueClosed
                | DayUnknown \<Rightarrow> UnknownDate)
           | Inl _ \<Rightarrow> Unavailable))"

datatype gateway_probe = Clear | Blocked string | ProbeThrottled
datatype budget_headroom = Measured int int | Unmeasured
datatype lane_posture = LiveLane | PaperLane
datatype readiness = ReadinessGreen | ReadinessRed | NotEvaluated

definition is_probation :: "readiness \<Rightarrow> bool" where
  "is_probation v = (v = ReadinessRed)"

record dispatch_context =
  dc_today :: string
  dc_trading_env :: "string option"
  dc_lane_env :: bool
  dc_is_paper :: "bool option"
  dc_live_lock :: bool
  dc_date :: date_fact
  dc_window :: bool
  dc_run_id :: string
  dc_override :: "unknown_override option"
  dc_watermark :: bool
  dc_bars :: bool
  dc_flat :: gateway_probe
  dc_stranded :: gateway_probe
  dc_kill :: bool
  dc_kill_record :: bool
  dc_budget :: budget_headroom
  dc_chain_rung :: nat
  dc_requested :: nat
  dc_lane :: lane_posture
  dc_readiness :: readiness

section \<open>The checks\<close>

record check_outcome =
  co_name :: string
  co_tier :: tier
  co_status :: check_status
  co_detail :: string

definition outcome :: "string \<Rightarrow> tier \<Rightarrow> check_status \<Rightarrow> string \<Rightarrow> check_outcome" where
  "outcome n t s d = \<lparr>co_name = n, co_tier = t, co_status = s, co_detail = scrub_secrets d\<rparr>"

definition check_advisory_lock :: "dispatch_context \<Rightarrow> check_outcome" where
  "check_advisory_lock x =
     (if dc_live_lock x
      then outcome ''advisory_lock'' Deferrable Red ''a live session holds the Live advisory lock''
      else outcome ''advisory_lock'' Deferrable Green ''lock free'')"

definition check_trading_env :: "dispatch_context \<Rightarrow> check_outcome" where
  "check_trading_env x =
     (let red = outcome ''trading_env_interlock'' NonDeferrable Red;
          env = (case dc_trading_env x of Some e \<Rightarrow> trim e | None \<Rightarrow> [])
      in if env = [] then red ''LS_TRADING_ENV is unset''
         else if \<not> dc_lane_env x then red ''lane env file missing (.env.<lane>)''
         else case dc_is_paper x of
             None \<Rightarrow> red ''cannot resolve lane credentials from the lane env file''
           | Some paper \<Rightarrow>
               if eq_ignore_case env ''paper'' \<noteq> paper
               then red (''resolved-env mismatch: shell LS_TRADING_ENV='' @ env @
                 '' but resolved credentials are '' @ (if paper then ''paper'' else ''live''))
               else outcome ''trading_env_interlock'' NonDeferrable Green (''interlock ok (env='' @ env @ '')''))"

definition check_calendar_date :: "dispatch_context \<Rightarrow> check_outcome" where
  "check_calendar_date x =
     (let red = outcome ''calendar_date'' NonDeferrable Red
      in case dc_date x of
          TradingSession \<Rightarrow>
            outcome ''calendar_date'' NonDeferrable Green ''calendar proves a Trading Session on this KST date''
        | VenueClosed \<Rightarrow> red ''calendar proves the venue Closed on this KST date''
        | Unavailable \<Rightarrow> red ''calendar unavailable (load/use/query failure)''
        | UnknownDate \<Rightarrow>
            (case dc_override x of
               Some ov \<Rightarrow>
                 if override_covers ov (dc_today x) (dc_run_id x)
                 then outcome ''calendar_date'' NonDeferrable GreenWithNote
                   (''Unknown KST date proceeded by a bound, audited attended override (run '' @ uo_run_id ov @
                    '', citation '' @ ci_issuer (uo_citation ov) @ ''/'' @ ci_reference (uo_citation ov) @ '')'')
                 else red ''calendar date is Unknown (no covering evidence)''
             | None \<Rightarrow> red ''calendar date is Unknown (no covering evidence)''))"

definition check_session_window :: "dispatch_context \<Rightarrow> check_outcome" where
  "check_session_window x =
     (if dc_window x then outcome ''session_window'' Deferrable Green ''inside the session window''
      else outcome ''session_window'' Deferrable Red ''outside the session window'')"

definition check_watermark :: "dispatch_context \<Rightarrow> check_outcome" where
  "check_watermark x =
     (if \<not> dc_watermark x then outcome ''catalog_watermark'' Deferrable Red ''catalog watermark is stale''
      else if \<not> dc_bars x
      then outcome ''catalog_watermark'' Deferrable Red ''watermark is current but the bar-presence sample is empty''
      else outcome ''catalog_watermark'' Deferrable Green ''watermark fresh, bars present'')"

definition gateway_outcome :: "string \<Rightarrow> tier \<Rightarrow> gateway_probe \<Rightarrow> string \<Rightarrow> check_outcome" where
  "gateway_outcome n t p clear =
     (case p of
        Clear \<Rightarrow> outcome n t Green clear
      | Blocked why \<Rightarrow> outcome n t Red why
      | ProbeThrottled \<Rightarrow> outcome n t Throttled ''IGW00201 throttle during the read'')"

definition check_flat_start :: "dispatch_context \<Rightarrow> check_outcome" where
  "check_flat_start x = gateway_outcome ''flat_start'' NonDeferrable (dc_flat x) ''account flat (no holdings)''"

definition check_stranded_orders :: "dispatch_context \<Rightarrow> check_outcome" where
  "check_stranded_orders x = gateway_outcome ''stranded_orders'' Deferrable (dc_stranded x) ''no resting orders''"

definition check_kill_switch :: "dispatch_context \<Rightarrow> check_outcome" where
  "check_kill_switch x =
     (if dc_kill x
      then outcome ''kill_switch'' NonDeferrable Red ''a persisted kill-switch trip is engaged''
      else if \<not> dc_kill_record x
      then outcome ''kill_switch'' NonDeferrable GreenWithNote ''no kill-switch record yet (no live-session history)''
      else outcome ''kill_switch'' NonDeferrable Green ''kill switch clear'')"

definition check_budget :: "dispatch_context \<Rightarrow> check_outcome" where
  "check_budget x =
     (case dc_budget x of
        Measured remaining plan \<Rightarrow>
          if plan \<le> remaining
          then outcome ''budget_headroom'' Deferrable Green
            (''headroom ok ('' @ show_int remaining @ '' remaining >= '' @ show_int plan @ '' planned)'')
          else outcome ''budget_headroom'' Deferrable Red
            (''measured headroom below plan ('' @ show_int remaining @ '' remaining < '' @ show_int plan @ '' planned)'')
      | Unmeasured \<Rightarrow> outcome ''budget_headroom'' Deferrable Red ''unmeasured budget (budget_calls: None)'')"

definition check_rung_authorization :: "dispatch_context \<Rightarrow> check_outcome" where
  "check_rung_authorization x =
     (let t = (case dc_lane x of LiveLane \<Rightarrow> NonDeferrable | PaperLane \<Rightarrow> Informational)
      in if dc_chain_rung x = 0
         then outcome ''rung_authorization'' t Red ''the dispatch chain authorizes rung 0 (suspended)''
         else if dc_chain_rung x < dc_requested x
         then outcome ''rung_authorization'' t Red
           (''requested rung '' @ show_nat (dc_requested x) @ '' exceeds the chain-authorized rung '' @
            show_nat (dc_chain_rung x))
         else outcome ''rung_authorization'' t Green
           (''rung '' @ show_nat (dc_requested x) @ '' authorized (chain rung '' @ show_nat (dc_chain_rung x) @ '')''))"

definition check_readiness :: "dispatch_context \<Rightarrow> check_outcome" where
  "check_readiness x =
     (case dc_readiness x of
        ReadinessGreen \<Rightarrow> outcome ''readiness_verdict'' Informational Green ''readiness green''
      | NotEvaluated \<Rightarrow> outcome ''readiness_verdict'' Informational GreenWithNote ''readiness not evaluated''
      | ReadinessRed \<Rightarrow> outcome ''readiness_verdict'' Informational Red ''readiness red'')"

definition run_checks :: "dispatch_context \<Rightarrow> check_outcome list" where
  "run_checks x =
     [check_trading_env x, check_advisory_lock x, check_calendar_date x, check_session_window x,
      check_watermark x, check_flat_start x, check_stranded_orders x, check_kill_switch x,
      check_budget x, check_rung_authorization x, check_readiness x]"

section \<open>The verdict\<close>

datatype gate_result = GateGreen | GateRefused | GateThrottled

record gate_decision =
  gd_result :: gate_result
  gd_records :: "check_record list"
  gd_deferrals :: "deferral list"
  gd_refused :: "string list"

definition parse_deferrals :: "string option \<Rightarrow> string list" where
  "parse_deferrals raw =
     (case raw of None \<Rightarrow> [] | Some s \<Rightarrow> filter (\<lambda>i. i \<noteq> []) (map trim (split_on CHR '','' s)))"

text \<open>One outcome of the loop in \<open>decide\<close>: throttled, records, applied deferrals, refused items.\<close>

definition decide_one ::
    "string list \<Rightarrow> bool \<Rightarrow> check_outcome \<Rightarrow>
       bool \<times> check_record list \<times> deferral list \<times> string list \<Rightarrow>
       bool \<times> check_record list \<times> deferral list \<times> string list" where
  "decide_one dfs nonce_ok ck g =
     (case g of (throttled, records, applied, refused) \<Rightarrow>
        (let deferred = (co_status ck = Red \<and> co_tier ck = Deferrable \<and> co_name ck \<in> set dfs \<and> nonce_ok);
             r = \<lparr>cr_name = co_name ck, cr_tier = co_tier ck, cr_status = co_status ck,
                  cr_detail = co_detail ck, cr_deferred = deferred\<rparr>
         in case co_status ck of
             Throttled \<Rightarrow> (True, records @ [r], applied, refused)
           | Green \<Rightarrow> (throttled, records @ [r], applied, refused)
           | GreenWithNote \<Rightarrow> (throttled, records @ [r], applied, refused)
           | Red \<Rightarrow>
               if deferred
               then (throttled, records @ [r],
                 applied @ [\<lparr>df_item = co_name ck, df_reason = ''operator deferral via LS_DISPATCH_DEFER''\<rparr>], refused)
               else if co_tier ck = Informational then (throttled, records @ [r], applied, refused)
               else (throttled, records @ [r], applied, refused @ [co_name ck])))"

definition decide :: "check_outcome list \<Rightarrow> string list \<Rightarrow> bool \<Rightarrow> gate_decision" where
  "decide outcomes dfs nonce_ok =
     (case fold (decide_one dfs nonce_ok) outcomes (False, [], [], []) of
        (throttled, records, applied, refused) \<Rightarrow>
          \<lparr>gd_result = (if throttled then GateThrottled else if refused = [] then GateGreen else GateRefused),
           gd_records = records, gd_deferrals = applied, gd_refused = refused\<rparr>)"

text \<open>\<open>classify\<close>: what a gateway read becomes; the error is its message.\<close>

definition classify_gateway_probe :: "string + unit \<Rightarrow> gateway_probe" where
  "classify_gateway_probe r =
     (case r of
        Inr _ \<Rightarrow> Clear
      | Inl msg \<Rightarrow> if contains msg ''IGW00201'' then ProbeThrottled else Blocked (scrub_secrets msg))"

section \<open>Facts about the nonce\<close>

lemma wrap64_once:
  assumes "i64_max < x" "x < 2 ^ 64 + 2 ^ 63"
  shows "wrap64 x = x - 2 ^ 64"
proof -
  have "(x + 2 ^ 63) mod 2 ^ 64 = (x + 2 ^ 63 - 2 ^ 64) mod 2 ^ 64"
    using assms by (intro mod_pos_geq) (simp_all add: i64_max_def)
  also have "\<dots> = x + 2 ^ 63 - 2 ^ 64"
    using assms by (intro mod_pos_pos_trivial) (simp_all add: i64_max_def)
  finally show ?thesis by (simp add: wrap64_def)
qed

lemma validate_nonce_ok:
  assumes "0 \<le> now" "now \<le> 2 ^ 62"
  shows "validate_nonce act raw now = Inr () \<longleftrightarrow>
     (\<exists>i. parse_i64 (trim raw) = Some i \<and> now - 600 \<le> i \<and> i \<le> now + 60)"
proof (cases "parse_i64 (trim raw)")
  case None
  then show ?thesis by (simp add: validate_nonce_def Let_def)
next
  case (Some i)
  have i: "i64_ok i" using parse_i64_ok [OF Some] .
  have ne: "trim raw \<noteq> []" using Some by (auto simp: parse_i64_def Let_def)
  have step: "validate_nonce act raw now = Inr () \<longleftrightarrow> wrap64 (now - i) \<le> 600 \<and> - 60 \<le> wrap64 (now - i)"
    using ne Some by (simp add: validate_nonce_def Let_def NONCE_TTL_SECS_def NONCE_MAX_SKEW_SECS_def)
  show ?thesis
  proof (cases "now - i \<le> i64_max")
    case True
    then have "wrap64 (now - i) = now - i"
      using assms i by (intro wrap64_id) (simp add: i64_ok_def i64_min_def i64_max_def)
    with Some show ?thesis unfolding step by auto
  next
    case False
    then have "wrap64 (now - i) = now - i - 2 ^ 64"
      using assms i by (intro wrap64_once) (simp_all add: i64_ok_def i64_min_def i64_max_def)
    with Some False assms i show ?thesis
      unfolding step by (simp add: i64_ok_def i64_min_def i64_max_def)
  qed
qed

section \<open>What the verdict depends on\<close>

definition passes :: "string list \<Rightarrow> bool \<Rightarrow> check_outcome \<Rightarrow> bool" where
  "passes dfs nonce_ok ck =
     (co_status ck \<noteq> Red \<or> co_tier ck = Informational \<or>
      co_tier ck = Deferrable \<and> co_name ck \<in> set dfs \<and> nonce_ok)"

definition deferred_red :: "string list \<Rightarrow> bool \<Rightarrow> check_outcome \<Rightarrow> bool" where
  "deferred_red dfs nonce_ok ck =
     (co_status ck = Red \<and> co_tier ck = Deferrable \<and> co_name ck \<in> set dfs \<and> nonce_ok)"

definition to_record :: "string list \<Rightarrow> bool \<Rightarrow> check_outcome \<Rightarrow> check_record" where
  "to_record dfs nonce_ok ck =
     \<lparr>cr_name = co_name ck, cr_tier = co_tier ck, cr_status = co_status ck,
      cr_detail = co_detail ck, cr_deferred = deferred_red dfs nonce_ok ck\<rparr>"

definition to_deferral :: "check_outcome \<Rightarrow> deferral" where
  "to_deferral ck = \<lparr>df_item = co_name ck, df_reason = ''operator deferral via LS_DISPATCH_DEFER''\<rparr>"

lemma decide_step:
  "decide_one dfs nonce_ok ck (t, r, a, f) =
     (t \<or> co_status ck = Throttled, r @ [to_record dfs nonce_ok ck],
      a @ (if deferred_red dfs nonce_ok ck then [to_deferral ck] else []),
      f @ (if passes dfs nonce_ok ck then [] else [co_name ck]))"
  by (cases "co_status ck"; cases "co_tier ck")
    (simp_all add: decide_one_def passes_def deferred_red_def to_record_def to_deferral_def Let_def)

lemma decide_loop:
  "fold (decide_one dfs nonce_ok) cks (t, r, a, f) =
     (t \<or> list_ex (\<lambda>ck. co_status ck = Throttled) cks,
      r @ map (to_record dfs nonce_ok) cks,
      a @ map to_deferral (filter (deferred_red dfs nonce_ok) cks),
      f @ map co_name (filter (\<lambda>ck. \<not> passes dfs nonce_ok ck) cks))"
  by (induction cks arbitrary: t r a f) (simp_all add: decide_step)

lemma decide_result:
  "gd_result (decide cks dfs nonce_ok) =
     (if list_ex (\<lambda>ck. co_status ck = Throttled) cks then GateThrottled
      else if list_all (passes dfs nonce_ok) cks then GateGreen else GateRefused)"
  by (auto simp add: decide_def decide_loop list_all_iff filter_empty_conv)

lemma decide_parts:
  "gd_records (decide cks dfs nonce_ok) = map (to_record dfs nonce_ok) cks"
  "gd_deferrals (decide cks dfs nonce_ok) = map to_deferral (filter (deferred_red dfs nonce_ok) cks)"
  "gd_refused (decide cks dfs nonce_ok) = map co_name (filter (\<lambda>ck. \<not> passes dfs nonce_ok ck) cks)"
  by (simp_all add: decide_def decide_loop)

lemma outcome_simps [simp]:
  "co_name (outcome n t s d) = n" "co_tier (outcome n t s d) = t" "co_status (outcome n t s d) = s"
  by (simp_all add: outcome_def)

lemma gateway_outcome_simps [simp]:
  "co_name (gateway_outcome n t p d) = n" "co_tier (gateway_outcome n t p d) = t"
  "co_status (gateway_outcome n t p d) = Throttled \<longleftrightarrow> p = ProbeThrottled"
  "co_status (gateway_outcome n t p d) = Red \<longleftrightarrow> (\<exists>why. p = Blocked why)"
  by (simp_all add: gateway_outcome_def split: gateway_probe.split)

text \<open>The conditions a session may start under; \<open>waived\<close> says which deferrable items the operator deferred.\<close>

definition may_trade :: "dispatch_context \<Rightarrow> (string \<Rightarrow> bool) \<Rightarrow> bool" where
  "may_trade x waived \<longleftrightarrow>
     trim (case dc_trading_env x of Some e \<Rightarrow> e | None \<Rightarrow> []) \<noteq> [] \<and> dc_lane_env x \<and>
     dc_is_paper x = Some (eq_ignore_case (trim (the (dc_trading_env x))) ''paper'') \<and>
     (dc_live_lock x \<longrightarrow> waived ''advisory_lock'') \<and>
     (dc_date x = TradingSession \<or> dc_date x = UnknownDate \<and>
       (\<exists>ov. dc_override x = Some ov \<and> override_covers ov (dc_today x) (dc_run_id x))) \<and>
     (\<not> dc_window x \<longrightarrow> waived ''session_window'') \<and>
     (\<not> (dc_watermark x \<and> dc_bars x) \<longrightarrow> waived ''catalog_watermark'') \<and>
     dc_flat x = Clear \<and>
     (dc_stranded x = Clear \<or> dc_stranded x \<noteq> ProbeThrottled \<and> waived ''stranded_orders'') \<and>
     \<not> dc_kill x \<and>
     (case dc_budget x of Measured r p \<Rightarrow> p \<le> r \<or> waived ''budget_headroom'' | Unmeasured \<Rightarrow> waived ''budget_headroom'') \<and>
     (dc_lane x = LiveLane \<longrightarrow> 0 < dc_chain_rung x \<and> dc_requested x \<le> dc_chain_rung x)"

lemma trading_env_passes:
  "co_status (check_trading_env x) \<noteq> Throttled"
  "passes dfs k (check_trading_env x) \<longleftrightarrow>
     trim (case dc_trading_env x of Some e \<Rightarrow> e | None \<Rightarrow> []) \<noteq> [] \<and> dc_lane_env x \<and>
     dc_is_paper x = Some (eq_ignore_case (trim (the (dc_trading_env x))) ''paper'')"
  by (auto simp: check_trading_env_def passes_def Let_def split: option.split)

lemma calendar_date_passes:
  "co_status (check_calendar_date x) \<noteq> Throttled"
  "passes dfs k (check_calendar_date x) \<longleftrightarrow>
     (dc_date x = TradingSession \<or> dc_date x = UnknownDate \<and>
       (\<exists>ov. dc_override x = Some ov \<and> override_covers ov (dc_today x) (dc_run_id x)))"
  by (auto simp: check_calendar_date_def passes_def Let_def split: option.split date_fact.split)

lemma simple_passes:
  "co_status (check_advisory_lock x) \<noteq> Throttled"
  "passes dfs k (check_advisory_lock x) \<longleftrightarrow> (dc_live_lock x \<longrightarrow> k \<and> ''advisory_lock'' \<in> set dfs)"
  "co_status (check_session_window x) \<noteq> Throttled"
  "passes dfs k (check_session_window x) \<longleftrightarrow> (\<not> dc_window x \<longrightarrow> k \<and> ''session_window'' \<in> set dfs)"
  "co_status (check_watermark x) \<noteq> Throttled"
  "passes dfs k (check_watermark x) \<longleftrightarrow>
     (\<not> (dc_watermark x \<and> dc_bars x) \<longrightarrow> k \<and> ''catalog_watermark'' \<in> set dfs)"
  "co_status (check_kill_switch x) \<noteq> Throttled"
  "passes dfs k (check_kill_switch x) \<longleftrightarrow> \<not> dc_kill x"
  by (auto simp: check_advisory_lock_def check_session_window_def check_watermark_def
      check_kill_switch_def passes_def)

lemma probe_passes:
  "co_status (check_flat_start x) = Throttled \<longleftrightarrow> dc_flat x = ProbeThrottled"
  "passes dfs k (check_flat_start x) \<longleftrightarrow> \<not> (\<exists>why. dc_flat x = Blocked why)"
  "co_status (check_stranded_orders x) = Throttled \<longleftrightarrow> dc_stranded x = ProbeThrottled"
  "passes dfs k (check_stranded_orders x) \<longleftrightarrow>
     \<not> (\<exists>why. dc_stranded x = Blocked why) \<or> k \<and> ''stranded_orders'' \<in> set dfs"
  by (auto simp: check_flat_start_def check_stranded_orders_def passes_def)

lemma budget_rung_passes:
  "co_status (check_budget x) \<noteq> Throttled"
  "passes dfs k (check_budget x) \<longleftrightarrow>
     (case dc_budget x of Measured r p \<Rightarrow> p \<le> r \<or> k \<and> ''budget_headroom'' \<in> set dfs
      | Unmeasured \<Rightarrow> k \<and> ''budget_headroom'' \<in> set dfs)"
  "co_status (check_rung_authorization x) \<noteq> Throttled"
  "passes dfs k (check_rung_authorization x) \<longleftrightarrow>
     (dc_lane x = LiveLane \<longrightarrow> 0 < dc_chain_rung x \<and> dc_requested x \<le> dc_chain_rung x)"
  "co_status (check_readiness x) \<noteq> Throttled"
  "passes dfs k (check_readiness x)"
  by (auto simp: check_budget_def check_rung_authorization_def check_readiness_def passes_def Let_def
      split: budget_headroom.split lane_posture.split readiness.split)

lemmas gate_passes = trading_env_passes calendar_date_passes simple_passes probe_passes budget_rung_passes

lemma decide_green:
  "gd_result (decide (run_checks x) dfs nonce_ok) = GateGreen \<longleftrightarrow>
     may_trade x (\<lambda>item. nonce_ok \<and> item \<in> set dfs)"
proof -
  have "gd_result (decide (run_checks x) dfs nonce_ok) = GateGreen \<longleftrightarrow>
      dc_flat x \<noteq> ProbeThrottled \<and> dc_stranded x \<noteq> ProbeThrottled \<and> list_all (passes dfs nonce_ok) (run_checks x)"
    unfolding decide_result by (simp add: run_checks_def gate_passes)
  also have "\<dots> \<longleftrightarrow> may_trade x (\<lambda>item. nonce_ok \<and> item \<in> set dfs)"
    unfolding may_trade_def run_checks_def list.pred_inject gate_passes
    by (cases "dc_flat x"; cases "dc_stranded x") (simp_all add: gate_passes)
  finally show ?thesis .
qed

text \<open>
  C22. The gate is green exactly when every condition of \<open>may_trade\<close> holds, where an item counts as waived
  only if it is one of the deferrable ones, is named, and the nonce was accepted. Calendar, flat
  start, kill switch, trading environment and, on a live lane, the rung can never be waived.
\<close>

theorem gate_green_iff:
  "gd_result (decide (run_checks x) dfs nonce_ok) = GateGreen \<longleftrightarrow>
     may_trade x (\<lambda>item. nonce_ok \<and> item \<in> set dfs)"
  by (rule decide_green)

text \<open>
  Nothing the operator supplies moves a non-deferrable red: with one among the outcomes the verdict is
  never green, its name is among the refused items, and its record is not marked deferred.
\<close>

theorem non_deferrable_red_blocks:
  assumes "ck \<in> set cks" and "co_tier ck = NonDeferrable" and "co_status ck = Red"
  shows "gd_result (decide cks dfs nonce_ok) \<noteq> GateGreen \<and>
     co_name ck \<in> set (gd_refused (decide cks dfs nonce_ok)) \<and>
     (\<exists>r \<in> set (gd_records (decide cks dfs nonce_ok)). cr_name r = co_name ck \<and> \<not> cr_deferred r)"
proof -
  have p: "\<not> passes dfs nonce_ok ck" "\<not> deferred_red dfs nonce_ok ck"
    using assms by (simp_all add: passes_def deferred_red_def)
  then have "to_record dfs nonce_ok ck \<in> set (gd_records (decide cks dfs nonce_ok))"
    "cr_name (to_record dfs nonce_ok ck) = co_name ck" "\<not> cr_deferred (to_record dfs nonce_ok ck)"
    using assms(1) by (simp_all add: decide_parts to_record_def)
  moreover have "gd_result (decide cks dfs nonce_ok) \<noteq> GateGreen"
    using p assms(1) by (auto simp: decide_result list_all_iff)
  moreover have "co_name ck \<in> set (gd_refused (decide cks dfs nonce_ok))"
    using p assms(1) by (auto simp: decide_parts)
  ultimately show ?thesis by blast
qed

text \<open>
  A throttled read is a re-run, whatever the other outcomes and deferrals: the verdict is neither
  green nor refused.
\<close>

theorem throttle_is_never_terminal:
  "gd_result (decide (run_checks x) dfs nonce_ok) = GateThrottled \<longleftrightarrow>
     dc_flat x = ProbeThrottled \<or> dc_stranded x = ProbeThrottled"
  by (simp add: decide_result run_checks_def gate_passes)

theorem non_deferrable_red_blocks_witness:
  "gd_result (decide [outcome ''kill_switch'' NonDeferrable Red ''engaged''] [''kill_switch''] True) \<noteq> GateGreen"
  using non_deferrable_red_blocks [of "outcome ''kill_switch'' NonDeferrable Red ''engaged''"
      "[outcome ''kill_switch'' NonDeferrable Red ''engaged'']" "[''kill_switch'']" True]
  by simp

text \<open>
  The nonce is accepted exactly in a window of eleven minutes: at most ten minutes old, at most one
  minute ahead.
\<close>

theorem nonce_window:
  assumes "0 \<le> now" and "now \<le> 2 ^ 62"
  shows "authorize \<lparr>og_marker = m, og_nonce = n, og_now = now\<rparr> act = Inr () \<longleftrightarrow>
     m = None \<and> (\<exists>raw i. n = Some raw \<and> parse_i64 (trim raw) = Some i \<and> now - 600 \<le> i \<and> i \<le> now + 60)"
  using validate_nonce_ok [OF assms]
  by (auto simp: authorize_def split: option.splits)

theorem nonce_window_witness:
  "authorize \<lparr>og_marker = None, og_nonce = Some (show_nat 1000), og_now = 1200\<rparr> ''defer'' = Inr () \<and>
   authorize \<lparr>og_marker = None, og_nonce = Some (show_nat 1000), og_now = 1601\<rparr> ''defer'' \<noteq> Inr ()"
  using nonce_window [of 1200 None "Some (show_nat 1000)" "''defer''"]
    nonce_window [of 1601 None "Some (show_nat 1000)" "''defer''"]
    parse_i64_show_nat [of 1000]
  by (simp add: i64_max_def)

text \<open>The window is closed at both ends: the whole minute of 15:30 is inside it.\<close>

theorem close_minute_is_inside: "in_time_window 0 \<and> in_time_window 23459 \<and> \<not> in_time_window 23460"
  by (simp add: in_time_window_def kst_minute_def)

end
