(* ===== verification/Live_Mount.thy ===== *)
theory Live_Mount
  imports Dispatch_Gate
begin

text \<open>
  The operator actions of \<open>adapters/nautilus/lab/src/runner/live\<close> on the dispatch chain: registering
  it, mounting a session behind a green dispatch (\<open>mount.rs\<close>), and clearing the persisted kill switch
  (\<open>shared.rs\<close>). The world is the chain's directory and the locks of the catalog directory; the UTC
  stamp that starts a run id is a function of the instant.
\<close>

record live_world =
  lw_store :: dispatch_store
  lw_catalog :: "string set"

record mount_config =
  mc_requested :: nat
  mc_lane_hash :: string
  mc_trading_env :: string
  mc_fraction :: f64
  mc_nonce :: "string option"
  mc_now :: int
  mc_attended :: "bool option"

record mount_authorization =
  ma_run_id :: string
  ma_dispatch :: string
  ma_chain_rung :: nat
  ma_effective_rung :: nat
  ma_fraction :: f64
  ma_lane_hash :: string
  ma_trading_env :: string

record dispatch_link =
  dl_dispatch_id :: string
  dl_rung :: nat
  dl_fraction :: f64
  dl_lane :: string
  dl_trading_env :: string

definition dispatch_link_of :: "mount_authorization \<Rightarrow> dispatch_link" where
  "dispatch_link_of a =
     \<lparr>dl_dispatch_id = ma_dispatch a, dl_rung = ma_effective_rung a, dl_fraction = ma_fraction a,
      dl_lane = ma_lane_hash a, dl_trading_env = ma_trading_env a\<rparr>"

definition live_run_id :: "(int \<Rightarrow> string) \<Rightarrow> int \<Rightarrow> string \<Rightarrow> nat \<Rightarrow> string" where
  "live_run_id stamp now sid ver = stamp now @ ''-live-'' @ sid @ ''-v'' @ show_nat ver"

definition live_guard :: "string set \<Rightarrow> (string + unit) \<times> string set" where
  "live_guard cat =
     (case lock_acquire cat LiveLock of
        (Inl e, cat') \<Rightarrow> (Inl (''live session refused - ingest in progress: '' @ e), cat')
      | (Inr u, cat') \<Rightarrow> (Inr u, cat'))"

definition operator_marker :: "process_env \<Rightarrow> bool option \<Rightarrow> string option" where
  "operator_marker pe attended =
     (case attended of
        Some True \<Rightarrow> None
      | Some False \<Rightarrow> Some ''forced unattended''
      | None \<Rightarrow> detect_unattended_marker pe)"

definition authorize_mount ::
    "chain_codec \<Rightarrow> (int \<Rightarrow> string) \<Rightarrow> process_env \<Rightarrow> mount_config \<Rightarrow> string \<Rightarrow> nat \<Rightarrow> live_world \<Rightarrow>
       (string + mount_authorization) \<times> live_world" where
  "authorize_mount c stamp pe cfg sid ver w =
     (case authorize \<lparr>og_marker = operator_marker pe (mc_attended cfg), og_nonce = mc_nonce cfg,
         og_now = mc_now cfg\<rparr> ''live mount'' of
        Inl e \<Rightarrow> (Inl e, w)
      | Inr _ \<Rightarrow>
          (let now = mc_now cfg; today = cd_kst c now; state = chain_load c (lw_store w)
           in case mount_authz state today of
               Consumed \<Rightarrow> (Inl ''mount refused: the latest green dispatch is already consumed'', w)
             | Expired \<Rightarrow> (Inl ''mount refused: the latest green dispatch is from a previous KST trading day'', w)
             | NoAuthz \<Rightarrow> (Inl ''mount refused: no green dispatch available to mount'', w)
             | Ready i chain_rung effective_rung \<Rightarrow>
                 if effective_rung < mc_requested cfg
                 then (Inl ''mount refused: requested rung exceeds the authorized effective rung'', w)
                 else
                   (case live_guard (lw_catalog w) of
                      (Inl e, _) \<Rightarrow> (Inl e, w)
                    | (Inr _, cat) \<Rightarrow>
                        (let rid = live_run_id stamp now sid ver
                         in case chain_append c now chain_rung effective_rung (cs_prereg state)
                             (Consumption \<lparr>cn_dispatch = i, cn_run_id = Some rid\<rparr>) (lw_store w) of
                             (Inl e, st) \<Rightarrow>
                               (Inl e, \<lparr>lw_store = st, lw_catalog = lock_release cat LiveLock\<rparr>)
                           | (Inr _, st) \<Rightarrow>
                               (Inr \<lparr>ma_run_id = rid, ma_dispatch = i, ma_chain_rung = chain_rung,
                                  ma_effective_rung = effective_rung, ma_fraction = mc_fraction cfg,
                                  ma_lane_hash = mc_lane_hash cfg, ma_trading_env = mc_trading_env cfg\<rparr>,
                                \<lparr>lw_store = st, lw_catalog = cat\<rparr>)))))"

definition run_genesis ::
    "chain_codec \<Rightarrow> process_env \<Rightarrow> string option \<Rightarrow> int \<Rightarrow> dispatch_store \<Rightarrow>
       (string + chain_record) \<times> dispatch_store" where
  "run_genesis c pe nonce now st =
     (case authorize \<lparr>og_marker = detect_unattended_marker pe, og_nonce = nonce, og_now = now\<rparr>
         ''chain genesis registration'' of
        Inl e \<Rightarrow> (Inl e, st)
      | Inr _ \<Rightarrow>
          (case cs_status (chain_load c st) of
             NoChain \<Rightarrow> chain_append c now 1 1 None Genesis st
           | Valid \<Rightarrow> (Inl ''chain already registered'', st)
           | Defective why \<Rightarrow> (Inl (''chain is defective ('' @ why @ '')''), st)))"

text \<open>\<open>ChainTripSink::record_trip\<close>: the one writer of safety-trip records.\<close>

definition record_trip ::
    "chain_codec \<Rightarrow> nat \<Rightarrow> safety_trip_kind \<Rightarrow> trip_action \<Rightarrow> string option \<Rightarrow> string \<Rightarrow> int \<Rightarrow>
       dispatch_store \<Rightarrow> (string + unit) \<times> dispatch_store" where
  "record_trip c rung kind act run_id detail now st =
     (case chain_append c now rung rung None
         (SafetyTrip \<lparr>st_trip = kind, st_action = act, st_run_id = run_id, st_detail = detail\<rparr>) st of
        (Inl e, st') \<Rightarrow> (Inl e, st')
      | (Inr _, st') \<Rightarrow> (Inr (), st'))"

definition record_safety_trip ::
    "chain_codec \<Rightarrow> safety_trip_kind \<Rightarrow> string option \<Rightarrow> string \<Rightarrow> int \<Rightarrow> nat \<Rightarrow>
       dispatch_store \<Rightarrow> (string + unit) \<times> dispatch_store" where
  "record_safety_trip c kind run_id detail now rung st =
     record_trip c rung kind Engage run_id detail now st"

definition clear_kill_switch ::
    "chain_codec \<Rightarrow> operator_gate \<Rightarrow> string \<Rightarrow> int \<Rightarrow> nat \<Rightarrow> dispatch_store \<Rightarrow>
       (string + unit) \<times> dispatch_store" where
  "clear_kill_switch c g reason now rung st =
     (case authorize g ''kill-switch clear'' of
        Inl e \<Rightarrow> (Inl e, st)
      | Inr _ \<Rightarrow>
          (case chain_append c now rung rung None
              (SafetyTrip \<lparr>st_trip = KillSwitch, st_action = trip_action.Clear, st_run_id = None,
                 st_detail = scrub_secrets reason\<rparr>) st of
             (Inl e, st') \<Rightarrow> (Inl e, st')
           | (Inr _, st') \<Rightarrow> (Inr (), st')))"

section \<open>Mounting\<close>

lemma valid_epoch:
  assumes "cs_status (chain_load c st) = Valid" and "whole_lines (file_text st)"
  obtains rs where "holds_epoch c st rs" "rs \<noteq> []" "chain_load c st = walk rs"
proof -
  from assms(1) obtain ls rs where "raw_lines st = Inr ls" "ls \<noteq> []" "parse_all c 0 ls = Inr rs"
    "verify_links c 0 None rs = None" "chain_load c st = walk rs"
    by (auto simp: chain_load_def suspended_def split: sum.splits if_splits option.splits)
  then have "holds_epoch c st rs" "rs \<noteq> []" "chain_load c st = walk rs"
    using assms(2) parse_all_length [of c 0 ls rs] by (auto simp: holds_epoch_def)
  then show thesis by (rule that)
qed

lemma loaded_walks: "chain_load c st = walk (cs_records (chain_load c st)) \<or> cs_rung (chain_load c st) = 0"
  by (auto simp: chain_load_def suspended_def split: sum.splits option.splits)

lemma loaded_epoch:
  assumes "0 < cs_rung (chain_load c st)" and "whole_lines (file_text st)"
  obtains rs where "holds_epoch c st rs" "rs \<noteq> []" "chain_load c st = walk rs"
proof -
  have "cs_status (chain_load c st) = Valid" using loaded_walks [of c st] assms(1) by (metis less_irrefl walk_status)
  from valid_epoch [OF this assms(2)] that show thesis by blast
qed

lemma mount_authz_rung: "mount_authz s d = Ready i cr er \<Longrightarrow> 0 < cs_rung s"
  by (simp add: mount_authz_def split: if_splits)

lemma live_guard_ok:
  "live_guard cat = (Inr u, cat') \<Longrightarrow>
     lock_filename IngestLock \<notin> cat \<and> lock_filename LiveLock \<notin> cat \<and> cat' = insert (lock_filename LiveLock) cat"
  by (auto simp: live_guard_def lock_acquire_def check_counterpart_def create_new_def is_held_def
      split: sum.splits if_splits prod.splits)

lemma authorize_mount_ok:
  assumes "authorize_mount c stamp pe cfg sid ver w = (Inr a, w')"
  obtains rec cat where
    "authorize \<lparr>og_marker = operator_marker pe (mc_attended cfg), og_nonce = mc_nonce cfg,
       og_now = mc_now cfg\<rparr> ''live mount'' = Inr ()"
    "mount_authz (chain_load c (lw_store w)) (cd_kst c (mc_now cfg)) =
       Ready (ma_dispatch a) (ma_chain_rung a) (ma_effective_rung a)"
    "mc_requested cfg \<le> ma_effective_rung a"
    "live_guard (lw_catalog w) = (Inr (), cat)" "lw_catalog w' = cat"
    "chain_append c (mc_now cfg) (ma_chain_rung a) (ma_effective_rung a)
       (cs_prereg (chain_load c (lw_store w)))
       (Consumption \<lparr>cn_dispatch = ma_dispatch a, cn_run_id = Some (ma_run_id a)\<rparr>) (lw_store w) =
       (Inr rec, lw_store w')"
proof -
  let ?s = "chain_load c (lw_store w)"
  have nonce: "authorize \<lparr>og_marker = operator_marker pe (mc_attended cfg), og_nonce = mc_nonce cfg,
      og_now = mc_now cfg\<rparr> ''live mount'' = Inr ()"
    using assms by (cases "authorize \<lparr>og_marker = operator_marker pe (mc_attended cfg), og_nonce = mc_nonce cfg,
      og_now = mc_now cfg\<rparr> ''live mount''") (simp_all add: authorize_mount_def)
  note m = assms [unfolded authorize_mount_def Let_def nonce sum.case]
  obtain i cr er where ready: "mount_authz ?s (cd_kst c (mc_now cfg)) = Ready i cr er"
    using m by (cases "mount_authz ?s (cd_kst c (mc_now cfg))") simp_all
  note m = m [unfolded ready mount_authz.case]
  have rung: "mc_requested cfg \<le> er" using m by (cases "er < mc_requested cfg") simp_all
  obtain u cat where lock: "live_guard (lw_catalog w) = (u, cat)" by (cases "live_guard (lw_catalog w)")
  then obtain x where u: "u = Inr x" using m rung by (cases u) simp_all
  let ?k = "Consumption \<lparr>cn_dispatch = i, cn_run_id = Some (live_run_id stamp (mc_now cfg) sid ver)\<rparr>"
  obtain q st where app: "chain_append c (mc_now cfg) cr er (cs_prereg ?s) ?k (lw_store w) = (q, st)"
    by (cases "chain_append c (mc_now cfg) cr er (cs_prereg ?s) ?k (lw_store w)")
  then obtain rec where q: "q = Inr rec" using m rung lock u by (cases q) simp_all
  have a: "a = \<lparr>ma_run_id = live_run_id stamp (mc_now cfg) sid ver, ma_dispatch = i, ma_chain_rung = cr,
      ma_effective_rung = er, ma_fraction = mc_fraction cfg, ma_lane_hash = mc_lane_hash cfg,
      ma_trading_env = mc_trading_env cfg\<rparr>" and w': "w' = \<lparr>lw_store = st, lw_catalog = cat\<rparr>"
    using m rung lock u app q by simp_all
  show thesis
    by (rule that [of cat rec]) (simp_all add: nonce ready rung lock u app q a w')
qed

text \<open>
  A mount that succeeds was attended and freshly confirmed, sits behind a green, unconsumed dispatch
  of the same day at no more than its effective rung, and holds the live lock with no ingest running.
\<close>

theorem mount_is_authorized:
  assumes "authorize_mount c stamp pe cfg sid ver w = (Inr a, w')"
  shows "authorize \<lparr>og_marker = operator_marker pe (mc_attended cfg), og_nonce = mc_nonce cfg,
       og_now = mc_now cfg\<rparr> ''live mount'' = Inr () \<and>
     mount_authz (chain_load c (lw_store w)) (cd_kst c (mc_now cfg)) =
       Ready (ma_dispatch a) (ma_chain_rung a) (ma_effective_rung a) \<and>
     mc_requested cfg \<le> ma_effective_rung a \<and> 0 < cs_rung (chain_load c (lw_store w)) \<and>
     lock_filename LiveLock \<in> lw_catalog w' \<and> lock_filename IngestLock \<notin> lw_catalog w'"
proof (rule authorize_mount_ok [OF assms], goal_cases)
  case (1 rec cat)
  from mount_authz_rung [OF 1(2)] live_guard_ok [OF 1(4)] 1 show ?case by simp
qed

lemma can_mount_refused:
  assumes "\<not> can_mount (chain_load c (lw_store w)) (cd_kst c (mc_now cfg))"
  shows "\<exists>e. authorize_mount c stamp pe cfg sid ver w = (Inl e, w)"
  using assms
  by (auto simp: authorize_mount_def can_mount_def Let_def split: sum.split mount_authz.split)

text \<open>
  A later chain holds no new dispatch when it is the earlier one with records appended, or a new epoch,
  and none of the records added is a dispatch.
\<close>

definition no_new_dispatch :: "chain_codec \<Rightarrow> dispatch_store \<Rightarrow> dispatch_store \<Rightarrow> bool" where
  "no_new_dispatch c st st2 \<longleftrightarrow>
     (\<exists>later. list_all (\<lambda>r. \<forall>sd. rb_kind (ch_body r) \<noteq> SessionDispatch sd) later \<and>
        cs_records (chain_load c st2) \<in> {cs_records (chain_load c st) @ later, later})"

lemma not_dispatch: "(\<forall>sd. rb_kind (ch_body r) \<noteq> SessionDispatch sd) \<longleftrightarrow> \<not> is_dispatch r"
  by (simp add: is_dispatch_def split: record_kind.split)

lemma walk_no_dispatch: "list_all (\<lambda>r. \<not> is_dispatch r) rs \<Longrightarrow> cs_last (walk rs) = None"
proof (induction rs rule: rev_induct)
  case Nil
  then show ?case by (simp add: walk_def suspended_def)
next
  case (snoc r rs)
  then show ?case
    by (auto simp: walk_snoc walk_step_def is_dispatch_def Let_def split: record_kind.splits)
qed

lemma consumed_stays:
  assumes "no_new_dispatch c st st2" and "chain_load c st = walk (rs @ [r])"
    and "cs_last (walk rs) = Some l" and "\<not> is_dispatch r" and "consumes (ld_id l) r"
  shows "\<not> can_mount (chain_load c st2) day"
proof (cases "cs_rung (chain_load c st2) = 0")
  case False
  let ?rs2 = "cs_records (chain_load c st2)"
  have load: "chain_load c st2 = walk ?rs2" using False loaded_walks [of c st2] by auto
  obtain later where later: "list_all (\<lambda>r. \<not> is_dispatch r) later" "?rs2 \<in> {(rs @ [r]) @ later, later}"
    using assms(1) unfolding no_new_dispatch_def assms(2) not_dispatch walk_records by blast
  from walk_last [of "r # later", OF _ assms(3)] later(1) assms(4,5) obtain l' where
    "cs_last (walk (rs @ r # later)) = Some l'" "ld_consumed l'" by auto
  then have "\<not> can_mount (walk (rs @ r # later)) day" by (simp add: can_mount_def mount_authz_def)
  moreover have "\<not> can_mount (walk later) day"
    using walk_no_dispatch [OF later(1)] by (simp add: can_mount_def mount_authz_def)
  ultimately have "\<not> can_mount (walk ?rs2) day" using later(2) by auto
  then show ?thesis by (subst load)
qed (simp add: can_mount_def mount_authz_def)

text \<open>
  C20. One dispatch, one session: once a mount has succeeded, every other attempt is refused without a
  trace, whoever makes it, on whatever day, with whatever locks, and whatever is done to the chain in
  between, trips, clears, ladder moves, even a new epoch, until a new dispatch is recorded on it.
\<close>

theorem mount_is_single_use:
  assumes "authorize_mount c stamp pe cfg sid ver w = (Inr a, w')"
    and "whole_lines (file_text (lw_store w))" and "ds_locks (lw_store w) = {}"
    and "\<And>rs. chain_load c (lw_store w) = walk rs \<Longrightarrow>
      codec_ok c (appended c (mc_now cfg) (ma_chain_rung a) (ma_effective_rung a)
        (cs_prereg (walk rs)) (Consumption \<lparr>cn_dispatch = ma_dispatch a, cn_run_id = Some (ma_run_id a)\<rparr>) rs)"
    and "no_new_dispatch c (lw_store w') (lw_store w2)"
  shows "\<exists>e. authorize_mount c stamp' pe' cfg' sid' ver' w2 = (Inl e, w2)"
proof (rule authorize_mount_ok [OF assms(1)], goal_cases)
  case (1 rec cat)
  from loaded_epoch [OF mount_authz_rung [OF 1(2)] assms(2)] obtain rs where rs: "holds_epoch c (lw_store w) rs" "rs \<noteq> []"
    "chain_load c (lw_store w) = walk rs" by blast
  let ?k = "Consumption \<lparr>cn_dispatch = ma_dispatch a, cn_run_id = Some (ma_run_id a)\<rparr>"
  let ?r = "appended c (mc_now cfg) (ma_chain_rung a) (ma_effective_rung a) (cs_prereg (walk rs)) ?k rs"
  from append_epoch [OF rs(1) assms(3) _ assms(4) [OF rs(3)]] rs(2) obtain st' where
    "chain_append c (mc_now cfg) (ma_chain_rung a) (ma_effective_rung a) (cs_prereg (walk rs)) ?k (lw_store w) =
       (Inr ?r, st')" "holds_epoch c st' (rs @ [?r])" by blast
  with 1(6) rs(3) have "holds_epoch c (lw_store w') (rs @ [?r])" by simp
  then have load: "chain_load c (lw_store w') = walk (rs @ [?r])" using load_epoch by simp
  from 1(2) rs(3) obtain l where l: "cs_last (walk rs) = Some l" "ld_id l = ma_dispatch a"
    by (auto simp: mount_authz_def split: if_splits option.splits)
  have "\<not> is_dispatch ?r" "consumes (ld_id l) ?r"
    by (simp_all add: is_dispatch_def consumes_def appended_def sealed_def l(2))
  from consumed_stays [OF assms(5) load l(1) this] show ?case by (rule can_mount_refused)
qed

section \<open>The kill switch\<close>

lemma walk_kill_snoc:
  "cs_kill (walk (rs @ [r])) =
     (case rb_kind (ch_body r) of
        SafetyTrip t \<Rightarrow> if st_trip t = KillSwitch then st_action t = Engage else cs_kill (walk rs)
      | _ \<Rightarrow> cs_kill (walk rs))"
  by (simp add: walk_snoc walk_step_def Let_def split: record_kind.split option.split)

lemma append_trip_epoch:
  assumes "holds_epoch c st rs" and "rs \<noteq> []" and "ds_locks st = {}"
    and "codec_ok c (appended c now rung rung None
      (SafetyTrip \<lparr>st_trip = kind, st_action = act, st_run_id = rid, st_detail = d\<rparr>) rs)"
  shows "\<exists>st' r. chain_append c now rung rung None
      (SafetyTrip \<lparr>st_trip = kind, st_action = act, st_run_id = rid, st_detail = d\<rparr>) st = (Inr r, st') \<and>
     holds_epoch c st' (rs @ [r]) \<and> ds_locks st' = {} \<and>
     rb_kind (ch_body r) = SafetyTrip \<lparr>st_trip = kind, st_action = act, st_run_id = rid,
       st_detail = scrub_secrets d\<rparr>"
proof -
  let ?r = "appended c now rung rung None
      (SafetyTrip \<lparr>st_trip = kind, st_action = act, st_run_id = rid, st_detail = d\<rparr>) rs"
  have "rb_kind (ch_body ?r) = SafetyTrip \<lparr>st_trip = kind, st_action = act, st_run_id = rid,
       st_detail = scrub_secrets d\<rparr>"
    by (simp add: appended_def sealed_def)
  with append_epoch [OF assms(1,3) disjI1 [OF assms(2)] assms(4)] show ?thesis by blast
qed

lemma kill_after_trip:
  assumes "holds_epoch c st (rs @ [r])"
    and "rb_kind (ch_body r) = SafetyTrip \<lparr>st_trip = KillSwitch, st_action = act, st_run_id = rid, st_detail = d\<rparr>"
  shows "cs_kill (chain_load c st) \<longleftrightarrow> act = Engage"
  using load_epoch [OF assms(1)] assms(2) by (simp add: walk_kill_snoc)

text \<open>
  Only an operator releases the kill switch: with an accepted nonce the clear is recorded and every
  later load reads the switch released; without one the chain is not touched.
\<close>

theorem clear_needs_operator:
  assumes "holds_epoch c st rs" and "rs \<noteq> []" and "ds_locks st = {}"
    and "codec_ok c (appended c now rung rung None (SafetyTrip \<lparr>st_trip = KillSwitch,
      st_action = trip_action.Clear, st_run_id = None, st_detail = scrub_secrets reason\<rparr>) rs)"
  shows "\<exists>r st'. clear_kill_switch c g reason now rung st = (r, st') \<and>
     (if authorize g ''kill-switch clear'' = Inr () then r = Inr () \<and> \<not> cs_kill (chain_load c st')
      else (\<exists>e. r = Inl e) \<and> st' = st)"
proof -
  from append_trip_epoch [OF assms] obtain st' r where st':
    "chain_append c now rung rung None (SafetyTrip \<lparr>st_trip = KillSwitch,
      st_action = trip_action.Clear, st_run_id = None, st_detail = scrub_secrets reason\<rparr>) st = (Inr r, st')"
    "holds_epoch c st' (rs @ [r])"
    "rb_kind (ch_body r) = SafetyTrip \<lparr>st_trip = KillSwitch, st_action = trip_action.Clear,
      st_run_id = None, st_detail = scrub_secrets (scrub_secrets reason)\<rparr>" by blast
  have "\<not> cs_kill (chain_load c st')" using kill_after_trip [OF st'(2,3)] by simp
  with st'(1) show ?thesis
    by (cases "authorize g ''kill-switch clear''") (simp_all add: clear_kill_switch_def)
qed

text \<open>
  A chain is registered once: after a genesis that succeeded, a second one is refused and leaves the
  file as it is.
\<close>

theorem genesis_registers_once:
  assumes "run_genesis c pe nonce now st = (Inr r, st')" and "ds_file st = Absent" and "ds_locks st = {}"
    and "codec_ok c (appended c now 1 1 None Genesis [])"
  shows "cs_rung (chain_load c st') = 1 \<and> cs_records (chain_load c st') = [r] \<and>
     (\<exists>e. run_genesis c pe' nonce' now' st' = (Inl e, st'))"
proof -
  have "holds_epoch c st []"
    using assms(2) by (simp add: holds_epoch_def raw_lines_def file_text_def file_bytes_def whole_lines_def)
  from append_epoch [OF this assms(3) disjI2 assms(4)] obtain st1 where st1:
    "chain_append c now 1 1 None Genesis st = (Inr (appended c now 1 1 None Genesis []), st1)"
    "holds_epoch c st1 [appended c now 1 1 None Genesis []]"
    by (auto simp: opens_epoch_def)
  have "cs_status (chain_load c st) = NoChain"
    using assms(2) by (simp add: chain_load_def raw_lines_def suspended_def)
  with assms(1) st1(1) have st': "st' = st1" "r = appended c now 1 1 None Genesis []"
    by (simp_all add: run_genesis_def split: sum.splits)
  have load: "chain_load c st' = walk [r]" using load_epoch [OF st1(2)] st' by simp
  then have "cs_status (chain_load c st') = Valid" by simp
  then have "\<exists>e. run_genesis c pe' nonce' now' st' = (Inl e, st')"
    by (simp add: run_genesis_def split: sum.split)
  moreover have "cs_rung (walk [r]) = 1"
    by (simp add: walk_single walk_step_def st'(2) appended_def sealed_def Let_def RUNG_MIN_def)
  ultimately show ?thesis using load by simp
qed

section \<open>Instances\<close>

definition ex_mount :: chain_record where
  "ex_mount = ex_record ''2026-07-16-0002'' ''2026-07-16-0001'' 1
     (Consumption \<lparr>cn_dispatch = ''2026-07-16-0001'', cn_run_id = Some ''S-live-orb-v1''\<rparr>)"

definition ex_clear :: chain_record where
  "ex_clear = ex_record ''2026-07-16-0001'' ''2026-07-16-0000'' 1
     (SafetyTrip \<lparr>st_trip = KillSwitch, st_action = trip_action.Clear, st_run_id = None, st_detail = []\<rparr>)"

definition table_codec :: "chain_record list \<Rightarrow> chain_codec" where
  "table_codec rs = ex_codec\<lparr>cd_parse := map_of (map (\<lambda>r. (rb_id (ch_body r), r)) rs)\<rparr>"

definition attended_env :: process_env where
  "attended_env = \<lparr>pe_var = (\<lambda>_. None), pe_tty = True\<rparr>"

definition ex_config :: mount_config where
  "ex_config = \<lparr>mc_requested = 1, mc_lane_hash = [], mc_trading_env = ''live'', mc_fraction = Fin False 1 0,
     mc_nonce = Some (show_nat 1000), mc_now = 1000, mc_attended = None\<rparr>"

definition ex_world :: live_world where
  "ex_world = \<lparr>lw_store = ex_store (''2026-07-16-0000'' @ newline @ ''2026-07-16-0001'' @ newline), lw_catalog = {}\<rparr>"

lemma ex_nonce: "authorize \<lparr>og_marker = None, og_nonce = Some (show_nat 1000), og_now = 1000\<rparr> act = Inr ()"
  using validate_nonce_ok [of 1000 act "show_nat 1000"] parse_i64_show_nat [of 1000]
  by (simp add: authorize_def i64_max_def)

lemma ex_attended: "operator_marker attended_env None = None" "detect_unattended_marker attended_env = None"
  by (simp_all add: operator_marker_def detect_unattended_marker_def attended_env_def)

lemma ex_world_lines: "raw_lines (lw_store ex_world) = Inr [''2026-07-16-0000'', ''2026-07-16-0001'']"
  by (simp add: ex_world_def raw_lines_def ex_store_def str_lines_def strip_cr_def newline_def)

lemma ex_pad2 [simp]: "pad4 (Suc (Suc 0)) = ''0002''"
  by code_simp

lemma ex_world_load:
  "chain_load (table_codec [ex_genesis, ex_dispatch, ex_mount]) (lw_store ex_world) = walk [ex_genesis, ex_dispatch]"
  unfolding chain_load_def ex_world_lines
  by (simp add: table_codec_def ex_defs opens_epoch_def)

lemma ex_world_authz:
  "mount_authz (walk [ex_genesis, ex_dispatch]) ''2026-07-16'' = Ready ''2026-07-16-0001'' 1 1"
  by (simp add: walk_def walk_step_def ex_defs suspended_def RUNG_MIN_def mount_authz_def Let_def)

lemma ex_mount_appended:
  "appended (table_codec [ex_genesis, ex_dispatch, ex_mount]) 1000 1 1 None
     (Consumption \<lparr>cn_dispatch = ''2026-07-16-0001'', cn_run_id = Some ''S-live-orb-v1''\<rparr>)
     [ex_genesis, ex_dispatch] = ex_mount"
  by (simp add: appended_def table_codec_def ex_mount_def ex_defs)

lemma ex_trim2 [simp]: "trim ''2026-07-16-0002'' = ''2026-07-16-0002''"
  by (rule trim_plain) (auto simp: plain_char_def)

lemma ex_codecs:
  "codec_ok (table_codec [ex_genesis, ex_dispatch, ex_mount]) ex_mount"
  "codec_ok (table_codec [ex_genesis, ex_clear]) ex_clear"
  "codec_ok (table_codec [ex_genesis]) ex_genesis"
  by (simp_all add: codec_ok_def clean_line_def table_codec_def ex_mount_def ex_clear_def ex_defs)

lemma ex_world_epoch:
  "holds_epoch (table_codec [ex_genesis, ex_dispatch, ex_mount]) (lw_store ex_world) [ex_genesis, ex_dispatch]"
  unfolding holds_epoch_def ex_world_lines
  by (simp add: table_codec_def ex_defs opens_epoch_def whole_lines_def file_text_def file_bytes_def ex_world_def)

lemma ex_mounts:
  "\<exists>a w'. authorize_mount (table_codec [ex_genesis, ex_dispatch, ex_mount]) (\<lambda>_. ''S'') attended_env ex_config
     ''orb'' 1 ex_world = (Inr a, w') \<and> ma_dispatch a = ''2026-07-16-0001'' \<and> ma_run_id a = ''S-live-orb-v1'' \<and>
     ma_chain_rung a = 1 \<and> ma_effective_rung a = 1"
proof -
  let ?c = "table_codec [ex_genesis, ex_dispatch, ex_mount]"
  have pre: "cs_prereg (walk [ex_genesis, ex_dispatch]) = None"
    by (simp add: walk_def walk_step_def ex_defs suspended_def Let_def)
  have rid: "live_run_id (\<lambda>_. ''S'') 1000 ''orb'' 1 = ''S-live-orb-v1''" by code_simp
  have lock: "live_guard {} = (Inr (), {lock_filename LiveLock})"
    by (simp add: live_guard_def lock_acquire_def check_counterpart_def create_new_def is_held_def)
  from append_epoch [OF ex_world_epoch, of "Consumption \<lparr>cn_dispatch = ''2026-07-16-0001'', cn_run_id = Some ''S-live-orb-v1''\<rparr>"
      1000 1 1 None]
  obtain st' where app: "chain_append ?c 1000 1 1 None
      (Consumption \<lparr>cn_dispatch = ''2026-07-16-0001'', cn_run_id = Some ''S-live-orb-v1''\<rparr>) (lw_store ex_world) =
      (Inr ex_mount, st')"
    unfolding ex_mount_appended using ex_codecs(1) by (auto simp: ex_world_def ex_store_def)
  have kst: "cd_kst ?c 1000 = ''2026-07-16''" by (simp add: table_codec_def ex_codec_def)
  have cfg: "mc_now ex_config = 1000" "mc_nonce ex_config = Some (show_nat 1000)" "mc_attended ex_config = None"
    "mc_requested ex_config = 1" "lw_catalog ex_world = {}"
    by (simp_all add: ex_config_def ex_world_def)
  show ?thesis
    unfolding authorize_mount_def cfg ex_attended ex_nonce sum.case Let_def kst ex_world_load ex_world_authz
      mount_authz.case lock prod.case rid pre app
    by simp
qed

theorem mount_is_authorized_witness:
  "\<exists>a w'. authorize_mount (table_codec [ex_genesis, ex_dispatch, ex_mount]) (\<lambda>_. ''S'') attended_env ex_config
     ''orb'' 1 ex_world = (Inr a, w') \<and> lock_filename LiveLock \<in> lw_catalog w'"
  using ex_mounts mount_is_authorized by blast

theorem mount_is_single_use_witness:
  "\<exists>a w'. authorize_mount (table_codec [ex_genesis, ex_dispatch, ex_mount]) (\<lambda>_. ''S'') attended_env ex_config
     ''orb'' 1 ex_world = (Inr a, w') \<and>
     (\<exists>e. authorize_mount (table_codec [ex_genesis, ex_dispatch, ex_mount]) (\<lambda>_. ''T'') attended_env ex_config
       ''orb'' 1 (w'\<lparr>lw_catalog := {}\<rparr>) = (Inl e, w'\<lparr>lw_catalog := {}\<rparr>))"
proof -
  let ?c = "table_codec [ex_genesis, ex_dispatch, ex_mount]"
  from ex_mounts obtain a w' where a: "authorize_mount ?c (\<lambda>_. ''S'') attended_env ex_config ''orb'' 1 ex_world = (Inr a, w')"
    "ma_dispatch a = ''2026-07-16-0001''" "ma_run_id a = ''S-live-orb-v1''" "ma_chain_rung a = 1" "ma_effective_rung a = 1"
    by blast
  have "codec_ok ?c (appended ?c (mc_now ex_config) (ma_chain_rung a) (ma_effective_rung a) (cs_prereg (walk rs))
      (Consumption \<lparr>cn_dispatch = ma_dispatch a, cn_run_id = Some (ma_run_id a)\<rparr>) rs)"
    if "chain_load ?c (lw_store ex_world) = walk rs" for rs
  proof -
    from that ex_world_load have "cs_records (walk rs) = cs_records (walk [ex_genesis, ex_dispatch])" by simp
    then have rs: "rs = [ex_genesis, ex_dispatch]" by simp
    have "cs_prereg (walk rs) = None"
      unfolding rs by (simp add: walk_def walk_step_def ex_defs suspended_def Let_def)
    then show ?thesis
      using ex_codecs(1) ex_mount_appended by (simp add: rs a ex_config_def)
  qed
  moreover have "whole_lines (file_text (lw_store ex_world))" "ds_locks (lw_store ex_world) = {}"
    by (simp_all add: ex_world_def ex_store_def newline_def whole_lines_def file_text_def file_bytes_def)
  moreover have "no_new_dispatch ?c (lw_store w') (lw_store (w'\<lparr>lw_catalog := {}\<rparr>))"
    unfolding no_new_dispatch_def by (intro exI [of _ "[]"]) simp
  ultimately have "\<exists>e. authorize_mount ?c (\<lambda>_. ''T'') attended_env ex_config ''orb'' 1 (w'\<lparr>lw_catalog := {}\<rparr>) =
      (Inl e, w'\<lparr>lw_catalog := {}\<rparr>)"
    using mount_is_single_use [OF a(1), of "w'\<lparr>lw_catalog := {}\<rparr>" "\<lambda>_. ''T''" attended_env ex_config "''orb''" 1]
    by simp
  with a(1) show ?thesis by blast
qed

lemma ex_holds_table: "holds_epoch (table_codec [ex_genesis, ex_clear]) (ex_store (''2026-07-16-0000'' @ newline)) [ex_genesis]"
  unfolding holds_epoch_def ex_lines
  by (simp add: whole_lines_def file_text_def file_bytes_def ex_defs opens_epoch_def table_codec_def)

theorem clear_needs_operator_witness:
  "\<exists>st'. clear_kill_switch (table_codec [ex_genesis, ex_clear])
     \<lparr>og_marker = None, og_nonce = Some (show_nat 1000), og_now = 1000\<rparr> [] 1000 1
     (ex_store (''2026-07-16-0000'' @ newline)) = (Inr (), st') \<and> \<not> cs_kill (chain_load (table_codec [ex_genesis, ex_clear]) st')"
proof -
  have "appended (table_codec [ex_genesis, ex_clear]) 1000 1 1 None (SafetyTrip \<lparr>st_trip = KillSwitch,
      st_action = trip_action.Clear, st_run_id = None, st_detail = scrub_secrets []\<rparr>) [ex_genesis] = ex_clear"
    by (simp add: appended_def table_codec_def ex_clear_def ex_defs scrub_secrets_def flush_run_def)
  with ex_codecs(2) clear_needs_operator [OF ex_holds_table, of 1000 1 "[]"
      "\<lparr>og_marker = None, og_nonce = Some (show_nat 1000), og_now = 1000\<rparr>"] ex_nonce
  show ?thesis by (simp add: ex_store_def)
qed

theorem genesis_registers_once_witness:
  "\<exists>r st'. run_genesis (table_codec [ex_genesis]) attended_env (Some (show_nat 1000)) 1000
     \<lparr>ds_file = Absent, ds_archive = [], ds_locks = {}\<rparr> = (Inr r, st') \<and>
     (\<exists>e. run_genesis (table_codec [ex_genesis]) attended_env (Some (show_nat 1000)) 1000 st' = (Inl e, st'))"
proof -
  let ?c = "table_codec [ex_genesis]"
  let ?st = "\<lparr>ds_file = Absent, ds_archive = [], ds_locks = {}\<rparr>"
  have app: "appended ?c 1000 1 1 None Genesis [] = ex_genesis"
    by (simp add: appended_def table_codec_def ex_defs pad4_def show_nat.simps numeral_3_eq_3)
  have h: "holds_epoch ?c ?st []"
    by (simp add: holds_epoch_def raw_lines_def file_text_def file_bytes_def whole_lines_def)
  from append_epoch [OF h, of Genesis 1000 1 1 None, unfolded app, OF _ _ ex_codecs(3)] obtain st' where
    "chain_append ?c 1000 1 1 None Genesis ?st = (Inr ex_genesis, st')"
    by (auto simp: opens_epoch_def)
  then have run: "run_genesis ?c attended_env (Some (show_nat 1000)) 1000 ?st = (Inr ex_genesis, st')"
    by (simp add: run_genesis_def ex_attended ex_nonce chain_load_def raw_lines_def suspended_def)
  from genesis_registers_once [OF run] ex_codecs(3) app show ?thesis using run by auto
qed

end
