(* ===== verification/F64_Ops.thy ===== *)
theory F64_Ops
  imports F64
begin

text \<open>
  The arithmetic of \<open>f64\<close> the research lab uses: the exact result of the operation on the two
  dyadic numbers, rounded once. \<open>f64::max\<close> and \<open>f64::min\<close> prefer the operand that is a number.
\<close>

definition f64_zero :: f64 where "f64_zero = Fin False 0 0"

definition f64_is_nan :: "f64 \<Rightarrow> bool" where
  "f64_is_nan x = (x = NaN)"

definition f64_neg :: "f64 \<Rightarrow> f64" where
  "f64_neg x = (case x of NaN \<Rightarrow> NaN | Inf s \<Rightarrow> Inf (\<not> s) | Fin s m e \<Rightarrow> Fin (\<not> s) m e)"

definition f64_abs :: "f64 \<Rightarrow> f64" where
  "f64_abs x = (case x of NaN \<Rightarrow> NaN | Inf s \<Rightarrow> Inf False | Fin s m e \<Rightarrow> Fin False m e)"

text \<open>The mantissa of a finite value on the grid \<open>2 ^ g\<close>, for \<open>g\<close> at most its exponent.\<close>

definition on_grid :: "bool \<Rightarrow> nat \<Rightarrow> int \<Rightarrow> int \<Rightarrow> int" where
  "on_grid s m e g = (if s then - int m else int m) * 2 ^ nat (e - g)"

definition round_dyadic :: "bool \<Rightarrow> nat \<Rightarrow> int \<Rightarrow> f64" where
  "round_dyadic s n g = round_f64 s (n * 2 ^ nat g) (2 ^ nat (- g))"

definition f64_add :: "f64 \<Rightarrow> f64 \<Rightarrow> f64" where
  "f64_add x y =
     (case (x, y) of
        (NaN, _) \<Rightarrow> NaN
      | (_, NaN) \<Rightarrow> NaN
      | (Inf a, Inf b) \<Rightarrow> if a = b then Inf a else NaN
      | (Inf a, Fin _ _ _) \<Rightarrow> Inf a
      | (Fin _ _ _, Inf b) \<Rightarrow> Inf b
      | (Fin a m e, Fin b n f) \<Rightarrow>
          (let g = min e f; t = on_grid a m e g + on_grid b n f g
           in if t = 0 then Fin (a \<and> b) 0 0 else round_dyadic (t < 0) (nat \<bar>t\<bar>) g))"

definition f64_sub :: "f64 \<Rightarrow> f64 \<Rightarrow> f64" where
  "f64_sub x y = f64_add x (f64_neg y)"

definition f64_mul :: "f64 \<Rightarrow> f64 \<Rightarrow> f64" where
  "f64_mul x y =
     (case (x, y) of
        (NaN, _) \<Rightarrow> NaN
      | (_, NaN) \<Rightarrow> NaN
      | (Inf a, Inf b) \<Rightarrow> Inf (a \<noteq> b)
      | (Inf a, Fin b n _) \<Rightarrow> if n = 0 then NaN else Inf (a \<noteq> b)
      | (Fin a m _, Inf b) \<Rightarrow> if m = 0 then NaN else Inf (a \<noteq> b)
      | (Fin a m e, Fin b n f) \<Rightarrow> round_dyadic (a \<noteq> b) (m * n) (e + f))"

definition f64_div :: "f64 \<Rightarrow> f64 \<Rightarrow> f64" where
  "f64_div x y =
     (case (x, y) of
        (NaN, _) \<Rightarrow> NaN
      | (_, NaN) \<Rightarrow> NaN
      | (Inf a, Inf b) \<Rightarrow> NaN
      | (Inf a, Fin b _ _) \<Rightarrow> Inf (a \<noteq> b)
      | (Fin a _ _, Inf b) \<Rightarrow> Fin (a \<noteq> b) 0 0
      | (Fin a m e, Fin b n f) \<Rightarrow>
          if n = 0 then (if m = 0 then NaN else Inf (a \<noteq> b))
          else round_f64 (a \<noteq> b) (m * 2 ^ nat (e - f)) (n * 2 ^ nat (f - e)))"

text \<open>\<open>x <= y\<close>, false when either is not a number; \<open>==\<close> identifies the two zeros.\<close>

definition f64_le :: "f64 \<Rightarrow> f64 \<Rightarrow> bool" where
  "f64_le x y = (\<not> f64_is_nan x \<and> \<not> f64_is_nan y \<and> \<not> f64_less y x)"

definition f64_eq :: "f64 \<Rightarrow> f64 \<Rightarrow> bool" where
  "f64_eq x y = (f64_le x y \<and> f64_le y x)"

definition f64_max :: "f64 \<Rightarrow> f64 \<Rightarrow> f64" where
  "f64_max x y = (if f64_is_nan x then y else if f64_is_nan y then x else if f64_less x y then y else x)"

definition f64_min :: "f64 \<Rightarrow> f64 \<Rightarrow> f64" where
  "f64_min x y = (if f64_is_nan x then y else if f64_is_nan y then x else if f64_less y x then y else x)"

text \<open>\<open>Iterator::sum\<close> starts from negative zero.\<close>

definition f64_sum :: "f64 list \<Rightarrow> f64" where
  "f64_sum xs = foldl f64_add (Fin True 0 0) xs"

end
