(* ===== verification/Capital_Ladder.thy ===== *)
theory Capital_Ladder
  imports Live_Mount F64_Ops "HOL-Library.Char_ord" "HOL-Library.List_Lexorder"
begin

text \<open>
  The capital ladder of \<open>adapters/nautilus/lab/src/dispatch\<close>: the pre-registered values
  (\<open>prereg.rs\<close>), what a tracking report says (\<open>tracking.rs\<close>), the readiness reducer
  (\<open>readiness.rs\<close>), the scan for limit events, automatic de-escalation and the escalation against
  evidence (\<open>ladder.rs\<close>). The run registry is a record: the entries of the runs directory and, for
  a run id, what reading each artifact gives. Run ids are compared byte by byte, as \<open>str\<close> is.
\<close>

section \<open>Pre-registered values\<close>

record tracking_band =
  tb_max_slippage :: f64
  tb_max_approximated :: f64

record expectation_band =
  eb_min :: f64
  eb_max :: f64

record rung_spec =
  rs_rung :: nat
  rs_fraction :: "f64 option"
  rs_n :: "nat option"
  rs_tracking :: "tracking_band option"
  rs_expectation :: "expectation_band option"

record exceedance_thresholds =
  xt_reconcile :: "nat option"
  xt_deferrals :: "nat option"
  xt_gaps :: "nat option"

record head_change_rules =
  hc_params_rerun :: bool
  hc_code_resets :: bool

record pre_registration =
  pr_version :: nat
  pr_rungs :: "rung_spec list"
  pr_k :: "nat option"
  pr_exceedance :: exceedance_thresholds
  pr_heartbeat :: "nat option"
  pr_max_loss :: "f64 option"
  pr_rung0 :: "string option"
  pr_head_change :: head_change_rules

definition spec_of_rung :: "pre_registration \<Rightarrow> nat \<Rightarrow> rung_spec option" where
  "spec_of_rung p rung = find (\<lambda>r. rs_rung r = rung) (pr_rungs p)"

definition missing :: "string \<Rightarrow> nat \<Rightarrow> string" where
  "missing what rung = ''pre-registration missing rung '' @ show_nat rung @ '' '' @ what"

definition required :: "string \<Rightarrow> 'a option \<Rightarrow> string + 'a" where
  "required why v = (case v of Some x \<Rightarrow> Inr x | None \<Rightarrow> Inl why)"

definition rung_fraction :: "pre_registration \<Rightarrow> nat \<Rightarrow> string + f64" where
  "rung_fraction p rung =
     required (missing ''fraction'' rung) (Option.bind (spec_of_rung p rung) rs_fraction)"

definition n_for_rung :: "pre_registration \<Rightarrow> nat \<Rightarrow> string + nat" where
  "n_for_rung p rung = required (missing ''N'' rung) (Option.bind (spec_of_rung p rung) rs_n)"

definition tracking_band_for :: "pre_registration \<Rightarrow> nat \<Rightarrow> string + tracking_band option" where
  "tracking_band_for p rung =
     (if rung \<le> 1 then Inr None
      else case spec_of_rung p rung of
          None \<Rightarrow> Inl (''pre-registration has no rung '' @ show_nat rung @ '' spec'')
        | Some s \<Rightarrow>
            (case rs_tracking s of
               Some b \<Rightarrow> Inr (Some b)
             | None \<Rightarrow> Inl (missing ''tracking-error band'' rung)))"

definition expectation_band_for :: "pre_registration \<Rightarrow> nat \<Rightarrow> string + expectation_band" where
  "expectation_band_for p rung =
     required (missing ''expectation band'' rung) (Option.bind (spec_of_rung p rung) rs_expectation)"

definition heartbeat_interval_secs :: "pre_registration \<Rightarrow> string + nat" where
  "heartbeat_interval_secs p = required ''pre-registration missing heartbeat interval'' (pr_heartbeat p)"

definition session_max_loss_krw :: "pre_registration \<Rightarrow> string + f64" where
  "session_max_loss_krw p = required ''pre-registration missing session max-loss threshold'' (pr_max_loss p)"

definition k_window :: "pre_registration \<Rightarrow> string + nat" where
  "k_window p = required ''pre-registration missing readiness window K'' (pr_k p)"

section \<open>The run registry\<close>

datatype twin_status = Computed | ReportedNotLoadBearing | TwinFailed string | TwinPending string

fun produced :: "twin_status \<Rightarrow> bool" where
  "produced Computed = True"
| "produced ReportedNotLoadBearing = True"
| "produced (TwinFailed _) = False"
| "produced (TwinPending _) = False"

fun failed :: "twin_status \<Rightarrow> bool" where
  "failed (TwinFailed _) = True"
| "failed Computed = False"
| "failed ReportedNotLoadBearing = False"
| "failed (TwinPending _) = False"

record tracking_report =
  tr_status :: twin_status
  tr_max_abs_slippage :: f64
  tr_approximated_fraction :: f64

record data_quality =
  dq_reconcile_advised :: "(string \<times> string) list"
  dq_coverage_gaps :: "string list"
  dq_approximated_fills :: nat
  dq_teardown_retries :: "nat option"
  dq_dedup_hits :: "nat option"
  dq_hard_stopped :: "bool option"

record trade =
  td_realized_pnl :: f64
  td_ts_closed :: "string option"

record manifest =
  mf_strategy_id :: string
  mf_version :: nat
  mf_params :: string
  mf_code_hash :: string
  mf_dispatch :: "dispatch_link option"

record lab_home =
  lh_entries :: "(string \<times> bool) list"
  lh_manifest :: "string \<Rightarrow> manifest option"
  lh_dq :: "string \<Rightarrow> data_quality option"
  lh_perf :: "string \<Rightarrow> trade list option"
  lh_report :: "string \<Rightarrow> string + tracking_report option"

definition tmp_prefix :: string where "tmp_prefix = ''.tmp-''"

definition list_runs :: "lab_home \<Rightarrow> string list" where
  "list_runs h = sort (map fst (filter (\<lambda>(n, dir). dir \<and> \<not> starts_with n tmp_prefix) (lh_entries h)))"

definition aborted_runs :: "lab_home \<Rightarrow> string list" where
  "aborted_runs h = sort (map (drop (length tmp_prefix))
     (filter (\<lambda>n. starts_with n tmp_prefix) (map fst (lh_entries h))))"

definition is_live_lane :: "manifest \<Rightarrow> bool" where
  "is_live_lane m = (case mf_dispatch m of
     Some d \<Rightarrow> eq_ignore_case (dl_trading_env d) ''live'' | None \<Rightarrow> False)"

text \<open>The governed parameters are their JSON text; the hash of it is the digest of the chain.\<close>

definition governed_params_hash :: "chain_codec \<Rightarrow> string \<Rightarrow> string" where
  "governed_params_hash c params = cd_sha c params"

definition head_governed_params_pinned ::
    "string \<Rightarrow> string \<Rightarrow> string \<Rightarrow> lab_home \<Rightarrow> nat option \<Rightarrow> string" where
  "head_governed_params_pinned strategy_id code_hash default_params h expected =
     (let ms = List.map_filter (\<lambda>rid. case lh_manifest h rid of
              Some m \<Rightarrow>
                if mf_strategy_id m = strategy_id \<and> mf_code_hash m = code_hash \<and>
                   (case expected of None \<Rightarrow> True | Some v \<Rightarrow> mf_version m = v) then Some m else None
            | None \<Rightarrow> None) (list_runs h)
      in if ms = [] then default_params else mf_params (last ms))"

section \<open>The readiness reducer\<close>

record session_exceedance =
  sx_run_id :: string
  sx_reconcile :: nat
  sx_gaps :: nat
  sx_approximated :: nat
  sx_retries :: nat
  sx_dedup :: nat
  sx_twin_failed :: bool
  sx_hard_stopped :: bool
  sx_deferrals :: nat

record exceedance_catalog =
  xc_sessions :: "session_exceedance list"
  xc_aborted :: nat

definition catalog_sum :: "exceedance_catalog \<Rightarrow> (session_exceedance \<Rightarrow> nat) \<Rightarrow> nat" where
  "catalog_sum x f = sum_list (map f (xc_sessions x))"

definition qualifying_window :: "lab_home \<Rightarrow> nat \<Rightarrow> string list" where
  "qualifying_window h k =
     (let live = sort (filter (\<lambda>rid. case lh_manifest h rid of Some m \<Rightarrow> is_live_lane m | None \<Rightarrow> False) (list_runs h))
      in if k < length live then drop (length live - k) live else live)"

text \<open>A \<open>BTreeMap\<close> filled in chain order: the last record with an id wins.\<close>

definition deferrals_by_dispatch :: "chain_record list \<Rightarrow> string \<Rightarrow> nat option" where
  "deferrals_by_dispatch rs =
     fold (\<lambda>r m. case rb_kind (ch_body r) of
        SessionDispatch s \<Rightarrow> m(rb_id (ch_body r) \<mapsto> length (sd_deferrals s)) | _ \<Rightarrow> m) rs Map.empty"

definition consumed_run_ids :: "chain_record list \<Rightarrow> string set" where
  "consumed_run_ids rs = set (List.map_filter (\<lambda>r. case rb_kind (ch_body r) of
     Consumption n \<Rightarrow> cn_run_id n | _ \<Rightarrow> None) rs)"

definition opt_or :: "'a \<Rightarrow> 'a option \<Rightarrow> 'a" where
  "opt_or d v = (case v of Some x \<Rightarrow> x | None \<Rightarrow> d)"

definition exceedance_of :: "lab_home \<Rightarrow> (string \<Rightarrow> nat option) \<Rightarrow> string \<Rightarrow> manifest \<Rightarrow> session_exceedance" where
  "exceedance_of h deferrals rid m =
     (let dq = lh_dq h rid
      in \<lparr>sx_run_id = rid,
          sx_reconcile = (case dq of Some d \<Rightarrow> length (dq_reconcile_advised d) | None \<Rightarrow> 0),
          sx_gaps = (case dq of Some d \<Rightarrow> length (dq_coverage_gaps d) | None \<Rightarrow> 0),
          sx_approximated = (case dq of Some d \<Rightarrow> dq_approximated_fills d | None \<Rightarrow> 0),
          sx_retries = opt_or 0 (Option.bind dq dq_teardown_retries),
          sx_dedup = opt_or 0 (Option.bind dq dq_dedup_hits),
          sx_twin_failed = (case lh_report h rid of
             Inr (Some r) \<Rightarrow> failed (tr_status r) | Inr None \<Rightarrow> False | Inl _ \<Rightarrow> True),
          sx_hard_stopped = opt_or False (Option.bind dq dq_hard_stopped),
          sx_deferrals = opt_or 0 (Option.bind (mf_dispatch m) (\<lambda>d. deferrals (dl_dispatch_id d)))\<rparr>)"

definition build_catalog :: "lab_home \<Rightarrow> chain_record list \<Rightarrow> nat \<Rightarrow> exceedance_catalog" where
  "build_catalog h rs k =
     \<lparr>xc_sessions = List.map_filter (\<lambda>rid. case lh_manifest h rid of
          Some m \<Rightarrow> Some (exceedance_of h (deferrals_by_dispatch rs) rid m) | None \<Rightarrow> None) (qualifying_window h k),
      xc_aborted = length (filter (\<lambda>rid. rid \<in> consumed_run_ids rs) (aborted_runs h))\<rparr>"

definition over_limit :: "nat \<Rightarrow> nat option \<Rightarrow> bool" where
  "over_limit n limit = (case limit of Some l \<Rightarrow> l < n | None \<Rightarrow> False)"

definition readiness_verdict :: "exceedance_catalog \<Rightarrow> exceedance_thresholds \<Rightarrow> readiness" where
  "readiness_verdict x t =
     (if over_limit (catalog_sum x sx_reconcile) (xt_reconcile t) \<or>
         over_limit (catalog_sum x sx_deferrals) (xt_deferrals t) \<or>
         over_limit (catalog_sum x sx_gaps) (xt_gaps t) \<or>
         0 < xc_aborted x \<or>
         list_ex (\<lambda>s. 0 < sx_dedup s \<or> 1 < sx_retries s \<or> sx_twin_failed s \<or> sx_hard_stopped s) (xc_sessions x)
      then ReadinessRed else ReadinessGreen)"

definition compute_readiness ::
    "lab_home \<Rightarrow> chain_record list \<Rightarrow> pre_registration option \<Rightarrow> readiness \<times> exceedance_catalog" where
  "compute_readiness h rs prereg =
     (let empty = \<lparr>xc_sessions = [], xc_aborted = 0\<rparr>
      in case prereg of
          None \<Rightarrow> (NotEvaluated, empty)
        | Some p \<Rightarrow>
            (case k_window p of
               Inl _ \<Rightarrow> (NotEvaluated, empty)
             | Inr k \<Rightarrow>
                 (let x = build_catalog h rs k
                  in if length (xc_sessions x) < k then (NotEvaluated, x)
                     else (readiness_verdict x (pr_exceedance p), x))))"

definition readiness_debug :: "readiness \<Rightarrow> string" where
  "readiness_debug v = (case v of ReadinessGreen \<Rightarrow> ''Green'' | ReadinessRed \<Rightarrow> ''Red''
     | NotEvaluated \<Rightarrow> ''NotEvaluated'')"

definition readiness_summary :: "readiness \<Rightarrow> exceedance_catalog \<Rightarrow> string" where
  "readiness_summary v x =
     readiness_debug v @ '' over '' @ show_nat (length (xc_sessions x)) @
     '' live sessions (reconcile='' @ show_nat (catalog_sum x sx_reconcile) @
     '', deferrals='' @ show_nat (catalog_sum x sx_deferrals) @
     '', gaps='' @ show_nat (catalog_sum x sx_gaps) @
     '', dedup='' @ show_nat (length (filter (\<lambda>s. 0 < sx_dedup s) (xc_sessions x))) @
     '', retries>1='' @ show_nat (length (filter (\<lambda>s. 1 < sx_retries s) (xc_sessions x))) @
     '', twin_failed='' @ show_nat (length (filter sx_twin_failed (xc_sessions x))) @
     '', aborted='' @ show_nat (xc_aborted x) @ '')''"

section \<open>Limit events\<close>

record limit_event =
  le_run :: string
  le_kind :: string

definition event_label :: "limit_event \<Rightarrow> string" where
  "event_label e = le_run e @ '':'' @ le_kind e"

fun find_last_watermark :: "chain_record list \<Rightarrow> string" where
  "find_last_watermark [] = []"
| "find_last_watermark (r # rs) =
     (case rb_kind (ch_body r) of DeEscalation d \<Rightarrow> de_consumed_through d | _ \<Rightarrow> find_last_watermark rs)"

definition deescalation_watermark :: "chain_record list \<Rightarrow> string" where
  "deescalation_watermark rs = find_last_watermark (rev rs)"

definition event_if :: "bool \<Rightarrow> string \<Rightarrow> string \<Rightarrow> limit_event list" where
  "event_if b rid kind = (if b then [\<lparr>le_run = rid, le_kind = kind\<rparr>] else [])"

definition run_limit_events ::
    "lab_home \<Rightarrow> string \<Rightarrow> nat \<Rightarrow> pre_registration option \<Rightarrow> limit_event list" where
  "run_limit_events h rid rung prereg =
     (case lh_dq h rid of
        None \<Rightarrow> []
      | Some d \<Rightarrow>
          event_if (dq_reconcile_advised d \<noteq> []) rid ''reconcile_advised'' @
          event_if (0 < opt_or 0 (dq_dedup_hits d)) rid ''dedup_hit'' @
          event_if (1 < opt_or 0 (dq_teardown_retries d)) rid ''teardown_retries'' @
          event_if (opt_or False (dq_hard_stopped d)) rid ''hard_stop'') @
     (case prereg of
        None \<Rightarrow> []
      | Some p \<Rightarrow>
          (case tracking_band_for p rung of
             Inr (Some b) \<Rightarrow>
               (case lh_report h rid of
                  Inr (Some r) \<Rightarrow>
                    event_if (produced (tr_status r) \<and>
                      (f64_less (tb_max_slippage b) (tr_max_abs_slippage r) \<or>
                       f64_less (tb_max_approximated b) (tr_approximated_fraction r))) rid ''tracking_band_breach''
                | _ \<Rightarrow> [])
           | _ \<Rightarrow> []))"

definition trip_kind_name :: "safety_trip_kind \<Rightarrow> string" where
  "trip_kind_name k = (case k of Watchdog \<Rightarrow> ''watchdog_trip'' | Breaker \<Rightarrow> ''breaker_trip''
     | KillSwitch \<Rightarrow> ''kill_switch'')"

definition artifact_events ::
    "lab_home \<Rightarrow> string \<Rightarrow> pre_registration option \<Rightarrow> limit_event list" where
  "artifact_events h watermark prereg =
     concat (map (\<lambda>rid.
        if rid \<le> watermark then []
        else case lh_manifest h rid of
            None \<Rightarrow> []
          | Some m \<Rightarrow>
              if \<not> is_live_lane m then []
              else run_limit_events h rid (case mf_dispatch m of Some d \<Rightarrow> dl_rung d | None \<Rightarrow> 1) prereg)
       (list_runs h))"

definition trip_events :: "chain_record list \<Rightarrow> string \<Rightarrow> limit_event list" where
  "trip_events rs watermark =
     concat (map (\<lambda>r. case rb_kind (ch_body r) of
        SafetyTrip t \<Rightarrow>
          if st_action t \<noteq> Engage then []
          else (case st_run_id t of
                  None \<Rightarrow> []
                | Some rid \<Rightarrow> event_if (\<not> rid \<le> watermark) rid (trip_kind_name (st_trip t)))
      | _ \<Rightarrow> []) rs)"

definition residue_events :: "lab_home \<Rightarrow> chain_record list \<Rightarrow> string \<Rightarrow> limit_event list" where
  "residue_events h rs watermark =
     concat (map (\<lambda>rid. event_if (\<not> rid \<le> watermark \<and> rid \<in> consumed_run_ids rs) rid ''tmp_residue'') (aborted_runs h))"

definition scan_limit_events ::
    "lab_home \<Rightarrow> chain_record list \<Rightarrow> pre_registration option \<Rightarrow> limit_event list" where
  "scan_limit_events h rs prereg =
     (let w = deescalation_watermark rs
      in artifact_events h w prereg @ trip_events rs w @ residue_events h rs w)"

text \<open>The keys of \<open>sessions_with_events\<close>, a \<open>BTreeMap\<close> by run id, in its order.\<close>

definition sessions_with_events :: "limit_event list \<Rightarrow> string list" where
  "sessions_with_events evs = sort (remdups (map le_run evs))"

definition apply_deescalation ::
    "chain_codec \<Rightarrow> lab_home \<Rightarrow> pre_registration option \<Rightarrow> int \<Rightarrow> dispatch_store \<Rightarrow>
       (string + chain_record option) \<times> dispatch_store" where
  "apply_deescalation c h prereg now st =
     (let state = chain_load c st
      in if cs_rung state = 0 then (Inr None, st)
         else let events = scan_limit_events h (cs_records state) prereg
              in if events = [] then (Inr None, st)
                 else let by_run = sessions_with_events events;
                          steps = length by_run mod 256;
                          from_rung = cs_rung state;
                          to_rung = from_rung - steps
                      in (case chain_append c now to_rung to_rung (cs_prereg state)
                           (DeEscalation \<lparr>de_from_rung = from_rung, de_to_rung = to_rung,
                              de_events = map event_label events, de_consumed_through = last by_run\<rparr>) st of
                           (Inl e, st') \<Rightarrow> (Inl e, st')
                         | (Inr r, st') \<Rightarrow> (Inr (Some r), st')))"

section \<open>Escalation\<close>

datatype clean_verdict = Clean | ZeroTrades | NotEligible

definition closed_trade_count :: "lab_home \<Rightarrow> string \<Rightarrow> nat option" where
  "closed_trade_count h rid =
     map_option (\<lambda>ts. length (filter (\<lambda>t. td_ts_closed t \<noteq> None) ts)) (lh_perf h rid)"

definition find_dispatch :: "chain_record list \<Rightarrow> string \<Rightarrow> record_body option" where
  "find_dispatch rs i = map_option ch_body (find (\<lambda>r. is_dispatch r \<and> rb_id (ch_body r) = i) rs)"

definition tripped_in :: "chain_record list \<Rightarrow> string \<Rightarrow> bool" where
  "tripped_in rs rid = list_ex (\<lambda>r. case rb_kind (ch_body r) of
     SafetyTrip t \<Rightarrow> st_action t = Engage \<and> st_run_id t = Some rid | _ \<Rightarrow> False) rs"

definition clean_session_verdict ::
    "chain_codec \<Rightarrow> lab_home \<Rightarrow> chain_record list \<Rightarrow> string \<Rightarrow> nat \<Rightarrow> string \<Rightarrow> string \<Rightarrow>
       pre_registration option \<Rightarrow> clean_verdict" where
  "clean_session_verdict c h rs rid from_rung code_hash params_hash prereg =
     (case lh_manifest h rid of
        None \<Rightarrow> NotEligible
      | Some m \<Rightarrow>
          (case mf_dispatch m of
             None \<Rightarrow> NotEligible
           | Some link \<Rightarrow>
               if \<not> eq_ignore_case (dl_trading_env link) ''live'' then NotEligible
               else case find_dispatch rs (dl_dispatch_id link) of
                   None \<Rightarrow> NotEligible
                 | Some body \<Rightarrow>
                     if rb_chain_rung body \<noteq> from_rung \<or> rb_effective_rung body \<noteq> from_rung then NotEligible
                     else if mf_code_hash m \<noteq> code_hash \<or> governed_params_hash c (mf_params m) \<noteq> params_hash
                     then NotEligible
                     else if run_limit_events h rid from_rung prereg \<noteq> [] then NotEligible
                     else if tripped_in rs rid then NotEligible
                     else if 2 \<le> from_rung \<and> \<not> (case lh_report h rid of
                         Inr (Some r) \<Rightarrow> produced (tr_status r) | _ \<Rightarrow> False)
                     then NotEligible
                     else if opt_or 0 (closed_trade_count h rid) = 0 then ZeroTrades
                     else Clean))"

definition is_clean_session ::
    "chain_codec \<Rightarrow> lab_home \<Rightarrow> chain_record list \<Rightarrow> string \<Rightarrow> nat \<Rightarrow> string \<Rightarrow> string \<Rightarrow>
       pre_registration option \<Rightarrow> bool" where
  "is_clean_session c h rs rid from_rung code_hash params_hash prereg =
     (clean_session_verdict c h rs rid from_rung code_hash params_hash prereg = Clean)"

datatype escalation_check = EscReady nat "string list" | EscBlocked string

definition cumulative_pnl :: "lab_home \<Rightarrow> string list \<Rightarrow> f64" where
  "cumulative_pnl h rids = f64_sum (concat (map (\<lambda>ts. map td_realized_pnl ts) (List.map_filter (lh_perf h) rids)))"

definition verify_escalation ::
    "chain_codec \<Rightarrow> lab_home \<Rightarrow> chain_record list \<Rightarrow> nat \<Rightarrow> string \<Rightarrow> string \<Rightarrow> pre_registration \<Rightarrow>
       escalation_check" where
  "verify_escalation c h rs from_rung code_hash params_hash p =
     (if from_rung = 0 then EscBlocked ''rung 0 is suspended''
      else if RUNG_MAX \<le> from_rung then EscBlocked (''already at the top rung ('' @ show_nat RUNG_MAX @ '')'')
      else case n_for_rung p from_rung of
          Inl e \<Rightarrow> EscBlocked e
        | Inr n \<Rightarrow>
            if n = 0
            then EscBlocked (''pre-registered N for rung '' @ show_nat from_rung @ '' is 0'')
            else let verdict = (\<lambda>rid. clean_session_verdict c h rs rid from_rung code_hash params_hash (Some p));
                     clean = filter (\<lambda>rid. verdict rid = Clean) (list_runs h);
                     zero_trade = length (filter (\<lambda>rid. verdict rid = ZeroTrades) (list_runs h))
                 in if length clean < n
                    then EscBlocked (''escalation from rung '' @ show_nat from_rung @ '' needs '' @ show_nat n @
                      '' clean session(s) at the current head; found '' @ show_nat (length clean) @
                      '' (missing '' @ show_nat (n - length clean) @ '')'' @
                      (if 0 < zero_trade then ''; '' @ show_nat zero_trade @
                        '' otherwise-clean session(s) had zero closed trades and do not count'' else []))
                    else (case expectation_band_for p from_rung of
                        Inl e \<Rightarrow> EscBlocked e
                      | Inr band \<Rightarrow>
                          (let cum = cumulative_pnl h clean
                           in if f64_less cum (eb_min band) \<or> f64_less (eb_max band) cum
                              then EscBlocked (''cumulative P&L is outside the rung '' @ show_nat from_rung @
                                '' expectation band'')
                              else EscReady (from_rung + 1) clean)))"

definition run_escalation ::
    "chain_codec \<Rightarrow> string \<Rightarrow> string \<Rightarrow> string \<Rightarrow> lab_home \<Rightarrow> operator_gate \<Rightarrow> pre_registration \<Rightarrow>
       nat option \<Rightarrow> int \<Rightarrow> dispatch_store \<Rightarrow> (string + chain_record) \<times> dispatch_store" where
  "run_escalation c strategy_id code_hash default_params h g p expected now st =
     (case authorize g ''rung escalation'' of
        Inl e \<Rightarrow> (Inl e, st)
      | Inr _ \<Rightarrow>
          (let state = chain_load c st;
               from_rung = cs_rung state;
               params_hash = governed_params_hash c
                 (head_governed_params_pinned strategy_id code_hash default_params h expected)
           in case verify_escalation c h (cs_records state) from_rung code_hash params_hash p of
               EscReady to_rung evidence \<Rightarrow>
                 chain_append c now to_rung to_rung (cs_prereg state)
                   (Escalation \<lparr>es_from_rung = from_rung, es_to_rung = to_rung, es_evidence = evidence\<rparr>) st
             | EscBlocked why \<Rightarrow> (Inl (''escalation refused: '' @ why), st)))"

definition run_reregistration ::
    "chain_codec \<Rightarrow> operator_gate \<Rightarrow> nat \<Rightarrow> string \<Rightarrow> string option \<Rightarrow> int \<Rightarrow> dispatch_store \<Rightarrow>
       (string + chain_record) \<times> dispatch_store" where
  "run_reregistration c g set_rung reason prereg_hash now st =
     (case authorize g ''chain re-registration'' of
        Inl e \<Rightarrow> (Inl e, st)
      | Inr _ \<Rightarrow> reregister c now set_rung prereg_hash reason st)"

text \<open>\<open>--reregister\<close>: the operator's arm, with the ceiling on the rung it may set.\<close>

definition reregister_cli ::
    "chain_codec \<Rightarrow> operator_gate \<Rightarrow> nat \<Rightarrow> string \<Rightarrow> int \<Rightarrow> dispatch_store \<Rightarrow>
       (string + chain_record) \<times> dispatch_store" where
  "reregister_cli c g set_rung raw_reason now st =
     (if trim raw_reason = [] then (Inl ''--reregister refused: LS_DISPATCH_REASON is required'', st)
      else let state = chain_load c st
           in if max (cs_rung state) 1 < set_rung
              then (Inl ''--reregister refused: target rung exceeds the re-registration ceiling'', st)
              else run_reregistration c g set_rung (scrub_secrets raw_reason) (cs_prereg state) now st)"

record rung_report =
  rr_code_hash :: string
  rr_params_hash :: string
  rr_from_rung :: nat
  rr_n_required :: nat
  rr_clean :: "string list"
  rr_limit_event :: "string list"
  rr_head_mismatched :: "string list"
  rr_cum_pnl :: f64
  rr_band :: "f64 \<times> f64"
  rr_in_band :: bool
  rr_escalation :: escalation_check
  rr_readiness :: readiness
  rr_summary :: string

definition build_rung_report ::
    "chain_codec \<Rightarrow> string \<Rightarrow> string \<Rightarrow> string \<Rightarrow> lab_home \<Rightarrow> chain_record list \<Rightarrow> nat \<Rightarrow>
       pre_registration \<Rightarrow> nat option \<Rightarrow> rung_report" where
  "build_rung_report c strategy_id code_hash default_params h rs from_rung p expected =
     (let params_hash = governed_params_hash c
            (head_governed_params_pinned strategy_id code_hash default_params h expected);
          live = filter (\<lambda>rid. case lh_manifest h rid of Some m \<Rightarrow> is_live_lane m | None \<Rightarrow> False) (list_runs h);
          mismatched = (\<lambda>rid. case lh_manifest h rid of
             Some m \<Rightarrow> mf_code_hash m \<noteq> code_hash \<or> governed_params_hash c (mf_params m) \<noteq> params_hash
           | None \<Rightarrow> False);
          is_clean = (\<lambda>rid. is_clean_session c h rs rid from_rung code_hash params_hash (Some p));
          clean = filter (\<lambda>rid. \<not> mismatched rid \<and> is_clean rid) live;
          cum = cumulative_pnl h clean;
          band = (case expectation_band_for p from_rung of
             Inr b \<Rightarrow> (eb_min b, eb_max b) | Inl _ \<Rightarrow> (Inf True, Inf False))
      in \<lparr>rr_code_hash = code_hash, rr_params_hash = params_hash, rr_from_rung = from_rung,
          rr_n_required = (case n_for_rung p from_rung of Inr n \<Rightarrow> n | Inl _ \<Rightarrow> 0),
          rr_clean = clean,
          rr_limit_event = filter (\<lambda>rid. \<not> mismatched rid \<and> \<not> is_clean rid) live,
          rr_head_mismatched = filter mismatched live,
          rr_cum_pnl = cum, rr_band = band,
          rr_in_band = (f64_le (fst band) cum \<and> f64_le cum (snd band)),
          rr_escalation = verify_escalation c h rs from_rung code_hash params_hash p,
          rr_readiness = fst (compute_readiness h rs (Some p)),
          rr_summary = (case compute_readiness h rs (Some p) of (v, x) \<Rightarrow> readiness_summary v x)\<rparr>)"

section \<open>What escalation rests on\<close>

lemma verify_escalation_ready:
  assumes "verify_escalation c h rs from_rung code params p = EscReady to_rung ev"
  shows "0 < from_rung \<and> from_rung < RUNG_MAX \<and> to_rung = from_rung + 1 \<and>
     ev = filter (\<lambda>rid. clean_session_verdict c h rs rid from_rung code params (Some p) = Clean) (list_runs h) \<and>
     (\<exists>n band. n_for_rung p from_rung = Inr n \<and> 0 < n \<and> n \<le> length ev \<and>
        expectation_band_for p from_rung = Inr band \<and>
        \<not> f64_less (cumulative_pnl h ev) (eb_min band) \<and> \<not> f64_less (eb_max band) (cumulative_pnl h ev))"
  using assms
  by (auto simp: verify_escalation_def Let_def not_less split: if_splits sum.splits)

lemma clean_session:
  assumes "clean_session_verdict c h rs rid rung code params prereg = Clean"
  shows "\<exists>m link body. lh_manifest h rid = Some m \<and> mf_dispatch m = Some link \<and> is_live_lane m \<and>
     find_dispatch rs (dl_dispatch_id link) = Some body \<and> rb_chain_rung body = rung \<and>
     rb_effective_rung body = rung \<and> mf_code_hash m = code \<and> governed_params_hash c (mf_params m) = params \<and>
     run_limit_events h rid rung prereg = [] \<and> \<not> tripped_in rs rid \<and>
     (\<exists>ts. lh_perf h rid = Some ts \<and> list_ex (\<lambda>t. td_ts_closed t \<noteq> None) ts)"
proof -
  from assms obtain m where m: "lh_manifest h rid = Some m"
    by (auto simp: clean_session_verdict_def split: option.splits)
  with assms obtain link where link: "mf_dispatch m = Some link"
    by (auto simp: clean_session_verdict_def split: option.splits)
  with assms m obtain body where body: "find_dispatch rs (dl_dispatch_id link) = Some body"
    by (auto simp: clean_session_verdict_def split: option.splits if_splits)
  note v = assms [unfolded clean_session_verdict_def m option.case link body]
  have "opt_or 0 (closed_trade_count h rid) \<noteq> 0" using v by (auto split: if_splits)
  then have "\<exists>ts. lh_perf h rid = Some ts \<and> list_ex (\<lambda>t. td_ts_closed t \<noteq> None) ts"
    by (cases "lh_perf h rid") (auto simp: opt_or_def closed_trade_count_def list_ex_iff filter_empty_conv)
  with v m link body show ?thesis by (auto simp: is_live_lane_def split: if_splits)
qed

text \<open>
  What a clean session is, read off the registry and the chain: a live run whose manifest names a
  dispatch on the chain at the rung and without probation, and the head's code and parameters; data
  quality without advised reconciliation, duplicate orders, a second teardown retry or a hard stop; no
  safety trip engaged in it; from rung 2 on a produced report inside the registered tracking band; and
  at least one closed trade.\<close>

definition earned_session ::
    "chain_codec \<Rightarrow> lab_home \<Rightarrow> chain_record list \<Rightarrow> pre_registration \<Rightarrow> nat \<Rightarrow> string \<Rightarrow> string \<Rightarrow> string \<Rightarrow> bool" where
  "earned_session c h rs p rung code params rid \<longleftrightarrow>
     (\<exists>m link r sd. lh_manifest h rid = Some m \<and> mf_dispatch m = Some link \<and>
        map ascii_lower (dl_trading_env link) = ''live'' \<and> mf_code_hash m = code \<and> cd_sha c (mf_params m) = params \<and>
        r \<in> set rs \<and> rb_kind (ch_body r) = SessionDispatch sd \<and> rb_id (ch_body r) = dl_dispatch_id link \<and>
        rb_chain_rung (ch_body r) = rung \<and> rb_effective_rung (ch_body r) = rung) \<and>
     (\<forall>d. lh_dq h rid = Some d \<longrightarrow> dq_reconcile_advised d = [] \<and> dq_dedup_hits d \<in> {None, Some 0} \<and>
        dq_teardown_retries d \<in> {None, Some 0, Some 1} \<and> dq_hard_stopped d \<noteq> Some True) \<and>
     (\<forall>r\<in>set rs. \<forall>t. rb_kind (ch_body r) = SafetyTrip t \<longrightarrow> \<not> (st_action t = Engage \<and> st_run_id t = Some rid)) \<and>
     (2 \<le> rung \<longrightarrow> (\<exists>rep. lh_report h rid = Inr (Some rep) \<and> tr_status rep \<in> {Computed, ReportedNotLoadBearing} \<and>
        (\<forall>x b. spec_of_rung p rung = Some x \<and> rs_tracking x = Some b \<longrightarrow>
           \<not> f64_less (tb_max_slippage b) (tr_max_abs_slippage rep) \<and>
           \<not> f64_less (tb_max_approximated b) (tr_approximated_fraction rep)))) \<and>
     (\<exists>ts t. lh_perf h rid = Some ts \<and> t \<in> set ts \<and> td_ts_closed t \<noteq> None)"

lemma event_if_none: "event_if b rid k = [] \<longleftrightarrow> \<not> b"
  by (simp add: event_if_def)

lemma produced_iff: "produced x \<longleftrightarrow> x \<in> {Computed, ReportedNotLoadBearing}"
  by (cases x) auto

lemma opt_small:
  "\<not> 0 < opt_or (0::nat) x \<Longrightarrow> x \<in> {None, Some 0}" "\<not> 1 < opt_or (0::nat) x \<Longrightarrow> x \<in> {None, Some 0, Some 1}"
  "\<not> opt_or False v \<Longrightarrow> v \<noteq> Some True"
  by (cases x; auto simp: opt_or_def)+

lemma quiet_quality:
  assumes "run_limit_events h rid rung prereg = []" and "lh_dq h rid = Some d"
  shows "dq_reconcile_advised d = [] \<and> dq_dedup_hits d \<in> {None, Some 0} \<and>
      dq_teardown_retries d \<in> {None, Some 0, Some 1} \<and> dq_hard_stopped d \<noteq> Some True"
proof -
  have "dq_reconcile_advised d = []" "\<not> 0 < opt_or 0 (dq_dedup_hits d)" "\<not> 1 < opt_or 0 (dq_teardown_retries d)"
    "\<not> opt_or False (dq_hard_stopped d)"
    using assms(1) unfolding run_limit_events_def assms(2) option.case append_is_Nil_conv event_if_none by blast+
  with opt_small show ?thesis by blast
qed

lemma quiet_report:
  assumes "run_limit_events h rid rung (Some p) = []" and "2 \<le> rung" and "lh_report h rid = Inr (Some rep)"
    and "produced (tr_status rep)" and "spec_of_rung p rung = Some x" and "rs_tracking x = Some b"
  shows "\<not> f64_less (tb_max_slippage b) (tr_max_abs_slippage rep) \<and>
      \<not> f64_less (tb_max_approximated b) (tr_approximated_fraction rep)"
proof -
  have "tracking_band_for p rung = Inr (Some b)" using assms(2,5,6) by (simp add: tracking_band_for_def)
  with assms(1,3,4) show ?thesis by (simp add: run_limit_events_def event_if_none)
qed

lemma clean_is_earned:
  assumes "clean_session_verdict c h rs rid rung code params (Some p) = Clean"
  shows "earned_session c h rs p rung code params rid"
proof -
  from clean_session [OF assms] obtain m link body ts where m: "lh_manifest h rid = Some m" "mf_dispatch m = Some link"
    "is_live_lane m" "find_dispatch rs (dl_dispatch_id link) = Some body" "rb_chain_rung body = rung"
    "rb_effective_rung body = rung" "mf_code_hash m = code" "governed_params_hash c (mf_params m) = params"
    and quiet: "run_limit_events h rid rung (Some p) = []" and trip: "\<not> tripped_in rs rid"
    and ts: "lh_perf h rid = Some ts" "list_ex (\<lambda>t. td_ts_closed t \<noteq> None) ts" by blast
  from m(4) obtain r where "find (\<lambda>r. is_dispatch r \<and> rb_id (ch_body r) = dl_dispatch_id link) rs = Some r" "body = ch_body r"
    by (auto simp: find_dispatch_def)
  then have r: "r \<in> set rs" "is_dispatch r" "rb_id (ch_body r) = dl_dispatch_id link" "body = ch_body r"
    by (auto simp: find_Some_iff)
  then obtain sd where sd: "rb_kind (ch_body r) = SessionDispatch sd" by (auto simp: is_dispatch_def split: record_kind.splits)
  have low: "map ascii_lower ''live'' = ''live''" by code_simp
  have link: "\<exists>m link r sd. lh_manifest h rid = Some m \<and> mf_dispatch m = Some link \<and>
        map ascii_lower (dl_trading_env link) = ''live'' \<and> mf_code_hash m = code \<and> cd_sha c (mf_params m) = params \<and>
        r \<in> set rs \<and> rb_kind (ch_body r) = SessionDispatch sd \<and> rb_id (ch_body r) = dl_dispatch_id link \<and>
        rb_chain_rung (ch_body r) = rung \<and> rb_effective_rung (ch_body r) = rung"
    using m r sd low by (auto simp: is_live_lane_def eq_ignore_case_def governed_params_hash_def)
  have report: "\<exists>rep. lh_report h rid = Inr (Some rep) \<and> produced (tr_status rep)" if "2 \<le> rung"
    using assms that by (auto simp: clean_session_verdict_def split: option.splits if_splits sum.splits)
  have band: "2 \<le> rung \<longrightarrow> (\<exists>rep. lh_report h rid = Inr (Some rep) \<and> tr_status rep \<in> {Computed, ReportedNotLoadBearing} \<and>
        (\<forall>x b. spec_of_rung p rung = Some x \<and> rs_tracking x = Some b \<longrightarrow>
           \<not> f64_less (tb_max_slippage b) (tr_max_abs_slippage rep) \<and>
           \<not> f64_less (tb_max_approximated b) (tr_approximated_fraction rep)))"
    using report quiet_report [OF quiet] unfolding produced_iff by metis
  have "\<forall>r\<in>set rs. \<forall>t. rb_kind (ch_body r) = SafetyTrip t \<longrightarrow> \<not> (st_action t = Engage \<and> st_run_id t = Some rid)"
    using trip by (fastforce simp: tripped_in_def list_ex_iff)
  with link quiet_quality [OF quiet] band ts show ?thesis
    unfolding earned_session_def list_ex_iff by blast
qed

lemma list_runs_distinct: "distinct (map fst (lh_entries h)) \<Longrightarrow> distinct (list_runs h)"
  by (simp add: list_runs_def distinct_map_filter)

section \<open>Records appended to a loaded chain\<close>

lemma append_loaded:
  assumes "0 < cs_rung (chain_load c st)" and "whole_lines (file_text st)" and "ds_locks st = {}"
    and "chain_append c now cr er prereg kind st = (Inr r, st')" and "codec_ok c r"
  obtains rs where "chain_load c st = walk rs" "chain_load c st' = walk (rs @ [r])"
    "rb_kind (ch_body r) = scrub_kind kind" "holds_epoch c st' (rs @ [r])" "ds_locks st' = {}"
proof -
  from loaded_epoch [OF assms(1,2)] obtain rs where rs: "holds_epoch c st rs" "rs \<noteq> []" "chain_load c st = walk rs"
    by blast
  have r: "r = appended c now cr er prereg kind rs"
    using append_result [OF rs(1) assms(3)] assms(4) by simp
  from append_epoch [OF rs(1) assms(3) disjI1 [OF rs(2)] assms(5) [unfolded r]] assms(4) [unfolded r]
  have "holds_epoch c st' (rs @ [r])" "ds_locks st' = {}" by (auto simp: r)
  moreover from load_epoch [OF this(1)] have "chain_load c st' = walk (rs @ [r])" by simp
  moreover have "rb_kind (ch_body r) = scrub_kind kind" by (simp add: r appended_def sealed_def)
  ultimately show thesis using rs(3) by (intro that [of rs])
qed

lemma walk_records_of: "chain_load c st = walk rs \<Longrightarrow> cs_records (chain_load c st) = rs"
  by simp

section \<open>Escalation is earned\<close>

text \<open>
  C18. An escalation that succeeds was confirmed by the operator, moves the loaded rung up by exactly one
  within the bounds, and cites at least the registered number of sessions, never none and, as the
  entries of the registry are, distinct: each a live session dispatched at that rung without
  probation, under the head's code and parameters, with no limit event, no safety trip and at least one
  closed trade, their profit inside the band.
\<close>

theorem escalation_is_earned:
  assumes "run_escalation c sid code dp h g p expected now st = (Inr r, st')"
    and "whole_lines (file_text st)" and "ds_locks st = {}" and "codec_ok c r"
  shows "authorize g ''rung escalation'' = Inr () \<and>
     (let f = cs_rung (chain_load c st); rs = cs_records (chain_load c st);
          params = governed_params_hash c (head_governed_params_pinned sid code dp h expected)
      in 0 < f \<and> f < RUNG_MAX \<and> cs_rung (chain_load c st') = f + 1 \<and>
         (\<exists>ev n band. rb_kind (ch_body r) = Escalation \<lparr>es_from_rung = f, es_to_rung = f + 1, es_evidence = ev\<rparr> \<and>
            n_for_rung p f = Inr n \<and> 0 < n \<and> n \<le> length ev \<and> set ev \<subseteq> set (list_runs h) \<and>
            (distinct (map fst (lh_entries h)) \<longrightarrow> distinct ev) \<and>
            (\<forall>rid\<in>set ev. earned_session c h rs p f code params rid) \<and>
            expectation_band_for p f = Inr band \<and>
            \<not> f64_less (cumulative_pnl h ev) (eb_min band) \<and> \<not> f64_less (eb_max band) (cumulative_pnl h ev)))"
proof -
  let ?s = "chain_load c st"
  let ?params = "governed_params_hash c (head_governed_params_pinned sid code dp h expected)"
  have auth: "authorize g ''rung escalation'' = Inr ()"
    using assms(1) by (cases "authorize g ''rung escalation''") (simp_all add: run_escalation_def)
  note m = assms(1) [unfolded run_escalation_def auth sum.case Let_def]
  obtain to_rung ev where v: "verify_escalation c h (cs_records ?s) (cs_rung ?s) code ?params p = EscReady to_rung ev"
    using m by (cases "verify_escalation c h (cs_records ?s) (cs_rung ?s) code ?params p") simp_all
  note ready = verify_escalation_ready [OF v]
  have app: "chain_append c now to_rung to_rung (cs_prereg ?s)
      (Escalation \<lparr>es_from_rung = cs_rung ?s, es_to_rung = to_rung, es_evidence = ev\<rparr>) st = (Inr r, st')"
    using m by (simp add: v)
  have "0 < cs_rung ?s" using ready by simp
  from append_loaded [OF this assms(2,3) app assms(4)] obtain rs where rs: "?s = walk rs"
    "chain_load c st' = walk (rs @ [r])"
    "rb_kind (ch_body r) = Escalation \<lparr>es_from_rung = cs_rung ?s, es_to_rung = to_rung, es_evidence = ev\<rparr>"
    by auto
  have "cs_rung (chain_load c st') = cs_rung ?s + 1"
    unfolding rs(2) walk_rung_snoc using rs(3) ready by (simp add: sets_rung_def)
  then show ?thesis
    using auth ready rs(3) clean_is_earned list_runs_distinct [of h] by (auto simp: Let_def)
qed

section \<open>De-escalation consumes its events\<close>

lemma event_if_run: "e \<in> set (event_if b rid k) \<Longrightarrow> b \<and> le_run e = rid"
  by (auto simp: event_if_def split: if_splits)

lemma run_limit_events_run: "e \<in> set (run_limit_events h rid rung prereg) \<Longrightarrow> le_run e = rid"
  by (auto simp: run_limit_events_def dest: event_if_run split: option.splits sum.splits)

lemma artifact_events_run: "e \<in> set (artifact_events h w prereg) \<Longrightarrow> w < le_run e"
  by (auto simp: artifact_events_def not_le dest: run_limit_events_run split: if_splits option.splits)

lemma artifact_events_mono:
  "e \<in> set (artifact_events h W prereg) \<Longrightarrow> w \<le> W \<Longrightarrow> e \<in> set (artifact_events h w prereg)"
  unfolding artifact_events_def by (fastforce split: if_splits)

lemma trip_events_run: "e \<in> set (trip_events rs w) \<Longrightarrow> w < le_run e"
  by (auto simp: trip_events_def not_le dest!: event_if_run split: record_kind.splits if_splits option.splits)

lemma trip_events_mono: "e \<in> set (trip_events rs W) \<Longrightarrow> w \<le> W \<Longrightarrow> e \<in> set (trip_events rs w)"
  unfolding trip_events_def event_if_def
  by (fastforce split: record_kind.splits if_splits option.splits)

lemma residue_events_run: "e \<in> set (residue_events h rs w) \<Longrightarrow> w < le_run e"
  by (auto simp: residue_events_def not_le dest!: event_if_run)

lemma residue_events_mono: "e \<in> set (residue_events h rs W) \<Longrightarrow> w \<le> W \<Longrightarrow> e \<in> set (residue_events h rs w)"
  unfolding residue_events_def event_if_def by (fastforce split: if_splits)

lemma watermark_snoc:
  "deescalation_watermark (rs @ [r]) =
     (case rb_kind (ch_body r) of DeEscalation d \<Rightarrow> de_consumed_through d | _ \<Rightarrow> deescalation_watermark rs)"
  by (simp add: deescalation_watermark_def split: record_kind.split)

lemma events_after_deescalation:
  assumes "rb_kind (ch_body r) = DeEscalation d"
  shows "trip_events (rs @ [r]) w = trip_events rs w" "residue_events h (rs @ [r]) w = residue_events h rs w"
  using assms by (simp_all add: trip_events_def residue_events_def consumed_run_ids_def map_filter_def)

lemma scan_after_deescalation:
  assumes "rb_kind (ch_body r) = DeEscalation d"
    and "de_consumed_through d = last (sessions_with_events (scan_limit_events h rs prereg))"
    and "scan_limit_events h rs prereg \<noteq> []"
  shows "scan_limit_events h (rs @ [r]) prereg = []"
proof (rule ccontr)
  let ?evs = "scan_limit_events h rs prereg"
  let ?W = "de_consumed_through d"
  assume "scan_limit_events h (rs @ [r]) prereg \<noteq> []"
  then obtain e where e: "e \<in> set (scan_limit_events h (rs @ [r]) prereg)" using hd_in_set by blast
  have W: "\<And>x. x \<in> set ?evs \<Longrightarrow> le_run x \<le> ?W"
  proof -
    fix x assume "x \<in> set ?evs"
    then have "le_run x \<in> set (sessions_with_events ?evs)" by (simp add: sessions_with_events_def)
    moreover have "sorted (sessions_with_events ?evs)" by (simp add: sessions_with_events_def)
    ultimately show "le_run x \<le> ?W"
      unfolding assms(2) by (metis in_set_conv_nth last_conv_nth length_pos_if_in_set diff_less less_Suc_eq_le
          Suc_pred' sorted_nth_mono zero_less_one list.size(3) less_numeral_extra(3))
  qed
  obtain x where x: "x \<in> set ?evs" using assms(3) hd_in_set by blast
  then have "deescalation_watermark rs < le_run x"
    by (auto simp: scan_limit_events_def Let_def dest: artifact_events_run trip_events_run residue_events_run)
  with W [OF x] have wW: "deescalation_watermark rs \<le> ?W" by simp
  have wm: "deescalation_watermark (rs @ [r]) = ?W" by (simp add: watermark_snoc assms(1))
  from e have "?W < le_run e"
    unfolding scan_limit_events_def wm Let_def events_after_deescalation [OF assms(1)]
    by (auto dest: artifact_events_run trip_events_run residue_events_run)
  moreover from e have "e \<in> set ?evs"
    unfolding scan_limit_events_def wm Let_def events_after_deescalation [OF assms(1)]
    using wW by (auto dest: artifact_events_mono trip_events_mono residue_events_mono)
  ultimately show False using W by fastforce
qed

text \<open>
  No limit event fires twice: a de-escalation steps the loaded rung down by the number of sessions
  with events (counted modulo 256, stopping at rung 0), and with the same registry and bands the next
  one finds nothing.
\<close>

theorem deescalation_consumes_events:
  assumes "apply_deescalation c h prereg now st = (Inr (Some r), st')"
    and "whole_lines (file_text st)" and "ds_locks st = {}" and "codec_ok c r"
  shows "(let n = length (sessions_with_events (scan_limit_events h (cs_records (chain_load c st)) prereg))
      in 0 < n \<and> cs_rung (chain_load c st') = cs_rung (chain_load c st) - n mod 256) \<and>
     apply_deescalation c h prereg now' st' = (Inr None, st')"
proof -
  let ?s = "chain_load c st"
  let ?evs = "scan_limit_events h (cs_records ?s) prereg"
  have pos: "0 < cs_rung ?s" and evs: "?evs \<noteq> []"
    using assms(1) by (auto simp: apply_deescalation_def Let_def split: if_splits)
  let ?to = "cs_rung ?s - length (sessions_with_events ?evs) mod 256"
  let ?d = "\<lparr>de_from_rung = cs_rung ?s, de_to_rung = ?to, de_events = map event_label ?evs,
    de_consumed_through = last (sessions_with_events ?evs)\<rparr>"
  have app: "chain_append c now ?to ?to (cs_prereg ?s) (DeEscalation ?d) st = (Inr r, st')"
    using assms(1) pos evs by (auto simp: apply_deescalation_def Let_def split: sum.splits prod.splits)
  from append_loaded [OF pos assms(2,3) app assms(4)] obtain rs where rs: "?s = walk rs"
    "chain_load c st' = walk (rs @ [r])" "rb_kind (ch_body r) = scrub_kind (DeEscalation ?d)" by blast
  have recs: "cs_records ?s = rs" using rs(1) by simp
  let ?sd = "?d\<lparr>de_events := map scrub_secrets (de_events ?d)\<rparr>"
  have kind: "rb_kind (ch_body r) = DeEscalation ?sd" using rs(3) by simp
  have rung: "cs_rung (chain_load c st') = ?to"
    unfolding rs(2) walk_rung_snoc by (simp add: sets_rung_def kind)
  have "scan_limit_events h (rs @ [r]) prereg = []"
    using scan_after_deescalation [OF kind _ evs [unfolded recs]] by (simp add: recs)
  then have "apply_deescalation c h prereg now' st' = (Inr None, st')"
    by (simp add: apply_deescalation_def rs(2) Let_def)
  moreover have "0 < length (sessions_with_events ?evs)"
    using evs by (simp add: sessions_with_events_def)
  ultimately show ?thesis using rung by (simp add: Let_def)
qed

section \<open>Where the ladder forgets\<close>

lemma fresh_artifact_event:
  assumes "rid \<in> set (list_runs h)" "\<not> rid \<le> w" "lh_manifest h rid = Some m" "mf_dispatch m = Some link"
    and "is_live_lane m" "run_limit_events h rid (dl_rung link) prereg \<noteq> []"
  shows "artifact_events h w prereg \<noteq> []"
proof -
  obtain e where "e \<in> set (run_limit_events h rid (dl_rung link) prereg)" using assms(6) hd_in_set by blast
  with assms(1-5) have "e \<in> set (artifact_events h w prereg)"
    unfolding artifact_events_def set_concat set_map by (intro UN_I [of "if rid \<le> w then [] else run_limit_events h rid (dl_rung link) prereg"]) (auto intro!: image_eqI [of _ _ rid])
  then show ?thesis by auto
qed

text \<open>
  The consumed-through watermark lives in the epoch, and a re-registration opens a new one: every
  limit event still in the registry, consumed or not, counts against the rung just set. The events
  that suspended the ladder suspend it again.
\<close>

theorem reregistration_refires_events:
  assumes "reregister c now set_rung prereg_hash reason st = (Inr r, st')"
    and "ds_file st \<noteq> Absent" and "ds_locks st = {}" and "0 < set_rung"
    and "codec_ok c (reregistered c now set_rung prereg_hash reason (Some (cd_sha c (file_text st))))"
    and "rid \<in> set (list_runs h)" and "rid \<noteq> []" and "lh_manifest h rid = Some m"
    and "mf_dispatch m = Some link" and "is_live_lane m"
    and "run_limit_events h rid (dl_rung link) prereg \<noteq> []"
  shows "cs_rung (chain_load c st') = set_rung \<and>
     (\<exists>d st''. apply_deescalation c h prereg now' st' = (Inr (Some d), st''))"
proof -
  let ?r = "reregistered c now set_rung prereg_hash reason (Some (cd_sha c (file_text st)))"
  from reregister_epoch [OF assms(2,3,5)] assms(1) have h: "holds_epoch c st' [?r]" "ds_locks st' = {}" by auto
  then have load: "chain_load c st' = walk [?r]" using load_epoch by simp
  have rung: "cs_rung (walk [?r]) = set_rung"
    by (simp add: walk_single walk_step_def reregistered_def sealed_def Let_def)
  have w: "deescalation_watermark [?r] = []"
    by (simp add: deescalation_watermark_def reregistered_def sealed_def)
  have "\<not> rid \<le> []" using assms(7) by simp
  from fresh_artifact_event [OF assms(6) this assms(8-11)]
  have evs: "scan_limit_events h [?r] prereg \<noteq> []" by (simp add: scan_limit_events_def w Let_def)
  show ?thesis
    using evs assms(4) append_result [OF h] by (simp add: load rung apply_deescalation_def Let_def)
qed

lemma find_dispatch_snoc:
  "\<not> is_dispatch r \<Longrightarrow> find_dispatch (rs @ [r]) i = find_dispatch rs i"
  by (induction rs) (auto simp: find_dispatch_def)

text \<open>
  Nor does a step down or up the ladder use evidence up: a de-escalation or an escalation appended to
  the chain changes no session's verdict, so the sessions that earned a rung before it was lost earn
  it again after.
\<close>

theorem evidence_survives_rung_moves:
  assumes "rb_kind (ch_body r) = Escalation e \<or> rb_kind (ch_body r) = DeEscalation d"
  shows "clean_session_verdict c h (rs @ [r]) rid rung code params prereg =
     clean_session_verdict c h rs rid rung code params prereg"
proof -
  have "find_dispatch (rs @ [r]) = find_dispatch rs"
    using assms find_dispatch_snoc [of r rs] by (intro ext) (auto simp: is_dispatch_def)
  moreover have "tripped_in (rs @ [r]) rid = tripped_in rs rid"
    using assms by (auto simp: tripped_in_def)
  ultimately show ?thesis unfolding clean_session_verdict_def by (simp only:)
qed

text \<open>
  The run id of an event is masked in the record that consumes it: its date has eight digits.
\<close>

theorem event_label_loses_its_run:
  "scrub_secrets (event_label \<lparr>le_run = ''20260716T090000Z-live-orb-v30'', le_kind = ''watchdog_trip''\<rparr>) =
     ''***:watchdog_trip''"
  by code_simp

section \<open>Readiness\<close>

text \<open>
  A green readiness speaks about exactly the registered number of live sessions, none of them with a
  dedup hit, a second cancel retry, a failed or unreadable twin or a hard stop, and no consumed run
  left in staging.
\<close>

lemma qualifying_window_length: "length (qualifying_window h k) \<le> k"
  by (simp add: qualifying_window_def Let_def)

lemma map_filter_length: "length (List.map_filter f xs) \<le> length xs"
  by (induction xs) (simp_all add: map_filter_simps split: option.split)

theorem green_readiness_window:
  assumes "compute_readiness h rs (Some p) = (ReadinessGreen, x)"
  shows "pr_k p = Some (length (xc_sessions x)) \<and> xc_aborted x = 0 \<and>
     list_all (\<lambda>s. sx_dedup s = 0 \<and> sx_retries s \<le> 1 \<and> \<not> sx_twin_failed s \<and> \<not> sx_hard_stopped s \<and>
       (\<exists>m. lh_manifest h (sx_run_id s) = Some m \<and> is_live_lane m) \<and>
       (\<forall>e. lh_report h (sx_run_id s) \<noteq> Inl e)) (xc_sessions x)"
proof -
  from assms obtain k where k: "pr_k p = Some k" "x = build_catalog h rs k" "k \<le> length (xc_sessions x)"
    "readiness_verdict x (pr_exceedance p) = ReadinessGreen"
    by (auto simp: compute_readiness_def k_window_def required_def Let_def not_less
        split: option.splits if_splits)
  have "length (xc_sessions x) \<le> length (qualifying_window h k)"
    unfolding k(2) build_catalog_def by (simp add: map_filter_length)
  with k(3) qualifying_window_length [of h k] have len: "length (xc_sessions x) = k" by simp
  have flags: "xc_aborted x = 0" "list_all (\<lambda>s. \<not> (0 < sx_dedup s \<or> 1 < sx_retries s \<or> sx_twin_failed s \<or> sx_hard_stopped s)) (xc_sessions x)"
    using k(4) by (auto simp: readiness_verdict_def list_all_iff list_ex_iff split: if_splits)
  have "(\<exists>m. lh_manifest h (sx_run_id s) = Some m \<and> is_live_lane m) \<and>
      (lh_report h (sx_run_id s) = Inl e \<longrightarrow> sx_twin_failed s)" if "s \<in> set (xc_sessions x)" for s e
    using that unfolding k(2)
    by (auto simp: build_catalog_def map_filter_def exceedance_of_def qualifying_window_def Let_def
        dest!: in_set_dropD split: option.splits if_splits)
  with flags k(1) len show ?thesis by (fastforce simp: list_all_iff)
qed

section \<open>Instances\<close>

text \<open>One live run \<open>A\<close> that closed a trade; \<open>dedup\<close> is its count of dedup hits.\<close>

definition ex_home :: "nat \<Rightarrow> lab_home" where
  "ex_home dedup =
     \<lparr>lh_entries = [(''A'', True)],
      lh_manifest = (\<lambda>rid. if rid = ''A'' then Some \<lparr>mf_strategy_id = ''orb'', mf_version = 1, mf_params = ''p'',
        mf_code_hash = ''h'', mf_dispatch = Some \<lparr>dl_dispatch_id = ''2026-07-16-0001'', dl_rung = 1,
          dl_fraction = f64_zero, dl_lane = [], dl_trading_env = ''live''\<rparr>\<rparr> else None),
      lh_dq = (\<lambda>_. Some \<lparr>dq_reconcile_advised = [], dq_coverage_gaps = [], dq_approximated_fills = 0,
        dq_teardown_retries = Some 0, dq_dedup_hits = Some dedup, dq_hard_stopped = None\<rparr>),
      lh_perf = (\<lambda>_. Some [\<lparr>td_realized_pnl = f64_zero, td_ts_closed = Some ''t''\<rparr>]),
      lh_report = (\<lambda>_. Inr None)\<rparr>"

definition ex_prereg :: pre_registration where
  "ex_prereg =
     \<lparr>pr_version = 1, pr_rungs = [\<lparr>rs_rung = 1, rs_fraction = None, rs_n = Some 1, rs_tracking = None,
        rs_expectation = Some \<lparr>eb_min = f64_zero, eb_max = f64_zero\<rparr>\<rparr>],
      pr_k = Some 1, pr_exceedance = \<lparr>xt_reconcile = None, xt_deferrals = None, xt_gaps = None\<rparr>,
      pr_heartbeat = None, pr_max_loss = None, pr_rung0 = None,
      pr_head_change = \<lparr>hc_params_rerun = True, hc_code_resets = True\<rparr>\<rparr>"

definition ex_step :: "nat \<Rightarrow> record_kind \<Rightarrow> chain_record" where
  "ex_step rung k = ex_record ''2026-07-16-0002'' ''2026-07-16-0001'' rung k"

definition ex_up :: chain_record where
  "ex_up = ex_step 2 (Escalation \<lparr>es_from_rung = 1, es_to_rung = 2, es_evidence = [''A'']\<rparr>)"

definition ex_down :: chain_record where
  "ex_down = ex_step 0 (DeEscalation \<lparr>de_from_rung = 1, de_to_rung = 0, de_events = [''A:dedup_hit''],
     de_consumed_through = ''A''\<rparr>)"

definition ex_reopen :: chain_record where
  "ex_reopen = ex_record ''2026-07-16-0000'' (''2026-07-16-0000'' @ newline) 1
     (ReRegistration \<lparr>rg_set_rung = 1, rg_archived = Some (''2026-07-16-0000'' @ newline), rg_reason = []\<rparr>)"

lemma ex_runs: "list_runs (ex_home n) = [''A'']"
  by (simp add: list_runs_def ex_home_def starts_with_def tmp_prefix_def)

lemma ex_live: "eq_ignore_case ''live'' ''live''"
  by (simp add: eq_ignore_case_def)

lemma ex_events: "run_limit_events (ex_home n) ''A'' rung None =
    (if 0 < n then [\<lparr>le_run = ''A'', le_kind = ''dedup_hit''\<rparr>] else [])"
  by (simp add: run_limit_events_def ex_home_def event_if_def opt_or_def)

lemma ex_events_prereg: "run_limit_events (ex_home n) ''A'' 1 (Some ex_prereg) = run_limit_events (ex_home n) ''A'' 1 None"
  by (simp add: run_limit_events_def tracking_band_for_def)

lemma ex_chain_facts:
  "cs_rung (walk [ex_genesis, ex_dispatch]) = 1" "cs_prereg (walk [ex_genesis, ex_dispatch]) = None"
  by (simp_all add: walk_def walk_step_def ex_defs suspended_def RUNG_MIN_def Let_def)

lemma ex_find: "find_dispatch [ex_genesis, ex_dispatch] ''2026-07-16-0001'' = Some (ch_body ex_dispatch)"
  by (simp add: find_dispatch_def is_dispatch_def ex_defs)

lemma ex_clean: "clean_session_verdict c (ex_home 0) [ex_genesis, ex_dispatch] ''A'' 1 ''h''
    (governed_params_hash c ''p'') (Some ex_prereg) = Clean"
proof -
  have trip: "\<not> tripped_in [ex_genesis, ex_dispatch] ''A''" by (simp add: tripped_in_def ex_defs)
  have ev: "run_limit_events (ex_home 0) ''A'' 1 (Some ex_prereg) = []"
    unfolding ex_events_prereg by (simp add: ex_events)
  have perf: "opt_or 0 (closed_trade_count (ex_home 0) ''A'') = 1"
    by (simp add: closed_trade_count_def ex_home_def opt_or_def)
  have m: "lh_manifest (ex_home 0) ''A'' = Some \<lparr>mf_strategy_id = ''orb'', mf_version = 1, mf_params = ''p'',
        mf_code_hash = ''h'', mf_dispatch = Some \<lparr>dl_dispatch_id = ''2026-07-16-0001'', dl_rung = 1,
          dl_fraction = f64_zero, dl_lane = [], dl_trading_env = ''live''\<rparr>\<rparr>"
    by (simp add: ex_home_def)
  have body: "rb_chain_rung (ch_body ex_dispatch) = 1" "rb_effective_rung (ch_body ex_dispatch) = 1"
    by (simp_all add: ex_defs)
  show ?thesis
    unfolding clean_session_verdict_def m option.case by (simp add: ex_live ex_find body ev [simplified] trip perf)
qed

lemma ex_world_store: "whole_lines (file_text (lw_store ex_world))" "ds_locks (lw_store ex_world) = {}"
  by (simp_all add: ex_world_def ex_store_def newline_def whole_lines_def file_text_def file_bytes_def)

lemma ex_world_holds: "holds_epoch (table_codec [ex_genesis, ex_dispatch, r]) (lw_store ex_world) [ex_genesis, ex_dispatch]"
  unfolding holds_epoch_def ex_world_lines
  by (simp add: table_codec_def ex_defs opens_epoch_def whole_lines_def file_text_def file_bytes_def ex_world_def)

lemma ex_world_loads: "chain_load (table_codec [ex_genesis, ex_dispatch, r]) (lw_store ex_world) = walk [ex_genesis, ex_dispatch]"
  using load_epoch [OF ex_world_holds] by simp

lemma ex_append:
  assumes "scrub_kind k = k'"
  shows "\<exists>st'. chain_append (table_codec [ex_genesis, ex_dispatch, ex_step rung k']) 1000 rung rung None k (lw_store ex_world) =
    (Inr (ex_step rung k'), st')"
proof -
  let ?c = "table_codec [ex_genesis, ex_dispatch, ex_step rung k']"
  have "appended ?c 1000 rung rung None k [ex_genesis, ex_dispatch] = ex_step rung k'"
    using assms by (simp add: appended_def table_codec_def ex_step_def ex_defs)
  with append_result [OF ex_world_holds ex_world_store(2), of "ex_step rung k'" 1000 rung rung None k]
  show ?thesis by simp
qed

lemma ex_step_ok: "codec_ok (table_codec [ex_genesis, ex_dispatch, ex_step rung k]) (ex_step rung k)"
  by (simp add: codec_ok_def clean_line_def table_codec_def ex_step_def ex_defs)

theorem escalation_is_earned_witness:
  "\<exists>st'. run_escalation (table_codec [ex_genesis, ex_dispatch, ex_up]) ''orb'' ''h'' ''d'' (ex_home 0)
      \<lparr>og_marker = None, og_nonce = Some (show_nat 1000), og_now = 1000\<rparr> ex_prereg None 1000 (lw_store ex_world) =
      (Inr ex_up, st') \<and> cs_rung (chain_load (table_codec [ex_genesis, ex_dispatch, ex_up]) st') = 2"
proof -
  let ?c = "table_codec [ex_genesis, ex_dispatch, ex_up]"
  let ?g = "\<lparr>og_marker = None, og_nonce = Some (show_nat 1000), og_now = 1000\<rparr>"
  have head: "head_governed_params_pinned ''orb'' ''h'' ''d'' (ex_home 0) None = ''p''"
    by (simp add: head_governed_params_pinned_def ex_runs) (simp add: ex_home_def map_filter_def)
  have pnl: "cumulative_pnl (ex_home 0) [''A''] = f64_zero"
    by (simp add: cumulative_pnl_def ex_home_def map_filter_def f64_sum_def f64_zero_def f64_add_def on_grid_def)
  have n: "n_for_rung ex_prereg 1 = Inr 1"
    and band: "expectation_band_for ex_prereg 1 = Inr \<lparr>eb_min = f64_zero, eb_max = f64_zero\<rparr>"
    by (simp_all add: n_for_rung_def expectation_band_for_def required_def spec_of_rung_def ex_prereg_def)
  have zz: "\<not> f64_less f64_zero f64_zero" by (simp add: f64_zero_def f64_less_def)
  have "verify_escalation ?c (ex_home 0) [ex_genesis, ex_dispatch] 1 ''h'' (governed_params_hash ?c ''p'') ex_prereg =
      EscReady 2 [''A'']"
    unfolding verify_escalation_def n band sum.case Let_def ex_runs
    by (simp add: ex_clean [simplified] pnl zz RUNG_MAX_def)
  moreover obtain st' where "chain_append ?c 1000 2 2 None
      (Escalation \<lparr>es_from_rung = 1, es_to_rung = 2, es_evidence = [''A'']\<rparr>) (lw_store ex_world) = (Inr ex_up, st')"
    using ex_append [of "Escalation \<lparr>es_from_rung = 1, es_to_rung = 2, es_evidence = [''A'']\<rparr>" _ 2]
    by (auto simp: ex_up_def)
  ultimately have run: "run_escalation ?c ''orb'' ''h'' ''d'' (ex_home 0) ?g ex_prereg None 1000 (lw_store ex_world) = (Inr ex_up, st')"
    unfolding run_escalation_def ex_nonce sum.case Let_def ex_world_loads ex_chain_facts head by simp
  have "codec_ok ?c ex_up" unfolding ex_up_def by (rule ex_step_ok)
  from escalation_is_earned [OF run ex_world_store this]
  have "cs_rung (chain_load ?c st') = 2" by (simp add: Let_def ex_world_loads ex_chain_facts)
  with run show ?thesis by blast
qed

theorem deescalation_consumes_events_witness:
  "\<exists>st'. apply_deescalation (table_codec [ex_genesis, ex_dispatch, ex_down]) (ex_home 1) None 1000 (lw_store ex_world) =
      (Inr (Some ex_down), st') \<and>
     apply_deescalation (table_codec [ex_genesis, ex_dispatch, ex_down]) (ex_home 1) None 2000 st' = (Inr None, st')"
proof -
  let ?c = "table_codec [ex_genesis, ex_dispatch, ex_down]"
  have m: "lh_manifest (ex_home 1) ''A'' = Some \<lparr>mf_strategy_id = ''orb'', mf_version = 1, mf_params = ''p'',
        mf_code_hash = ''h'', mf_dispatch = Some \<lparr>dl_dispatch_id = ''2026-07-16-0001'', dl_rung = 1,
          dl_fraction = f64_zero, dl_lane = [], dl_trading_env = ''live''\<rparr>\<rparr>"
    by (simp add: ex_home_def)
  have "aborted_runs (ex_home 1) = []" by (simp add: aborted_runs_def ex_home_def starts_with_def tmp_prefix_def)
  moreover have "deescalation_watermark [ex_genesis, ex_dispatch] = []"
    by (simp add: deescalation_watermark_def ex_defs)
  moreover have "trip_events [ex_genesis, ex_dispatch] [] = []" by (simp add: trip_events_def ex_defs)
  moreover have "artifact_events (ex_home 1) [] None = [\<lparr>le_run = ''A'', le_kind = ''dedup_hit''\<rparr>]"
    unfolding artifact_events_def ex_runs using ex_events [of 1 1]
    by (simp add: m [simplified] is_live_lane_def ex_live)
  ultimately have evs: "scan_limit_events (ex_home 1) [ex_genesis, ex_dispatch] None = [\<lparr>le_run = ''A'', le_kind = ''dedup_hit''\<rparr>]"
    by (simp add: scan_limit_events_def residue_events_def)
  have scrub: "scrub_kind (DeEscalation \<lparr>de_from_rung = 1, de_to_rung = 0, de_events = [''A:dedup_hit''], de_consumed_through = ''A''\<rparr>) =
      DeEscalation \<lparr>de_from_rung = 1, de_to_rung = 0, de_events = [''A:dedup_hit''], de_consumed_through = ''A''\<rparr>"
    by code_simp
  obtain st' where app: "chain_append ?c 1000 0 0 None
      (DeEscalation \<lparr>de_from_rung = 1, de_to_rung = 0, de_events = [''A:dedup_hit''], de_consumed_through = ''A''\<rparr>)
      (lw_store ex_world) = (Inr ex_down, st')"
    using ex_append [OF scrub, of 0] by (auto simp: ex_down_def)
  have run: "apply_deescalation ?c (ex_home 1) None 1000 (lw_store ex_world) = (Inr (Some ex_down), st')"
    unfolding apply_deescalation_def Let_def ex_world_loads ex_chain_facts walk_records evs
    by (simp add: app [simplified] sessions_with_events_def event_label_def)
  have "codec_ok ?c ex_down" unfolding ex_down_def by (rule ex_step_ok)
  from deescalation_consumes_events [OF run ex_world_store this] run show ?thesis by blast
qed

theorem reregistration_refires_events_witness:
  "\<exists>st' d st''. reregister (table_codec [ex_reopen]) 1000 1 None [] (ex_store (''2026-07-16-0000'' @ newline)) = (Inr ex_reopen, st') \<and>
     apply_deescalation (table_codec [ex_reopen]) (ex_home 1) None 1000 st' = (Inr (Some d), st'')"
proof -
  let ?c = "table_codec [ex_reopen]"
  let ?st = "ex_store (''2026-07-16-0000'' @ newline)"
  have r: "reregistered ?c 1000 1 None [] (Some (cd_sha ?c (file_text ?st))) = ex_reopen"
    by (simp add: reregistered_def table_codec_def ex_reopen_def ex_defs file_text_def file_bytes_def
        scrub_secrets_def flush_run_def)
  have ok: "codec_ok ?c ex_reopen"
    by (simp add: codec_ok_def clean_line_def table_codec_def ex_reopen_def ex_defs)
  have st: "ds_file ?st \<noteq> Absent" "ds_locks ?st = {}" by (simp_all add: ex_store_def)
  from reregister_epoch [OF st, of ?c 1000 1 None "[]"] ok obtain st' where
    run: "reregister ?c 1000 1 None [] ?st = (Inr ex_reopen, st')" unfolding r by blast
  obtain m link where m: "lh_manifest (ex_home 1) ''A'' = Some m" "mf_dispatch m = Some link" "is_live_lane m"
    by (simp add: ex_home_def is_live_lane_def ex_live)
  have ok': "codec_ok ?c (reregistered ?c 1000 1 None [] (Some (cd_sha ?c (file_text ?st))))"
    unfolding r by (rule ok)
  have in_runs: "''A'' \<in> set (list_runs (ex_home 1))" "''A'' \<noteq> []" by (simp_all add: ex_runs)
  have ev: "run_limit_events (ex_home 1) ''A'' (dl_rung link) None \<noteq> []" by (simp add: ex_events)
  from reregistration_refires_events [OF run st zero_less_one ok' in_runs m ev, of 1000]
  have "\<exists>d st''. apply_deescalation ?c (ex_home 1) None 1000 st' = (Inr (Some d), st'')" by blast
  with run show ?thesis by blast
qed

theorem evidence_survives_rung_moves_witness:
  "clean_session_verdict ex_codec (ex_home 0) ([ex_genesis, ex_dispatch] @ [ex_down]) ''A'' 1 ''h''
     (governed_params_hash ex_codec ''p'') (Some ex_prereg) = Clean"
proof -
  have "rb_kind (ch_body ex_down) = DeEscalation \<lparr>de_from_rung = 1, de_to_rung = 0,
      de_events = [''A:dedup_hit''], de_consumed_through = ''A''\<rparr>"
    by (simp add: ex_down_def ex_step_def ex_record_def)
  from evidence_survives_rung_moves [OF disjI2 [OF this]] show ?thesis by (rule trans) (rule ex_clean)
qed

theorem green_readiness_window_witness:
  "\<exists>x. compute_readiness (ex_home 0) [] (Some ex_prereg) = (ReadinessGreen, x) \<and> length (xc_sessions x) = 1"
proof -
  have w: "qualifying_window (ex_home 0) 1 = [''A'']"
    by (simp add: qualifying_window_def ex_runs Let_def) (simp add: ex_home_def is_live_lane_def ex_live)
  have ab: "aborted_runs (ex_home 0) = []" by (simp add: aborted_runs_def ex_home_def starts_with_def tmp_prefix_def)
  have x: "build_catalog (ex_home 0) [] 1 = \<lparr>xc_sessions = [\<lparr>sx_run_id = ''A'', sx_reconcile = 0, sx_gaps = 0,
      sx_approximated = 0, sx_retries = 0, sx_dedup = 0, sx_twin_failed = False, sx_hard_stopped = False,
      sx_deferrals = 0\<rparr>], xc_aborted = 0\<rparr>"
    unfolding build_catalog_def w ab
    by (simp add: map_filter_def ex_home_def exceedance_of_def opt_or_def deferrals_by_dispatch_def)
  have k: "k_window ex_prereg = Inr 1" by (simp add: k_window_def required_def ex_prereg_def)
  have run: "compute_readiness (ex_home 0) [] (Some ex_prereg) =
      (ReadinessGreen, build_catalog (ex_home 0) [] 1)"
    unfolding compute_readiness_def Let_def option.case k sum.case x
    by (simp add: readiness_verdict_def over_limit_def ex_prereg_def)
  from green_readiness_window [OF run] run show ?thesis by (simp add: ex_prereg_def)
qed

end
