(* ===== verification/Dispatch_Run.thy ===== *)
theory Dispatch_Run
  imports Capital_Ladder
begin

text \<open>
  \<open>run_dispatch\<close> and \<open>build_context\<close> of \<open>adapters/nautilus/lab/src/runner/live/mount.rs\<close>: one attempt
  to authorize a session. What the attempt reads outside the lab is a record of inputs: the date fact
  and identity of the calendar snapshot, the two gateway probes, and what the catalog evaluates to.
  The report lines for the operator are not modelled.
\<close>

record dispatch_config =
  cf_requested :: nat
  cf_lane :: lane_posture
  cf_trading_env :: "string option"
  cf_lane_env_exists :: bool
  cf_deferrals :: "string list"
  cf_nonce :: "string option"
  cf_now :: int
  cf_catalog_stub :: "string option"
  cf_budget_stub :: "string option"
  cf_budget_plan :: int
  cf_attended :: "bool option"
  cf_readiness_stub :: "string option"
  cf_prereg :: "(string + pre_registration option) option"
  cf_run_id :: "string option"
  cf_date_stub :: "date_fact option"
  cf_override :: "unknown_override option"

record dispatch_inputs =
  di_date :: date_fact
  di_snapshot :: "(string option \<times> string option) option"
  di_flat :: gateway_probe
  di_stranded :: gateway_probe
  di_catalog :: "bool \<times> bool"

text \<open>\<open>load_optional(p).ok().flatten()\<close>: no path, no file and a malformed file are all nothing.\<close>

definition loaded_prereg :: "dispatch_config \<Rightarrow> pre_registration option" where
  "loaded_prereg cfg =
     (case cf_prereg cfg of Some (Inr (Some p)) \<Rightarrow> Some p | _ \<Rightarrow> None)"

definition override_matches_snapshot ::
    "unknown_override \<Rightarrow> (string option \<times> string option) option \<Rightarrow> bool" where
  "override_matches_snapshot ov snap =
     (case snap of
        None \<Rightarrow> False
      | Some (artifact, calendar) \<Rightarrow>
          artifact = Some (uo_artifact_id ov) \<and> calendar = Some (uo_calendar_id ov))"

definition operator_gate_of :: "process_env \<Rightarrow> dispatch_config \<Rightarrow> operator_gate" where
  "operator_gate_of pe cfg =
     \<lparr>og_marker = operator_marker pe (cf_attended cfg), og_nonce = cf_nonce cfg, og_now = cf_now cfg\<rparr>"

definition effective_override ::
    "process_env \<Rightarrow> dispatch_config \<Rightarrow> dispatch_inputs \<Rightarrow> unknown_override option" where
  "effective_override pe cfg inp =
     (case cf_override cfg of
        None \<Rightarrow> None
      | Some ov \<Rightarrow>
          if cf_date_stub cfg = None \<and> \<not> override_matches_snapshot ov (di_snapshot inp) then None
          else (case authorize (operator_gate_of pe cfg) ''attended Unknown calendar override'' of
              Inr _ \<Rightarrow> Some ov | Inl _ \<Rightarrow> None))"

definition deferral_nonce_ok :: "process_env \<Rightarrow> dispatch_config \<Rightarrow> bool" where
  "deferral_nonce_ok pe cfg =
     (if cf_deferrals cfg = [] then False
      else authorize (operator_gate_of pe cfg) ''deferral'' = Inr ())"

definition dispatch_readiness ::
    "dispatch_config \<Rightarrow> lab_home \<Rightarrow> chain_record list \<Rightarrow> readiness \<times> exceedance_catalog" where
  "dispatch_readiness cfg h rs =
     (let empty = \<lparr>xc_sessions = [], xc_aborted = 0\<rparr>
      in case cf_readiness_stub cfg of
          Some v \<Rightarrow>
            if v = ''green'' then (ReadinessGreen, empty)
            else if v = ''red'' then (ReadinessRed, empty) else (NotEvaluated, empty)
        | None \<Rightarrow> compute_readiness h rs (loaded_prereg cfg))"

definition kill_switch_has_record :: "chain_record list \<Rightarrow> bool" where
  "kill_switch_has_record rs = list_ex (\<lambda>r. case rb_kind (ch_body r) of
     SafetyTrip t \<Rightarrow> st_trip t = KillSwitch | _ \<Rightarrow> False) rs"

definition build_context ::
    "chain_codec \<Rightarrow> dispatch_config \<Rightarrow> dispatch_inputs \<Rightarrow> string set \<Rightarrow> nat \<Rightarrow> bool \<Rightarrow> bool \<Rightarrow> readiness \<Rightarrow>
       unknown_override option \<Rightarrow> dispatch_context" where
  "build_context c cfg inp cat chain_rung kill kill_record v ov =
     (let (fresh, bars) = (case cf_catalog_stub cfg of
            Some s \<Rightarrow> if s = ''ok'' then (True, True) else if s = ''empty'' then (True, False)
                     else (False, False)
          | None \<Rightarrow> di_catalog inp);
          plan = cf_budget_plan cfg;
          budget = (case cf_budget_stub cfg of
            Some s \<Rightarrow> if s = ''unmeasured'' then Unmeasured
                     else if s = ''low'' then Measured (wrap64 (plan - 1)) plan
                     else Measured (wrap64 (plan + 1000)) plan
          | None \<Rightarrow> Measured (wrap64 (plan + 1000)) plan)
      in \<lparr>dc_today = cd_kst c (cf_now cfg), dc_trading_env = cf_trading_env cfg,
          dc_lane_env = cf_lane_env_exists cfg,
          dc_is_paper = map_option (\<lambda>e. eq_ignore_case e ''paper'') (cf_trading_env cfg),
          dc_live_lock = is_held cat LiveLock, dc_date = di_date inp,
          dc_window = in_time_window (cf_now cfg), dc_run_id = opt_or [] (cf_run_id cfg),
          dc_override = ov, dc_watermark = fresh, dc_bars = bars, dc_flat = di_flat inp,
          dc_stranded = di_stranded inp, dc_kill = kill, dc_kill_record = kill_record,
          dc_budget = budget, dc_chain_rung = chain_rung, dc_requested = cf_requested cfg,
          dc_lane = cf_lane cfg, dc_readiness = v\<rparr>)"

definition dispatch_gate ::
    "chain_codec \<Rightarrow> process_env \<Rightarrow> dispatch_config \<Rightarrow> dispatch_inputs \<Rightarrow> lab_home \<Rightarrow> string set \<Rightarrow> chain_state \<Rightarrow>
       dispatch_context \<times> readiness \<times> exceedance_catalog \<times> gate_decision" where
  "dispatch_gate c pe cfg inp h cat state =
     (let (v, x) = dispatch_readiness cfg h (cs_records state);
          ctx = build_context c cfg inp cat (cs_rung state) (cs_kill state)
            (kill_switch_has_record (cs_records state)) v (effective_override pe cfg inp)
      in (ctx, v, x, decide (run_checks ctx) (cf_deferrals cfg) (deferral_nonce_ok pe cfg)))"

definition applied_override :: "dispatch_context \<Rightarrow> unknown_override option" where
  "applied_override ctx =
     (if dc_date ctx = UnknownDate
      then (case dc_override ctx of
          Some ov \<Rightarrow> if override_covers ov (dc_today ctx) (dc_run_id ctx) then Some ov else None
        | None \<Rightarrow> None)
      else None)"

definition effective_rung :: "dispatch_config \<Rightarrow> chain_state \<Rightarrow> readiness \<Rightarrow> gate_decision \<Rightarrow> nat" where
  "effective_rung cfg state v d =
     (if gd_result d = GateGreen then (if is_probation v then RUNG_MIN else cf_requested cfg)
      else cs_rung state)"

definition session_record :: "dispatch_context \<Rightarrow> readiness \<Rightarrow> exceedance_catalog \<Rightarrow> gate_decision \<Rightarrow> record_kind" where
  "session_record ctx v x d =
     SessionDispatch
       \<lparr>sd_outcome = (if gd_result d = GateGreen then OutcomeGreen else OutcomeRefused),
        sd_checks = gd_records d, sd_deferrals = gd_deferrals d,
        sd_readiness = Some (readiness_summary v x), sd_override = applied_override ctx\<rparr>"

definition run_dispatch ::
    "chain_codec \<Rightarrow> process_env \<Rightarrow> dispatch_config \<Rightarrow> dispatch_inputs \<Rightarrow> lab_home \<Rightarrow> string set \<Rightarrow> dispatch_store \<Rightarrow>
       (string + gate_result \<times> bool) \<times> dispatch_store" where
  "run_dispatch c pe cfg inp h cat st =
     (case cs_status (chain_load c st) of
        NoChain \<Rightarrow> (Inr (GateRefused, False), st)
      | Defective _ \<Rightarrow> (Inr (GateRefused, False), st)
      | Valid \<Rightarrow>
          (case apply_deescalation c h (loaded_prereg cfg) (cf_now cfg) st of
             (Inl e, st1) \<Rightarrow> (Inl e, st1)
           | (Inr _, st1) \<Rightarrow>
               (let state = chain_load c st1;
                    (ctx, v, x, d) = dispatch_gate c pe cfg inp h cat state
                in if gd_result d = GateThrottled then (Inr (GateThrottled, False), st1)
                   else case chain_append c (cf_now cfg) (cs_rung state) (effective_rung cfg state v d) None
                       (session_record ctx v x d) st1 of
                       (Inl e, st2) \<Rightarrow> (Inl e, st2)
                     | (Inr _, st2) \<Rightarrow> (Inr (gd_result d, True), st2))))"

section \<open>From the gate to the mount\<close>

lemma walk_last_dispatch:
  assumes "rb_kind (ch_body r) = SessionDispatch sd"
  shows "cs_last (walk (rs @ [r])) = Some \<lparr>ld_id = rb_id (ch_body r), ld_date = rb_date (ch_body r),
      ld_outcome = sd_outcome sd, ld_chain_rung = rb_chain_rung (ch_body r),
      ld_effective_rung = rb_effective_rung (ch_body r), ld_consumed = False, ld_run_id = None\<rparr>"
    and "cs_rung (walk (rs @ [r])) = cs_rung (walk rs)"
  using assms by (simp_all add: walk_snoc walk_step_def Let_def)

text \<open>
  C15. What a dispatch leaves behind decides the mount. A throttled attempt records nothing beyond the
  automatic de-escalation. Any other adds one record to the chain, the verdict of the gate, and a
  session can mount behind it that day exactly if the gate was green and the chain authorizes a rung:
  it then mounts behind that very record, at the requested rung, or at rung 1 when readiness is red.
\<close>

theorem dispatch_decides_the_mount:
  assumes "cs_status (chain_load c st) = Valid"
    and "apply_deescalation c h (loaded_prereg cfg) (cf_now cfg) st = (Inr q, st1)"
    and "cs_status (chain_load c st1) = Valid" and "whole_lines (file_text st1)" and "ds_locks st1 = {}"
    and "dispatch_gate c pe cfg inp h cat (chain_load c st1) = (ctx, v, x, d)"
    and "codec_ok c (appended c (cf_now cfg) (cs_rung (chain_load c st1))
      (effective_rung cfg (chain_load c st1) v d) None (session_record ctx v x d) (cs_records (chain_load c st1)))"
  shows "if gd_result d = GateThrottled
     then run_dispatch c pe cfg inp h cat st = (Inr (GateThrottled, False), st1)
     else \<exists>st2 r. run_dispatch c pe cfg inp h cat st = (Inr (gd_result d, True), st2) \<and>
       cs_records (chain_load c st2) = cs_records (chain_load c st1) @ [r] \<and>
       (\<exists>sd. rb_kind (ch_body r) = SessionDispatch sd \<and> sd_checks sd = map (\<lambda>k. k\<lparr>cr_detail := scrub_secrets (cr_detail k)\<rparr>) (gd_records d) \<and>
          (sd_outcome sd = OutcomeGreen \<longleftrightarrow> gd_result d = GateGreen)) \<and>
       rb_date (ch_body r) = cd_kst c (cf_now cfg) \<and>
       mount_authz (chain_load c st2) (cd_kst c (cf_now cfg)) =
         (if gd_result d = GateGreen \<and> 0 < cs_rung (chain_load c st1)
          then Ready (rb_id (ch_body r)) (cs_rung (chain_load c st1)) (if v = ReadinessRed then 1 else cf_requested cfg)
          else NoAuthz)"
proof (cases "gd_result d = GateThrottled")
  case True
  with assms(1,2,6) show ?thesis by (simp add: run_dispatch_def Let_def)
next
  case False
  let ?er = "effective_rung cfg (chain_load c st1) v d"
  from valid_epoch [OF assms(3,4)] obtain rs where rs: "holds_epoch c st1 rs" "rs \<noteq> []" "chain_load c st1 = walk rs"
    by blast
  let ?r = "appended c (cf_now cfg) (cs_rung (walk rs)) ?er None (session_record ctx v x d) rs"
  have ok: "codec_ok c ?r" using assms(7) by (simp add: rs(3))
  from append_epoch [OF rs(1) assms(5) disjI1 [OF rs(2)] ok] obtain st2 where st2:
    "chain_append c (cf_now cfg) (cs_rung (walk rs)) ?er None (session_record ctx v x d) st1 = (Inr ?r, st2)"
    "holds_epoch c st2 (rs @ [?r])" by blast
  have run: "run_dispatch c pe cfg inp h cat st = (Inr (gd_result d, True), st2)"
    using assms(1,2,6) False st2(1) by (simp add: run_dispatch_def Let_def rs(3))
  have load: "chain_load c st2 = walk (rs @ [?r])" using load_epoch [OF st2(2)] by simp
  obtain sd where sd: "scrub_kind (session_record ctx v x d) = SessionDispatch sd"
    "sd_outcome sd = (if gd_result d = GateGreen then OutcomeGreen else OutcomeRefused)"
    "sd_checks sd = map (\<lambda>k. k\<lparr>cr_detail := scrub_secrets (cr_detail k)\<rparr>) (gd_records d)"
    by (simp add: session_record_def)
  have kind: "rb_kind (ch_body ?r) = SessionDispatch sd" by (simp add: appended_def sealed_def sd(1))
  have body: "rb_date (ch_body ?r) = cd_kst c (cf_now cfg)" "rb_chain_rung (ch_body ?r) = cs_rung (walk rs)"
    "rb_effective_rung (ch_body ?r) = ?er"
    by (simp_all add: appended_def sealed_def)
  have authz: "mount_authz (walk (rs @ [?r])) (cd_kst c (cf_now cfg)) =
      (if 0 < cs_rung (walk rs) \<and> sd_outcome sd = OutcomeGreen then Ready (rb_id (ch_body ?r)) (cs_rung (walk rs)) ?er else NoAuthz)"
    unfolding mount_authz_def walk_last_dispatch [OF kind] body by simp
  have "mount_authz (walk (rs @ [?r])) (cd_kst c (cf_now cfg)) =
      (if gd_result d = GateGreen \<and> 0 < cs_rung (walk rs)
       then Ready (rb_id (ch_body ?r)) (cs_rung (walk rs)) (if v = ReadinessRed then 1 else cf_requested cfg)
       else NoAuthz)"
    unfolding authz sd(2) by (cases "gd_result d") (simp_all add: effective_rung_def is_probation_def RUNG_MIN_def)
  with run load rs(3) False kind sd(2,3) body(1) show ?thesis by (auto intro!: exI [of _ st2] exI [of _ ?r])
qed

text \<open>
  A session is authorized only at a rung the ladder grants: on a live lane a green attempt has the
  kill switch released, a positive rung, and an effective rung within the de-escalated chain's.
\<close>

theorem green_respects_the_ladder:
  assumes "run_dispatch c pe cfg inp h cat st = (Inr (GateGreen, b), st2)" and "cf_lane cfg = LiveLane"
  shows "\<exists>q st1 ctx v x d. apply_deescalation c h (loaded_prereg cfg) (cf_now cfg) st = (Inr q, st1) \<and>
     dispatch_gate c pe cfg inp h cat (chain_load c st1) = (ctx, v, x, d) \<and>
     \<not> cs_kill (chain_load c st1) \<and> 0 < cs_rung (chain_load c st1) \<and>
     effective_rung cfg (chain_load c st1) v d \<le> cs_rung (chain_load c st1) \<and>
     di_flat inp = gateway_probe.Clear \<and> dc_date ctx \<noteq> VenueClosed \<and> dc_date ctx \<noteq> Unavailable"
proof -
  obtain y st1 where deesc: "apply_deescalation c h (loaded_prereg cfg) (cf_now cfg) st = (y, st1)"
    by (cases "apply_deescalation c h (loaded_prereg cfg) (cf_now cfg) st")
  obtain ctx v x d where gate: "dispatch_gate c pe cfg inp h cat (chain_load c st1) = (ctx, v, x, d)"
    by (cases "dispatch_gate c pe cfg inp h cat (chain_load c st1)")
  have valid: "cs_status (chain_load c st) = Valid"
    using assms(1) by (cases "cs_status (chain_load c st)") (simp_all add: run_dispatch_def)
  obtain q where y: "y = Inr q"
    using assms(1) valid deesc by (cases y) (simp_all add: run_dispatch_def)
  have green: "gd_result d = GateGreen"
    using assms(1) valid deesc gate y
    by (auto simp: run_dispatch_def Let_def split: if_splits sum.splits prod.splits)
  have ctx: "ctx = build_context c cfg inp cat (cs_rung (chain_load c st1)) (cs_kill (chain_load c st1))
      (kill_switch_has_record (cs_records (chain_load c st1))) v (effective_override pe cfg inp)"
    and d: "d = decide (run_checks ctx) (cf_deferrals cfg) (deferral_nonce_ok pe cfg)"
    using gate by (auto simp: dispatch_gate_def Let_def split: prod.splits)
  from green d have "may_trade ctx (\<lambda>item. deferral_nonce_ok pe cfg \<and> item \<in> set (cf_deferrals cfg))"
    using decide_green by simp
  moreover have "dc_lane ctx = LiveLane" "dc_kill ctx = cs_kill (chain_load c st1)"
    "dc_chain_rung ctx = cs_rung (chain_load c st1)" "dc_requested ctx = cf_requested cfg" "dc_flat ctx = di_flat inp"
    using assms(2) by (simp_all add: ctx build_context_def Let_def split: prod.split)
  ultimately have "\<not> cs_kill (chain_load c st1)" "0 < cs_rung (chain_load c st1)"
    "cf_requested cfg \<le> cs_rung (chain_load c st1)" "di_flat inp = gateway_probe.Clear"
    "dc_date ctx \<noteq> VenueClosed" "dc_date ctx \<noteq> Unavailable"
    by (auto simp: may_trade_def)
  with deesc y gate green show ?thesis by (auto simp: effective_rung_def RUNG_MIN_def)
qed

section \<open>What the context does not carry\<close>

text \<open>
  The trading-environment interlock compares the shell's variable with itself: once the variable has
  no blank around it and the lane file exists, the check is green, whatever credentials that file holds.
\<close>

theorem interlock_compares_env_with_itself:
  assumes "cf_trading_env cfg = Some e" and "trim e = e" and "e \<noteq> []" and "cf_lane_env_exists cfg"
  shows "co_status (check_trading_env (build_context c cfg inp cat rung kill kill_record v ov)) = Green"
  using assms by (simp add: check_trading_env_def build_context_def Let_def split: prod.split)

text \<open>
  A pre-registration file that does not parse is dispatched like one that was never written: no
  bands, and no readiness to put the session on probation.
\<close>

theorem malformed_prereg_is_ignored:
  "run_dispatch c pe (cfg\<lparr>cf_prereg := Some (Inl why)\<rparr>) inp h cat st =
     run_dispatch c pe (cfg\<lparr>cf_prereg := None\<rparr>) inp h cat st"
proof -
  let ?a = "cfg\<lparr>cf_prereg := Some (Inl why)\<rparr>" and ?b = "cfg\<lparr>cf_prereg := None\<rparr>"
  have l: "loaded_prereg ?a = loaded_prereg ?b" by (simp add: loaded_prereg_def)
  have now: "cf_now ?a = cf_now ?b" by simp
  have er: "effective_rung ?a = effective_rung ?b" by (intro ext) (simp add: effective_rung_def)
  have gate: "dispatch_gate c pe ?a inp h cat = dispatch_gate c pe ?b inp h cat"
  proof (intro ext)
    fix s :: chain_state
    have "dispatch_readiness ?a h (cs_records s) = dispatch_readiness ?b h (cs_records s)"
      unfolding dispatch_readiness_def l by simp
    moreover have "build_context c ?a inp cat = build_context c ?b inp cat"
      by (intro ext) (simp add: build_context_def)
    moreover have "effective_override pe ?a inp = effective_override pe ?b inp"
      "deferral_nonce_ok pe ?a = deferral_nonce_ok pe ?b"
      by (auto simp: effective_override_def deferral_nonce_ok_def operator_gate_of_def split: option.splits sum.splits)
    ultimately show "dispatch_gate c pe ?a inp h cat s = dispatch_gate c pe ?b inp h cat s"
      unfolding dispatch_gate_def by (simp only:) simp
  qed
  show ?thesis unfolding run_dispatch_def gate er now l by (rule refl)
qed

section \<open>Instances\<close>

definition ex_dispatch_config :: dispatch_config where
  "ex_dispatch_config =
     \<lparr>cf_requested = 1, cf_lane = LiveLane, cf_trading_env = Some ''live'', cf_lane_env_exists = True,
      cf_deferrals = [], cf_nonce = None, cf_now = 1000, cf_catalog_stub = None, cf_budget_stub = None,
      cf_budget_plan = 5, cf_attended = None, cf_readiness_stub = None, cf_prereg = None, cf_run_id = None,
      cf_date_stub = None, cf_override = None\<rparr>"

definition ex_inputs :: dispatch_inputs where
  "ex_inputs = \<lparr>di_date = TradingSession, di_snapshot = None, di_flat = gateway_probe.Clear,
     di_stranded = gateway_probe.Clear, di_catalog = (True, True)\<rparr>"

definition ex_context :: dispatch_context where
  "ex_context = build_context ex_codec ex_dispatch_config ex_inputs {} 1 False False NotEvaluated None"

definition ex_decision :: gate_decision where
  "ex_decision = decide (run_checks ex_context) [] False"

definition ex_session :: chain_record where
  "ex_session = appended ex_codec 1000 1 1 None
     (session_record ex_context NotEvaluated \<lparr>xc_sessions = [], xc_aborted = 0\<rparr> ex_decision) [ex_genesis]"

lemma ex_decision_green: "gd_result ex_decision = GateGreen"
proof -
  have env: "trim ''live'' = ''live''" by (rule trim_plain) (auto simp: plain_char_def)
  have paper: "\<not> eq_ignore_case ''live'' ''paper''" by (simp add: eq_ignore_case_def)
  show ?thesis
    unfolding ex_decision_def decide_green
    by (simp add: may_trade_def ex_context_def build_context_def ex_dispatch_config_def ex_inputs_def env paper
        is_held_def in_time_window_def kst_minute_def wrap64_def)
qed

lemma ex_session_facts:
  "rb_id (ch_body ex_session) = ''2026-07-16-0001''" "appended (table_codec rs) = appended ex_codec"
  "build_context (table_codec rs) = build_context ex_codec"
  by (simp add: ex_session_def appended_def ex_codec_def sealed_def)
    (intro ext, simp add: appended_def build_context_def table_codec_def sealed_def compute_record_hash_def)+

definition ex_file :: dispatch_store where
  "ex_file = ex_store (''2026-07-16-0000'' @ newline)"

lemma ex_genesis_holds:
  "holds_epoch (table_codec [ex_genesis, ex_session]) ex_file [ex_genesis]"
  unfolding holds_epoch_def ex_file_def ex_lines
  by (simp add: table_codec_def ex_codec_def ex_genesis_def ex_record_def compute_record_hash_def opens_epoch_def
      whole_lines_def file_text_def file_bytes_def ex_store_def newline_def)

lemma ex_genesis_loads:
  "chain_load (table_codec [ex_genesis, ex_session]) ex_file = walk [ex_genesis]"
  "cs_rung (walk [ex_genesis]) = 1" "\<not> cs_kill (walk [ex_genesis])"
  using load_epoch [OF ex_genesis_holds]
  by (simp_all add: walk_single walk_step_def ex_genesis_def ex_record_def suspended_def RUNG_MIN_def Let_def)

definition empty_home :: lab_home where
  "empty_home = (ex_home 0)\<lparr>lh_entries := []\<rparr>"

lemma ex_no_deescalation:
  "apply_deescalation (table_codec [ex_genesis, ex_session]) empty_home None 1000
     ex_file = (Inr None, ex_file)"
proof -
  have "list_runs empty_home = []" "aborted_runs empty_home = []"
    by (simp_all add: empty_home_def list_runs_def aborted_runs_def)
  then have "scan_limit_events empty_home [ex_genesis] None = []"
    by (simp add: scan_limit_events_def artifact_events_def residue_events_def trip_events_def
        ex_genesis_def ex_record_def Let_def)
  then show ?thesis by (simp add: apply_deescalation_def ex_genesis_loads Let_def)
qed

lemma ex_gate:
  "dispatch_gate (table_codec [ex_genesis, ex_session]) attended_env ex_dispatch_config ex_inputs empty_home {}
     (walk [ex_genesis]) = (ex_context, NotEvaluated, \<lparr>xc_sessions = [], xc_aborted = 0\<rparr>, ex_decision)"
proof -
  have v: "dispatch_readiness ex_dispatch_config empty_home [ex_genesis] =
      (NotEvaluated, \<lparr>xc_sessions = [], xc_aborted = 0\<rparr>)"
    by (simp add: dispatch_readiness_def ex_dispatch_config_def compute_readiness_def loaded_prereg_def)
  have k: "kill_switch_has_record [ex_genesis] = False"
    by (simp add: kill_switch_has_record_def ex_genesis_def ex_record_def)
  have ov: "effective_override attended_env ex_dispatch_config ex_inputs = None"
    and n: "deferral_nonce_ok attended_env ex_dispatch_config = False" and df: "cf_deferrals ex_dispatch_config = []"
    by (simp_all add: effective_override_def deferral_nonce_ok_def ex_dispatch_config_def)
  show ?thesis
    unfolding dispatch_gate_def walk_records v prod.case Let_def k ov n df ex_session_facts(3)
    using ex_genesis_loads(2,3) by (simp add: ex_context_def ex_decision_def)
qed

lemma ex_session_ok: "codec_ok (table_codec [ex_genesis, ex_session]) ex_session"
  by (simp add: codec_ok_def clean_line_def table_codec_def ex_codec_def ex_session_facts ex_genesis_def ex_record_def)

lemma ex_runs_green:
  "\<exists>st2. run_dispatch (table_codec [ex_genesis, ex_session]) attended_env ex_dispatch_config ex_inputs empty_home {}
      ex_file = (Inr (GateGreen, True), st2)"
proof -
  let ?c = "table_codec [ex_genesis, ex_session]"
  have cfg: "loaded_prereg ex_dispatch_config = None" "cf_now ex_dispatch_config = 1000"
    "cf_requested ex_dispatch_config = 1"
    by (simp_all add: loaded_prereg_def ex_dispatch_config_def)
  have locks: "ds_locks ex_file = {}" by (simp add: ex_file_def ex_store_def)
  show ?thesis
    using append_result [OF ex_genesis_holds locks] ex_no_deescalation ex_gate
    by (simp add: run_dispatch_def ex_genesis_loads(1) cfg ex_decision_green Let_def)
qed

theorem dispatch_decides_the_mount_witness:
  "\<exists>st2 r. run_dispatch (table_codec [ex_genesis, ex_session]) attended_env ex_dispatch_config ex_inputs empty_home {}
      ex_file = (Inr (GateGreen, True), st2) \<and>
     cs_records (chain_load (table_codec [ex_genesis, ex_session]) st2) = [ex_genesis, r] \<and>
     mount_authz (chain_load (table_codec [ex_genesis, ex_session]) st2) ''2026-07-16'' = Ready (rb_id (ch_body r)) 1 1"
proof -
  let ?c = "table_codec [ex_genesis, ex_session]"
  let ?st = "ex_file"
  have cfg: "loaded_prereg ex_dispatch_config = None" "cf_now ex_dispatch_config = 1000"
    "cf_requested ex_dispatch_config = 1"
    by (simp_all add: loaded_prereg_def ex_dispatch_config_def)
  have st: "whole_lines (file_text ?st)" "ds_locks ?st = {}"
    by (simp_all add: ex_file_def ex_store_def newline_def whole_lines_def file_text_def file_bytes_def)
  have valid: "cs_status (chain_load ?c ?st) = Valid" by (simp add: ex_genesis_loads)
  have er: "effective_rung ex_dispatch_config (walk [ex_genesis]) NotEvaluated ex_decision = 1"
    by (simp add: effective_rung_def ex_decision_green is_probation_def cfg)
  have ok: "codec_ok ?c (appended ?c (cf_now ex_dispatch_config) (cs_rung (chain_load ?c ?st))
      (effective_rung ex_dispatch_config (chain_load ?c ?st) NotEvaluated ex_decision) None
      (session_record ex_context NotEvaluated \<lparr>xc_sessions = [], xc_aborted = 0\<rparr> ex_decision)
      (cs_records (chain_load ?c ?st)))"
    unfolding ex_genesis_loads(1) er ex_session_facts(2) cfg walk_records ex_genesis_loads(2)
      ex_session_def [symmetric] by (rule ex_session_ok)
  have kst: "cd_kst ?c 1000 = ''2026-07-16''" by (simp add: table_codec_def ex_codec_def)
  show ?thesis
    using dispatch_decides_the_mount [OF valid ex_no_deescalation [folded cfg(1), folded cfg(2)] valid st
        ex_gate [folded ex_genesis_loads(1)] ok]
    by (simp add: ex_decision_green ex_genesis_loads cfg kst) blast
qed

theorem green_respects_the_ladder_witness:
  "\<exists>st2. run_dispatch (table_codec [ex_genesis, ex_session]) attended_env ex_dispatch_config ex_inputs empty_home {}
      ex_file = (Inr (GateGreen, True), st2) \<and>
     (\<exists>q st1. apply_deescalation (table_codec [ex_genesis, ex_session]) empty_home
        (loaded_prereg ex_dispatch_config) (cf_now ex_dispatch_config) ex_file = (Inr q, st1) \<and>
        \<not> cs_kill (chain_load (table_codec [ex_genesis, ex_session]) st1))"
proof -
  have lane: "cf_lane ex_dispatch_config = LiveLane" by (simp add: ex_dispatch_config_def)
  from ex_runs_green obtain st2 where run: "run_dispatch (table_codec [ex_genesis, ex_session]) attended_env
      ex_dispatch_config ex_inputs empty_home {} ex_file = (Inr (GateGreen, True), st2)" by blast
  from green_respects_the_ladder [OF run lane] run show ?thesis by blast
qed

theorem interlock_compares_env_with_itself_witness:
  "co_status (check_trading_env (build_context ex_codec ex_dispatch_config ex_inputs {} 1 False False NotEvaluated None)) = Green"
proof -
  have "trim ''live'' = ''live''" by (rule trim_plain) (auto simp: plain_char_def)
  then show ?thesis
    using interlock_compares_env_with_itself [of ex_dispatch_config "''live''"] by (simp add: ex_dispatch_config_def)
qed

end
