(* ===== verification/Safety_Envelope.thy ===== *)
theory Safety_Envelope
  imports Dispatch_Run Inner
begin

text \<open>
  The watchdog envelope: \<open>runner/watchdog.rs\<close> and the teardown of \<open>runner/live/shared.rs\<close> in
  \<open>adapters/nautilus/lab/src\<close>, and the rehearsal's trip ledger with its gate and clear
  (\<open>runner/live/rehearsal.rs\<close>, \<open>recovery.rs\<close>). A session is the four operations of the
  \<open>LiveSession\<close> trait on a state; a trip sink is an append on a state. A tick runs to its end before
  the next: the latch is one atomic flag, claimed once.
\<close>

section \<open>The teardown\<close>

record 's live_session =
  ls_stop :: "'s \<Rightarrow> 's"
  ls_cancel :: "'s \<Rightarrow> (string + nat) \<times> 's"
  ls_flat :: "'s \<Rightarrow> bool \<times> 's"
  ls_halt :: "'s \<Rightarrow> 's"

record teardown_report =
  td_cancel_attempts :: nat
  td_canceled :: bool
  td_flat_confirmed :: bool

definition retries :: "teardown_report \<Rightarrow> nat" where
  "retries r = td_cancel_attempts r - 1"

definition hard_failed :: "teardown_report \<Rightarrow> bool" where
  "hard_failed r = (\<not> td_canceled r \<or> \<not> td_flat_confirmed r)"

fun cancel_loop :: "'s live_session \<Rightarrow> nat \<Rightarrow> nat \<Rightarrow> 's \<Rightarrow> nat \<times> bool \<times> 's" where
  "cancel_loop S 0 attempts s = (attempts, False, s)"
| "cancel_loop S (Suc n) attempts s =
     (case ls_cancel S s of
        (Inr _, s') \<Rightarrow> (attempts + 1, True, s')
      | (Inl _, s') \<Rightarrow> cancel_loop S n (attempts + 1) s')"

fun flat_loop :: "'s live_session \<Rightarrow> nat \<Rightarrow> 's \<Rightarrow> bool \<times> 's" where
  "flat_loop S 0 s = (False, s)"
| "flat_loop S (Suc n) s =
     (case ls_flat S s of (True, s') \<Rightarrow> (True, s') | (False, s') \<Rightarrow> flat_loop S n s')"

definition run_teardown :: "'s live_session \<Rightarrow> nat \<Rightarrow> nat \<Rightarrow> 's \<Rightarrow> teardown_report \<times> 's" where
  "run_teardown S cancel_attempts flat_attempts s =
     (case cancel_loop S (max cancel_attempts 1) 0 (ls_stop S s) of
        (attempts, canceled, s1) \<Rightarrow>
          (case flat_loop S (max flat_attempts 1) s1 of
             (flat, s2) \<Rightarrow>
               (\<lparr>td_cancel_attempts = attempts, td_canceled = canceled, td_flat_confirmed = flat\<rparr>,
                ls_halt S s2)))"

text \<open>What \<open>finalize_session\<close> stamps into the data-quality report.\<close>

definition stamp_quality :: "teardown_report \<Rightarrow> nat \<Rightarrow> data_quality \<Rightarrow> data_quality" where
  "stamp_quality r n dq = dq\<lparr>dq_teardown_retries := Some (retries r), dq_dedup_hits := Some n\<rparr>"

section \<open>Trips\<close>

datatype trip_cause = DeadManRuntime | DeadManOperator | MaxLoss | SupervisorSilent

definition safety_kind :: "trip_cause \<Rightarrow> safety_trip_kind" where
  "safety_kind x = (case x of MaxLoss \<Rightarrow> Breaker | _ \<Rightarrow> Watchdog)"

definition trip_detail :: "trip_cause \<Rightarrow> string" where
  "trip_detail x = (case x of
     DeadManRuntime \<Rightarrow> ''watchdog dead-man: runtime heartbeat stale (task/loop stall)''
   | DeadManOperator \<Rightarrow> ''watchdog dead-man: operator keepalive stale (operator absent)''
   | MaxLoss \<Rightarrow> ''session max-loss breaker: P&L basis crossed the pre-registered threshold''
   | SupervisorSilent \<Rightarrow> ''session-side mutual liveness: the watchdog supervisor went silent (dead thread)'')"

record watchdog_limits =
  wl_interval :: int
  wl_max_loss :: f64

definition limits_from_prereg :: "pre_registration \<Rightarrow> string + watchdog_limits" where
  "limits_from_prereg p =
     (case heartbeat_interval_secs p of
        Inl e \<Rightarrow> Inl e
      | Inr n \<Rightarrow>
          (case session_max_loss_krw p of
             Inl e \<Rightarrow> Inl e
           | Inr l \<Rightarrow> Inr \<lparr>wl_interval = wrap64 (int n), wl_max_loss = l\<rparr>))"

record observation =
  ob_now :: int
  ob_runtime :: int
  ob_operator :: int
  ob_realized :: f64
  ob_open :: f64

definition evaluate_trip :: "observation \<Rightarrow> watchdog_limits \<Rightarrow> trip_cause option" where
  "evaluate_trip ob lim =
     (if wl_interval lim < wrap64 (ob_now ob - ob_runtime ob) then Some DeadManRuntime
      else if wl_interval lim < wrap64 (ob_now ob - ob_operator ob) then Some DeadManOperator
      else if f64_le (f64_add (ob_realized ob) (ob_open ob)) (f64_neg (wl_max_loss lim)) then Some MaxLoss
      else None)"

definition supervisor_silent :: "int \<Rightarrow> int \<Rightarrow> int \<Rightarrow> bool" where
  "supervisor_silent now touch interval = (interval < wrap64 (now - touch))"

definition try_claim :: "bool \<Rightarrow> bool \<times> bool" where
  "try_claim latch = (if latch then (False, latch) else (True, True))"

type_synonym 't trip_sink =
  "safety_trip_kind \<Rightarrow> trip_action \<Rightarrow> string option \<Rightarrow> string \<Rightarrow> int \<Rightarrow> 't \<Rightarrow> (string + unit) \<times> 't"

definition execute_trip ::
    "'s live_session \<Rightarrow> 't trip_sink \<Rightarrow> trip_cause \<Rightarrow> string option \<Rightarrow> int \<Rightarrow> 's \<times> 't \<Rightarrow>
       (string + teardown_report) \<times> 's \<times> 't" where
  "execute_trip S sink cause run_id now st =
     (case st of (s, t) \<Rightarrow>
        (case sink (safety_kind cause) Engage run_id (trip_detail cause) now t of
           (cause_append, t1) \<Rightarrow>
             (case run_teardown S 3 3 s of
                (report, s1) \<Rightarrow>
                  (case sink KillSwitch Engage run_id ''kill switch engaged by watchdog teardown'' now t1 of
                     (ks_append, t2) \<Rightarrow>
                       ((case cause_append of
                           Inl e \<Rightarrow> Inl e
                         | Inr _ \<Rightarrow> (case ks_append of Inl e \<Rightarrow> Inl e | Inr _ \<Rightarrow> Inr report)), s1, t2)))))"

definition watchdog_tick_reporting ::
    "'s live_session \<Rightarrow> 't trip_sink \<Rightarrow> observation \<Rightarrow> watchdog_limits \<Rightarrow> string option \<Rightarrow>
       's \<times> 't \<times> bool \<Rightarrow> (string + (trip_cause \<times> teardown_report) option) \<times> 's \<times> 't \<times> bool" where
  "watchdog_tick_reporting S sink ob lim run_id st =
     (case st of (s, t, latch) \<Rightarrow>
        (case evaluate_trip ob lim of
           None \<Rightarrow> (Inr None, st)
         | Some cause \<Rightarrow>
             (case try_claim latch of
                (False, latch') \<Rightarrow> (Inr None, s, t, latch')
              | (True, latch') \<Rightarrow>
                  (case execute_trip S sink cause run_id (ob_now ob) (s, t) of
                     (Inl e, s', t') \<Rightarrow> (Inl e, s', t', latch')
                   | (Inr report, s', t') \<Rightarrow> (Inr (Some (cause, report)), s', t', latch')))))"

definition session_liveness_tick_reporting ::
    "'s live_session \<Rightarrow> 't trip_sink \<Rightarrow> int \<Rightarrow> int \<Rightarrow> int \<Rightarrow> string option \<Rightarrow>
       's \<times> 't \<times> bool \<Rightarrow> (string + (trip_cause \<times> teardown_report) option) \<times> 's \<times> 't \<times> bool" where
  "session_liveness_tick_reporting S sink now touch interval run_id st =
     (case st of (s, t, latch) \<Rightarrow>
        if \<not> supervisor_silent now touch interval then (Inr None, st)
        else (case try_claim latch of
            (False, latch') \<Rightarrow> (Inr None, s, t, latch')
          | (True, latch') \<Rightarrow>
              (case execute_trip S sink SupervisorSilent run_id now (s, t) of
                 (Inl e, s', t') \<Rightarrow> (Inl e, s', t', latch')
               | (Inr report, s', t') \<Rightarrow> (Inr (Some (SupervisorSilent, report)), s', t', latch'))))"

text \<open>The projections \<open>watchdog_tick\<close> and \<open>session_liveness_tick\<close>.\<close>

definition tick_cause ::
    "(string + (trip_cause \<times> teardown_report) option) \<times> 'a \<Rightarrow> (string + trip_cause option) \<times> 'a" where
  "tick_cause r = (case r of (Inl e, x) \<Rightarrow> (Inl e, x) | (Inr y, x) \<Rightarrow> (Inr (map_option fst y), x))"

definition watchdog_tick where
  "watchdog_tick S sink ob lim run_id st = tick_cause (watchdog_tick_reporting S sink ob lim run_id st)"

definition session_liveness_tick where
  "session_liveness_tick S sink now touch interval run_id st =
     tick_cause (session_liveness_tick_reporting S sink now touch interval run_id st)"

record heartbeats =
  hb_runtime :: int
  hb_supervisor :: int

definition heartbeats_new :: "int \<Rightarrow> heartbeats" where
  "heartbeats_new now = \<lparr>hb_runtime = now, hb_supervisor = now\<rparr>"

definition touch_runtime :: "int \<Rightarrow> heartbeats \<Rightarrow> heartbeats" where
  "touch_runtime now h = h\<lparr>hb_runtime := now\<rparr>"

definition touch_supervisor :: "int \<Rightarrow> heartbeats \<Rightarrow> heartbeats" where
  "touch_supervisor now h = h\<lparr>hb_supervisor := now\<rparr>"

section \<open>The rehearsal's ledger\<close>

record rehearsal_trip =
  rt_at :: string
  rt_trip :: safety_trip_kind
  rt_action :: trip_action
  rt_run_id :: "string option"
  rt_detail :: string

text \<open>The ledger's readable rows, oldest first; a row that does not parse makes reading fail.\<close>

type_synonym ledger = "rehearsal_trip option list"

definition ledger_records :: "ledger \<Rightarrow> string + rehearsal_trip list" where
  "ledger_records rows =
     (if None \<in> set rows then Inl ''unreadable rehearsal trip row'' else Inr (map the rows))"

definition ledger_record_trip :: "(int \<Rightarrow> string) \<Rightarrow> ledger trip_sink" where
  "ledger_record_trip rfc kind act run_id detail now rows =
     (Inr (), rows @ [Some \<lparr>rt_at = rfc now, rt_trip = kind, rt_action = act, rt_run_id = run_id,
        rt_detail = scrub_secrets detail\<rparr>])"

definition standing_step :: "rehearsal_trip \<Rightarrow> rehearsal_trip list \<Rightarrow> rehearsal_trip list" where
  "standing_step row standing =
     (let kept = filter (\<lambda>x. rt_trip x \<noteq> rt_trip row) standing
      in if rt_action row = Engage then kept @ [row] else kept)"

definition standing_trips :: "ledger \<Rightarrow> string + rehearsal_trip list" where
  "standing_trips rows =
     (case ledger_records rows of Inl e \<Rightarrow> Inl e | Inr rs \<Rightarrow> Inr (fold standing_step rs []))"

definition standing_trip :: "ledger \<Rightarrow> string + rehearsal_trip option" where
  "standing_trip rows =
     (case standing_trips rows of
        Inl e \<Rightarrow> Inl e | Inr [] \<Rightarrow> Inr None | Inr (x # xs) \<Rightarrow> Inr (Some x))"

definition clear_standing_trips ::
    "(int \<Rightarrow> string) \<Rightarrow> string \<Rightarrow> int \<Rightarrow> ledger \<Rightarrow> (string + rehearsal_trip list) \<times> ledger" where
  "clear_standing_trips rfc raw_why now rows =
     (let why = trim raw_why
      in if why = [] then (Inl ''--rehearsal-clear-trip refused: --why <text> is required'', rows)
         else case standing_trips rows of
             Inl e \<Rightarrow> (Inl e, rows)
           | Inr [] \<Rightarrow> (Inl ''--rehearsal-clear-trip refused: no standing trip'', rows)
           | Inr (x # xs) \<Rightarrow>
               (Inr (x # xs),
                fold (\<lambda>t rs. snd (ledger_record_trip rfc (rt_trip t) trip_action.Clear (rt_run_id t)
                  (''operator clear: '' @ why) now rs)) (x # xs) rows))"

section \<open>One teardown, in order\<close>

lemma execute_trip_session: "fst (snd (execute_trip S sink cause run_id now (s, t))) = snd (run_teardown S 3 3 s)"
  by (simp add: execute_trip_def split: prod.split)

text \<open>The two threads that can trip a session, as the ticks they make.\<close>

datatype envelope_tick = WatchdogTick observation | LivenessTick int int

definition trips :: "watchdog_limits \<Rightarrow> envelope_tick \<Rightarrow> bool" where
  "trips lim x = (case x of
     WatchdogTick ob \<Rightarrow> evaluate_trip ob lim \<noteq> None
   | LivenessTick now touch \<Rightarrow> supervisor_silent now touch (wl_interval lim))"

definition run_tick ::
    "'s live_session \<Rightarrow> 't trip_sink \<Rightarrow> watchdog_limits \<Rightarrow> string option \<Rightarrow> envelope_tick \<Rightarrow>
       's \<times> 't \<times> bool \<Rightarrow> 's \<times> 't \<times> bool" where
  "run_tick S sink lim run_id x st = (case x of
     WatchdogTick ob \<Rightarrow> snd (watchdog_tick S sink ob lim run_id st)
   | LivenessTick now touch \<Rightarrow> snd (session_liveness_tick S sink now touch (wl_interval lim) run_id st))"

lemma snd_tick_cause: "snd (tick_cause r) = snd r"
  by (simp add: tick_cause_def split: prod.split sum.split)

definition tick_cause_of :: "watchdog_limits \<Rightarrow> envelope_tick \<Rightarrow> trip_cause option" where
  "tick_cause_of lim x = (case x of
     WatchdogTick ob \<Rightarrow> evaluate_trip ob lim
   | LivenessTick now touch \<Rightarrow> if supervisor_silent now touch (wl_interval lim) then Some SupervisorSilent else None)"

definition tick_now :: "envelope_tick \<Rightarrow> int" where
  "tick_now x = (case x of WatchdogTick ob \<Rightarrow> ob_now ob | LivenessTick now touch \<Rightarrow> now)"

lemma trips_cause: "trips lim x \<longleftrightarrow> tick_cause_of lim x \<noteq> None"
  by (simp add: trips_def tick_cause_of_def split: envelope_tick.split)

lemma run_tick_quiet: "tick_cause_of lim x = None \<Longrightarrow> run_tick S sink lim run_id x st = st"
  by (cases st)
    (simp add: run_tick_def tick_cause_of_def watchdog_tick_def session_liveness_tick_def snd_tick_cause
      watchdog_tick_reporting_def session_liveness_tick_reporting_def
      split: envelope_tick.splits if_splits)

lemma run_tick_claimed: "run_tick S sink lim run_id x (s, t, True) = (s, t, True)"
  by (simp add: run_tick_def watchdog_tick_def session_liveness_tick_def snd_tick_cause try_claim_def
      watchdog_tick_reporting_def session_liveness_tick_reporting_def
      split: envelope_tick.split option.split)

lemma run_tick_fresh:
  "tick_cause_of lim x = Some cause \<Longrightarrow> execute_trip S sink cause run_id (tick_now x) (s, t) = (r, s', t') \<Longrightarrow>
     run_tick S sink lim run_id x (s, t, False) = (s', t', True)"
  by (cases r; cases x)
    (auto simp: run_tick_def tick_cause_of_def watchdog_tick_def session_liveness_tick_def snd_tick_cause
      watchdog_tick_reporting_def session_liveness_tick_reporting_def try_claim_def tick_now_def
      split: if_splits)

lemma run_tick_state:
  "fst (run_tick S sink lim run_id x (s, t, latch)) = (if trips lim x \<and> \<not> latch then snd (run_teardown S 3 3 s) else s)"
  "snd (snd (run_tick S sink lim run_id x (s, t, latch))) = (latch \<or> trips lim x)"
proof -
  have "fst (run_tick S sink lim run_id x (s, t, latch)) = (if trips lim x \<and> \<not> latch then snd (run_teardown S 3 3 s) else s) \<and>
      snd (snd (run_tick S sink lim run_id x (s, t, latch))) = (latch \<or> trips lim x)"
  proof (cases "tick_cause_of lim x")
    case None
    then show ?thesis by (simp add: run_tick_quiet trips_cause)
  next
    case (Some cause)
    obtain r s' t' where ex: "execute_trip S sink cause run_id (tick_now x) (s, t) = (r, s', t')" by (rule prod_cases3)
    with execute_trip_session [of S sink cause run_id "tick_now x" s t] have "s' = snd (run_teardown S 3 3 s)" by simp
    with Some run_tick_fresh [OF Some ex] show ?thesis
      by (cases latch) (simp_all add: trips_cause run_tick_claimed)
  qed
  then show "fst (run_tick S sink lim run_id x (s, t, latch)) = (if trips lim x \<and> \<not> latch then snd (run_teardown S 3 3 s) else s)"
    "snd (snd (run_tick S sink lim run_id x (s, t, latch))) = (latch \<or> trips lim x)" by simp_all
qed

lemma run_ticks_tripped: "fst (fold (run_tick S sink lim run_id) xs (s, t, True)) = s"
  by (induction xs arbitrary: t) (simp_all add: run_tick_claimed)

lemma run_ticks_state:
  "fst (fold (run_tick S sink lim run_id) xs (s, t, False)) =
     (if list_ex (trips lim) xs then snd (run_teardown S 3 3 s) else s)"
proof (induction xs arbitrary: t)
  case (Cons x xs)
  obtain s' t' l' where st: "run_tick S sink lim run_id x (s, t, False) = (s', t', l')" by (rule prod_cases3)
  with run_tick_state [of S sink lim run_id x s t False]
  have "s' = (if trips lim x then snd (run_teardown S 3 3 s) else s)" "l' = trips lim x" by simp_all
  with st Cons.IH [of t'] run_ticks_tripped [of S sink lim run_id xs "snd (run_teardown S 3 3 s)" t']
  show ?case by simp
qed simp

text \<open>
  C23. However the ticks of the watchdog thread and of the session interleave, and whatever the sink
  answers, the session is torn down once, at the first tick that finds a cause, or not at all.
\<close>

theorem teardown_runs_exactly_once:
  "fst (fold (run_tick S sink lim run_id) xs (s, t, False)) =
     (if list_ex (trips lim) xs then snd (run_teardown S 3 3 s) else s)"
  by (rule run_ticks_state)

section \<open>What a teardown calls\<close>

datatype session_call = CallStop | CallCancel | CallFlat | CallHalt

text \<open>The same session with a log of the calls made on it.\<close>

definition logged :: "'s live_session \<Rightarrow> ('s \<times> session_call list) live_session" where
  "logged S =
     \<lparr>ls_stop = (\<lambda>(s, cs). (ls_stop S s, cs @ [CallStop])),
      ls_cancel = (\<lambda>(s, cs). case ls_cancel S s of (r, s') \<Rightarrow> (r, s', cs @ [CallCancel])),
      ls_flat = (\<lambda>(s, cs). case ls_flat S s of (b, s') \<Rightarrow> (b, s', cs @ [CallFlat])),
      ls_halt = (\<lambda>(s, cs). (ls_halt S s, cs @ [CallHalt]))\<rparr>"

lemma cancel_loop_log:
  "\<exists>k done s'. cancel_loop (logged S) n a (s, cs) = (a + k, done, s', cs @ replicate k CallCancel) \<and>
     k \<le> n \<and> (0 < n \<longrightarrow> 0 < k) \<and> (\<not> done \<longrightarrow> k = n)"
proof (induction n arbitrary: a s cs)
  case 0
  show ?case by (auto intro: exI [of _ 0])
next
  case (Suc n)
  obtain r s1 where c: "ls_cancel S s = (r, s1)" by fastforce
  show ?case
  proof (cases r)
    case (Inl e)
    from Suc [of "a + 1" s1 "cs @ [CallCancel]"] obtain k d s' where
      "cancel_loop (logged S) n (a + 1) (s1, cs @ [CallCancel]) =
        (a + 1 + k, d, s', (cs @ [CallCancel]) @ replicate k CallCancel)" "k \<le> n" "\<not> d \<longrightarrow> k = n" by blast
    with c Inl show ?thesis by (intro exI [of _ "Suc k"] exI [of _ d] exI [of _ s']) (simp add: logged_def)
  next
    case (Inr b)
    with c show ?thesis by (intro exI [of _ 1] exI [of _ True] exI [of _ s1]) (simp add: logged_def)
  qed
qed

lemma flat_loop_log:
  "\<exists>k flat s'. flat_loop (logged S) n (s, cs) = (flat, s', cs @ replicate k CallFlat) \<and>
     k \<le> n \<and> (0 < n \<longrightarrow> 0 < k) \<and> (\<not> flat \<longrightarrow> k = n)"
proof (induction n arbitrary: s cs)
  case 0
  show ?case by (auto intro: exI [of _ 0])
next
  case (Suc n)
  obtain r s1 where c: "ls_flat S s = (r, s1)" by fastforce
  show ?case
  proof (cases r)
    case False
    from Suc [of s1 "cs @ [CallFlat]"] obtain k d s' where
      "flat_loop (logged S) n (s1, cs @ [CallFlat]) = (d, s', (cs @ [CallFlat]) @ replicate k CallFlat)"
      "k \<le> n" "\<not> d \<longrightarrow> k = n" by blast
    with c False show ?thesis by (intro exI [of _ "Suc k"] exI [of _ d] exI [of _ s']) (simp add: logged_def)
  next
    case True
    with c show ?thesis by (intro exI [of _ 1] exI [of _ True] exI [of _ s1]) (simp add: logged_def)
  qed
qed

text \<open>
  A teardown stops emission first, then cancels, then asks for flatness, and engages the kill switch
  last, always: between one and the budgeted number of attempts each, giving up only when the budget
  is spent.
\<close>

theorem teardown_order:
  "\<exists>k m r s'. run_teardown (logged S) cancel_attempts flat_attempts (s, []) =
     (r, s', CallStop # replicate k CallCancel @ replicate m CallFlat @ [CallHalt]) \<and>
     td_cancel_attempts r = k \<and> k \<in> {1 .. max cancel_attempts 1} \<and> m \<in> {1 .. max flat_attempts 1} \<and>
     (if td_canceled r then True else k = max cancel_attempts 1) \<and>
     (if td_flat_confirmed r then True else m = max flat_attempts 1)"
proof -
  have stop: "ls_stop (logged S) (s, []) = (ls_stop S s, [CallStop])" by (simp add: logged_def)
  from cancel_loop_log [of S "max cancel_attempts 1" 0 "ls_stop S s" "[CallStop]"] obtain k d s1 where
    k: "cancel_loop (logged S) (max cancel_attempts 1) 0 (ls_stop S s, [CallStop]) =
      (k, d, s1, [CallStop] @ replicate k CallCancel)" "k \<le> max cancel_attempts 1" "0 < k"
      "\<not> d \<longrightarrow> k = max cancel_attempts 1"
    by auto
  from flat_loop_log [of S "max flat_attempts 1" s1 "[CallStop] @ replicate k CallCancel"] obtain m f s2 where
    m: "flat_loop (logged S) (max flat_attempts 1) (s1, [CallStop] @ replicate k CallCancel) =
      (f, s2, ([CallStop] @ replicate k CallCancel) @ replicate m CallFlat)" "m \<le> max flat_attempts 1" "0 < m"
      "\<not> f \<longrightarrow> m = max flat_attempts 1"
    by auto
  have halt: "ls_halt (logged S) (s2, cs) = (ls_halt S s2, cs @ [CallHalt])" for cs by (simp add: logged_def)
  have "run_teardown (logged S) cancel_attempts flat_attempts (s, []) =
      (\<lparr>td_cancel_attempts = k, td_canceled = d, td_flat_confirmed = f\<rparr>, ls_halt S s2,
       CallStop # replicate k CallCancel @ replicate m CallFlat @ [CallHalt])"
    unfolding run_teardown_def stop k(1) m(1) halt prod.case by simp
  with k(2-4) m(2-4) show ?thesis by (intro exI conjI) (assumption, auto)
qed

section \<open>The session the driver tears down\<close>

text \<open>
  What the driver relies on of a session: a stopped gate stays shut, and the halt engages the switch.
\<close>

locale teardown_session =
  fixes S :: "'s live_session" and muted :: "'s \<Rightarrow> bool" and halted :: "'s \<Rightarrow> bool"
  assumes stop_mutes: "muted (ls_stop S s)"
    and cancel_keeps: "muted s \<Longrightarrow> muted (snd (ls_cancel S s))"
    and flat_keeps: "muted s \<Longrightarrow> muted (snd (ls_flat S s))"
    and halt_keeps: "muted s \<Longrightarrow> muted (ls_halt S s)"
    and halt_halts: "halted (ls_halt S s)"
begin

lemma cancel_loop_muted: "muted s \<Longrightarrow> muted (snd (snd (cancel_loop S n a s)))"
proof (induction n arbitrary: a s)
  case (Suc n)
  obtain r s1 where "ls_cancel S s = (r, s1)" by fastforce
  moreover with cancel_keeps [OF Suc.prems] have "muted s1" by simp
  ultimately show ?case using Suc.IH by (simp split: sum.split)
qed simp

lemma flat_loop_muted: "muted s \<Longrightarrow> muted (snd (flat_loop S n s))"
proof (induction n arbitrary: s)
  case (Suc n)
  obtain r s1 where "ls_flat S s = (r, s1)" by fastforce
  moreover with flat_keeps [OF Suc.prems] have "muted s1" by simp
  ultimately show ?case using Suc.IH by (simp split: bool.split)
qed simp

lemma teardown_mutes_and_halts:
  "muted (snd (run_teardown S ca fa s)) \<and> halted (snd (run_teardown S ca fa s))"
proof -
  obtain a d s1 where c: "cancel_loop S (max ca 1) 0 (ls_stop S s) = (a, d, s1)" by (rule prod_cases3)
  obtain f s2 where f: "flat_loop S (max fa 1) s1 = (f, s2)" by fastforce
  have "muted s1" using cancel_loop_muted [OF stop_mutes, of "max ca 1" 0 s] c by simp
  then have "muted s2" using flat_loop_muted [of s1 "max fa 1"] f by simp
  then show ?thesis using c f halt_keeps halt_halts by (simp add: run_teardown_def)
qed

end

text \<open>
  \<open>LiveTeardownSession\<close>: the strategy's emission gate and the node's own client. The cancel scan and
  the flatness read go through the client and are functions of it.
\<close>

record teardown_handle =
  th_gate_open :: bool
  th_inner :: inner

definition live_teardown_session ::
    "(inner \<Rightarrow> (string + nat) \<times> inner) \<Rightarrow> (inner \<Rightarrow> bool \<times> inner) \<Rightarrow> teardown_handle live_session" where
  "live_teardown_session cancel_all verify =
     \<lparr>ls_stop = (\<lambda>s. s\<lparr>th_gate_open := False\<rparr>),
      ls_cancel = (\<lambda>s. case cancel_all (th_inner s) of
         (Inr n, w) \<Rightarrow> (Inr n, s\<lparr>th_inner := w\<rparr>)
       | (Inl e, w) \<Rightarrow> (Inl (scrub_secrets e), s\<lparr>th_inner := w\<rparr>)),
      ls_flat = (\<lambda>s. case verify (th_inner s) of (b, w) \<Rightarrow> (b, s\<lparr>th_inner := w\<rparr>)),
      ls_halt = (\<lambda>s. s\<lparr>th_inner := set_orders_enabled False (th_inner s)\<rparr>)\<rparr>"

interpretation live: teardown_session "live_teardown_session cancel_all verify"
    "\<lambda>s. \<not> th_gate_open s" "\<lambda>s. \<not> orders_enabled (th_inner s)" for cancel_all verify
  by unfold_locales
    (auto simp: live_teardown_session_def set_orders_enabled_def split: prod.split sum.split)

text \<open>
  C14. After a trip nothing trades: once any tick has found a cause, the strategy's gate is shut, the
  client refuses orders, and whatever is asked of that client afterwards, only token requests and
  reads leave it. The sink cannot prevent this by failing.
\<close>

theorem tripped_session_is_silent:
  assumes "list_ex (trips lim) xs"
  shows "(let s' = fst (fold (run_tick (live_teardown_session cancel_all verify) sink lim run_id) xs (s, t, False));
       w = foldl (run_op e c pg) (th_inner s') ops
     in \<not> th_gate_open s' \<and> \<not> orders_enabled w \<and> sends_only (harmless ops) (th_inner s') w)"
proof -
  let ?s = "snd (run_teardown (live_teardown_session cancel_all verify) 3 3 s)"
  have "\<not> th_gate_open ?s" and off: "\<not> orders_enabled (th_inner ?s)"
    using live.teardown_mutes_and_halts [of cancel_all verify 3 3 s] by blast+
  with run_ops_halted [OF off, of e c pg ops] show ?thesis
    unfolding run_ticks_state by (simp add: assms Let_def order_frame_def)
qed

section \<open>Instances\<close>

definition ex_limits :: watchdog_limits where
  "ex_limits = \<lparr>wl_interval = 60, wl_max_loss = f64_of_i64 1000\<rparr>"

definition ex_stale :: observation where
  "ex_stale = \<lparr>ob_now = 1061, ob_runtime = 1000, ob_operator = 1061, ob_realized = f64_zero, ob_open = f64_zero\<rparr>"

lemma ex_trips: "list_ex (trips ex_limits) [LivenessTick 1000 1000, WatchdogTick ex_stale]"
  by (simp add: trips_def evaluate_trip_def ex_limits_def ex_stale_def wrap64_def)

definition ex_live_session :: "teardown_handle live_session" where
  "ex_live_session = live_teardown_session (\<lambda>w. (Inr 0, w)) (\<lambda>w. (True, w))"

text \<open>A chain that cannot be written: the sink fails, and the teardown has run before it.\<close>

definition full_disk :: "unit trip_sink" where
  "full_disk kind act run_id detail now t = (Inl ''disk full'', t)"

definition ex_after_trip :: teardown_handle where
  "ex_after_trip = fst (fold (run_tick ex_live_session full_disk ex_limits None)
     [LivenessTick 1000 1000, WatchdogTick ex_stale] (\<lparr>th_gate_open = True, th_inner = sample_inner\<rparr>, (), False))"

theorem tripped_session_is_silent_witness:
  "\<not> th_gate_open ex_after_trip \<and> \<not> orders_enabled (th_inner ex_after_trip)"
  using tripped_session_is_silent [OF ex_trips, of "\<lambda>w. (Inr 0, w)" "\<lambda>w. (True, w)"
      full_disk None "\<lparr>th_gate_open = True, th_inner = sample_inner\<rparr>" "()" sample_world "sample_codec Some" sample_pagination "[]"]
  unfolding Let_def foldl.simps ex_live_session_def [symmetric] ex_after_trip_def [symmetric] by blast

section \<open>What the next dispatch sees\<close>

lemma built_kill: "dc_kill (build_context c cfg inp cat rung kill kill_record v ov) = kill"
  unfolding build_context_def Let_def
  by (cases "case cf_catalog_stub cfg of
      None \<Rightarrow> di_catalog inp
    | Some s \<Rightarrow> if s = ''ok'' then (True, True) else if s = ''empty'' then (True, False) else (False, False)") simp

lemma killed_gate:
  assumes "cs_kill chain" and "dispatch_gate c pe cfg inp h cat chain = (ctx, v, x, d)"
  shows "gd_result d \<noteq> GateGreen"
proof -
  obtain v' x' where v: "dispatch_readiness cfg h (cs_records chain) = (v', x')" by fastforce
  from assms(2) [unfolded dispatch_gate_def v prod.case Let_def]
  have ctx: "ctx = build_context c cfg inp cat (cs_rung chain) (cs_kill chain)
      (kill_switch_has_record (cs_records chain)) v' (effective_override pe cfg inp)"
    and d: "d = decide (run_checks ctx) (cf_deferrals cfg) (deferral_nonce_ok pe cfg)" by blast+
  have "dc_kill ctx = cs_kill chain" unfolding ctx by (rule built_kill)
  with assms(1) show ?thesis unfolding d(1) decide_green by (simp add: may_trade_def)
qed

text \<open>
  C21. A trip outlives the process: executed against the dispatch chain, it leaves both its cause and the
  kill-switch engagement on a chain that still verifies, and every gate evaluated over that chain is
  closed, whatever the operator defers.
\<close>

theorem trip_closes_the_gate:
  assumes "holds_epoch c st rs" and "rs \<noteq> []" and "ds_locks st = {}"
    and "r1 = appended c now rung rung None (SafetyTrip \<lparr>st_trip = safety_kind cause, st_action = Engage,
      st_run_id = run_id, st_detail = trip_detail cause\<rparr>) rs" and "codec_ok c r1"
    and "r2 = appended c now rung rung None (SafetyTrip \<lparr>st_trip = KillSwitch, st_action = Engage,
      st_run_id = run_id, st_detail = ''kill switch engaged by watchdog teardown''\<rparr>) (rs @ [r1])" and "codec_ok c r2"
  shows "\<exists>st' report. execute_trip S (record_trip c rung) cause run_id now (s, st) =
       (Inr report, snd (run_teardown S 3 3 s), st') \<and>
     chain_load c st' = walk (rs @ [r1, r2]) \<and>
     (\<forall>pe cfg inp h cat ctx v x d. dispatch_gate c pe cfg inp h cat (chain_load c st') = (ctx, v, x, d) \<longrightarrow>
        gd_result d \<noteq> GateGreen)"
proof -
  from append_epoch [OF assms(1,3) disjI1 [OF assms(2)] assms(5) [unfolded assms(4)]] assms(4) obtain st1 where
    st1: "chain_append c now rung rung None (SafetyTrip \<lparr>st_trip = safety_kind cause, st_action = Engage,
      st_run_id = run_id, st_detail = trip_detail cause\<rparr>) st = (Inr r1, st1)"
    "holds_epoch c st1 (rs @ [r1])" "ds_locks st1 = {}" by auto
  from append_epoch [OF st1(2,3) disjI1 assms(7) [unfolded assms(6)]] assms(6) obtain st2 where
    st2: "chain_append c now rung rung None (SafetyTrip \<lparr>st_trip = KillSwitch, st_action = Engage,
      st_run_id = run_id, st_detail = ''kill switch engaged by watchdog teardown''\<rparr>) st1 = (Inr r2, st2)"
    "holds_epoch c st2 ((rs @ [r1]) @ [r2])" by auto
  have load: "chain_load c st2 = walk ((rs @ [r1]) @ [r2])" using load_epoch [OF st2(2)] by simp
  have "cs_kill (chain_load c st2)"
    unfolding load walk_kill_snoc by (simp add: assms(6) appended_def sealed_def)
  then have "gd_result d \<noteq> GateGreen"
    if "dispatch_gate c pe cfg inp h cat (chain_load c st2) = (ctx, v, x, d)" for pe cfg inp h cat ctx v x d
    using that by (rule killed_gate)
  moreover have "\<exists>report. execute_trip S (record_trip c rung) cause run_id now (s, st) =
       (Inr report, snd (run_teardown S 3 3 s), st2)"
    by (cases "run_teardown S 3 3 s") (simp add: execute_trip_def record_trip_def st1(1) st2(1))
  ultimately show ?thesis using load by auto
qed

definition ex_loss_row :: chain_record where
  "ex_loss_row = ex_record ''2026-07-16-0001'' ''2026-07-16-0000'' 1
     (SafetyTrip \<lparr>st_trip = Breaker, st_action = Engage, st_run_id = None,
        st_detail = scrub_secrets (trip_detail MaxLoss)\<rparr>)"

definition ex_kill_row :: chain_record where
  "ex_kill_row = ex_record ''2026-07-16-0002'' ''2026-07-16-0001'' 1
     (SafetyTrip \<lparr>st_trip = KillSwitch, st_action = Engage, st_run_id = None,
        st_detail = scrub_secrets ''kill switch engaged by watchdog teardown''\<rparr>)"

definition ex_trip_codec :: chain_codec where
  "ex_trip_codec = table_codec [ex_genesis, ex_loss_row, ex_kill_row]"

lemma ex_trip_rows:
  "appended ex_trip_codec 1000 1 1 None
     (SafetyTrip \<lparr>st_trip = safety_kind MaxLoss, st_action = Engage, st_run_id = None,
        st_detail = trip_detail MaxLoss\<rparr>) [ex_genesis] = ex_loss_row"
  "appended ex_trip_codec 1000 1 1 None
     (SafetyTrip \<lparr>st_trip = KillSwitch, st_action = Engage, st_run_id = None,
        st_detail = ''kill switch engaged by watchdog teardown''\<rparr>) ([ex_genesis] @ [ex_loss_row]) = ex_kill_row"
  by (simp_all add: appended_def ex_trip_codec_def table_codec_def ex_loss_row_def ex_kill_row_def ex_defs
      safety_kind_def del: append.simps)

lemma ex_trip_codec_ok: "codec_ok ex_trip_codec ex_loss_row" "codec_ok ex_trip_codec ex_kill_row"
  by (simp_all add: codec_ok_def clean_line_def ex_trip_codec_def table_codec_def ex_loss_row_def ex_kill_row_def ex_defs)

lemma ex_trip_epoch: "holds_epoch ex_trip_codec (ex_store (''2026-07-16-0000'' @ newline)) [ex_genesis]"
  unfolding holds_epoch_def ex_lines
  by (simp add: whole_lines_def file_text_def file_bytes_def ex_defs opens_epoch_def ex_trip_codec_def table_codec_def)

theorem trip_closes_the_gate_witness:
  "\<exists>st' report. execute_trip ex_live_session (record_trip ex_trip_codec 1) MaxLoss None 1000
     (\<lparr>th_gate_open = True, th_inner = sample_inner\<rparr>, ex_store (''2026-07-16-0000'' @ newline)) =
       (Inr report, snd (run_teardown ex_live_session 3 3 \<lparr>th_gate_open = True, th_inner = sample_inner\<rparr>), st') \<and>
     chain_load ex_trip_codec st' = walk [ex_genesis, ex_loss_row, ex_kill_row]"
proof -
  have "ds_locks (ex_store (''2026-07-16-0000'' @ newline)) = {}" by (simp add: ex_store_def)
  from trip_closes_the_gate [where S = ex_live_session and s = "\<lparr>th_gate_open = True, th_inner = sample_inner\<rparr>",
      OF ex_trip_epoch list.discI [OF refl] this ex_trip_rows(1) [symmetric] ex_trip_codec_ok(1)
      ex_trip_rows(2) [symmetric] ex_trip_codec_ok(2)]
  show ?thesis unfolding append.simps by blast
qed

section \<open>The rehearsal's trip gate\<close>

definition last_action :: "safety_trip_kind \<Rightarrow> rehearsal_trip list \<Rightarrow> trip_action option" where
  "last_action k rs = (case rev (filter (\<lambda>x. rt_trip x = k) rs) of [] \<Rightarrow> None | x # _ \<Rightarrow> Some (rt_action x))"

lemma standing_last:
  "(\<exists>x \<in> set (fold standing_step rs []). rt_trip x = k) \<longleftrightarrow> last_action k rs = Some Engage"
proof (induction rs rule: rev_induct)
  case Nil
  show ?case by (simp add: last_action_def)
next
  case (snoc r rs)
  show ?case
  proof (cases "rt_trip r = k")
    case True
    then show ?thesis by (auto simp: standing_step_def last_action_def Let_def)
  next
    case False
    with snoc show ?thesis by (auto simp: standing_step_def last_action_def Let_def)
  qed
qed

definition clear_row :: "(int \<Rightarrow> string) \<Rightarrow> string \<Rightarrow> int \<Rightarrow> rehearsal_trip \<Rightarrow> rehearsal_trip" where
  "clear_row rfc why now t = \<lparr>rt_at = rfc now, rt_trip = rt_trip t, rt_action = trip_action.Clear,
     rt_run_id = rt_run_id t, rt_detail = scrub_secrets (''operator clear: '' @ why)\<rparr>"

lemma clear_fold:
  "fold (\<lambda>t rs. snd (ledger_record_trip rfc (rt_trip t) trip_action.Clear (rt_run_id t)
     (''operator clear: '' @ why) now rs)) xs rows = rows @ map (\<lambda>t. Some (clear_row rfc why now t)) xs"
  by (induction xs arbitrary: rows) (simp_all add: ledger_record_trip_def clear_row_def)

lemma standing_clears:
  "list_all (\<lambda>r. rt_action r = trip_action.Clear) cs \<Longrightarrow>
     fold standing_step cs ys = filter (\<lambda>x. rt_trip x \<notin> rt_trip ` set cs) ys"
  by (induction cs arbitrary: ys) (simp_all add: standing_step_def Let_def conj_commute)

lemma ledger_records_append:
  "ledger_records rows = Inr rs \<Longrightarrow> ledger_records (rows @ map (\<lambda>t. Some (f t)) xs) = Inr (rs @ map f xs)"
  by (auto simp: ledger_records_def image_iff comp_def split: if_splits)

text \<open>
  An operator's clear is all or nothing: it either writes no row, or it writes one row for every
  mechanism that stood and nothing stands afterwards, so the rehearsal gate opens.
\<close>

theorem clear_releases_every_trip:
  "case clear_standing_trips rfc why now rows of
     (Inl e, rows') \<Rightarrow> rows' = rows
   | (Inr xs, rows') \<Rightarrow> standing_trips rows = Inr xs \<and> xs \<noteq> [] \<and> length rows' = length rows + length xs \<and>
       standing_trips rows' = Inr [] \<and> standing_trip rows' = Inr None"
proof (cases "trim why = []")
  case False
  note why = this
  show ?thesis
  proof (cases "ledger_records rows")
    case (Inl e)
    with why show ?thesis by (simp add: clear_standing_trips_def standing_trips_def Let_def)
  next
    case (Inr rs)
    then have st: "standing_trips rows = Inr (fold standing_step rs [])" by (simp add: standing_trips_def)
    show ?thesis
    proof (cases "fold standing_step rs []")
      case Nil
      with st why show ?thesis by (simp add: clear_standing_trips_def Let_def)
    next
      case (Cons y ys)
      let ?cs = "map (clear_row rfc (trim why) now) (y # ys)"
      let ?rows = "rows @ map (\<lambda>t. Some (clear_row rfc (trim why) now t)) (y # ys)"
      have run: "clear_standing_trips rfc why now rows = (Inr (y # ys), ?rows)"
        unfolding clear_standing_trips_def Let_def st Cons sum.case list.case clear_fold using why by simp
      have "fold standing_step (rs @ ?cs) [] = filter (\<lambda>x. rt_trip x \<notin> rt_trip ` set ?cs) (y # ys)"
        unfolding fold_append o_apply Cons by (rule standing_clears) (simp add: clear_row_def list_all_iff)
      also have "\<dots> = []" by (auto simp: filter_empty_conv clear_row_def image_iff)
      finally have gone: "standing_trips ?rows = Inr []"
        unfolding standing_trips_def ledger_records_append [OF Inr] by simp
      then have "standing_trip ?rows = Inr None" by (simp add: standing_trip_def)
      with run gone st Cons show ?thesis by simp
    qed
  qed
qed (simp add: clear_standing_trips_def)

text \<open>A mechanism stands in the ledger exactly if its last row engages it.\<close>

theorem trip_stands_until_cleared:
  "case standing_trips (map Some rs) of
     Inl e \<Rightarrow> False
   | Inr xs \<Rightarrow> (k \<in> rt_trip ` set xs) = (last_action k rs = Some Engage)"
proof -
  have "ledger_records (map Some rs) = Inr rs" by (auto simp: ledger_records_def comp_def)
  then show ?thesis using standing_last [where k = k and rs = rs] by (auto simp: standing_trips_def image_iff)
qed

end
