(* ===== verification/Calendar_Diagnostics.thy ===== *)
theory Calendar_Diagnostics
  imports Krx_Calendar
begin

text \<open>
  \<open>adapters/nautilus/nautilus-ls-calendar/src/diagnostics.rs\<close> and \<open>adoption.rs\<close>: the one diagnostic
  record of the calendar, built from a load error or a view, and its human rendering. The digest and
  the printing of dates, instants and the derived JSON are functions of a \<open>diagnostic_codec\<close>.
\<close>

section \<open>Adoption\<close>

datatype calendar_adoption = Enforced

definition adoption_as_str :: "calendar_adoption \<Rightarrow> string" where
  "adoption_as_str a = (case a of Enforced \<Rightarrow> ''enforced'')"

definition adoption_parse :: "string \<Rightarrow> calendar_adoption option" where
  "adoption_parse raw = (if map ascii_lower (trim raw) = ''enforced'' then Some Enforced else None)"

section \<open>The record\<close>

datatype load_failure =
    LoadMissing | LoadUnreadable | LoadCorrupt | LoadIncompatible | LoadIntegrity
  | LoadUnauthorized | LoadExpired | LoadCoverage

datatype diagnostic_outcome =
    OutcomeHealthy | OutcomeStale | OutcomeUnknown | OutcomeConflict | OutcomeOutOfRange
  | OutcomeLoad load_failure

definition is_usable :: "diagnostic_outcome \<Rightarrow> bool" where
  "is_usable o' = (o' \<in> {OutcomeHealthy, OutcomeStale, OutcomeUnknown, OutcomeConflict})"

definition failure_token :: "load_failure \<Rightarrow> string" where
  "failure_token k = (case k of
     LoadMissing \<Rightarrow> ''missing'' | LoadUnreadable \<Rightarrow> ''unreadable'' | LoadCorrupt \<Rightarrow> ''corrupt''
   | LoadIncompatible \<Rightarrow> ''incompatible'' | LoadIntegrity \<Rightarrow> ''integrity''
   | LoadUnauthorized \<Rightarrow> ''unauthorized'' | LoadExpired \<Rightarrow> ''expired'' | LoadCoverage \<Rightarrow> ''coverage'')"

definition outcome_token :: "diagnostic_outcome \<Rightarrow> string" where
  "outcome_token o' = (case o' of
     OutcomeHealthy \<Rightarrow> ''healthy'' | OutcomeStale \<Rightarrow> ''stale'' | OutcomeUnknown \<Rightarrow> ''unknown''
   | OutcomeConflict \<Rightarrow> ''conflict'' | OutcomeOutOfRange \<Rightarrow> ''out_of_range''
   | OutcomeLoad k \<Rightarrow> ''load:'' @ failure_token k)"

record authorization_view =
  avw_authorized :: bool
  avw_expires :: "int option"
  avw_terminated :: "int option"
  avw_authority :: string

record coverage_summary =
  csm_from :: int
  csm_through :: int
  csm_retro :: int
  csm_scheduled :: int

record calendar_diagnostic =
  cd_outcome :: diagnostic_outcome
  cd_as_of :: int
  cd_artifact :: "string option"
  cd_calendar :: "string option"
  cd_authorization :: "authorization_view option"
  cd_coverage :: "coverage_summary option"
  cd_freshness :: "freshness_report option"
  cd_target :: "int option"
  cd_status :: "day_status option"
  cd_alerts :: "string list"
  cd_detail :: string

record diagnostic_codec =
  dk_sha :: "string \<Rightarrow> string"
  dk_date :: "int \<Rightarrow> string"
  dk_instant :: "int \<Rightarrow> string"
  dk_json :: "calendar_diagnostic \<Rightarrow> string + string"

definition mask_identity :: "diagnostic_codec \<Rightarrow> string \<Rightarrow> string" where
  "mask_identity k raw = ''redacted-sha256:'' @ take 12 (dk_sha k raw)"

definition redacted :: "diagnostic_codec \<Rightarrow> authorization \<Rightarrow> authorization_view" where
  "redacted k a = \<lparr>avw_authorized = au_authorized a, avw_expires = au_expires a,
     avw_terminated = au_terminated a, avw_authority = mask_identity k (au_authority a)\<rparr>"

definition coverage_summary_from :: "coverage \<Rightarrow> coverage_summary" where
  "coverage_summary_from cv = \<lparr>csm_from = cv_from cv, csm_through = cv_through cv,
     csm_retro = cv_retro cv, csm_scheduled = cv_scheduled cv\<rparr>"

definition load_error_outcome :: "diagnostic_codec \<Rightarrow> load_error \<Rightarrow> diagnostic_outcome \<times> string" where
  "load_error_outcome k e =
     (case e of
        Missing \<Rightarrow> (OutcomeLoad LoadMissing, ''snapshot file not found'')
      | Unreadable _ \<Rightarrow> (OutcomeLoad LoadUnreadable, ''snapshot file could not be read'')
      | Corrupt _ \<Rightarrow> (OutcomeLoad LoadCorrupt, ''snapshot JSON is not well-formed for the schema'')
      | UnsupportedSchema found \<Rightarrow> (OutcomeLoad LoadIncompatible, ''unsupported schema version '' @ found)
      | HashMismatch field \<Rightarrow>
          (OutcomeLoad LoadIntegrity, ''recomputed '' @ field @ '' does not match the declared identity'')
      | Unauthorized \<Rightarrow> (OutcomeLoad LoadUnauthorized, ''calendar data is not authorized for use'')
      | Expired \<Rightarrow> (OutcomeLoad LoadExpired, ''calendar authorization has expired or been terminated'')
      | OutOfRange \<Rightarrow> (OutcomeOutOfRange, ''query target is outside the materialized coverage window'')
      | Gapped d \<Rightarrow> (OutcomeLoad LoadCoverage, ''materialized coverage has a gap at '' @ dk_date k d)
      | Duplicated d \<Rightarrow> (OutcomeLoad LoadCoverage, ''materialized coverage duplicates '' @ dk_date k d)
      | DanglingReference i \<Rightarrow> (OutcomeLoad LoadCoverage, ''dangling evidence/alert reference: '' @ i)
      | ImpossibleCoverage m \<Rightarrow> (OutcomeLoad LoadCoverage, ''impossible coverage: '' @ m))"

definition from_load_error :: "diagnostic_codec \<Rightarrow> int \<Rightarrow> load_error \<Rightarrow> calendar_diagnostic" where
  "from_load_error k t e =
     (let (out, detail) = load_error_outcome k e
      in \<lparr>cd_outcome = out, cd_as_of = t, cd_artifact = None, cd_calendar = None, cd_authorization = None,
          cd_coverage = None, cd_freshness = None, cd_target = None, cd_status = None, cd_alerts = [],
          cd_detail = detail\<rparr>)"

definition from_view_untargeted :: "diagnostic_codec \<Rightarrow> as_of_view \<Rightarrow> calendar_diagnostic" where
  "from_view_untargeted k v =
     (let s = av_calendar v; f = view_freshness v
      in \<lparr>cd_outcome = (if any_stale f then OutcomeStale else OutcomeHealthy), cd_as_of = av_instant v,
          cd_artifact = Some (sn_artifact s), cd_calendar = Some (sn_calendar s),
          cd_authorization = Some (redacted k (sn_authorization s)),
          cd_coverage = Some (coverage_summary_from (sn_coverage s)), cd_freshness = Some f,
          cd_target = None, cd_status = None, cd_alerts = [],
          cd_detail = ''posture summary; calendar '' @ (if any_stale f then ''stale'' else ''healthy'')\<rparr>)"

definition status_debug :: "day_status \<Rightarrow> string" where
  "status_debug st = (case st of
     DayTradingSession \<Rightarrow> ''TradingSession'' | DayClosed \<Rightarrow> ''Closed'' | DayUnknown \<Rightarrow> ''Unknown'')"

definition day_outcome :: "day_fact \<Rightarrow> freshness_report \<Rightarrow> diagnostic_outcome" where
  "day_outcome f fresh =
     (if df_status f = DayUnknown then OutcomeUnknown
      else if df_conflicting f \<noteq> [] \<or> df_alerts f \<noteq> [] then OutcomeConflict
      else if any_stale fresh then OutcomeStale
      else OutcomeHealthy)"

definition day_detail :: "diagnostic_codec \<Rightarrow> int \<Rightarrow> day_fact \<Rightarrow> diagnostic_outcome \<Rightarrow> string" where
  "day_detail k d f out =
     (case out of
        OutcomeUnknown \<Rightarrow> dk_date k d @ '' is Unknown (maintained evidence does not cover it)''
      | OutcomeConflict \<Rightarrow> dk_date k d @ '' carries a retained reconciliation conflict''
      | OutcomeStale \<Rightarrow> dk_date k d @ '' is '' @ status_debug (df_status f) @ ''; a freshness dimension is stale''
      | _ \<Rightarrow> dk_date k d @ '' is '' @ status_debug (df_status f) @ ''; calendar healthy'')"

definition from_view :: "diagnostic_codec \<Rightarrow> as_of_view \<Rightarrow> int \<Rightarrow> calendar_diagnostic" where
  "from_view k v d =
     (let s = av_calendar v; fresh = view_freshness v;
          base = \<lparr>cd_outcome = OutcomeOutOfRange, cd_as_of = av_instant v,
            cd_artifact = Some (sn_artifact s), cd_calendar = Some (sn_calendar s),
            cd_authorization = Some (redacted k (sn_authorization s)),
            cd_coverage = Some (coverage_summary_from (sn_coverage s)), cd_freshness = Some fresh,
            cd_target = Some d, cd_status = None, cd_alerts = [], cd_detail = []\<rparr>
      in case view_day v d of
           Inr f \<Rightarrow>
             (let out = day_outcome f fresh
              in base \<lparr>cd_outcome := out, cd_status := Some (df_status f),
                   cd_alerts := map al_message (df_alerts f), cd_detail := day_detail k d f out\<rparr>)
         | Inl (QueryOutOfRange x) \<Rightarrow>
             base \<lparr>cd_detail := ''query target '' @ dk_date k x @ '' is outside the materialized coverage window''\<rparr>
         | Inl DateOverflow \<Rightarrow>
             base \<lparr>cd_detail := ''query range endpoint overflowed the representable date domain''\<rparr>)"

section \<open>Rendering\<close>

definition nl :: string where "nl = [CHR 0x0A]"
definition arrow :: string where "arrow = utf8 [226, 134, 146]"
definition middot :: string where "middot = utf8 [194, 183]"

definition staleness_debug :: "dimension_staleness \<Rightarrow> string" where
  "staleness_debug x = (case x of Fresh \<Rightarrow> ''Fresh'' | Stale \<Rightarrow> ''Stale'' | Unevaluated \<Rightarrow> ''Unevaluated'')"

definition opt_text :: "('a \<Rightarrow> string) \<Rightarrow> 'a option \<Rightarrow> string" where
  "opt_text f x = (case x of None \<Rightarrow> [] | Some a \<Rightarrow> f a)"

definition render_authorization :: "diagnostic_codec \<Rightarrow> authorization_view \<Rightarrow> string" where
  "render_authorization k a =
     ''  authorization: '' @ (if avw_authorized a then ''authorized'' else ''unauthorized'') @
     '' (authority '' @ avw_authority a @ '')'' @ nl @
     opt_text (\<lambda>t. ''    expires_at: '' @ dk_instant k t @ nl) (avw_expires a) @
     opt_text (\<lambda>t. ''    terminated_at: '' @ dk_instant k t @ nl) (avw_terminated a)"

definition render_coverage :: "diagnostic_codec \<Rightarrow> coverage_summary \<Rightarrow> string" where
  "render_coverage k cv =
     ''  coverage: materialized '' @ dk_date k (csm_from cv) @ ''..'' @ dk_date k (csm_through cv) @ '' '' @
     middot @ '' retro-checked '' @ dk_date k (csm_retro cv) @ '' '' @ middot @ '' scheduled-closures '' @
     dk_date k (csm_scheduled cv) @ nl"

definition render_freshness :: "freshness_report \<Rightarrow> string" where
  "render_freshness f =
     ''  freshness: '' @ (if any_stale f then ''stale'' else ''fresh'') @ '' (kasi '' @ staleness_debug (fp_kasi f) @
     '', full-history '' @ staleness_debug (fp_full f) @ '', incremental '' @ staleness_debug (fp_incremental f) @
     '', forward '' @ staleness_debug (fp_forward f) @ '')'' @ nl"

definition render_human :: "diagnostic_codec \<Rightarrow> calendar_diagnostic \<Rightarrow> string" where
  "render_human k x =
     ''calendar diagnostic'' @ nl @
     ''  outcome: '' @ outcome_token (cd_outcome x) @ nl @
     ''  as_of: '' @ dk_instant k (cd_as_of x) @ nl @
     (case (cd_artifact x, cd_calendar x) of
        (Some a, Some c) \<Rightarrow> ''  artifact_id: '' @ a @ nl @ ''  calendar_id: '' @ c @ nl
      | _ \<Rightarrow> ''  snapshot: unavailable'' @ nl) @
     opt_text (render_authorization k) (cd_authorization x) @
     opt_text (render_coverage k) (cd_coverage x) @
     opt_text render_freshness (cd_freshness x) @
     opt_text (\<lambda>d. ''  day: '' @ dk_date k d @ '' '' @ arrow @ '' '' @
       (case cd_status x of Some st \<Rightarrow> status_debug st | None \<Rightarrow> ''(no status)'') @ nl) (cd_target x) @
     (if cd_alerts x \<noteq> []
      then ''  alerts: '' @ show_nat (length (cd_alerts x)) @ nl @
           concat (map (\<lambda>m. ''    - '' @ m @ nl) (cd_alerts x))
      else []) @
     ''  detail: '' @ cd_detail x @ nl"

definition render_json :: "diagnostic_codec \<Rightarrow> calendar_diagnostic \<Rightarrow> string" where
  "render_json k x =
     (case dk_json k x of
        Inr s \<Rightarrow> s
      | Inl e \<Rightarrow> ''{\"error\":\"diagnostic serialization failed: '' @ e @ ''\"}'')"

section \<open>Properties\<close>

definition with_authority :: "string \<Rightarrow> as_of_view \<Rightarrow> as_of_view" where
  "with_authority a v = v \<lparr>av_calendar := av_calendar v \<lparr>sn_authorization :=
     sn_authorization (av_calendar v) \<lparr>au_authority := a\<rparr>\<rparr>\<rparr>"

lemma with_authority_day: "view_day (with_authority a v) d = view_day v d"
  by (simp add: view_day_def with_authority_def Let_def resolve_row_def split: option.split)

lemma with_authority_fresh: "view_freshness (with_authority a v) = view_freshness v"
  by (simp add: view_freshness_def with_authority_def Let_def)

lemma with_authority_rest:
  "av_instant (with_authority a v) = av_instant v"
  "sn_artifact (av_calendar (with_authority a v)) = sn_artifact (av_calendar v)"
  "sn_calendar (av_calendar (with_authority a v)) = sn_calendar (av_calendar v)"
  "sn_coverage (av_calendar (with_authority a v)) = sn_coverage (av_calendar v)"
  by (simp_all add: with_authority_def)

text \<open>
  Everything a diagnostic shows of the granting authority is its fingerprint: two authorities
  with one fingerprint give the same record, so the same text and JSON, for every view and target
  day. (A load failure has no authorization to show.)\<close>

theorem diagnostics_hide_the_authority:
  assumes "mask_identity k a = mask_identity k b"
  shows "from_view k (with_authority a v) d = from_view k (with_authority b v) d \<and>
    from_view_untargeted k (with_authority a v) = from_view_untargeted k (with_authority b v)"
proof -
  have *: "redacted k (sn_authorization (av_calendar (with_authority a v))) =
      redacted k (sn_authorization (av_calendar (with_authority b v)))"
    using assms by (simp add: with_authority_def redacted_def)
  show ?thesis
    unfolding from_view_def from_view_untargeted_def Let_def with_authority_day with_authority_fresh
      with_authority_rest * by simp
qed

theorem diagnostics_hide_the_authority_witness:
  "from_view \<lparr>dk_sha = \<lambda>_. ''abcdefabcdef'', dk_date = \<lambda>_. [], dk_instant = \<lambda>_. [], dk_json = Inr \<circ> cd_detail\<rparr>
     (with_authority ''Kim'' sample_view) 738890 =
   from_view \<lparr>dk_sha = \<lambda>_. ''abcdefabcdef'', dk_date = \<lambda>_. [], dk_instant = \<lambda>_. [], dk_json = Inr \<circ> cd_detail\<rparr>
     (with_authority ''Lee'' sample_view) 738890"
  by (rule diagnostics_hide_the_authority [THEN conjunct1]) (simp add: mask_identity_def)

text \<open>
  A diagnostic is usable exactly when it comes from a view and the queried day is in the
  window; a load failure is never one of the usable outcomes and never an Unknown day.\<close>

theorem usable_iff_answered:
  "is_usable (cd_outcome (from_view k v d)) = (\<exists>f. view_day v d = Inr f) \<and>
   \<not> is_usable (cd_outcome (from_load_error k t e)) \<and> cd_status (from_load_error k t e) = None"
proof -
  have "is_usable (day_outcome f fresh)" for f fresh by (simp add: day_outcome_def is_usable_def)
  moreover have "\<not> is_usable (fst (load_error_outcome k e))"
    by (cases e) (simp_all add: load_error_outcome_def is_usable_def)
  ultimately show ?thesis
    by (auto simp: from_view_def from_load_error_def Let_def is_usable_def split: sum.splits query_error.splits prod.splits)
qed

end
