(* ===== verification/Calendar_Startup.thy ===== *)
theory Calendar_Startup
  imports Calendar_Diagnostics
begin

text \<open>
  \<open>adapters/nautilus/src/calendar.rs\<close>: how a process resolves, loads and records the calendar it
  runs under. The environment is a list of variables, the file system a function from paths.
\<close>

datatype loaded_calendar =
    Available snapshot
  | CalendarUnavailable load_error
  | NotConfigured

definition loaded_snapshot :: "loaded_calendar \<Rightarrow> snapshot option" where
  "loaded_snapshot l = (case l of Available s \<Rightarrow> Some s | _ \<Rightarrow> None)"

definition is_available :: "loaded_calendar \<Rightarrow> bool" where
  "is_available l = (case l of Available _ \<Rightarrow> True | _ \<Rightarrow> False)"

definition resolve_and_load ::
  "snapshot_codec \<Rightarrow> (string \<Rightarrow> snapshot_file) \<Rightarrow> string option \<Rightarrow> int \<Rightarrow> calendar_adoption \<Rightarrow> loaded_calendar" where
  "resolve_and_load c fs path t adoption =
     (case path of
        None \<Rightarrow> NotConfigured
      | Some p \<Rightarrow>
          (case load_from_path c (fs p) t of Inr s \<Rightarrow> Available s | Inl e \<Rightarrow> CalendarUnavailable e))"

datatype resulting_action_kind = EnforcedActive | EnforcedFailClosed

definition resulting_action :: "calendar_adoption \<Rightarrow> bool \<Rightarrow> resulting_action_kind" where
  "resulting_action a available = (case a of Enforced \<Rightarrow> if available then EnforcedActive else EnforcedFailClosed)"

definition action_token :: "resulting_action_kind \<Rightarrow> string" where
  "action_token a = (case a of EnforcedActive \<Rightarrow> ''enforced-active'' | EnforcedFailClosed \<Rightarrow> ''enforced-fail-closed'')"

record startup_record =
  sur_consumer :: string
  sur_adoption :: calendar_adoption
  sur_diagnostic :: "calendar_diagnostic option"
  sur_action :: resulting_action_kind

definition diagnostic_parts :: "diagnostic_codec \<Rightarrow> calendar_diagnostic \<Rightarrow> string list" where
  "diagnostic_parts k x =
     (case (cd_artifact x, cd_calendar x) of
        (Some a, Some c) \<Rightarrow> [''artifact_id='' @ a, ''calendar_id='' @ c]
      | _ \<Rightarrow> [''snapshot=unavailable'']) @
     (case cd_authorization x of None \<Rightarrow> []
      | Some a \<Rightarrow> [''auth='' @ (if avw_authorized a then ''authorized'' else ''unauthorized'')]) @
     (case cd_coverage x of None \<Rightarrow> []
      | Some cv \<Rightarrow> [''coverage='' @ dk_date k (csm_from cv) @ ''..'' @ dk_date k (csm_through cv)]) @
     (case cd_freshness x of None \<Rightarrow> []
      | Some f \<Rightarrow> [''freshness='' @ (if any_stale f then ''stale'' else ''fresh'')]) @
     (case (cd_target x, cd_status x) of
        (Some d, Some st) \<Rightarrow> [''day='' @ dk_date k d @ '':'' @ status_debug st]
      | (Some d, None) \<Rightarrow> [''day='' @ dk_date k d @ '':none'']
      | _ \<Rightarrow> []) @
     [''outcome='' @ outcome_token (cd_outcome x), ''alerts='' @ show_nat (length (cd_alerts x))]"

definition render_line :: "diagnostic_codec \<Rightarrow> startup_record \<Rightarrow> string" where
  "render_line k r = join '' ''
     ([''calendar-startup'', ''consumer='' @ sur_consumer r, ''adoption='' @ adoption_as_str (sur_adoption r)] @
      (case sur_diagnostic r of None \<Rightarrow> [''snapshot=not-configured''] | Some x \<Rightarrow> diagnostic_parts k x) @
      [''action='' @ action_token (sur_action r)])"

definition build_startup_record_targeted ::
  "diagnostic_codec \<Rightarrow> string \<Rightarrow> calendar_adoption \<Rightarrow> loaded_calendar \<Rightarrow> int \<Rightarrow> int option \<Rightarrow> startup_record" where
  "build_startup_record_targeted k consumer adoption l t target =
     (let (diag, available) =
        (case l of
           Available s \<Rightarrow>
             (case as_of s t of
                Inr v \<Rightarrow>
                  (let x = (case target of Some d \<Rightarrow> from_view k v d | None \<Rightarrow> from_view_untargeted k v)
                   in (Some x, is_usable (cd_outcome x)))
              | Inl e \<Rightarrow> (Some (from_load_error k t e), False))
         | CalendarUnavailable e \<Rightarrow> (Some (from_load_error k t e), False)
         | NotConfigured \<Rightarrow> (None, False))
      in \<lparr>sur_consumer = consumer, sur_adoption = adoption, sur_diagnostic = diag,
          sur_action = resulting_action adoption available\<rparr>)"

definition build_startup_record ::
  "diagnostic_codec \<Rightarrow> string \<Rightarrow> calendar_adoption \<Rightarrow> loaded_calendar \<Rightarrow> int \<Rightarrow> int \<Rightarrow> startup_record" where
  "build_startup_record k consumer adoption l t d = build_startup_record_targeted k consumer adoption l t (Some d)"

section \<open>The composition root\<close>

definition SNAPSHOT_PATH_ENV :: string where "SNAPSHOT_PATH_ENV = ''LS_CALENDAR_SNAPSHOT''"
definition ADOPTION_ENV :: string where "ADOPTION_ENV = ''LS_CALENDAR_ADOPTION''"

definition snapshot_path_from_env :: "(string \<Rightarrow> string option) \<Rightarrow> string option" where
  "snapshot_path_from_env env = (case env SNAPSHOT_PATH_ENV of None \<Rightarrow> None | Some s \<Rightarrow> if trim s = [] then None else Some s)"

definition adoption_from_env :: "(string \<Rightarrow> string option) \<Rightarrow> calendar_adoption" where
  "adoption_from_env env = (case env ADOPTION_ENV of None \<Rightarrow> Enforced
     | Some v \<Rightarrow> (case adoption_parse v of Some a \<Rightarrow> a | None \<Rightarrow> Enforced))"

record ingest_calendar_context =
  ic_loaded :: loaded_calendar
  ic_adoption :: calendar_adoption
  ic_as_of :: int

definition context_resolve ::
  "snapshot_codec \<Rightarrow> (string \<Rightarrow> snapshot_file) \<Rightarrow> string option \<Rightarrow> calendar_adoption \<Rightarrow> int \<Rightarrow> ingest_calendar_context" where
  "context_resolve c fs path adoption t =
     \<lparr>ic_loaded = resolve_and_load c fs path t adoption, ic_adoption = adoption, ic_as_of = t\<rparr>"

definition context_from_env ::
  "snapshot_codec \<Rightarrow> (string \<Rightarrow> snapshot_file) \<Rightarrow> (string \<Rightarrow> string option) \<Rightarrow> int \<Rightarrow> ingest_calendar_context" where
  "context_from_env c fs env t = context_resolve c fs (snapshot_path_from_env env) (adoption_from_env env) t"

definition context_view :: "ingest_calendar_context \<Rightarrow> as_of_view option" where
  "context_view x = (case loaded_snapshot (ic_loaded x) of None \<Rightarrow> None
     | Some s \<Rightarrow> (case as_of s (ic_as_of x) of Inr v \<Rightarrow> Some v | Inl _ \<Rightarrow> None))"

definition kst_date :: "int \<Rightarrow> int" where
  "kst_date t = date_naive (t + 9 * 3600 * 10 ^ 9)"

definition startup_from_env ::
  "diagnostic_codec \<Rightarrow> snapshot_codec \<Rightarrow> (string \<Rightarrow> snapshot_file) \<Rightarrow> (string \<Rightarrow> string option) \<Rightarrow> int \<Rightarrow> string \<Rightarrow> startup_record" where
  "startup_from_env k c fs env t consumer =
     (let x = context_from_env c fs env t
      in build_startup_record k consumer (ic_adoption x) (ic_loaded x) (ic_as_of x) (kst_date t))"

section \<open>Properties\<close>

text \<open>A calendar a process holds was validated for the instant it was loaded at.\<close>

lemma loaded_is_ok:
  assumes "resolve_and_load c fs path t a = Available s"
  shows "calendar_ok s" "\<exists>p. path = Some p \<and> from_snapshot c s t = Inr s"
proof -
  obtain p s' where "path = Some p" "from_snapshot c s' t = Inr s"
    using assms by (auto simp: resolve_and_load_def load_from_path_def split: option.splits sum.splits snapshot_file.splits)
  with from_snapshot_ok [of c s' t s] show "calendar_ok s" "\<exists>p. path = Some p \<and> from_snapshot c s t = Inr s" by simp_all
qed

text \<open>
  A process that starts from its environment runs under the calendar exactly when the
  configured file is a valid, authorized snapshot that answers for the current day in Seoul; in every
  other case, from a missing path to a date out of the window, it fails closed.\<close>

theorem startup_fails_closed:
  "sur_action (startup_from_env k c fs env t consumer) = EnforcedActive \<longleftrightarrow>
     (\<exists>p s v f. snapshot_path_from_env env = Some p \<and> load_from_path c (fs p) t = Inr s \<and>
        as_of s t = Inr v \<and> view_day v (kst_date t) = Inr f)"
proof -
  have us: "is_usable (cd_outcome (from_view k v d)) = (\<exists>f. view_day v d = Inr f)" for v d
    by (auto simp: from_view_def Let_def is_usable_def day_outcome_def split: sum.splits query_error.splits)
  have ad: "resulting_action a b = EnforcedActive \<longleftrightarrow> b" for a b
    by (cases a) (simp add: resulting_action_def)
  show ?thesis
    by (auto simp: startup_from_env_def context_from_env_def context_resolve_def Let_def build_startup_record_def
        build_startup_record_targeted_def resolve_and_load_def ad us split: option.splits sum.splits)
qed

end
