(* ===== verification/Ingest_Gate.thy ===== *)
theory Ingest_Gate
  imports Krx_Calendar
begin

text \<open>
  The calendar gate of the historical ingest (\<open>adapters/nautilus/src/ingest/mod.rs\<close>): what the
  injected calendar view lets a run fetch, skip, attest and warn about.
\<close>

section \<open>The last closed session\<close>

text \<open>A \<open>NaiveDateTime\<close> is its day and its nanosecond of the day; \<open>None\<close> is the panic of \<open>expect\<close>.\<close>

definition ACCUMULATE_CLOSE_BUFFER :: int where
  "ACCUMULATE_CLOSE_BUFFER = (16 * 3600 + 30 * 60) * 10 ^ 9"

definition last_closed_session :: "int \<times> int \<Rightarrow> int \<Rightarrow> int option" where
  "last_closed_session now_kst close_buffer =
     (if close_buffer \<le> snd now_kst then Some (fst now_kst) else pred_opt (fst now_kst))"

section \<open>Decisions\<close>

datatype date_decision = Fetch | ClosedAdvance | UnknownStop | UnavailableStop
datatype fetch_action = Proceed | SkipAdvance | StopGate
datatype probe_anchor_decision = UseAnchor int | StopAnchor
datatype continuity = AllClosed | TradingPresent | Indeterminate
datatype widen_decision = EmitPersist | EmitUncertain | Suppress

record range_plan =
  rp_request :: "int option"
  rp_advance :: "int option"
  rp_stop :: "int option"

definition destructive_request_through :: "range_plan \<Rightarrow> int option" where
  "destructive_request_through p = (if rp_stop p = None then rp_request p else None)"

definition breaks_chain :: "continuity \<Rightarrow> bool" where
  "breaks_chain c = (c \<noteq> AllClosed)"

type_synonym calendar_gate = "as_of_view option"

definition full_history_freshness :: "calendar_gate \<Rightarrow> dimension_staleness option" where
  "full_history_freshness g = map_option (\<lambda>v. fp_full (view_freshness v)) g"

definition has_stale_evidence :: "calendar_gate \<Rightarrow> bool" where
  "has_stale_evidence g = (case g of None \<Rightarrow> False | Some v \<Rightarrow> any_stale (view_freshness v))"

definition calendar_decision :: "calendar_gate \<Rightarrow> int \<Rightarrow> date_decision" where
  "calendar_decision g d =
     (case g of
        None \<Rightarrow> UnavailableStop
      | Some v \<Rightarrow>
          (case view_day v d of
             Inr f \<Rightarrow>
               (case df_status f of
                  DayTradingSession \<Rightarrow> Fetch | DayClosed \<Rightarrow> ClosedAdvance | DayUnknown \<Rightarrow> UnknownStop)
           | Inl _ \<Rightarrow> UnavailableStop))"

definition gate_action :: "calendar_gate \<Rightarrow> int \<Rightarrow> fetch_action" where
  "gate_action g d =
     (case calendar_decision g d of
        Fetch \<Rightarrow> Proceed | ClosedAdvance \<Rightarrow> SkipAdvance | UnknownStop \<Rightarrow> StopGate | UnavailableStop \<Rightarrow> StopGate)"

section \<open>Scans\<close>

function scan_continuity_loop :: "calendar_gate \<Rightarrow> bool \<Rightarrow> int \<Rightarrow> int \<Rightarrow> continuity" where
  "scan_continuity_loop g indet d e =
     (if d < e then
        (case calendar_decision g d of
           Fetch \<Rightarrow> TradingPresent
         | k \<Rightarrow>
             (let indet' = (indet \<or> k = UnknownStop \<or> k = UnavailableStop)
              in case succ_opt d of
                   None \<Rightarrow> if indet' then Indeterminate else AllClosed
                 | Some n \<Rightarrow> scan_continuity_loop g indet' n e))
      else if indet then Indeterminate else AllClosed)"
  by pat_completeness auto
termination
  by (relation "measure (\<lambda>(g, i, d, e). nat (e - d))") (auto simp: succ_opt_def split: if_splits)

declare scan_continuity_loop.simps [simp del]

definition scan_continuity :: "calendar_gate \<Rightarrow> int \<Rightarrow> int \<Rightarrow> continuity" where
  "scan_continuity g first end_exclusive = scan_continuity_loop g False first end_exclusive"

definition scan_inclusive :: "calendar_gate \<Rightarrow> int \<Rightarrow> int \<Rightarrow> continuity" where
  "scan_inclusive g start last_closed =
     (if last_closed < start then AllClosed
      else case succ_opt last_closed of
          Some e \<Rightarrow> scan_continuity g start e
        | None \<Rightarrow> scan_continuity g start last_closed)"

definition range_action :: "calendar_gate \<Rightarrow> int \<Rightarrow> int \<Rightarrow> fetch_action" where
  "range_action g start last_closed =
     (case scan_inclusive g start last_closed of
        AllClosed \<Rightarrow> SkipAdvance | TradingPresent \<Rightarrow> Proceed | Indeterminate \<Rightarrow> StopGate)"

definition continuity_decision :: "calendar_gate \<Rightarrow> int \<Rightarrow> int \<Rightarrow> continuity" where
  "continuity_decision g after before =
     (case succ_opt after of Some first \<Rightarrow> scan_continuity g first before | None \<Rightarrow> AllClosed)"

section \<open>The established prefix\<close>

fun prefix_scan :: "range_plan \<Rightarrow> day_row list \<Rightarrow> range_plan" where
  "prefix_scan p [] = p"
| "prefix_scan p (r # rs) =
     (case dr_status r of
        DayTradingSession \<Rightarrow> prefix_scan (p \<lparr>rp_request := Some (dr_date r), rp_advance := Some (dr_date r)\<rparr>) rs
      | DayClosed \<Rightarrow> prefix_scan (p \<lparr>rp_advance := Some (dr_date r)\<rparr>) rs
      | DayUnknown \<Rightarrow> p \<lparr>rp_stop := Some (dr_date r)\<rparr>)"

definition established_prefix :: "calendar_gate \<Rightarrow> int \<Rightarrow> int \<Rightarrow> range_plan" where
  "established_prefix g start ceiling =
     (let plan = \<lparr>rp_request = None, rp_advance = None, rp_stop = None\<rparr>
      in if ceiling < start then plan
         else case g of
             None \<Rightarrow> plan \<lparr>rp_stop := Some start\<rparr>
           | Some v \<Rightarrow>
               (let s = av_calendar v; cov = sn_coverage s
                in if start < cv_from cov \<or> cv_through cov < start then plan \<lparr>rp_stop := Some start\<rparr>
                   else
                     (let scan_end = min ceiling (cv_through cov);
                          plan = prefix_scan plan
                            (takeWhile (\<lambda>r. dr_date r \<le> scan_end) (filter (\<lambda>r. start \<le> dr_date r) (sn_rows s)))
                      in if rp_stop plan = None \<and> cv_through cov < ceiling
                         then plan \<lparr>rp_stop := succ_opt (cv_through cov)\<rparr>
                         else plan)))"

definition accumulate_plan :: "calendar_gate \<Rightarrow> int \<Rightarrow> int \<Rightarrow> range_plan" where
  "accumulate_plan g start ceiling = established_prefix g start ceiling"

fun recent_session_scan :: "day_row list \<Rightarrow> int option" where
  "recent_session_scan [] = None"
| "recent_session_scan (r # rs) =
     (case dr_status r of
        DayTradingSession \<Rightarrow> Some (dr_date r) | DayClosed \<Rightarrow> recent_session_scan rs | DayUnknown \<Rightarrow> None)"

definition select_recent_session :: "calendar_gate \<Rightarrow> int \<Rightarrow> int option" where
  "select_recent_session g anchor =
     (case g of
        None \<Rightarrow> None
      | Some v \<Rightarrow>
          (let s = av_calendar v; cov = sn_coverage s
           in if anchor < cv_from cov \<or> cv_through cov < anchor then None
              else recent_session_scan (dropWhile (\<lambda>r. anchor < dr_date r) (rev (sn_rows s)))))"

definition proven_session_at_or_before :: "calendar_gate \<Rightarrow> int \<Rightarrow> bool" where
  "proven_session_at_or_before g anchor = (select_recent_session g anchor \<noteq> None)"

definition probe_anchor :: "calendar_gate \<Rightarrow> int \<Rightarrow> probe_anchor_decision" where
  "probe_anchor g anchor =
     (case select_recent_session g anchor of Some d \<Rightarrow> UseAnchor d | None \<Rightarrow> StopAnchor)"

definition widen_evidence :: "calendar_gate \<Rightarrow> int \<Rightarrow> int \<Rightarrow> continuity" where
  "widen_evidence g fl earliest_stored =
     (if earliest_stored \<le> fl then AllClosed
      else case g of
          None \<Rightarrow> Indeterminate
        | Some v \<Rightarrow>
            (let s = av_calendar v; cov = sn_coverage s
             in case pred_opt earliest_stored of
                  None \<Rightarrow> Indeterminate
                | Some l \<Rightarrow>
                    if fl < cv_from cov \<or> cv_through cov < l then Indeterminate
                    else
                      (let sts = map dr_status (takeWhile (\<lambda>r. dr_date r < earliest_stored)
                         (filter (\<lambda>r. fl \<le> dr_date r) (sn_rows s)))
                       in if DayUnknown \<in> set sts then Indeterminate
                          else if DayTradingSession \<in> set sts then TradingPresent
                          else AllClosed)))"

definition widen_action :: "calendar_gate \<Rightarrow> int \<Rightarrow> int \<Rightarrow> widen_decision" where
  "widen_action g fl earliest_stored =
     (case widen_evidence g fl earliest_stored of
        TradingPresent \<Rightarrow> EmitPersist | AllClosed \<Rightarrow> Suppress | Indeterminate \<Rightarrow> EmitUncertain)"

section \<open>What the gate knows of a date\<close>

definition gate_ok :: "calendar_gate \<Rightarrow> bool" where
  "gate_ok g = (case g of None \<Rightarrow> True | Some v \<Rightarrow> calendar_ok (av_calendar v))"

definition known :: "calendar_gate \<Rightarrow> int \<Rightarrow> day_status option" where
  "known g d = (case g of None \<Rightarrow> None | Some v \<Rightarrow> status_on (av_calendar v) d)"

definition proven :: "calendar_gate \<Rightarrow> int \<Rightarrow> bool" where
  "proven g d = (known g d = Some DayTradingSession \<or> known g d = Some DayClosed)"

lemma calendar_decision_known:
  assumes "gate_ok g"
  shows "calendar_decision g d =
     (case known g d of
        Some DayTradingSession \<Rightarrow> Fetch
      | Some DayClosed \<Rightarrow> ClosedAdvance
      | Some DayUnknown \<Rightarrow> UnknownStop
      | None \<Rightarrow> UnavailableStop)"
proof (cases g)
  case (Some v)
  have ok: "calendar_ok (av_calendar v)" using assms Some by (simp add: gate_ok_def)
  show ?thesis
    by (cases "find (\<lambda>r. dr_date r = d) (sn_rows (av_calendar v))")
      (simp_all add: calendar_decision_def known_def Some view_day_is [OF ok] status_on_def resolve_row_def Let_def)
qed (simp add: calendar_decision_def known_def)

lemma decision_cases:
  assumes "gate_ok g"
  shows "calendar_decision g d = Fetch \<longleftrightarrow> known g d = Some DayTradingSession"
    and "calendar_decision g d = ClosedAdvance \<longleftrightarrow> known g d = Some DayClosed"
  by (auto simp: calendar_decision_known [OF assms] split: option.splits day_status.splits)

lemma scan_loop_is:
  assumes "e \<le> DATE_MAX"
  shows "scan_continuity_loop g i d e =
     (if \<exists>x\<in>{d..<e}. calendar_decision g x = Fetch then TradingPresent
      else if i \<or> (\<exists>x\<in>{d..<e}. calendar_decision g x \<noteq> ClosedAdvance) then Indeterminate
      else AllClosed)"
proof (induction "nat (e - d)" arbitrary: d i)
  case (Suc n)
  then have de: "d < e" and n: "n = nat (e - (d + 1))" by simp_all
  have s: "succ_opt d = Some (d + 1)" using de assms by (simp add: succ_opt_def)
  have iv: "{d..<e} = insert d {d + 1..<e}" using de by auto
  show ?case
    by (subst scan_continuity_loop.simps)
      (cases "calendar_decision g d"; simp add: de s iv Let_def Suc.hyps(1) [OF n])
qed (simp add: scan_continuity_loop.simps)

lemma scan_is:
  assumes "gate_ok g" and "e \<le> DATE_MAX"
  shows "scan_continuity g d e =
     (if \<exists>x\<in>{d..<e}. known g x = Some DayTradingSession then TradingPresent
      else if \<forall>x\<in>{d..<e}. known g x = Some DayClosed then AllClosed
      else Indeterminate)"
  by (auto simp: scan_continuity_def scan_loop_is [OF assms(2)] decision_cases [OF assms(1)])

text \<open>
  Skipping the fetch of a span is allowed exactly when every date of it is proven closed; a
  span with a proven session is fetched; anything else stops the run before it dispatches.\<close>

theorem skip_only_over_closures:
  assumes "gate_ok g" and "last_closed < DATE_MAX"
  shows "(range_action g start last_closed = SkipAdvance \<longleftrightarrow> (\<forall>x\<in>{start..last_closed}. known g x = Some DayClosed)) \<and>
    (range_action g start last_closed = Proceed \<longleftrightarrow> (\<exists>x\<in>{start..last_closed}. known g x = Some DayTradingSession))"
proof -
  have iv: "{start..<last_closed + 1} = {start..last_closed}" by auto
  have si: "scan_inclusive g start last_closed =
     (if \<exists>x\<in>{start..last_closed}. known g x = Some DayTradingSession then TradingPresent
      else if \<forall>x\<in>{start..last_closed}. known g x = Some DayClosed then AllClosed else Indeterminate)"
    using scan_is [OF assms(1), of "last_closed + 1" start] assms(2)
    by (auto simp: scan_inclusive_def succ_opt_def iv)
  show ?thesis
    unfolding range_action_def si by auto
qed

lemma sample_gate_ok: "gate_ok (Some sample_view)"
  using from_snapshot_ok(2) [OF sample_loads] by (simp add: gate_ok_def sample_view_def)

lemma sample_known:
  "known (Some sample_view) 738890 = Some DayTradingSession" "known (Some sample_view) 738891 = Some DayClosed"
  "known (Some sample_view) 738892 = Some DayClosed" "known (Some sample_view) 738893 = Some DayUnknown"
  by (simp_all add: known_def sample_view_def status_on_def sample_calendar_def sample_body_def sample_rows_def)

theorem skip_only_over_closures_witness:
  "range_action (Some sample_view) 738891 738892 = SkipAdvance \<and> range_action (Some sample_view) 738890 738892 = Proceed"
proof -
  have "x = 738891 \<or> x = 738892" if "x \<in> {738891..738892}" for x :: int using that by auto
  then have c: "\<forall>x\<in>{738891..738892}. known (Some sample_view) x = Some DayClosed"
    using sample_known by blast
  have f: "\<exists>x\<in>{738890..738892}. known (Some sample_view) x = Some DayTradingSession"
    using sample_known by (intro bexI [of _ 738890]) simp_all
  have m: "738892 < DATE_MAX" by (simp add: DATE_MAX_def)
  show ?thesis
    using skip_only_over_closures [OF sample_gate_ok m, of 738891] skip_only_over_closures [OF sample_gate_ok m, of 738890] c f
    by blast
qed

section \<open>The established prefix is established\<close>

lemma prefix_scan_is:
  "prefix_scan p rs =
     (let opn = takeWhile (\<lambda>r. dr_status r \<noteq> DayUnknown) rs;
          rest = dropWhile (\<lambda>r. dr_status r \<noteq> DayUnknown) rs;
          sessions = filter (\<lambda>r. dr_status r = DayTradingSession) opn
      in \<lparr>rp_request = (if sessions = [] then rp_request p else Some (dr_date (last sessions))),
          rp_advance = (if opn = [] then rp_advance p else Some (dr_date (last opn))),
          rp_stop = (if rest = [] then rp_stop p else Some (dr_date (hd rest)))\<rparr>)"
proof (induction p rs rule: prefix_scan.induct)
  case (2 p r rs)
  then show ?case
    by (cases "dr_status r") (auto simp: Let_def)
qed simp

lemma takeWhile_sorted_filter:
  assumes "sorted (map f xs)"
  shows "takeWhile (\<lambda>x. f x \<le> e) xs = filter (\<lambda>x. f x \<le> e) xs"
    and "takeWhile (\<lambda>x. f x < e) xs = filter (\<lambda>x. f x < e) xs"
proof -
  have down: "takeWhile P xs = filter P xs" if "\<And>x y. f x \<le> f y \<Longrightarrow> P y \<Longrightarrow> P x" for P
    using assms
  proof (induction xs)
    case (Cons x xs)
    have "\<forall>y\<in>set xs. f x \<le> f y" using Cons.prems by simp
    then have "filter P xs = []" if "\<not> P x"
      using that \<open>\<And>x y. f x \<le> f y \<Longrightarrow> P y \<Longrightarrow> P x\<close> unfolding filter_empty_conv by blast
    with Cons show ?case by simp
  qed simp
  show "takeWhile (\<lambda>x. f x \<le> e) xs = filter (\<lambda>x. f x \<le> e) xs"
    "takeWhile (\<lambda>x. f x < e) xs = filter (\<lambda>x. f x < e) xs"
    by (rule down, force)+
qed

lemma sorted_filter_map: "sorted (map f xs) \<Longrightarrow> sorted (map f (filter P xs))"
  by (induction xs) auto

lemma rows_sorted: "calendar_ok s \<Longrightarrow> sorted (map dr_date (sn_rows s))"
  by (simp add: calendar_ok_def)

lemma rows_window:
  assumes "calendar_ok s"
  shows "takeWhile (\<lambda>r. dr_date r \<le> e) (filter (\<lambda>r. a \<le> dr_date r) (sn_rows s)) =
      filter (\<lambda>r. a \<le> dr_date r \<and> dr_date r \<le> e) (sn_rows s)"
    and "takeWhile (\<lambda>r. dr_date r < e) (filter (\<lambda>r. a \<le> dr_date r) (sn_rows s)) =
      filter (\<lambda>r. a \<le> dr_date r \<and> dr_date r \<le> e - 1) (sn_rows s)"
  by (simp_all add: takeWhile_sorted_filter [OF sorted_filter_map [OF rows_sorted [OF assms]]] conj_commute)

definition established_plan :: "calendar_gate \<Rightarrow> int \<Rightarrow> int \<Rightarrow> range_plan" where
  "established_plan g a b =
     (let stop = find (\<lambda>d. \<not> proven g d) [a..b];
          ds = (case stop of None \<Rightarrow> [a..b] | Some u \<Rightarrow> [a..u - 1]);
          sessions = filter (\<lambda>d. known g d = Some DayTradingSession) ds
      in \<lparr>rp_request = (if sessions = [] then None else Some (last sessions)),
          rp_advance = (if ds = [] then None else Some (last ds)),
          rp_stop = stop\<rparr>)"

lemma takeWhile_upto:
  "takeWhile P [a..b] = (case find (\<lambda>d. \<not> P d) [a..b] of None \<Rightarrow> [a..b] | Some u \<Rightarrow> [a..u - 1])"
proof (induction a b rule: upto.induct)
  case (1 a b)
  have "[a..u - 1] = a # [a + 1..u - 1]" if "find (\<lambda>d. \<not> P d) [a + 1..b] = Some u" for u
  proof -
    have "a + 1 \<le> u" using that by (auto simp: find_Some_iff2 find_upto)
    then show ?thesis by (simp add: upto_rec1)
  qed
  with 1 show ?case
    by (cases "a \<le> b") (auto simp: upto_rec1 split: option.splits)
qed

lemma find_append: "find P (xs @ ys) = (case find P xs of None \<Rightarrow> find P ys | Some x \<Rightarrow> Some x)"
  by (induction xs) auto

lemma map_last_if: "(if map f xs = [] then None else Some (last (map f xs))) =
    (if xs = [] then None else Some (f (last xs)))"
  by (simp add: last_map)

lemma plan_of_rows:
  assumes dates: "map dr_date rs = [a..b]"
    and st: "\<And>r. r \<in> set rs \<Longrightarrow> known g (dr_date r) = Some (dr_status r)"
  shows "prefix_scan \<lparr>rp_request = None, rp_advance = None, rp_stop = None\<rparr> rs = established_plan g a b"
proof -
  have pr: "(dr_status r \<noteq> DayUnknown) = proven g (dr_date r)" if "r \<in> set rs" for r
    using st [OF that] by (cases "dr_status r") (simp_all add: proven_def)
  define opn where "opn = takeWhile (\<lambda>r. dr_status r \<noteq> DayUnknown) rs"
  have tw: "opn = takeWhile (\<lambda>r. proven g (dr_date r)) rs"
    unfolding opn_def using pr by (intro takeWhile_cong) auto
  have dw: "dropWhile (\<lambda>r. dr_status r \<noteq> DayUnknown) rs = dropWhile (\<lambda>r. proven g (dr_date r)) rs"
    using pr by (intro dropWhile_cong) auto
  have od: "map dr_date opn = (case find (\<lambda>d. \<not> proven g d) [a..b] of None \<Rightarrow> [a..b] | Some u \<Rightarrow> [a..u - 1])"
    unfolding tw using takeWhile_upto [of "proven g" a b] by (simp add: takeWhile_map comp_def flip: dates)
  have sd: "map dr_date (filter (\<lambda>r. dr_status r = DayTradingSession) opn) =
      filter (\<lambda>d. known g d = Some DayTradingSession) (map dr_date opn)"
    unfolding filter_map comp_def
    using st set_takeWhileD by (fastforce simp: opn_def intro!: arg_cong [where f = "map dr_date"] filter_cong)
  have fd: "find (\<lambda>d. \<not> proven g d) [a..b] =
      (if dropWhile (\<lambda>r. proven g (dr_date r)) rs = [] then None
       else Some (dr_date (hd (dropWhile (\<lambda>r. proven g (dr_date r)) rs))))"
    unfolding dates [symmetric] find_dropWhile comp_def dropWhile_map
    by (cases "dropWhile (\<lambda>r. proven g (dr_date r)) rs") (simp_all add: comp_def del: dropWhile_eq_Nil_conv)
  show ?thesis
    unfolding prefix_scan_is established_plan_def Let_def od [symmetric] sd [symmetric] map_last_if
    unfolding opn_def [symmetric] dw fd by simp
qed

lemma upto_split_at: "a \<le> m \<Longrightarrow> m \<le> b \<Longrightarrow> [a..b] = [a..m] @ [m + 1..b]" for a m b :: int
  using upto_split1 [of a "m + 1" b] by (cases "m = b") simp_all

lemma established_plan_beyond:
  assumes "a \<le> m" and "m < b" and "\<not> proven g (m + 1)"
  shows "established_plan g a b =
    (let p = established_plan g a m in if rp_stop p = None then p \<lparr>rp_stop := Some (m + 1)\<rparr> else p)"
proof -
  have "[a..b] = [a..m] @ (m + 1) # [m + 1 + 1..b]"
    using assms upto_split_at [of a m b] upto_rec1 [of "m + 1" b] by simp
  then have "find (\<lambda>d. \<not> proven g d) [a..b] =
      (case find (\<lambda>d. \<not> proven g d) [a..m] of None \<Rightarrow> Some (m + 1) | Some u \<Rightarrow> Some u)"
    by (simp add: find_append assms(3) split: option.split)
  then show ?thesis
    by (auto simp: established_plan_def Let_def split: option.splits)
qed

lemma accumulate_plan_is:
  assumes "gate_ok g" and "ceiling \<le> DATE_MAX"
  shows "accumulate_plan g start ceiling = established_plan g start ceiling"
proof (cases "ceiling < start")
  case True
  then show ?thesis by (simp add: accumulate_plan_def established_prefix_def established_plan_def Let_def)
next
  case False
  then have rng: "[start..ceiling] = start # [start + 1..ceiling]" by (simp add: upto_rec1)
  have stuck: "established_plan g start ceiling = \<lparr>rp_request = None, rp_advance = None, rp_stop = Some start\<rparr>"
    if "\<not> proven g start"
    using that by (simp add: established_plan_def rng)
  show ?thesis
  proof (cases g)
    case None
    with False show ?thesis
      using stuck by (simp add: accumulate_plan_def established_prefix_def proven_def known_def)
  next
    case (Some v)
    define s where "s = av_calendar v"
    define th where "th = cv_through (sn_coverage s)"
    have ok: "calendar_ok s" using assms(1) Some by (simp add: gate_ok_def s_def)
    have kn: "known g d = status_on s d" for d by (simp add: known_def Some s_def)
    show ?thesis
    proof (cases "start < cv_from (sn_coverage s) \<or> th < start")
      case True
      then have "\<not> proven g start"
        using status_on_defined [OF ok, of start] by (auto simp: proven_def kn th_def)
      with True False show ?thesis
        using stuck by (simp add: accumulate_plan_def established_prefix_def Some Let_def s_def th_def)
    next
      case inside: False
      define e where "e = min ceiling th"
      let ?rs = "filter (\<lambda>r. start \<le> dr_date r \<and> dr_date r \<le> e) (sn_rows s)"
      have scan: "prefix_scan \<lparr>rp_request = None, rp_advance = None, rp_stop = None\<rparr> ?rs = established_plan g start e"
      proof (rule plan_of_rows)
        show "map dr_date ?rs = [start..e]"
          using range_dates [OF ok, of start e] inside by (auto simp: th_def e_def)
        show "known g (dr_date r) = Some (dr_status r)" if "r \<in> set ?rs" for r
          using row_status [OF ok, of r] that by (simp add: kn)
      qed
      have "accumulate_plan g start ceiling =
        (let p = established_plan g start e
         in if rp_stop p = None \<and> th < ceiling then p \<lparr>rp_stop := succ_opt th\<rparr> else p)"
        using False inside
        unfolding accumulate_plan_def established_prefix_def Some option.case Let_def s_def [symmetric]
          th_def [symmetric] e_def [symmetric] rows_window(1) [OF ok] scan [unfolded Some]
        by (simp only: if_False)
      also have "\<dots> = established_plan g start ceiling"
      proof (cases "th < ceiling")
        case True
        then have "\<not> proven g (th + 1)" and "succ_opt th = Some (th + 1)"
          using status_on_defined [OF ok, of "th + 1"] assms(2)
          by (auto simp: proven_def kn th_def succ_opt_def)
        with established_plan_beyond [of start th ceiling g] True inside show ?thesis
          by (simp add: e_def min_def Let_def)
      qed (simp add: e_def min_def Let_def)
      finally show ?thesis .
    qed
  qed
qed

text \<open>
  C16. The plan of an accumulate span is its established prefix: the scan stops at the first date
  that is not a proven session or a proven closure, coverage may advance to the day before it and no
  further, and the last date requested is the last proven session of that prefix.\<close>

theorem accumulate_plan_is_established:
  assumes "gate_ok g" and "ceiling \<le> DATE_MAX"
  shows "accumulate_plan g start ceiling = established_plan g start ceiling"
  by (rule accumulate_plan_is [OF assms])

theorem accumulate_plan_is_established_witness:
  "accumulate_plan (Some sample_view) 738890 738895 =
     \<lparr>rp_request = Some 738890, rp_advance = Some 738892, rp_stop = Some 738893\<rparr>"
proof -
  have "established_plan (Some sample_view) 738890 738895 =
      \<lparr>rp_request = Some 738890, rp_advance = Some 738892, rp_stop = Some 738893\<rparr>"
    by (simp add: established_plan_def proven_def sample_known upto_rec1)
  then show ?thesis
    using accumulate_plan_is_established [OF sample_gate_ok, of 738895 738890] by (simp add: DATE_MAX_def)
qed

section \<open>Probe anchors and backward widening\<close>

lemma dropWhile_rev_sorted:
  fixes f :: "'a \<Rightarrow> int"
  assumes "sorted (map f xs)"
  shows "dropWhile (\<lambda>x. a < f x) (rev xs) = rev (filter (\<lambda>x. f x \<le> a) xs)"
  using assms
proof (induction xs rule: rev_induct)
  case (snoc x xs)
  then have le: "\<forall>y\<in>set xs. f y \<le> f x" by (simp add: sorted_append)
  show ?case
  proof (cases "a < f x")
    case False
    then have "filter (\<lambda>x. f x \<le> a) xs = xs"
      using le unfolding filter_id_conv by fastforce
    with False show ?thesis by simp
  qed (use snoc in \<open>simp add: sorted_append\<close>)
qed simp

lemma recent_scan_session: "recent_session_scan rs = Some d \<longleftrightarrow> scan_session rs = Found d"
  by (induction rs) (auto split: day_status.split)

text \<open>
  The anchor of a look-back probe is the nearest proven session at or before the requested date
  with only proven closures between them; when the calendar cannot prove one there is no probe.\<close>

theorem anchor_is_the_nearest_session:
  assumes "gate_ok g"
  shows "(probe_anchor g anchor = UseAnchor d \<longleftrightarrow>
      d \<le> anchor \<and> known g d = Some DayTradingSession \<and> (\<forall>x\<in>{d<..anchor}. known g x = Some DayClosed)) \<and>
    proven_session_at_or_before g anchor = (probe_anchor g anchor \<noteq> StopAnchor)"
proof -
  have "select_recent_session g anchor = Some d \<longleftrightarrow>
      d \<le> anchor \<and> known g d = Some DayTradingSession \<and> (\<forall>x\<in>{d<..anchor}. known g x = Some DayClosed)"
  proof (cases g)
    case (Some v)
    define s where "s = av_calendar v"
    have ok: "calendar_ok s" using assms Some by (simp add: gate_ok_def s_def)
    have kn: "known g x = status_on s x" for x by (simp add: known_def Some s_def)
    note def = status_on_defined [OF ok]
    show ?thesis
    proof (cases "anchor < cv_from (sn_coverage s) \<or> cv_through (sn_coverage s) < anchor")
      case True
      have "anchor \<in> {d<..anchor} \<or> d = anchor" if "d \<le> anchor" using that by auto
      with True def [of anchor] show ?thesis
        by (auto simp: select_recent_session_def Some s_def [symmetric] Let_def kn [unfolded Some])
    next
      case False
      let ?rs = "filter (\<lambda>r. dr_date r \<le> anchor) (sn_rows s)"
      have from_ok: "r \<in> set (sn_rows s) \<Longrightarrow> cv_from (sn_coverage s) \<le> dr_date r" for r
        using row_status [OF ok, of r] def [of "dr_date r"] by simp
      then have rs: "?rs = filter (\<lambda>r. cv_from (sn_coverage s) \<le> dr_date r \<and> dr_date r \<le> anchor) (sn_rows s)"
        by (intro filter_cong) auto
      have w: "in_window s (cv_from (sn_coverage s)) anchor" using False by (simp add: in_window_def)
      have "select_recent_session g anchor = Some d \<longleftrightarrow> scan_session (rev ?rs) = Found d"
        using False
        by (simp add: select_recent_session_def Some s_def [symmetric] Let_def
            dropWhile_rev_sorted [OF rows_sorted [OF ok]] recent_scan_session)
      also have "\<dots> \<longleftrightarrow> last_session v (Some (cv_from (sn_coverage s), anchor)) = Inr (Found d)"
        using w by (simp add: last_session_def rows_in_range_Some s_def [symmetric] rs)
      also have "\<dots> \<longleftrightarrow> cv_from (sn_coverage s) \<le> d \<and> d \<le> anchor \<and> status_on s d = Some DayTradingSession \<and>
          (\<forall>x\<in>{d<..anchor}. status_on s x = Some DayClosed)"
        using session_ends(2) [of v "cv_from (sn_coverage s)" anchor d] ok w by (simp add: s_def)
      also have "\<dots> \<longleftrightarrow> d \<le> anchor \<and> known g d = Some DayTradingSession \<and> (\<forall>x\<in>{d<..anchor}. known g x = Some DayClosed)"
        using def [of d] by (auto simp: kn)
      finally show ?thesis .
    qed
  qed (simp add: select_recent_session_def known_def)
  then show ?thesis
    by (auto simp: probe_anchor_def proven_session_at_or_before_def split: option.splits)
qed

theorem anchor_is_the_nearest_session_witness: "probe_anchor (Some sample_view) 738892 = UseAnchor 738890"
proof -
  have "x = 738891 \<or> x = 738892" if "x \<in> {738890<..738892}" for x :: int using that by auto
  then have c: "\<forall>x\<in>{738890<..738892}. known (Some sample_view) x = Some DayClosed"
    using sample_known by blast
  then show ?thesis
    using anchor_is_the_nearest_session [OF sample_gate_ok, of 738892 738890] sample_known by simp
qed

text \<open>
  Widening backward warns and remembers exactly over a region that is proven throughout and
  holds a session; it stays silent exactly over proven closures, and any unproven date, even beside a
  proven session, gives the warning that is not remembered.\<close>

theorem widening_warns_on_proof:
  assumes "gate_ok g" and "DATE_MIN \<le> fl"
  shows "widen_action g fl earliest =
    (if list_all (\<lambda>d. known g d = Some DayClosed) [fl..earliest - 1] then Suppress
     else if list_all (proven g) [fl..earliest - 1] then EmitPersist
     else EmitUncertain)"
proof (cases "earliest \<le> fl")
  case False
  then have inr: "fl \<in> {fl..earliest - 1}" "earliest - 1 \<in> {fl..earliest - 1}" by auto
  have pr: "pred_opt earliest = Some (earliest - 1)" using False assms(2) by (simp add: pred_opt_def)
  show ?thesis
  proof (cases g)
    case None
    then have "\<not> proven g fl" "known g fl \<noteq> Some DayClosed" by (simp_all add: proven_def known_def)
    with inr have "\<not> list_all (proven g) [fl..earliest - 1]" "\<not> list_all (\<lambda>d. known g d = Some DayClosed) [fl..earliest - 1]"
      unfolding list_all_iff set_upto by blast+
    then show ?thesis using False by (simp add: widen_action_def widen_evidence_def None)
  next
    case (Some v)
    define s where "s = av_calendar v"
    have ok: "calendar_ok s" using assms Some by (simp add: gate_ok_def s_def)
    have kn: "known g x = status_on s x" for x by (simp add: known_def Some s_def)
    show ?thesis
    proof (cases "in_window s fl (earliest - 1)")
      case False
      then have "\<not> proven g fl \<or> \<not> proven g (earliest - 1)"
        using status_on_defined [OF ok, of fl] status_on_defined [OF ok, of "earliest - 1"] inr
        by (auto simp: in_window_def proven_def kn)
      with inr have "\<not> list_all (proven g) [fl..earliest - 1]" "\<not> list_all (\<lambda>d. known g d = Some DayClosed) [fl..earliest - 1]"
        unfolding list_all_iff set_upto proven_def by blast+
      then show ?thesis
        using \<open>\<not> earliest \<le> fl\<close> False
        by (simp add: widen_action_def widen_evidence_def Some pr s_def [symmetric] Let_def in_window_def not_le)
    next
      case True
      let ?rs = "filter (\<lambda>r. fl \<le> dr_date r \<and> dr_date r \<le> earliest - 1) (sn_rows s)"
      have st: "st \<in> dr_status ` set ?rs \<longleftrightarrow> (\<exists>d\<in>{fl..earliest - 1}. known g d = Some st)" for st
        using range_status_set [OF ok True refl] by (simp add: kn)
      have total: "known g d \<noteq> None" if "d \<in> {fl..earliest - 1}" for d
        using status_on_defined [OF ok, of d] True that by (auto simp: in_window_def kn)
      have ev: "widen_evidence g fl earliest =
          (if DayUnknown \<in> dr_status ` set ?rs then Indeterminate
           else if DayTradingSession \<in> dr_status ` set ?rs then TradingPresent else AllClosed)"
        using \<open>\<not> earliest \<le> fl\<close> True
        unfolding widen_evidence_def Some option.case pr Let_def s_def [symmetric] rows_window(2) [OF ok]
        by (simp add: in_window_def not_less)
      have cases3: "known g d = Some DayClosed \<longleftrightarrow> known g d \<noteq> Some DayUnknown \<and> known g d \<noteq> Some DayTradingSession"
        "proven g d \<longleftrightarrow> known g d \<noteq> Some DayUnknown" if "d \<in> {fl..earliest - 1}" for d
        using total [OF that] by (cases "known g d"; cases "the (known g d)"; simp add: proven_def)+
      show ?thesis
        unfolding widen_action_def ev st list_all_iff set_upto using cases3 by auto
    qed
  qed
qed (simp add: widen_action_def widen_evidence_def)

theorem widening_warns_on_proof_witness: "widen_action (Some sample_view) 738890 738894 = EmitUncertain"
proof -
  have "[738890..738893] = [738890, 738891, 738892, 738893::int]" by (simp add: upto_rec1)
  then show ?thesis
    using widening_warns_on_proof [OF sample_gate_ok, of 738890 738894] by (simp add: DATE_MIN_def sample_known proven_def)
qed

end
