(* ===== verification/Checkpoint.thy ===== *)
theory Checkpoint
  imports Ingest_Gate "HOL-Library.Product_Lexorder"
begin

text \<open>
  The ingest checkpoint (\<open>adapters/nautilus/src/ingest/checkpoint.rs\<close>): completed ranges, coverage
  gaps, watermarks, history floors, empty retries, basis-shift marks and re-base events, with the
  migration of old files. A \<open>BTreeSet\<close> is an ascending list, a \<open>BTreeMap\<close> an association list in key
  order. Parsing and printing a date as \<open>YYYYMMDD\<close> are the functions of a \<open>ymd_codec\<close> (\<open>chrono\<close>).
\<close>

section \<open>Dates, keys and ranges\<close>

record ymd_codec =
  ymd_parse :: "string \<Rightarrow> int option"
  ymd_format :: "int \<Rightarrow> string"

definition parse_ymd :: "ymd_codec \<Rightarrow> string \<Rightarrow> int option" where
  "parse_ymd k s = ymd_parse k (trim s)"

definition ymd_ok :: "ymd_codec \<Rightarrow> int \<Rightarrow> bool" where
  "ymd_ok k d = (parse_ymd k (ymd_format k d) = Some d)"

text \<open>\<open>split(\"..\")\<close> and \<open>splitn(n, c)\<close>.\<close>

fun split_dots :: "string \<Rightarrow> string list" where
  "split_dots [] = [[]]"
| "split_dots [c] = [[c]]"
| "split_dots (c # d # cs) =
     (if c = CHR ''.'' \<and> d = CHR ''.'' then [] # split_dots cs
      else case split_dots (d # cs) of x # xs \<Rightarrow> (c # x) # xs | [] \<Rightarrow> [[c]])"

fun splitn :: "nat \<Rightarrow> char \<Rightarrow> string \<Rightarrow> string list" where
  "splitn 0 c s = []"
| "splitn (Suc 0) c s = [s]"
| "splitn (Suc (Suc n)) c s =
     (if c \<in> set s then takeWhile (\<lambda>x. x \<noteq> c) s # splitn (Suc n) c (tl (dropWhile (\<lambda>x. x \<noteq> c) s)) else [s])"

definition bar :: char where "bar = CHR ''|''"

definition range_key :: "string \<Rightarrow> string \<Rightarrow> string \<Rightarrow> string" where
  "range_key instrument bar_type r = instrument @ [bar] @ bar_type @ [bar] @ r"

definition watermark_key :: "string \<Rightarrow> string \<Rightarrow> string" where
  "watermark_key instrument bar_type = instrument @ [bar] @ bar_type"

definition strip_prefix :: "string \<Rightarrow> string \<Rightarrow> string option" where
  "strip_prefix p s = (if prefix p s then Some (drop (length p) s) else None)"

definition strip_suffix :: "string \<Rightarrow> string \<Rightarrow> string option" where
  "strip_suffix p s = (if suffix p s then Some (take (length s - length p) s) else None)"

section \<open>The state\<close>

datatype gap_reason = EmptyHistory | NonTradingDay | PaperThin

record coverage_gap =
  cg_instrument :: string
  cg_bar_type :: string
  cg_range :: string
  cg_reason :: gap_reason

record migration_remainder =
  mr_instrument :: string
  mr_bar_type :: string
  mr_ranges :: "string list"

datatype rebase_origin = OriginHeal | OriginEpoch | OriginUnknown

definition origin_key :: "rebase_origin \<Rightarrow> string" where
  "origin_key r = (case r of OriginHeal \<Rightarrow> ''heal'' | OriginEpoch \<Rightarrow> ''epoch'' | OriginUnknown \<Rightarrow> ''unknown'')"

record origin_totals =
  ot_heal :: nat
  ot_epoch :: nat
  ot_unknown :: nat

definition organic :: "origin_totals \<Rightarrow> nat" where
  "organic t = ot_heal t + ot_unknown t"

record rebase_event =
  re_instrument :: string
  re_bar_type :: string
  re_detected :: string
  re_healed :: string
  re_origin :: rebase_origin

record empty_retry =
  er_count :: nat
  er_through :: string

record checkpoint =
  cp_completed :: "string list"
  cp_gaps :: "coverage_gap list"
  cp_watermarks :: "(string \<times> string) list"
  cp_floors :: "(string \<times> string) list"
  cp_empty :: "(string \<times> empty_retry) list"
  cp_shifted :: "(string \<times> string) list"
  cp_shifted_origin :: "(string \<times> rebase_origin) list"
  cp_events :: "rebase_event list"
  cp_evicted :: "(string \<times> nat) list"
  cp_adjusted :: bool
  cp_backfill :: bool
  cp_sessions :: "(string \<times> string) list"
  cp_degraded :: "(string \<times> string) list"

definition checkpoint_default :: checkpoint where
  "checkpoint_default = \<lparr>cp_completed = [], cp_gaps = [], cp_watermarks = [], cp_floors = [], cp_empty = [],
     cp_shifted = [], cp_shifted_origin = [], cp_events = [], cp_evicted = [], cp_adjusted = False,
     cp_backfill = False, cp_sessions = [], cp_degraded = []\<rparr>"

definition REBASE_EVENTS_PER_SERIES_CAP :: nat where "REBASE_EVENTS_PER_SERIES_CAP = 4"

section \<open>Watermarks, floors and sessions\<close>

definition get_ymd :: "ymd_codec \<Rightarrow> (string \<times> string) list \<Rightarrow> string \<Rightarrow> int option" where
  "get_ymd k m key = (case map_of m key of None \<Rightarrow> None | Some s \<Rightarrow> parse_ymd k s)"

definition watermark :: "ymd_codec \<Rightarrow> checkpoint \<Rightarrow> string \<Rightarrow> string \<Rightarrow> int option" where
  "watermark k cp i b = get_ymd k (cp_watermarks cp) (watermark_key i b)"

definition set_watermark :: "ymd_codec \<Rightarrow> string \<Rightarrow> string \<Rightarrow> int \<Rightarrow> checkpoint \<Rightarrow> checkpoint" where
  "set_watermark k i b d cp =
     cp \<lparr>cp_watermarks := obj_insert (watermark_key i b) (ymd_format k d) (cp_watermarks cp)\<rparr>"

definition clear_watermark :: "string \<Rightarrow> string \<Rightarrow> checkpoint \<Rightarrow> checkpoint" where
  "clear_watermark i b cp = cp \<lparr>cp_watermarks := AList.delete (watermark_key i b) (cp_watermarks cp)\<rparr>"

definition history_floor :: "ymd_codec \<Rightarrow> checkpoint \<Rightarrow> string \<Rightarrow> string \<Rightarrow> int option" where
  "history_floor k cp i b = get_ymd k (cp_floors cp) (watermark_key i b)"

definition set_history_floor :: "ymd_codec \<Rightarrow> string \<Rightarrow> string \<Rightarrow> int \<Rightarrow> checkpoint \<Rightarrow> checkpoint" where
  "set_history_floor k i b d cp =
     cp \<lparr>cp_floors := obj_insert (watermark_key i b) (ymd_format k d) (cp_floors cp)\<rparr>"

definition backfill_session :: "ymd_codec \<Rightarrow> checkpoint \<Rightarrow> string \<Rightarrow> string \<Rightarrow> int option" where
  "backfill_session k cp i b = get_ymd k (cp_sessions cp) (watermark_key i b)"

definition set_backfill_session :: "ymd_codec \<Rightarrow> string \<Rightarrow> string \<Rightarrow> int \<Rightarrow> checkpoint \<Rightarrow> checkpoint" where
  "set_backfill_session k i b d cp =
     cp \<lparr>cp_sessions := obj_insert (watermark_key i b) (ymd_format k d) (cp_sessions cp)\<rparr>"

definition set_backfill_incomplete :: "bool \<Rightarrow> checkpoint \<Rightarrow> checkpoint" where
  "set_backfill_incomplete v cp = cp \<lparr>cp_backfill := v\<rparr>"

definition mark_backfill_degraded :: "string \<Rightarrow> string \<Rightarrow> string \<Rightarrow> checkpoint \<Rightarrow> checkpoint" where
  "mark_backfill_degraded i b reason cp =
     cp \<lparr>cp_degraded := obj_insert (watermark_key i b) reason (cp_degraded cp)\<rparr>"

definition clear_backfill_degraded :: "string \<Rightarrow> string \<Rightarrow> checkpoint \<Rightarrow> checkpoint" where
  "clear_backfill_degraded i b cp = cp \<lparr>cp_degraded := AList.delete (watermark_key i b) (cp_degraded cp)\<rparr>"

definition backfill_degraded :: "checkpoint \<Rightarrow> string \<Rightarrow> string \<Rightarrow> string option" where
  "backfill_degraded cp i b = map_of (cp_degraded cp) (watermark_key i b)"

definition watermarks_for :: "ymd_codec \<Rightarrow> checkpoint \<Rightarrow> string \<Rightarrow> (string \<times> int option) list" where
  "watermarks_for k cp b = List.map_filter
     (\<lambda>(key, v). map_option (\<lambda>i. (i, parse_ymd k v)) (strip_suffix (bar # b) key)) (cp_watermarks cp)"

section \<open>Empty retries\<close>

definition empty_retry_count :: "checkpoint \<Rightarrow> string \<Rightarrow> string \<Rightarrow> nat" where
  "empty_retry_count cp i b = (case map_of (cp_empty cp) (watermark_key i b) of None \<Rightarrow> 0 | Some r \<Rightarrow> er_count r)"

definition empty_retry_converged :: "ymd_codec \<Rightarrow> checkpoint \<Rightarrow> string \<Rightarrow> string \<Rightarrow> int \<Rightarrow> nat \<Rightarrow> bool" where
  "empty_retry_converged k cp i b last_closed max_retries =
     (case map_of (cp_empty cp) (watermark_key i b) of
        None \<Rightarrow> False
      | Some r \<Rightarrow>
          max_retries \<le> er_count r \<and>
          (case parse_ymd k (er_through r) of None \<Rightarrow> False | Some through \<Rightarrow> last_closed \<le> through))"

text \<open>The counter is a \<open>u32\<close>; wrapping stands for the release build.\<close>

definition bump_empty_retry ::
  "ymd_codec \<Rightarrow> string \<Rightarrow> string \<Rightarrow> int \<Rightarrow> checkpoint \<Rightarrow> nat \<times> checkpoint" where
  "bump_empty_retry k i b last_closed cp =
     (let n = (empty_retry_count cp i b + 1) mod 2 ^ 32
      in (n, cp \<lparr>cp_empty := obj_insert (watermark_key i b)
               \<lparr>er_count = n, er_through = ymd_format k last_closed\<rparr> (cp_empty cp)\<rparr>))"

definition reset_empty_retry :: "string \<Rightarrow> string \<Rightarrow> checkpoint \<Rightarrow> checkpoint" where
  "reset_empty_retry i b cp = cp \<lparr>cp_empty := AList.delete (watermark_key i b) (cp_empty cp)\<rparr>"

section \<open>Completed ranges and gaps\<close>

definition is_done :: "checkpoint \<Rightarrow> string \<Rightarrow> string \<Rightarrow> string \<Rightarrow> bool" where
  "is_done cp i b r = (range_key i b r \<in> set (cp_completed cp))"

definition mark_done :: "string \<Rightarrow> string \<Rightarrow> string \<Rightarrow> checkpoint \<Rightarrow> checkpoint" where
  "mark_done i b r cp = cp \<lparr>cp_completed := insort_insert (range_key i b r) (cp_completed cp)\<rparr>"

definition record_gap :: "string \<Rightarrow> string \<Rightarrow> string \<Rightarrow> gap_reason \<Rightarrow> checkpoint \<Rightarrow> checkpoint" where
  "record_gap i b r reason cp =
     (let cp = mark_done i b r cp
      in cp \<lparr>cp_gaps := cp_gaps cp @ [\<lparr>cg_instrument = i, cg_bar_type = b, cg_range = r, cg_reason = reason\<rparr>]\<rparr>)"

definition record_gap_uncovered :: "string \<Rightarrow> string \<Rightarrow> string \<Rightarrow> gap_reason \<Rightarrow> checkpoint \<Rightarrow> checkpoint" where
  "record_gap_uncovered i b r reason cp =
     cp \<lparr>cp_gaps := filter (\<lambda>g. cg_instrument g \<noteq> i \<or> cg_bar_type g \<noteq> b \<or> cg_reason g \<noteq> reason \<or>
            is_done cp (cg_instrument g) (cg_bar_type g) (cg_range g)) (cp_gaps cp) @
          [\<lparr>cg_instrument = i, cg_bar_type = b, cg_range = r, cg_reason = reason\<rparr>]\<rparr>"

text \<open>The two dates of a range text; a text without two dates has none.\<close>

definition range_dates_of :: "ymd_codec \<Rightarrow> string \<Rightarrow> (int \<times> int) option" where
  "range_dates_of k r =
     (case split_dots r of
        s # e # _ \<Rightarrow>
          (case (parse_ymd k s, parse_ymd k e) of (Some sd, Some ed) \<Rightarrow> Some (sd, ed) | _ \<Rightarrow> None)
      | _ \<Rightarrow> None)"

fun merge_spans :: "(int \<times> int) list \<Rightarrow> (int \<times> int) list \<Rightarrow> (int \<times> int) list" where
  "merge_spans acc [] = rev acc"
| "merge_spans [] (p # ps) = merge_spans [p] ps"
| "merge_spans ((a, b) # acc) ((s, e) # ps) =
     (if s \<le> (case succ_opt b of Some n \<Rightarrow> n | None \<Rightarrow> b)
      then merge_spans ((a, if b < e then e else b) # acc) ps
      else merge_spans ((s, e) # (a, b) # acc) ps)"

definition completed_spans_above :: "ymd_codec \<Rightarrow> checkpoint \<Rightarrow> string \<Rightarrow> string \<Rightarrow> int \<Rightarrow> (int \<times> int) list" where
  "completed_spans_above k cp i b wm = List.map_filter (\<lambda>key.
     case strip_prefix (range_key i b []) key of
       None \<Rightarrow> None
     | Some r \<Rightarrow>
         (case range_dates_of k r of Some (sd, ed) \<Rightarrow> if wm < ed then Some (sd, ed) else None | None \<Rightarrow> None))
     (cp_completed cp)"

definition completed_intervals_above :: "ymd_codec \<Rightarrow> checkpoint \<Rightarrow> string \<Rightarrow> string \<Rightarrow> int \<Rightarrow> (int \<times> int) list" where
  "completed_intervals_above k cp i b wm = merge_spans [] (sort_key fst (completed_spans_above k cp i b wm))"

definition range_below :: "ymd_codec \<Rightarrow> checkpoint \<Rightarrow> string \<Rightarrow> string \<Rightarrow> string \<Rightarrow> bool" where
  "range_below k cp i b r =
     (let edate = (case split_dots r of _ # e # _ \<Rightarrow> trim e | _ \<Rightarrow> [])
      in case (map_of (cp_watermarks cp) (watermark_key i b), ymd_parse k edate) of
           (Some wm, Some e) \<Rightarrow> (case parse_ymd k wm of Some w \<Rightarrow> e \<le> w | None \<Rightarrow> False)
         | _ \<Rightarrow> False)"

definition key_below :: "ymd_codec \<Rightarrow> checkpoint \<Rightarrow> string \<Rightarrow> bool" where
  "key_below k cp key = (case splitn 3 bar key of [i, b, r] \<Rightarrow> range_below k cp i b r | _ \<Rightarrow> False)"

definition prune_below_watermarks :: "ymd_codec \<Rightarrow> checkpoint \<Rightarrow> checkpoint" where
  "prune_below_watermarks k cp =
     cp \<lparr>cp_gaps := filter (\<lambda>g. \<not> range_below k cp (cg_instrument g) (cg_bar_type g) (cg_range g)) (cp_gaps cp),
         cp_completed := filter (\<lambda>key. \<not> key_below k cp key) (cp_completed cp)\<rparr>"

section \<open>Basis-shift marks and re-base events\<close>

definition is_shifted :: "checkpoint \<Rightarrow> string \<Rightarrow> string \<Rightarrow> bool" where
  "is_shifted cp i b = (map_of (cp_shifted cp) (watermark_key i b) \<noteq> None)"

definition shifted_detected :: "checkpoint \<Rightarrow> string \<Rightarrow> string \<Rightarrow> string option" where
  "shifted_detected cp i b = map_of (cp_shifted cp) (watermark_key i b)"

definition mark_shifted :: "ymd_codec \<Rightarrow> string \<Rightarrow> string \<Rightarrow> int \<Rightarrow> rebase_origin \<Rightarrow> checkpoint \<Rightarrow> checkpoint" where
  "mark_shifted k i b detected origin cp =
     (let key = watermark_key i b
      in if map_of (cp_shifted cp) key \<noteq> None then cp
         else cp \<lparr>cp_shifted := obj_insert key (ymd_format k detected) (cp_shifted cp),
                  cp_shifted_origin := obj_insert key origin (cp_shifted_origin cp)\<rparr>)"

definition shifted_origin :: "checkpoint \<Rightarrow> string \<Rightarrow> string \<Rightarrow> rebase_origin" where
  "shifted_origin cp i b =
     (case map_of (cp_shifted_origin cp) (watermark_key i b) of Some origin \<Rightarrow> origin | None \<Rightarrow> OriginUnknown)"

definition clear_shifted :: "string \<Rightarrow> string \<Rightarrow> checkpoint \<Rightarrow> checkpoint" where
  "clear_shifted i b cp =
     (let key = watermark_key i b
      in cp \<lparr>cp_shifted := AList.delete key (cp_shifted cp),
             cp_shifted_origin := AList.delete key (cp_shifted_origin cp)\<rparr>)"

definition shifted_instruments :: "checkpoint \<Rightarrow> string \<Rightarrow> string list" where
  "shifted_instruments cp b = List.map_filter (\<lambda>(key, _). strip_suffix (bar # b) key) (cp_shifted cp)"

definition same_series :: "rebase_event \<Rightarrow> rebase_event \<Rightarrow> bool" where
  "same_series e x = (re_instrument x = re_instrument e \<and> re_bar_type x = re_bar_type e)"

fun remove_first :: "('a \<Rightarrow> bool) \<Rightarrow> 'a list \<Rightarrow> 'a list" where
  "remove_first P [] = []"
| "remove_first P (x # xs) = (if P x then xs else x # remove_first P xs)"

definition record_rebase_event :: "rebase_event \<Rightarrow> checkpoint \<Rightarrow> checkpoint" where
  "record_rebase_event e cp =
     (let events = cp_events cp @ [e]
      in if REBASE_EVENTS_PER_SERIES_CAP < length (filter (same_series e) events)
         then (case find (same_series e) events of
                 None \<Rightarrow> cp \<lparr>cp_events := events\<rparr>
               | Some evicted \<Rightarrow>
                   (let key = origin_key (re_origin evicted);
                        n = (case map_of (cp_evicted cp) key of Some n \<Rightarrow> n | None \<Rightarrow> 0)
                    in cp \<lparr>cp_events := remove_first (same_series e) events,
                           cp_evicted := obj_insert key (n + 1) (cp_evicted cp)\<rparr>))
         else cp \<lparr>cp_events := events\<rparr>)"

definition evicted_count :: "checkpoint \<Rightarrow> rebase_origin \<Rightarrow> nat" where
  "evicted_count cp r = (case map_of (cp_evicted cp) (origin_key r) of Some n \<Rightarrow> n | None \<Rightarrow> 0)"

definition rebase_origin_totals :: "checkpoint \<Rightarrow> origin_totals" where
  "rebase_origin_totals cp =
     (let n = (\<lambda>r. length (filter (\<lambda>e. re_origin e = r) (cp_events cp)) + evicted_count cp r)
      in \<lparr>ot_heal = n OriginHeal, ot_epoch = n OriginEpoch, ot_unknown = n OriginUnknown\<rparr>)"

section \<open>Migration of old files\<close>

type_synonym legacy_range = "int \<times> int \<times> string"

definition range_parts :: "string \<Rightarrow> string \<times> string" where
  "range_parts r = (case split_dots r of s # e # _ \<Rightarrow> (s, e) | s # [] \<Rightarrow> (s, []) | [] \<Rightarrow> ([], []))"

definition legacy_entry :: "ymd_codec \<Rightarrow> checkpoint \<Rightarrow> string \<Rightarrow> ((string \<times> string) \<times> legacy_range) option" where
  "legacy_entry k cp key =
     (case splitn 3 bar key of
        [i, b, r] \<Rightarrow>
          if map_of (cp_watermarks cp) (watermark_key i b) \<noteq> None then None
          else (case (parse_ymd k (fst (range_parts r)), parse_ymd k (snd (range_parts r))) of
              (Some sd, Some ed) \<Rightarrow> Some ((i, b), (sd, ed, r))
            | _ \<Rightarrow> None)
      | _ \<Rightarrow> None)"

definition legacy_groups :: "ymd_codec \<Rightarrow> checkpoint \<Rightarrow> ((string \<times> string) \<times> legacy_range list) list" where
  "legacy_groups k cp =
     (let es = List.map_filter (legacy_entry k cp) (cp_completed cp)
      in map (\<lambda>g. (g, map snd (filter (\<lambda>e. fst e = g) es))) (sort (remdups (map fst es))))"

fun chain_walk ::
  "(int \<Rightarrow> int \<Rightarrow> bool) \<Rightarrow> (string \<Rightarrow> bool) \<Rightarrow> int option \<Rightarrow> legacy_range list \<Rightarrow> int option \<times> string list" where
  "chain_walk hole thin cm [] = (cm, [])"
| "chain_walk hole thin cm ((sd, ed, raw) # rs) =
     (if thin raw then (cm, raw # map (snd \<circ> snd) rs)
      else case cm of
          None \<Rightarrow> chain_walk hole thin (Some ed) rs
        | Some c \<Rightarrow>
            if hole c sd then (cm, raw # map (snd \<circ> snd) rs)
            else chain_walk hole thin (Some (max c ed)) rs)"

definition paper_thin :: "checkpoint \<Rightarrow> string \<Rightarrow> string \<Rightarrow> string \<Rightarrow> bool" where
  "paper_thin cp i b r =
     list_ex (\<lambda>g. cg_reason g = PaperThin \<and> cg_instrument g = i \<and> cg_bar_type g = b \<and> cg_range g = r) (cp_gaps cp)"

definition migrate_inner ::
  "(int \<Rightarrow> int \<Rightarrow> bool) \<Rightarrow> ymd_codec \<Rightarrow> checkpoint \<Rightarrow> migration_remainder list \<times> checkpoint" where
  "migrate_inner hole k cp =
     (let outs = map (\<lambda>((i, b), ranges). ((i, b), chain_walk hole (paper_thin cp i b) None (sort_key fst ranges)))
            (legacy_groups k cp);
          remainders = List.map_filter (\<lambda>((i, b), (_, rest)).
            if rest \<noteq> [] then Some \<lparr>mr_instrument = i, mr_bar_type = b, mr_ranges = rest\<rparr> else None) outs;
          marks = foldl (\<lambda>m ((i, b), (cm, _)).
            case cm of None \<Rightarrow> m
            | Some d \<Rightarrow> if map_of m (watermark_key i b) \<noteq> None then m
                      else obj_insert (watermark_key i b) (ymd_format k d) m) (cp_watermarks cp) outs
      in (remainders, cp \<lparr>cp_watermarks := marks\<rparr>))"

definition hole_breaks :: "calendar_gate \<Rightarrow> int \<Rightarrow> int \<Rightarrow> bool" where
  "hole_breaks g cm sd =
     (if full_history_freshness g \<noteq> Some Fresh then True else breaks_chain (continuity_decision g cm sd))"

definition migrate_completed_watermarks_gated ::
  "calendar_gate \<Rightarrow> ymd_codec \<Rightarrow> checkpoint \<Rightarrow> migration_remainder list \<times> checkpoint" where
  "migrate_completed_watermarks_gated g k cp = migrate_inner (hole_breaks g) k cp"

text \<open>What reading and parsing the file gives; serde is outside the repository.\<close>

datatype checkpoint_file = CheckpointAbsent | CheckpointUnreadable string | CheckpointCorrupt string | CheckpointText checkpoint

definition load_gated :: "string \<Rightarrow> ymd_codec \<Rightarrow> checkpoint_file \<Rightarrow> calendar_gate \<Rightarrow> string + checkpoint" where
  "load_gated path k f g =
     (case f of
        CheckpointText cp \<Rightarrow> Inr (snd (migrate_completed_watermarks_gated g k cp))
      | CheckpointCorrupt e \<Rightarrow> Inl (''corrupt checkpoint '' @ path @ '': '' @ e)
      | CheckpointAbsent \<Rightarrow> Inr checkpoint_default
      | CheckpointUnreadable e \<Rightarrow> Inl (''cannot read checkpoint '' @ path @ '': '' @ e))"

definition checkpoint_load :: "string \<Rightarrow> ymd_codec \<Rightarrow> checkpoint_file \<Rightarrow> string + checkpoint" where
  "checkpoint_load path k f = load_gated path k f None"

text \<open>\<open>save\<close>: the serialized text goes to a sibling file that is renamed over the target, so the
  target holds the old text or the new one.\<close>

record save_env =
  sv_json :: "checkpoint \<Rightarrow> string + string"
  sv_parent :: "string option"
  sv_parent_name :: string
  sv_tmp_name :: string
  sv_path_name :: string
  sv_write :: "string option"
  sv_rename :: "string option"

definition checkpoint_save :: "save_env \<Rightarrow> checkpoint \<Rightarrow> string option \<Rightarrow> (string + unit) \<times> string option" where
  "checkpoint_save e cp disk =
     (case sv_json e cp of
        Inl m \<Rightarrow> (Inl (''serialize checkpoint: '' @ m), disk)
      | Inr text \<Rightarrow>
          (case sv_parent e of
             Some m \<Rightarrow> (Inl (''mkdir '' @ sv_parent_name e @ '': '' @ m), disk)
           | None \<Rightarrow>
               (case sv_write e of
                  Some m \<Rightarrow> (Inl (''write checkpoint tmp '' @ sv_tmp_name e @ '': '' @ m), disk)
                | None \<Rightarrow>
                    (case sv_rename e of
                       Some m \<Rightarrow> (Inl (''commit checkpoint '' @ sv_path_name e @ '': '' @ m), disk)
                     | None \<Rightarrow> (Inr (), Some text)))))"

section \<open>Completed coverage above the watermark\<close>

definition span_days :: "(int \<times> int) list \<Rightarrow> int set" where
  "span_days ps = (\<Union>(a, b)\<in>set ps. {a..b})"

lemma span_days_simps [simp]:
  "span_days [] = {}" "span_days ((a, b) # ps) = {a..b} \<union> span_days ps"
  "span_days (ps @ qs) = span_days ps \<union> span_days qs" "span_days (rev ps) = span_days ps"
  by (auto simp: span_days_def)

lemma span_days_mset: "mset ps = mset qs \<Longrightarrow> span_days ps = span_days qs"
  unfolding span_days_def by (metis set_mset_mset)

lemma merge_spans_days:
  assumes "sorted (map fst ps)" and "\<forall>p\<in>set ps. \<forall>q\<in>set acc. fst q \<le> fst p"
  shows "span_days (merge_spans acc ps) = span_days acc \<union> span_days ps"
  using assms
proof (induction acc ps rule: merge_spans.induct)
  case (2 p ps)
  then show ?case by (cases p) simp
next
  case (3 a b acc s e ps)
  let ?next = "case succ_opt b of Some n \<Rightarrow> n | None \<Rightarrow> b"
  have le: "a \<le> s" and hd: "\<forall>p\<in>set ps. s \<le> fst p"
    using 3(3,4) by auto
  show ?case
  proof (cases "s \<le> ?next")
    case True
    then have "s \<le> b + 1" by (auto simp: succ_opt_def split: option.splits if_splits)
    then have "{a..if b < e then e else b} = {a..b} \<union> {s..e}" using le by auto
    moreover have "span_days (merge_spans ((a, if b < e then e else b) # acc) ps) =
        span_days ((a, if b < e then e else b) # acc) \<union> span_days ps"
      using 3 True by (intro 3(1)) auto
    ultimately show ?thesis using True by (simp only: merge_spans.simps if_True span_days_simps) blast
  next
    case False
    have "span_days (merge_spans ((s, e) # (a, b) # acc) ps) = span_days ((s, e) # (a, b) # acc) \<union> span_days ps"
      using 3 False hd by (intro 3(2)) auto
    then show ?thesis using False by (simp only: merge_spans.simps if_False span_days_simps) blast
  qed
qed simp

lemma merge_spans_apart:
  assumes "sorted (map fst ps)" and "\<forall>(s, e)\<in>set ps. s \<le> e \<and> e < DATE_MAX"
    and "\<forall>(s, e)\<in>set acc. s \<le> e \<and> e < DATE_MAX" and "\<forall>p\<in>set ps. \<forall>q\<in>set acc. fst q \<le> fst p"
    and "sorted_wrt (\<lambda>(a, b) (c, d). d + 1 < a) acc"
  shows "sorted_wrt (\<lambda>(a, b) (c, d). b + 1 < c) (merge_spans acc ps)"
  using assms
proof (induction acc ps rule: merge_spans.induct)
  case (1 acc)
  then show ?case by (simp add: sorted_wrt_rev case_prod_unfold)
next
  case (2 p ps)
  then show ?case by (cases p) simp
next
  case (3 a b acc s e ps)
  have s: "succ_opt b = Some (b + 1)" using 3(5) by (simp add: succ_opt_def)
  show ?case
  proof (cases "s \<le> b + 1")
    case True
    then show ?thesis using 3 s by (auto simp: case_prod_unfold)
  next
    case False
    then show ?thesis using 3 s by (fastforce simp: case_prod_unfold)
  qed
qed

text \<open>
  The coverage a run trims its fetches against is exactly the recorded coverage: the intervals
  above a watermark cover the days of the completed ranges of the series that end above it, no day
  more and none less, and no two intervals touch.\<close>

theorem completed_intervals_are_coverage:
  assumes "\<forall>(s, e)\<in>set (completed_spans_above k cp i b wm). s \<le> e \<and> e < DATE_MAX"
  shows "span_days (completed_intervals_above k cp i b wm) = span_days (completed_spans_above k cp i b wm) \<and>
    sorted_wrt (\<lambda>(a, b) (c, d). b + 1 < c) (completed_intervals_above k cp i b wm)"
proof -
  let ?ps = "completed_spans_above k cp i b wm"
  have "span_days (merge_spans [] (sort_key fst ?ps)) = span_days (sort_key fst ?ps)"
    using merge_spans_days [of "sort_key fst ?ps" "[]"] by simp
  also have "\<dots> = span_days ?ps" by (rule span_days_mset) simp
  finally show ?thesis
    using merge_spans_apart [of "sort_key fst ?ps" "[]"] assms
    by (simp add: completed_intervals_above_def)
qed

section \<open>Pruning\<close>

definition plain_id :: "string \<Rightarrow> bool" where
  "plain_id i = (bar \<notin> set i)"

lemma splitn_bar: "plain_id i \<Longrightarrow> splitn (Suc (Suc n)) bar (i @ bar # s) = i # splitn (Suc n) bar s"
  by (simp add: plain_id_def takeWhile_append dropWhile_append)

lemma splitn_key:
  assumes "plain_id i" and "plain_id b"
  shows "splitn 3 bar (range_key i b r) = [i, b, r]"
proof -
  have "splitn (Suc (Suc 1)) bar (i @ bar # (b @ bar # r)) = i # splitn (Suc 1) bar (b @ bar # r)"
    by (rule splitn_bar [OF assms(1)])
  also have "splitn (Suc 1) bar (b @ bar # r) = b # splitn 1 bar r"
    using splitn_bar [OF assms(2), of 0 r] by simp
  finally show ?thesis by (simp add: range_key_def numeral_3_eq_3)
qed

lemma strip_key: "strip_prefix (range_key i b []) key = Some r \<longleftrightarrow> key = range_key i b r"
  by (auto simp: strip_prefix_def range_key_def prefix_def)

lemma strip_own_key: "strip_prefix (range_key i b []) (range_key i b r) = Some r"
  by (simp add: strip_key)

lemma range_dates_below:
  assumes "range_dates_of k r = Some (sd, ed)"
  shows "range_below k cp i b r = (case watermark k cp i b of None \<Rightarrow> False | Some w \<Rightarrow> ed \<le> w)"
  using assms
  by (auto simp: range_dates_of_def range_below_def watermark_def get_ymd_def parse_ymd_def Let_def
      split: list.splits option.splits prod.splits)

lemma map_filter_drop:
  "(\<And>x. x \<in> set xs \<Longrightarrow> \<not> P x \<Longrightarrow> f x = None) \<Longrightarrow> List.map_filter f (filter P xs) = List.map_filter f xs"
  by (induction xs) (auto simp: map_filter_simps split: option.split)

text \<open>
  Pruning forgets no coverage: above the watermark of a series the recorded intervals are the
  same before and after, and no watermark changes.\<close>

theorem prune_keeps_coverage_above:
  assumes "plain_id i" and "plain_id b" and "watermark k cp i b = Some w"
  shows "completed_intervals_above k (prune_below_watermarks k cp) i b w = completed_intervals_above k cp i b w \<and>
    cp_watermarks (prune_below_watermarks k cp) = cp_watermarks cp"
proof -
  have "completed_spans_above k (prune_below_watermarks k cp) i b w = completed_spans_above k cp i b w"
    unfolding completed_spans_above_def prune_below_watermarks_def
    using assms(3)
    by (auto intro!: map_filter_drop split: option.splits
        simp: strip_key key_below_def splitn_key [OF assms(1,2)] range_dates_below)
  then show ?thesis by (simp add: completed_intervals_above_def) (simp add: prune_below_watermarks_def)
qed

section \<open>Re-base events\<close>

lemma map_of_origin_key:
  "evicted_count (cp \<lparr>cp_evicted := obj_insert (origin_key r) n (cp_evicted cp)\<rparr>) r' =
     (if r' = r then n else evicted_count cp r')"
  by (cases r; cases r') (simp_all add: evicted_count_def origin_key_def)

lemma length_filter_remove_first:
  "find P xs = Some x \<Longrightarrow>
     length (filter Q xs) = length (filter Q (remove_first P xs)) + (if Q x then 1 else 0)"
  by (induction xs) (auto split: if_splits)

definition series_count :: "checkpoint \<Rightarrow> rebase_event \<Rightarrow> nat" where
  "series_count cp e = length (filter (same_series e) (cp_events cp))"

lemma find_exists: "length (filter P xs) > 0 \<Longrightarrow> \<exists>x. find P xs = Some x \<and> P x"
  by (induction xs) auto

definition origin_total :: "rebase_origin \<Rightarrow> origin_totals \<Rightarrow> nat" where
  "origin_total r t = (case r of OriginHeal \<Rightarrow> ot_heal t | OriginEpoch \<Rightarrow> ot_epoch t | OriginUnknown \<Rightarrow> ot_unknown t)"

lemma origin_total_is:
  "origin_total r (rebase_origin_totals cp) =
     length (filter (\<lambda>e. re_origin e = r) (cp_events cp)) + evicted_count cp r"
  by (cases r) (simp_all add: origin_total_def rebase_origin_totals_def Let_def)

text \<open>
  The audit of re-bases loses nothing to its cap: an event adds one to the total of its origin
  and changes no other total, evicted or not, and a series at or below the cap stays there.\<close>

theorem rebase_totals_survive_eviction:
  "origin_total r (rebase_origin_totals (record_rebase_event e cp)) =
     origin_total r (rebase_origin_totals cp) + (if r = re_origin e then 1 else 0) \<and>
   series_count (record_rebase_event e cp) e \<le> max REBASE_EVENTS_PER_SERIES_CAP (series_count cp e)"
proof (cases "REBASE_EVENTS_PER_SERIES_CAP < length (filter (same_series e) (cp_events cp @ [e]))")
  case True
  then obtain x where x: "find (same_series e) (cp_events cp @ [e]) = Some x" "same_series e x"
    using find_exists [OF le_less_trans [OF le0 True]] by blast
  have rec: "record_rebase_event e cp = cp \<lparr>cp_events := remove_first (same_series e) (cp_events cp @ [e]),
      cp_evicted := obj_insert (origin_key (re_origin x)) (evicted_count cp (re_origin x) + 1) (cp_evicted cp)\<rparr>"
    using True x unfolding record_rebase_event_def Let_def evicted_count_def by simp
  have ev: "evicted_count (record_rebase_event e cp) r =
      (if r = re_origin x then evicted_count cp (re_origin x) + 1 else evicted_count cp r)"
    using map_of_origin_key [where cp = cp and r = "re_origin x" and r' = r] unfolding rec by (simp add: evicted_count_def)
  have n: "length (filter (\<lambda>y. re_origin y = r) (cp_events cp @ [e])) =
      length (filter (\<lambda>y. re_origin y = r) (cp_events (record_rebase_event e cp))) + (if re_origin x = r then 1 else 0)"
    using length_filter_remove_first [OF x(1), of "\<lambda>y. re_origin y = r"] unfolding rec by simp
  have m: "length (filter (same_series e) (cp_events cp @ [e])) = series_count (record_rebase_event e cp) e + 1"
    using length_filter_remove_first [OF x(1), of "same_series e"] x(2) unfolding rec series_count_def by simp
  have "same_series e e" by (simp add: same_series_def)
  then show ?thesis
    using n m ev unfolding origin_total_is series_count_def by (auto split: if_splits)
next
  case False
  then show ?thesis
    by (auto simp: record_rebase_event_def Let_def origin_total_is series_count_def evicted_count_def)
qed

section \<open>The migration attests only covered days\<close>

lemma splitn_parts:
  assumes "splitn 3 bar key = [i, b, r]"
  shows "plain_id i" "plain_id b" "key = range_key i b r"
proof -
  have step: "s = takeWhile (\<lambda>x. x \<noteq> bar) s @ bar # tl (dropWhile (\<lambda>x. x \<noteq> bar) s)" if "bar \<in> set s" for s
  proof -
    have "dropWhile (\<lambda>x. x \<noteq> bar) s \<noteq> []" using that by (simp add: dropWhile_eq_Nil_conv)
    then have "dropWhile (\<lambda>x. x \<noteq> bar) s = bar # tl (dropWhile (\<lambda>x. x \<noteq> bar) s)"
      using hd_dropWhile [of "\<lambda>x. x \<noteq> bar" s] by (metis list.collapse)
    then show ?thesis by (metis takeWhile_dropWhile_id)
  qed
  have two: "bar \<in> set s \<and> b' = takeWhile (\<lambda>x. x \<noteq> bar) s \<and> r' = tl (dropWhile (\<lambda>x. x \<noteq> bar) s)"
    if "splitn (Suc (Suc 0)) bar s = [b', r']" for s b' r'
    using that by (auto split: if_splits)
  have plain: "plain_id (takeWhile (\<lambda>x. x \<noteq> bar) s)" for s
    by (auto simp: plain_id_def dest: set_takeWhileD)
  define tail where "tail = tl (dropWhile (\<lambda>x. x \<noteq> bar) key)"
  have outer: "bar \<in> set key" "i = takeWhile (\<lambda>x. x \<noteq> bar) key" "splitn (Suc (Suc 0)) bar tail = [b, r]"
    using assms unfolding numeral_3_eq_3 tail_def
    by (simp_all del: splitn.simps(3) add: splitn.simps(3) [of "Suc 0"] split: if_splits)
  from two [OF outer(3)] have inner: "bar \<in> set tail" "b = takeWhile (\<lambda>x. x \<noteq> bar) tail"
      "r = tl (dropWhile (\<lambda>x. x \<noteq> bar) tail)" by simp_all
  show "plain_id i" "plain_id b" using plain outer(2) inner(2) by simp_all
  have "key = i @ bar # tail" using step [OF outer(1)] unfolding outer(2) tail_def .
  moreover have "tail = b @ bar # r" using step [OF inner(1)] unfolding inner(2,3) .
  ultimately show "key = range_key i b r" by (simp add: range_key_def)
qed

definition series_ranges :: "ymd_codec \<Rightarrow> checkpoint \<Rightarrow> string \<Rightarrow> string \<Rightarrow> legacy_range list" where
  "series_ranges k cp i b =
     map snd (filter (\<lambda>e. fst e = (i, b)) (List.map_filter (legacy_entry k cp) (cp_completed cp)))"

definition attested :: "(int \<Rightarrow> int \<Rightarrow> bool) \<Rightarrow> (string \<Rightarrow> bool) \<Rightarrow> legacy_range list \<Rightarrow> int \<Rightarrow> bool" where
  "attested hole thin rs d \<longleftrightarrow>
     (\<exists>(sd, ed, raw)\<in>set rs. \<not> thin raw \<and> sd \<le> d \<and> d \<le> ed) \<or>
     (\<exists>a. \<exists>(sd, ed, raw)\<in>set rs. \<not> hole a sd \<and> a < d \<and> d < sd)"

lemma attested_Cons: "attested hole thin rs d \<Longrightarrow> attested hole thin (p # rs) d"
  unfolding attested_def by auto

lemma chain_walk_attests:
  assumes "chain_walk hole thin (Some c) rs = (Some w, rest)"
  shows "c \<le> w \<and> (\<forall>d. c < d \<and> d \<le> w \<longrightarrow> attested hole thin rs d)"
  using assms
proof (induction rs arbitrary: c)
  case (Cons p rs)
  obtain sd ed raw where p: "p = (sd, ed, raw)" by (cases p)
  show ?case
  proof (cases "thin raw \<or> hole c sd")
    case True
    with Cons.prems p have "w = c" by (cases "thin raw") auto
    then show ?thesis by auto
  next
    case False
    with Cons.prems p have "chain_walk hole thin (Some (max c ed)) rs = (Some w, rest)" by simp
    note ih = Cons.IH [OF this]
    have "attested hole thin (p # rs) d" if d: "c < d" "d \<le> w" for d
    proof (cases "d \<le> max c ed")
      case True
      with d(1) have "d \<le> ed" by simp
      with False d(1) p show ?thesis by (cases "sd \<le> d") (auto simp: attested_def)
    qed (use ih d in \<open>auto intro: attested_Cons\<close>)
    with ih show ?thesis by simp
  qed
qed auto

lemma chain_walk_first:
  assumes "chain_walk hole thin None rs = (Some w, rest)" and "sorted (map fst rs)"
    and "d \<le> w" and "\<exists>(sd, ed, raw)\<in>set rs. sd \<le> d"
  shows "attested hole thin rs d"
proof (cases rs)
  case (Cons p ps)
  obtain sd ed raw where p: "p = (sd, ed, raw)" by (cases p)
  have ok: "\<not> thin raw" "chain_walk hole thin (Some ed) ps = (Some w, rest)"
    using assms(1) Cons p by (auto split: if_splits)
  have "sd \<le> d" using assms(2,4) Cons p by (auto simp: case_prod_unfold)
  show ?thesis
  proof (cases "d \<le> ed")
    case True
    with \<open>sd \<le> d\<close> ok(1) Cons p show ?thesis by (auto simp: attested_def)
  next
    case False
    with chain_walk_attests [OF ok(2)] assms(3) Cons show ?thesis by (auto intro: attested_Cons)
  qed
qed (use assms in simp)

lemma chain_walk_end:
  "chain_walk hole thin cm rs = (Some x, rest) \<Longrightarrow> cm = Some x \<or> x \<in> (fst \<circ> snd) ` set rs"
  by (induction rs arbitrary: cm) (fastforce simp: max_def split: if_splits option.splits)+

lemma hole_closed:
  assumes "gate_ok g" and "sd \<le> DATE_MAX" and "\<not> hole_breaks g a sd" and "a < d" and "d < sd"
  shows "known g d = Some DayClosed"
proof -
  have "continuity_decision g a sd = AllClosed"
    using assms(3) by (simp add: hole_breaks_def breaks_chain_def split: if_splits)
  moreover have "succ_opt a = Some (a + 1)" using assms by (simp add: succ_opt_def)
  ultimately have "scan_continuity g (a + 1) sd = AllClosed" by (simp add: continuity_decision_def)
  then have "\<forall>x\<in>{a + 1..<sd}. known g x = Some DayClosed"
    using scan_is [OF assms(1,2), of "a + 1"] by (auto split: if_splits)
  with assms(4,5) show ?thesis by simp
qed

lemma watermark_key_inj:
  assumes "plain_id i" and "plain_id i'" and "watermark_key i b = watermark_key i' b'"
  shows "i = i' \<and> b = b'"
proof -
  have "takeWhile (\<lambda>x. x \<noteq> bar) (watermark_key j c) = j \<and> dropWhile (\<lambda>x. x \<noteq> bar) (watermark_key j c) = bar # c"
    if "plain_id j" for j c
    using that by (auto simp: watermark_key_def plain_id_def takeWhile_append dropWhile_append)
  with assms show ?thesis by (metis list.inject)
qed

definition migrate_step ::
  "ymd_codec \<Rightarrow> (string \<times> string) list \<Rightarrow> (string \<times> string) \<times> (int option \<times> string list) \<Rightarrow> (string \<times> string) list" where
  "migrate_step k m = (\<lambda>((i, b), (cm, _)).
     case cm of None \<Rightarrow> m
     | Some d \<Rightarrow> if map_of m (watermark_key i b) \<noteq> None then m
               else obj_insert (watermark_key i b) (ymd_format k d) m)"

lemma migrate_steps_keep:
  "(\<And>g x. (g, x) \<in> set outs \<Longrightarrow> watermark_key (fst g) (snd g) \<noteq> key) \<Longrightarrow>
     map_of (foldl (migrate_step k) m outs) key = map_of m key"
proof (induction outs arbitrary: m)
  case (Cons o1 outs)
  obtain i b cm rest where o1: "o1 = ((i, b), cm, rest)" by (cases o1) auto
  then have "watermark_key i b \<noteq> key" using Cons.prems [of "(i, b)" "(cm, rest)"] by simp
  then have "map_of (migrate_step k m o1) key = map_of m key"
    by (auto simp: migrate_step_def o1 split: option.split)
  moreover have "map_of (foldl (migrate_step k) (migrate_step k m o1) outs) key = map_of (migrate_step k m o1) key"
    by (rule Cons.IH) (use Cons.prems in auto)
  ultimately show ?case by simp
qed simp

lemma migrate_steps_at:
  assumes "distinct (map fst outs)" and "\<And>g x. (g, x) \<in> set outs \<Longrightarrow> plain_id (fst g)"
    and "((i, b), (cm, rest)) \<in> set outs" and "map_of m (watermark_key i b) = None"
  shows "map_of (foldl (migrate_step k) m outs) (watermark_key i b) = map_option (ymd_format k) cm"
  using assms
proof (induction outs arbitrary: m)
  case (Cons o1 outs)
  show ?case
  proof (cases "o1 = ((i, b), (cm, rest))")
    case True
    have "watermark_key (fst g) (snd g) \<noteq> watermark_key i b" if "(g, x) \<in> set outs" for g x
    proof
      assume "watermark_key (fst g) (snd g) = watermark_key i b"
      moreover have "plain_id (fst g)" "plain_id i"
        using Cons.prems(2) [of g x] Cons.prems(2) [of "(i, b)" "(cm, rest)"] that True by auto
      ultimately have "g = (i, b)" using watermark_key_inj [of "fst g" i "snd g" b] by (cases g) auto
      with that Cons.prems(1) True show False by force
    qed
    then show ?thesis
      using Cons.prems(4) True
      by (simp add: migrate_steps_keep) (simp add: migrate_step_def split: option.split)
  next
    case False
    then have in_outs: "((i, b), (cm, rest)) \<in> set outs" using Cons.prems(3) by auto
    obtain i1 b1 cm1 rest1 where o1: "o1 = ((i1, b1), cm1, rest1)" by (cases o1) auto
    have "watermark_key i1 b1 \<noteq> watermark_key i b"
    proof
      assume "watermark_key i1 b1 = watermark_key i b"
      then have "(i1, b1) = (i, b)"
        using watermark_key_inj [of i1 i b1 b] Cons.prems(2) [of "(i1, b1)" "(cm1, rest1)"] Cons.prems(2) [of "(i, b)" "(cm, rest)"] Cons.prems(3) o1
        by auto
      with in_outs Cons.prems(1) o1 show False by force
    qed
    then have "map_of (migrate_step k m o1) (watermark_key i b) = None"
      using Cons.prems(4) by (auto simp: migrate_step_def o1 split: option.split)
    moreover have "distinct (map fst outs)" using Cons.prems(1) by simp
    ultimately have "map_of (foldl (migrate_step k) (migrate_step k m o1) outs) (watermark_key i b) = map_option (ymd_format k) cm"
      by (intro Cons.IH in_outs) (use Cons.prems(2) in auto)
    then show ?thesis by simp
  qed
qed simp

lemma in_map_filter: "y \<in> set (List.map_filter f xs) \<longleftrightarrow> (\<exists>x\<in>set xs. f x = Some y)"
  by (induction xs) (auto simp: map_filter_simps split: option.splits)

definition codec_sound :: "ymd_codec \<Rightarrow> bool" where
  "codec_sound k \<longleftrightarrow> (\<forall>s d. ymd_parse k s = Some d \<longrightarrow> d \<le> DATE_MAX \<and> ymd_ok k d)"

definition migrate_outs ::
  "(int \<Rightarrow> int \<Rightarrow> bool) \<Rightarrow> ymd_codec \<Rightarrow> checkpoint \<Rightarrow> ((string \<times> string) \<times> (int option \<times> string list)) list" where
  "migrate_outs hole k cp = map (\<lambda>g. (g, chain_walk hole (paper_thin cp (fst g) (snd g)) None
     (sort_key fst (series_ranges k cp (fst g) (snd g)))))
     (sort (remdups (map fst (List.map_filter (legacy_entry k cp) (cp_completed cp)))))"

lemma migrate_inner_marks:
  "cp_watermarks (snd (migrate_inner hole k cp)) = foldl (migrate_step k) (cp_watermarks cp) (migrate_outs hole k cp)"
proof -
  have "map (\<lambda>((i, b), ranges). ((i, b), chain_walk hole (paper_thin cp i b) None (sort_key fst ranges)))
      (legacy_groups k cp) = migrate_outs hole k cp"
    by (simp add: legacy_groups_def migrate_outs_def Let_def series_ranges_def case_prod_unfold)
  then show ?thesis by (simp add: migrate_inner_def Let_def migrate_step_def [abs_def])
qed

lemma entry_group: "legacy_entry k cp key = Some ((i, b), x) \<Longrightarrow> plain_id i \<and> map_of (cp_watermarks cp) (watermark_key i b) = None"
  by (auto simp: legacy_entry_def split: list.splits option.splits if_splits prod.splits dest: splitn_parts)

lemma entry_dates:
  "legacy_entry k cp key = Some (ib, (sd, ed, r)) \<Longrightarrow> \<exists>s e. parse_ymd k s = Some sd \<and> parse_ymd k e = Some ed"
  by (auto simp: legacy_entry_def split: list.splits option.splits if_splits prod.splits)

lemma series_in_outs:
  assumes "series_ranges k cp i b \<noteq> []"
  shows "((i, b), chain_walk hole (paper_thin cp i b) None (sort_key fst (series_ranges k cp i b)))
    \<in> set (migrate_outs hole k cp)"
  using assms by (force simp: migrate_outs_def series_ranges_def filter_empty_conv)


text \<open>
  C25. The migration of an old checkpoint attests only covered days: every day from the start of
  any completed range of a series up to the watermark derived for it lies in a completed range that
  was not cut short, or is a proven closure of the calendar.\<close>

theorem migration_attests_covered_days:
  assumes "gate_ok g" and "codec_sound k"
    and "map_of (cp_watermarks cp) (watermark_key i b) = None" and "plain_id i"
    and "watermark k (snd (migrate_completed_watermarks_gated g k cp)) i b = Some w"
    and "d \<le> w" and "\<exists>(sd, ed, r)\<in>set (series_ranges k cp i b). sd \<le> d"
  shows "(\<exists>(sd, ed, r)\<in>set (series_ranges k cp i b). \<not> paper_thin cp i b r \<and> sd \<le> d \<and> d \<le> ed) \<or>
    known g d = Some DayClosed"
proof -
  let ?rs = "series_ranges k cp i b"
  define out where "out = chain_walk (hole_breaks g) (paper_thin cp i b) None (sort_key fst ?rs)"
  obtain cm rest where out: "out = (cm, rest)" by (cases out)
  have "?rs \<noteq> []" using assms(7) by auto
  then have mem: "((i, b), (cm, rest)) \<in> set (migrate_outs (hole_breaks g) k cp)"
    using series_in_outs [of k cp i b "hole_breaks g"] out out_def by simp
  have "distinct (map fst (migrate_outs (hole_breaks g) k cp))"
    by (simp add: migrate_outs_def comp_def)
  moreover have "plain_id (fst gr)" if "(gr, x) \<in> set (migrate_outs (hole_breaks g) k cp)" for gr x
    using that by (cases gr) (auto simp: migrate_outs_def in_map_filter dest: entry_group)
  ultimately have "map_of (cp_watermarks (snd (migrate_inner (hole_breaks g) k cp))) (watermark_key i b) =
      map_option (ymd_format k) cm"
    unfolding migrate_inner_marks by (rule migrate_steps_at [OF _ _ mem assms(3)])
  then obtain c where c: "cm = Some c" "parse_ymd k (ymd_format k c) = Some w"
    using assms(5) by (auto simp: watermark_def get_ymd_def migrate_completed_watermarks_gated_def split: option.splits)
  have bounds: "sd \<le> DATE_MAX \<and> ed \<le> DATE_MAX \<and> ymd_ok k ed" if "(sd, ed, r) \<in> set ?rs" for sd ed r
    using that assms(2) entry_dates
    by (fastforce simp: series_ranges_def in_map_filter codec_sound_def parse_ymd_def)
  have "\<exists>(sd, ed, r)\<in>set ?rs. c = ed"
    using chain_walk_end [of "hole_breaks g" "paper_thin cp i b" None "sort_key fst ?rs" c rest] out c(1)
    unfolding out_def by (auto simp: case_prod_unfold)
  then obtain sd r where "(sd, c, r) \<in> set ?rs" by auto
  then have "ymd_ok k c" using bounds by blast
  then have w: "w = c" using c(2) by (simp add: ymd_ok_def)
  have at: "attested (hole_breaks g) (paper_thin cp i b) (sort_key fst ?rs) d"
  proof (rule chain_walk_first)
    show "chain_walk (hole_breaks g) (paper_thin cp i b) None (sort_key fst ?rs) = (Some w, rest)"
      using out c(1) w unfolding out_def by simp
  qed (use assms(6,7) in simp_all)
  have "known g d = Some DayClosed"
    if "(sd, ed, raw) \<in> set ?rs" "\<not> hole_breaks g a sd" "a < d" "d < sd" for a sd ed raw
    using hole_closed [OF assms(1) _ that(2-4)] bounds [OF that(1)] by blast
  with at show ?thesis unfolding attested_def by (simp add: case_prod_unfold) (metis prod.collapse)
qed

definition sample_ymd :: ymd_codec where
  "sample_ymd = \<lparr>ymd_parse = (\<lambda>s. if s = ''20240105'' then Some 738890 else if s = ''20240107'' then Some 738892 else None),
     ymd_format = (\<lambda>d. if d = 738890 then ''20240105'' else if d = 738892 then ''20240107'' else [])\<rparr>"

lemma sample_trims: "trim ''20240105'' = ''20240105''" "trim ''20240107'' = ''20240107''" "trim ''AA'' = ''AA''"
  by (rule trim_plain, auto simp: plain_char_def)+

lemma sample_ymd_parse:
  "parse_ymd sample_ymd ''20240105'' = Some 738890" "parse_ymd sample_ymd ''20240107'' = Some 738892"
  by (simp_all add: parse_ymd_def sample_ymd_def sample_trims)

lemma sample_ymd_sound: "codec_sound sample_ymd"
  by (auto simp: codec_sound_def ymd_ok_def parse_ymd_def sample_ymd_def sample_trims DATE_MAX_def)

definition sample_checkpoint :: checkpoint where
  "sample_checkpoint = checkpoint_default \<lparr>cp_completed := [range_key ''AA'' ''1-DAY'' ''20240105..20240107'']\<rparr>"

lemma sample_plain: "plain_id ''AA''" "plain_id ''1-DAY''"
  by (simp_all add: plain_id_def bar_def)

lemma sample_entries:
  "List.map_filter (legacy_entry sample_ymd sample_checkpoint) (cp_completed sample_checkpoint) =
     [((''AA'', ''1-DAY''), (738890, 738892, ''20240105..20240107''))]"
  by (simp add: map_filter_simps legacy_entry_def sample_checkpoint_def splitn_key [OF sample_plain]
      checkpoint_default_def range_parts_def sample_ymd_parse)

lemma sample_migrated:
  "cp_watermarks (snd (migrate_completed_watermarks_gated g sample_ymd sample_checkpoint)) =
     [(watermark_key ''AA'' ''1-DAY'', ''20240107'')]"
  unfolding migrate_completed_watermarks_gated_def migrate_inner_marks migrate_outs_def series_ranges_def sample_entries
  by (simp add: migrate_step_def sample_checkpoint_def checkpoint_default_def paper_thin_def sample_ymd_def)

theorem migration_attests_covered_days_witness:
  "watermark sample_ymd (snd (migrate_completed_watermarks_gated (Some sample_view) sample_ymd sample_checkpoint))
     ''AA'' ''1-DAY'' = Some 738892 \<and>
   ((\<exists>(sd, ed, r)\<in>set (series_ranges sample_ymd sample_checkpoint ''AA'' ''1-DAY''). sd \<le> 738891 \<and> 738891 \<le> ed) \<or>
    known (Some sample_view) 738891 = Some DayClosed)"
proof -
  have w: "watermark sample_ymd (snd (migrate_completed_watermarks_gated (Some sample_view) sample_ymd sample_checkpoint))
      ''AA'' ''1-DAY'' = Some 738892"
    by (simp add: watermark_def get_ymd_def sample_migrated sample_ymd_parse)
  have "map_of (cp_watermarks sample_checkpoint) (watermark_key ''AA'' ''1-DAY'') = None"
    by (simp add: sample_checkpoint_def checkpoint_default_def)
  moreover have "\<exists>(sd, ed, r)\<in>set (series_ranges sample_ymd sample_checkpoint ''AA'' ''1-DAY''). sd \<le> (738891::int)"
    by (simp add: series_ranges_def sample_entries)
  ultimately show ?thesis
    using migration_attests_covered_days [OF sample_gate_ok sample_ymd_sound _ sample_plain(1) w, of 738891] w
    by fastforce
qed

lemma watermark_keeps_completed: "cp_completed (set_watermark k i b d cp) = cp_completed cp"
  by (simp add: set_watermark_def)

lemma sample_spans:
  assumes "cp_completed cp = cp_completed sample_checkpoint"
  shows "completed_spans_above sample_ymd cp ''AA'' ''1-DAY'' 738890 = [(738890, 738892)]"
  using assms
  by (simp add: completed_spans_above_def sample_checkpoint_def checkpoint_default_def map_filter_simps
      strip_own_key range_dates_of_def sample_ymd_parse)

theorem prune_keeps_coverage_above_witness:
  "completed_intervals_above sample_ymd (prune_below_watermarks sample_ymd
     (set_watermark sample_ymd ''AA'' ''1-DAY'' 738890 sample_checkpoint)) ''AA'' ''1-DAY'' 738890 = [(738890, 738892)]"
proof -
  have "watermark sample_ymd (set_watermark sample_ymd ''AA'' ''1-DAY'' 738890 sample_checkpoint) ''AA'' ''1-DAY'' = Some 738890"
    by (simp add: watermark_def set_watermark_def get_ymd_def) (simp add: sample_ymd_def sample_ymd_parse [unfolded sample_ymd_def])
  note kept = prune_keeps_coverage_above [OF sample_plain this]
  show ?thesis
    unfolding kept [THEN conjunct1]
    by (simp add: completed_intervals_above_def sample_spans [OF watermark_keeps_completed])
qed

theorem completed_intervals_are_coverage_witness:
  "span_days (completed_intervals_above sample_ymd sample_checkpoint ''AA'' ''1-DAY'' 738890) = {738890..738892}"
proof -
  show ?thesis
    using completed_intervals_are_coverage [of sample_ymd sample_checkpoint "''AA''" "''1-DAY''" 738890]
    by (simp add: sample_spans DATE_MAX_def)
qed

section \<open>Marks, retries and gaps\<close>

datatype checkpoint_op =
    MarkShifted string string int rebase_origin
  | ClearShifted string string
  | SetWatermark string string int
  | ClearWatermark string string
  | MarkDone string string string
  | RecordGap string string string gap_reason
  | RecordGapUncovered string string string gap_reason
  | BumpEmpty string string int
  | ResetEmpty string string
  | RecordRebase rebase_event
  | Prune
  | Migrate calendar_gate

fun checkpoint_step :: "ymd_codec \<Rightarrow> checkpoint_op \<Rightarrow> checkpoint \<Rightarrow> checkpoint" where
  "checkpoint_step k (MarkShifted i b d r) cp = mark_shifted k i b d r cp"
| "checkpoint_step k (ClearShifted i b) cp = clear_shifted i b cp"
| "checkpoint_step k (SetWatermark i b d) cp = set_watermark k i b d cp"
| "checkpoint_step k (ClearWatermark i b) cp = clear_watermark i b cp"
| "checkpoint_step k (MarkDone i b r) cp = mark_done i b r cp"
| "checkpoint_step k (RecordGap i b r why) cp = record_gap i b r why cp"
| "checkpoint_step k (RecordGapUncovered i b r why) cp = record_gap_uncovered i b r why cp"
| "checkpoint_step k (BumpEmpty i b d) cp = snd (bump_empty_retry k i b d cp)"
| "checkpoint_step k (ResetEmpty i b) cp = reset_empty_retry i b cp"
| "checkpoint_step k (RecordRebase e) cp = record_rebase_event e cp"
| "checkpoint_step k Prune cp = prune_below_watermarks k cp"
| "checkpoint_step k (Migrate g) cp = snd (migrate_completed_watermarks_gated g k cp)"

abbreviation run_ops :: "ymd_codec \<Rightarrow> checkpoint_op list \<Rightarrow> checkpoint \<Rightarrow> checkpoint" where
  "run_ops k ops cp \<equiv> foldl (\<lambda>c x. checkpoint_step k x c) cp ops"

definition marks_paired :: "checkpoint \<Rightarrow> bool" where
  "marks_paired cp \<longleftrightarrow> dom (map_of (cp_shifted_origin cp)) \<subseteq> dom (map_of (cp_shifted cp))"

lemma record_rebase_marks:
  "cp_shifted (record_rebase_event e cp) = cp_shifted cp"
  "cp_shifted_origin (record_rebase_event e cp) = cp_shifted_origin cp"
  by (auto simp: record_rebase_event_def Let_def split: option.split)

lemma other_steps_keep_marks:
  "(\<forall>i b d r. x \<noteq> MarkShifted i b d r) \<Longrightarrow> (\<forall>i b. x \<noteq> ClearShifted i b) \<Longrightarrow>
     cp_shifted (checkpoint_step k x cp) = cp_shifted cp \<and> cp_shifted_origin (checkpoint_step k x cp) = cp_shifted_origin cp"
  by (cases x)
    (simp_all add: record_rebase_marks set_watermark_def clear_watermark_def mark_done_def record_gap_def
      record_gap_uncovered_def bump_empty_retry_def reset_empty_retry_def prune_below_watermarks_def
      migrate_completed_watermarks_gated_def migrate_inner_def Let_def)

lemma marks_paired_step: "marks_paired cp \<Longrightarrow> marks_paired (checkpoint_step k x cp)"
proof (cases x)
  case (MarkShifted i b d r)
  then show "marks_paired cp \<Longrightarrow> ?thesis" by (auto simp: marks_paired_def mark_shifted_def Let_def)
next
  case (ClearShifted i b)
  then show "marks_paired cp \<Longrightarrow> ?thesis" by (auto simp: marks_paired_def clear_shifted_def Let_def)
qed (use other_steps_keep_marks [of x k cp] in \<open>auto simp: marks_paired_def\<close>)

text \<open>
  A basis-shift mark keeps the day it was first detected and the origin it was first given
  through every operation on any series until it is cleared, and no origin outlives its mark.\<close>

theorem shift_mark_is_sticky:
  assumes "marks_paired cp" and "is_shifted cp i b"
    and "list_all (\<lambda>x. case x of ClearShifted i' b' \<Rightarrow> watermark_key i' b' \<noteq> watermark_key i b | _ \<Rightarrow> True) ops"
  shows "shifted_detected (run_ops k ops cp) i b = shifted_detected cp i b \<and>
    shifted_origin (run_ops k ops cp) i b = shifted_origin cp i b \<and> marks_paired (run_ops k ops cp)"
  using assms
proof (induction ops arbitrary: cp)
  case (Cons x ops)
  have *: "shifted_detected (checkpoint_step k x cp) i b = shifted_detected cp i b \<and>
      shifted_origin (checkpoint_step k x cp) i b = shifted_origin cp i b"
  proof (cases x)
    case (MarkShifted i' b' d r)
    then show ?thesis using Cons.prems(2)
      by (auto simp: shifted_detected_def shifted_origin_def mark_shifted_def Let_def is_shifted_def)
  next
    case (ClearShifted i' b')
    then show ?thesis using Cons.prems(3)
      by (auto simp: shifted_detected_def shifted_origin_def clear_shifted_def Let_def)
  qed (use other_steps_keep_marks [of x k cp] in \<open>auto simp: shifted_detected_def shifted_origin_def\<close>)
  then have "is_shifted (checkpoint_step k x cp) i b"
    using Cons.prems(2) by (simp add: is_shifted_def shifted_detected_def)
  with Cons.IH [OF marks_paired_step [OF Cons.prems(1)]] Cons.prems(3) * show ?case by simp
qed simp

theorem shift_mark_is_sticky_witness:
  "shifted_origin (run_ops sample_ymd [MarkShifted ''AA'' ''1-DAY'' 738892 OriginEpoch, Prune]
     (mark_shifted sample_ymd ''AA'' ''1-DAY'' 738890 OriginHeal sample_checkpoint)) ''AA'' ''1-DAY'' = OriginHeal"
proof -
  have "shifted_origin (mark_shifted sample_ymd ''AA'' ''1-DAY'' 738890 OriginHeal sample_checkpoint) ''AA'' ''1-DAY'' = OriginHeal"
    "marks_paired (mark_shifted sample_ymd ''AA'' ''1-DAY'' 738890 OriginHeal sample_checkpoint)"
    "is_shifted (mark_shifted sample_ymd ''AA'' ''1-DAY'' 738890 OriginHeal sample_checkpoint) ''AA'' ''1-DAY''"
    by (auto simp: shifted_origin_def mark_shifted_def sample_checkpoint_def checkpoint_default_def marks_paired_def
        is_shifted_def Let_def)
  with shift_mark_is_sticky [of _ "''AA''" "''1-DAY''" "[MarkShifted ''AA'' ''1-DAY'' 738892 OriginEpoch, Prune]" sample_ymd]
  show ?thesis by simp
qed

lemma bump_retry_state:
  "map_of (cp_empty (snd (bump_empty_retry k i b d cp))) (watermark_key i b) =
     Some \<lparr>er_count = (empty_retry_count cp i b + 1) mod 2 ^ 32, er_through = ymd_format k d\<rparr>"
  by (simp add: bump_empty_retry_def Let_def)

lemma bumps_count:
  assumes "empty_retry_count cp i b + n < 2 ^ 32"
  shows "empty_retry_count (((\<lambda>c. snd (bump_empty_retry k i b d c)) ^^ n) cp) i b = empty_retry_count cp i b + n"
  using assms
proof (induction n)
  case (Suc n)
  then show ?case by (simp add: empty_retry_count_def [of "snd _"] bump_retry_state)
qed simp

text \<open>
  Retrying an empty session converges: after the allowed number of empty attempts at a target
  the series is skipped for every target up to it, one more session re-arms the fetch, and progress
  clears the count.\<close>

theorem empty_retry_converges:
  assumes "ymd_ok k d" and "0 < n" and "empty_retry_count cp i b + n < 2 ^ 32"
  shows "empty_retry_converged k (((\<lambda>c. snd (bump_empty_retry k i b d c)) ^^ n) cp) i b t m =
      (m \<le> empty_retry_count cp i b + n \<and> t \<le> d) \<and>
    \<not> empty_retry_converged k (reset_empty_retry i b cp) i b t m"
proof -
  obtain j where n: "n = Suc j" using assms(2) by (cases n) auto
  let ?cp = "((\<lambda>c. snd (bump_empty_retry k i b d c)) ^^ j) cp"
  have "empty_retry_count ?cp i b = empty_retry_count cp i b + j"
    by (rule bumps_count) (use assms(3) n in simp)
  then have "map_of (cp_empty (((\<lambda>c. snd (bump_empty_retry k i b d c)) ^^ n) cp)) (watermark_key i b) =
      Some \<lparr>er_count = empty_retry_count cp i b + n, er_through = ymd_format k d\<rparr>"
    using assms(3) n by (simp add: bump_retry_state)
  then show ?thesis
    using assms(1) by (auto simp: empty_retry_converged_def ymd_ok_def reset_empty_retry_def)
qed

theorem empty_retry_converges_witness:
  "empty_retry_converged sample_ymd (snd (bump_empty_retry sample_ymd ''AA'' ''1-DAY'' 738892
     (snd (bump_empty_retry sample_ymd ''AA'' ''1-DAY'' 738892 sample_checkpoint)))) ''AA'' ''1-DAY'' 738892 2"
proof -
  have "ymd_ok sample_ymd 738892" by (simp add: ymd_ok_def parse_ymd_def sample_ymd_def sample_trims)
  moreover have "empty_retry_count sample_checkpoint ''AA'' ''1-DAY'' = 0"
    by (simp add: empty_retry_count_def sample_checkpoint_def checkpoint_default_def)
  ultimately show ?thesis
    using empty_retry_converges [of sample_ymd 738892 "Suc (Suc 0)" sample_checkpoint "''AA''" "''1-DAY''" 738892 2]
    by simp
qed

text \<open>
  Recording an uncovered gap attests nothing: no range becomes done, every gap of a done range
  stays, and of the uncovered gaps of the series and reason only the new one is left.\<close>

theorem uncovered_gap_attests_nothing:
  "let cp' = record_gap_uncovered i b r why cp
   in is_done cp' = is_done cp \<and> watermark k cp' = watermark k cp \<and>
      filter (\<lambda>g. is_done cp (cg_instrument g) (cg_bar_type g) (cg_range g)) (butlast (cp_gaps cp')) =
        filter (\<lambda>g. is_done cp (cg_instrument g) (cg_bar_type g) (cg_range g)) (cp_gaps cp) \<and>
      filter (\<lambda>g. cg_instrument g = i \<and> cg_bar_type g = b \<and> cg_reason g = why \<and>
          \<not> is_done cp (cg_instrument g) (cg_bar_type g) (cg_range g)) (butlast (cp_gaps cp')) = [] \<and>
      last (cp_gaps cp') = \<lparr>cg_instrument = i, cg_bar_type = b, cg_range = r, cg_reason = why\<rparr>"
  by (auto simp: Let_def record_gap_uncovered_def is_done_def watermark_def fun_eq_iff filter_empty_conv intro!: filter_cong)

end
