(* ===== verification/Catalog_Baseline.thy ===== *)
theory Catalog_Baseline
  imports Calendar_Startup Checkpoint Dispatch_Gate
begin

text \<open>
  What the dispatch reads off the calendar and the catalog (\<open>adapters/nautilus/lab/src/runner/live/mount.rs\<close>):
  the date fact, the last proven session, the freshness of the catalog and its bars. The catalog is
  its checkpoint file and the listing of its bar directory.
\<close>

section \<open>The catalog\<close>

definition DAILY_BAR_TYPE :: string where "DAILY_BAR_TYPE = ''1-DAY''"

record catalog =
  ct_checkpoint :: checkpoint_file
  ct_bars :: "(string \<times> string list option) list option"

definition is_parquet :: "string \<Rightarrow> bool" where
  "is_parquet f = (suffix ''.parquet'' f \<and> f \<noteq> ''.parquet'')"

definition daily_bars_present :: "catalog \<Rightarrow> string \<Rightarrow> bool" where
  "daily_bars_present ct i =
     (case ct_bars ct of
        None \<Rightarrow> False
      | Some entries \<Rightarrow> list_ex (\<lambda>(name, files). prefix (i @ ''-'' @ DAILY_BAR_TYPE @ ''-'') name \<and>
          (case files of None \<Rightarrow> False | Some fs \<Rightarrow> list_ex is_parquet fs)) entries)"

definition evaluate_catalog :: "ymd_codec \<Rightarrow> catalog \<Rightarrow> int option \<Rightarrow> bool \<times> bool" where
  "evaluate_catalog k ct last_closed =
     (case checkpoint_load ''ingest-checkpoint.json'' k (ct_checkpoint ct) of
        Inl _ \<Rightarrow> (False, False)
      | Inr cp \<Rightarrow>
          (let dailies = watermarks_for k cp DAILY_BAR_TYPE;
               bars = (dailies \<noteq> [] \<and> list_all (\<lambda>(i, _). daily_bars_present ct i) dailies)
           in case last_closed of
                None \<Rightarrow> (False, bars)
              | Some expected \<Rightarrow>
                  if dailies = [] then (False, bars)
                  else
                    (let all_current = list_all (\<lambda>(_, d). case d of None \<Rightarrow> False | Some x \<Rightarrow> expected \<le> x) dailies;
                         daily_gap = list_ex (\<lambda>g. cg_bar_type g = DAILY_BAR_TYPE) (cp_gaps cp)
                     in (all_current \<and> \<not> daily_gap, bars))))"

definition session_range_in_catalog :: "ymd_codec \<Rightarrow> catalog \<Rightarrow> string \<Rightarrow> string list \<Rightarrow> bool" where
  "session_range_in_catalog k ct trading_date symbols =
     (case ymd_parse k trading_date of
        None \<Rightarrow> False
      | Some session \<Rightarrow>
          (case checkpoint_load ''ingest-checkpoint.json'' k (ct_checkpoint ct) of
             Inl _ \<Rightarrow> False
           | Inr cp \<Rightarrow>
               symbols \<noteq> [] \<and>
               list_all (\<lambda>i. (case watermark k cp i DAILY_BAR_TYPE of None \<Rightarrow> False | Some wm \<Rightarrow> session \<le> wm) \<and>
                 daily_bars_present ct i) symbols))"

section \<open>The calendar facts of a dispatch\<close>

definition LAST_SESSION_LOOKBACK_DAYS :: int where "LAST_SESSION_LOOKBACK_DAYS = 30"

definition loaded_view :: "loaded_calendar \<Rightarrow> int \<Rightarrow> as_of_view option" where
  "loaded_view l t =
     (case loaded_snapshot l of None \<Rightarrow> None
      | Some s \<Rightarrow> (case as_of s t of Inr v \<Rightarrow> Some v | Inl _ \<Rightarrow> None))"

definition last_session_before :: "as_of_view \<Rightarrow> int \<Rightarrow> int option" where
  "last_session_before v d =
     (let start = d - LAST_SESSION_LOOKBACK_DAYS
      in if start < DATE_MIN then None
         else case range_half_open start d of
             Inl _ \<Rightarrow> None
           | Inr rg \<Rightarrow> (case last_session v rg of Inr (Found x) \<Rightarrow> Some x | _ \<Rightarrow> None))"

definition resolve_date_fact_and_record ::
  "diagnostic_codec \<Rightarrow> calendar_adoption \<Rightarrow> loaded_calendar \<Rightarrow> int \<Rightarrow> date_fact \<times> startup_record \<times> int option" where
  "resolve_date_fact_and_record k adoption l now =
     (let today = kst_date now;
          rec = build_startup_record_targeted k ''lab-live-dispatch'' adoption l now (Some today);
          view = loaded_view l now
      in (date_fact_from_view view today, rec,
          case view of None \<Rightarrow> None | Some v \<Rightarrow> last_session_before v today))"

section \<open>Properties\<close>

lemma date_fact_unavailable:
  "date_fact_from_view view d = Unavailable \<longleftrightarrow> (case view of None \<Rightarrow> True | Some v \<Rightarrow> \<not> (\<exists>f. view_day v d = Inr f))"
  by (auto simp: date_fact_from_view_def split: option.splits sum.splits day_status.splits)

lemma usable_from_view: "is_usable (cd_outcome (from_view k v d)) = (\<exists>f. view_day v d = Inr f)"
  by (auto simp: from_view_def Let_def is_usable_def day_outcome_def split: sum.splits query_error.splits)

text \<open>
  The startup record and the date fact of a dispatch never disagree: the record says the
  calendar is enforced exactly when the fact is not Unavailable, for every load result and instant.\<close>

theorem record_agrees_with_fact:
  "case resolve_date_fact_and_record k adoption l now of
     (dfact, rec, base) \<Rightarrow> (sur_action rec = EnforcedActive) = (dfact \<noteq> Unavailable) \<and> (dfact = Unavailable \<or> sur_diagnostic rec \<noteq> None)"
proof -
  have ad: "resulting_action a b = EnforcedActive \<longleftrightarrow> b" for a b
    by (cases a) (simp add: resulting_action_def)
  show ?thesis
    by (cases l)
      (auto simp: resolve_date_fact_and_record_def Let_def build_startup_record_targeted_def loaded_view_def
        loaded_snapshot_def date_fact_unavailable ad usable_from_view split: sum.splits)
qed

text \<open>
  C27. A catalog that reads as fresh is fresh against the calendar: there is a proven session within
  the last thirty days with only proven closures between it and today, every daily watermark parses
  and has reached it, and no daily gap is recorded.\<close>

theorem fresh_catalog_is_current:
  assumes "l = resolve_and_load c fs path now a" and "kst_date now \<le> DATE_MAX"
    and "fst (evaluate_catalog k ct (snd (snd (resolve_date_fact_and_record dk adoption l now))))"
  shows "\<exists>s x cp. l = Available s \<and> x < kst_date now \<and> kst_date now - 30 \<le> x \<and>
     status_on s x = Some DayTradingSession \<and> (\<forall>y\<in>{x<..<kst_date now}. status_on s y = Some DayClosed) \<and>
     checkpoint_load ''ingest-checkpoint.json'' k (ct_checkpoint ct) = Inr cp \<and>
     watermarks_for k cp DAILY_BAR_TYPE \<noteq> [] \<and>
     (\<forall>(i, wm)\<in>set (watermarks_for k cp DAILY_BAR_TYPE). \<exists>w. wm = Some w \<and> x \<le> w) \<and>
     (\<forall>g\<in>set (cp_gaps cp). cg_bar_type g \<noteq> DAILY_BAR_TYPE)"
proof -
  let ?d = "kst_date now"
  obtain x where x: "snd (snd (resolve_date_fact_and_record dk adoption l now)) = Some x"
    using assms(3) by (auto simp: evaluate_catalog_def Let_def split: sum.splits option.splits)
  then obtain v where v: "loaded_view l now = Some v" "last_session_before v ?d = Some x"
    by (auto simp: resolve_date_fact_and_record_def Let_def split: option.splits)
  then obtain s' where s: "l = Available s'" "as_of s' now = Inr v"
    by (auto simp: loaded_view_def loaded_snapshot_def split: loaded_calendar.splits sum.splits)
  have av: "av_calendar v = s'" using as_of_calendar [OF s(2)] by simp
  have rg: "range_half_open (?d - 30) ?d = Inr (Some (?d - 30, ?d - 1))" if "DATE_MIN \<le> ?d - 30"
    using that by (simp add: range_half_open_def pred_opt_def)
  have ls: "last_session v (Some (?d - 30, ?d - 1)) = Inr (Found x)"
    using v(2) rg
    by (auto simp: last_session_before_def LAST_SESSION_LOOKBACK_DAYS_def Let_def not_less split: if_splits sum.splits session_search.splits)
  then have w: "in_window s' (?d - 30) (?d - 1)"
    by (auto simp: last_session_def rows_in_range_Some av split: if_splits)
  have "calendar_ok (av_calendar v)" using loaded_is_ok(1) assms(1) s(1) av by metis
  with session_ends(2) [of v "?d - 30" "?d - 1" x] ls w av
  have "?d - 30 \<le> x \<and> x \<le> ?d - 1 \<and> status_on s' x = Some DayTradingSession \<and>
      (\<forall>y\<in>{x<..?d - 1}. status_on s' y = Some DayClosed)" by simp
  moreover obtain cp where "checkpoint_load ''ingest-checkpoint.json'' k (ct_checkpoint ct) = Inr cp"
      "watermarks_for k cp DAILY_BAR_TYPE \<noteq> []"
      "list_all (\<lambda>(_, d). case d of None \<Rightarrow> False | Some w \<Rightarrow> x \<le> w) (watermarks_for k cp DAILY_BAR_TYPE)"
      "\<not> list_ex (\<lambda>g. cg_bar_type g = DAILY_BAR_TYPE) (cp_gaps cp)"
    using assms(3) unfolding x by (auto simp: evaluate_catalog_def Let_def split: sum.splits if_splits)
  ultimately show ?thesis
    using s(1) by (fastforce simp: list_all_iff list_ex_iff split: option.splits)
qed

text \<open>A calendar of 34 consecutive sessions, 2023-12-06 to 2024-01-08, and a catalog that is current.\<close>

definition long_body :: snapshot where
  "long_body = sample_body \<lparr>sn_coverage := \<lparr>cv_from = 738860, cv_through = 738893, cv_retro = 738860,
       cv_scheduled = 738893, cv_sources = []\<rparr>,
     sn_rows := map (\<lambda>d. \<lparr>dr_date = d, dr_status = DayTradingSession, dr_decisive = [], dr_conflicting = [], dr_alerts = []\<rparr>)
       [738860..738893]\<rparr>"

definition long_calendar :: snapshot where
  "long_calendar = long_body \<lparr>sn_artifact := compute_artifact_id plain_codec long_body,
     sn_calendar := compute_calendar_id plain_codec long_body\<rparr>"

lemma walk_upto:
  assumes "\<And>d. dr_date (mk d) = d" and "b \<le> th" and "b < DATE_MAX"
  shows "walk_rows c th a (map mk [a..b]) = Inr (max a (b + 1))"
proof (induction "nat (b - a + 1)" arbitrary: a)
  case (Suc n)
  then have "a \<le> b" and n: "n = nat (b - (a + 1) + 1)" by simp_all
  then show ?case using assms Suc.hyps(1) [OF n] by (simp add: upto_rec1 succ_opt_def max_def)
qed simp

lemma long_loads: "from_snapshot plain_codec long_calendar t = Inr long_calendar"
proof -
  have ids: "compute_artifact_id plain_codec long_calendar = sn_artifact long_calendar"
      "compute_calendar_id plain_codec long_calendar = sn_calendar long_calendar"
    by (simp_all add: long_calendar_def compute_artifact_id_def compute_calendar_id_def
        decisive_claims_def plain_codec_def)
  have rest: "sn_schema long_calendar = SCHEMA_VERSION"
      "validate_coverage plain_codec (sn_coverage long_calendar) = None"
      "validate_authorization (sn_authorization long_calendar) t = None"
    by (simp_all add: long_calendar_def long_body_def sample_body_def validate_coverage_def validate_authorization_def)
  have rows: "validate_rows plain_codec long_calendar = None"
    by (simp add: long_calendar_def long_body_def validate_rows_def walk_upto DATE_MAX_def succ_opt_def del: upto_rec_numeral)
  have "List.map_filter (dangling_in es as) (sn_rows long_calendar) = []" for es as
    unfolding map_filter_Nil
    by (simp add: long_calendar_def long_body_def list_all_iff dangling_in_def del: upto_rec_numeral)
  then have refs: "validate_references long_calendar = None"
    by (simp add: validate_references_def)
  show ?thesis
    by (simp add: from_snapshot_def validate_def ids rest rows refs schema_self)
qed

definition long_view :: "int \<Rightarrow> as_of_view" where
  "long_view t = \<lparr>av_calendar = long_calendar, av_instant = t\<rparr>"

definition current_catalog :: catalog where
  "current_catalog = \<lparr>ct_checkpoint = CheckpointText (set_watermark sample_ymd ''AA'' DAILY_BAR_TYPE 738892 checkpoint_default),
     ct_bars = Some [(''AA-1-DAY-LAST'', Some [''part.parquet''])]\<rparr>"

definition monday :: int where "monday = 19730 * nanos_per_day"

lemma monday_date: "kst_date monday = 738893"
  by (simp add: kst_date_def monday_def date_naive_def nanos_per_day_def)

lemma long_load: "resolve_and_load plain_codec (\<lambda>_. Parsed long_calendar) (Some ''p'') monday Enforced = Available long_calendar"
  by (simp add: resolve_and_load_def load_from_path_def long_loads)

lemma long_as_of: "as_of long_calendar t = Inr (long_view t)"
  by (simp add: as_of_def long_view_def evaluate_authorization_def long_calendar_def long_body_def sample_body_def)

lemma long_status: "d \<in> {738860..738893} \<Longrightarrow> status_on long_calendar d = Some DayTradingSession"
proof -
  assume d: "d \<in> {738860..738893}"
  have "calendar_ok long_calendar" using from_snapshot_ok(2) [OF long_loads] .
  then have "status_on long_calendar d \<noteq> None"
    using status_on_defined [of long_calendar d] d by (simp add: long_calendar_def long_body_def)
  then obtain r where r: "find (\<lambda>r. dr_date r = d) (sn_rows long_calendar) = Some r"
    by (auto simp: status_on_def)
  then have "r \<in> set (sn_rows long_calendar)" by (auto simp: find_Some_iff)
  then have "dr_status r = DayTradingSession"
    by (auto simp: long_calendar_def long_body_def simp del: upto_rec_numeral)
  with r show ?thesis by (simp add: status_on_def)
qed

lemma long_last: "last_session_before (long_view t) 738893 = Some 738892"
proof -
  have ok: "calendar_ok (av_calendar (long_view t))" using from_snapshot_ok(2) [OF long_loads] by (simp add: long_view_def)
  have w: "in_window (av_calendar (long_view t)) 738863 738892"
    by (simp add: in_window_def long_view_def long_calendar_def long_body_def)
  have "last_session (long_view t) (Some (738863, 738892)) = Inr (Found 738892)"
    using session_ends(2) [OF ok w, of 738892] long_status by (simp add: long_view_def)
  then show ?thesis
    by (simp add: last_session_before_def LAST_SESSION_LOOKBACK_DAYS_def range_half_open_def pred_opt_def DATE_MIN_def Let_def)
qed

lemma current_catalog_loads:
  "checkpoint_load p sample_ymd (ct_checkpoint current_catalog) = Inr (set_watermark sample_ymd ''AA'' DAILY_BAR_TYPE 738892 checkpoint_default)"
  by (simp add: checkpoint_load_def load_gated_def current_catalog_def migrate_completed_watermarks_gated_def
      migrate_inner_def legacy_groups_def set_watermark_def checkpoint_default_def Let_def map_filter_simps)

lemma current_dailies:
  "watermarks_for sample_ymd (set_watermark sample_ymd ''AA'' DAILY_BAR_TYPE 738892 checkpoint_default) DAILY_BAR_TYPE =
     [(''AA'', Some 738892)]"
proof -
  have "strip_suffix (bar # DAILY_BAR_TYPE) (watermark_key ''AA'' DAILY_BAR_TYPE) = Some ''AA''"
    by (simp add: strip_suffix_def watermark_key_def DAILY_BAR_TYPE_def suffix_def)
  moreover have "parse_ymd sample_ymd (ymd_format sample_ymd 738892) = Some 738892"
    by (simp add: parse_ymd_def sample_ymd_def sample_trims)
  ultimately show ?thesis
    by (simp add: watermarks_for_def set_watermark_def checkpoint_default_def map_filter_simps)
qed

theorem fresh_catalog_is_current_witness:
  "\<exists>s x. Available long_calendar = Available s \<and> 738863 \<le> x \<and> x < 738893 \<and> status_on s x = Some DayTradingSession"
proof -
  define dk where "dk = \<lparr>dk_sha = \<lambda>_. [], dk_date = \<lambda>_. [], dk_instant = \<lambda>_. [], dk_json = Inr \<circ> cd_detail\<rparr>"
  have base: "snd (snd (resolve_date_fact_and_record dk Enforced (Available long_calendar) monday)) = Some 738892"
    by (simp add: resolve_date_fact_and_record_def loaded_view_def loaded_snapshot_def long_as_of monday_date long_last Let_def)
  have fresh: "fst (evaluate_catalog sample_ymd current_catalog
      (snd (snd (resolve_date_fact_and_record dk Enforced (Available long_calendar) monday))))"
    unfolding base evaluate_catalog_def current_catalog_loads
    by (simp add: current_dailies Let_def) (simp add: set_watermark_def checkpoint_default_def)
  have "kst_date monday \<le> DATE_MAX" by (simp add: monday_date DATE_MAX_def)
  from fresh_catalog_is_current [OF long_load [symmetric] this fresh] show ?thesis
    unfolding monday_date by fastforce
qed

end
