(* ===== verification/Ingest_Budget.thy ===== *)
theory Ingest_Budget
  imports Ls_Error F64
begin

text \<open>
  The gateway budget of the ingest (\<open>adapters/nautilus/src/ingest/budget.rs\<close>) and its pacer
  (\<open>pacer.rs\<close>): the budget model, the spend ledger of the credentials, plan-ahead, the probe of the
  cold budget, and the minimum-interval pacer. Instants are seconds since the epoch in the ledger and
  nanoseconds in the pacer.
\<close>

section \<open>The budget model\<close>

datatype bucket_scope = ScopeUnknown | PerCredential | BroaderThanCredential

record budget_model =
  bm_refill :: nat
  bm_window :: int
  bm_calls :: "nat option"
  bm_scope :: bucket_scope
  bm_provenance :: string

definition DEFAULT_REFILL_SECS :: nat where "DEFAULT_REFILL_SECS = 120"
definition DEFAULT_WINDOW_SECS :: int where "DEFAULT_WINDOW_SECS = 86400"

definition budget_model_default :: budget_model where
  "budget_model_default = \<lparr>bm_refill = DEFAULT_REFILL_SECS, bm_window = DEFAULT_WINDOW_SECS, bm_calls = None,
     bm_scope = ScopeUnknown,
     bm_provenance = ''provisional (guessed, pre-probe): 120s backoff, day-ish window, credential-shared unverified '' @
       utf8 [226, 128, 148] @ '' superseded by U6''\<rparr>"

text \<open>What reading and parsing a file gives.\<close>

datatype 'a text_file = FileAbsent | FileUnreadable | FileCorrupt | FileText 'a

definition budget_model_load :: "budget_model text_file \<Rightarrow> budget_model" where
  "budget_model_load f = (case f of FileText m \<Rightarrow> m | _ \<Rightarrow> budget_model_default)"

section \<open>The spend ledger\<close>

record credential_spend =
  sp_buckets :: "(int \<times> nat) list"
  sp_misses :: nat

type_synonym spend_ledger = "(string \<times> credential_spend) list"

definition spend_default :: credential_spend where
  "spend_default = \<lparr>sp_buckets = [], sp_misses = 0\<rparr>"

definition spend_of :: "spend_ledger \<Rightarrow> string \<Rightarrow> credential_spend" where
  "spend_of l cred = (case map_of l cred of Some c \<Rightarrow> c | None \<Rightarrow> spend_default)"

definition record_spend :: "string \<Rightarrow> int \<Rightarrow> spend_ledger \<Rightarrow> spend_ledger" where
  "record_spend cred at l =
     (let c = spend_of l cred; n = (case map_of (sp_buckets c) at of Some n \<Rightarrow> n | None \<Rightarrow> 0)
      in AList.update cred (c \<lparr>sp_buckets := AList.update at (n + 1) (sp_buckets c)\<rparr>) l)"

definition record_model_miss :: "string \<Rightarrow> spend_ledger \<Rightarrow> spend_ledger" where
  "record_model_miss cred l =
     (let c = spend_of l cred in AList.update cred (c \<lparr>sp_misses := sp_misses c + 1\<rparr>) l)"

definition model_misses :: "spend_ledger \<Rightarrow> string \<Rightarrow> nat" where
  "model_misses l cred = (case map_of l cred of Some c \<Rightarrow> sp_misses c | None \<Rightarrow> 0)"

definition bucket_sum :: "int \<Rightarrow> int \<Rightarrow> (int \<times> nat) list \<Rightarrow> nat" where
  "bucket_sum a b bs = sum_list (map snd (filter (\<lambda>(s, _). a \<le> s \<and> s \<le> b) bs))"

text \<open>\<open>BTreeMap::range\<close> panics when its start is after its end: \<open>None\<close>.\<close>

definition spent_within :: "spend_ledger \<Rightarrow> string \<Rightarrow> int \<Rightarrow> int \<Rightarrow> nat option" where
  "spent_within l cred window now =
     (let cutoff = now - window
      in case map_of l cred of
           None \<Rightarrow> Some 0
         | Some c \<Rightarrow> if now < cutoff + 1 then None else Some (bucket_sum (cutoff + 1) now (sp_buckets c)))"

definition prune_before :: "int \<Rightarrow> spend_ledger \<Rightarrow> spend_ledger" where
  "prune_before cutoff l =
     filter (\<lambda>(_, c). sp_buckets c \<noteq> [] \<or> 0 < sp_misses c)
       (map (\<lambda>(cred, c). (cred, c \<lparr>sp_buckets := filter (\<lambda>(s, _). cutoff \<le> s) (sp_buckets c)\<rparr>)) l)"

definition spend_ledger_load :: "spend_ledger text_file \<Rightarrow> spend_ledger" where
  "spend_ledger_load f = (case f of FileText l \<Rightarrow> l | _ \<Rightarrow> [])"

definition load_pruned :: "spend_ledger text_file \<Rightarrow> int \<Rightarrow> spend_ledger" where
  "load_pruned f cutoff = prune_before cutoff (spend_ledger_load f)"

section \<open>Plan-ahead\<close>

datatype budget_decision = BudgetProceed | BudgetDefer nat nat

definition plan_dispatch :: "budget_model \<Rightarrow> spend_ledger \<Rightarrow> string \<Rightarrow> int \<Rightarrow> nat \<Rightarrow> budget_decision option" where
  "plan_dispatch m l cred now estimated =
     (case bm_calls m of
        None \<Rightarrow> Some BudgetProceed
      | Some budget \<Rightarrow>
          (case spent_within l cred (bm_window m) now of
             None \<Rightarrow> None
           | Some spent \<Rightarrow>
               (let remaining = budget - min spent (2 ^ 32 - 1)
                in Some (if remaining < estimated \<and> estimated \<le> budget
                         then BudgetDefer estimated remaining else BudgetProceed))))"

section \<open>The budget probe\<close>

datatype call_verdict = Served | Throttled | OtherApi string | TransportFailed

definition classify_call :: "ls_error + 'a \<Rightarrow> call_verdict" where
  "classify_call r =
     (case r of
        Inr _ \<Rightarrow> Served
      | Inl (ApiError code _) \<Rightarrow> if code = ''IGW00201'' then Throttled else OtherApi code
      | Inl _ \<Rightarrow> TransportFailed)"

definition scope_from_stage0 :: "call_verdict \<Rightarrow> bucket_scope" where
  "scope_from_stage0 v = (case v of Served \<Rightarrow> PerCredential | Throttled \<Rightarrow> BroaderThanCredential | _ \<Rightarrow> ScopeUnknown)"

record call_ceiling =
  cc_made :: nat
  cc_ceiling :: nat

definition try_reserve_call :: "call_ceiling \<Rightarrow> bool \<times> call_ceiling" where
  "try_reserve_call c = (if cc_ceiling c \<le> cc_made c then (False, c) else (True, c \<lparr>cc_made := cc_made c + 1\<rparr>))"

datatype stage_stop = StopThrottled | StopCeiling | StopError string

record cold_budget =
  cb_served :: nat
  cb_stopped :: stage_stop

text \<open>The gateway answers the n-th call with \<open>gw n\<close>.\<close>

function measure_loop :: "(nat \<Rightarrow> ls_error + unit) \<Rightarrow> nat \<Rightarrow> call_ceiling \<Rightarrow> cold_budget \<times> call_ceiling" where
  "measure_loop gw served c =
     (if cc_ceiling c \<le> cc_made c then (\<lparr>cb_served = served, cb_stopped = StopCeiling\<rparr>, c)
      else
        (let c' = snd (try_reserve_call c)
         in case classify_call (gw (cc_made c)) of
              Served \<Rightarrow> measure_loop gw (served + 1) c'
            | Throttled \<Rightarrow> (\<lparr>cb_served = served, cb_stopped = StopThrottled\<rparr>, c')
            | OtherApi code \<Rightarrow> (\<lparr>cb_served = served, cb_stopped = StopError code\<rparr>, c')
            | TransportFailed \<Rightarrow> (\<lparr>cb_served = served, cb_stopped = StopError ''transport''\<rparr>, c')))"
  by pat_completeness auto
termination
  by (relation "measure (\<lambda>(gw, served, c). cc_ceiling c - cc_made c)") (auto simp: try_reserve_call_def)

declare measure_loop.simps [simp del]

definition measure_cold_budget :: "(nat \<Rightarrow> ls_error + unit) \<Rightarrow> call_ceiling \<Rightarrow> cold_budget \<times> call_ceiling" where
  "measure_cold_budget gw c = measure_loop gw 0 c"

section \<open>The pacer\<close>

record pacer =
  pc_interval :: int
  pc_next :: "int option"

text \<open>\<open>acquire\<close> entered at \<open>now\<close>, waking up \<open>late\<close> after the slot it slept for: the instant it
  returns at and the pacer after it.\<close>

definition pacer_acquire :: "int \<Rightarrow> int \<Rightarrow> pacer \<Rightarrow> int \<times> pacer" where
  "pacer_acquire now late p =
     (case pc_next p of
        Some t \<Rightarrow>
          if now < t then (t + late, p \<lparr>pc_next := Some (t + pc_interval p)\<rparr>)
          else (now, p \<lparr>pc_next := Some (now + pc_interval p)\<rparr>)
      | None \<Rightarrow> (now, p \<lparr>pc_next := Some (now + pc_interval p)\<rparr>))"

definition MARKET_DATA_CATEGORY_PER_SEC :: nat where "MARKET_DATA_CATEGORY_PER_SEC = 5"

text \<open>\<open>Duration::from_secs_f64\<close> of a finite number that is not negative, in nanoseconds.\<close>

definition nanos_of_secs :: "f64 \<Rightarrow> int" where
  "nanos_of_secs x =
     (case x of
        Fin _ m e \<Rightarrow> int (if 0 \<le> e then m * 2 ^ nat e * 10 ^ 9 else round_half_even (m * 10 ^ 9) (2 ^ nat (- e)))
      | _ \<Rightarrow> 0)"

definition pacer_per_sec :: "nat \<Rightarrow> pacer" where
  "pacer_per_sec rate = \<lparr>pc_interval = nanos_of_secs (round_f64 False 1 (max rate 1)), pc_next = None\<rparr>"

definition pacer_for_policy :: "nat option \<Rightarrow> nat \<Rightarrow> pacer" where
  "pacer_for_policy rate_limit category =
     pacer_per_sec (min (case rate_limit of Some r \<Rightarrow> r | None \<Rightarrow> category) category)"

section \<open>Properties of the ledger\<close>

lemma bucket_sum_update:
  assumes "wf_map bs"
  shows "bucket_sum a b (AList.update t (case map_of bs t of Some n \<Rightarrow> n + 1 | None \<Rightarrow> 1) bs) =
    bucket_sum a b bs + (if a \<le> t \<and> t \<le> b then 1 else 0)"
  using assms
proof (induction bs)
  case (Cons p bs)
  obtain s n where p: "p = (s, n)" by (cases p)
  with Cons show ?case by (auto simp: bucket_sum_def dom_map_of_conv_image_fst)
qed (simp add: bucket_sum_def)

definition ledger_wf :: "spend_ledger \<Rightarrow> bool" where
  "ledger_wf l \<longleftrightarrow> wf_map l \<and> list_all (\<lambda>(_, c). wf_map (sp_buckets c)) l"

lemma spend_of_wf: "ledger_wf l \<Longrightarrow> wf_map (sp_buckets (spend_of l cred))"
  by (auto simp: spend_of_def spend_default_def ledger_wf_def list_all_iff split: option.split dest: map_of_SomeD)

lemma spent_within_sum:
  "0 < window \<Longrightarrow> spent_within l cred window now = Some (bucket_sum (now - window + 1) now (sp_buckets (spend_of l cred)))"
  by (auto simp: spent_within_def Let_def spend_of_def spend_default_def bucket_sum_def split: option.split)

text \<open>
  The ledger counts every dispatch once: recording one adds one to the spend of its credential
  in exactly the windows that hold its second, and changes no other credential.\<close>

theorem spend_is_counted_once:
  assumes "ledger_wf l" and "0 < window"
  shows "map_option int (spent_within (record_spend cred at l) cred' window now) =
     map_option (\<lambda>n. int n + (if cred' = cred \<and> now - window < at \<and> at \<le> now then 1 else 0)) (spent_within l cred' window now) \<and>
    ledger_wf (record_spend cred at l)"
proof -
  let ?c = "spend_of l cred"
  have c': "spend_of (record_spend cred at l) cred' =
      (if cred' = cred then ?c \<lparr>sp_buckets := AList.update at (case map_of (sp_buckets ?c) at of Some n \<Rightarrow> n + 1 | None \<Rightarrow> 1) (sp_buckets ?c)\<rparr>
       else spend_of l cred')"
    by (auto simp: record_spend_def Let_def spend_of_def split: option.split)
  have "(now - window + 1 \<le> at) = (now - window < at)" by auto
  then have "map_option int (spent_within (record_spend cred at l) cred' window now) =
      map_option (\<lambda>n. int n + (if cred' = cred \<and> now - window < at \<and> at \<le> now then 1 else 0)) (spent_within l cred' window now)"
    using bucket_sum_update [OF spend_of_wf [OF assms(1)], of "now - window + 1" now at cred]
    by (simp add: spent_within_sum [OF assms(2)] c')
  moreover have "ledger_wf (record_spend cred at l)"
  proof -
    have "set (AList.update cred x l) \<subseteq> insert (cred, x) (set l)" for x :: credential_spend
      by (induction l) auto
    then show ?thesis
      using assms(1) spend_of_wf [OF assms(1), of cred]
      by (fastforce simp: ledger_wf_def record_spend_def Let_def list_all_iff)
  qed
  ultimately show ?thesis ..
qed

theorem spend_is_counted_once_witness:
  "map_option int (spent_within (record_spend ''k'' 100 (record_spend ''k'' 90 [])) ''k'' 20 105) = Some 2"
proof -
  have wf: "ledger_wf []" by (simp add: ledger_wf_def)
  note one = spend_is_counted_once [OF wf, of 20 "''k''" 90 "''k''" 105]
  have "map_option int (spent_within [] ''k'' 20 105) = Some 0" by (simp add: spent_within_def)
  with one spend_is_counted_once [of "record_spend ''k'' 90 []" 20 "''k''" 100 "''k''" 105] show ?thesis
    by (auto simp: option.map_comp comp_def)
qed

text \<open>
  A dispatch that plans ahead stays inside the measured budget: when it may proceed and would
  fit a fresh window, the spend of the window and its own calls together are within the budget, and
  it is deferred exactly when they are not.\<close>

theorem plan_stays_in_budget:
  assumes "bm_calls m = Some budget" and "0 < bm_window m" and "estimated \<le> budget" and "budget < 2 ^ 32"
    and "spent_within l cred (bm_window m) now = Some spent" and "0 < estimated"
  shows "plan_dispatch m l cred now estimated =
    Some (if spent + estimated \<le> budget then BudgetProceed else BudgetDefer estimated (budget - spent))"
  using assms by (auto simp: plan_dispatch_def Let_def min_def)

theorem plan_stays_in_budget_witness:
  "plan_dispatch (budget_model_default \<lparr>bm_calls := Some 3\<rparr>) (record_spend ''k'' 100 []) ''k'' 105 3 = Some (BudgetDefer 3 2)"
proof -
  have "spent_within (record_spend ''k'' 100 []) ''k'' 86400 105 = Some 1"
    by (simp add: spent_within_def record_spend_def spend_of_def spend_default_def bucket_sum_def Let_def)
  then show ?thesis
    using plan_stays_in_budget [of "budget_model_default \<lparr>bm_calls := Some 3\<rparr>" 3 3 "record_spend ''k'' 100 []" "''k''" 105 1]
    by (simp add: budget_model_default_def DEFAULT_WINDOW_SECS_def)
qed

text \<open>
  A model with a window that is not positive, which loading accepts, makes the planner panic
  as soon as the credential is in the ledger.\<close>

theorem nonpositive_window_panics:
  assumes "bm_window m \<le> 0" and "bm_calls m = Some budget"
  shows "plan_dispatch m (record_spend cred at l) cred now estimated = None \<and>
    budget_model_load (FileText m) = m"
  using assms
  by (simp add: plan_dispatch_def spent_within_def record_spend_def Let_def budget_model_load_def)

section \<open>Properties of the probe and the pacer\<close>

lemma measure_loop_bound:
  assumes "cc_made c \<le> cc_ceiling c"
  shows "cb_served (fst (measure_loop gw n c)) + cc_made c \<le> cc_made (snd (measure_loop gw n c)) + n \<and>
    cc_made (snd (measure_loop gw n c)) \<le> cc_ceiling c \<and>
    (\<forall>i. cc_made c \<le> i \<and> i + n < cb_served (fst (measure_loop gw n c)) + cc_made c \<longrightarrow> classify_call (gw i) = Served)"
  using assms
proof (induction gw n c rule: measure_loop.induct)
  case (1 gw n c)
  show ?case
  proof (cases "cc_ceiling c \<le> cc_made c")
    case True
    with "1.prems" show ?thesis by (auto simp: measure_loop.simps [of gw n c])
  next
    case False
    let ?c' = "c \<lparr>cc_made := cc_made c + 1\<rparr>"
    have c': "snd (try_reserve_call c) = ?c'" using False by (simp add: try_reserve_call_def)
    show ?thesis
    proof (cases "classify_call (gw (cc_made c))")
      case Served
      then have step: "measure_loop gw n c = measure_loop gw (n + 1) ?c'"
        using False c' by (simp add: measure_loop.simps [of gw n c] Let_def)
      have ih: "cb_served (fst (measure_loop gw (n + 1) ?c')) + (cc_made c + 1) \<le> cc_made (snd (measure_loop gw (n + 1) ?c')) + (n + 1)"
          "cc_made (snd (measure_loop gw (n + 1) ?c')) \<le> cc_ceiling c"
          "\<forall>i. cc_made c + 1 \<le> i \<and> i + (n + 1) < cb_served (fst (measure_loop gw (n + 1) ?c')) + (cc_made c + 1) \<longrightarrow>
            classify_call (gw i) = Served"
        using 1(1) [OF False refl] Served c' False by simp_all
      have "classify_call (gw i) = Served"
        if "cc_made c \<le> i" "i + n < cb_served (fst (measure_loop gw (n + 1) ?c')) + cc_made c" for i
        using ih(3) Served that by (cases "i = cc_made c") auto
      with ih(1,2) step show ?thesis by simp
    qed (use False c' in \<open>auto simp: measure_loop.simps [of gw n c] Let_def\<close>)
  qed
qed

text \<open>
  The cold-budget probe never makes more calls than its ceiling, counts as served only calls the
  gateway served, and all of them came first.\<close>

theorem probe_respects_ceiling:
  "case measure_cold_budget gw \<lparr>cc_made = 0, cc_ceiling = n\<rparr> of
     (b, c) \<Rightarrow> cc_made c \<le> n \<and> cb_served b \<le> cc_made c \<and> list_all (\<lambda>i. classify_call (gw i) = Served) [0..<cb_served b]"
  using measure_loop_bound [of "\<lparr>cc_made = 0, cc_ceiling = n\<rparr>" gw 0]
  by (auto simp: measure_cold_budget_def list_all_iff case_prod_unfold)

fun pacer_run :: "pacer \<Rightarrow> (int \<times> int) list \<Rightarrow> int list" where
  "pacer_run p [] = []"
| "pacer_run p ((now, late) # xs) =
     fst (pacer_acquire now late p) # pacer_run (snd (pacer_acquire now late p)) xs"

lemma pacer_run_slots:
  assumes "pc_next p = Some t" and "list_all (\<lambda>(_, late). 0 \<le> late) xs" and "0 \<le> pc_interval p" and "j < length xs"
  shows "t + int j * pc_interval p \<le> pacer_run p xs ! j"
  using assms
proof (induction xs arbitrary: p t j)
  case (Cons x xs)
  obtain now late where x: "x = (now, late)" by (cases x)
  let ?q = "snd (pacer_acquire now late p)"
  have q: "pc_interval ?q = pc_interval p" "\<exists>t'. pc_next ?q = Some (t' + pc_interval p) \<and> t \<le> t'"
    using Cons.prems(1) by (auto simp: pacer_acquire_def)
  then obtain t' where t': "pc_next ?q = Some (t' + pc_interval p)" "t \<le> t'" by blast
  show ?case
  proof (cases j)
    case 0
    then show ?thesis using Cons.prems x by (auto simp: pacer_acquire_def)
  next
    case (Suc i)
    have "t' + pc_interval p + int i * pc_interval p \<le> pacer_run ?q xs ! i"
      using Cons.IH [OF t'(1), of i] Cons.prems x q(1) Suc by simp
    with t'(2) show ?thesis by (simp add: x Suc algebra_simps)
  qed
qed simp

text \<open>
  However late the sleeps wake up, the j-th call after the first leaves a fresh pacer no earlier
  than j intervals after it: a burst never exceeds the rate of the policy.\<close>

theorem pacer_holds_the_rate:
  assumes "list_all (\<lambda>(_, late). 0 \<le> late) xs" and "j < length xs"
  shows "pacer_run (pacer_for_policy r c) xs ! 0 + int j * pc_interval (pacer_for_policy r c)
    \<le> pacer_run (pacer_for_policy r c) xs ! j"
proof -
  let ?p = "pacer_for_policy r c"
  have pos: "0 \<le> pc_interval ?p"
    by (auto simp: pacer_for_policy_def pacer_per_sec_def nanos_of_secs_def split: f64.split)
  have fresh: "pc_next ?p = None" by (simp add: pacer_for_policy_def pacer_per_sec_def)
  obtain now late ys where xs: "xs = (now, late) # ys" using assms(2) by (cases xs) auto
  show ?thesis
  proof (cases j)
    case (Suc i)
    have "now + pc_interval ?p + int i * pc_interval ?p \<le> pacer_run (snd (pacer_acquire now late ?p)) ys ! i"
      using pacer_run_slots [of "snd (pacer_acquire now late ?p)" "now + pc_interval ?p" ys i] assms xs fresh pos Suc
      by (simp add: pacer_acquire_def)
    then show ?thesis by (simp add: xs Suc fresh pacer_acquire_def algebra_simps)
  qed simp
qed

theorem pacer_holds_the_rate_witness:
  "pacer_run (pacer_for_policy (Some 1) 5) [(0, 0), (1, 7), (2, 0)] ! 2 \<ge> 2 * 10 ^ 9"
proof -
  have i: "pc_interval (pacer_for_policy (Some 1) 5) = 10 ^ 9"
  proof -
    obtain j where j: "round_f64 False 1 1 = Fin False (2 ^ j) (- int j)"
      using round_f64_form [of 1 1 False] by auto
    have "round_half_even (2 ^ j * 10 ^ 9) (2 ^ j) = 10 ^ 9"
      using round_half_even_exact [of "2 ^ j" "10 ^ 9"] by (simp add: mult.commute)
    then show ?thesis
      by (simp add: pacer_for_policy_def pacer_per_sec_def nanos_of_secs_def j [simplified])
  qed
  have "pacer_run (pacer_for_policy (Some 1) 5) [(0, 0), (1, 7), (2, 0)] ! 0 = 0"
    by (simp add: pacer_for_policy_def pacer_per_sec_def pacer_acquire_def)
  with pacer_holds_the_rate [of "[(0, 0), (1, 7), (2, 0)]" 2 "Some 1" 5] i show ?thesis by simp
qed

end
