(* ===== verification/Ingest_Bars.thy ===== *)
theory Ingest_Bars
  imports Checkpoint Ingest_Budget Krx_Rules Numeric_Parse
begin

text \<open>
  Fetching bars (\<open>adapters/nautilus/src/ingest/mod.rs\<close>): chart rows become bars, the daily cursor
  walk and the minute narrow-and-requeue loop collect them, the SDK fetcher pages and records its
  spend, the overlap comparison looks for a basis shift and the checked append refuses an overlap.
  The loops are generic in the fetcher, a state-passing function, as the source is generic in its
  trait. What \<open>chrono\<close> parses and what \<open>Bar::new_checked\<close> accepts are functions of \<open>bar_env\<close>.
\<close>

section \<open>Results, rows and bars\<close>

text \<open>\<open>Panic\<close> is an \<open>expect\<close> that fails or an arithmetic overflow of a third-party date.\<close>

datatype 'a io = Val 'a | Err adapter_error | Panic

definition io_bind :: "'a io \<Rightarrow> ('a \<Rightarrow> 'b io) \<Rightarrow> 'b io" where
  "io_bind x f = (case x of Val a \<Rightarrow> f a | Err e \<Rightarrow> Err e | Panic \<Rightarrow> Panic)"

definition io_of :: "adapter_error + 'a \<Rightarrow> 'a io" where
  "io_of x = (case x of Inl e \<Rightarrow> Err e | Inr a \<Rightarrow> Val a)"

record t8410_row =
  d8_date :: string
  d8_open :: string
  d8_high :: string
  d8_low :: string
  d8_close :: string
  d8_volume :: string

record t8412_row =
  m8_date :: string
  m8_time :: string
  m8_open :: string
  m8_high :: string
  m8_low :: string
  m8_close :: string
  m8_volume :: string

record daily_page =
  dg_rows :: "t8410_row list"
  dg_cts_date :: string
  dg_rec_count :: string

record minute_page =
  mg_rows :: "t8412_row list"
  mg_cts_date :: string
  mg_cts_time :: string
  mg_cont_key :: string

record price_bar =
  br_type :: string
  br_open :: int
  br_high :: int
  br_low :: int
  br_close :: int
  br_volume :: int
  br_event :: int
  br_init :: int

record bar_env =
  be_ymd :: ymd_codec
  be_ymd_error :: "string \<Rightarrow> string"
  be_time :: "string \<Rightarrow> string \<Rightarrow> string + int"
  be_text :: "int \<Rightarrow> int \<Rightarrow> string"
  be_price :: "int \<Rightarrow> bool"
  be_quantity :: "int \<Rightarrow> bool"
  be_checked :: "price_bar \<Rightarrow> bool"

datatype bar_kind = Daily | Minute nat

definition kind_label :: "bar_kind \<Rightarrow> string" where
  "kind_label k = (case k of Daily \<Rightarrow> ''1-DAY'' | Minute n \<Rightarrow> show_nat n @ ''-MINUTE'')"

section \<open>Instants\<close>

definition CLOSE_REFORM_DAY :: int where "CLOSE_REFORM_DAY = 736177"

definition session_close :: "int \<Rightarrow> int" where
  "session_close d = int (regular_close (if CLOSE_REFORM_DAY \<le> d then Post2016 else Pre2016)) * 10 ^ 9"

definition KST_OFFSET :: int where "KST_OFFSET = 9 * 3600 * 10 ^ 9"

definition kst_nanos :: "int \<Rightarrow> int \<Rightarrow> int" where
  "kst_nanos d t = (d - 719163) * nanos_per_day + t - KST_OFFSET"

definition kst_to_unix_nanos :: "bar_env \<Rightarrow> int \<Rightarrow> int \<Rightarrow> adapter_error + int" where
  "kst_to_unix_nanos e d t =
     (let n = kst_nanos d t
      in if d = DATE_MIN \<and> t < KST_OFFSET then Inl (FieldParse ''ts_event'' (be_text e d t) ''ambiguous KST instant'')
         else if n < - (2 ^ 63) \<or> 2 ^ 63 \<le> n then Inl (FieldParse ''ts_event'' (be_text e d t) ''timestamp out of range'')
         else if n < 0
           then Inl (FieldParse ''ts_event'' (be_text e d t) ''pre-epoch timestamp (negative nanos)'')
         else Inr n)"

definition kst_date_of :: "int \<Rightarrow> int" where
  "kst_date_of ts = date_naive ((if ts < 2 ^ 63 then ts else ts - 2 ^ 64) + KST_OFFSET)"

definition parse_yyyymmdd :: "bar_env \<Rightarrow> string \<Rightarrow> string \<Rightarrow> adapter_error + int" where
  "parse_yyyymmdd e field s =
     (case parse_ymd (be_ymd e) s of
        Some d \<Rightarrow> Inr d
      | None \<Rightarrow> Inl (FieldParse field s (''expected YYYYMMDD: '' @ be_ymd_error e (trim s))))"

definition parse_hms :: "bar_env \<Rightarrow> string \<Rightarrow> string \<Rightarrow> adapter_error + int" where
  "parse_hms e field s =
     (let t = trim s
      in if length t = 6 \<or> length t = 4
         then case be_time e (if length t = 6 then ''%H%M%S'' else ''%H%M'') t of
             Inr n \<Rightarrow> Inr n
           | Inl m \<Rightarrow> Inl (FieldParse field s (''bad time: '' @ m))
         else Inl (FieldParse field s ''expected HHMM or HHMMSS''))"

section \<open>Building a bar\<close>

definition price_from_krw :: "bar_env \<Rightarrow> string \<Rightarrow> string \<Rightarrow> int io" where
  "price_from_krw e field s =
     io_bind (io_of (strict_i64 field s)) (\<lambda>i. if be_price e (max i 0) then Val (max i 0) else Panic)"

definition qty_from_str :: "bar_env \<Rightarrow> string \<Rightarrow> string \<Rightarrow> int io" where
  "qty_from_str e field s =
     io_bind (io_of (strict_i64 field s)) (\<lambda>i. if be_quantity e (max i 0) then Val (max i 0) else Panic)"

definition build_bar ::
  "bar_env \<Rightarrow> string \<Rightarrow> string \<Rightarrow> string \<Rightarrow> string \<Rightarrow> string \<Rightarrow> string \<Rightarrow> int \<Rightarrow> price_bar option io" where
  "build_bar e bar_type op hi lo cl volume ts =
     io_bind (price_from_krw e ''open'' op) (\<lambda>o'.
     io_bind (price_from_krw e ''high'' hi) (\<lambda>h.
     io_bind (price_from_krw e ''low'' lo) (\<lambda>l.
     io_bind (price_from_krw e ''close'' cl) (\<lambda>c.
     io_bind (qty_from_str e ''volume'' volume) (\<lambda>v.
       let b = \<lparr>br_type = bar_type, br_open = o', br_high = h, br_low = l, br_close = c,
                br_volume = v, br_event = ts, br_init = ts\<rparr>
       in Val (if be_checked e b then Some b else None))))))"

definition build_daily_bar :: "bar_env \<Rightarrow> string \<Rightarrow> t8410_row \<Rightarrow> price_bar option io" where
  "build_daily_bar e bar_type r =
     (if trim (d8_date r) = [] then Val None
      else io_bind (io_of (parse_yyyymmdd e ''date'' (d8_date r))) (\<lambda>d.
           io_bind (io_of (kst_to_unix_nanos e d (session_close d))) (\<lambda>ts.
             build_bar e bar_type (d8_open r) (d8_high r) (d8_low r) (d8_close r) (d8_volume r) ts)))"

definition build_minute_bar :: "bar_env \<Rightarrow> string \<Rightarrow> t8412_row \<Rightarrow> price_bar option io" where
  "build_minute_bar e bar_type r =
     (if trim (m8_date r) = [] \<or> trim (m8_time r) = [] then Val None
      else io_bind (io_of (parse_yyyymmdd e ''date'' (m8_date r))) (\<lambda>d.
           io_bind (io_of (parse_hms e ''time'' (m8_time r))) (\<lambda>t.
           io_bind (io_of (kst_to_unix_nanos e d t)) (\<lambda>ts.
             build_bar e bar_type (m8_open r) (m8_high r) (m8_low r) (m8_close r) (m8_volume r) ts))))"

section \<open>The fetcher seams\<close>

text \<open>A fetcher is generic: it acts on a state \<open>'w\<close> of its own. The back-off it sleeps is not modelled.\<close>

record 'w daily_fetcher =
  dx_fetch :: "'w \<Rightarrow> string \<Rightarrow> string \<Rightarrow> string \<Rightarrow> string \<Rightarrow> (adapter_error + daily_page) \<times> 'w"
  dx_label :: string
  dx_per_sec :: nat

record 'w minute_fetcher =
  mx_fetch :: "'w \<Rightarrow> string \<Rightarrow> nat \<Rightarrow> string \<Rightarrow> string \<Rightarrow> (adapter_error + minute_page list) \<times> 'w"
  mx_label :: string
  mx_per_sec :: nat

datatype triple_outcome = TripleBars "price_bar list" | TripleGap gap_reason

definition MAX_DAILY_PAGES :: nat where "MAX_DAILY_PAGES = 500"
definition MINUTE_MAX_PAGES :: nat where "MINUTE_MAX_PAGES = 100"
definition MAX_THROTTLE_RETRIES :: nat where "MAX_THROTTLE_RETRIES = 32"

definition is_code :: "string \<Rightarrow> adapter_error \<Rightarrow> bool" where
  "is_code c e = (case e of Sdk (ApiError code _) \<Rightarrow> code = c | _ \<Rightarrow> False)"

definition is_pagination_limit :: "adapter_error \<Rightarrow> bool" where
  "is_pagination_limit e = (case e of Sdk (PaginationLimit _) \<Rightarrow> True | _ \<Rightarrow> False)"

definition with_gateway_context :: "adapter_error \<Rightarrow> string \<Rightarrow> nat \<Rightarrow> nat \<Rightarrow> adapter_error" where
  "with_gateway_context e tr page per_sec =
     (case e of Sdk inner \<Rightarrow> IngestGateway tr page per_sec inner | other \<Rightarrow> other)"

section \<open>The daily cursor walk\<close>

datatype page_step = PageOk daily_page | PageGap gap_reason | PageFail adapter_error

function daily_page_loop ::
  "'w daily_fetcher \<Rightarrow> string \<Rightarrow> string \<Rightarrow> string \<Rightarrow> string \<Rightarrow> nat \<Rightarrow> nat \<Rightarrow> 'w \<Rightarrow> page_step \<times> 'w" where
  "daily_page_loop f shcode sdate edate cts page throttle_retries w =
     (case dx_fetch f w shcode sdate edate cts of
        (Inr r, w') \<Rightarrow> (PageOk r, w')
      | (Inl e, w') \<Rightarrow>
          if is_code ''01715'' e then (PageGap NonTradingDay, w')
          else if is_code ''IGW00201'' e then
            (if MAX_THROTTLE_RETRIES \<le> throttle_retries then (PageGap PaperThin, w')
             else daily_page_loop f shcode sdate edate cts page (throttle_retries + 1) w')
          else (PageFail (with_gateway_context e (dx_label f) (page + 1) (dx_per_sec f)), w'))"
  by pat_completeness auto
termination
  by (relation "measure (\<lambda>(f, s, sd, ed, c, p, n, w). MAX_THROTTLE_RETRIES - n)") auto

declare daily_page_loop.simps [simp del]

text \<open>The rows of a page: the bars in the window, and whether a row reached below it.\<close>

fun window_rows :: "(t8410_row \<Rightarrow> price_bar option io) \<Rightarrow> int \<Rightarrow> int \<Rightarrow> t8410_row list \<Rightarrow> (price_bar list \<times> bool) io" where
  "window_rows build ts_start ts_end [] = Val ([], False)"
| "window_rows build ts_start ts_end (r # rs) =
     io_bind (build r) (\<lambda>b.
     io_bind (window_rows build ts_start ts_end rs) (\<lambda>(bars, below). Val
       (case b of
          None \<Rightarrow> (bars, below)
        | Some b \<Rightarrow>
            if br_init b < ts_start then (bars, True)
            else if ts_end < br_init b then (bars, below)
            else (b # bars, below))))"

text \<open>The walk over the pages still allowed: the bars and \<open>hit_cap\<close>.\<close>

fun daily_walk ::
  "(t8410_row \<Rightarrow> price_bar option io) \<Rightarrow> 'w daily_fetcher \<Rightarrow> string \<Rightarrow> string \<Rightarrow> string \<Rightarrow> int \<Rightarrow> int \<Rightarrow>
   nat \<Rightarrow> nat \<Rightarrow> string \<Rightarrow> string list \<Rightarrow> price_bar list \<Rightarrow> 'w \<Rightarrow> (gap_reason + price_bar list \<times> bool) io \<times> 'w" where
  "daily_walk build f shcode sdate edate lo hi page 0 cts seen bars w = (Val (Inr (bars, True)), w)"
| "daily_walk build f shcode sdate edate lo hi page (Suc left) cts seen bars w =
     (case daily_page_loop f shcode sdate edate cts page 0 w of
        (PageGap g, w') \<Rightarrow> (Val (Inl g), w')
      | (PageFail e, w') \<Rightarrow> (Err e, w')
      | (PageOk r, w') \<Rightarrow>
          (case window_rows build lo hi (dg_rows r) of
             Err e \<Rightarrow> (Err e, w')
           | Panic \<Rightarrow> (Panic, w')
           | Val (new, below) \<Rightarrow>
               (let bars' = bars @ new; next_cts = trim (dg_cts_date r)
                in if below then (Val (Inr (bars', False)), w')
                   else if next_cts = [] \<or> dg_rows r = [] \<or> next_cts \<in> set seen then (Val (Inr (bars', False)), w')
                   else daily_walk build f shcode sdate edate lo hi (page + 1) left next_cts (next_cts # seen) bars' w')))"

definition collect_daily ::
  "bar_env \<Rightarrow> 'w daily_fetcher \<Rightarrow> string \<Rightarrow> string \<Rightarrow> string \<Rightarrow> string \<Rightarrow> 'w \<Rightarrow> triple_outcome io \<times> 'w" where
  "collect_daily e f shcode bar_type sdate edate w =
     (case io_bind (io_of (parse_yyyymmdd e ''sdate'' sdate)) (\<lambda>sd.
           io_bind (io_of (parse_yyyymmdd e ''edate'' edate)) (\<lambda>ed.
           io_bind (io_of (kst_to_unix_nanos e sd (session_close sd))) (\<lambda>lo.
           io_bind (io_of (kst_to_unix_nanos e ed (session_close ed))) (\<lambda>hi. Val (lo, hi))))) of
        Err x \<Rightarrow> (Err x, w)
      | Panic \<Rightarrow> (Panic, w)
      | Val (lo, hi) \<Rightarrow>
          (case daily_walk (build_daily_bar e bar_type) f shcode sdate edate lo hi 0 MAX_DAILY_PAGES [] [] [] w of
             (Err x, w') \<Rightarrow> (Err x, w')
           | (Panic, w') \<Rightarrow> (Panic, w')
           | (Val (Inl g), w') \<Rightarrow> (Val (TripleGap g), w')
           | (Val (Inr (bars, hit_cap)), w') \<Rightarrow>
               (Val (if bars = [] then TripleGap EmptyHistory
                     else if hit_cap then TripleGap PaperThin
                     else TripleBars (sort_key br_init bars)), w')))"

section \<open>The minute loop\<close>

text \<open>The days of \<open>[s, e]\<close> in two halves; the source's branch \<open>mid >= e\<close> is kept.\<close>

definition split_range :: "int \<Rightarrow> int \<Rightarrow> ((int \<times> int) \<times> int \<times> int) option" where
  "split_range s e =
     (if e \<le> s then None
      else let mid = s + (e - s) div 2
           in Some (if e \<le> mid then ((s, s), (e, e)) else ((s, mid), (mid + 1, e))))"

definition requeue_halves :: "(int \<times> int) list \<Rightarrow> int \<Rightarrow> int \<Rightarrow> (int \<times> int) list option" where
  "requeue_halves queue s e = map_option (\<lambda>(l, r). l # r # queue) (split_range s e)"

definition range_weight :: "int \<times> int \<Rightarrow> nat" where
  "range_weight p = max 1 (nat (2 * (snd p - fst p) + 1))"

lemma requeue_weight:
  assumes "requeue_halves queue s e = Some q"
  shows "sum_list (map range_weight q) < range_weight (s, e) + sum_list (map range_weight queue)"
  using assms by (auto simp: requeue_halves_def split_range_def range_weight_def Let_def split: if_splits)

fun minute_rows :: "(t8412_row \<Rightarrow> price_bar option io) \<Rightarrow> t8412_row list \<Rightarrow> price_bar list io" where
  "minute_rows build [] = Val []"
| "minute_rows build (r # rs) =
     io_bind (build r) (\<lambda>b. io_bind (minute_rows build rs) (\<lambda>bars. Val (case b of None \<Rightarrow> bars | Some b \<Rightarrow> b # bars)))"

text \<open>The bars and \<open>left_uncovered_gap\<close>.\<close>

function minute_loop ::
  "bar_env \<Rightarrow> (t8412_row \<Rightarrow> price_bar option io) \<Rightarrow> 'w minute_fetcher \<Rightarrow> string \<Rightarrow> nat \<Rightarrow>
   (int \<times> int) list \<Rightarrow> nat \<Rightarrow> nat \<Rightarrow> bool \<Rightarrow> price_bar list \<Rightarrow> 'w \<Rightarrow> (price_bar list \<times> bool) io \<times> 'w" where
  "minute_loop env build f shcode ncnt [] chunk throttle_retries gap bars w = (Val (bars, gap), w)"
| "minute_loop env build f shcode ncnt ((s, e) # queue) chunk throttle_retries gap bars w =
     (case mx_fetch f w shcode ncnt (ymd_format (be_ymd env) s) (ymd_format (be_ymd env) e) of
        (Inr pages, w') \<Rightarrow>
          (case minute_rows build (concat (map mg_rows pages)) of
             Err x \<Rightarrow> (Err x, w')
           | Panic \<Rightarrow> (Panic, w')
           | Val new \<Rightarrow> minute_loop env build f shcode ncnt queue (chunk + 1) 0 gap (bars @ new) w')
      | (Inl x, w') \<Rightarrow>
          if is_pagination_limit x then
            (case requeue_halves queue s e of
               Some q \<Rightarrow> minute_loop env build f shcode ncnt q (chunk + 1) throttle_retries gap bars w'
             | None \<Rightarrow> minute_loop env build f shcode ncnt queue (chunk + 1) throttle_retries True bars w')
          else if is_code ''IGW00201'' x then
            (if MAX_THROTTLE_RETRIES \<le> throttle_retries
             then minute_loop env build f shcode ncnt queue (chunk + 1) throttle_retries True bars w'
             else case requeue_halves queue s e of
                 Some q \<Rightarrow> minute_loop env build f shcode ncnt q (chunk + 1) (throttle_retries + 1) gap bars w'
               | None \<Rightarrow>
                   minute_loop env build f shcode ncnt ((s, e) # queue) (chunk + 1) (throttle_retries + 1) gap bars w')
          else if is_code ''01715'' x
            then minute_loop env build f shcode ncnt queue (chunk + 1) throttle_retries gap bars w'
          else (Err (with_gateway_context x (mx_label f) (chunk + 1) (mx_per_sec f)), w'))"
  by pat_completeness auto
termination
  by (relation "measures [\<lambda>(e, b, f, s, n, q, c, t, g, bs, w). sum_list (map range_weight q),
        \<lambda>(e, b, f, s, n, q, c, t, g, bs, w). MAX_THROTTLE_RETRIES - t]")
    (auto simp: range_weight_def dest: requeue_weight)

declare minute_loop.simps(2) [simp del]

definition collect_minute ::
  "bar_env \<Rightarrow> 'w minute_fetcher \<Rightarrow> string \<Rightarrow> nat \<Rightarrow> string \<Rightarrow> string \<Rightarrow> string \<Rightarrow> 'w \<Rightarrow> triple_outcome io \<times> 'w" where
  "collect_minute e f shcode ncnt bar_type sdate edate w =
     (case io_bind (io_of (parse_yyyymmdd e ''sdate'' sdate)) (\<lambda>sd.
           io_bind (io_of (parse_yyyymmdd e ''edate'' edate)) (\<lambda>ed. Val (sd, ed))) of
        Err x \<Rightarrow> (Err x, w)
      | Panic \<Rightarrow> (Panic, w)
      | Val (sd, ed) \<Rightarrow>
          (case minute_loop e (build_minute_bar e bar_type) f shcode ncnt [(sd, ed)] 0 0 False [] w of
             (Err x, w') \<Rightarrow> (Err x, w')
           | (Panic, w') \<Rightarrow> (Panic, w')
           | (Val (bars, left_uncovered_gap), w') \<Rightarrow>
               (Val (if bars \<noteq> [] then TripleBars (sort_key br_init bars)
                     else if left_uncovered_gap then TripleGap PaperThin
                     else TripleGap EmptyHistory), w')))"

section \<open>The SDK fetcher\<close>

text \<open>The gateway answers the \<open>n\<close>-th call of a run with \<open>sf_daily n\<close> or \<open>sf_minute n\<close>; \<open>sf_now\<close> is
  the clock of the dispatch. The pacer's waits are modelled in \<open>Ingest_Budget\<close>.\<close>

record minute_request =
  mr_shcode :: string
  mr_ncnt :: string
  mr_qrycnt :: string
  mr_nday :: string
  mr_sdate :: string
  mr_edate :: string
  mr_comp_yn :: string
  mr_cts_date :: string
  mr_cts_time :: string
  mr_cont :: string
  mr_cont_key :: string

record fetch_world =
  fw_ledger :: spend_ledger
  fw_calls :: nat

record sdk_fetcher =
  sf_cred :: string
  sf_daily_qrycnt :: nat
  sf_minute_qrycnt :: nat
  sf_daily_cap :: nat
  sf_minute_cap :: nat
  sf_now :: "nat \<Rightarrow> int"
  sf_daily :: "nat \<Rightarrow> string \<Rightarrow> string \<Rightarrow> string \<Rightarrow> string \<Rightarrow> string \<Rightarrow> string \<Rightarrow> ls_error + daily_page"
  sf_minute :: "nat \<Rightarrow> minute_request \<Rightarrow> ls_error + minute_page"

definition record_dispatch :: "sdk_fetcher \<Rightarrow> 'a fetch_world_scheme \<Rightarrow> 'a fetch_world_scheme" where
  "record_dispatch k w =
     w \<lparr>fw_ledger := record_spend (sf_cred k) (sf_now k (fw_calls w)) (fw_ledger w), fw_calls := fw_calls w + 1\<rparr>"

definition note_if_throttled :: "sdk_fetcher \<Rightarrow> ls_error + 'b \<Rightarrow> 'a fetch_world_scheme \<Rightarrow> 'a fetch_world_scheme" where
  "note_if_throttled k r w =
     (case r of
        Inl (ApiError code _) \<Rightarrow>
          if code = ''IGW00201'' then w \<lparr>fw_ledger := record_model_miss (sf_cred k) (fw_ledger w)\<rparr> else w
      | _ \<Rightarrow> w)"

definition sdk_daily_page ::
  "sdk_fetcher \<Rightarrow> 'a fetch_world_scheme \<Rightarrow> string \<Rightarrow> string \<Rightarrow> string \<Rightarrow> string \<Rightarrow> (adapter_error + daily_page) \<times> 'a fetch_world_scheme" where
  "sdk_daily_page k w shcode sdate edate cts =
     (let r = sf_daily k (fw_calls w) shcode ''2'' (show_nat (sf_daily_qrycnt k)) sdate edate cts
      in (map_sum Sdk (\<lambda>x. x) r, note_if_throttled k r (record_dispatch k w)))"

fun minute_pages ::
  "sdk_fetcher \<Rightarrow> nat \<Rightarrow> minute_request \<Rightarrow> (string \<times> string) list \<Rightarrow> minute_page list \<Rightarrow> 'a fetch_world_scheme \<Rightarrow>
   (adapter_error + minute_page list) \<times> 'a fetch_world_scheme" where
  "minute_pages k 0 req seen pages w = (Inl (Sdk (PaginationLimit MINUTE_MAX_PAGES)), w)"
| "minute_pages k (Suc left) req seen pages w =
     (let r = sf_minute k (fw_calls w) req; w' = note_if_throttled k r (record_dispatch k w)
      in case r of
           Inl e \<Rightarrow> (Inl (Sdk e), w')
         | Inr p \<Rightarrow>
             (let next_date = trim (mg_cts_date p); next_time = trim (mg_cts_time p)
              in if next_date = [] then (Inr (pages @ [p]), w')
                 else if mg_rows p = [] \<or> (next_date, next_time) \<in> set seen
                   then (Inl (Sdk (PaginationLimit MINUTE_MAX_PAGES)), w')
                 else minute_pages k left
                   (req \<lparr>mr_cts_date := next_date, mr_cts_time := next_time, mr_cont := ''Y'', mr_cont_key := mg_cont_key p\<rparr>)
                   ((next_date, next_time) # seen) (pages @ [p]) w'))"

definition sdk_minute_chunk ::
  "sdk_fetcher \<Rightarrow> 'a fetch_world_scheme \<Rightarrow> string \<Rightarrow> nat \<Rightarrow> string \<Rightarrow> string \<Rightarrow> (adapter_error + minute_page list) \<times> 'a fetch_world_scheme" where
  "sdk_minute_chunk k w shcode ncnt sdate edate =
     minute_pages k MINUTE_MAX_PAGES
       \<lparr>mr_shcode = shcode, mr_ncnt = show_nat ncnt, mr_qrycnt = show_nat (sf_minute_qrycnt k), mr_nday = ''0'',
        mr_sdate = sdate, mr_edate = edate, mr_comp_yn = ''N'', mr_cts_date = [], mr_cts_time = [],
        mr_cont = [], mr_cont_key = []\<rparr> [] [] w"

definition sdk_daily :: "sdk_fetcher \<Rightarrow> 'a fetch_world_scheme daily_fetcher" where
  "sdk_daily k = \<lparr>dx_fetch = sdk_daily_page k, dx_label = ''t8410'', dx_per_sec = sf_daily_cap k\<rparr>"

definition sdk_minute :: "sdk_fetcher \<Rightarrow> 'a fetch_world_scheme minute_fetcher" where
  "sdk_minute k = \<lparr>mx_fetch = sdk_minute_chunk k, mx_label = ''t8412'', mx_per_sec = sf_minute_cap k\<rparr>"

section \<open>Planning the ranges\<close>

definition estimate_pages :: "bar_kind \<Rightarrow> (int \<times> int) list \<Rightarrow> nat" where
  "estimate_pages kind sub_ranges =
     (let days = sum_list (map (\<lambda>(s, e). e - s + 1) sub_ranges); trading = max ((days * 5 + 6) div 7) 1
      in case kind of
           Daily \<Rightarrow> nat (max ((trading + 899) div 900) 1)
         | Minute _ \<Rightarrow> nat (max ((trading + 1) div 2) 1))"

text \<open>The ranges of \<open>[cursor, last_closed]\<close> below, between and above the spans. A day with no
  successor leaves the cursor where it is.\<close>

fun subtract_covered :: "int \<Rightarrow> int \<Rightarrow> (int \<times> int) list \<Rightarrow> (int \<times> int) list" where
  "subtract_covered cursor last_closed [] = (if cursor \<le> last_closed then [(cursor, last_closed)] else [])"
| "subtract_covered cursor last_closed ((cs, ce) # covered) =
     (if last_closed < cs then (if cursor \<le> last_closed then [(cursor, last_closed)] else [])
      else
        (let end = min (case pred_opt cs of Some p \<Rightarrow> p | None \<Rightarrow> cs) last_closed;
             before = (if cursor < cs \<and> cursor \<le> end then [(cursor, end)] else []);
             cursor' = (case succ_opt ce of Some n \<Rightarrow> max cursor n | None \<Rightarrow> cursor)
         in before @
            (if last_closed < cursor' then [] else subtract_covered cursor' last_closed covered)))"

section \<open>Basis-shift detection\<close>

definition DEFAULT_OVERLAP_DAYS :: nat where "DEFAULT_OVERLAP_DAYS = 5"
definition DEFAULT_EMPTY_RETRY_MAX :: nat where "DEFAULT_EMPTY_RETRY_MAX = 3"
definition MIN_OVERLAP_DATES :: nat where "MIN_OVERLAP_DATES = 3"

text \<open>\<open>str::parse::<u32>\<close> of the trimmed variable is the argument.\<close>

definition empty_retry_max_from_env :: "nat option \<Rightarrow> nat" where
  "empty_retry_max_from_env parsed = (case parsed of Some n \<Rightarrow> max n 1 | None \<Rightarrow> DEFAULT_EMPTY_RETRY_MAX)"

definition overlap_window_start :: "int \<Rightarrow> nat \<Rightarrow> int io" where
  "overlap_window_start wm overlap_days =
     (let d = wm - (int overlap_days * 3 + 10) in if DATE_MIN \<le> d then Val d else Panic)"

definition overlap_end_bound :: "bar_env \<Rightarrow> int \<Rightarrow> adapter_error + int" where
  "overlap_end_bound e wm = kst_to_unix_nanos e wm (session_close wm)"

datatype overlap_verdict = OverlapMatch | OverlapShifted | OverlapInsufficient
datatype tail_gate = ForceShift | TailInsufficient | CompareTail

definition overlap_tail :: "price_bar list \<Rightarrow> nat \<Rightarrow> price_bar list" where
  "overlap_tail bars n =
     (let distinct = remdups_adj (sort (map br_event bars))
      in if length distinct \<le> n then bars
         else filter (\<lambda>b. distinct ! (length distinct - n) \<le> br_event b) bars)"

text \<open>\<open>dedup_bars\<close> keeps the first of equal bars.\<close>

fun dedup_loop :: "price_bar list \<Rightarrow> price_bar list \<Rightarrow> price_bar list" where
  "dedup_loop seen [] = []"
| "dedup_loop seen (b # bs) = (if b \<in> set seen then dedup_loop seen bs else b # dedup_loop (b # seen) bs)"

definition dedup_bars :: "price_bar list \<Rightarrow> price_bar list" where
  "dedup_bars bars = dedup_loop [] bars"

definition stored_overlap_gate :: "price_bar list \<Rightarrow> tail_gate" where
  "stored_overlap_gate tail =
     (let ts = map br_event (dedup_bars tail)
      in if \<not> distinct ts then ForceShift
         else if length (remdups ts) < MIN_OVERLAP_DATES then TailInsufficient
         else CompareTail)"

type_synonym ohlc = "int \<times> int \<times> int \<times> int"

text \<open>Collecting pairs into a \<open>BTreeMap\<close> keeps the last value of a key.\<close>

definition ohlc_by_ts :: "price_bar list \<Rightarrow> (int \<times> ohlc) list" where
  "ohlc_by_ts bars =
     fold (\<lambda>b m. AList.update (br_event b) (br_open b, br_high b, br_low b, br_close b) m) bars []"

definition compare_overlap :: "price_bar list \<Rightarrow> price_bar list \<Rightarrow> overlap_verdict" where
  "compare_overlap stored fetched =
     (let s = ohlc_by_ts stored; f = ohlc_by_ts fetched;
          mutual = filter (\<lambda>(ts, _). map_of f ts \<noteq> None) s
      in if length mutual < MIN_OVERLAP_DATES then OverlapInsufficient
         else if list_ex (\<lambda>(ts, o'). map_of f ts \<noteq> Some o') mutual then OverlapShifted
         else OverlapMatch)"

definition fetch_overlap ::
  "bar_env \<Rightarrow> 'w daily_fetcher \<Rightarrow> string \<Rightarrow> string \<Rightarrow> int \<Rightarrow> int \<Rightarrow> 'w \<Rightarrow> price_bar list option io \<times> 'w" where
  "fetch_overlap e f shcode bar_type wstart wend w =
     (case collect_daily e f shcode bar_type (ymd_format (be_ymd e) wstart) (ymd_format (be_ymd e) wend) w of
        (Val (TripleBars bs), w') \<Rightarrow> (Val (Some bs), w')
      | (Val (TripleGap _), w') \<Rightarrow> (Val None, w')
      | (Err x, w') \<Rightarrow> (Err x, w')
      | (Panic, w') \<Rightarrow> (Panic, w'))"

section \<open>The checked append\<close>

text \<open>The catalog is the library's: an abstract state with its four operations.\<close>

record 'c catalog_api =
  ca_intervals :: "'c \<Rightarrow> string \<Rightarrow> adapter_error + (int \<times> int) list"
  ca_bars :: "'c \<Rightarrow> string \<Rightarrow> int option \<Rightarrow> int option \<Rightarrow> adapter_error + price_bar list"
  ca_write :: "'c \<Rightarrow> price_bar list \<Rightarrow> (adapter_error + unit) \<times> 'c"
  ca_delete :: "'c \<Rightarrow> string \<Rightarrow> (adapter_error + unit) \<times> 'c"

definition fmt_ts_range :: "bar_env \<Rightarrow> int \<Rightarrow> int \<Rightarrow> string" where
  "fmt_ts_range e lo hi =
     ymd_format (be_ymd e) (kst_date_of lo) @ ''..'' @ ymd_format (be_ymd e) (kst_date_of hi)"

fun join_with :: "string \<Rightarrow> string list \<Rightarrow> string" where
  "join_with sep [] = []"
| "join_with sep [x] = x"
| "join_with sep (x # y # xs) = x @ sep @ join_with sep (y # xs)"

definition append_bars_checked ::
  "bar_env \<Rightarrow> 'c catalog_api \<Rightarrow> 'c \<Rightarrow> string \<Rightarrow> price_bar list \<Rightarrow> (adapter_error + unit) \<times> 'c" where
  "append_bars_checked e api c bar_type bars =
     (if bars = [] then (Inr (), c)
      else let lo = Min (set (map br_init bars)); hi = Max (set (map br_init bars))
           in case ca_intervals api c bar_type of
                Inl x \<Rightarrow> (Inl x, c)
              | Inr intervals \<Rightarrow>
                  (let overlapping = filter (\<lambda>(s, t). lo \<le> t \<and> s \<le> hi) intervals
                   in if overlapping \<noteq> []
                      then (Inl (OverlapRefused bar_type (fmt_ts_range e lo hi)
                              (join_with '', '' (map (\<lambda>(s, t). fmt_ts_range e s t) overlapping))), c)
                      else ca_write api c bars))"

section \<open>Run guards\<close>

definition BACKFILL_INCOMPLETE_REFUSAL :: string where "BACKFILL_INCOMPLETE_REFUSAL = ''BACKFILL INCOMPLETE''"

text \<open>The tail of the refusal (paths and remediation) is an argument.\<close>

definition refuse_on_incomplete_backfill :: "checkpoint \<Rightarrow> string \<Rightarrow> string \<Rightarrow> adapter_error + unit" where
  "refuse_on_incomplete_backfill cp mode rest =
     (if cp_backfill cp
      then Inl (Ingest (BACKFILL_INCOMPLETE_REFUSAL @ '': refusing '' @ mode @ '' mode'' @ rest))
      else Inr ())"

definition note_empty_frontier :: "ymd_codec \<Rightarrow> string \<Rightarrow> string \<Rightarrow> string \<Rightarrow> int \<Rightarrow> nat \<Rightarrow> checkpoint \<Rightarrow> checkpoint" where
  "note_empty_frontier k instrument label rng last_closed limit cp =
     (let (count, cp') = bump_empty_retry k instrument label last_closed cp
      in if limit \<le> count then record_gap_uncovered instrument label rng EmptyHistory cp' else cp')"

section \<open>The ranges left to fetch\<close>

definition below_max :: "(int \<times> int) list \<Rightarrow> bool" where
  "below_max ps = list_all (\<lambda>(a, b). b < DATE_MAX) ps"

lemma subtract_step:
  assumes "DATE_MIN \<le> c" and "b < DATE_MAX" and "a \<le> l"
  shows "subtract_covered c l ((a, b) # ps) =
    (if c < a then [(c, a - 1)] else []) @
    (if l < max c (b + 1) then [] else subtract_covered (max c (b + 1)) l ps)"
  using assms by (simp add: Let_def succ_opt_def pred_opt_def)

text \<open>The same step at any date: the gap reaches the span and the cursor stays out of the span.\<close>

lemma subtract_any:
  assumes "a \<le> l"
  obtains e m where "a - 1 \<le> e" and "c \<le> m" and "m \<le> max c (b + 1)" and
    "subtract_covered c l ((a, b) # ps) =
      (if c < a then [(c, e)] else []) @ (if l < m then [] else subtract_covered m l ps)"
proof
  let ?e = "min (case pred_opt a of Some p \<Rightarrow> p | None \<Rightarrow> a) l"
  let ?m = "case succ_opt b of Some n \<Rightarrow> max c n | None \<Rightarrow> c"
  show e: "a - 1 \<le> ?e" using assms by (auto simp: pred_opt_def)
  show "c \<le> ?m" "?m \<le> max c (b + 1)" by (auto simp: succ_opt_def)
  show "subtract_covered c l ((a, b) # ps) =
      (if c < a then [(c, ?e)] else []) @ (if l < ?m then [] else subtract_covered ?m l ps)"
    using assms e by (simp add: Let_def)
qed

lemma subtract_covers: "{c..l} \<subseteq> span_days (subtract_covered c l ps) \<union> span_days ps"
proof (induction ps arbitrary: c)
  case (Cons p ps)
  obtain a b where p: "p = (a, b)" by (cases p)
  show ?case
  proof (cases "l < a")
    case False
    then have "a \<le> l" by simp
    then obtain e m where em: "a - 1 \<le> e" "c \<le> m" "m \<le> max c (b + 1)"
      "subtract_covered c l ((a, b) # ps) =
        (if c < a then [(c, e)] else []) @ (if l < m then [] else subtract_covered m l ps)"
      by (rule subtract_any)
    have "d \<in> span_days (subtract_covered c l (p # ps)) \<union> span_days (p # ps)" if d: "d \<in> {c..l}" for d
    proof (cases "m \<le> d")
      case True
      with d Cons.IH [of m] have "d \<in> span_days (subtract_covered m l ps) \<union> span_days ps" by auto
      moreover have "\<not> l < m" using True d by auto
      ultimately show ?thesis by (auto simp: p em(4) simp del: subtract_covered.simps)
    next
      case m: False
      with d em(2,3) have "d \<le> b" by auto
      show ?thesis
        using d em(1) \<open>d \<le> b\<close> by (auto simp: p em(4) simp del: subtract_covered.simps)
    qed
    then show ?thesis by blast
  qed (simp add: p)
qed simp

lemma subtract_prefix:
  assumes "subtract_covered c l ps = pre @ (s, e) # post"
  shows "c \<le> s \<and> {c..s - 1} \<subseteq> span_days pre \<union> span_days ps"
  using assms
proof (induction ps arbitrary: c pre)
  case (Cons p ps)
  obtain a b where p: "p = (a, b)" by (cases p)
  show ?case
  proof (cases "l < a")
    case False
    then have "a \<le> l" by simp
    then obtain x m where em: "a - 1 \<le> x" "c \<le> m" "m \<le> max c (b + 1)"
      "subtract_covered c l ((a, b) # ps) =
        (if c < a then [(c, x)] else []) @ (if l < m then [] else subtract_covered m l ps)"
      by (rule subtract_any)
    have eq: "(if c < a then [(c, x)] else []) @ (if l < m then [] else subtract_covered m l ps) = pre @ (s, e) # post"
      using Cons.prems by (simp only: p em(4))
    have rest: "m \<le> s \<and> {m..s - 1} \<subseteq> span_days qs \<union> span_days ps"
      if "(if l < m then [] else subtract_covered m l ps) = qs @ (s, e) # post" for qs
      using Cons.IH [of m qs] that by (auto split: if_splits)
    consider (first) "c < a" "pre = []" "s = c"
      | (later) qs where "(if l < m then [] else subtract_covered m l ps) = qs @ (s, e) # post"
          "pre = (if c < a then [(c, x)] else []) @ qs"
      using eq by (cases "c < a") (auto simp: Cons_eq_append_conv)
    then show ?thesis
    proof cases
      case later
      have "d \<in> span_days pre \<union> span_days (p # ps)" if "d \<in> {c..s - 1}" for d
        using that rest [OF later(1)] em(1,3) by (cases "m \<le> d") (auto simp: p later(2))
      then have "{c..s - 1} \<subseteq> span_days pre \<union> span_days (p # ps)" by blast
      with rest [OF later(1)] em(2) show ?thesis by simp
    qed simp
  qed (use Cons.prems in \<open>auto simp: p Cons_eq_append_conv split: if_splits\<close>)
qed (auto simp: Cons_eq_append_conv split: if_splits)

lemma subtract_bounds:
  assumes "subtract_covered c l ps = pre @ (s, e) # post"
  shows "s \<le> l"
  using assms
proof (induction ps arbitrary: c pre)
  case (Cons p ps)
  obtain a b where p: "p = (a, b)" by (cases p)
  show ?case
  proof (cases "l < a")
    case False
    then have "a \<le> l" by simp
    then obtain x m where em: "a - 1 \<le> x" "c \<le> m" "m \<le> max c (b + 1)"
      "subtract_covered c l ((a, b) # ps) =
        (if c < a then [(c, x)] else []) @ (if l < m then [] else subtract_covered m l ps)"
      by (rule subtract_any)
    have eq: "(if c < a then [(c, x)] else []) @ (if l < m then [] else subtract_covered m l ps) = pre @ (s, e) # post"
      using Cons.prems by (simp only: p em(4))
    consider "c < a" "s = c"
      | qs where "(if l < m then [] else subtract_covered m l ps) = qs @ (s, e) # post"
      using eq by (cases "c < a") (auto simp: Cons_eq_append_conv)
    then show ?thesis using False Cons.IH by cases (auto split: if_splits)
  qed (use Cons.prems in \<open>auto simp: p Cons_eq_append_conv split: if_splits\<close>)
qed (auto simp: Cons_eq_append_conv split: if_splits)

lemma subtract_inside:
  assumes "sorted (map fst ps)" and "below_max ps" and "DATE_MIN \<le> c" and "list_all (\<lambda>(a, b). a \<le> b) ps"
  shows "span_days (subtract_covered c l ps) \<subseteq> {c..l} - span_days ps"
  using assms
proof (induction ps arbitrary: c)
  case (Cons p ps)
  obtain a b where p: "p = (a, b)" by (cases p)
  have b: "b < DATE_MAX" "a \<le> b" and ps: "below_max ps" "sorted (map fst ps)" "list_all (\<lambda>(a, b). a \<le> b) ps"
    and above: "\<forall>(x, y)\<in>set ps. a \<le> x"
    using Cons.prems by (auto simp: p below_max_def)
  have far: "x \<notin> span_days ps" if "x < a" for x using above that by (auto simp: span_days_def)
  show ?case
  proof (cases "l < a")
    case True
    then show ?thesis using far by (auto simp: p)
  next
    case False
    let ?m = "max c (b + 1)"
    have ih: "span_days (subtract_covered ?m l ps) \<subseteq> {?m..l} - span_days ps"
      using Cons.IH [OF ps(2,1) _ ps(3)] Cons.prems(3) by simp
    show ?thesis
      using ih far False b Cons.prems(3) by (auto simp: p subtract_step simp del: subtract_covered.simps)
  qed
qed simp

text \<open>
  The ranges left to fetch are exactly the days of the window that recorded coverage does not
  hold: no covered day is fetched again and no uncovered day is left out.\<close>

theorem left_to_fetch_is_the_uncovered:
  assumes "sorted (map fst covered)" and "list_all (\<lambda>(a, b). a \<le> b \<and> b < DATE_MAX) covered" and "DATE_MIN \<le> start"
  shows "span_days (subtract_covered start last_closed covered) = {start..last_closed} - span_days covered"
proof -
  have "below_max covered" "list_all (\<lambda>(a, b). a \<le> b) covered"
    using assms(2) by (auto simp: below_max_def list_all_iff)
  then show ?thesis
    using subtract_covers [of start last_closed covered] subtract_inside [of covered start last_closed] assms by blast
qed

theorem left_to_fetch_is_the_uncovered_witness:
  "span_days (subtract_covered 100 120 [(103, 105), (110, 130)]) = {100..120} - ({103..105} \<union> {110..130})"
  using left_to_fetch_is_the_uncovered [of "[(103, 105), (110, 130)]" 100 120]
  by (simp add: DATE_MAX_def DATE_MIN_def)

section \<open>The daily walk\<close>

lemma window_rows_inside:
  assumes "window_rows build lo hi rs = Val (bars, below)"
  shows "\<forall>b\<in>set bars. lo \<le> br_init b \<and> br_init b \<le> hi"
  using assms
proof (induction rs arbitrary: bars below)
  case (Cons r rs)
  then show ?case
    by (auto simp: io_bind_def split: io.splits option.splits if_splits prod.splits)
qed simp

lemma daily_walk_inside:
  assumes "daily_walk build f shcode sd ed lo hi page left cts seen bars w = (Val (Inr (bs, cap)), w')"
    and "\<forall>b\<in>set bars. lo \<le> br_init b \<and> br_init b \<le> hi"
  shows "\<forall>b\<in>set bs. lo \<le> br_init b \<and> br_init b \<le> hi"
  using assms
proof (induction left arbitrary: page cts seen bars w)
  case (Suc left)
  show ?case
  proof (cases "daily_page_loop f shcode sd ed cts page 0 w")
    case (Pair step w1)
    with Suc.prems(1) obtain r where step: "step = PageOk r" by (cases step) auto
    with Suc.prems(1) Pair obtain new below where rows: "window_rows build lo hi (dg_rows r) = Val (new, below)"
      by (cases "window_rows build lo hi (dg_rows r)") auto
    have ins: "\<forall>b\<in>set (bars @ new). lo \<le> br_init b \<and> br_init b \<le> hi"
      using window_rows_inside [OF rows] Suc.prems(2) by auto
    show ?thesis
      using Suc.prems(1) ins by (auto simp: Pair step rows Let_def split: if_splits dest: Suc.IH)
  qed
qed simp

text \<open>A walk over pages: \<open>fetch\<close> serves a page at a cursor, \<open>ends\<close> says that a page ends the walk.\<close>

inductive page_walk ::
  "(nat \<Rightarrow> string \<Rightarrow> 'w \<Rightarrow> daily_page \<Rightarrow> 'w \<Rightarrow> bool) \<Rightarrow> (daily_page \<Rightarrow> string list \<Rightarrow> bool) \<Rightarrow>
   nat \<Rightarrow> string \<Rightarrow> string list \<Rightarrow> 'w \<Rightarrow> daily_page list \<Rightarrow> 'w \<Rightarrow> bool"
  for fetch ends where
  last_page: "fetch page cts w r w' \<Longrightarrow> ends r seen \<Longrightarrow> page_walk fetch ends page cts seen w [r] w'"
| more_pages: "fetch page cts w r w1 \<Longrightarrow> \<not> ends r seen \<Longrightarrow>
    page_walk fetch ends (page + 1) (trim (dg_cts_date r)) (trim (dg_cts_date r) # seen) w1 rs w' \<Longrightarrow>
    page_walk fetch ends page cts seen w (r # rs) w'"

definition page_bars :: "(t8410_row \<Rightarrow> price_bar option io) \<Rightarrow> int \<Rightarrow> int \<Rightarrow> daily_page \<Rightarrow> price_bar list" where
  "page_bars build lo hi r = (case window_rows build lo hi (dg_rows r) of Val (bars, _) \<Rightarrow> bars | _ \<Rightarrow> [])"

definition page_below :: "(t8410_row \<Rightarrow> price_bar option io) \<Rightarrow> int \<Rightarrow> int \<Rightarrow> daily_page \<Rightarrow> bool" where
  "page_below build lo hi r = (case window_rows build lo hi (dg_rows r) of Val (_, below) \<Rightarrow> below | _ \<Rightarrow> False)"

definition daily_served :: "'w daily_fetcher \<Rightarrow> string \<Rightarrow> string \<Rightarrow> string \<Rightarrow> nat \<Rightarrow> string \<Rightarrow> 'w \<Rightarrow> daily_page \<Rightarrow> 'w \<Rightarrow> bool" where
  "daily_served f shcode sd ed page cts w r w' = (daily_page_loop f shcode sd ed cts page 0 w = (PageOk r, w'))"

definition daily_ends :: "(t8410_row \<Rightarrow> price_bar option io) \<Rightarrow> int \<Rightarrow> int \<Rightarrow> daily_page \<Rightarrow> string list \<Rightarrow> bool" where
  "daily_ends build lo hi r seen =
     (page_below build lo hi r \<or> trim (dg_cts_date r) = [] \<or> dg_rows r = [] \<or> trim (dg_cts_date r) \<in> set seen)"

lemma daily_walk_is_walk:
  assumes "daily_walk build f shcode sd ed lo hi page left cts seen bars w = (Val (Inr (bs, False)), w')"
  shows "\<exists>ps. page_walk (daily_served f shcode sd ed) (daily_ends build lo hi) page cts seen w ps w' \<and>
    length ps \<le> left \<and> bs = bars @ concat (map (page_bars build lo hi) ps)"
  using assms
proof (induction left arbitrary: page cts seen bars w)
  case (Suc left)
  show ?case
  proof (cases "daily_page_loop f shcode sd ed cts page 0 w")
    case (Pair step w1)
    with Suc.prems(1) obtain r where step: "step = PageOk r" by (cases step) auto
    have srv: "daily_served f shcode sd ed page cts w r w1" by (simp add: daily_served_def Pair step)
    from Suc.prems(1) Pair step obtain new below where rows: "window_rows build lo hi (dg_rows r) = Val (new, below)"
      by (cases "window_rows build lo hi (dg_rows r)") auto
    have pb: "page_bars build lo hi r = new" "page_below build lo hi r = below"
      by (simp_all add: page_bars_def page_below_def rows)
    show ?thesis
    proof (cases "daily_ends build lo hi r seen")
      case True
      then have "bs = bars @ new \<and> w' = w1"
        using Suc.prems(1) by (auto simp: Pair step rows Let_def daily_ends_def pb split: if_splits)
      moreover have "page_walk (daily_served f shcode sd ed) (daily_ends build lo hi) page cts seen w [r] w1"
        by (rule page_walk.last_page) (fact srv, fact True)
      ultimately show ?thesis by (intro exI [of _ "[r]"]) (simp add: pb)
    next
      case False
      with Suc.prems(1) have "daily_walk build f shcode sd ed lo hi (page + 1) left (trim (dg_cts_date r))
          (trim (dg_cts_date r) # seen) (bars @ new) w1 = (Val (Inr (bs, False)), w')"
        by (auto simp: Pair step rows Let_def daily_ends_def pb split: if_splits)
      from Suc.IH [OF this] obtain ps where
        ps: "page_walk (daily_served f shcode sd ed) (daily_ends build lo hi) (page + 1) (trim (dg_cts_date r))
          (trim (dg_cts_date r) # seen) w1 ps w'" "length ps \<le> left"
          "bs = (bars @ new) @ concat (map (page_bars build lo hi) ps)" by blast
      have "page_walk (daily_served f shcode sd ed) (daily_ends build lo hi) page cts seen w (r # ps) w'"
        by (rule page_walk.more_pages) (fact srv, fact False, fact ps(1))
      with ps(2,3) show ?thesis by (intro exI [of _ "r # ps"]) (simp add: pb)
    qed
  qed
qed simp

text \<open>
  When the daily collector returns bars, they are the in-window bars of every page of one cursor
  walk that ended before the page cap (with an exhausted or repeated cursor, an empty page or a row
  below the window), in ascending time and inside the window bounded by each end's own close.\<close>

theorem collected_daily_bars_are_the_walk:
  assumes "collect_daily e f shcode bar_type sdate edate w = (Val (TripleBars bs), w')"
  shows "\<exists>a b lo hi ps. parse_yyyymmdd e ''sdate'' sdate = Inr a \<and> parse_yyyymmdd e ''edate'' edate = Inr b \<and>
    lo = kst_nanos a (session_close a) \<and> hi = kst_nanos b (session_close b) \<and>
    page_walk (daily_served f shcode sdate edate) (daily_ends (build_daily_bar e bar_type) lo hi) 0 [] [] w ps w' \<and>
    length ps \<le> MAX_DAILY_PAGES \<and>
    bs = sort_key br_init (concat (map (page_bars (build_daily_bar e bar_type) lo hi) ps)) \<and> bs \<noteq> [] \<and>
    sorted (map br_init bs) \<and> list_all (\<lambda>x. lo \<le> br_init x \<and> br_init x \<le> hi) bs"
proof -
  have kst: "kst_to_unix_nanos e d t = Inr n \<Longrightarrow> n = kst_nanos d t" for d t n
    by (auto simp: kst_to_unix_nanos_def Let_def split: if_splits)
  from assms obtain a b lo hi where p: "parse_yyyymmdd e ''sdate'' sdate = Inr a" "parse_yyyymmdd e ''edate'' edate = Inr b"
      "kst_to_unix_nanos e a (session_close a) = Inr lo" "kst_to_unix_nanos e b (session_close b) = Inr hi"
    by (auto simp: collect_daily_def io_bind_def io_of_def split: io.splits sum.splits prod.splits if_splits)
  note k = kst [OF p(3)] kst [OF p(4)]
  let ?walk = "daily_walk (build_daily_bar e bar_type) f shcode sdate edate lo hi 0 MAX_DAILY_PAGES [] [] [] w"
  from assms p obtain bars where walk: "?walk = (Val (Inr (bars, False)), w')" and bs: "bs = sort_key br_init bars" "bars \<noteq> []"
    by (auto simp: collect_daily_def io_bind_def io_of_def split: io.splits sum.splits prod.splits if_splits)
  from daily_walk_is_walk [OF walk] obtain ps where ps:
    "page_walk (daily_served f shcode sdate edate) (daily_ends (build_daily_bar e bar_type) lo hi) 0 [] [] w ps w'"
    "length ps \<le> MAX_DAILY_PAGES" "bars = concat (map (page_bars (build_daily_bar e bar_type) lo hi) ps)" by auto
  have "\<forall>x\<in>set bars. lo \<le> br_init x \<and> br_init x \<le> hi" using daily_walk_inside [OF walk] by simp
  then have "list_all (\<lambda>x. lo \<le> br_init x \<and> br_init x \<le> hi) bs" by (simp add: bs list_all_iff)
  moreover have "bs \<noteq> []" using bs by (metis length_0_conv length_sort)
  ultimately show ?thesis
    using p(1,2) ps bs(1)
    by (intro exI [of _ a] exI [of _ b] exI [of _ lo] exI [of _ hi] exI [of _ ps]) (simp flip: k)
qed

section \<open>Frames\<close>

text \<open>What a fetcher leaves alone, the loops over it leave alone.\<close>

definition daily_frame :: "('w \<Rightarrow> 'x) \<Rightarrow> 'w daily_fetcher \<Rightarrow> bool" where
  "daily_frame fr f \<longleftrightarrow> (\<forall>w a b c d r w'. dx_fetch f w a b c d = (r, w') \<longrightarrow> fr w' = fr w)"

definition minute_frame :: "('w \<Rightarrow> 'x) \<Rightarrow> 'w minute_fetcher \<Rightarrow> bool" where
  "minute_frame fr f \<longleftrightarrow> (\<forall>w a b c d r w'. mx_fetch f w a b c d = (r, w') \<longrightarrow> fr w' = fr w)"

lemma page_loop_frame:
  assumes "daily_frame fr f" and "daily_page_loop f shcode sd ed cts page n w = (r, w')"
  shows "fr w' = fr w"
  using assms
proof (induction "MAX_THROTTLE_RETRIES - n" arbitrary: n w rule: less_induct)
  case less
  obtain x w1 where f: "dx_fetch f w shcode sd ed cts = (x, w1)" by (cases "dx_fetch f w shcode sd ed cts")
  then have w1: "fr w1 = fr w" using less.prems(1) unfolding daily_frame_def by blast
  have ih: "fr w' = fr w1" if "n < MAX_THROTTLE_RETRIES" "daily_page_loop f shcode sd ed cts page (n + 1) w1 = (r, w')"
    using less.hyps [OF _ less.prems(1) that(2)] that(1) by simp
  show ?case
    using less.prems(2) ih w1
    by (subst (asm) daily_page_loop.simps) (auto simp: f split: sum.splits if_splits)
qed

lemma daily_walk_frame:
  assumes "daily_frame fr f" and "daily_walk build f shcode sd ed lo hi page left cts seen bars w = (r, w')"
  shows "fr w' = fr w"
  using assms(2)
proof (induction left arbitrary: page cts seen bars w)
  case (Suc left)
  show ?case
  proof (cases "daily_page_loop f shcode sd ed cts page 0 w")
    case (Pair step w1)
    with page_loop_frame [OF assms(1)] have "fr w1 = fr w" by blast
    with Suc.prems show ?thesis
      by (auto simp: Pair Let_def split: page_step.splits io.splits if_splits dest!: Suc.IH)
  qed
qed simp

lemma collect_daily_frame:
  assumes "daily_frame fr f" and "collect_daily e f shcode bar_type sd ed w = (r, w')"
  shows "fr w' = fr w"
  using assms(2)
  by (auto simp: collect_daily_def split: io.splits sum.splits prod.splits dest!: daily_walk_frame [OF assms(1)])

lemma minute_loop_frame:
  assumes "minute_frame fr f" and "minute_loop env build f shcode ncnt queue chunk n gap bars w = (r, w')"
  shows "fr w' = fr w"
  using assms
proof (induction env build f shcode ncnt queue chunk n gap bars w rule: minute_loop.induct)
  case (2 env build f shcode ncnt s e queue chunk n gap bars w)
  obtain x w1 where f: "mx_fetch f w shcode ncnt (ymd_format (be_ymd env) s) (ymd_format (be_ymd env) e) = (x, w1)"
    by (cases "mx_fetch f w shcode ncnt (ymd_format (be_ymd env) s) (ymd_format (be_ymd env) e)")
  then have w1: "fr w1 = fr w" using "2.prems"(1) unfolding minute_frame_def by blast
  show ?case
  proof (cases x)
    case (Inr pages)
    with "2.prems" w1 show ?thesis
      by (auto simp: minute_loop.simps(2) f simp del: One_nat_def add_Suc_right split: io.splits
          dest!: "2.IH"(7) [OF f [symmetric] Inr])
  next
    case (Inl err)
    note ih = "2.IH"(1-6) [OF f [symmetric] Inl]
    note eq = trans [OF minute_loop.simps(2) [symmetric] "2.prems"(2), unfolded f prod.case Inl sum.case]
    note fm = "2.prems"(1)
    show ?thesis
    proof (cases "is_pagination_limit err")
      case True
      with eq fm w1 ih(1,2) show ?thesis by (cases "requeue_halves queue s e") simp_all
    next
      case pl: False
      show ?thesis
      proof (cases "is_code ''IGW00201'' err")
        case True
        with eq pl fm w1 ih(3,4,5) show ?thesis
          by (cases "MAX_THROTTLE_RETRIES \<le> n"; cases "requeue_halves queue s e") simp_all
      next
        case False
        with eq pl fm w1 ih(6) show ?thesis by (cases "is_code ''01715'' err") simp_all
      qed
    qed
  qed
qed simp

lemma collect_minute_frame:
  assumes "minute_frame fr f" and "collect_minute e f shcode n bar_type sd ed w = (r, w')"
  shows "fr w' = fr w"
  using assms(2)
  by (auto simp: collect_minute_def split: io.splits sum.splits prod.splits dest!: minute_loop_frame [OF assms(1)])

lemma dispatch_more: "fetch_world.more (note_if_throttled k r (record_dispatch k w)) = fetch_world.more w"
  by (simp add: note_if_throttled_def record_dispatch_def split: sum.splits ls_error.splits)

lemma minute_pages_more: "minute_pages k left req seen pages w = (r, w') \<Longrightarrow> fetch_world.more w' = fetch_world.more w"
proof (induction left arbitrary: req seen pages w)
  case (Suc left)
  show ?case
    using Suc.prems by (auto simp: Let_def dispatch_more split: sum.splits if_splits dest!: Suc.IH)
qed simp

lemma sdk_daily_frame: "daily_frame fetch_world.more (sdk_daily k)"
  by (auto simp: daily_frame_def sdk_daily_def sdk_daily_page_def Let_def dispatch_more)

lemma sdk_minute_frame: "minute_frame fetch_world.more (sdk_minute k)"
  by (auto simp: minute_frame_def sdk_minute_def sdk_minute_chunk_def dest: minute_pages_more)

end
