(* ===== verification/Ingest_Windows.thy ===== *)
theory Ingest_Windows
  imports Ingest_Bars
begin

text \<open>
  Calendar-snapped windows: the depth walk (\<open>adapters/nautilus/src/reference/pit_walk.rs\<close>) that
  partitions a range into windows of proven sessions and screens a symbol's listing, and the
  windowed pull and plan of a backfill (\<open>adapters/nautilus/src/ingest/backfill.rs\<close>).
\<close>

section \<open>The frozen walk set\<close>

datatype cap_tier = CapTop | CapMid | CapBelowBoard

record capture_record =
  cr_shcode :: string
  cr_market :: market
  cr_tier :: cap_tier

record frozen_member =
  fm_shcode :: string
  fm_market :: market
  fm_tier :: cap_tier

record frozen_set =
  fs_members :: "frozen_member list"
  fs_source :: string
  fs_preferred :: "string list"
  fs_malformed :: "string list"

definition six_digits :: "string \<Rightarrow> bool" where
  "six_digits s = (length s = 6 \<and> list_all is_digit s)"

definition freeze_walk_set :: "string \<Rightarrow> capture_record list \<Rightarrow> frozen_set" where
  "freeze_walk_set content_hash records =
     (let board = filter (\<lambda>r. cr_tier r = CapTop \<or> cr_tier r = CapMid) records;
          coded = filter (\<lambda>r. six_digits (trim (cr_shcode r))) board;
          code = (\<lambda>r. trim (cr_shcode r))
      in \<lparr>fs_members = sort_key fm_shcode
            (map (\<lambda>r. \<lparr>fm_shcode = code r, fm_market = cr_market r, fm_tier = cr_tier r\<rparr>)
              (filter (\<lambda>r. code r ! 5 = CHR ''0'') coded)),
          fs_source = content_hash,
          fs_preferred = sort (map code (filter (\<lambda>r. code r ! 5 \<noteq> CHR ''0'') coded)),
          fs_malformed = sort (map code (filter (\<lambda>r. \<not> six_digits (code r)) board))\<rparr>)"

section \<open>Windows\<close>

record session_window =
  ww_sdate :: int
  ww_edate :: int
  ww_sessions :: nat

record range_sessions =
  rs_windows :: "session_window list"
  rs_sessions :: "int list"
  rs_unknown :: nat

definition MAX_SESSIONS_PER_WINDOW :: nat where "MAX_SESSIONS_PER_WINDOW = 450"
definition MIN_SESSIONS_PER_WINDOW :: nat where "MIN_SESSIONS_PER_WINDOW = 2"
definition MAX_WALK_PAGES :: nat where "MAX_WALK_PAGES = 64"
definition WALK_THROTTLE_RETRIES :: nat where "WALK_THROTTLE_RETRIES = 8"

text \<open>The text of an error is built from values the caller prints; the parameters \<open>show\<close> give it.\<close>

record walk_text =
  wt_query :: "query_error \<Rightarrow> string"
  wt_date :: "int \<Rightarrow> string"
  wt_error :: "adapter_error \<Rightarrow> string"
  wt_quoted :: "string \<Rightarrow> string"
  wt_parse :: "string \<Rightarrow> string"

definition q_err :: "walk_text \<Rightarrow> query_error \<Rightarrow> adapter_error" where
  "q_err t x = Ingest (''pit-walk calendar query: '' @ wt_query t x)"

fun chunks :: "nat \<Rightarrow> 'a list \<Rightarrow> 'a list list" where
  "chunks 0 xs = []"
| "chunks (Suc n) [] = []"
| "chunks (Suc n) (x # xs) = take (Suc n) (x # xs) # chunks (Suc n) (drop n xs)"

definition window_of :: "int list \<Rightarrow> session_window" where
  "window_of c = \<lparr>ww_sdate = hd c, ww_edate = last c, ww_sessions = length c\<rparr>"

text \<open>The loop from \<open>d\<close> to the anchor: the proven sessions and the number of unknown days.\<close>

function session_walk :: "walk_text \<Rightarrow> as_of_view \<Rightarrow> int \<Rightarrow> int \<Rightarrow> adapter_error + int list \<times> nat" where
  "session_walk t v d anchor =
     (case view_day v d of
        Inl x \<Rightarrow> Inl (q_err t x)
      | Inr f \<Rightarrow>
          (let here = (if df_status f = DayTradingSession then [d] else []);
               unknown = (if df_status f = DayUnknown then 1 else 0)
           in if anchor \<le> d then Inr (here, unknown)
              else case succ_opt d of
                  None \<Rightarrow> Inl (Ingest ''pit-walk range: date overflow walking to anchor'')
                | Some n \<Rightarrow>
                    (case session_walk t v n anchor of
                       Inl x \<Rightarrow> Inl x
                     | Inr (days, u) \<Rightarrow> Inr (here @ days, unknown + u))))"
  by pat_completeness auto
termination
  by (relation "measure (\<lambda>(t, v, d, a). nat (a - d))") (auto simp: succ_opt_def split: if_splits)

declare session_walk.simps [simp del]

definition partition_windows :: "walk_text \<Rightarrow> as_of_view \<Rightarrow> int \<Rightarrow> int \<Rightarrow> nat \<Rightarrow> adapter_error + range_sessions" where
  "partition_windows t v floor anchor max_sessions =
     (if anchor < floor
      then Inl (Ingest (''pit-walk range: floor '' @ wt_date t floor @ '' is after anchor '' @ wt_date t anchor))
      else case session_walk t v floor anchor of
          Inl x \<Rightarrow> Inl x
        | Inr (days, unknown) \<Rightarrow>
            Inr \<lparr>rs_windows = map window_of (chunks (max max_sessions 1) days), rs_sessions = days,
                 rs_unknown = unknown\<rparr>)"

definition heal_windows :: "walk_text \<Rightarrow> calendar_gate \<Rightarrow> int \<Rightarrow> int \<Rightarrow> adapter_error + session_window list option" where
  "heal_windows t g floor through =
     (case g of
        None \<Rightarrow> Inr None
      | Some v \<Rightarrow>
          map_sum (\<lambda>x. x) (\<lambda>r. Some (rs_windows r)) (partition_windows t v floor through MAX_SESSIONS_PER_WINDOW))"

definition em_dash :: string where "em_dash = utf8 [226, 128, 148]"

definition status_name :: "day_status \<Rightarrow> string" where
  "status_name s =
     (case s of DayTradingSession \<Rightarrow> ''TradingSession'' | DayClosed \<Rightarrow> ''Closed'' | DayUnknown \<Rightarrow> ''Unknown'')"

definition resolve_anchor :: "walk_text \<Rightarrow> as_of_view \<Rightarrow> int \<Rightarrow> int \<Rightarrow> int option \<Rightarrow> adapter_error + int" where
  "resolve_anchor t v floor last_day explicit =
     (case explicit of
        Some d \<Rightarrow>
          if d < floor \<or> last_day < d
          then Inl (Ingest (''pit-walk anchor '' @ wt_date t d @ '' is outside ['' @ wt_date t floor @ '', '' @
            wt_date t last_day @ ''] '' @ em_dash @ '' an explicit anchor cannot reach past the run date''))
          else (case view_day v d of
              Inl x \<Rightarrow> Inl (q_err t x)
            | Inr f \<Rightarrow>
                if df_status f = DayTradingSession then Inr d
                else Inl (Ingest (''pit-walk anchor '' @ wt_date t d @ '' is '' @ status_name (df_status f) @
                  '', not a proven Trading Session '' @ em_dash @ '' pass a proven session'')))
      | None \<Rightarrow>
          (case range_inclusive floor last_day of
             Inl x \<Rightarrow> Inl (q_err t x)
           | Inr rg \<Rightarrow>
               (case last_session v rg of
                  Inl x \<Rightarrow> Inl (q_err t x)
                | Inr (Found d) \<Rightarrow> Inr d
                | Inr IndeterminateSearch \<Rightarrow>
                    Inl (Ingest (''pit-walk anchor: an Unknown day blocks the backward scan from '' @ wt_date t last_day @
                      '' '' @ em_dash @ '' run after the session witness lands, or pass an explicit proven-session anchor''))
                | Inr NoSession \<Rightarrow>
                    Inl (Ingest (''pit-walk anchor: no proven Trading Session in ['' @ wt_date t floor @ '', '' @
                      wt_date t last_day @ '']'')))))"

section \<open>The fail-closed cursor walk\<close>

record walk_error =
  we_calls :: nat
  we_error :: adapter_error

record page_record =
  pr_page :: nat
  pr_rows :: nat
  pr_first :: "int option"
  pr_last :: "int option"
  pr_rec_count :: string
  pr_cursor :: string

record window_walk =
  wk_dates :: "int list"
  wk_pages :: "page_record list"
  wk_calls :: nat
  wk_below :: bool

text \<open>A page with its bounded throttle retries: the answer, the calls made and the fetcher's state.\<close>

function walk_page_loop ::
  "'w daily_fetcher \<Rightarrow> string \<Rightarrow> string \<Rightarrow> string \<Rightarrow> string \<Rightarrow> nat \<Rightarrow> nat \<Rightarrow> 'w \<Rightarrow> (adapter_error + daily_page) \<times> nat \<times> 'w" where
  "walk_page_loop f shcode sd ed cts calls throttle_retries w =
     (case dx_fetch f w shcode sd ed cts of
        (Inr r, w') \<Rightarrow> (Inr r, calls + 1, w')
      | (Inl e, w') \<Rightarrow>
          if is_code ''IGW00201'' e \<and> throttle_retries < WALK_THROTTLE_RETRIES
          then walk_page_loop f shcode sd ed cts (calls + 1) (throttle_retries + 1) w'
          else (Inl e, calls + 1, w'))"
  by pat_completeness auto
termination
  by (relation "measure (\<lambda>(f, s, sd, ed, c, k, n, w). WALK_THROTTLE_RETRIES - n)") auto

declare walk_page_loop.simps [simp del]

fun row_dates :: "walk_text \<Rightarrow> bar_env \<Rightarrow> t8410_row list \<Rightarrow> adapter_error + int list" where
  "row_dates t e [] = Inr []"
| "row_dates t e (r # rs) =
     (case parse_ymd (be_ymd e) (d8_date r) of
        None \<Rightarrow> Inl (Ingest (''pit-walk: unparseable row date '' @ wt_quoted t (d8_date r) @ '': '' @ be_ymd_error e (trim (d8_date r))))
      | Some d \<Rightarrow> map_sum (\<lambda>x. x) (\<lambda>ds. d # ds) (row_dates t e rs))"

definition min_date :: "int list \<Rightarrow> int option" where
  "min_date ds = (if ds = [] then None else Some (Min (set ds)))"

definition max_date :: "int list \<Rightarrow> int option" where
  "max_date ds = (if ds = [] then None else Some (Max (set ds)))"

definition walk_title :: "string \<Rightarrow> string \<Rightarrow> string \<Rightarrow> string \<Rightarrow> string" where
  "walk_title what shcode sd ed = what @ '' '' @ shcode @ '' ['' @ sd @ ''..'' @ ed @ '']''"

definition zero_row_error :: "string \<Rightarrow> adapter_error" where
  "zero_row_error title =
     Ingest (title @ '': zero-row page with a live cursor (suspect truncation '' @ em_dash @
       '' the gateway serves transiently empty pages; re-run)'')"

definition repeated_cursor_error :: "walk_text \<Rightarrow> string \<Rightarrow> string \<Rightarrow> adapter_error" where
  "repeated_cursor_error t title cur =
     Ingest (title @ '': repeated cursor '' @ wt_quoted t cur @ '' (suspect truncation)'')"

definition page_cap_error :: "string \<Rightarrow> nat \<Rightarrow> adapter_error" where
  "page_cap_error title max_pages =
     Ingest (title @ '': page cap '' @ show_nat max_pages @ '' exhausted with a live cursor'')"

fun walk_pages ::
  "walk_text \<Rightarrow> bar_env \<Rightarrow> 'w daily_fetcher \<Rightarrow> string \<Rightarrow> int \<Rightarrow> int \<Rightarrow> nat \<Rightarrow> nat \<Rightarrow> nat \<Rightarrow> string \<Rightarrow> string list \<Rightarrow>
   window_walk \<Rightarrow> 'w \<Rightarrow> (walk_error + window_walk) \<times> 'w" where
  "walk_pages t e f shcode sdate edate max_pages page 0 cts seen walk w =
     (Inl \<lparr>we_calls = wk_calls walk, we_error =
        page_cap_error (walk_title ''pit-walk'' shcode (ymd_format (be_ymd e) sdate) (ymd_format (be_ymd e) edate)) max_pages\<rparr>, w)"
| "walk_pages t e f shcode sdate edate max_pages page (Suc left) cts seen walk w =
     (let sd = ymd_format (be_ymd e) sdate; ed = ymd_format (be_ymd e) edate; title = walk_title ''pit-walk'' shcode sd ed
      in case walk_page_loop f shcode sd ed cts (wk_calls walk) 0 w of
           (Inl x, calls, w') \<Rightarrow>
             (Inl \<lparr>we_calls = calls, we_error =
                Ingest (title @ '' page '' @ show_nat (page + 1) @ '': '' @ wt_error t x)\<rparr>, w')
         | (Inr r, calls, w') \<Rightarrow>
             (case row_dates t e (dg_rows r) of
                Inl x \<Rightarrow> (Inl \<lparr>we_calls = calls, we_error = x\<rparr>, w')
              | Inr dates \<Rightarrow>
                  (let next_cts = trim (dg_cts_date r);
                       walk' = walk \<lparr>wk_calls := calls,
                         wk_pages := wk_pages walk @ [\<lparr>pr_page = page + 1, pr_rows = length dates,
                           pr_first = min_date dates, pr_last = max_date dates,
                           pr_rec_count = trim (dg_rec_count r), pr_cursor = next_cts\<rparr>],
                         wk_dates := wk_dates walk @ filter (\<lambda>d. sdate \<le> d \<and> d \<le> edate) dates,
                         wk_below := wk_below walk \<or> list_ex (\<lambda>d. d < sdate) dates\<rparr>
                   in if wk_below walk' then (Inr walk', w')
                      else if next_cts = [] then (Inr walk', w')
                      else if dg_rows r = [] then (Inl \<lparr>we_calls = calls, we_error = zero_row_error title\<rparr>, w')
                      else if next_cts \<in> set seen
                        then (Inl \<lparr>we_calls = calls, we_error = repeated_cursor_error t title next_cts\<rparr>, w')
                      else walk_pages t e f shcode sdate edate max_pages (page + 1) left next_cts (next_cts # seen) walk' w')))"

definition walk_window ::
  "walk_text \<Rightarrow> bar_env \<Rightarrow> 'w daily_fetcher \<Rightarrow> string \<Rightarrow> int \<Rightarrow> int \<Rightarrow> nat \<Rightarrow> 'w \<Rightarrow> (walk_error + window_walk) \<times> 'w" where
  "walk_window t e f shcode sdate edate max_pages w =
     walk_pages t e f shcode sdate edate max_pages 0 (max max_pages 1) [] []
       \<lparr>wk_dates = [], wk_pages = [], wk_calls = 0, wk_below = False\<rparr> w"

section \<open>Screening\<close>

datatype listing_outcome = PreFloor | Listed int | NoServedRows nat

record symbol_walk =
  sy_outcome :: listing_outcome
  sy_calls :: nat
  sy_pages :: nat

fun screen_loop ::
  "walk_text \<Rightarrow> bar_env \<Rightarrow> 'w daily_fetcher \<Rightarrow> string \<Rightarrow> nat \<Rightarrow> nat \<Rightarrow> nat \<Rightarrow> session_window list \<Rightarrow> 'w \<Rightarrow> (walk_error + symbol_walk) \<times> 'w" where
  "screen_loop t e f shcode i calls pages [] w =
     (Inr \<lparr>sy_outcome = NoServedRows i, sy_calls = calls, sy_pages = pages\<rparr>, w)"
| "screen_loop t e f shcode i calls pages (x # xs) w =
     (case walk_window t e f shcode (ww_sdate x) (ww_edate x) MAX_WALK_PAGES w of
        (Inl we, w') \<Rightarrow> (Inl (we \<lparr>we_calls := calls + we_calls we\<rparr>), w')
      | (Inr wk, w') \<Rightarrow>
          (let calls' = calls + wk_calls wk; pages' = pages + length (wk_pages wk)
           in case min_date (wk_dates wk) of
                Some d \<Rightarrow>
                  (Inr \<lparr>sy_outcome = (if i = 0 \<and> d = ww_sdate x then PreFloor else Listed d),
                        sy_calls = calls', sy_pages = pages'\<rparr>, w')
              | None \<Rightarrow> screen_loop t e f shcode (i + 1) calls' pages' xs w'))"

definition screen_symbol ::
  "walk_text \<Rightarrow> bar_env \<Rightarrow> 'w daily_fetcher \<Rightarrow> string \<Rightarrow> session_window list \<Rightarrow> 'w \<Rightarrow> (walk_error + symbol_walk) \<times> 'w" where
  "screen_symbol t e f shcode windows w = screen_loop t e f shcode 0 0 0 windows w"

section \<open>The backfill plan\<close>

record symbol_plan =
  sl_shcode :: string
  sl_start :: int
  sl_windows :: "session_window list"
  sl_expected :: nat

record walk_manifest =
  wm_floor :: int
  wm_anchor :: int
  wm_windows :: "session_window list"
  wm_proven :: nat
  wm_symbols :: "(string \<times> listing_outcome) list"
  wm_restricted :: bool
  wm_derived :: bool
  wm_failed :: nat

record backfill_plan =
  bp_floor :: int
  bp_anchor :: int
  bp_path :: string
  bp_hash :: string
  bp_symbols :: "symbol_plan list"
  bp_excluded :: "string list"
  bp_range :: range_sessions

definition plan_symbol :: "backfill_plan \<Rightarrow> string \<Rightarrow> symbol_plan option" where
  "plan_symbol p shcode = find (\<lambda>s. sl_shcode s = shcode) (bp_symbols p)"

text \<open>Reading and parsing the artifact is the caller's.\<close>

definition load_manifest :: "string \<Rightarrow> string + walk_manifest \<Rightarrow> adapter_error + walk_manifest" where
  "load_manifest path parsed =
     (case parsed of
        Inl m \<Rightarrow> Inl (Ingest (''backfill manifest '' @ path @ '': '' @ m))
      | Inr a \<Rightarrow>
          if wm_restricted a
          then Inl (Ingest (''backfill manifest '' @ path @ '' is from a RESTRICTED walk (LS_PIT_SYMBOLS) '' @ em_dash @
            '' it describes a symbol subset, not the frozen pit universe; supply the full artifact''))
          else if \<not> wm_derived a
          then Inl (Ingest (''backfill manifest '' @ path @ '' carries `derived: null` '' @ em_dash @
            '' the walk was incomplete or its derivation failed, so its membership is not the frozen pit universe; '' @
            ''complete the walk (or run `pit-universe-walk derive`) first''))
          else if wm_failed a \<noteq> 0
          then Inl (Ingest (''backfill manifest '' @ path @ '' records '' @ show_nat (wm_failed a) @
            '' failed walks '' @ em_dash @
            '' an incomplete membership must never seed a catalog; re-run the failures and merge''))
          else Inr a)"

definition verify_windows :: "walk_text \<Rightarrow> as_of_view \<Rightarrow> walk_manifest \<Rightarrow> adapter_error + range_sessions" where
  "verify_windows t v a =
     (case partition_windows t v (wm_floor a) (wm_anchor a) MAX_SESSIONS_PER_WINDOW of
        Inl x \<Rightarrow> Inl x
      | Inr r \<Rightarrow>
          if rs_windows r \<noteq> wm_windows a
          then Inl (Ingest (''backfill window plan disagrees with the manifest's provenance: the calendar snapshot now yields '' @
            show_nat (length (rs_windows r)) @ '' windows over ['' @ wt_date t (wm_floor a) @ '', '' @ wt_date t (wm_anchor a) @
            ''] ('' @ show_nat (length (rs_sessions r)) @ '' proven sessions) vs the artifact's '' @
            show_nat (length (wm_windows a)) @ '' windows ('' @ show_nat (wm_proven a) @ '' proven sessions) '' @ em_dash @
            '' the snapshot changed since the walk. Fail closed: re-walk, or pin the walk-time snapshot. NEVER re-derive silently.''))
          else (case find (\<lambda>x. ww_sessions x < MIN_SESSIONS_PER_WINDOW) (rs_windows r) of
              Some x \<Rightarrow>
                Inl (Ingest (''backfill window plan contains a '' @ show_nat (ww_sessions x) @ ''-session window ['' @
                  wt_date t (ww_sdate x) @ ''..'' @ wt_date t (ww_edate x) @ ''] '' @ em_dash @
                  '' a single-session t8410 request ignores `sdate` and serves an out-of-window page; refusing to plan''))
            | None \<Rightarrow> Inr r))"

definition range_start :: "listing_outcome \<Rightarrow> int \<Rightarrow> int option" where
  "range_start oc floor =
     (case oc of PreFloor \<Rightarrow> Some floor | Listed d \<Rightarrow> Some (max d floor) | NoServedRows _ \<Rightarrow> None)"

definition kept_windows :: "range_sessions \<Rightarrow> int \<Rightarrow> session_window list" where
  "kept_windows r start =
     filter (\<lambda>x. ww_sessions x \<noteq> 0)
       (map (\<lambda>x. let s = max (ww_sdate x) start
                 in \<lparr>ww_sdate = s, ww_edate = ww_edate x,
                     ww_sessions = length (filter (\<lambda>d. s \<le> d \<and> d \<le> ww_edate x) (rs_sessions r))\<rparr>)
         (filter (\<lambda>x. start \<le> ww_edate x) (rs_windows r)))"

fun index_of :: "'a \<Rightarrow> 'a list \<Rightarrow> nat option" where
  "index_of x [] = None"
| "index_of x (y # ys) = (if x = y then Some 0 else map_option Suc (index_of x ys))"

definition plan_symbol_windows :: "walk_text \<Rightarrow> range_sessions \<Rightarrow> int \<Rightarrow> int \<Rightarrow> adapter_error + session_window list" where
  "plan_symbol_windows t r start anchor =
     (case kept_windows r start of
        [] \<Rightarrow> Inl (Ingest (''backfill plan: no window covers ['' @ wt_date t start @ '', '' @ wt_date t anchor @ ''] '' @ em_dash @
          '' the symbol's range start is above the anchor''))
      | first # rest \<Rightarrow>
          if MIN_SESSIONS_PER_WINDOW \<le> ww_sessions first then Inr (first # rest)
          else (case index_of (ww_sdate first) (rs_sessions r) of
              None \<Rightarrow> Inl (Ingest (''backfill plan: window start '' @ wt_date t (ww_sdate first) @ '' is not a proven Trading Session''))
            | Some idx \<Rightarrow>
                (let extra = MIN_SESSIONS_PER_WINDOW - ww_sessions first
                 in if idx < extra
                    then Inl (Ingest (''backfill plan: cannot widen the '' @ show_nat (ww_sessions first) @ ''-session window ending '' @
                      wt_date t (ww_edate first) @ '' to '' @ show_nat MIN_SESSIONS_PER_WINDOW @ '' sessions '' @ em_dash @
                      '' the range holds too few proven sessions below it; a single-session request would be mis-served''))
                    else Inr (first \<lparr>ww_sdate := rs_sessions r ! (idx - extra),
                                     ww_sessions := ww_sessions first + extra\<rparr> # rest))))"

fun plan_symbols ::
  "walk_text \<Rightarrow> range_sessions \<Rightarrow> int \<Rightarrow> int \<Rightarrow> (string \<times> listing_outcome) list \<Rightarrow> adapter_error + symbol_plan list \<times> string list" where
  "plan_symbols t r floor anchor [] = Inr ([], [])"
| "plan_symbols t r floor anchor ((shcode, oc) # xs) =
     (case range_start oc floor of
        None \<Rightarrow> map_sum (\<lambda>x. x) (\<lambda>(ps, ex). (ps, shcode # ex)) (plan_symbols t r floor anchor xs)
      | Some start \<Rightarrow>
          (case plan_symbol_windows t r start anchor of
             Inl x \<Rightarrow> Inl x
           | Inr ws \<Rightarrow>
               map_sum (\<lambda>x. x) (\<lambda>(ps, ex).
                   (\<lparr>sl_shcode = shcode, sl_start = start, sl_windows = ws,
                     sl_expected = length (filter (\<lambda>d. start \<le> d) (rs_sessions r))\<rparr> # ps, ex))
                 (plan_symbols t r floor anchor xs)))"

definition build_plan :: "walk_text \<Rightarrow> as_of_view \<Rightarrow> walk_manifest \<Rightarrow> string \<Rightarrow> string \<Rightarrow> adapter_error + backfill_plan" where
  "build_plan t v a path content_hash =
     (case verify_windows t v a of
        Inl x \<Rightarrow> Inl x
      | Inr r \<Rightarrow>
          (case plan_symbols t r (wm_floor a) (wm_anchor a) (wm_symbols a) of
             Inl x \<Rightarrow> Inl x
           | Inr (ps, ex) \<Rightarrow>
               if ps = []
               then Inl (Ingest (''backfill manifest '' @ path @ '' plans zero symbols '' @ em_dash @
                 '' every member reads `no_served_rows`; refusing to seed an empty catalog''))
               else Inr \<lparr>bp_floor = wm_floor a, bp_anchor = wm_anchor a, bp_path = path, bp_hash = content_hash,
                         bp_symbols = ps, bp_excluded = ex, bp_range = r\<rparr>))"

section \<open>The windowed pull\<close>

record window_pull =
  wp_bars :: "price_bar list"
  wp_calls :: nat

text \<open>The page cap is reached after a page whose cursor is alive: the last page of the loop fails.\<close>

fun pull_pages ::
  "walk_text \<Rightarrow> (t8410_row \<Rightarrow> price_bar option io) \<Rightarrow> 'w daily_fetcher \<Rightarrow> string \<Rightarrow> string \<Rightarrow> string \<Rightarrow> int \<Rightarrow> int \<Rightarrow> nat \<Rightarrow>
   nat \<Rightarrow> nat \<Rightarrow> string \<Rightarrow> string list \<Rightarrow> price_bar list \<Rightarrow> nat \<Rightarrow> 'w \<Rightarrow> (walk_error + price_bar list \<times> nat) io \<times> 'w" where
  "pull_pages t build f shcode sd ed lo hi max_pages page 0 cts seen bars calls w = (Val (Inr (bars, calls)), w)"
| "pull_pages t build f shcode sd ed lo hi max_pages page (Suc left) cts seen bars calls w =
     (let title = walk_title ''backfill'' shcode sd ed
      in case walk_page_loop f shcode sd ed cts calls 0 w of
           (Inl x, calls', w') \<Rightarrow>
             (Val (Inl \<lparr>we_calls = calls', we_error =
                Ingest (title @ '' page '' @ show_nat (page + 1) @ '': '' @ wt_error t x)\<rparr>), w')
         | (Inr r, calls', w') \<Rightarrow>
             (case window_rows build lo hi (dg_rows r) of
                Err x \<Rightarrow> (Val (Inl \<lparr>we_calls = calls', we_error = x\<rparr>), w')
              | Panic \<Rightarrow> (Panic, w')
              | Val (new, below) \<Rightarrow>
                  (let next_cts = trim (dg_cts_date r); bars' = bars @ new
                   in if below \<or> next_cts = [] then (Val (Inr (bars', calls')), w')
                      else if dg_rows r = [] then (Val (Inl \<lparr>we_calls = calls', we_error = zero_row_error title\<rparr>), w')
                      else if next_cts \<in> set seen
                        then (Val (Inl \<lparr>we_calls = calls', we_error = repeated_cursor_error t title next_cts\<rparr>), w')
                      else if left = 0
                        then (Val (Inl \<lparr>we_calls = calls', we_error = page_cap_error title max_pages\<rparr>), w')
                      else pull_pages t build f shcode sd ed lo hi max_pages (page + 1) left next_cts (next_cts # seen)
                             bars' calls' w')))"

definition pull_window ::
  "walk_text \<Rightarrow> bar_env \<Rightarrow> 'w daily_fetcher \<Rightarrow> string \<Rightarrow> string \<Rightarrow> session_window \<Rightarrow> nat \<Rightarrow> 'w \<Rightarrow> (walk_error + window_pull) io \<times> 'w" where
  "pull_window t e f shcode bar_type x max_pages w =
     (case kst_to_unix_nanos e (ww_sdate x) (session_close (ww_sdate x)) of
        Inl err \<Rightarrow> (Val (Inl \<lparr>we_calls = 0, we_error = err\<rparr>), w)
      | Inr lo \<Rightarrow>
          (case kst_to_unix_nanos e (ww_edate x) (session_close (ww_edate x)) of
             Inl err \<Rightarrow> (Val (Inl \<lparr>we_calls = 0, we_error = err\<rparr>), w)
           | Inr hi \<Rightarrow>
               (case pull_pages t (build_daily_bar e bar_type) f shcode (ymd_format (be_ymd e) (ww_sdate x))
                       (ymd_format (be_ymd e) (ww_edate x)) lo hi max_pages 0 (max max_pages 1) [] [] [] 0 w of
                  (Val (Inr (bars, calls)), w') \<Rightarrow> (Val (Inr \<lparr>wp_bars = sort_key br_init bars, wp_calls = calls\<rparr>), w')
                | (Val (Inl x), w') \<Rightarrow> (Val (Inl x), w')
                | (Err x, w') \<Rightarrow> (Err x, w')
                | (Panic, w') \<Rightarrow> (Panic, w'))))"

definition reconcile_watermark :: "session_window list \<Rightarrow> (int \<times> int) list \<Rightarrow> int option" where
  "reconcile_watermark windows intervals =
     (if intervals = [] then None
      else let d = kst_date_of (Max (set (map snd intervals)))
           in map_option ww_edate (find (\<lambda>x. ww_sdate x \<le> d \<and> d \<le> ww_edate x) (rev windows)))"

definition reconcile_from_catalog ::
  "'c catalog_api \<Rightarrow> 'c \<Rightarrow> string \<Rightarrow> session_window list \<Rightarrow> int option \<Rightarrow> adapter_error + int option" where
  "reconcile_from_catalog api c bar_type windows wm =
     (case ca_intervals api c bar_type of
        Inl x \<Rightarrow> Inl x
      | Inr intervals \<Rightarrow>
          (case reconcile_watermark windows intervals of
             None \<Rightarrow> Inr None
           | Some d \<Rightarrow> Inr (if (case wm of Some x \<Rightarrow> d \<le> x | None \<Rightarrow> False) then None else Some d)))"

definition remaining_windows :: "session_window list \<Rightarrow> int option \<Rightarrow> session_window list" where
  "remaining_windows windows wm = filter (\<lambda>x. case wm of None \<Rightarrow> True | Some d \<Rightarrow> d < ww_edate x) windows"

definition MAX_BACKFILL_PAGES :: nat where "MAX_BACKFILL_PAGES = MAX_WALK_PAGES"

section \<open>Frames\<close>

lemma walk_loop_frame:
  assumes "daily_frame fr f" and "walk_page_loop f shcode sd ed cts calls n w = (r, k, w')"
  shows "fr w' = fr w"
  using assms
proof (induction "WALK_THROTTLE_RETRIES - n" arbitrary: n calls w rule: less_induct)
  case less
  obtain x w1 where f: "dx_fetch f w shcode sd ed cts = (x, w1)" by (cases "dx_fetch f w shcode sd ed cts")
  then have w1: "fr w1 = fr w" using less.prems(1) unfolding daily_frame_def by blast
  have ih: "fr w' = fr w1" if "n < WALK_THROTTLE_RETRIES" "walk_page_loop f shcode sd ed cts (calls + 1) (n + 1) w1 = (r, k, w')"
    using less.hyps [OF _ less.prems(1) that(2)] that(1) by simp
  show ?case
    using less.prems(2) ih w1
    by (subst (asm) walk_page_loop.simps) (auto simp: f split: sum.splits if_splits)
qed

lemma pull_pages_frame:
  assumes "daily_frame fr f"
    and "pull_pages t build f shcode sd ed lo hi m page left cts seen bars calls w = (r, w')"
  shows "fr w' = fr w"
  using assms(2)
proof (induction left arbitrary: page cts seen bars calls w)
  case (Suc left)
  obtain x k w1 where p: "walk_page_loop f shcode sd ed cts calls 0 w = (x, k, w1)"
    by (cases "walk_page_loop f shcode sd ed cts calls 0 w")
  have w1: "fr w1 = fr w" using walk_loop_frame [OF assms(1) p] .
  show ?case
  proof (cases "\<exists>page' cts' seen' bars' calls'.
      pull_pages t build f shcode sd ed lo hi m page' left cts' seen' bars' calls' w1 = (r, w')")
    case True
    with Suc.IH w1 show ?thesis by metis
  next
    case False
    with Suc.prems have "w' = w1"
      by (auto simp: p Let_def split: sum.splits io.splits if_splits)
    with w1 show ?thesis by simp
  qed
qed simp

lemma pull_window_frame:
  assumes "daily_frame fr f" and "pull_window t e f shcode bar_type x m w = (r, w')"
  shows "fr w' = fr w"
  using assms(2)
  by (auto simp: pull_window_def split: io.splits sum.splits prod.splits dest!: pull_pages_frame [OF assms(1)])

section \<open>The fail-closed pull\<close>

definition closed_served ::
  "'w daily_fetcher \<Rightarrow> string \<Rightarrow> string \<Rightarrow> string \<Rightarrow> nat \<Rightarrow> string \<Rightarrow> 'w \<Rightarrow> daily_page \<Rightarrow> 'w \<Rightarrow> bool" where
  "closed_served f shcode sd ed page cts w r w' =
     (\<exists>calls calls'. walk_page_loop f shcode sd ed cts calls 0 w = (Inr r, calls', w'))"

definition evident_end :: "(t8410_row \<Rightarrow> price_bar option io) \<Rightarrow> int \<Rightarrow> int \<Rightarrow> daily_page \<Rightarrow> string list \<Rightarrow> bool" where
  "evident_end build lo hi r seen = (page_below build lo hi r \<or> trim (dg_cts_date r) = [])"

lemma pull_pages_is_walk:
  assumes "pull_pages t build f shcode sd ed lo hi m page (Suc left) cts seen bars calls w = (Val (Inr (bs, n)), w')"
  shows "\<exists>ps. page_walk (closed_served f shcode sd ed) (evident_end build lo hi) page cts seen w ps w' \<and>
    length ps \<le> Suc left \<and> bs = bars @ concat (map (page_bars build lo hi) ps)"
  using assms
proof (induction left arbitrary: page cts seen bars calls w)
  case 0
  obtain x k w1 where p: "walk_page_loop f shcode sd ed cts calls 0 w = (x, k, w1)"
    by (cases "walk_page_loop f shcode sd ed cts calls 0 w")
  with 0 obtain r where x: "x = Inr r" by (cases x) auto
  with 0 p obtain new below where rows: "window_rows build lo hi (dg_rows r) = Val (new, below)"
    by (cases "window_rows build lo hi (dg_rows r)") auto
  have srv: "closed_served f shcode sd ed page cts w r w1" using p x unfolding closed_served_def by blast
  from 0 have res: "below \<or> trim (dg_cts_date r) = []" "bs = bars @ new" "w' = w1"
    by (auto simp: p x rows Let_def split: if_splits)
  have "page_walk (closed_served f shcode sd ed) (evident_end build lo hi) page cts seen w [r] w1"
    by (rule page_walk.last_page) (fact srv, use res(1) in \<open>simp add: evident_end_def page_below_def rows\<close>)
  with res show ?case by (intro exI [of _ "[r]"]) (simp add: page_bars_def rows)
next
  case (Suc left)
  obtain x k w1 where p: "walk_page_loop f shcode sd ed cts calls 0 w = (x, k, w1)"
    by (cases "walk_page_loop f shcode sd ed cts calls 0 w")
  with Suc.prems obtain r where x: "x = Inr r" by (cases x) auto
  with Suc.prems p obtain new below where rows: "window_rows build lo hi (dg_rows r) = Val (new, below)"
    by (cases "window_rows build lo hi (dg_rows r)") auto
  have srv: "closed_served f shcode sd ed page cts w r w1" using p x unfolding closed_served_def by blast
  have pb: "page_bars build lo hi r = new" "evident_end build lo hi r seen = (below \<or> trim (dg_cts_date r) = [])"
    by (simp_all add: page_bars_def evident_end_def page_below_def rows)
  show ?case
  proof (cases "evident_end build lo hi r seen")
    case True
    with Suc.prems have res: "bs = bars @ new" "w' = w1"
      by (auto simp: p x rows Let_def pb split: if_splits)
    have "page_walk (closed_served f shcode sd ed) (evident_end build lo hi) page cts seen w [r] w1"
      by (rule page_walk.last_page) (fact srv, fact True)
    with res show ?thesis by (intro exI [of _ "[r]"]) (simp add: pb)
  next
    case False
    with Suc.prems have "pull_pages t build f shcode sd ed lo hi m (page + 1) (Suc left) (trim (dg_cts_date r))
        (trim (dg_cts_date r) # seen) (bars @ new) k w1 = (Val (Inr (bs, n)), w')"
      by (subst (asm) pull_pages.simps(2)) (auto simp: p x rows Let_def pb simp del: pull_pages.simps split: if_splits)
    from Suc.IH [OF this] obtain ps where
      ps: "page_walk (closed_served f shcode sd ed) (evident_end build lo hi) (page + 1) (trim (dg_cts_date r))
        (trim (dg_cts_date r) # seen) w1 ps w'" "length ps \<le> Suc left"
        "bs = (bars @ new) @ concat (map (page_bars build lo hi) ps)" by blast
    have "page_walk (closed_served f shcode sd ed) (evident_end build lo hi) page cts seen w (r # ps) w'"
      by (rule page_walk.more_pages) (fact srv, fact False, fact ps(1))
    with ps(2,3) show ?thesis by (intro exI [of _ "r # ps"]) (simp add: pb)
  qed
qed

text \<open>
  A window pull that completes, empty or not, walked the cursor to unambiguous evidence: its
  last page left the cursor exhausted or reached below the window. A page without rows, a repeated
  cursor and the page cap never complete a window.\<close>

theorem window_completes_on_evidence:
  assumes "pull_window t e f shcode bar_type x m w = (Val (Inr p), w')"
  shows "\<exists>ps. page_walk (closed_served f shcode (ymd_format (be_ymd e) (ww_sdate x)) (ymd_format (be_ymd e) (ww_edate x)))
      (evident_end (build_daily_bar e bar_type) (kst_nanos (ww_sdate x) (session_close (ww_sdate x)))
        (kst_nanos (ww_edate x) (session_close (ww_edate x)))) 0 [] [] w ps w' \<and>
    length ps \<le> max m 1 \<and>
    wp_bars p = sort_key br_init (concat (map (page_bars (build_daily_bar e bar_type)
      (kst_nanos (ww_sdate x) (session_close (ww_sdate x))) (kst_nanos (ww_edate x) (session_close (ww_edate x)))) ps))"
proof -
  have kst: "kst_to_unix_nanos e d t = Inr n \<Longrightarrow> n = kst_nanos d t" for d t n
    by (auto simp: kst_to_unix_nanos_def Let_def split: if_splits)
  from assms obtain lo hi bars n where p:
      "kst_to_unix_nanos e (ww_sdate x) (session_close (ww_sdate x)) = Inr lo"
      "kst_to_unix_nanos e (ww_edate x) (session_close (ww_edate x)) = Inr hi"
      "pull_pages t (build_daily_bar e bar_type) f shcode (ymd_format (be_ymd e) (ww_sdate x))
        (ymd_format (be_ymd e) (ww_edate x)) lo hi m 0 (max m 1) [] [] [] 0 w = (Val (Inr (bars, n)), w')"
      "wp_bars p = sort_key br_init bars"
    by (auto simp: pull_window_def split: sum.splits io.splits prod.splits)
  obtain left where left: "max m 1 = Suc left" by (cases "max m 1") auto
  from pull_pages_is_walk [OF p(3) [unfolded left]] show ?thesis
    unfolding kst [OF p(1), symmetric] kst [OF p(2), symmetric] left p(4) by auto
qed

section \<open>The partition of a range\<close>

lemma concat_chunks: "0 < n \<Longrightarrow> concat (chunks n xs) = xs"
proof (induction n xs rule: chunks.induct)
  case (3 n x xs)
  then show ?case by (simp add: append_take_drop_id [of n xs])
qed simp_all

lemma chunks_infix:
  assumes "c \<in> set (chunks n xs)"
  shows "\<exists>a b. xs = a @ c @ b \<and> c \<noteq> [] \<and> length c \<le> n"
  using assms
proof (induction n xs rule: chunks.induct)
  case (3 n x xs)
  show ?case
  proof (cases "c = take (Suc n) (x # xs)")
    case True
    then show ?thesis
      by (intro exI [of _ "[]"] exI [of _ "drop (Suc n) (x # xs)"]) (simp add: append_take_drop_id)
  next
    case False
    with 3 obtain a b where ab: "drop n xs = a @ c @ b" "c \<noteq> []" "length c \<le> Suc n" by auto
    have "x # xs = (x # take n xs @ a) @ c @ b"
      using ab(1) by (metis append_Cons append_assoc append_take_drop_id)
    with ab show ?thesis by blast
  qed
qed simp_all

lemma infix_filter:
  assumes "sorted_wrt (<) (a @ c @ b)" and "c \<noteq> []"
  shows "filter (\<lambda>d. hd c \<le> d \<and> d \<le> last c) (a @ c @ b) = (c :: int list)"
proof -
  have c: "sorted_wrt (<) c" and ac: "\<forall>x\<in>set a. \<forall>y\<in>set c. x < y" and cb: "\<forall>x\<in>set c. \<forall>y\<in>set b. x < y"
    using assms(1) by (auto simp: sorted_wrt_append)
  have "filter (\<lambda>d. hd c \<le> d \<and> d \<le> last c) a = []"
    using ac assms(2) hd_in_set [OF assms(2)] unfolding filter_empty_conv by (meson not_le)
  moreover have "filter (\<lambda>d. hd c \<le> d \<and> d \<le> last c) b = []"
    using cb assms(2) last_in_set [OF assms(2)] unfolding filter_empty_conv by (meson not_le)
  moreover have "hd c \<le> d \<and> d \<le> last c" if "d \<in> set c" for d
  proof -
    have s: "sorted c" using c by (simp add: strict_sorted_iff)
    from that obtain i where i: "i < length c" "d = c ! i" by (auto simp: in_set_conv_nth)
    from s i assms(2) show ?thesis
      by (simp add: hd_conv_nth last_conv_nth sorted_nth_mono)
  qed
  ultimately show ?thesis by (simp add: filter_id_conv)
qed

lemma session_walk_is:
  assumes "session_walk t v d anchor = Inr (days, unknown)" and "d \<le> anchor" and "calendar_ok (av_calendar v)"
  shows "days = filter (\<lambda>x. known (Some v) x = Some DayTradingSession) [d..anchor] \<and>
    unknown = length (filter (\<lambda>x. known (Some v) x = Some DayUnknown) [d..anchor])"
  using assms(1,2)
proof (induction "nat (anchor - d)" arbitrary: d days unknown)
  have st: "view_day v d = Inr f \<Longrightarrow> known (Some v) d = Some (df_status f)" for d f
    by (auto simp: known_def view_day_is [OF assms(3)] status_on_def resolve_row_def Let_def
        split: if_splits option.splits)
  {
    case 0
    then have "d = anchor" by simp
    with 0 st show ?case
      by (subst (asm) session_walk.simps) (auto simp: Let_def split: sum.splits if_splits)
  next
    case (Suc n)
    then have lt: "d < anchor" by simp
    from Suc.prems(1) lt obtain f where f: "view_day v d = Inr f" by (subst (asm) session_walk.simps) (auto split: sum.splits)
    from Suc.prems(1) lt f obtain days' u' where rest: "session_walk t v (d + 1) anchor = Inr (days', u')"
        "days = (if df_status f = DayTradingSession then [d] else []) @ days'"
        "unknown = (if df_status f = DayUnknown then 1 else 0) + u'"
      by (subst (asm) session_walk.simps) (auto simp: Let_def succ_opt_def split: sum.splits if_splits option.splits)
    from Suc.hyps(1) [OF _ rest(1)] Suc.hyps(2) lt have
      "days' = filter (\<lambda>x. known (Some v) x = Some DayTradingSession) [d + 1..anchor]"
      "u' = length (filter (\<lambda>x. known (Some v) x = Some DayUnknown) [d + 1..anchor])" by auto
    with rest(2,3) st [OF f] lt show ?case by (simp add: upto_rec1 [of d])
  }
qed

lemma sessions_sorted: "sorted_wrt (<) (filter P [a..b])" for a b :: int
  by (simp add: strict_sorted_iff sorted_filter [where f = "\<lambda>x. x", simplified])

text \<open>
  The partition of a range is its proven sessions: every proven trading session of the range and
  nothing else, cut in order into windows of at most the given number of sessions; a window
  starts and ends on a session and holds exactly the sessions of its own cut.\<close>

theorem partition_is_the_proven_sessions:
  assumes "partition_windows t v floor anchor m = Inr r" and "calendar_ok (av_calendar v)"
  shows "rs_sessions r = filter (\<lambda>d. known (Some v) d = Some DayTradingSession) [floor..anchor] \<and>
    rs_unknown r = length (filter (\<lambda>d. known (Some v) d = Some DayUnknown) [floor..anchor]) \<and>
    concat (map (\<lambda>x. filter (\<lambda>d. ww_sdate x \<le> d \<and> d \<le> ww_edate x) (rs_sessions r)) (rs_windows r)) = rs_sessions r \<and>
    list_all (\<lambda>x. ww_sdate x \<in> set (rs_sessions r) \<and> ww_edate x \<in> set (rs_sessions r) \<and>
      ww_sessions x = length (filter (\<lambda>d. ww_sdate x \<le> d \<and> d \<le> ww_edate x) (rs_sessions r)) \<and>
      ww_sessions x \<le> max m 1) (rs_windows r)"
proof -
  from assms(1) obtain days u where w: "floor \<le> anchor" "session_walk t v floor anchor = Inr (days, u)"
      and r: "r = \<lparr>rs_windows = map window_of (chunks (max m 1) days), rs_sessions = days, rs_unknown = u\<rparr>"
    by (auto simp: partition_windows_def split: if_splits sum.splits)
  note d = session_walk_is [OF w(2,1) assms(2)]
  have srt: "sorted_wrt (<) days" using d sessions_sorted by simp
  have own: "filter (\<lambda>x. ww_sdate (window_of c) \<le> x \<and> x \<le> ww_edate (window_of c)) days = c \<and>
      c \<noteq> [] \<and> set c \<subseteq> set days \<and> length c \<le> max m 1"
    if "c \<in> set (chunks (max m 1) days)" for c
  proof -
    from chunks_infix [OF that] obtain a b where ab: "days = a @ c @ b" "c \<noteq> []" "length c \<le> max m 1" by blast
    then show ?thesis using infix_filter [of a c b] srt by (auto simp: window_of_def)
  qed
  have "map (\<lambda>x. filter (\<lambda>d. ww_sdate x \<le> d \<and> d \<le> ww_edate x) days) (map window_of (chunks (max m 1) days)) =
      chunks (max m 1) days"
    using own by (simp add: map_idI)
  moreover have "list_all (\<lambda>x. ww_sdate x \<in> set days \<and> ww_edate x \<in> set days \<and>
      ww_sessions x = length (filter (\<lambda>d. ww_sdate x \<le> d \<and> d \<le> ww_edate x) days) \<and>
      ww_sessions x \<le> max m 1) (map window_of (chunks (max m 1) days))"
    using own by (fastforce simp: list_all_iff window_of_def)
  ultimately show ?thesis using d by (simp add: r concat_chunks)
qed

end
