(* ===== verification/Ingest_Accumulate.thy ===== *)
theory Ingest_Accumulate
  imports Ingest_Windows Scrub
begin

text \<open>
  The ingestor (\<open>Ingestor\<close> of \<open>adapters/nautilus/src/ingest/mod.rs\<close>): range mode, the
  calendar-gated accumulate-forward run with its basis-shift detection and heal, and the epoch
  re-base. The state a run carries is the catalog, the in-memory checkpoint, the checkpoint last
  saved, the spend ledger, the number of gateway calls and the report it builds.
\<close>

section \<open>The report\<close>

record heal_refusal =
  hr_instrument :: string
  hr_bar_type :: string
  hr_floor :: string
  hr_earliest :: string

record append_refusal =
  ar_instrument :: string
  ar_bar_type :: string
  ar_attempted :: string
  ar_stored :: string

record range_refusal =
  rr_instrument :: string
  rr_bar_type :: string
  rr_detected :: string

record widen_warning =
  ew_instrument :: string
  ew_bar_type :: string
  ew_floor :: string
  ew_earliest :: string
  ew_stale :: "bool option"

record budget_deferral =
  bd_instrument :: string
  bd_bar_type :: string
  bd_estimated :: nat
  bd_remaining :: nat

record budget_estimate =
  bu_symbols :: nat
  bu_kinds :: nat
  bu_cap :: nat
  bu_min_requests :: nat

record coverage_report =
  cv_bars :: nat
  cv_ingested :: nat
  cv_skipped :: nat
  cv_gaps :: "coverage_gap list"
  cv_heal_refusals :: "heal_refusal list"
  cv_range_refusals :: "range_refusal list"
  cv_append_refusals :: "append_refusal list"
  cv_widen :: "widen_warning list"
  cv_uncertain :: "widen_warning list"
  cv_deferrals :: "budget_deferral list"

definition empty_report :: coverage_report where
  "empty_report = \<lparr>cv_bars = 0, cv_ingested = 0, cv_skipped = 0, cv_gaps = [], cv_heal_refusals = [],
     cv_range_refusals = [], cv_append_refusals = [], cv_widen = [], cv_uncertain = [], cv_deferrals = []\<rparr>"

section \<open>State and actions\<close>

record 'c ingest_world = fetch_world +
  iw_catalog :: 'c
  iw_checkpoint :: checkpoint
  iw_disk :: "checkpoint option"
  iw_report :: coverage_report
  iw_committed :: bool
  iw_ledger_disk :: "spend_ledger option"

record 'c ingestor =
  ig_env :: bar_env
  ig_text :: walk_text
  ig_sdk :: sdk_fetcher
  ig_api :: "'c catalog_api"
  ig_kinds :: "bar_kind list"
  ig_sdate :: string
  ig_edate :: string
  ig_adjusted :: bool
  ig_overlap_days :: nat
  ig_empty_retry_max :: nat
  ig_model :: budget_model
  ig_bar_type :: "string \<Rightarrow> bar_kind \<Rightarrow> adapter_error + string"
  ig_mkdir :: "string option"
  ig_save :: "checkpoint \<Rightarrow> string option"
  ig_path :: string
  ig_refusal :: string

type_synonym ('c, 'a) act = "'c ingest_world \<Rightarrow> 'a io \<times> 'c ingest_world"

definition act_bind :: "('c, 'a) act \<Rightarrow> ('a \<Rightarrow> ('c, 'b) act) \<Rightarrow> ('c, 'b) act" where
  "act_bind m k w =
     (case m w of (Val a, w') \<Rightarrow> k a w' | (Err e, w') \<Rightarrow> (Err e, w') | (Panic, w') \<Rightarrow> (Panic, w'))"

definition act_val :: "'a io \<Rightarrow> ('c, 'a) act" where "act_val x w = (x, w)"

definition act_mod :: "('c ingest_world \<Rightarrow> 'c ingest_world) \<Rightarrow> ('c, unit) act" where "act_mod f w = (Val (), f w)"

definition tally :: "(coverage_report \<Rightarrow> coverage_report) \<Rightarrow> 'c ingest_world \<Rightarrow> 'c ingest_world" where
  "tally f w = w \<lparr>iw_report := f (iw_report w)\<rparr>"

definition edit :: "(checkpoint \<Rightarrow> checkpoint) \<Rightarrow> 'c ingest_world \<Rightarrow> 'c ingest_world" where
  "edit f w = w \<lparr>iw_checkpoint := f (iw_checkpoint w)\<rparr>"

definition mark_committed :: "'c ingest_world \<Rightarrow> 'c ingest_world" where "mark_committed w = w \<lparr>iw_committed := True\<rparr>"

definition skip_triple :: "('c, unit) act" where
  "skip_triple = act_mod (tally (\<lambda>r. r \<lparr>cv_skipped := cv_skipped r + 1\<rparr>))"

definition push_gap :: "string \<Rightarrow> string \<Rightarrow> string \<Rightarrow> gap_reason \<Rightarrow> 'c ingest_world \<Rightarrow> 'c ingest_world" where
  "push_gap i b rng reason =
     tally (\<lambda>r. r \<lparr>cv_gaps := cv_gaps r @ [\<lparr>cg_instrument = i, cg_bar_type = b, cg_range = rng, cg_reason = reason\<rparr>]\<rparr>)"

text \<open>\<open>Checkpoint::save\<close>: an atomic replacement of the file (\<open>Checkpoint.checkpoint_save\<close>).\<close>

definition save_checkpoint :: "'c ingestor \<Rightarrow> ('c, unit) act" where
  "save_checkpoint ig w =
     (case ig_save ig (iw_checkpoint w) of
        Some m \<Rightarrow> (Err (Ingest m), w)
      | None \<Rightarrow> (Val (), w \<lparr>iw_disk := Some (iw_checkpoint w)\<rparr>))"

definition collect ::
  "'c ingestor \<Rightarrow> string \<Rightarrow> bar_kind \<Rightarrow> string \<Rightarrow> string \<Rightarrow> string \<Rightarrow> ('c, triple_outcome) act" where
  "collect ig shcode kind bar_type sdate edate =
     (case kind of
        Daily \<Rightarrow> collect_daily (ig_env ig) (sdk_daily (ig_sdk ig)) shcode bar_type sdate edate
      | Minute n \<Rightarrow> collect_minute (ig_env ig) (sdk_minute (ig_sdk ig)) shcode n bar_type sdate edate)"

definition append_bars :: "'c ingestor \<Rightarrow> string \<Rightarrow> price_bar list \<Rightarrow> ('c, adapter_error + unit) act" where
  "append_bars ig bar_type bars w =
     (case append_bars_checked (ig_env ig) (ig_api ig) (iw_catalog w) bar_type bars of
        (r, c) \<Rightarrow> (Val r, w \<lparr>iw_catalog := c\<rparr>))"

definition ymd :: "'c ingestor \<Rightarrow> int \<Rightarrow> string" where "ymd ig d = ymd_format (be_ymd (ig_env ig)) d"

definition codec :: "'c ingestor \<Rightarrow> ymd_codec" where "codec ig = be_ymd (ig_env ig)"

text \<open>\<open>plan_dispatch\<close> over the shared ledger: the deferral, if any.\<close>

definition budget_plan :: "'c ingestor \<Rightarrow> nat \<Rightarrow> ('c, budget_decision) act" where
  "budget_plan ig estimated w =
     (case plan_dispatch (ig_model ig) (fw_ledger w) (sf_cred (ig_sdk ig)) (sf_now (ig_sdk ig) (fw_calls w)) estimated of
        None \<Rightarrow> (Panic, w)
      | Some d \<Rightarrow> (Val d, w))"

definition push_deferral :: "string \<Rightarrow> string \<Rightarrow> nat \<Rightarrow> nat \<Rightarrow> 'c ingest_world \<Rightarrow> 'c ingest_world" where
  "push_deferral i b estimated remaining =
     tally (\<lambda>r. r \<lparr>cv_deferrals := cv_deferrals r @
       [\<lparr>bd_instrument = i, bd_bar_type = b, bd_estimated = estimated, bd_remaining = remaining\<rparr>]\<rparr>)"

definition push_append_refusal :: "string \<Rightarrow> string \<Rightarrow> string \<Rightarrow> string \<Rightarrow> 'c ingest_world \<Rightarrow> 'c ingest_world" where
  "push_append_refusal i b attempted stored =
     tally (\<lambda>r. r \<lparr>cv_append_refusals := cv_append_refusals r @
       [\<lparr>ar_instrument = i, ar_bar_type = b, ar_attempted = attempted, ar_stored = stored\<rparr>]\<rparr>)"

section \<open>The append loop\<close>

text \<open>
  The sub-ranges still to fetch: the sub-range that halted the loop (\<open>halt_before\<close> is its first day)
  and the sub-ranges whose bars were appended (\<open>wrote_any\<close> says there is one).
\<close>

fun append_loop ::
  "'c ingestor \<Rightarrow> string \<Rightarrow> string \<Rightarrow> bar_kind \<Rightarrow> string \<Rightarrow> int \<Rightarrow> (int \<times> int) list \<Rightarrow> (int \<times> int) list \<Rightarrow>
   ('c, int option \<times> (int \<times> int) list) act" where
  "append_loop ig shcode i kind bar_type last_closed [] served w = (Val (None, served), w)"
| "append_loop ig shcode i kind bar_type last_closed ((s, e) # subs) served w =
     act_bind (collect ig shcode kind bar_type (ymd ig s) (ymd ig e)) (\<lambda>oc.
       let label = kind_label kind; rng = ymd ig s @ ''..'' @ ymd ig e
       in case oc of
            TripleBars bars \<Rightarrow>
              if bars \<noteq> []
              then act_bind (append_bars ig bar_type bars) (\<lambda>r.
                  case r of
                    Inr _ \<Rightarrow>
                      (\<lambda>w. append_loop ig shcode i kind bar_type last_closed subs (served @ [(s, e)])
                        (tally (\<lambda>x. x \<lparr>cv_bars := cv_bars x + length bars\<rparr>) w))
                  | Inl (OverlapRefused _ attempted stored) \<Rightarrow>
                      (\<lambda>w. (Val (Some s, served), push_append_refusal i label attempted stored w))
                  | Inl x \<Rightarrow> act_val (Err x))
              else (\<lambda>w. (Val (Some s, served), push_gap i label rng EmptyHistory
                  (edit (note_empty_frontier (codec ig) i label rng last_closed (ig_empty_retry_max ig)) w)))
          | TripleGap EmptyHistory \<Rightarrow>
              (\<lambda>w. (Val (Some s, served), push_gap i label rng EmptyHistory
                (edit (note_empty_frontier (codec ig) i label rng last_closed (ig_empty_retry_max ig)) w)))
          | TripleGap reason \<Rightarrow> (\<lambda>w. (Val (Some s, served), push_gap i label rng reason w))) w"

text \<open>\<open>succ_opt().expect(..)\<close> of the watermark, or the floor.\<close>

definition fetch_start :: "int option \<Rightarrow> int \<Rightarrow> int io" where
  "fetch_start wm floor =
     (case wm of None \<Rightarrow> Val floor | Some d \<Rightarrow> (case succ_opt d of Some n \<Rightarrow> Val n | None \<Rightarrow> Panic))"

definition settle_watermark ::
  "ymd_codec \<Rightarrow> string \<Rightarrow> string \<Rightarrow> int option \<Rightarrow> int option \<Rightarrow> int option \<Rightarrow> int \<Rightarrow> checkpoint \<Rightarrow> checkpoint" where
  "settle_watermark k i label wm halt highest_covered advance_through cp =
     (case halt of
        Some s \<Rightarrow>
          (case (wm, pred_opt s) of
             (Some d, Some pin) \<Rightarrow> if d < pin then set_watermark k i label pin cp else cp
           | _ \<Rightarrow> cp)
      | None \<Rightarrow>
          set_watermark k i label
            (case highest_covered of None \<Rightarrow> advance_through | Some hc \<Rightarrow> max advance_through hc) cp)"

definition covered_above :: "ymd_codec \<Rightarrow> checkpoint \<Rightarrow> string \<Rightarrow> string \<Rightarrow> (int \<times> int) list" where
  "covered_above k cp i label =
     (case watermark k cp i label of None \<Rightarrow> [] | Some d \<Rightarrow> completed_intervals_above k cp i label d)"

definition highest_covered_of :: "(int \<times> int) list \<Rightarrow> int \<Rightarrow> int \<Rightarrow> int option" where
  "highest_covered_of covered request_through advance_through =
     max_date (map (\<lambda>(cs, e). min e advance_through) (filter (\<lambda>(cs, e). cs \<le> request_through) covered))"

text \<open>After the loop: the counters, the watermark, the retry state and the save.\<close>

definition finish_append ::
  "'c ingestor \<Rightarrow> string \<Rightarrow> string \<Rightarrow> int option \<Rightarrow> nat \<Rightarrow> int option \<Rightarrow> int \<Rightarrow> int option \<times> (int \<times> int) list \<Rightarrow> ('c, unit) act" where
  "finish_append ig i label wm retries_before highest_covered advance_through res w =
     (let (halt, served) = res;
          wrote_any = (served \<noteq> []);
          w = (if wrote_any then tally (\<lambda>r. r \<lparr>cv_ingested := cv_ingested r + 1\<rparr>) w else w);
          w = edit (settle_watermark (codec ig) i label wm halt highest_covered advance_through) w;
          advanced = (watermark (codec ig) (iw_checkpoint w) i label \<noteq> wm);
          w = (if wrote_any \<or> advanced then edit (reset_empty_retry i label) w else w)
      in if wrote_any \<or> advanced \<or> empty_retry_count (iw_checkpoint w) i label \<noteq> retries_before
         then act_bind (save_checkpoint ig) (\<lambda>_. act_mod mark_committed) w
         else (Val (), w))"

definition append_triple ::
  "'c ingestor \<Rightarrow> string \<Rightarrow> string \<Rightarrow> bar_kind \<Rightarrow> string \<Rightarrow> int \<Rightarrow> int \<Rightarrow> range_plan \<Rightarrow> ('c, unit) act" where
  "append_triple ig shcode i kind bar_type last_closed floor plan w =
     (let label = kind_label kind; wm = watermark (codec ig) (iw_checkpoint w) i label
      in case (fetch_start wm floor, rp_request plan) of
           (Val start, Some request_through) \<Rightarrow>
             (let advance_through = (case rp_advance plan of Some a \<Rightarrow> a | None \<Rightarrow> request_through);
                  covered = covered_above (codec ig) (iw_checkpoint w) i label;
                  highest_covered = highest_covered_of covered request_through advance_through;
                  sub_ranges = subtract_covered start request_through covered;
                  run = (\<lambda>w. act_bind (append_loop ig shcode i kind bar_type last_closed sub_ranges [])
                    (finish_append ig i label wm (empty_retry_count (iw_checkpoint w) i label) highest_covered advance_through) w)
              in if sub_ranges = [] then run w
                 else act_bind (budget_plan ig (estimate_pages kind sub_ranges)) (\<lambda>d.
                   case d of
                     BudgetDefer estimated remaining \<Rightarrow> act_mod (push_deferral i label estimated remaining)
                   | BudgetProceed \<Rightarrow> run) w)
         | _ \<Rightarrow> (Panic, w))"

section \<open>Detection and heal\<close>

definition read_scoped :: "'c ingestor \<Rightarrow> string \<Rightarrow> int option \<Rightarrow> int option \<Rightarrow> ('c, price_bar list) act" where
  "read_scoped ig bar_type a b w = (io_of (ca_bars (ig_api ig) (iw_catalog w) bar_type a b), w)"

definition read_intervals :: "'c ingestor \<Rightarrow> string \<Rightarrow> ('c, (int \<times> int) list) act" where
  "read_intervals ig bar_type w = (io_of (ca_intervals (ig_api ig) (iw_catalog w) bar_type), w)"

definition detect_shift :: "'c ingestor \<Rightarrow> string \<Rightarrow> string \<Rightarrow> int \<Rightarrow> ('c, bool) act" where
  "detect_shift ig shcode bar_type wm =
     act_bind (act_val (overlap_window_start wm (ig_overlap_days ig))) (\<lambda>wstart.
     act_bind (act_val (io_of (kst_to_unix_nanos (ig_env ig) wstart 0))) (\<lambda>ws_ns.
     act_bind (act_val (io_of (overlap_end_bound (ig_env ig) wm))) (\<lambda>we_ns.
     act_bind (read_scoped ig bar_type (Some ws_ns) (Some we_ns)) (\<lambda>bars.
       let stored = overlap_tail bars (ig_overlap_days ig)
       in case stored_overlap_gate stored of
            ForceShift \<Rightarrow> act_val (Val True)
          | TailInsufficient \<Rightarrow> act_val (Val False)
          | CompareTail \<Rightarrow>
              act_bind (fetch_overlap (ig_env ig) (sdk_daily (ig_sdk ig)) shcode bar_type wstart wm) (\<lambda>fetched.
                act_val (Val (case fetched of
                    None \<Rightarrow> False
                  | Some f \<Rightarrow> compare_overlap (dedup_bars stored) f = OverlapShifted)))))))"

datatype backfill_step = StepBars "price_bar list" | StepEmpty | StepFailed string

fun pull_backfill_window ::
  "'c ingestor \<Rightarrow> string \<Rightarrow> string \<Rightarrow> session_window \<Rightarrow> nat \<Rightarrow> ('c, backfill_step) act" where
  "pull_backfill_window ig shcode bar_type x 0 w = (Val StepEmpty, w)"
| "pull_backfill_window ig shcode bar_type x (Suc attempts) w =
     act_bind (pull_window (ig_text ig) (ig_env ig) (sdk_daily (ig_sdk ig)) shcode bar_type x MAX_BACKFILL_PAGES) (\<lambda>r.
       case r of
         Inl we \<Rightarrow> act_val (Val (StepFailed (scrub_secrets (wt_error (ig_text ig) (we_error we)))))
       | Inr p \<Rightarrow>
           if wp_bars p \<noteq> [] then act_val (Val (StepBars (wp_bars p)))
           else pull_backfill_window ig shcode bar_type x attempts) w"

datatype heal_outcome =
    Healed nat "coverage_gap list"
  | HealRefused heal_refusal
  | HealIncomplete
  | HealAppendRefused append_refusal

text \<open>The windowed re-pull: \<open>None\<close> when it must not complete, else the bars and \<open>served_any\<close>.\<close>

fun heal_pull ::
  "'c ingestor \<Rightarrow> string \<Rightarrow> string \<Rightarrow> session_window list \<Rightarrow> price_bar list \<Rightarrow> bool \<Rightarrow> ('c, (price_bar list \<times> bool) option) act" where
  "heal_pull ig shcode bar_type [] pulled served_any w = (Val (Some (pulled, served_any)), w)"
| "heal_pull ig shcode bar_type (x # xs) pulled served_any w =
     act_bind (pull_backfill_window ig shcode bar_type x (max (ig_empty_retry_max ig) 1)) (\<lambda>step.
       case step of
         StepBars bars \<Rightarrow> heal_pull ig shcode bar_type xs (pulled @ bars) True
       | StepEmpty \<Rightarrow> if served_any then act_val (Val None) else heal_pull ig shcode bar_type xs pulled served_any
       | StepFailed _ \<Rightarrow> act_val (Val None)) w"

text \<open>Completion: the mark is cleared, the event recorded and the watermark set in one save.\<close>

definition complete_heal :: "ymd_codec \<Rightarrow> string \<Rightarrow> string \<Rightarrow> int \<Rightarrow> checkpoint \<Rightarrow> checkpoint" where
  "complete_heal k i label last_closed cp =
     (let detected = (case shifted_detected cp i label of Some d \<Rightarrow> d | None \<Rightarrow> ymd_format k last_closed);
          origin = shifted_origin cp i label
      in set_watermark k i label last_closed
           (record_rebase_event \<lparr>re_instrument = i, re_bar_type = label, re_detected = detected,
              re_healed = ymd_format k last_closed, re_origin = origin\<rparr> (clear_shifted i label cp)))"

definition heal_finish ::
  "'c ingestor \<Rightarrow> string \<Rightarrow> string \<Rightarrow> string \<Rightarrow> string \<Rightarrow> int \<Rightarrow> int \<Rightarrow> price_bar list \<Rightarrow> nat \<Rightarrow> ('c, heal_outcome) act" where
  "heal_finish ig shcode i label bar_type last_closed wstart tail n =
     act_bind (if tail = [] then act_val (Val False)
               else act_bind (fetch_overlap (ig_env ig) (sdk_daily (ig_sdk ig)) shcode bar_type wstart last_closed)
                 (\<lambda>f. act_val (Val (case f of None \<Rightarrow> False | Some f \<Rightarrow> compare_overlap tail f = OverlapShifted))))
     (\<lambda>mismatch.
       if mismatch then act_val (Val HealIncomplete)
       else act_bind (act_mod (edit (complete_heal (codec ig) i label last_closed))) (\<lambda>_.
            act_bind (save_checkpoint ig) (\<lambda>_. act_val (Val (Healed n [])))))"

definition heal_write ::
  "'c ingestor \<Rightarrow> string \<Rightarrow> string \<Rightarrow> string \<Rightarrow> string \<Rightarrow> int \<Rightarrow> price_bar list \<Rightarrow> ('c, heal_outcome) act" where
  "heal_write ig shcode i label bar_type last_closed pulled =
     act_bind (\<lambda>w. case ca_delete (ig_api ig) (iw_catalog w) bar_type of (r, c) \<Rightarrow> (io_of r, w \<lparr>iw_catalog := c\<rparr>)) (\<lambda>_.
     act_bind (act_mod (edit (clear_watermark i label))) (\<lambda>_.
     act_bind (save_checkpoint ig) (\<lambda>_.
     act_bind (act_val (overlap_window_start last_closed (ig_overlap_days ig))) (\<lambda>wstart.
     act_bind (act_val (io_of (kst_to_unix_nanos (ig_env ig) wstart 0))) (\<lambda>ws_ns.
       let sorted = sort_key br_init pulled;
           tail = overlap_tail (filter (\<lambda>b. ws_ns \<le> br_event b) sorted) (ig_overlap_days ig);
           finish = heal_finish ig shcode i label bar_type last_closed wstart tail (length sorted)
       in if sorted = [] then finish
          else act_bind (append_bars ig bar_type sorted) (\<lambda>r.
            case r of
              Inr _ \<Rightarrow> finish
            | Inl (OverlapRefused _ attempted stored) \<Rightarrow>
                act_val (Val (HealAppendRefused \<lparr>ar_instrument = i, ar_bar_type = label, ar_attempted = attempted,
                  ar_stored = stored\<rparr>))
            | Inl x \<Rightarrow> act_val (Err x)))))))"

definition heal_daily ::
  "'c ingestor \<Rightarrow> string \<Rightarrow> string \<Rightarrow> string \<Rightarrow> string \<Rightarrow> int \<Rightarrow> int \<Rightarrow> session_window list \<Rightarrow> ('c, heal_outcome) act" where
  "heal_daily ig shcode i label bar_type last_closed floor windows =
     act_bind (read_scoped ig bar_type None None) (\<lambda>stored.
       let earliest = map_option (\<lambda>b. kst_date_of (br_event b)) (case stored of [] \<Rightarrow> None | b # _ \<Rightarrow> Some b)
       in if (case earliest of None \<Rightarrow> False | Some d \<Rightarrow> d < floor)
          then act_val (Val (HealRefused \<lparr>hr_instrument = i, hr_bar_type = label, hr_floor = ymd ig floor,
                 hr_earliest = ymd ig (the earliest)\<rparr>))
          else act_bind (heal_pull ig shcode bar_type windows [] False) (\<lambda>p.
            case p of
              None \<Rightarrow> act_val (Val HealIncomplete)
            | Some (pulled, served_any) \<Rightarrow>
                if \<not> served_any \<and> stored \<noteq> [] then act_val (Val HealIncomplete)
                else heal_write ig shcode i label bar_type last_closed pulled))"

section \<open>One triple of the accumulate run\<close>

text \<open>An admitted heal: its partition, its outcome and the bookkeeping after it.\<close>

definition heal_triple ::
  "'c ingestor \<Rightarrow> calendar_gate \<Rightarrow> string \<Rightarrow> string \<Rightarrow> bar_kind \<Rightarrow> string \<Rightarrow> int \<Rightarrow> int \<Rightarrow> range_plan \<Rightarrow> ('c, unit) act" where
  "heal_triple ig g shcode i kind bar_type last_closed floor plan =
     (let label = kind_label kind
      in case destructive_request_through plan of
           None \<Rightarrow> act_val Panic
         | Some through \<Rightarrow>
             act_bind (act_val (io_of (heal_windows (ig_text ig) g floor through))) (\<lambda>ws.
               case ws of
                 Some (x # xs) \<Rightarrow>
                   act_bind (heal_daily ig shcode i label bar_type through floor (x # xs)) (\<lambda>oc.
                     case oc of
                       Healed n gaps \<Rightarrow>
                         act_bind (act_mod (\<lambda>w. edit (\<lambda>cp.
                             let cp = reset_empty_retry i label cp
                             in case rp_advance plan of
                                  Some a \<Rightarrow> if through < a then set_watermark (codec ig) i label a cp else cp
                                | None \<Rightarrow> cp)
                           (tally (\<lambda>r. r \<lparr>cv_bars := cv_bars r + n, cv_ingested := cv_ingested r + 1,
                                         cv_gaps := cv_gaps r @ gaps\<rparr>) w))) (\<lambda>_.
                         act_bind (save_checkpoint ig) (\<lambda>_. act_mod mark_committed))
                     | HealRefused r \<Rightarrow> act_mod (tally (\<lambda>x. x \<lparr>cv_heal_refusals := cv_heal_refusals x @ [r]\<rparr>))
                     | HealAppendRefused r \<Rightarrow>
                         act_mod (mark_committed \<circ> tally (\<lambda>x. x \<lparr>cv_append_refusals := cv_append_refusals x @ [r]\<rparr>))
                     | HealIncomplete \<Rightarrow>
                         act_mod (mark_committed \<circ> push_gap i label (ymd ig floor @ ''..'' @ ymd ig last_closed) PaperThin))
               | _ \<Rightarrow> act_mod (mark_committed \<circ> push_gap i label (ymd ig floor @ ''..'' @ ymd ig through) PaperThin)))"

text \<open>The backward-widen check of a triple that has a watermark.\<close>

definition widen_check :: "'c ingestor \<Rightarrow> calendar_gate \<Rightarrow> string \<Rightarrow> string \<Rightarrow> string \<Rightarrow> int \<Rightarrow> int option \<Rightarrow> ('c, unit) act" where
  "widen_check ig g i label bar_type floor wm w =
     (let recorded = history_floor (codec ig) (iw_checkpoint w) i label
      in if wm \<noteq> None \<and> (case recorded of None \<Rightarrow> True | Some r \<Rightarrow> floor < r)
         then act_bind (read_intervals ig bar_type) (\<lambda>intervals.
           case min_date (map fst intervals) of
             None \<Rightarrow> act_val (Val ())
           | Some ns \<Rightarrow>
               (let earliest = kst_date_of ns;
                    warning = (\<lambda>stale. \<lparr>ew_instrument = i, ew_bar_type = label, ew_floor = ymd ig floor,
                      ew_earliest = ymd ig earliest, ew_stale = stale\<rparr>)
                in if earliest \<le> floor then act_val (Val ())
                   else case widen_action g floor earliest of
                       EmitPersist \<Rightarrow>
                         act_bind (act_mod (edit (set_history_floor (codec ig) i label floor) \<circ>
                             tally (\<lambda>r. r \<lparr>cv_widen := cv_widen r @ [warning None]\<rparr>))) (\<lambda>_.
                           act_bind (save_checkpoint ig) (\<lambda>_. act_mod mark_committed))
                     | EmitUncertain \<Rightarrow>
                         act_mod (tally (\<lambda>r. r \<lparr>cv_uncertain := cv_uncertain r @ [warning (Some (has_stale_evidence g))]\<rparr>))
                     | Suppress \<Rightarrow> act_val (Val ()))) w
         else (Val (), w))"

text \<open>Basis-shift detection of a daily triple with a watermark: the plan of the heal it starts.\<close>

definition detect_triple ::
  "'c ingestor \<Rightarrow> calendar_gate \<Rightarrow> string \<Rightarrow> string \<Rightarrow> bar_kind \<Rightarrow> string \<Rightarrow> int \<Rightarrow> int \<Rightarrow> ('c, range_plan option) act" where
  "detect_triple ig g shcode i kind bar_type last_closed floor w =
     (let label = kind_label kind
      in case (kind, watermark (codec ig) (iw_checkpoint w) i label) of
           (Daily, Some wm) \<Rightarrow>
             (let candidate = accumulate_plan g floor last_closed
              in case destructive_request_through candidate of
                   Some through \<Rightarrow>
                     if wm \<le> through \<and> proven_session_at_or_before g wm
                     then act_bind (detect_shift ig shcode bar_type wm) (\<lambda>shifted.
                         if shifted
                         then act_bind (act_mod (edit (mark_shifted (codec ig) i label through OriginHeal))) (\<lambda>_.
                              act_bind (save_checkpoint ig) (\<lambda>_.
                              act_bind (act_mod mark_committed) (\<lambda>_. act_val (Val (Some candidate)))))
                         else act_val (Val None)) w
                     else (Val None, w)
                 | None \<Rightarrow> (Val None, w))
         | _ \<Rightarrow> (Val None, w))"

text \<open>A triple that is not marked: the closed advance, the widen check, detection, then the append.\<close>

definition forward_triple ::
  "'c ingestor \<Rightarrow> calendar_gate \<Rightarrow> string \<Rightarrow> string \<Rightarrow> bar_kind \<Rightarrow> string \<Rightarrow> int \<Rightarrow> int \<Rightarrow> ('c, unit) act" where
  "forward_triple ig g shcode i kind bar_type last_closed floor w =
     (let label = kind_label kind; wm = watermark (codec ig) (iw_checkpoint w) i label
      in case fetch_start wm floor of
           Val start \<Rightarrow>
             (let plan = accumulate_plan g start last_closed
              in if start \<le> last_closed \<and> rp_request plan = None
                 then (case rp_advance plan of
                     Some a \<Rightarrow>
                       if (case wm of None \<Rightarrow> True | Some d \<Rightarrow> d < a)
                       then act_bind (act_mod (edit (reset_empty_retry i label \<circ> set_watermark (codec ig) i label a))) (\<lambda>_.
                            act_bind (save_checkpoint ig) (\<lambda>_.
                            act_bind (act_mod mark_committed) (\<lambda>_. skip_triple))) w
                       else skip_triple w
                   | None \<Rightarrow> skip_triple w)
                 else act_bind (widen_check ig g i label bar_type floor wm) (\<lambda>_.
                   if last_closed < start then skip_triple
                   else act_bind (detect_triple ig g shcode i kind bar_type last_closed floor) (\<lambda>heal.
                     case heal of
                       Some candidate \<Rightarrow> heal_triple ig g shcode i kind bar_type last_closed floor candidate
                     | None \<Rightarrow> append_triple ig shcode i kind bar_type last_closed floor plan)) w)
         | _ \<Rightarrow> (Panic, w))"

definition opt_max :: "int option \<Rightarrow> int option \<Rightarrow> int option" where
  "opt_max a b = (case (a, b) of (Some x, Some y) \<Rightarrow> Some (max x y) | (None, y) \<Rightarrow> y | (x, None) \<Rightarrow> x)"

definition accumulate_triple ::
  "'c ingestor \<Rightarrow> calendar_gate \<Rightarrow> int \<Rightarrow> int \<Rightarrow> string \<Rightarrow> string \<Rightarrow> bar_kind \<Rightarrow> ('c, unit) act" where
  "accumulate_triple ig g last_closed floor shcode i kind =
     act_bind (act_val (io_of (ig_bar_type ig i kind))) (\<lambda>bar_type w.
       let label = kind_label kind; cp = iw_checkpoint w; k = codec ig
       in if \<not> is_shifted cp i label \<and> empty_retry_converged k cp i label last_closed (ig_empty_retry_max ig)
          then skip_triple w
          else if kind = Daily \<and> is_shifted cp i label
          then let plan = accumulate_plan g floor last_closed;
                   required = opt_max (watermark k cp i label)
                     (Option.bind (shifted_detected cp i label) (ymd_parse k))
               in case destructive_request_through plan of
                    None \<Rightarrow> skip_triple w
                  | Some through \<Rightarrow>
                      if (case required of None \<Rightarrow> False | Some r \<Rightarrow> through < r) then skip_triple w
                      else heal_triple ig g shcode i kind bar_type last_closed floor plan w
          else forward_triple ig g shcode i kind bar_type last_closed floor w)"

section \<open>The runs\<close>

fun each :: "('a \<Rightarrow> ('c, unit) act) \<Rightarrow> 'a list \<Rightarrow> ('c, unit) act" where
  "each f [] w = (Val (), w)"
| "each f (x # xs) w = act_bind (f x) (\<lambda>_. each f xs) w"

text \<open>The triples of a run, instrument by instrument: \<open>(shcode, instrument id)\<close> and its kinds.\<close>

definition triples :: "'c ingestor \<Rightarrow> (string \<times> string) list \<Rightarrow> (string \<times> string \<times> bar_kind) list" where
  "triples ig universe = concat (map (\<lambda>(shcode, i). map (\<lambda>k. (shcode, i, k)) (ig_kinds ig)) universe)"

definition open_run ::
  "'c ingestor \<Rightarrow> checkpoint_file \<Rightarrow> calendar_gate \<Rightarrow> string \<Rightarrow> ('c, unit) act" where
  "open_run ig f g mode w =
     (case ig_mkdir ig of
        Some m \<Rightarrow> (Err (Ingest (''mkdir catalog '' @ ig_path ig @ '': '' @ m)), w)
      | None \<Rightarrow>
          (case load_gated (ig_path ig @ ''/ingest-checkpoint.json'') (codec ig) f g of
             Inl m \<Rightarrow> (Err (Ingest m), w)
           | Inr cp \<Rightarrow>
               (case refuse_on_incomplete_backfill cp mode (ig_refusal ig) of
                  Inl x \<Rightarrow> (Err x, w)
                | Inr _ \<Rightarrow>
                    (Val (), w \<lparr>iw_checkpoint := cp, iw_report := empty_report,
                                iw_committed := False\<rparr>))))"

definition set_basis :: "'c ingestor \<Rightarrow> ('c, unit) act" where
  "set_basis ig = act_mod (edit (\<lambda>cp. cp \<lparr>cp_adjusted := ig_adjusted ig\<rparr>))"

text \<open>\<open>save_ledger\<close> is advisory: a failed save changes nothing.\<close>

definition save_ledger :: "'c ingest_world \<Rightarrow> 'c ingest_world" where
  "save_ledger w = w \<lparr>iw_ledger_disk := Some (fw_ledger w)\<rparr>"

definition estimate_budget :: "'c ingestor \<Rightarrow> nat \<Rightarrow> nat \<Rightarrow> budget_estimate" where
  "estimate_budget ig symbols requests =
     \<lparr>bu_symbols = symbols, bu_kinds = length (ig_kinds ig), bu_cap = sf_daily_cap (ig_sdk ig), bu_min_requests = requests\<rparr>"

definition close_run :: "'c ingestor \<Rightarrow> nat \<Rightarrow> nat \<Rightarrow> ('c, coverage_report \<times> budget_estimate) act" where
  "close_run ig symbols requests w =
     (let w = save_ledger w in (Val (iw_report w, estimate_budget ig symbols requests), w))"

definition daily_kinds :: "'c ingestor \<Rightarrow> nat" where
  "daily_kinds ig = length (filter (\<lambda>k. k = Daily) (ig_kinds ig))"

definition run_accumulate_gated ::
  "'c ingestor \<Rightarrow> checkpoint_file \<Rightarrow> calendar_gate \<Rightarrow> (string \<times> string) list \<Rightarrow> int \<Rightarrow> int \<Rightarrow>
   ('c, coverage_report \<times> budget_estimate) act" where
  "run_accumulate_gated ig f g universe last_closed floor =
     act_bind (open_run ig f g ''accumulate'') (\<lambda>_.
     act_bind (set_basis ig) (\<lambda>_.
     act_bind (each (\<lambda>(shcode, i, k). accumulate_triple ig g last_closed floor shcode i k) (triples ig universe)) (\<lambda>_.
     act_bind (\<lambda>w. if iw_committed w
                   then act_bind (act_mod (edit (prune_below_watermarks (codec ig)))) (\<lambda>_. save_checkpoint ig) w
                   else (Val (), w)) (\<lambda>_.
       close_run ig (length universe) (length universe * (length (ig_kinds ig) + daily_kinds ig))))))"

text \<open>The refusal of a re-base with no daily kind carries its text as an argument.\<close>

definition run_rebase_gated ::
  "'c ingestor \<Rightarrow> (checkpoint option \<Rightarrow> checkpoint_file) \<Rightarrow> calendar_gate \<Rightarrow> (string \<times> string) list \<Rightarrow> int \<Rightarrow> int \<Rightarrow>
   ('c, coverage_report \<times> budget_estimate) act" where
  "run_rebase_gated ig read g universe last_closed floor w =
     (if Daily \<notin> set (ig_kinds ig)
      then (Err (Ingest ''epoch re-base requires the daily bar kind (a mark with no daily lane would never heal)''), w)
      else case rp_request (accumulate_plan g floor last_closed) of
          None \<Rightarrow>
            (Val (empty_report \<lparr>cv_skipped := length universe * length (ig_kinds ig)\<rparr>,
                  estimate_budget ig (length universe) 0), w)
        | Some rebase_end \<Rightarrow>
            (case open_run ig (read (iw_disk w)) g ''rebase'' w of
               (Err x, w') \<Rightarrow> (Err x, w')
             | (Panic, w') \<Rightarrow> (Panic, w')
             | (Val _, w') \<Rightarrow>
                 act_bind (act_mod (edit (\<lambda>cp.
                     fold (\<lambda>(shcode, i). mark_shifted (codec ig) i (kind_label Daily) rebase_end OriginEpoch) universe cp))) (\<lambda>_.
                 act_bind (save_checkpoint ig) (\<lambda>_ w.
                   run_accumulate_gated ig (read (iw_disk w)) g universe rebase_end floor w)) w'))"

section \<open>Range mode\<close>

text \<open>One triple of the manual range \<open>[ig_sdate, ig_edate]\<close>; \<open>last_gap\<close> is the gap just recorded.\<close>

definition range_outcome ::
  "'c ingestor \<Rightarrow> string \<Rightarrow> string \<Rightarrow> string \<Rightarrow> string \<Rightarrow> triple_outcome \<Rightarrow> ('c, unit) act" where
  "range_outcome ig i label rng bar_type oc =
     (let gap = (\<lambda>reason. act_mod (edit (record_gap i label rng reason) \<circ> push_gap i label rng reason))
      in case oc of
           TripleBars bars \<Rightarrow>
             if bars \<noteq> []
             then act_bind (append_bars ig bar_type bars) (\<lambda>r.
                 case r of
                   Inr _ \<Rightarrow>
                     act_mod (edit (mark_done i label rng) \<circ>
                       tally (\<lambda>x. x \<lparr>cv_bars := cv_bars x + length bars, cv_ingested := cv_ingested x + 1\<rparr>))
                 | Inl (OverlapRefused _ attempted stored) \<Rightarrow> act_mod (push_append_refusal i label attempted stored)
                 | Inl x \<Rightarrow> act_val (Err x))
             else gap EmptyHistory
         | TripleGap reason \<Rightarrow> gap reason)"

definition range_triple :: "'c ingestor \<Rightarrow> string \<Rightarrow> string \<Rightarrow> bar_kind \<Rightarrow> ('c, unit) act" where
  "range_triple ig shcode i kind w =
     (let label = kind_label kind; cp = iw_checkpoint w; rng = ig_sdate ig @ ''..'' @ ig_edate ig;
          go = act_bind (act_val (io_of (ig_bar_type ig i kind))) (\<lambda>bar_type.
               act_bind (collect ig shcode kind bar_type (ig_sdate ig) (ig_edate ig)) (\<lambda>oc.
               act_bind (range_outcome ig i label rng bar_type oc) (\<lambda>_. save_checkpoint ig)))
      in if is_shifted cp i label
         then (Val (), tally (\<lambda>r. r \<lparr>cv_range_refusals := cv_range_refusals r @
             [\<lparr>rr_instrument = i, rr_bar_type = label,
               rr_detected = (case shifted_detected cp i label of Some d \<Rightarrow> d | None \<Rightarrow> [])\<rparr>]\<rparr>) w)
         else if is_done cp i label rng then skip_triple w
         else case (parse_yyyymmdd (ig_env ig) ''sdate'' (ig_sdate ig), parse_yyyymmdd (ig_env ig) ''edate'' (ig_edate ig)) of
             (Inr s, Inr e) \<Rightarrow>
               act_bind (budget_plan ig (estimate_pages kind [(s, e)])) (\<lambda>d.
                 case d of
                   BudgetDefer estimated remaining \<Rightarrow> act_mod (push_deferral i label estimated remaining)
                 | BudgetProceed \<Rightarrow> go) w
           | _ \<Rightarrow> go w)"

definition run_range ::
  "'c ingestor \<Rightarrow> checkpoint_file \<Rightarrow> (string \<times> string) list \<Rightarrow> ('c, coverage_report \<times> budget_estimate) act" where
  "run_range ig f universe =
     act_bind (open_run ig f None ''range'') (\<lambda>_.
     act_bind (set_basis ig) (\<lambda>_.
     act_bind (each (\<lambda>(shcode, i, k). range_triple ig shcode i k) (triples ig universe)) (\<lambda>_.
       close_run ig (length universe) (length universe * length (ig_kinds ig)))))"

section \<open>What a plan lets an append attest\<close>

lemma le_last: "sorted xs \<Longrightarrow> d \<in> set xs \<Longrightarrow> d \<le> last xs" for d :: int
  by (induction xs rule: rev_induct) (auto simp: sorted_append)

lemma plan_facts:
  assumes "gate_ok g" and "last_closed \<le> DATE_MAX"
    and "rp_request (accumulate_plan g start last_closed) = Some r"
  obtains a where "rp_advance (accumulate_plan g start last_closed) = Some a"
    and "start \<le> r" and "r \<le> a" and "a \<le> last_closed" and "\<forall>d. r < d \<and> d \<le> a \<longrightarrow> known g d = Some DayClosed"
proof -
  define m where "m = (case find (\<lambda>d. \<not> proven g d) [start..last_closed] of None \<Rightarrow> last_closed | Some u \<Rightarrow> u - 1)"
  let ?ds = "[start..m]" and ?ss = "filter (\<lambda>d. known g d = Some DayTradingSession) [start..m]"
  have plan: "accumulate_plan g start last_closed =
      \<lparr>rp_request = (if ?ss = [] then None else Some (last ?ss)), rp_advance = (if ?ds = [] then None else Some (last ?ds)),
       rp_stop = find (\<lambda>d. \<not> proven g d) [start..last_closed]\<rparr>"
    using accumulate_plan_is [OF assms(1,2), of start]
    by (cases "find (\<lambda>d. \<not> proven g d) [start..last_closed]") (simp_all add: established_plan_def Let_def m_def)
  with assms(3) have ss: "?ss \<noteq> []" and r: "r = last ?ss" by (auto split: if_splits)
  have "r \<in> set ?ss" using ss r last_in_set by blast
  then have rr: "start \<le> r" "r \<le> m" by auto
  then have lastds: "last ?ds = m" by (simp add: upto_rec2)
  have ml: "m \<le> last_closed"
    by (auto simp: m_def find_Some_iff2 split: option.split) (auto simp: find_Some_iff)
  have prov: "proven g d" if "d \<in> set ?ds" for d
  proof -
    from takeWhile_upto [of "proven g" start last_closed]
    have "?ds = takeWhile (proven g) [start..last_closed]" by (auto simp: m_def split: option.splits)
    with that show ?thesis using set_takeWhileD by metis
  qed
  have "known g d = Some DayClosed" if "r < d" "d \<le> m" for d
  proof (rule ccontr)
    assume "known g d \<noteq> Some DayClosed"
    with prov [of d] that rr have "d \<in> set ?ss" by (auto simp: proven_def)
    then have "d \<le> last ?ss" by (intro le_last) (simp add: sorted_filter [where f = "\<lambda>x. x", simplified])
    with that r show False by simp
  qed
  then show ?thesis using that [of m] plan rr lastds ml by (auto split: if_splits)
qed

text \<open>The ranges a run fetched and stored, in order, from the state it started in.\<close>

inductive stored_run ::
  "'c ingestor \<Rightarrow> string \<Rightarrow> bar_kind \<Rightarrow> string \<Rightarrow> 'c ingest_world \<Rightarrow> (int \<times> int) list \<Rightarrow> 'c ingest_world \<Rightarrow> bool"
  for ig shcode kind bar_type w0 where
  nothing_stored: "stored_run ig shcode kind bar_type w0 [] w0"
| range_stored: "stored_run ig shcode kind bar_type w0 served w \<Longrightarrow>
    collect ig shcode kind bar_type (ymd ig s) (ymd ig e) w = (Val (TripleBars bars), w1) \<Longrightarrow> bars \<noteq> [] \<Longrightarrow>
    append_bars ig bar_type bars w1 = (Val (Inr ()), w2) \<Longrightarrow>
    stored_run ig shcode kind bar_type w0 (served @ [(s, e)]) (tally (\<lambda>x. x \<lparr>cv_bars := cv_bars x + length bars\<rparr>) w2)"

lemma collect_frame: "collect ig shcode kind bt a b w = (r, w') \<Longrightarrow> fetch_world.more w' = fetch_world.more w"
  by (auto simp: collect_def split: bar_kind.splits
      dest: collect_daily_frame [OF sdk_daily_frame] collect_minute_frame [OF sdk_minute_frame])

lemma collect_checkpoint: "collect ig shcode kind bt a b w = (r, w') \<Longrightarrow> iw_checkpoint w' = iw_checkpoint w"
  by (drule collect_frame) (cases w; cases w'; simp)

lemma append_checkpoint: "append_bars ig bt bars w = (r, w') \<Longrightarrow> iw_checkpoint w' = iw_checkpoint w"
  by (auto simp: append_bars_def split: prod.splits)

lemma note_frontier_watermarks: "cp_watermarks (note_empty_frontier k i b rng l n cp) = cp_watermarks cp"
  by (auto simp: note_empty_frontier_def bump_empty_retry_def record_gap_uncovered_def Let_def)

lemma world_edits [simp]:
  "iw_checkpoint (tally f w) = iw_checkpoint w" "iw_checkpoint (edit h w) = h (iw_checkpoint w)"
  "iw_checkpoint (push_gap i b rng reason w) = iw_checkpoint w"
  "iw_checkpoint (push_append_refusal i b x y w) = iw_checkpoint w"
  "iw_checkpoint (push_deferral i b m n w) = iw_checkpoint w"
  "iw_checkpoint (mark_committed w) = iw_checkpoint w"
  by (simp_all add: tally_def edit_def push_gap_def push_append_refusal_def push_deferral_def mark_committed_def)

text \<open>The append loop stores a prefix of the ranges; it halts at the first range it could not store.\<close>

lemma append_loop_stores:
  assumes "append_loop ig shcode i kind bt last_closed subs served w = (Val (halt, out), w')"
    and "stored_run ig shcode kind bt w0 served w"
  shows "(\<exists>more w1. out = served @ more \<and> stored_run ig shcode kind bt w0 out w1 \<and>
      (case halt of None \<Rightarrow> more = subs | Some s \<Rightarrow> \<exists>e rest. subs = more @ (s, e) # rest)) \<and>
    cp_watermarks (iw_checkpoint w') = cp_watermarks (iw_checkpoint w)"
  using assms
proof (induction subs arbitrary: served w)
  case (Cons p subs)
  obtain s e where p: "p = (s, e)" by (cases p)
  obtain oc w1 where c: "collect ig shcode kind bt (ymd ig s) (ymd ig e) w = (Val oc, w1)"
    using Cons.prems(1) by (auto simp: p act_bind_def split: io.splits prod.splits)
  note cw = collect_checkpoint [OF c]
  have halted: ?case if "halt = Some s" "out = served" "cp_watermarks (iw_checkpoint w') = cp_watermarks (iw_checkpoint w)"
    using that Cons.prems(2) by (auto simp: p)
  show ?case
  proof (cases oc)
    case (TripleGap reason)
    show ?thesis
      using Cons.prems(1) cw
      by (intro halted; cases reason)
        (auto simp: p act_bind_def c TripleGap Let_def note_frontier_watermarks split: gap_reason.splits)
  next
    case (TripleBars bars)
    show ?thesis
    proof (cases "bars = []")
      case True
      show ?thesis
        using Cons.prems(1) cw
        by (intro halted) (auto simp: p act_bind_def c TripleBars True Let_def note_frontier_watermarks)
    next
      case False
      obtain r w2 where a: "append_bars ig bt bars w1 = (Val r, w2)"
        by (cases "append_bars_checked (ig_env ig) (ig_api ig) (iw_catalog w1) bt bars") (auto simp: append_bars_def)
      note aw = append_checkpoint [OF a]
      show ?thesis
      proof (cases r)
        case (Inl x)
        show ?thesis
          using Cons.prems(1) cw aw
          by (intro halted; cases x) (auto simp: p act_bind_def c TripleBars False Let_def a Inl act_val_def)
      next
        case (Inr u)
        let ?w3 = "tally (\<lambda>x. x \<lparr>cv_bars := cv_bars x + length bars\<rparr>) w2"
        have st: "stored_run ig shcode kind bt w0 (served @ [(s, e)]) ?w3"
          using a Inr by (intro stored_run.range_stored [OF Cons.prems(2) c [unfolded TripleBars] False]) simp
        have "append_loop ig shcode i kind bt last_closed subs (served @ [(s, e)]) ?w3 = (Val (halt, out), w')"
          using Cons.prems(1) by (cases u) (simp add: p act_bind_def c TripleBars False Let_def a Inr)
        from Cons.IH [OF this st] cw aw show ?thesis
          by (cases halt) (auto simp: p)
      qed
    qed
  qed
qed auto


lemma max_date_le:
  assumes "max_date ds = Some m" and "\<forall>d\<in>set ds. d \<le> b"
  shows "m \<le> b"
  using assms by (auto simp: max_date_def split: if_splits)

text \<open>The target of a run that did not halt is its advance date: recorded coverage is clipped to it.\<close>

lemma advance_target:
  "(case highest_covered_of covered r a of None \<Rightarrow> a | Some hc \<Rightarrow> max a hc) = a"
proof (cases "highest_covered_of covered r a")
  case (Some hc)
  then have "hc \<le> a" unfolding highest_covered_of_def by (rule max_date_le) auto
  with Some show ?thesis by simp
qed simp

lemma watermark_of: "watermark k cp i b = get_ymd k (cp_watermarks cp) (watermark_key i b)"
  by (simp add: watermark_def)

lemma settled:
  assumes "ymd_ok k a" and "\<forall>s. halt = Some s \<longrightarrow> ymd_ok k (s - 1)"
    and "watermark k cp i b = wm"
    and "watermark k (settle_watermark k i b wm halt (highest_covered_of covered r a) a cp) i b = Some d"
  shows "(halt = None \<and> d = a) \<or> (\<exists>s old. halt = Some s \<and> wm = Some old \<and> old < s - 1 \<and> d = s - 1) \<or> wm = Some d"
  using assms
  by (cases halt)
    (auto simp: settle_watermark_def advance_target set_watermark_def watermark_of get_ymd_def ymd_ok_def pred_opt_def
      split: option.splits if_splits)

lemma finish_checkpoint:
  assumes "finish_append ig i label wm n hc a (halt, served) w = (Val (), w')"
  shows "cp_watermarks (iw_checkpoint w') =
    cp_watermarks (settle_watermark (codec ig) i label wm halt hc a (iw_checkpoint w))"
  using assms
  by (auto simp: finish_append_def Let_def act_bind_def save_checkpoint_def act_mod_def reset_empty_retry_def
      split: option.splits if_splits)

text \<open>
  C8. The watermark of a series attests only what a run has evidence for: each day between the start
  of the append and the watermark it leaves behind lies in a range whose bars this run
  fetched and stored, in coverage the checkpoint had recorded, or is proven closed.\<close>

theorem watermark_attests_evidence:
  assumes "append_triple ig shcode i kind bar_type last_closed floor (accumulate_plan g start last_closed) w = (Val (), w')"
    and "fetch_start (watermark (codec ig) (iw_checkpoint w) i (kind_label kind)) floor = Val start"
    and "gate_ok g" and "last_closed \<le> DATE_MAX" and "\<forall>d. start - 1 \<le> d \<and> d \<le> last_closed \<longrightarrow> ymd_ok (codec ig) d"
    and "watermark (codec ig) (iw_checkpoint w') i (kind_label kind) = Some new"
  shows "\<exists>served w1. stored_run ig shcode kind bar_type w served w1 \<and>
    (\<forall>d. start \<le> d \<and> d \<le> new \<longrightarrow>
      d \<in> span_days served \<or> d \<in> span_days (covered_above (codec ig) (iw_checkpoint w) i (kind_label kind)) \<or>
      known g d = Some DayClosed)"
proof -
  let ?k = "codec ig" and ?l = "kind_label kind" and ?plan = "accumulate_plan g start last_closed"
  let ?wm = "watermark ?k (iw_checkpoint w) i ?l" and ?cov = "covered_above ?k (iw_checkpoint w) i ?l"
  from assms(1,2) obtain r where r: "rp_request ?plan = Some r"
    by (auto simp: append_triple_def Let_def split: option.splits io.splits)
  from plan_facts [OF assms(3,4) r] obtain a where a: "rp_advance ?plan = Some a" "start \<le> r" "r \<le> a" "a \<le> last_closed"
      "\<forall>d. r < d \<and> d \<le> a \<longrightarrow> known g d = Some DayClosed" by blast
  let ?subs = "subtract_covered start r ?cov"
  let ?run = "act_bind (append_loop ig shcode i kind bar_type last_closed ?subs [])
    (finish_append ig i ?l ?wm (empty_retry_count (iw_checkpoint w) i ?l) (highest_covered_of ?cov r a) a) w"
  have below: "start \<le> d \<and> d \<le> new \<Longrightarrow> False" if "?wm = Some new" for d
    using that assms(2) by (auto simp: fetch_start_def succ_opt_def split: option.splits if_splits)
  have nil: ?thesis if "?wm = Some new"
    using below [OF that] by (intro exI [of _ "[]"] exI [of _ w]) (auto intro: stored_run.nothing_stored)
  have ran: ?thesis if run: "?run = (Val (), w')"
  proof -
    from run obtain halt served w2 where lp: "append_loop ig shcode i kind bar_type last_closed ?subs [] w = (Val (halt, served), w2)"
      and fin: "finish_append ig i ?l ?wm (empty_retry_count (iw_checkpoint w) i ?l) (highest_covered_of ?cov r a) a
        (halt, served) w2 = (Val (), w')"
      by (auto simp: act_bind_def split: io.splits prod.splits)
    from append_loop_stores [OF lp stored_run.nothing_stored] obtain w1 where
      st: "stored_run ig shcode kind bar_type w served w1" and
      halt: "case halt of None \<Rightarrow> served = ?subs | Some s \<Rightarrow> \<exists>e rest. ?subs = served @ (s, e) # rest" and
      cw: "cp_watermarks (iw_checkpoint w2) = cp_watermarks (iw_checkpoint w)" by auto
    have wm2: "watermark ?k (iw_checkpoint w2) i ?l = ?wm" by (simp add: watermark_of cw)
    have new: "watermark ?k (settle_watermark ?k i ?l ?wm halt (highest_covered_of ?cov r a) a (iw_checkpoint w2)) i ?l = Some new"
      using assms(6) finish_checkpoint [OF fin] by (simp add: watermark_of)
    have pre: "start \<le> s \<and> s \<le> r \<and> {start..s - 1} \<subseteq> span_days served \<union> span_days ?cov" if "halt = Some s" for s
    proof -
      from halt that obtain e rest where sp: "?subs = served @ (s, e) # rest" by auto
      from subtract_prefix [OF sp] subtract_bounds [OF sp] show ?thesis by auto
    qed
    have ok: "ymd_ok ?k a" "\<forall>s. halt = Some s \<longrightarrow> ymd_ok ?k (s - 1)"
      using assms(5) a(2-4) pre by force+
    from settled [OF ok wm2 new] consider (adv) "halt = None" "new = a"
      | (pin) s where "halt = Some s" "new = s - 1" | (old) "?wm = Some new" by blast
    then show ?thesis
    proof cases
      case adv
      with halt have "{start..r} \<subseteq> span_days served \<union> span_days ?cov" using subtract_covers by auto
      with st a(5) adv(2) show ?thesis by (intro exI [of _ served] exI [of _ w1]) force
    next
      case pin
      with st pre [OF pin(1)] show ?thesis by (intro exI [of _ served] exI [of _ w1]) auto
    qed (rule nil)
  qed
  show ?thesis
  proof (cases "?subs = []")
    case True
    with assms(1,2) r a(1) have "?run = (Val (), w')" by (simp add: append_triple_def Let_def)
    then show ?thesis by (rule ran)
  next
    case False
    from assms(1,2) r a(1) False obtain d where
      d: "budget_plan ig (estimate_pages kind ?subs) w = (Val d, w)" "d = BudgetProceed \<longrightarrow> ?run = (Val (), w')"
        "d \<noteq> BudgetProceed \<longrightarrow> iw_checkpoint w' = iw_checkpoint w"
      by (auto simp: append_triple_def Let_def act_bind_def budget_plan_def act_mod_def
          split: option.splits budget_decision.splits)
    show ?thesis
    proof (cases "d = BudgetProceed")
      case True
      with d(2) show ?thesis by (intro ran) simp
    next
      case False
      with d(3) assms(6) show ?thesis by (intro nil) simp
    qed
  qed
qed

end
