(* ===== verification/Ingest_Cases.thy ===== *)
theory Ingest_Cases
  imports Ingest_Accumulate
begin

text \<open>
  Concrete runs of the ingestor: a gateway that answers by call number, a catalog that is a list of
  bars, and dates of January 2024. They witness the hypotheses of the run theorems and show what
  the accumulate and range modes do with a minute range they could not fetch whole.
\<close>

section \<open>The parts\<close>

definition jan_format :: "int \<Rightarrow> string" where
  "jan_format d = (if 738886 \<le> d \<and> d \<le> 738894 then ''2024010'' @ [''123456789'' ! nat (d - 738886)] else [])"

definition jan_parse :: "string \<Rightarrow> int option" where
  "jan_parse s = find (\<lambda>d. jan_format d = s) [738886..738894]"

definition jan_env :: bar_env where
  "jan_env = \<lparr>be_ymd = \<lparr>ymd_parse = jan_parse, ymd_format = jan_format\<rparr>, be_ymd_error = (\<lambda>s. ''input contains invalid characters''),
     be_time = (\<lambda>f s. Inr (9 * 3600 * 10 ^ 9)), be_text = (\<lambda>d t. []), be_price = (\<lambda>i. True),
     be_quantity = (\<lambda>i. True), be_checked = (\<lambda>b. True)\<rparr>"

text \<open>A file per append, its interval the span of its bars.\<close>

definition file_span :: "price_bar list \<Rightarrow> int \<times> int" where
  "file_span bs = (Min (set (map br_init bs)), Max (set (map br_init bs)))"

definition list_catalog :: "price_bar list list catalog_api" where
  "list_catalog = \<lparr>ca_intervals = (\<lambda>c t. Inr (map file_span (filter (\<lambda>bs. \<exists>b\<in>set bs. br_type b = t) c))),
     ca_bars = (\<lambda>c t a b. Inr (filter (\<lambda>x. br_type x = t) (concat c))),
     ca_write = (\<lambda>c bs. (Inr (), c @ [bs])),
     ca_delete = (\<lambda>c t. (Inr (), filter (\<lambda>bs. \<not> (\<exists>b\<in>set bs. br_type b = t)) c))\<rparr>"

definition day_row_of :: "int \<Rightarrow> t8410_row" where
  "day_row_of d = \<lparr>d8_date = jan_format d, d8_open = show_nat 100, d8_high = show_nat 100, d8_low = show_nat 100,
     d8_close = show_nat 100, d8_volume = show_nat 7\<rparr>"

definition minute_row_of :: "int \<Rightarrow> t8412_row" where
  "minute_row_of d = \<lparr>m8_date = jan_format d, m8_time = ''0900'', m8_open = show_nat 100, m8_high = show_nat 100,
     m8_low = show_nat 100, m8_close = show_nat 100, m8_volume = show_nat 7\<rparr>"

text \<open>
  The daily chart serves 5 January. The minute chart answers its first two calls with a page
  without rows under a live cursor, as the gateway does off-hours, and the third with 5 January.\<close>

definition jan_gateway :: sdk_fetcher where
  "jan_gateway = \<lparr>sf_cred = ''cred'', sf_daily_qrycnt = 900, sf_minute_qrycnt = 900, sf_daily_cap = 1, sf_minute_cap = 1,
     sf_now = int,
     sf_daily = (\<lambda>n s g q a b c. Inr \<lparr>dg_rows = [day_row_of 738890], dg_cts_date = [], dg_rec_count = ''1''\<rparr>),
     sf_minute = (\<lambda>n r. Inr (if n < 2 then \<lparr>mg_rows = [], mg_cts_date = ''20240104'', mg_cts_time = ''0900'', mg_cont_key = []\<rparr>
       else \<lparr>mg_rows = [minute_row_of 738890], mg_cts_date = [], mg_cts_time = [], mg_cont_key = []\<rparr>))\<rparr>"

definition jan_text :: walk_text where
  "jan_text = \<lparr>wt_query = (\<lambda>q. []), wt_date = jan_format, wt_error = (\<lambda>e. []), wt_quoted = (\<lambda>s. s), wt_parse = (\<lambda>s. s)\<rparr>"

definition jan_ingestor :: "price_bar list list ingestor" where
  "jan_ingestor = \<lparr>ig_env = jan_env, ig_text = jan_text, ig_sdk = jan_gateway, ig_api = list_catalog,
     ig_kinds = [Daily, Minute 1], ig_sdate = ''20240104'', ig_edate = ''20240105'', ig_adjusted = True,
     ig_overlap_days = DEFAULT_OVERLAP_DAYS, ig_empty_retry_max = DEFAULT_EMPTY_RETRY_MAX,
     ig_model = budget_model_default, ig_bar_type = (\<lambda>i k. Inr (i @ ''-'' @ kind_label k)), ig_mkdir = None,
     ig_save = (\<lambda>cp. None), ig_path = ''catalog'', ig_refusal = []\<rparr>"

definition jan_world :: "(string \<times> string) list \<Rightarrow> price_bar list list ingest_world" where
  "jan_world marks = \<lparr>fw_ledger = [], fw_calls = 0, iw_catalog = [], iw_checkpoint = checkpoint_default \<lparr>cp_watermarks := marks\<rparr>,
     iw_disk = None, iw_report = empty_report, iw_committed = False, iw_ledger_disk = None\<rparr>"

lemma jan_days: "[738886..738894] = [738886, 738887, 738888, 738889, 738890, 738891, 738892, 738893, 738894 :: int]"
  by (simp add: upto_rec_numeral)

lemma jan_cases:
  assumes "738886 \<le> d" and "d \<le> 738894"
  shows "d = 738886 \<or> d = 738887 \<or> d = 738888 \<or> d = 738889 \<or> d = 738890 \<or> d = 738891 \<or> d = 738892 \<or> d = 738893 \<or> d = (738894 :: int)"
  using assms by presburger

lemma jan_formats:
  "jan_format 738886 = ''20240101''" "jan_format 738887 = ''20240102''" "jan_format 738888 = ''20240103''"
  "jan_format 738889 = ''20240104''" "jan_format 738890 = ''20240105''" "jan_format 738891 = ''20240106''"
  "jan_format 738892 = ''20240107''" "jan_format 738893 = ''20240108''" "jan_format 738894 = ''20240109''"
  by (simp_all add: jan_format_def)

lemma jan_plain:
  assumes "738886 \<le> d" and "d \<le> 738894"
  shows "trim (jan_format d) = jan_format d"
proof (rule trim_plain)
  show "plain_char c" if "c \<in> set (jan_format d)" for c
    using jan_cases [OF assms] that by (elim disjE) (auto simp: jan_formats plain_char_def)
qed

lemma jan_inverse:
  assumes "738886 \<le> d" and "d \<le> 738894"
  shows "parse_ymd (be_ymd jan_env) (jan_format d) = Some d"
proof -
  have "jan_parse (jan_format d) = Some d"
    using jan_cases [OF assms] by (elim disjE) (simp_all add: jan_parse_def jan_days jan_formats)
  then show ?thesis by (simp add: parse_ymd_def jan_plain [OF assms] jan_env_def)
qed

lemma jan_codec: "be_ymd (ig_env jan_ingestor) = be_ymd jan_env" "codec jan_ingestor = be_ymd jan_env"
  by (simp_all add: codec_def jan_ingestor_def)

lemma jan_ymd: "ymd jan_ingestor d = jan_format d" "ymd_format (be_ymd jan_env) d = jan_format d"
  by (simp_all add: ymd_def jan_codec jan_env_def)

lemma jan_ok: "738886 \<le> d \<Longrightarrow> d \<le> 738894 \<Longrightarrow> ymd_ok (codec jan_ingestor) d"
  using jan_inverse by (simp add: ymd_ok_def jan_codec jan_ymd)

section \<open>Collecting\<close>

lemma jan_parse_date:
  assumes "738886 \<le> d" and "d \<le> 738894"
  shows "parse_yyyymmdd jan_env field (jan_format d) = Inr d"
  by (simp add: parse_yyyymmdd_def jan_inverse [OF assms])

lemma jan_number: "strict_i64 f (show_nat 100) = Inr 100" "strict_i64 f (show_nat 7) = Inr 7"
  using strict_i64_show_nat [of 100 f] strict_i64_show_nat [of 7 f] by (simp_all add: i64_max_def)

lemma jan_price: "price_from_krw jan_env f (show_nat 100) = Val 100" "qty_from_str jan_env f (show_nat 7) = Val 7"
  by (simp_all add: price_from_krw_def qty_from_str_def jan_number io_of_def io_bind_def) (simp_all add: jan_env_def)

definition jan_bar :: "string \<Rightarrow> int \<Rightarrow> price_bar" where
  "jan_bar t ts = \<lparr>br_type = t, br_open = 100, br_high = 100, br_low = 100, br_close = 100, br_volume = 7,
     br_event = ts, br_init = ts\<rparr>"

lemma jan_build: "build_bar jan_env t (show_nat 100) (show_nat 100) (show_nat 100) (show_nat 100) (show_nat 7) ts = Val (Some (jan_bar t ts))"
  by (simp add: build_bar_def jan_price io_bind_def jan_bar_def Let_def) (simp add: jan_env_def)

lemma jan_instant:
  assumes "738886 \<le> d" and "d \<le> 738894" and "0 \<le> t" and "t < nanos_per_day"
  shows "kst_to_unix_nanos jan_env d t = Inr (kst_nanos d t)"
proof -
  from jan_cases [OF assms(1,2)] assms(3,4) have "0 \<le> kst_nanos d t" "kst_nanos d t < 2 ^ 63" "d \<noteq> DATE_MIN"
    by (elim disjE; simp add: kst_nanos_def KST_OFFSET_def nanos_per_day_def DATE_MIN_def)+
  then show ?thesis by (auto simp: kst_to_unix_nanos_def Let_def)
qed

lemma jan_close: "738886 \<le> d \<Longrightarrow> session_close d = 55800 * 10 ^ 9"
  by (simp add: session_close_def CLOSE_REFORM_DAY_def KRX_REGULAR_CLOSE_def hms_def)

lemma jan_daily_bar:
  "build_daily_bar jan_env t (day_row_of 738890) = Val (Some (jan_bar t (kst_nanos 738890 (55800 * 10 ^ 9))))"
  using jan_plain [of 738890] jan_parse_date [of 738890] jan_instant [of 738890 "55800 * 10 ^ 9"]
  by (simp add: build_daily_bar_def day_row_of_def jan_formats jan_close io_of_def io_bind_def jan_build nanos_per_day_def)

definition nine_of_5th :: int where "nine_of_5th = kst_nanos 738890 (9 * 3600 * 10 ^ 9)"

lemma jan_minute_bar:
  "build_minute_bar jan_env t (minute_row_of 738890) = Val (Some (jan_bar t (nine_of_5th)))"
proof -
  have t: "trim ''0900'' = ''0900''" by (rule trim_plain) (auto simp: plain_char_def)
  have "parse_hms jan_env ''time'' ''0900'' = Inr (9 * 3600 * 10 ^ 9)"
    by (simp add: parse_hms_def t Let_def) (simp add: jan_env_def)
  then show ?thesis
    using jan_plain [of 738890] jan_parse_date [of 738890] jan_instant [of 738890 "9 * 3600 * 10 ^ 9"]
    by (simp add: build_minute_bar_def minute_row_of_def jan_formats t io_of_def io_bind_def jan_build nanos_per_day_def nine_of_5th_def)
qed

lemma minute_pages_one:
  assumes "0 < left"
  shows "minute_pages k left req seen pages w =
    (let r = sf_minute k (fw_calls w) req; w' = note_if_throttled k r (record_dispatch k w)
     in case r of
          Inl e \<Rightarrow> (Inl (Sdk e), w')
        | Inr p \<Rightarrow>
            (let next_date = trim (mg_cts_date p); next_time = trim (mg_cts_time p)
             in if next_date = [] then (Inr (pages @ [p]), w')
                else if mg_rows p = [] \<or> (next_date, next_time) \<in> set seen
                  then (Inl (Sdk (PaginationLimit MINUTE_MAX_PAGES)), w')
                else minute_pages k (left - 1)
                  (req \<lparr>mr_cts_date := next_date, mr_cts_time := next_time, mr_cont := ''Y'', mr_cont_key := mg_cont_key p\<rparr>)
                  ((next_date, next_time) # seen) (pages @ [p]) w'))"
proof -
  obtain n where "left = Suc n" using assms by (cases left) auto
  then show ?thesis by (simp only: minute_pages.simps diff_Suc_1)
qed

definition live_cursor_page :: minute_page where
  "live_cursor_page = \<lparr>mg_rows = [], mg_cts_date = ''20240104'', mg_cts_time = ''0900'', mg_cont_key = []\<rparr>"

lemma jan_minute_calls:
  "sdk_minute_chunk jan_gateway w s n a b =
     (if fw_calls w < 2 then (Inl (Sdk (PaginationLimit MINUTE_MAX_PAGES)), record_dispatch jan_gateway w)
      else (Inr [\<lparr>mg_rows = [minute_row_of 738890], mg_cts_date = [], mg_cts_time = [], mg_cont_key = []\<rparr>],
            record_dispatch jan_gateway w))"
proof -
  have t: "trim ''20240104'' = ''20240104''" using jan_plain [of 738889] by (simp add: jan_formats)
  have e: "trim [] = []" by (rule trim_plain) simp
  have n: "note_if_throttled jan_gateway (Inr x) v = v" for x :: minute_page and v :: "'a fetch_world_scheme"
    by (simp add: note_if_throttled_def)
  have g: "sf_minute jan_gateway m r = Inr (if m < 2 then live_cursor_page
      else \<lparr>mg_rows = [minute_row_of 738890], mg_cts_date = [], mg_cts_time = [], mg_cont_key = []\<rparr>)" for m r
    by (simp add: jan_gateway_def live_cursor_page_def)
  have m: "0 < MINUTE_MAX_PAGES" by (simp add: MINUTE_MAX_PAGES_def)
  show ?thesis
    unfolding sdk_minute_chunk_def minute_pages_one [OF m] g Let_def
    by (simp add: n t e live_cursor_page_def)
qed

lemma dispatched: "fw_calls (record_dispatch k w) = fw_calls w + 1"
  by (simp add: record_dispatch_def)

abbreviation thrice :: "'c ingest_world \<Rightarrow> 'c ingest_world" where
  "thrice w \<equiv> record_dispatch jan_gateway (record_dispatch jan_gateway (record_dispatch jan_gateway w))"

lemma jan_minute_loop:
  assumes "fw_calls w = 0"
  shows "minute_loop jan_env (build_minute_bar jan_env t) (sdk_minute jan_gateway) s n [(738889, 738890)] 0 0 False [] w =
    (Val ([jan_bar t (nine_of_5th)], True), thrice w)"
proof -
  have h: "requeue_halves [] 738889 738890 = Some [(738889, 738889), (738890, 738890)]"
      "requeue_halves q 738889 738889 = None" for q
    by (simp_all add: requeue_halves_def split_range_def Let_def)
  have f: "mx_fetch (sdk_minute jan_gateway) = sdk_minute_chunk jan_gateway" by (simp add: sdk_minute_def)
  show ?thesis
    by (subst minute_loop.simps(2), simp add: f jan_minute_calls assms is_pagination_limit_def h)
      (subst minute_loop.simps(2), simp add: f jan_minute_calls dispatched assms is_pagination_limit_def h,
       subst minute_loop.simps(2), simp add: f jan_minute_calls dispatched assms jan_minute_bar io_bind_def)
qed

text \<open>The collector answers with the bars of the fifth although the fourth was given up.\<close>

lemma jan_collect_minute:
  assumes "fw_calls w = 0"
  shows "collect jan_ingestor s (Minute n) t ''20240104'' ''20240105'' w =
    (Val (TripleBars [jan_bar t (nine_of_5th)]), thrice w)"
proof -
  have e: "ig_env jan_ingestor = jan_env" "ig_sdk jan_ingestor = jan_gateway" by (simp_all add: jan_ingestor_def)
  show ?thesis
    using jan_parse_date [of 738889 "''sdate''"] jan_parse_date [of 738890 "''edate''"] jan_minute_loop [OF assms]
    by (simp add: collect_def collect_minute_def e jan_formats io_bind_def io_of_def)
qed

section \<open>A minute range the run could not fetch whole\<close>

definition minute_series :: string where "minute_series = ''000001.XKRX-1-MINUTE''"

lemma jan_append:
  assumes "iw_catalog w = []"
  shows "append_bars jan_ingestor t [b] w = (Val (Inr ()), w \<lparr>iw_catalog := [[b]]\<rparr>)"
  using assms by (simp add: append_bars_def append_bars_checked_def jan_ingestor_def list_catalog_def)

lemma thrice_frame: "fetch_world.more (thrice w) = fetch_world.more w"
  by (simp add: record_dispatch_def)

lemma jan_budget: "budget_plan jan_ingestor n w = (Val BudgetProceed, w)"
  by (simp add: budget_plan_def plan_dispatch_def jan_ingestor_def budget_model_default_def)

lemma jan_save: "save_checkpoint jan_ingestor w = (Val (), w \<lparr>iw_disk := Some (iw_checkpoint w)\<rparr>)"
  by (simp add: save_checkpoint_def jan_ingestor_def)

definition thin_plan :: range_plan where
  "thin_plan = \<lparr>rp_request = Some 738890, rp_advance = Some 738890, rp_stop = None\<rparr>"

lemma jan_fresh:
  "watermark k (iw_checkpoint (jan_world [])) i b = None"
  "covered_above k (iw_checkpoint (jan_world [])) i b = []"
  by (simp_all add: covered_above_def watermark_def get_ymd_def jan_world_def)

lemma thin_loop:
  assumes "fw_calls w = 0" and "iw_catalog w = []"
  shows "append_loop jan_ingestor s i (Minute n) t last_closed [(738889, 738890)] [] w =
    (Val (None, [(738889, 738890)]),
     tally (\<lambda>x. x \<lparr>cv_bars := cv_bars x + 1\<rparr>)
       ((thrice w) \<lparr>iw_catalog := [[jan_bar t (nine_of_5th)]]\<rparr>))"
proof -
  have c: "iw_catalog (thrice w) = []" using assms(2) by (simp add: record_dispatch_def)
  show ?thesis
    by (simp add: act_bind_def jan_ymd jan_formats jan_collect_minute [OF assms(1)] jan_append [OF c])
qed

text \<open>
  A minute range can be attested without being fetched: the gateway answers the fourth of January
  with a page it did not complete, that day is given up, the fifth serves its bar, and the run
  moves the watermark to the fifth, stores bars of the fifth only and reports no gap.\<close>

theorem unserved_minute_day_is_attested:
  "case append_triple jan_ingestor ''000001'' ''000001.XKRX'' (Minute 1) minute_series 738890 738889 thin_plan (jan_world []) of
     (r, w) \<Rightarrow> r = Val () \<and>
       watermark (codec jan_ingestor) (iw_checkpoint w) ''000001.XKRX'' (kind_label (Minute 1)) = Some 738890 \<and>
       map (\<lambda>b. kst_date_of (br_event b)) (concat (iw_catalog w)) = [738890] \<and> cv_gaps (iw_report w) = []"
proof -
  let ?w0 = "jan_world []" and ?l = "kind_label (Minute 1)" and ?i = "''000001.XKRX''"
  have w0: "fw_calls ?w0 = 0" "iw_catalog ?w0 = []" by (simp_all add: jan_world_def)
  have start: "fetch_start None 738889 = Val 738889" by (simp add: fetch_start_def)
  have subs: "subtract_covered 738889 738890 [] = [(738889, 738890)]" by simp
  have hc: "highest_covered_of [] 738890 738890 = None" by (simp add: highest_covered_of_def max_date_def)
  let ?w1 = "tally (\<lambda>x. x \<lparr>cv_bars := cv_bars x + 1\<rparr>)
    ((thrice ?w0) \<lparr>iw_catalog := [[jan_bar minute_series (nine_of_5th)]]\<rparr>)"
  have run: "append_triple jan_ingestor ''000001'' ?i (Minute 1) minute_series 738890 738889 thin_plan ?w0 =
      finish_append jan_ingestor ?i ?l None (empty_retry_count (iw_checkpoint ?w0) ?i ?l) None 738890
        (None, [(738889, 738890)]) ?w1"
    unfolding append_triple_def Let_def thin_plan_def range_plan.select_convs jan_fresh start subs hc
    by (simp add: act_bind_def jan_budget subs thin_loop [OF w0] hc del: append_loop.simps One_nat_def)
  have cp: "iw_checkpoint ?w1 = checkpoint_default \<lparr>cp_watermarks := []\<rparr>" "iw_report ?w1 = empty_report \<lparr>cv_bars := 1\<rparr>"
    by (simp_all add: tally_def record_dispatch_def jan_world_def empty_report_def)
  have rep: "cv_gaps (iw_report (thrice ?w0)) = []"
    by (simp add: record_dispatch_def jan_world_def empty_report_def)
  have cat: "iw_catalog ?w1 = [[jan_bar minute_series (nine_of_5th)]]"
    by (simp add: tally_def)
  have day: "kst_date_of (nine_of_5th) = 738890"
    by (simp add: nine_of_5th_def kst_date_of_def kst_nanos_def KST_OFFSET_def nanos_per_day_def date_naive_def)
  have wm: "watermark (codec jan_ingestor) (reset_empty_retry ?i ?l (set_watermark (codec jan_ingestor) ?i ?l 738890 cp)) ?i ?l
      = Some 738890" for cp
    using jan_inverse [of 738890]
    by (simp add: watermark_def reset_empty_retry_def set_watermark_def get_ymd_def jan_codec jan_ymd)
  show ?thesis
    unfolding run finish_append_def
    by (simp add: Let_def act_bind_def jan_save act_mod_def wm day cat cp rep settle_watermark_def mark_committed_def edit_def tally_def
        jan_bar_def empty_report_def del: One_nat_def)
qed

section \<open>A daily run over a week-end\<close>

definition close_of_5th :: int where "close_of_5th = kst_nanos 738890 (55800 * 10 ^ 9)"

definition daily_series :: string where "daily_series = ''000001.XKRX-1-DAY''"

abbreviation jan_daily_page :: daily_page where
  "jan_daily_page \<equiv> \<lparr>dg_rows = [day_row_of 738890], dg_cts_date = [], dg_rec_count = ''1''\<rparr>"

lemma jan_daily_call: "daily_page_loop (sdk_daily jan_gateway) s a b c p n w = (PageOk jan_daily_page, record_dispatch jan_gateway w)"
  by (subst daily_page_loop.simps) (simp add: sdk_daily_def sdk_daily_page_def Let_def note_if_throttled_def, simp add: jan_gateway_def)

lemma daily_walk_one:
  assumes "0 < left" and "daily_page_loop f s sd ed cts page 0 w = (PageOk r, w')"
    and "window_rows build lo hi (dg_rows r) = Val (new, below)" and "trim (dg_cts_date r) = []"
  shows "daily_walk build f s sd ed lo hi page left cts seen bars w = (Val (Inr (bars @ new, False)), w')"
proof -
  obtain n where n: "left = Suc n" using assms(1) by (cases left) auto
  show ?thesis by (simp add: n assms(2-4) Let_def)
qed

lemma jan_collect_daily:
  "collect jan_ingestor s Daily t ''20240105'' ''20240105'' w =
    (Val (TripleBars [jan_bar t close_of_5th]), record_dispatch jan_gateway w)"
proof -
  have e: "ig_env jan_ingestor = jan_env" "ig_sdk jan_ingestor = jan_gateway" by (simp_all add: jan_ingestor_def)
  have p: "parse_yyyymmdd jan_env f ''20240105'' = Inr 738890" for f
    using jan_parse_date [of 738890 f] by (simp add: jan_formats)
  have k: "kst_to_unix_nanos jan_env 738890 (session_close 738890) = Inr close_of_5th"
    using jan_instant [of 738890 "55800 * 10 ^ 9"] by (simp add: jan_close close_of_5th_def nanos_per_day_def)
  have tr: "trim [] = []" by (rule trim_plain) simp
  have b: "build_daily_bar jan_env t (day_row_of 738890) = Val (Some (jan_bar t close_of_5th))"
    by (simp add: jan_daily_bar close_of_5th_def)
  have rows: "window_rows (build_daily_bar jan_env t) close_of_5th close_of_5th (dg_rows jan_daily_page) =
      Val ([jan_bar t close_of_5th], False)"
    by (simp add: b io_bind_def) (simp add: jan_bar_def)
  have w: "daily_walk (build_daily_bar jan_env t) (sdk_daily jan_gateway) s ''20240105'' ''20240105'' close_of_5th close_of_5th
      0 MAX_DAILY_PAGES [] [] [] w = (Val (Inr ([] @ [jan_bar t close_of_5th], False)), record_dispatch jan_gateway w)"
    by (rule daily_walk_one [OF _ jan_daily_call rows]) (simp_all add: MAX_DAILY_PAGES_def tr)
  show ?thesis
    unfolding collect_def bar_kind.case collect_daily_def e p io_of_def sum.case io_bind_def io.case k prod.case w by simp
qed

lemma jan_daily_loop:
  assumes "iw_catalog w = []"
  shows "append_loop jan_ingestor s i Daily t last_closed [(738890, 738890)] [] w =
    (Val (None, [(738890, 738890)]),
     tally (\<lambda>x. x \<lparr>cv_bars := cv_bars x + 1\<rparr>) ((record_dispatch jan_gateway w) \<lparr>iw_catalog := [[jan_bar t close_of_5th]]\<rparr>))"
proof -
  have c: "iw_catalog (record_dispatch jan_gateway w) = []" using assms by (simp add: record_dispatch_def)
  show ?thesis by (simp add: act_bind_def jan_ymd jan_formats jan_collect_daily jan_append [OF c])
qed

lemma weekend_plan:
  "accumulate_plan (Some sample_view) 738890 738892 = \<lparr>rp_request = Some 738890, rp_advance = Some 738892, rp_stop = None\<rparr>"
proof -
  have l: "[738890..738892] = [738890, 738891, 738892 :: int]" by (simp add: upto_rec_numeral)
  have p: "proven (Some sample_view) 738890" "proven (Some sample_view) 738891" "proven (Some sample_view) 738892"
    by (simp_all add: proven_def sample_known)
  show ?thesis
    unfolding accumulate_plan_is [OF sample_gate_ok, of 738892, simplified DATE_MAX_def, simplified] established_plan_def l
    by (simp add: p sample_known Let_def)
qed

lemma weekend_run:
  obtains w' where
    "append_triple jan_ingestor ''000001'' ''000001.XKRX'' Daily daily_series 738892 738890
      (accumulate_plan (Some sample_view) 738890 738892) (jan_world []) = (Val (), w')"
    and "watermark (codec jan_ingestor) (iw_checkpoint w') ''000001.XKRX'' (kind_label Daily) = Some 738892"
proof -
  let ?w0 = "jan_world []" and ?l = "kind_label Daily" and ?i = "''000001.XKRX''"
  have w0: "iw_catalog ?w0 = []" by (simp add: jan_world_def)
  have start: "fetch_start None 738890 = Val 738890" by (simp add: fetch_start_def)
  have subs: "subtract_covered 738890 738890 [] = [(738890, 738890)]" by simp
  have hc: "highest_covered_of [] 738890 738892 = None" by (simp add: highest_covered_of_def max_date_def)
  let ?w1 = "tally (\<lambda>x. x \<lparr>cv_bars := cv_bars x + 1\<rparr>)
    ((record_dispatch jan_gateway ?w0) \<lparr>iw_catalog := [[jan_bar daily_series close_of_5th]]\<rparr>)"
  have run: "append_triple jan_ingestor ''000001'' ?i Daily daily_series 738892 738890
      (accumulate_plan (Some sample_view) 738890 738892) ?w0 =
      finish_append jan_ingestor ?i ?l None (empty_retry_count (iw_checkpoint ?w0) ?i ?l) None 738892
        (None, [(738890, 738890)]) ?w1"
    unfolding append_triple_def Let_def weekend_plan range_plan.select_convs jan_fresh start subs hc
    by (simp add: act_bind_def jan_budget subs jan_daily_loop [OF w0] hc del: append_loop.simps)
  have wm: "watermark (codec jan_ingestor) (reset_empty_retry ?i ?l (set_watermark (codec jan_ingestor) ?i ?l 738892 cp)) ?i ?l
      = Some 738892" for cp
    using jan_inverse [of 738892]
    by (simp add: watermark_def reset_empty_retry_def set_watermark_def get_ymd_def jan_codec jan_ymd)
  obtain w' where "finish_append jan_ingestor ?i ?l None (empty_retry_count (iw_checkpoint ?w0) ?i ?l) None 738892
        (None, [(738890, 738890)]) ?w1 = (Val (), w')"
      and "watermark (codec jan_ingestor) (iw_checkpoint w') ?i ?l = Some 738892"
    unfolding finish_append_def
    by (simp add: Let_def act_bind_def jan_save act_mod_def wm settle_watermark_def mark_committed_def edit_def tally_def)
  with run show ?thesis by (intro that) simp_all
qed

theorem watermark_attests_evidence_witness:
  "\<exists>served w1. stored_run jan_ingestor ''000001'' Daily daily_series (jan_world []) served w1 \<and>
    (738891 \<in> span_days served \<or> known (Some sample_view) 738891 = Some DayClosed)"
proof -
  obtain w' where run: "append_triple jan_ingestor ''000001'' ''000001.XKRX'' Daily daily_series 738892 738890
      (accumulate_plan (Some sample_view) 738890 738892) (jan_world []) = (Val (), w')"
    and wm: "watermark (codec jan_ingestor) (iw_checkpoint w') ''000001.XKRX'' (kind_label Daily) = Some 738892"
    by (rule weekend_run)
  have start: "fetch_start (watermark (codec jan_ingestor) (iw_checkpoint (jan_world [])) ''000001.XKRX'' (kind_label Daily)) 738890 = Val 738890"
    by (simp add: jan_fresh fetch_start_def)
  have ok: "\<forall>d. 738890 - 1 \<le> d \<and> d \<le> 738892 \<longrightarrow> ymd_ok (codec jan_ingestor) d" using jan_ok by simp
  have m: "738892 \<le> DATE_MAX" by (simp add: DATE_MAX_def)
  from watermark_attests_evidence [OF run start sample_gate_ok m ok wm] obtain served w1 where
    "stored_run jan_ingestor ''000001'' Daily daily_series (jan_world []) served w1"
    "\<forall>d. 738890 \<le> d \<and> d \<le> 738892 \<longrightarrow> d \<in> span_days served \<or> d \<in> span_days [] \<or> known (Some sample_view) d = Some DayClosed"
    by (auto simp: jan_fresh)
  moreover from this(2) have "738891 \<in> span_days served \<or> known (Some sample_view) 738891 = Some DayClosed"
    by (auto dest: spec [of _ 738891])
  ultimately show ?thesis by blast
qed

end
