(* ===== verification/Ingest_Backfill.thy ===== *)
theory Ingest_Backfill
  imports Ingest_Cases
begin

text \<open>
  The windowed backfill (\<open>ingest/mod.rs\<close>, \<open>ingest/backfill.rs\<close>): one attended session over a batch of
  planned symbols, and the completeness report read from the catalog afterwards. A session marks the home
  before its first fetch, appends one verified window at a time, saves the checkpoint after each, and
  clears the mark only when every symbol of the manifest is at the anchor.
\<close>

section \<open>Reports of a session\<close>

record degraded_symbol =
  ds_shcode :: string
  ds_reason :: string

record backfill_report =
  bk_bars :: nat
  bk_windows :: nat
  bk_attempted :: nat
  bk_complete :: nat
  bk_skipped :: nat
  bk_degraded :: "degraded_symbol list"
  bk_gaps :: "string list"
  bk_restarted :: "string list"
  bk_refusals :: "string list"
  bk_cleared :: bool

definition backfill_report_default :: backfill_report where
  "backfill_report_default = \<lparr>bk_bars = 0, bk_windows = 0, bk_attempted = 0, bk_complete = 0, bk_skipped = 0,
     bk_degraded = [], bk_gaps = [], bk_restarted = [], bk_refusals = [], bk_cleared = False\<rparr>"

definition backfill_any_refused :: "backfill_report \<Rightarrow> bool" where
  "backfill_any_refused r = (bk_degraded r \<noteq> [] \<or> bk_refusals r \<noteq> [])"

definition instrument_id_for :: "string \<Rightarrow> string" where
  "instrument_id_for shcode = shcode @ ''.XKRX''"

definition daily_label :: string where "daily_label = kind_label Daily"

section \<open>One symbol\<close>

definition degrade_backfill_symbol ::
  "'c ingestor \<Rightarrow> string \<Rightarrow> string \<Rightarrow> string \<Rightarrow> string \<Rightarrow> backfill_report \<Rightarrow> ('c, backfill_report) act" where
  "degrade_backfill_symbol ig i label shcode reason rep =
     act_bind (act_mod (edit (mark_backfill_degraded i label reason))) (\<lambda>_.
     act_bind (save_checkpoint ig) (\<lambda>_.
     act_val (Val (rep \<lparr>bk_degraded := bk_degraded rep @ [\<lparr>ds_shcode = shcode, ds_reason = reason\<rparr>]\<rparr>))))"

text \<open>One window: whether the loop goes on, and the report. The watermark moves only after an append.\<close>

definition backfill_window ::
  "'c ingestor \<Rightarrow> string \<Rightarrow> string \<Rightarrow> string \<Rightarrow> int \<Rightarrow> session_window \<Rightarrow> backfill_report \<Rightarrow> ('c, bool \<times> backfill_report) act" where
  "backfill_window ig shcode i bar_type date x rep =
     (let rng = ymd ig (ww_sdate x) @ ''..'' @ ymd ig (ww_edate x); tries = max (ig_empty_retry_max ig) 1;
          degrade = (\<lambda>reason rep. act_bind (degrade_backfill_symbol ig i daily_label shcode reason rep)
            (\<lambda>rep. act_val (Val (False, rep))))
      in act_bind (pull_backfill_window ig shcode bar_type x tries) (\<lambda>step.
           case step of
             StepEmpty \<Rightarrow>
               act_bind (act_mod (edit (record_gap_uncovered i daily_label rng EmptyHistory))) (\<lambda>_.
                 degrade (''window '' @ rng @ '' completed cleanly with zero rows through '' @ show_nat tries @ '' attempts'')
                   (rep \<lparr>bk_gaps := bk_gaps rep @ [i @ '' '' @ rng]\<rparr>))
           | StepFailed reason \<Rightarrow> degrade reason rep
           | StepBars bars \<Rightarrow>
               act_bind (append_bars ig bar_type bars) (\<lambda>r.
                 case r of
                   Inr _ \<Rightarrow>
                     act_bind (act_mod (edit (clear_backfill_degraded i daily_label \<circ>
                         set_backfill_session (codec ig) i daily_label date \<circ>
                         set_watermark (codec ig) i daily_label (ww_edate x)))) (\<lambda>_.
                     act_bind (save_checkpoint ig) (\<lambda>_.
                     act_val (Val (True, rep \<lparr>bk_bars := bk_bars rep + length bars, bk_windows := bk_windows rep + 1\<rparr>))))
                 | Inl (OverlapRefused _ attempted stored) \<Rightarrow>
                     degrade (''append refused: '' @ attempted @ '' overlaps stored coverage ['' @ stored @ '']'')
                       (rep \<lparr>bk_refusals := bk_refusals rep @
                          [i @ '' '' @ daily_label @ '': '' @ attempted @ '' overlaps ['' @ stored @ '']'']\<rparr>)
                 | Inl e \<Rightarrow> act_val (Err e))))"

text \<open>The windows still to pull, oldest first: the watermark and the report they leave.\<close>

fun backfill_windows ::
  "'c ingestor \<Rightarrow> string \<Rightarrow> string \<Rightarrow> string \<Rightarrow> int \<Rightarrow> session_window list \<Rightarrow> int option \<Rightarrow> backfill_report \<Rightarrow>
   ('c, int option \<times> backfill_report) act" where
  "backfill_windows ig shcode i bar_type date [] wm rep w = (Val (wm, rep), w)"
| "backfill_windows ig shcode i bar_type date (x # xs) wm rep w =
     act_bind (backfill_window ig shcode i bar_type date x rep) (\<lambda>(goes_on, rep).
       if goes_on then backfill_windows ig shcode i bar_type date xs (Some (ww_edate x)) rep
       else act_val (Val (wm, rep))) w"

text \<open>The watermark is moved forward to the stored coverage before the first fetch.\<close>

definition reconcile_symbol :: "'c ingestor \<Rightarrow> string \<Rightarrow> string \<Rightarrow> session_window list \<Rightarrow> ('c, unit) act" where
  "reconcile_symbol ig i bar_type windows w =
     act_bind (act_val (io_of (reconcile_from_catalog (ig_api ig) (iw_catalog w) bar_type windows
         (watermark (codec ig) (iw_checkpoint w) i daily_label)))) (\<lambda>r.
       case r of
         None \<Rightarrow> act_val (Val ())
       | Some d \<Rightarrow>
           act_bind (act_mod (edit (set_watermark (codec ig) i daily_label d))) (\<lambda>_. save_checkpoint ig)) w"

text \<open>A resume on another day looks at the basis; a shift clears the watermark, saves, then deletes the bars.\<close>

definition resume_symbol ::
  "'c ingestor \<Rightarrow> string \<Rightarrow> string \<Rightarrow> string \<Rightarrow> int \<Rightarrow> backfill_report \<Rightarrow> ('c, backfill_report) act" where
  "resume_symbol ig shcode i bar_type date rep w =
     (case watermark (codec ig) (iw_checkpoint w) i daily_label of
        None \<Rightarrow> (Val rep, w)
      | Some wm \<Rightarrow>
          if backfill_session (codec ig) (iw_checkpoint w) i daily_label = Some date then (Val rep, w)
          else act_bind (detect_shift ig shcode bar_type wm) (\<lambda>shifted.
            if shifted
            then act_bind (act_mod (edit (clear_backfill_degraded i daily_label \<circ> clear_watermark i daily_label))) (\<lambda>_.
                 act_bind (save_checkpoint ig) (\<lambda>_.
                 act_bind (\<lambda>w. case ca_delete (ig_api ig) (iw_catalog w) bar_type of
                             (r, c) \<Rightarrow> (io_of r, w \<lparr>iw_catalog := c\<rparr>)) (\<lambda>_.
                 act_val (Val (rep \<lparr>bk_restarted := bk_restarted rep @ [shcode]\<rparr>)))))
            else act_val (Val rep)) w)"

definition pull_symbol ::
  "'c ingestor \<Rightarrow> backfill_plan \<Rightarrow> int \<Rightarrow> string \<Rightarrow> string \<Rightarrow> session_window list \<Rightarrow> backfill_report \<Rightarrow> ('c, backfill_report) act" where
  "pull_symbol ig plan date shcode bar_type windows rep w =
     (let i = instrument_id_for shcode; wm = watermark (codec ig) (iw_checkpoint w) i daily_label
      in act_bind (backfill_windows ig shcode i bar_type date (remaining_windows windows wm) wm rep) (\<lambda>(wm, rep).
         act_bind (act_mod save_ledger) (\<lambda>_.
         act_val (Val (if wm = Some (bp_anchor plan) then rep \<lparr>bk_complete := bk_complete rep + 1\<rparr> else rep)))) w)"

definition backfill_symbol ::
  "'c ingestor \<Rightarrow> backfill_plan \<Rightarrow> int \<Rightarrow> string \<Rightarrow> backfill_report \<Rightarrow> ('c, backfill_report) act" where
  "backfill_symbol ig plan date shcode rep =
     (case plan_symbol plan shcode of
        None \<Rightarrow> act_val Panic
      | Some p \<Rightarrow>
          (let i = instrument_id_for shcode; rep' = rep \<lparr>bk_attempted := bk_attempted rep + 1\<rparr>
           in act_bind (act_val (io_of (ig_bar_type ig i Daily))) (\<lambda>bar_type w.
                if watermark (codec ig) (iw_checkpoint w) i daily_label = Some (bp_anchor plan)
                then act_val (Val (rep' \<lparr>bk_skipped := bk_skipped rep + 1, bk_complete := bk_complete rep + 1\<rparr>)) w
                else act_bind (reconcile_symbol ig i bar_type (sl_windows p)) (\<lambda>_.
                     act_bind (resume_symbol ig shcode i bar_type date rep')
                       (pull_symbol ig plan date shcode bar_type (sl_windows p))) w)))"

section \<open>A session\<close>

fun backfill_batch ::
  "'c ingestor \<Rightarrow> backfill_plan \<Rightarrow> int \<Rightarrow> string list \<Rightarrow> backfill_report \<Rightarrow> ('c, backfill_report) act" where
  "backfill_batch ig plan date [] rep w = (Val rep, w)"
| "backfill_batch ig plan date (x # xs) rep w =
     act_bind (backfill_symbol ig plan date x rep) (backfill_batch ig plan date xs) w"

text \<open>On a home without the mark, a planned symbol that is not complete must hold no daily bars.\<close>

fun foreign_coverage :: "'c ingestor \<Rightarrow> int \<Rightarrow> symbol_plan list \<Rightarrow> ('c, unit) act" where
  "foreign_coverage ig anchor [] w = (Val (), w)"
| "foreign_coverage ig anchor (p # ps) w =
     (let i = instrument_id_for (sl_shcode p)
      in if watermark (codec ig) (iw_checkpoint w) i daily_label = Some anchor then foreign_coverage ig anchor ps w
         else act_bind (act_val (io_of (ig_bar_type ig i Daily))) (\<lambda>bar_type.
              act_bind (read_intervals ig bar_type) (\<lambda>stored.
                if stored \<noteq> []
                then act_val (Err (Ingest (''backfill refuses catalog '' @ ig_path ig @ '': '' @ i @ '' already holds daily bars'')))
                else foreign_coverage ig anchor ps)) w)"

definition all_at_anchor :: "ymd_codec \<Rightarrow> backfill_plan \<Rightarrow> checkpoint \<Rightarrow> bool" where
  "all_at_anchor k plan cp =
     list_all (\<lambda>p. watermark k cp (instrument_id_for (sl_shcode p)) daily_label = Some (bp_anchor plan)) (bp_symbols plan)"

text \<open>The end of a session: the mark clears only when every symbol of the manifest is at the anchor.\<close>

definition finish_backfill :: "'c ingestor \<Rightarrow> backfill_plan \<Rightarrow> backfill_report \<Rightarrow> ('c, backfill_report) act" where
  "finish_backfill ig plan rep w =
     act_bind (if all_at_anchor (codec ig) plan (iw_checkpoint w)
               then act_bind (act_mod (edit (set_backfill_incomplete False))) (\<lambda>_.
                    act_bind (save_checkpoint ig) (\<lambda>_. act_val (Val (rep \<lparr>bk_cleared := True\<rparr>))))
               else act_val (Val rep)) (\<lambda>rep.
     act_bind (act_mod save_ledger) (\<lambda>_. act_val (Val rep))) w"

definition run_backfill ::
  "'c ingestor \<Rightarrow> checkpoint_file \<Rightarrow> backfill_plan \<Rightarrow> string list \<Rightarrow> int \<Rightarrow> ('c, backfill_report) act" where
  "run_backfill ig f plan batch date w =
     (if \<not> list_all (\<lambda>k. k = Daily) (ig_kinds ig) then (Err (Ingest ''backfill is a daily-only mode''), w)
      else case ig_mkdir ig of
        Some m \<Rightarrow> (Err (Ingest (''mkdir catalog '' @ ig_path ig @ '': '' @ m)), w)
      | None \<Rightarrow>
          (case checkpoint_load (ig_path ig @ ''/ingest-checkpoint.json'') (codec ig) f of
             Inl m \<Rightarrow> (Err (Ingest m), w)
           | Inr cp \<Rightarrow>
               (case find (\<lambda>s. plan_symbol plan s = None) batch of
                  Some s \<Rightarrow>
                    (Err (Ingest (''backfill batch names '' @ wt_quoted (ig_text ig) s @ '', which is not a planned manifest member'')), w)
                | None \<Rightarrow>
                    act_bind (act_mod (\<lambda>w. w \<lparr>iw_checkpoint := cp \<lparr>cp_adjusted := ig_adjusted ig\<rparr>\<rparr>)) (\<lambda>_.
                    act_bind (if cp_backfill cp then act_val (Val ())
                              else foreign_coverage ig (bp_anchor plan) (bp_symbols plan)) (\<lambda>_.
                    act_bind (act_mod (edit (set_backfill_incomplete True))) (\<lambda>_.
                    act_bind (save_checkpoint ig) (\<lambda>_.
                    act_bind (backfill_batch ig plan date batch backfill_report_default)
                      (finish_backfill ig plan))))) w)))"

section \<open>What a session leaves on disk\<close>

definition keeps :: "('c ingest_world \<Rightarrow> bool) \<Rightarrow> ('c, 'a) act \<Rightarrow> bool" where
  "keeps P m = (\<forall>w. P w \<longrightarrow> P (snd (m w)))"

lemma keeps_bind: "keeps P m \<Longrightarrow> (\<And>a. keeps P (k a)) \<Longrightarrow> keeps P (act_bind m k)"
proof (unfold keeps_def, intro allI impI)
  fix w
  assume m: "\<forall>w. P w \<longrightarrow> P (snd (m w))" and k: "\<And>a. \<forall>w. P w \<longrightarrow> P (snd (k a w))" and w: "P w"
  obtain r w1 where r: "m w = (r, w1)" by (cases "m w")
  have "P w1" using m w r by (metis snd_conv)
  with k show "P (snd (act_bind m k w))" by (cases r) (simp_all add: act_bind_def r)
qed

lemma keeps_val [simp]: "keeps P (act_val x)"
  by (simp add: keeps_def act_val_def)

lemma keeps_mod: "(\<And>w. P w \<Longrightarrow> P (f w)) \<Longrightarrow> keeps P (act_mod f)"
  by (simp add: keeps_def act_mod_def)

lemma keeps_ext: "(\<And>w. m w = n w) \<Longrightarrow> keeps P n \<Longrightarrow> keeps P m"
  by (simp add: keeps_def)

lemma keeps_after: "keeps P m \<Longrightarrow> P w \<Longrightarrow> m w = (r, w') \<Longrightarrow> P w'"
  unfolding keeps_def by (metis snd_conv)

text \<open>The checkpoint in memory and the one on disk carry the mark.\<close>

definition marked :: "'c ingest_world \<Rightarrow> bool" where
  "marked w = (cp_backfill (iw_checkpoint w) \<and> (case iw_disk w of None \<Rightarrow> False | Some cp \<Rightarrow> cp_backfill cp))"

lemma marked_more: "fetch_world.more w' = fetch_world.more w \<Longrightarrow> marked w' = marked w"
  by (cases w; cases w'; simp add: marked_def)

lemma marked_edit:
  assumes "\<And>cp. cp_backfill (h cp) = cp_backfill cp"
  shows "keeps marked (act_mod (edit h))"
  by (rule keeps_mod) (simp add: marked_def edit_def assms)

lemma marked_save: "keeps marked (save_checkpoint ig)"
  by (auto simp: keeps_def marked_def save_checkpoint_def split: option.splits)

lemma marked_append: "keeps marked (append_bars ig bt bars)"
  by (auto simp: keeps_def marked_def append_bars_def split: prod.splits)

lemma marked_pull: "keeps marked (pull_backfill_window ig shcode bt x n)"
  unfolding keeps_def
proof (intro allI impI)
  fix w :: "'a ingest_world"
  assume "marked w"
  then show "marked (snd (pull_backfill_window ig shcode bt x n w))"
  proof (induction n arbitrary: w)
    case (Suc n)
    obtain r w1 where p: "pull_window (ig_text ig) (ig_env ig) (sdk_daily (ig_sdk ig)) shcode bt x MAX_BACKFILL_PAGES w = (r, w1)"
      by (metis surj_pair)
    have "marked w1" using marked_more [OF pull_window_frame [OF sdk_daily_frame p]] Suc.prems by simp
    with Suc.IH [of w1] show ?case by (auto simp: act_bind_def p act_val_def split: io.splits sum.splits)
  qed simp
qed

lemma marked_overlap: "keeps marked (fetch_overlap e (sdk_daily k) shcode bt a b)"
proof (unfold keeps_def, intro allI impI)
  fix w :: "'a ingest_world"
  assume w: "marked w"
  obtain r w1 where c: "collect_daily e (sdk_daily k) shcode bt (ymd_format (be_ymd e) a) (ymd_format (be_ymd e) b) w = (r, w1)"
    by (metis surj_pair)
  have "marked w1" using marked_more [OF collect_daily_frame [OF sdk_daily_frame c]] w by simp
  then show "marked (snd (fetch_overlap e (sdk_daily k) shcode bt a b w))"
    by (simp add: fetch_overlap_def c split: io.splits triple_outcome.splits)
qed

lemma marked_read: "keeps marked (read_scoped ig bt a b)"
  by (simp add: keeps_def read_scoped_def)

lemma marked_detect: "keeps marked (detect_shift ig shcode bt wm)"
  unfolding detect_shift_def Let_def
  by (intro keeps_bind keeps_val marked_read) (auto intro!: keeps_bind marked_overlap split: tail_gate.split)

lemmas marked_steps = keeps_bind keeps_val marked_save marked_append marked_pull marked_detect marked_edit
lemmas backfill_edits = mark_backfill_degraded_def record_gap_uncovered_def clear_backfill_degraded_def
  set_backfill_session_def set_watermark_def clear_watermark_def

lemma marked_degrade: "keeps marked (degrade_backfill_symbol ig i l s reason rep)"
  unfolding degrade_backfill_symbol_def by (intro marked_steps) (simp add: backfill_edits)


lemma marked_window: "keeps marked (backfill_window ig shcode i bt date x rep)"
  unfolding backfill_window_def Let_def
  by (intro marked_steps) (auto intro!: marked_steps marked_degrade simp: backfill_edits split: backfill_step.split sum.split adapter_error.split)

lemma marked_windows: "keeps marked (backfill_windows ig shcode i bt date xs wm rep)"
proof (induction xs arbitrary: wm rep)
  case (Cons x xs)
  show ?case
    by (rule keeps_ext [OF backfill_windows.simps(2)]) (intro marked_steps marked_window, auto intro!: Cons.IH)
qed (simp add: keeps_def)

lemma keeps_read: "(\<And>a. keeps P (m a)) \<Longrightarrow> keeps P (\<lambda>w. m (g w) w)"
  by (simp add: keeps_def)

lemma marked_reconcile: "keeps marked (reconcile_symbol ig i bt ws)"
proof -
  have "keeps marked (act_bind (act_val y) (\<lambda>r.
       case r of None \<Rightarrow> act_val (Val ())
       | Some d \<Rightarrow> act_bind (act_mod (edit (set_watermark (codec ig) i daily_label d))) (\<lambda>_. save_checkpoint ig)))" for y
    by (intro marked_steps) (auto intro!: marked_steps simp: backfill_edits split: option.split)
  then show ?thesis unfolding reconcile_symbol_def by (rule keeps_read)
qed

lemma marked_delete: "keeps marked (\<lambda>w. case ca_delete api (iw_catalog w) bt of (r, c) \<Rightarrow> (io_of r, w \<lparr>iw_catalog := c\<rparr>))"
  by (simp add: keeps_def marked_def split: prod.split)

lemma marked_resume: "keeps marked (resume_symbol ig shcode i bt date rep)"
proof -
  have "keeps marked (act_bind (detect_shift ig shcode bt wm) (\<lambda>shifted.
            if shifted
            then act_bind (act_mod (edit (clear_backfill_degraded i daily_label \<circ> clear_watermark i daily_label))) (\<lambda>_.
                 act_bind (save_checkpoint ig) (\<lambda>_.
                 act_bind (\<lambda>w. case ca_delete (ig_api ig) (iw_catalog w) bt of
                             (r, c) \<Rightarrow> (io_of r, w \<lparr>iw_catalog := c\<rparr>)) (\<lambda>_.
                 act_val (Val (rep \<lparr>bk_restarted := bk_restarted rep @ [shcode]\<rparr>)))))
            else act_val (Val rep)))" for wm
    by (intro marked_steps) (auto intro!: marked_steps marked_delete simp: backfill_edits)
  then show ?thesis by (simp add: keeps_def resume_symbol_def split: option.split)
qed

lemma marked_ledger: "keeps marked (act_mod save_ledger)"
  by (rule keeps_mod) (simp add: marked_def save_ledger_def)

lemma keeps_if: "keeps P m \<Longrightarrow> keeps P n \<Longrightarrow> keeps P (\<lambda>w. if c w then m w else n w)"
  by (simp add: keeps_def)

lemma marked_pulled: "keeps marked (pull_symbol ig plan date shcode bt ws rep)"
proof -
  have "keeps marked (act_bind (backfill_windows ig shcode i bt date (remaining_windows ws wm) wm rep) (\<lambda>(wm, rep).
      act_bind (act_mod save_ledger) (\<lambda>_.
      act_val (Val (if wm = Some (bp_anchor plan) then rep \<lparr>bk_complete := bk_complete rep + 1\<rparr> else rep)))))" for i wm
    by (intro marked_steps marked_windows) (auto intro!: marked_steps marked_ledger)
  then show ?thesis unfolding pull_symbol_def Let_def by (rule keeps_read)
qed

lemma marked_symbol: "keeps marked (backfill_symbol ig plan date shcode rep)"
  unfolding backfill_symbol_def Let_def
  by (cases "plan_symbol plan shcode")
    (auto intro!: keeps_bind keeps_val keeps_if marked_reconcile marked_resume marked_pulled)

lemma marked_batch: "keeps marked (backfill_batch ig plan date xs rep)"
proof (induction xs arbitrary: rep)
  case (Cons x xs)
  show ?case
    by (rule keeps_ext [OF backfill_batch.simps(2)]) (intro keeps_bind marked_symbol Cons.IH)
qed (simp add: keeps_def)

lemma foreign_pure: "foreign_coverage ig anchor ps w = (r, w') \<Longrightarrow> w' = w"
  by (induction ps) (auto simp: Let_def act_bind_def act_val_def read_intervals_def split: if_splits io.splits)

text \<open>
  What a home may look like after a session, however it ended: its files are as before, the
  checkpoint on disk carries the mark, or every symbol of the manifest is at the anchor.\<close>

definition safe_home :: "'c ingestor \<Rightarrow> backfill_plan \<Rightarrow> 'c ingest_world \<Rightarrow> 'c ingest_world \<Rightarrow> bool" where
  "safe_home ig plan w w' =
     (iw_catalog w' = iw_catalog w \<and> iw_disk w' = iw_disk w \<or>
      (case iw_disk w' of None \<Rightarrow> False | Some cp \<Rightarrow> cp_backfill cp \<or> all_at_anchor (codec ig) plan cp))"

lemma all_at_anchor_mark: "all_at_anchor k plan (set_backfill_incomplete v cp) = all_at_anchor k plan cp"
  by (simp add: all_at_anchor_def watermark_of set_backfill_incomplete_def)

lemma finish_safe:
  assumes "marked w1" and "finish_backfill ig plan rep w1 = (r, w')"
  shows "safe_home ig plan w w'"
  using assms
  by (auto simp: finish_backfill_def safe_home_def act_bind_def act_val_def act_mod_def save_checkpoint_def marked_def
      edit_def save_ledger_def all_at_anchor_mark split: if_splits option.splits)

text \<open>
  C9. A home whose checkpoint does not carry the mark of an incomplete backfill is whole: however a
  session ends, by a result, an error, a panic or a failed save, the files of the home are as
  before, or the checkpoint on disk carries the mark, or every symbol of the manifest is at the
  anchor.\<close>

theorem unmarked_home_is_whole:
  "safe_home ig plan w (snd (run_backfill ig f plan batch date w))"
proof -
  have same: "safe_home ig plan w w" by (simp add: safe_home_def)
  show ?thesis
  proof (cases "list_all (\<lambda>k. k = Daily) (ig_kinds ig) \<and> ig_mkdir ig = None \<and> find (\<lambda>s. plan_symbol plan s = None) batch = None")
    case False
    then show ?thesis by (auto simp: run_backfill_def same split: option.splits sum.splits)
  next
    case True
    show ?thesis
    proof (cases "checkpoint_load (ig_path ig @ ''/ingest-checkpoint.json'') (codec ig) f")
      case (Inl m)
      with True same show ?thesis by (simp add: run_backfill_def)
    next
      case (Inr cp)
      define w1 where "w1 = w \<lparr>iw_checkpoint := cp \<lparr>cp_adjusted := ig_adjusted ig\<rparr>\<rparr>"
      define scan where "scan = (if cp_backfill cp then act_val (Val ()) else foreign_coverage ig (bp_anchor plan) (bp_symbols plan))"
      obtain r where scan: "scan w1 = (r, w1)"
        by (cases "scan w1") (auto simp: scan_def act_val_def split: if_splits dest: foreign_pure)
      have w1: "safe_home ig plan w w1" by (simp add: safe_home_def w1_def)
      define go where "go = act_bind (act_mod (edit (set_backfill_incomplete True))) (\<lambda>_.
          act_bind (save_checkpoint ig) (\<lambda>_.
          act_bind (backfill_batch ig plan date batch backfill_report_default) (finish_backfill ig plan)))"
      have run: "run_backfill ig f plan batch date w = act_bind scan (\<lambda>_. go) w1"
        using True Inr by (simp add: run_backfill_def scan_def go_def w1_def act_bind_def act_mod_def)
      have go: "safe_home ig plan w (snd (go w1))"
      proof -
        define w2 where "w2 = edit (set_backfill_incomplete True) w1"
        have "iw_catalog w2 = iw_catalog w" "iw_disk w2 = iw_disk w" by (simp_all add: w2_def w1_def edit_def)
        then have unsaved: "safe_home ig plan w w2" by (simp add: safe_home_def)
        show ?thesis
        proof (cases "ig_save ig (iw_checkpoint w2)")
          case (Some m)
          with unsaved show ?thesis by (simp add: go_def act_bind_def act_mod_def save_checkpoint_def flip: w2_def)
        next
          case None
          define w3 where "w3 = w2 \<lparr>iw_disk := Some (iw_checkpoint w2)\<rparr>"
          have m3: "marked w3" by (simp add: w3_def w2_def marked_def edit_def set_backfill_incomplete_def)
          obtain r4 w4 where b: "backfill_batch ig plan date batch backfill_report_default w3 = (r4, w4)" by (metis surj_pair)
          have m4: "marked w4" using keeps_after [OF marked_batch m3 b] .
          have s4: "safe_home ig plan w w4" using m4 by (auto simp: safe_home_def marked_def split: option.splits)
          have "go w1 = (case r4 of Val rep \<Rightarrow> finish_backfill ig plan rep w4 | Err e \<Rightarrow> (Err e, w4) | Panic \<Rightarrow> (Panic, w4))"
            using None by (simp add: go_def act_bind_def act_mod_def save_checkpoint_def b flip: w2_def w3_def)
          with s4 finish_safe [OF m4] show ?thesis by (cases r4) (simp_all, metis surj_pair snd_conv)
        qed
      qed
      show ?thesis using go w1 by (cases r) (simp_all add: run act_bind_def scan)
    qed
  qed
qed

section \<open>What a watermark of a session attests\<close>

text \<open>The text a checkpoint holds as the daily watermark of an instrument.\<close>

abbreviation daily_mark :: "string \<Rightarrow> checkpoint \<Rightarrow> string option" where
  "daily_mark i cp \<equiv> map_of (cp_watermarks cp) (watermark_key i daily_label)"

text \<open>
  The windows a session pulled with bars, appended and saved, oldest first, from the state it started
  in: each save leaves the last day of its window as the daily watermark.\<close>

inductive windows_stored ::
  "'c ingestor \<Rightarrow> string \<Rightarrow> string \<Rightarrow> string \<Rightarrow> 'c ingest_world \<Rightarrow> session_window list \<Rightarrow> 'c ingest_world \<Rightarrow> bool"
  for ig shcode i bt w0 where
  no_window: "windows_stored ig shcode i bt w0 [] w0"
| one_window: "windows_stored ig shcode i bt w0 xs w \<Longrightarrow>
    pull_backfill_window ig shcode bt x (max (ig_empty_retry_max ig) 1) w = (Val (StepBars bars), w1) \<Longrightarrow>
    bars \<noteq> [] \<Longrightarrow> append_bars ig bt bars w1 = (Val (Inr ()), w2) \<Longrightarrow>
    daily_mark i cp = Some (ymd ig (ww_edate x)) \<Longrightarrow>
    windows_stored ig shcode i bt w0 (xs @ [x]) (w2 \<lparr>iw_checkpoint := cp, iw_disk := Some cp\<rparr>)"

lemma saved_edit:
  "save_checkpoint ig (edit h w) = (Val (), w') \<longleftrightarrow> ig_save ig (h (iw_checkpoint w)) = None \<and>
    w' = w \<lparr>iw_checkpoint := h (iw_checkpoint w), iw_disk := Some (h (iw_checkpoint w))\<rparr>"
  by (auto simp: save_checkpoint_def edit_def split: option.splits)

lemma pulled_bars:
  "pull_backfill_window ig shcode bt x n w = (Val (StepBars bars), w') \<Longrightarrow> bars \<noteq> []"
  by (induction n arbitrary: w) (auto simp: act_bind_def act_val_def split: io.splits prod.splits sum.splits if_splits)

lemma pulled_frame:
  "pull_backfill_window ig shcode bt x n w = (r, w') \<Longrightarrow> fetch_world.more w' = fetch_world.more w"
proof (induction n arbitrary: w)
  case (Suc n)
  obtain q w1 where p: "pull_window (ig_text ig) (ig_env ig) (sdk_daily (ig_sdk ig)) shcode bt x MAX_BACKFILL_PAGES w = (q, w1)"
    by (metis surj_pair)
  have "fetch_world.more w1 = fetch_world.more w" using pull_window_frame [OF sdk_daily_frame p] by simp
  with Suc.prems Suc.IH [of w1] show ?case
    by (auto simp: act_bind_def p act_val_def split: io.splits sum.splits if_splits)
qed simp

lemma window_stored:
  assumes "backfill_window ig shcode i bt date x rep w = (Val (True, rep'), w')"
  shows "\<exists>bars w1 w2 cp. pull_backfill_window ig shcode bt x (max (ig_empty_retry_max ig) 1) w = (Val (StepBars bars), w1) \<and>
    bars \<noteq> [] \<and> append_bars ig bt bars w1 = (Val (Inr ()), w2) \<and>
    daily_mark i cp = Some (ymd ig (ww_edate x)) \<and>
    w' = w2 \<lparr>iw_checkpoint := cp, iw_disk := Some cp\<rparr> \<and> bk_windows rep' = bk_windows rep + 1 \<and> bk_degraded rep' = bk_degraded rep"
proof -
  let ?n = "max (ig_empty_retry_max ig) 1"
  obtain step w1 where p: "pull_backfill_window ig shcode bt x ?n w = (Val step, w1)"
    using assms by (auto simp: backfill_window_def Let_def act_bind_def split: io.splits prod.splits)
  have deg: "False" if "act_bind (degrade_backfill_symbol ig i daily_label shcode reason rp) (\<lambda>rep. act_val (Val (False, rep))) v = (Val (True, rep'), w')"
    for reason rp v
    using that by (auto simp: act_bind_def act_val_def split: io.splits prod.splits)
  obtain bars where step: "step = StepBars bars"
    using assms deg by (cases step) (auto simp: backfill_window_def Let_def act_bind_def [of "pull_backfill_window _ _ _ _ _"] p
        act_bind_def [of "act_mod _"] act_mod_def simp del: One_nat_def)
  obtain r w2 where a: "append_bars ig bt bars w1 = (Val r, w2)"
    by (cases "append_bars_checked (ig_env ig) (ig_api ig) (iw_catalog w1) bt bars") (auto simp: append_bars_def)
  have r: "r = Inr ()"
    using assms deg by (cases r)
      (auto simp: backfill_window_def Let_def act_bind_def [of "pull_backfill_window _ _ _ _ _"] p step
        act_bind_def [of "append_bars _ _ _"] a act_val_def simp del: One_nat_def split: adapter_error.splits)
  let ?h = "clear_backfill_degraded i daily_label \<circ> set_backfill_session (codec ig) i daily_label date \<circ>
    set_watermark (codec ig) i daily_label (ww_edate x)"
  have run: "save_checkpoint ig (edit ?h w2) = (Val (), w')" "bk_windows rep' = bk_windows rep + 1" "bk_degraded rep' = bk_degraded rep"
    using assms by (auto simp: backfill_window_def Let_def act_bind_def p step a r act_mod_def act_val_def
        simp del: One_nat_def split: io.splits prod.splits)
  have "daily_mark i (?h (iw_checkpoint w2)) = Some (ymd ig (ww_edate x))"
    by (simp add: backfill_edits ymd_def codec_def)
  with p step a r run pulled_bars show ?thesis
    unfolding saved_edit by (intro exI [of _ bars] exI [of _ w1] exI [of _ w2] exI [of _ "?h (iw_checkpoint w2)"]) simp
qed

text \<open>
  A window that does not go on: the watermark it found is the one it leaves, on disk as in memory, and
  when it reports why, the reason is in the saved checkpoint too.\<close>

lemma window_stops:
  assumes "backfill_window ig shcode i bt date x rep w = (r, w')" and "\<And>rep'. r \<noteq> Val (True, rep')"
  shows "iw_disk w' = iw_disk w \<or> (\<exists>cp. iw_disk w' = Some cp \<and> daily_mark i cp = daily_mark i (iw_checkpoint w))"
    and "r = Val (False, rep') \<Longrightarrow> bk_windows rep' = bk_windows rep \<and>
      daily_mark i (iw_checkpoint w') = daily_mark i (iw_checkpoint w) \<and> iw_disk w' = Some (iw_checkpoint w') \<and>
      (\<exists>reason. bk_degraded rep' = bk_degraded rep @ [\<lparr>ds_shcode = shcode, ds_reason = reason\<rparr>] \<and>
        backfill_degraded (iw_checkpoint w') i daily_label = Some reason)"
proof -
  let ?n = "max (ig_empty_retry_max ig) 1"
  obtain p w1 where p: "pull_backfill_window ig shcode bt x ?n w = (p, w1)" by (metis surj_pair)
  have f: "iw_disk w1 = iw_disk w" "iw_checkpoint w1 = iw_checkpoint w"
    using pulled_frame [OF p] by (cases w; cases w1; simp)+
  have "(iw_disk w' = iw_disk w \<or> (\<exists>cp. iw_disk w' = Some cp \<and> daily_mark i cp = daily_mark i (iw_checkpoint w))) \<and>
    (\<forall>rep'. r = Val (False, rep') \<longrightarrow> bk_windows rep' = bk_windows rep \<and>
      daily_mark i (iw_checkpoint w') = daily_mark i (iw_checkpoint w) \<and> iw_disk w' = Some (iw_checkpoint w') \<and>
      (\<exists>reason. bk_degraded rep' = bk_degraded rep @ [\<lparr>ds_shcode = shcode, ds_reason = reason\<rparr>] \<and>
        backfill_degraded (iw_checkpoint w') i daily_label = Some reason))"
    using assms f
    by (auto simp: backfill_window_def Let_def act_bind_def p act_mod_def act_val_def degrade_backfill_symbol_def
        save_checkpoint_def append_bars_def edit_def backfill_edits backfill_degraded_def
      simp del: One_nat_def
      split: io.splits prod.splits backfill_step.splits sum.splits adapter_error.splits option.splits)
  then show "iw_disk w' = iw_disk w \<or> (\<exists>cp. iw_disk w' = Some cp \<and> daily_mark i cp = daily_mark i (iw_checkpoint w))"
    and "r = Val (False, rep') \<Longrightarrow> bk_windows rep' = bk_windows rep \<and>
      daily_mark i (iw_checkpoint w') = daily_mark i (iw_checkpoint w) \<and> iw_disk w' = Some (iw_checkpoint w') \<and>
      (\<exists>reason. bk_degraded rep' = bk_degraded rep @ [\<lparr>ds_shcode = shcode, ds_reason = reason\<rparr>] \<and>
        backfill_degraded (iw_checkpoint w') i daily_label = Some reason)" by blast+
qed

text \<open>
  C17. The daily watermark a session leaves in the checkpoint is earned window by window. However its
  loop ends, by a result, an error or a panic, the windows up to some point were each pulled with bars,
  appended and saved, in order and without a gap, and the checkpoint on disk holds the last day of the
  last of them, or what it held before when there is none. A loop that ends early with a result, on a
  window with no rows or one that failed, leaves the same watermark in memory, and the reason in its
  report and in the saved checkpoint.\<close>

theorem backfill_watermark_is_earned:
  assumes "backfill_windows ig shcode i bt date xs wm rep w = (r, w')"
  shows "\<exists>pulled rest w1. xs = pulled @ rest \<and> windows_stored ig shcode i bt w pulled w1 \<and>
    (let earned = (if pulled = [] then daily_mark i (iw_checkpoint w) else Some (ymd ig (ww_edate (last pulled))))
     in (pulled = [] \<and> iw_disk w' = iw_disk w \<or> (\<exists>cp. iw_disk w' = Some cp \<and> daily_mark i cp = earned)) \<and>
        (\<forall>wm' rep'. r = Val (wm', rep') \<longrightarrow>
           daily_mark i (iw_checkpoint w') = earned \<and>
           wm' = (if pulled = [] then wm else Some (ww_edate (last pulled))) \<and>
           bk_windows rep' = bk_windows rep + length pulled \<and>
           (if rest = [] then bk_degraded rep' = bk_degraded rep \<and> w' = w1
            else iw_disk w' = Some (iw_checkpoint w') \<and>
              (\<exists>reason. bk_degraded rep' = bk_degraded rep @ [\<lparr>ds_shcode = shcode, ds_reason = reason\<rparr>] \<and>
                backfill_degraded (iw_checkpoint w') i daily_label = Some reason))))"
proof -
  let ?kept = "\<lambda>w pulled. (let earned = (if pulled = [] then daily_mark i (iw_checkpoint w) else Some (ymd ig (ww_edate (last pulled))))
     in pulled = [] \<and> iw_disk w' = iw_disk w \<or> (\<exists>cp. iw_disk w' = Some cp \<and> daily_mark i cp = earned))"
  let ?ends = "\<lambda>wm' rep' w wm rep pulled rest w1.
           daily_mark i (iw_checkpoint w') = (if pulled = [] then daily_mark i (iw_checkpoint w) else Some (ymd ig (ww_edate (last pulled)))) \<and>
           wm' = (if pulled = [] then wm else Some (ww_edate (last pulled))) \<and>
           bk_windows rep' = bk_windows rep + length pulled \<and>
           (if rest = [] then bk_degraded rep' = bk_degraded rep \<and> w' = w1
            else iw_disk w' = Some (iw_checkpoint w') \<and>
              (\<exists>reason. bk_degraded rep' = bk_degraded rep @ [\<lparr>ds_shcode = shcode, ds_reason = reason\<rparr>] \<and>
                backfill_degraded (iw_checkpoint w') i daily_label = Some reason))"
  let ?told = "\<lambda>w wm rep pulled rest w1. \<forall>wm' rep'. r = Val (wm', rep') \<longrightarrow> ?ends wm' rep' w wm rep pulled rest w1"
  have "\<exists>pulled rest w1. xs = pulled @ rest \<and> windows_stored ig shcode i bt w0 (before @ pulled) w1 \<and>
      ?kept w pulled \<and> ?told w wm rep pulled rest w1"
    if "windows_stored ig shcode i bt w0 before w" "backfill_windows ig shcode i bt date xs wm rep w = (r, w')"
    for w0 before
    using that
  proof (induction xs arbitrary: before wm rep w)
    case Nil
    then show ?case by (intro exI [of _ "[]"] exI [of _ w]) auto
  next
    case (Cons x xs)
    obtain q w1 where b: "backfill_window ig shcode i bt date x rep w = (q, w1)" by (metis surj_pair)
    show ?case
    proof (cases "\<exists>rp. q = Val (True, rp)")
      case True
      then obtain rp where q: "q = Val (True, rp)" by blast
      from window_stored [OF b [unfolded q]] obtain bars u v cp where
        s: "pull_backfill_window ig shcode bt x (max (ig_empty_retry_max ig) 1) w = (Val (StepBars bars), u)"
          "bars \<noteq> []" "append_bars ig bt bars u = (Val (Inr ()), v)" "daily_mark i cp = Some (ymd ig (ww_edate x))"
        and w1: "w1 = v \<lparr>iw_checkpoint := cp, iw_disk := Some cp\<rparr>"
        and rp: "bk_windows rp = bk_windows rep + 1" "bk_degraded rp = bk_degraded rep" by blast
      have st: "windows_stored ig shcode i bt w0 (before @ [x]) w1"
        unfolding w1 by (rule windows_stored.one_window [OF Cons.prems(1) s])
      have run: "backfill_windows ig shcode i bt date xs (Some (ww_edate x)) rp w1 = (r, w')"
        using Cons.prems(2) by (simp add: act_bind_def b q)
      from Cons.IH [OF st run] obtain pulled rest w2 where
        g: "xs = pulled @ rest" "windows_stored ig shcode i bt w0 ((before @ [x]) @ pulled) w2"
        and k: "?kept w1 pulled" "?told w1 (Some (ww_edate x)) rp pulled rest w2" by blast
      have "iw_disk w1 = Some cp" "daily_mark i (iw_checkpoint w1) = Some (ymd ig (ww_edate x))"
        using s(4) by (simp_all add: w1)
      note here = this
      have "?kept w (x # pulled)" using k(1) here s(4) unfolding Let_def by (cases "pulled = []") auto
      moreover have "?told w wm rep (x # pulled) rest w2"
      proof (intro allI impI)
        fix wm' rep' assume "r = Val (wm', rep')"
        from k(2) [rule_format, OF this] here rp
        show "?ends wm' rep' w wm rep (x # pulled) rest w2" by (cases "pulled = []"; cases "rest = []") auto
      qed
      ultimately show ?thesis
        using g by (intro exI [of _ "x # pulled"] exI [of _ rest] exI [of _ w2]) simp
    next
      case False
      then have n: "\<And>rp. q \<noteq> Val (True, rp)" by blast
      note stop = window_stops [OF b n]
      have same: "w' = w1" using Cons.prems(2) n
        by (auto simp: act_bind_def b act_val_def split: io.splits prod.splits if_splits)
      have "\<exists>rp. q = Val (False, rp) \<and> wm' = wm \<and> rp = rep'" if "r = Val (wm', rep')" for wm' rep'
        using Cons.prems(2) n that by (auto simp: act_bind_def b act_val_def split: io.splits prod.splits if_splits)
      moreover have "?ends wm rp w wm rep [] (x # xs) w" if "q = Val (False, rp)" for rp
        using stop(2) [OF that] same by simp
      ultimately have "?told w wm rep [] (x # xs) w" by blast
      moreover have "?kept w []" unfolding Let_def same if_P [OF refl] using stop(1) by blast
      ultimately show ?thesis
        using Cons.prems(1) by (intro exI [of _ "[]"] exI [of _ "x # xs"] exI [of _ w]) simp
    qed
  qed
  from this [OF windows_stored.no_window assms] show ?thesis by (simp add: Let_def)
qed

section \<open>A session of January\<close>

definition jan_window :: session_window where
  "jan_window = \<lparr>ww_sdate = 738889, ww_edate = 738890, ww_sessions = 2\<rparr>"

definition close_of_4th :: int where "close_of_4th = kst_nanos 738889 (55800 * 10 ^ 9)"

lemma jan_walk_call:
  "walk_page_loop (sdk_daily jan_gateway) s a b c k n w = (Inr jan_daily_page, k + 1, record_dispatch jan_gateway w)"
  by (subst walk_page_loop.simps) (simp add: sdk_daily_def sdk_daily_page_def Let_def note_if_throttled_def, simp add: jan_gateway_def)

lemma jan_pull_window:
  "pull_window jan_text jan_env (sdk_daily jan_gateway) s t jan_window m w =
    (Val (Inr \<lparr>wp_bars = [jan_bar t close_of_5th], wp_calls = 1\<rparr>), record_dispatch jan_gateway w)"
proof -
  have k: "kst_to_unix_nanos jan_env 738890 (session_close 738890) = Inr close_of_5th"
      "kst_to_unix_nanos jan_env 738889 (session_close 738889) = Inr close_of_4th"
    using jan_instant [of 738890 "55800 * 10 ^ 9"] jan_instant [of 738889 "55800 * 10 ^ 9"]
    by (simp_all add: jan_close close_of_5th_def close_of_4th_def nanos_per_day_def)
  have tr: "trim [] = []" by (rule trim_plain) simp
  have b: "build_daily_bar jan_env t (day_row_of 738890) = Val (Some (jan_bar t close_of_5th))"
    by (simp add: jan_daily_bar close_of_5th_def)
  have lt: "close_of_4th \<le> close_of_5th" by (simp add: close_of_4th_def close_of_5th_def kst_nanos_def nanos_per_day_def)
  have rows: "window_rows (build_daily_bar jan_env t) close_of_4th close_of_5th (dg_rows jan_daily_page) =
      Val ([jan_bar t close_of_5th], False)"
    using lt by (simp add: b io_bind_def) (simp add: jan_bar_def)
  obtain n where n: "max m 1 = Suc n" by (cases "max m 1") auto
  have p: "pull_pages jan_text (build_daily_bar jan_env t) (sdk_daily jan_gateway) s sd ed close_of_4th close_of_5th m 0 (max m 1)
      [] [] [] 0 w = (Val (Inr ([jan_bar t close_of_5th], 1)), record_dispatch jan_gateway w)" for sd ed
    unfolding n pull_pages.simps Let_def jan_walk_call prod.case sum.case rows io.case by (simp add: tr)
  show ?thesis
    by (simp add: pull_window_def jan_window_def k p del: One_nat_def)
qed

lemma jan_parts:
  "ig_env jan_ingestor = jan_env" "ig_sdk jan_ingestor = jan_gateway" "ig_text jan_ingestor = jan_text"
  "ig_empty_retry_max jan_ingestor = 3"
  by (simp_all add: jan_ingestor_def DEFAULT_EMPTY_RETRY_MAX_def)

lemma jan_pull_backfill:
  "pull_backfill_window jan_ingestor s t jan_window 3 w =
    (Val (StepBars [jan_bar t close_of_5th]), record_dispatch jan_gateway w)"
  by (simp add: eval_nat_numeral act_bind_def act_val_def jan_pull_window jan_parts)

lemma jan_session:
  obtains w' where "backfill_windows jan_ingestor ''000001'' ''000001.XKRX'' daily_series 738891 [jan_window] None
    backfill_report_default (jan_world []) =
    (Val (Some 738890, backfill_report_default \<lparr>bk_bars := 1, bk_windows := 1\<rparr>), w')"
proof -
  have c: "iw_catalog (record_dispatch jan_gateway (jan_world [])) = []" by (simp add: record_dispatch_def jan_world_def)
  have e: "ww_edate jan_window = 738890" by (simp add: jan_window_def)
  show ?thesis
    by (rule that) (simp add: act_bind_def [of "backfill_window _ _ _ _ _ _ _"] backfill_window_def Let_def e
      act_bind_def act_mod_def act_val_def jan_parts jan_pull_backfill jan_append [OF c] jan_save backfill_report_default_def)
qed

theorem backfill_watermark_is_earned_witness:
  "\<exists>w1 w' cp. windows_stored jan_ingestor ''000001'' ''000001.XKRX'' daily_series (jan_world []) [jan_window] w1 \<and>
    backfill_windows jan_ingestor ''000001'' ''000001.XKRX'' daily_series 738891 [jan_window] None
      backfill_report_default (jan_world []) =
      (Val (Some 738890, backfill_report_default \<lparr>bk_bars := 1, bk_windows := 1\<rparr>), w') \<and>
    iw_disk w' = Some cp \<and> daily_mark ''000001.XKRX'' cp = Some (ymd jan_ingestor 738890)"
proof -
  obtain w' where run: "backfill_windows jan_ingestor ''000001'' ''000001.XKRX'' daily_series 738891 [jan_window] None
      backfill_report_default (jan_world []) =
      (Val (Some 738890, backfill_report_default \<lparr>bk_bars := 1, bk_windows := 1\<rparr>), w')"
    by (rule jan_session)
  from backfill_watermark_is_earned [OF run] obtain pulled rest w1 where
    split: "[jan_window] = pulled @ rest" and st: "windows_stored jan_ingestor ''000001'' ''000001.XKRX'' daily_series (jan_world []) pulled w1"
    and n: "bk_windows (backfill_report_default \<lparr>bk_bars := 1, bk_windows := 1\<rparr>) = bk_windows backfill_report_default + length pulled"
    and d: "pulled = [] \<and> iw_disk w' = iw_disk (jan_world []) \<or> (\<exists>cp. iw_disk w' = Some cp \<and> daily_mark ''000001.XKRX'' cp =
      (if pulled = [] then daily_mark ''000001.XKRX'' (iw_checkpoint (jan_world [])) else Some (ymd jan_ingestor (ww_edate (last pulled)))))"
    unfolding Let_def by blast
  have "length pulled = 1" using n by (simp add: backfill_report_default_def)
  with split have p: "pulled = [jan_window]" by (cases pulled) auto
  with d have "\<exists>cp. iw_disk w' = Some cp \<and> daily_mark ''000001.XKRX'' cp = Some (ymd jan_ingestor 738890)"
    by (simp add: jan_window_def)
  with run st show ?thesis unfolding p by blast
qed

theorem window_completes_on_evidence_witness:
  "\<exists>ps w'. page_walk (closed_served (sdk_daily jan_gateway) ''000001'' ''20240104'' ''20240105'')
      (evident_end (build_daily_bar jan_env daily_series) close_of_4th close_of_5th) 0 [] [] (jan_world []) ps w' \<and> length ps \<le> 64"
proof -
  have k: "kst_nanos (ww_sdate jan_window) (session_close (ww_sdate jan_window)) = close_of_4th"
    "kst_nanos (ww_edate jan_window) (session_close (ww_edate jan_window)) = close_of_5th"
    "ymd_format (be_ymd jan_env) (ww_sdate jan_window) = ''20240104''"
    "ymd_format (be_ymd jan_env) (ww_edate jan_window) = ''20240105''"
    by (simp_all add: jan_window_def jan_close close_of_4th_def close_of_5th_def jan_ymd jan_formats)
  from window_completes_on_evidence [OF jan_pull_window [of "''000001''" daily_series 64 "jan_world []"], unfolded k]
  show ?thesis by auto
qed

section \<open>The completeness report\<close>

record symbol_verdict =
  sv_shcode :: string
  sv_expected_front :: int
  sv_front :: "int option"
  sv_tail :: "int option"
  sv_watermark :: "int option"
  sv_expected :: nat
  sv_stored :: nat
  sv_missing :: nat
  sv_anomalies :: "string list"
  sv_observations :: "string list"

record report_provenance =
  rv_path :: string
  rv_hash :: string
  rv_catalog :: string
  rv_floor :: int
  rv_anchor :: int
  rv_planned :: nat
  rv_sessions :: nat
  rv_incomplete :: bool
  rv_generated :: string

definition REPORT_SCHEMA_VERSION :: nat where "REPORT_SCHEMA_VERSION = 1"

record completeness_report =
  cr_schema :: nat
  cr_provenance :: report_provenance
  cr_symbols :: "symbol_verdict list"
  cr_anomalies :: "string list"
  cr_observations :: "string list"
  cr_go :: bool

definition all_anomalies :: "completeness_report \<Rightarrow> string list" where
  "all_anomalies r =
     cr_anomalies r @ concat (map (\<lambda>s. map (\<lambda>a. sv_shcode s @ '': '' @ a) (sv_anomalies s)) (cr_symbols r))"

definition all_observations :: "completeness_report \<Rightarrow> string list" where
  "all_observations r =
     cr_observations r @ concat (map (\<lambda>s. map (\<lambda>a. sv_shcode s @ '': '' @ a) (sv_observations s)) (cr_symbols r))"

definition front_anomaly :: "walk_text \<Rightarrow> int \<Rightarrow> int option \<Rightarrow> string list" where
  "front_anomaly t start front =
     (case front of
        None \<Rightarrow> [''no stored bars'']
      | Some f \<Rightarrow>
          if start < f then [''coverage front '' @ wt_date t f @ '' is later than the expected '' @ wt_date t start @ '' (front truncation)'']
          else if f < start then [''coverage front '' @ wt_date t f @ '' precedes the expected '' @ wt_date t start]
          else [])"

definition tail_anomaly :: "walk_text \<Rightarrow> int \<Rightarrow> int option \<Rightarrow> string list" where
  "tail_anomaly t anchor tail =
     (case tail of
        None \<Rightarrow> []
      | Some d \<Rightarrow> if d \<noteq> anchor then [''coverage tail '' @ wt_date t d @ '' is not the anchor '' @ wt_date t anchor] else [])"

definition watermark_anomaly :: "walk_text \<Rightarrow> int \<Rightarrow> int option \<Rightarrow> string list" where
  "watermark_anomaly t anchor wm =
     (if wm = Some anchor then []
      else case wm of
          Some w \<Rightarrow> [''watermark '' @ wt_date t w @ '' has not reached the anchor '' @ wt_date t anchor]
        | None \<Rightarrow> [''no watermark''])"

text \<open>The distinct stored session dates, ascending.\<close>

definition stored_dates :: "price_bar list \<Rightarrow> int list" where
  "stored_dates bars = sort (remdups (map (\<lambda>b. kst_date_of (br_event b)) bars))"

definition symbol_report ::
  "walk_text \<Rightarrow> ymd_codec \<Rightarrow> backfill_plan \<Rightarrow> checkpoint \<Rightarrow> string list \<Rightarrow> symbol_plan \<Rightarrow> price_bar list \<Rightarrow> symbol_verdict" where
  "symbol_report t k plan cp defined p bars =
     (let i = instrument_id_for (sl_shcode p); stored = stored_dates bars;
          front = (if stored = [] then None else Some (hd stored)); tail = (if stored = [] then None else Some (last stored));
          wm = watermark k cp i daily_label;
          missing = length (filter (\<lambda>d. sl_start p \<le> d \<and> d \<notin> set stored) (rs_sessions (bp_range plan)))
      in \<lparr>sv_shcode = sl_shcode p, sv_expected_front = sl_start p, sv_front = front, sv_tail = tail, sv_watermark = wm,
          sv_expected = sl_expected p, sv_stored = length stored, sv_missing = missing,
          sv_anomalies =
            (if i \<notin> set defined then [''no instrument definition in the catalog''] else []) @
            front_anomaly t (sl_start p) front @ tail_anomaly t (bp_anchor plan) tail @
            watermark_anomaly t (bp_anchor plan) wm @
            (case backfill_degraded cp i daily_label of None \<Rightarrow> [] | Some reason \<Rightarrow> [''degraded: '' @ reason]),
          sv_observations =
            (if 0 < missing
             then [''session shortfall: '' @ show_nat missing @ '' of '' @ show_nat (sl_expected p) @ '' proven sessions in ['' @
               wt_date t (sl_start p) @ '', '' @ wt_date t (bp_anchor plan) @ ''] have no bar'']
             else [])\<rparr>)"

fun symbol_reports ::
  "'c ingestor \<Rightarrow> 'c \<Rightarrow> backfill_plan \<Rightarrow> checkpoint \<Rightarrow> string list \<Rightarrow> symbol_plan list \<Rightarrow> adapter_error + symbol_verdict list" where
  "symbol_reports ig c plan cp defined [] = Inr []"
| "symbol_reports ig c plan cp defined (p # ps) =
     (case ig_bar_type ig (instrument_id_for (sl_shcode p)) Daily of
        Inl e \<Rightarrow> Inl e
      | Inr bar_type \<Rightarrow>
          (case ca_bars (ig_api ig) c bar_type None None of
             Inl e \<Rightarrow> Inl e
           | Inr bars \<Rightarrow>
               map_sum (\<lambda>x. x) (\<lambda>vs. symbol_report (ig_text ig) (codec ig) plan cp defined p bars # vs)
                 (symbol_reports ig c plan cp defined ps)))"

text \<open>\<open>instruments\<close> is what reading the catalog's instrument definitions returns.\<close>

definition build_report ::
  "'c ingestor \<Rightarrow> 'c \<Rightarrow> adapter_error + string list \<Rightarrow> backfill_plan \<Rightarrow> checkpoint \<Rightarrow> string \<Rightarrow> adapter_error + completeness_report" where
  "build_report ig c instruments plan cp generated_at =
     (case instruments of
        Inl e \<Rightarrow> Inl e
      | Inr defined \<Rightarrow>
          (case symbol_reports ig c plan cp defined (bp_symbols plan) of
             Inl e \<Rightarrow> Inl e
           | Inr symbols \<Rightarrow>
               (let anomalies =
                      (if defined = [] then [''the catalog holds no instrument definitions''] else []) @
                      (if cp_backfill cp then [''the catalog still carries the incomplete-backfill marker''] else []) @
                      map (\<lambda>s. ''manifest member '' @ s @ '' served no rows in the P4 walk and was excluded from the pull'') (bp_excluded plan)
                in Inr \<lparr>cr_schema = REPORT_SCHEMA_VERSION,
                        cr_provenance = \<lparr>rv_path = bp_path plan, rv_hash = bp_hash plan, rv_catalog = ig_path ig, rv_floor = bp_floor plan,
                          rv_anchor = bp_anchor plan, rv_planned = length (bp_symbols plan),
                          rv_sessions = length (rs_sessions (bp_range plan)), rv_incomplete = cp_backfill cp, rv_generated = generated_at\<rparr>,
                        cr_symbols = symbols, cr_anomalies = anomalies, cr_observations = [],
                        cr_go = (anomalies = [] \<and> list_all (\<lambda>s. sv_anomalies s = []) symbols)\<rparr>)))"

record metadata_pin =
  mp_path :: string
  mp_hash :: string
  mp_per_stratum :: "(string \<times> nat) list"
  mp_symbols :: "string list"
  mp_pinned :: string

definition manifest_pin :: "backfill_plan \<Rightarrow> string \<Rightarrow> metadata_pin" where
  "manifest_pin plan pinned_at =
     \<lparr>mp_path = bp_path plan, mp_hash = bp_hash plan,
      mp_per_stratum = [(''pit_universe_manifest'', length (bp_symbols plan))],
      mp_symbols = map sl_shcode (bp_symbols plan), mp_pinned = pinned_at\<rparr>"

text \<open>What a symbol must be for a go.\<close>

definition whole_symbol :: "'c ingestor \<Rightarrow> 'c \<Rightarrow> backfill_plan \<Rightarrow> checkpoint \<Rightarrow> string list \<Rightarrow> symbol_plan \<Rightarrow> bool" where
  "whole_symbol ig c plan cp defined p =
     (let i = instrument_id_for (sl_shcode p)
      in case ig_bar_type ig i Daily of
           Inl _ \<Rightarrow> False
         | Inr bar_type \<Rightarrow>
             (case ca_bars (ig_api ig) c bar_type None None of
                Inl _ \<Rightarrow> False
              | Inr bars \<Rightarrow>
                  i \<in> set defined \<and> bars \<noteq> [] \<and>
                  Min ((\<lambda>b. kst_date_of (br_event b)) ` set bars) = sl_start p \<and>
                  Max ((\<lambda>b. kst_date_of (br_event b)) ` set bars) = bp_anchor plan \<and>
                  watermark (codec ig) cp i daily_label = Some (bp_anchor plan) \<and>
                  backfill_degraded cp i daily_label = None))"

lemma hd_sort: "xs \<noteq> [] \<Longrightarrow> hd (sort xs) = Min (set xs)" for xs :: "int list"
proof -
  assume "xs \<noteq> []"
  then have "sort xs \<noteq> []" by (metis length_0_conv length_sort)
  then obtain y ys where y: "sort xs = y # ys" by (cases "sort xs") auto
  then have "\<forall>z\<in>set xs. y \<le> z" by (metis list.set_intros(1) set_sort sorted_sort sorted_simps(2) set_ConsD order_refl)
  moreover have "y \<in> set xs" using y by (metis list.set_intros(1) set_sort)
  ultimately show ?thesis using y by (simp add: Min_eqI [symmetric])
qed

lemma last_sort: "xs \<noteq> [] \<Longrightarrow> last (sort xs) = Max (set xs)" for xs :: "int list"
proof -
  assume "xs \<noteq> []"
  then have "sort xs \<noteq> []" by (metis length_0_conv length_sort)
  then have "last (sort xs) \<in> set xs" "\<forall>z\<in>set xs. z \<le> last (sort xs)"
    using le_last [of "sort xs"] by (auto dest: last_in_set)
  then show ?thesis by (intro Max_eqI [symmetric]) auto
qed

lemma no_anomaly:
  "front_anomaly t s (Some f) = [] \<longleftrightarrow> f = s" "tail_anomaly t a (Some d) = [] \<longleftrightarrow> d = a"
  "front_anomaly t s None \<noteq> []" "watermark_anomaly t a wm = [] \<longleftrightarrow> wm = Some a"
  by (auto simp: front_anomaly_def tail_anomaly_def watermark_anomaly_def split: option.splits)

lemma symbol_report_clean:
  assumes "ig_bar_type ig (instrument_id_for (sl_shcode p)) Daily = Inr bt" and "ca_bars (ig_api ig) c bt None None = Inr bars"
  shows "sv_anomalies (symbol_report (ig_text ig) (codec ig) plan cp defined p bars) = [] \<longleftrightarrow>
    whole_symbol ig c plan cp defined p"
proof -
  let ?ds = "remdups (map (\<lambda>b. kst_date_of (br_event b)) bars)"
  have e: "?ds = [] \<longleftrightarrow> bars = []" by simp
  have "stored_dates bars \<noteq> [] \<Longrightarrow> hd (stored_dates bars) = Min ((\<lambda>b. kst_date_of (br_event b)) ` set bars) \<and>
      last (stored_dates bars) = Max ((\<lambda>b. kst_date_of (br_event b)) ` set bars)"
    using hd_sort [of ?ds] last_sort [of ?ds] e by (cases "?ds = []") (simp_all add: stored_dates_def)
  moreover have "stored_dates bars = [] \<longleftrightarrow> bars = []"
    using e by (simp add: stored_dates_def) (metis length_0_conv length_sort e)
  ultimately show ?thesis
    by (cases "bars = []"; cases "backfill_degraded cp (instrument_id_for (sl_shcode p)) daily_label")
      (simp_all add: symbol_report_def whole_symbol_def Let_def assms no_anomaly)
qed

text \<open>
  C26. The verdict of the completeness report is go exactly when the mark is cleared, no member of the
  manifest was excluded, the catalog defines instruments, and each planned symbol is defined, has bars
  from its expected front to the anchor, has its watermark at the anchor and stands degraded nowhere.\<close>

theorem report_go_iff:
  assumes "build_report ig c (Inr defined) plan cp at = Inr r"
  shows "cr_go r \<longleftrightarrow> defined \<noteq> [] \<and> \<not> cp_backfill cp \<and> bp_excluded plan = [] \<and>
    list_all (whole_symbol ig c plan cp defined) (bp_symbols plan)"
proof -
  have "list_all (\<lambda>s. sv_anomalies s = []) vs \<longleftrightarrow> list_all (whole_symbol ig c plan cp defined) ps"
    if "symbol_reports ig c plan cp defined ps = Inr vs" for ps vs
    using that
  proof (induction ps arbitrary: vs)
    case (Cons p ps)
    then obtain bt bars us where "ig_bar_type ig (instrument_id_for (sl_shcode p)) Daily = Inr bt"
      "ca_bars (ig_api ig) c bt None None = Inr bars" "symbol_reports ig c plan cp defined ps = Inr us"
      "vs = symbol_report (ig_text ig) (codec ig) plan cp defined p bars # us"
      by (cases "symbol_reports ig c plan cp defined ps") (auto split: sum.splits)
    with Cons.IH [of us] symbol_report_clean [of ig p bt c bars plan cp defined] show ?case by simp
  qed simp
  with assms show ?thesis by (auto simp: build_report_def Let_def split: sum.splits if_splits)
qed

definition jan_plan :: backfill_plan where
  "jan_plan = \<lparr>bp_floor = 738889, bp_anchor = 738890, bp_path = [], bp_hash = [],
     bp_symbols = [\<lparr>sl_shcode = ''000001'', sl_start = 738890, sl_windows = [jan_window], sl_expected = 1\<rparr>],
     bp_excluded = [], bp_range = \<lparr>rs_windows = [jan_window], rs_sessions = [738889, 738890], rs_unknown = 0\<rparr>\<rparr>"

theorem report_go_iff_witness:
  "\<exists>r. build_report jan_ingestor [[jan_bar daily_series close_of_5th]] (Inr [''000001.XKRX'']) jan_plan
      (set_watermark (codec jan_ingestor) ''000001.XKRX'' daily_label 738890 checkpoint_default) [] = Inr r \<and> cr_go r"
proof -
  let ?cp = "set_watermark (codec jan_ingestor) ''000001.XKRX'' daily_label 738890 checkpoint_default"
  have l: "ig_bar_type jan_ingestor ''000001.XKRX'' Daily = Inr daily_series" "ig_api jan_ingestor = list_catalog"
    by (simp_all add: jan_ingestor_def kind_label_def daily_series_def)
  have bars: "ca_bars list_catalog [[jan_bar daily_series close_of_5th]] daily_series None None = Inr [jan_bar daily_series close_of_5th]"
    by (simp add: list_catalog_def jan_bar_def)
  have id: "instrument_id_for ''000001'' = ''000001.XKRX''" by (simp add: instrument_id_for_def)
  obtain r where r: "build_report jan_ingestor [[jan_bar daily_series close_of_5th]] (Inr [''000001.XKRX'']) jan_plan ?cp [] = Inr r"
    by (simp add: build_report_def jan_plan_def id l bars Let_def)
  have d: "kst_date_of close_of_5th = 738890"
    by (simp add: kst_date_of_def close_of_5th_def kst_nanos_def KST_OFFSET_def date_naive_def nanos_per_day_def)
  have wm: "watermark (codec jan_ingestor) ?cp ''000001.XKRX'' daily_label = Some 738890"
    using jan_inverse [of 738890] by (simp add: watermark_def set_watermark_def get_ymd_def jan_codec jan_ymd)
  have fresh: "backfill_degraded ?cp ''000001.XKRX'' daily_label = None" "\<not> cp_backfill ?cp"
    by (simp_all add: backfill_degraded_def set_watermark_def checkpoint_default_def)
  have "list_all (whole_symbol jan_ingestor [[jan_bar daily_series close_of_5th]] jan_plan cp [''000001.XKRX'']) (bp_symbols jan_plan)"
    if "watermark (codec jan_ingestor) cp ''000001.XKRX'' daily_label = Some 738890"
      "backfill_degraded cp ''000001.XKRX'' daily_label = None" for cp
    using d that by (simp add: jan_plan_def whole_symbol_def id l bars Let_def) (simp add: jan_bar_def)
  from this [OF wm fresh(1)] fresh(2) have "cr_go r"
    unfolding report_go_iff [OF r] by (simp add: jan_plan_def)
  with r show ?thesis by blast
qed

end
