(* ===== verification/Catalog_Upkeep.thy ===== *)
theory Catalog_Upkeep
  imports Ingest_Cases
begin

text \<open>
  Upkeep of a bar catalog (\<open>ingest/mod.rs\<close>): the guard of frozen catalogs, compaction with its
  crash-recovery sidecars, and the probe for the depth of minute history. A crash is an outcome of an
  effect: a run has a number of effects left, and the effect after the last one does not happen.
\<close>

section \<open>Frozen catalogs\<close>

text \<open>A path is the list of its components from the root.\<close>

type_synonym path = "string list"

definition parent :: "path \<Rightarrow> path option" where
  "parent p = (if p = [] then None else Some (butlast p))"

definition FROZEN_CATALOG_MARKER :: string where "FROZEN_CATALOG_MARKER = ''FROZEN-20260812''"
definition CATALOG_BAR_DIR :: string where "CATALOG_BAR_DIR = ''data''"
definition CATALOG_DIR_NAME :: string where "CATALOG_DIR_NAME = ''catalog''"

definition push_home :: "path list \<Rightarrow> path \<Rightarrow> path list" where
  "push_home homes d = (if d \<in> set homes then homes else homes @ [d])"

definition push_parent :: "path list \<Rightarrow> path \<Rightarrow> path list" where
  "push_parent homes p = (case parent p of None \<Rightarrow> homes | Some d \<Rightarrow> push_home homes d)"

text \<open>\<open>ancestors().skip(1)\<close>: the proper prefixes, the longest first.\<close>

fun proper_ancestors :: "path \<Rightarrow> path list" where
  "proper_ancestors [] = []"
| "proper_ancestors (x # xs) = map ((#) x) (proper_ancestors xs) @ [[]]"

definition frozen_homes_of :: "path \<Rightarrow> path list" where
  "frozen_homes_of real =
     fold (\<lambda>a homes. if a \<noteq> [] \<and> last a = CATALOG_DIR_NAME then push_parent (push_home homes a) a else homes)
       (proper_ancestors real) (push_parent (push_home [] real) real)"

text \<open>The file system: where a path leads, and which paths exist.\<close>

record fs_view =
  fs_real :: "path \<Rightarrow> path option"
  fs_exists :: "path \<Rightarrow> bool"

definition marker_candidates :: "fs_view \<Rightarrow> path \<Rightarrow> path list" where
  "marker_candidates fs p =
     (case parent p of None \<Rightarrow> [] | Some home \<Rightarrow> [home @ [FROZEN_CATALOG_MARKER]]) @
     [p @ [FROZEN_CATALOG_MARKER]] @
     concat (map (\<lambda>root. case fs_real fs root of
          None \<Rightarrow> []
        | Some real \<Rightarrow> map (\<lambda>home. home @ [FROZEN_CATALOG_MARKER]) (frozen_homes_of real))
       [p, p @ [CATALOG_BAR_DIR]])"

text \<open>\<open>texts\<close> prints the two refusals.\<close>

definition ensure_catalog_writable :: "(path \<Rightarrow> string) \<Rightarrow> fs_view \<Rightarrow> path \<Rightarrow> adapter_error + unit" where
  "ensure_catalog_writable show_path fs p =
     (if fs_real fs p = None \<and> ''..'' \<in> set p
      then Inl (Ingest (''refusing to write to '' @ show_path p @ '': the path does not exist yet AND contains `..`''))
      else case find (fs_exists fs) (marker_candidates fs p) of
          Some marker \<Rightarrow> Inl (Ingest (''refusing to write to a FROZEN catalog: '' @ show_path marker @ '' exists.''))
        | None \<Rightarrow> Inr ())"

section \<open>Compaction\<close>

datatype compact_outcome = Compacted | CompactClean | RefusedDivergent

record compact_series =
  cs_bar_type :: string
  cs_files_before :: nat
  cs_files_after :: nat
  cs_bars_before :: nat
  cs_bars_after :: nat
  cs_outcome :: compact_outcome

definition any_refused :: "compact_series list \<Rightarrow> bool" where
  "any_refused rs = list_ex (\<lambda>s. cs_outcome s = RefusedDivergent) rs"

datatype 'a effect = Finished 'a | Failed adapter_error | Died

text \<open>The catalog, the committed sidecars in the order of their bar types, and the effects left.\<close>

record 'c upkeep =
  up_catalog :: 'c
  up_sidecars :: "(string \<times> price_bar list) list"
  up_left :: nat

text \<open>What the operating system and the library answer: failures of the sidecar files, the read of
  every series, the order of bar types and what a delete cut short leaves.\<close>

record 'c upkeep_env =
  ue_bar :: bar_env
  ue_api :: "'c catalog_api"
  ue_write :: "string \<Rightarrow> string option"
  ue_read :: "string \<Rightarrow> string option"
  ue_remove :: "string \<Rightarrow> string option"
  ue_list :: "string option"
  ue_all :: "'c \<Rightarrow> adapter_error + price_bar list"
  ue_order :: "string list \<Rightarrow> string list"
  ue_torn :: "'c \<Rightarrow> string \<Rightarrow> 'c"

type_synonym ('c, 'a) upkeep_act = "'c upkeep \<Rightarrow> 'a effect \<times> 'c upkeep"

definition up_bind :: "('c, 'a) upkeep_act \<Rightarrow> ('a \<Rightarrow> ('c, 'b) upkeep_act) \<Rightarrow> ('c, 'b) upkeep_act" where
  "up_bind m k w = (case m w of (Finished a, w') \<Rightarrow> k a w' | (Failed e, w') \<Rightarrow> (Failed e, w') | (Died, w') \<Rightarrow> (Died, w'))"

definition up_of :: "adapter_error + 'a \<Rightarrow> ('c, 'a) upkeep_act" where
  "up_of r w = (case r of Inl e \<Rightarrow> (Failed e, w) | Inr a \<Rightarrow> (Finished a, w))"

text \<open>An effect on the disk: \<open>torn\<close> is what is on the disk when the process dies in it.\<close>

definition disk_effect ::
  "('c upkeep \<Rightarrow> 'c upkeep) \<Rightarrow> ('c upkeep \<Rightarrow> (adapter_error + unit) \<times> 'c upkeep) \<Rightarrow> ('c, unit) upkeep_act" where
  "disk_effect torn f w =
     (if up_left w = 0 then (Died, torn w)
      else case f (w \<lparr>up_left := up_left w - 1\<rparr>) of (r, w') \<Rightarrow> up_of r w')"

definition write_sidecar :: "'c upkeep_env \<Rightarrow> string \<Rightarrow> price_bar list \<Rightarrow> ('c, unit) upkeep_act" where
  "write_sidecar e t bars = disk_effect (\<lambda>w. w) (\<lambda>w.
     case ue_write e t of
       Some m \<Rightarrow> (Inl (Ingest m), w)
     | None \<Rightarrow> (Inr (), w \<lparr>up_sidecars := AList.update t bars (up_sidecars w)\<rparr>))"

definition read_sidecar :: "'c upkeep_env \<Rightarrow> string \<Rightarrow> ('c, price_bar list) upkeep_act" where
  "read_sidecar e t w =
     (case ue_read e t of
        Some m \<Rightarrow> (Failed (Ingest m), w)
      | None \<Rightarrow> (case map_of (up_sidecars w) t of None \<Rightarrow> (Failed (Ingest ''read sidecar''), w) | Some bs \<Rightarrow> (Finished bs, w)))"

definition remove_sidecar :: "'c upkeep_env \<Rightarrow> string \<Rightarrow> ('c, unit) upkeep_act" where
  "remove_sidecar e t = disk_effect (\<lambda>w. w) (\<lambda>w.
     case ue_remove e t of
       Some m \<Rightarrow> (Inl (Ingest m), w)
     | None \<Rightarrow> (Inr (), w \<lparr>up_sidecars := AList.delete t (up_sidecars w)\<rparr>))"

definition list_sidecars :: "'c upkeep_env \<Rightarrow> ('c, string list) upkeep_act" where
  "list_sidecars e w =
     (case ue_list e of
        Some m \<Rightarrow> (Failed (Ingest m), w)
      | None \<Rightarrow> (Finished (sort (remdups (map fst (up_sidecars w)))), w))"

definition delete_series :: "'c upkeep_env \<Rightarrow> string \<Rightarrow> ('c, unit) upkeep_act" where
  "delete_series e t = disk_effect (\<lambda>w. w \<lparr>up_catalog := ue_torn e (up_catalog w) t\<rparr>) (\<lambda>w.
     case ca_delete (ue_api e) (up_catalog w) t of (r, c) \<Rightarrow> (r, w \<lparr>up_catalog := c\<rparr>))"

definition append_series :: "'c upkeep_env \<Rightarrow> string \<Rightarrow> price_bar list \<Rightarrow> ('c, unit) upkeep_act" where
  "append_series e t bars = disk_effect (\<lambda>w. w) (\<lambda>w.
     case append_bars_checked (ue_bar e) (ue_api e) (up_catalog w) t bars of (r, c) \<Rightarrow> (r, w \<lparr>up_catalog := c\<rparr>))"

definition rewrite_series :: "'c upkeep_env \<Rightarrow> string \<Rightarrow> price_bar list \<Rightarrow> ('c, unit) upkeep_act" where
  "rewrite_series e t bars =
     up_bind (write_sidecar e t bars) (\<lambda>_.
     up_bind (delete_series e t) (\<lambda>_.
     up_bind (append_series e t bars) (\<lambda>_.
     remove_sidecar e t)))"

definition recover_sidecar :: "'c upkeep_env \<Rightarrow> string \<Rightarrow> ('c, unit) upkeep_act" where
  "recover_sidecar e t =
     up_bind (read_sidecar e t) (\<lambda>staged w.
     up_bind (up_of (ca_bars (ue_api e) (up_catalog w) t None None)) (\<lambda>stored.
       rewrite_series e t (sort_key br_init (dedup_bars (staged @ stored)))) w)"

definition count_files :: "'c upkeep_env \<Rightarrow> string \<Rightarrow> ('c, nat) upkeep_act" where
  "count_files e t w = up_of (map_sum (\<lambda>x. x) List.length (ca_intervals (ue_api e) (up_catalog w) t)) w"

definition compact_one_series :: "'c upkeep_env \<Rightarrow> string \<Rightarrow> price_bar list \<Rightarrow> ('c, compact_series) upkeep_act" where
  "compact_one_series e t rows =
     up_bind (count_files e t) (\<lambda>files_before.
       let bars_before = length rows; deduped = dedup_bars rows;
           same = (\<lambda>oc. \<lparr>cs_bar_type = t, cs_files_before = files_before, cs_files_after = files_before,
             cs_bars_before = bars_before, cs_bars_after = bars_before, cs_outcome = oc\<rparr>)
       in if \<not> distinct (map br_event deduped) then up_of (Inr (same RefusedDivergent))
          else if length deduped = bars_before then up_of (Inr (same CompactClean))
          else up_bind (rewrite_series e t (sort_key br_init deduped)) (\<lambda>_.
               up_bind (count_files e t) (\<lambda>files_after.
               up_of (Inr \<lparr>cs_bar_type = t, cs_files_before = files_before, cs_files_after = files_after,
                 cs_bars_before = bars_before, cs_bars_after = length deduped, cs_outcome = Compacted\<rparr>))))"

fun recover_all :: "'c upkeep_env \<Rightarrow> string list \<Rightarrow> ('c, unit) upkeep_act" where
  "recover_all e [] w = (Finished (), w)"
| "recover_all e (t # ts) w = up_bind (recover_sidecar e t) (\<lambda>_. recover_all e ts) w"

fun compact_all :: "'c upkeep_env \<Rightarrow> price_bar list \<Rightarrow> string list \<Rightarrow> ('c, compact_series list) upkeep_act" where
  "compact_all e raw [] w = (Finished [], w)"
| "compact_all e raw (t # ts) w =
     up_bind (compact_one_series e t (filter (\<lambda>b. br_type b = t) raw)) (\<lambda>r.
     up_bind (compact_all e raw ts) (\<lambda>rs. up_of (Inr (r # rs)))) w"

definition compact_read :: "'c upkeep_env \<Rightarrow> ('c, compact_series list) upkeep_act" where
  "compact_read e w =
     up_bind (up_of (ue_all e (up_catalog w))) (\<lambda>raw. compact_all e raw (ue_order e (remdups (map br_type raw)))) w"

text \<open>\<open>guard\<close> is the frozen-catalog guard, \<open>lock\<close> the ingest lock.\<close>

definition compact_catalog ::
  "'c upkeep_env \<Rightarrow> adapter_error + unit \<Rightarrow> adapter_error + unit \<Rightarrow> ('c, compact_series list) upkeep_act" where
  "compact_catalog e guard lock =
     up_bind (up_of guard) (\<lambda>_.
     up_bind (up_of lock) (\<lambda>_.
     up_bind (list_sidecars e) (\<lambda>ts.
     up_bind (recover_all e ts) (\<lambda>_.
     compact_read e))))"

section \<open>The probe of minute history\<close>

definition page_min :: "bar_env \<Rightarrow> minute_page list \<Rightarrow> int option" where
  "page_min e pages = min_date (List.map_filter (\<lambda>r. parse_ymd (be_ymd e) (m8_date r)) (concat (map mg_rows pages)))"

definition opt_min :: "int option \<Rightarrow> int \<Rightarrow> int" where
  "opt_min a m = (case a of None \<Rightarrow> m | Some x \<Rightarrow> min x m)"

text \<open>A date before the calendar's first panics.\<close>

fun probe_windows ::
  "bar_env \<Rightarrow> 'w minute_fetcher \<Rightarrow> string \<Rightarrow> nat \<Rightarrow> int \<Rightarrow> nat \<Rightarrow> int \<Rightarrow> int option \<Rightarrow> 'w \<Rightarrow> int option io \<times> 'w" where
  "probe_windows e f pilot ncnt window_days 0 wend earliest w = (Val earliest, w)"
| "probe_windows e f pilot ncnt window_days (Suc left) wend earliest w =
     (let wstart = wend - (window_days - 1)
      in if wstart < DATE_MIN then (Panic, w)
         else case mx_fetch f w pilot ncnt (ymd_format (be_ymd e) wstart) (ymd_format (be_ymd e) wend) of
             (Inl x, w') \<Rightarrow> (Err x, w')
           | (Inr pages, w') \<Rightarrow>
               (case page_min e pages of
                  None \<Rightarrow> (Val earliest, w')
                | Some m \<Rightarrow>
                    if wstart - 1 < DATE_MIN then (Panic, w')
                    else probe_windows e f pilot ncnt window_days left (wstart - 1) (Some (opt_min earliest m)) w'))"

definition probe_minute_lookback ::
  "bar_env \<Rightarrow> 'w minute_fetcher \<Rightarrow> string \<Rightarrow> nat \<Rightarrow> int \<Rightarrow> int \<Rightarrow> nat \<Rightarrow> 'w \<Rightarrow> int option io \<times> 'w" where
  "probe_minute_lookback e f pilot ncnt anchor window_days max_windows w =
     probe_windows e f pilot ncnt (max window_days 7) (max max_windows 1) anchor None w"

record minute_lookback =
  ml_earliest :: string
  ml_depth :: int
  ml_probed :: string

datatype lookback_outcome = CalendarStop | NoHistory | Recorded minute_lookback

definition recorded :: "lookback_outcome \<Rightarrow> minute_lookback option" where
  "recorded oc = (case oc of Recorded l \<Rightarrow> Some l | _ \<Rightarrow> None)"

text \<open>\<open>save\<close> writes the reading beside the catalog.\<close>

definition run_probe_lookback_gated ::
  "bar_env \<Rightarrow> 'w minute_fetcher \<Rightarrow> (minute_lookback \<Rightarrow> string option) \<Rightarrow> calendar_gate \<Rightarrow> string \<Rightarrow> nat \<Rightarrow> int \<Rightarrow> string \<Rightarrow> 'w \<Rightarrow>
   lookback_outcome io \<times> 'w" where
  "run_probe_lookback_gated e f save g pilot ncnt anchor probed_at w =
     (case probe_anchor g anchor of
        StopAnchor \<Rightarrow> (Val CalendarStop, w)
      | UseAnchor a \<Rightarrow>
          (case probe_minute_lookback e f pilot ncnt a 7 400 w of
             (Val None, w') \<Rightarrow> (Val NoHistory, w')
           | (Val (Some d), w') \<Rightarrow>
               (let l = \<lparr>ml_earliest = ymd_format (be_ymd e) d, ml_depth = a - d, ml_probed = probed_at\<rparr>
                in case save l of Some m \<Rightarrow> (Err (Ingest m), w') | None \<Rightarrow> (Val (Recorded l), w'))
           | (Err x, w') \<Rightarrow> (Err x, w')
           | (Panic, w') \<Rightarrow> (Panic, w')))"

section \<open>The guard sees every frozen home\<close>

lemma push_home_set [simp]: "set (push_home homes d) = insert d (set homes)"
  by (auto simp: push_home_def)

lemma push_parent_set [simp]: "set (push_parent homes p) = (case parent p of None \<Rightarrow> {} | Some d \<Rightarrow> {d}) \<union> set homes"
  by (auto simp: push_parent_def split: option.split)

lemma proper_ancestors_set: "a \<in> set (proper_ancestors p) \<longleftrightarrow> (\<exists>x xs. p = a @ x # xs)"
proof (induction p arbitrary: a)
  case (Cons y p)
  then show ?case by (cases a) auto
qed simp

lemma frozen_homes_set:
  "h \<in> set (frozen_homes_of real) \<longleftrightarrow> h = real \<or> parent real = Some h \<or>
    (\<exists>a\<in>set (proper_ancestors real). a \<noteq> [] \<and> last a = CATALOG_DIR_NAME \<and> (h = a \<or> parent a = Some h))"
proof -
  have "set (fold (\<lambda>a homes. if a \<noteq> [] \<and> last a = CATALOG_DIR_NAME then push_parent (push_home homes a) a else homes) ps homes) =
      set homes \<union> {h. \<exists>a\<in>set ps. a \<noteq> [] \<and> last a = CATALOG_DIR_NAME \<and> (h = a \<or> parent a = Some h)}" for ps homes
    by (induction ps arbitrary: homes) (auto split: option.splits)
  then show ?thesis by (auto simp: frozen_homes_of_def split: option.splits)
qed

text \<open>
  A frozen home is never written through a catalog path: when the path, or the directory of bars
  below it, really leads into the catalog of a home that carries the marker, at whatever depth and
  through whatever links, the guard refuses.\<close>

theorem frozen_home_is_not_written:
  assumes "fs_exists fs (home @ [FROZEN_CATALOG_MARKER])"
    and "fs_real fs root = Some (home @ CATALOG_DIR_NAME # rest)" and "root = p \<or> root = p @ [CATALOG_BAR_DIR]"
  shows "\<exists>m. ensure_catalog_writable show_path fs p = Inl m"
proof -
  let ?real = "home @ CATALOG_DIR_NAME # rest" and ?a = "home @ [CATALOG_DIR_NAME]"
  have "parent ?a = Some home" by (simp add: parent_def)
  moreover have "?a \<in> set (proper_ancestors ?real) \<or> ?a = ?real"
    by (cases rest) (auto simp: proper_ancestors_set)
  ultimately have "home \<in> set (frozen_homes_of ?real)"
    unfolding frozen_homes_set by fastforce
  then have "home @ [FROZEN_CATALOG_MARKER] \<in> set (marker_candidates fs p)"
    using assms(2,3) by (auto simp: marker_candidates_def)
  with assms(1) have "find (fs_exists fs) (marker_candidates fs p) \<noteq> None"
    by (auto simp: find_None_iff)
  then show ?thesis by (auto simp: ensure_catalog_writable_def)
qed

text \<open>A link into the judgment home: the path carries no marker, the place it leads to does.\<close>

definition linked_home :: fs_view where
  "linked_home = \<lparr>fs_real = (\<lambda>p. if p = [''rehearsal'', ''catalog''] then Some [''judgment'', ''catalog'', ''data''] else None),
     fs_exists = (\<lambda>p. p = [''judgment'', FROZEN_CATALOG_MARKER])\<rparr>"

theorem frozen_home_is_not_written_witness:
  "\<exists>m. ensure_catalog_writable concat linked_home [''rehearsal'', ''catalog''] = Inl m"
  by (rule frozen_home_is_not_written [of _ "[''judgment'']" "[''rehearsal'', ''catalog'']" "[''data'']"])
    (simp_all add: linked_home_def CATALOG_DIR_NAME_def)

section \<open>Compaction keeps every bar\<close>

text \<open>
  What is relied on of the catalog library: \<open>stored\<close> is the set of bars of a series. A read
  returns it; a delete touches its own series only and empties it when it succeeds, a delete cut short or
  failing leaves a part; a write adds to the series of its bars, all of them when it succeeds.\<close>

definition catalog_laws :: "'c upkeep_env \<Rightarrow> ('c \<Rightarrow> string \<Rightarrow> price_bar set) \<Rightarrow> bool" where
  "catalog_laws e stored \<longleftrightarrow>
     (\<forall>c t. \<forall>b\<in>stored c t. br_type b = t) \<and>
     (\<forall>c t bs. ca_bars (ue_api e) c t None None = Inr bs \<longrightarrow> set bs = stored c t) \<and>
     (\<forall>c bs. ue_all e c = Inr bs \<longrightarrow> (\<forall>t. {b \<in> set bs. br_type b = t} = stored c t)) \<and>
     (\<forall>c t r c'. ca_delete (ue_api e) c t = (r, c') \<longrightarrow> stored c' t \<subseteq> stored c t \<and> (r = Inr () \<longrightarrow> stored c' t = {}) \<and>
        (\<forall>u. u \<noteq> t \<longrightarrow> stored c' u = stored c u)) \<and>
     (\<forall>c t. stored (ue_torn e c t) t \<subseteq> stored c t \<and> (\<forall>u. u \<noteq> t \<longrightarrow> stored (ue_torn e c t) u = stored c u)) \<and>
     (\<forall>c bs r c'. ca_write (ue_api e) c bs = (r, c') \<longrightarrow> (\<forall>u. stored c u \<subseteq> stored c' u \<and>
        stored c' u \<subseteq> stored c u \<union> {b \<in> set bs. br_type b = u} \<and>
        (r = Inr () \<longrightarrow> stored c' u = stored c u \<union> {b \<in> set bs. br_type b = u}))) \<and>
     (\<forall>ts. distinct ts \<longrightarrow> distinct (ue_order e ts) \<and> set (ue_order e ts) = set ts)"

definition staged :: "'c upkeep \<Rightarrow> string \<Rightarrow> price_bar set" where
  "staged w t = (case map_of (up_sidecars w) t of None \<Rightarrow> {} | Some bs \<Rightarrow> set bs)"

text \<open>The bars of a series: in the catalog or staged in its sidecar.\<close>

definition held :: "('c \<Rightarrow> string \<Rightarrow> price_bar set) \<Rightarrow> 'c upkeep \<Rightarrow> string \<Rightarrow> price_bar set" where
  "held stored w t = stored (up_catalog w) t \<union> staged w t"

lemma wrote:
  assumes "write_sidecar e t bars w = (r, w')"
  shows "up_catalog w' = up_catalog w \<and>
    map_of (up_sidecars w') = (if r = Finished () then (map_of (up_sidecars w))(t \<mapsto> bars) else map_of (up_sidecars w))"
  using assms
  by (auto simp: write_sidecar_def disk_effect_def up_of_def update_conv' split: if_splits option.splits)

lemma removed:
  assumes "remove_sidecar e t w = (r, w')"
  shows "up_catalog w' = up_catalog w \<and>
    map_of (up_sidecars w') = (if r = Finished () then (map_of (up_sidecars w))(t := None) else map_of (up_sidecars w))"
  using assms
  by (auto simp: remove_sidecar_def disk_effect_def up_of_def delete_conv' split: if_splits option.splits)

lemma deleted:
  assumes "catalog_laws e stored" and "delete_series e t w = (r, w')"
  shows "up_sidecars w' = up_sidecars w \<and> stored (up_catalog w') t \<subseteq> stored (up_catalog w) t \<and>
    (r = Finished () \<longrightarrow> stored (up_catalog w') t = {}) \<and> (\<forall>u. u \<noteq> t \<longrightarrow> stored (up_catalog w') u = stored (up_catalog w) u)"
proof (cases "up_left w = 0")
  case True
  with assms(2) have "r = Died" "w' = w \<lparr>up_catalog := ue_torn e (up_catalog w) t\<rparr>"
    by (auto simp: delete_series_def disk_effect_def)
  with assms(1) show ?thesis unfolding catalog_laws_def by simp
next
  case False
  obtain x c where d: "ca_delete (ue_api e) (up_catalog w) t = (x, c)" by (metis surj_pair)
  with assms(2) False have "up_sidecars w' = up_sidecars w" "up_catalog w' = c" "r = Finished () \<longleftrightarrow> x = Inr ()"
    by (auto simp: delete_series_def disk_effect_def up_of_def split: sum.splits)
  with d assms(1) show ?thesis unfolding catalog_laws_def by auto
qed

lemma appended:
  assumes "catalog_laws e stored" and "append_series e t bars w = (r, w')" and "\<forall>b\<in>set bars. br_type b = t"
  shows "up_sidecars w' = up_sidecars w \<and> stored (up_catalog w) t \<subseteq> stored (up_catalog w') t \<and>
    stored (up_catalog w') t \<subseteq> stored (up_catalog w) t \<union> set bars \<and>
    (r = Finished () \<longrightarrow> stored (up_catalog w') t = stored (up_catalog w) t \<union> set bars) \<and>
    (\<forall>u. u \<noteq> t \<longrightarrow> stored (up_catalog w') u = stored (up_catalog w) u)"
proof (cases "up_left w = 0")
  case True
  with assms(2) show ?thesis by (auto simp: append_series_def disk_effect_def)
next
  case False
  obtain x c where a: "append_bars_checked (ue_bar e) (ue_api e) (up_catalog w) t bars = (x, c)" by (metis surj_pair)
  have w': "up_sidecars w' = up_sidecars w" "up_catalog w' = c" "r = Finished () \<longleftrightarrow> x = Inr ()"
    using assms(2) False a by (auto simp: append_series_def disk_effect_def up_of_def split: sum.splits)
  have typed: "{b \<in> set bars. br_type b = t} = set bars" "u \<noteq> t \<Longrightarrow> {b \<in> set bars. br_type b = u} = {}" for u
    using assms(3) by auto
  from a consider "c = up_catalog w" "x = Inr () \<longrightarrow> bars = []" | "ca_write (ue_api e) (up_catalog w) bars = (x, c)"
    by (auto simp: append_bars_checked_def Let_def split: if_splits sum.splits)
  then show ?thesis
  proof cases
    case 2
    with assms(1) have law: "\<forall>u. stored (up_catalog w) u \<subseteq> stored c u \<and>
        stored c u \<subseteq> stored (up_catalog w) u \<union> {b \<in> set bars. br_type b = u} \<and>
        (x = Inr () \<longrightarrow> stored c u = stored (up_catalog w) u \<union> {b \<in> set bars. br_type b = u})"
      unfolding catalog_laws_def by blast
    have "stored c u = stored (up_catalog w) u" if "u \<noteq> t" for u
      using law typed(2) [OF that] by blast
    with w' typed(1) law [rule_format, of t] show ?thesis by auto
  qed (use w' in auto)
qed

lemma up_bindE:
  assumes "up_bind m k w = (r, w')"
  obtains (more) a w1 where "m w = (Finished a, w1)" "k a w1 = (r, w')"
  | (stop) x where "m w = (x, w')" "\<forall>a. x \<noteq> Finished a" "\<forall>a. r \<noteq> Finished a"
  using assms by (cases "m w"; cases "fst (m w)") (auto simp: up_bind_def)

lemma rewritten:
  assumes "catalog_laws e stored" and "rewrite_series e t bars w = (r, w')"
    and "set bars = held stored w t" and "\<forall>b\<in>set bars. br_type b = t"
  shows "held stored w' t = held stored w t \<and>
    (\<forall>u. u \<noteq> t \<longrightarrow> stored (up_catalog w') u = stored (up_catalog w) u \<and> map_of (up_sidecars w') u = map_of (up_sidecars w) u) \<and>
    (r = Finished () \<longrightarrow> map_of (up_sidecars w') t = None)"
  using assms(2) unfolding rewrite_series_def
proof (cases rule: up_bindE)
  case (stop x)
  then show ?thesis using wrote [OF stop(1)] by (auto simp: held_def staged_def)
next
  case (more _ w1)
  note w1 = wrote [OF more(1)]
  from more(2) show ?thesis
  proof (cases rule: up_bindE)
    case (stop x)
    then show ?thesis using deleted [OF assms(1) stop(1)] w1 assms(3) by (auto simp: held_def staged_def)
  next
    case (more _ w2)
    note w2 = deleted [OF assms(1) more(1)]
    from more(2) show ?thesis
    proof (cases rule: up_bindE)
      case (stop x)
      then show ?thesis using appended [OF assms(1) stop(1) assms(4)] w2 w1 assms(3) by (auto simp: held_def staged_def)
    next
      case (more _ w3)
      note w3 = appended [OF assms(1) more(1) assms(4)]
      from removed [OF more(2)] w3 w2 w1 assms(3) show ?thesis by (auto simp: held_def staged_def)
    qed
  qed
qed

lemma set_dedup [simp]: "set (dedup_bars bs) = set bs"
proof -
  have "set (dedup_loop seen bs) = set bs - set seen" for seen
    by (induction seen bs rule: dedup_loop.induct) auto
  then show ?thesis by (simp add: dedup_bars_def)
qed

definition staged_typed :: "'c upkeep \<Rightarrow> bool" where
  "staged_typed w = (\<forall>t. \<forall>b\<in>staged w t. br_type b = t)"

lemma stored_typed: "catalog_laws e stored \<Longrightarrow> b \<in> stored c t \<Longrightarrow> br_type b = t"
  by (simp add: catalog_laws_def)

lemma held_typed: "catalog_laws e stored \<Longrightarrow> staged_typed w \<Longrightarrow> b \<in> held stored w t \<Longrightarrow> br_type b = t"
  using stored_typed by (auto simp: staged_typed_def held_def)

text \<open>What one rewrite of the series \<open>t\<close> leaves.\<close>

definition series_kept :: "('c \<Rightarrow> string \<Rightarrow> price_bar set) \<Rightarrow> string \<Rightarrow> 'c upkeep \<Rightarrow> bool \<Rightarrow> 'c upkeep \<Rightarrow> bool" where
  "series_kept stored t w ok w' \<longleftrightarrow> held stored w' t = held stored w t \<and>
     (\<forall>u. u \<noteq> t \<longrightarrow> stored (up_catalog w') u = stored (up_catalog w) u \<and> map_of (up_sidecars w') u = map_of (up_sidecars w) u) \<and>
     (ok \<longrightarrow> map_of (up_sidecars w') t = None)"

lemma series_kept_all:
  assumes "series_kept stored t w ok w'"
  shows "held stored w' = held stored w"
proof
  fix u
  show "held stored w' u = held stored w u"
    using assms by (cases "u = t") (simp_all add: series_kept_def held_def staged_def)
qed

lemma recovered:
  assumes "catalog_laws e stored" and "staged_typed w" and "recover_sidecar e t w = (r, w')"
  shows "series_kept stored t w (r = Finished ()) w'"
  using assms(3) unfolding recover_sidecar_def
proof (cases rule: up_bindE)
  case (stop x)
  then show ?thesis by (auto simp: read_sidecar_def series_kept_def split: option.splits)
next
  case (more rows w1)
  then have w1: "w1 = w" "staged w t = set rows" by (auto simp: read_sidecar_def staged_def split: option.splits)
  from more(2) show ?thesis
  proof (cases rule: up_bindE)
    case (stop x)
    then show ?thesis by (auto simp: up_of_def series_kept_def w1 split: sum.splits)
  next
    case (more bs w2)
    then have w2: "w2 = w" "ca_bars (ue_api e) (up_catalog w) t None None = Inr bs"
      by (auto simp: up_of_def w1 split: sum.splits)
    have st: "set bs = stored (up_catalog w) t" using w2(2) assms(1) by (simp add: catalog_laws_def)
    let ?bars = "sort_key br_init (dedup_bars (rows @ bs))"
    have h: "set ?bars = held stored w t" using st w1(2) by (simp add: held_def Un_commute)
    then have "\<forall>b\<in>set ?bars. br_type b = t" using held_typed [OF assms(1,2)] by blast
    with rewritten [OF assms(1) more(2) [unfolded w2(1)] h] show ?thesis by (simp add: series_kept_def)
  qed
qed

lemma kept_typed: "series_kept stored t w ok w' \<Longrightarrow> catalog_laws e stored \<Longrightarrow> staged_typed w \<Longrightarrow> staged_typed w'"
  unfolding staged_typed_def [of w']
proof (intro allI ballI)
  fix u b
  assume k: "series_kept stored t w ok w'" and l: "catalog_laws e stored" "staged_typed w" and b: "b \<in> staged w' u"
  have "b \<in> held stored w' u" using b by (simp add: held_def)
  then show "br_type b = u" using held_typed [OF l] by (simp add: series_kept_all [OF k])
qed

lemma recovered_all:
  assumes "catalog_laws e stored" and "staged_typed w" and "recover_all e ts w = (r, w')"
  shows "held stored w' = held stored w \<and> staged_typed w' \<and>
    (r = Finished () \<longrightarrow> (\<forall>t. map_of (up_sidecars w') t = (if t \<in> set ts then None else map_of (up_sidecars w) t)))"
  using assms(2,3)
proof (induction ts arbitrary: w)
  case (Cons t ts)
  from Cons.prems(2) have "up_bind (recover_sidecar e t) (\<lambda>_. recover_all e ts) w = (r, w')" by simp
  then show ?case
  proof (cases rule: up_bindE)
    case (stop x)
    note k = recovered [OF assms(1) Cons.prems(1) stop(1)]
    from series_kept_all [OF k] kept_typed [OF k assms(1) Cons.prems(1)] stop(3) show ?thesis by simp
  next
    case (more _ w1)
    note k = recovered [OF assms(1) Cons.prems(1) more(1)]
    from Cons.IH [OF kept_typed [OF k assms(1) Cons.prems(1)] more(2)] series_kept_all [OF k] k show ?thesis
      by (auto simp: series_kept_def)
  qed
qed auto

lemma count_pure: "count_files e t w = (r, w') \<Longrightarrow> w' = w"
  by (auto simp: count_files_def up_of_def split: sum.splits)

lemma compacted_one:
  assumes "catalog_laws e stored" and "compact_one_series e t rows w = (r, w')"
    and "map_of (up_sidecars w) t = None" and "set rows = stored (up_catalog w) t"
  shows "series_kept stored t w (\<exists>x. r = Finished x) w'"
  using assms(2) unfolding compact_one_series_def
proof (cases rule: up_bindE)
  case (stop x)
  with count_pure [OF stop(1)] show ?thesis by (simp add: series_kept_def)
next
  case (more n w1)
  have h: "set (sort_key br_init (dedup_bars rows)) = held stored w t"
    using assms(3,4) by (simp add: held_def staged_def)
  have ty: "\<forall>b\<in>set (sort_key br_init (dedup_bars rows)). br_type b = t"
    using assms(1,4) unfolding catalog_laws_def by simp
  note w1 = count_pure [OF more(1)]
  show ?thesis
  proof (cases "\<not> distinct (map br_event (dedup_bars rows)) \<or> length (dedup_bars rows) = length rows")
    case True
    with more(2) assms(3) show ?thesis by (auto simp: Let_def up_of_def w1 series_kept_def split: if_splits)
  next
    case False
    with more(2) w1 have "up_bind (rewrite_series e t (sort_key br_init (dedup_bars rows))) (\<lambda>_.
        up_bind (count_files e t) (\<lambda>m. up_of (Inr \<lparr>cs_bar_type = t, cs_files_before = n, cs_files_after = m,
          cs_bars_before = length rows, cs_bars_after = length (dedup_bars rows), cs_outcome = Compacted\<rparr>))) w = (r, w')"
      by (simp add: Let_def)
    then show ?thesis
    proof (cases rule: up_bindE)
      case (stop x)
      from rewritten [OF assms(1) stop(1) h ty] stop(3) show ?thesis by (simp add: series_kept_def)
    next
      case (more u w2)
      from more(2) have "w' = w2"
        by (auto simp: up_bind_def up_of_def dest: count_pure split: effect.splits prod.splits)
      with rewritten [OF assms(1) more(1) h ty] show ?thesis by (simp add: series_kept_def)
    qed
  qed
qed

lemma compacted_all:
  assumes "catalog_laws e stored" and "compact_all e raw ts w = (r, w')" and "distinct ts" and "staged_typed w"
    and "\<forall>t\<in>set ts. map_of (up_sidecars w) t = None \<and> {b \<in> set raw. br_type b = t} = stored (up_catalog w) t"
  shows "held stored w' = held stored w \<and> staged_typed w' \<and>
    ((\<exists>x. r = Finished x) \<longrightarrow> (\<forall>t. map_of (up_sidecars w') t = map_of (up_sidecars w) t))"
  using assms(2-5)
proof (induction ts arbitrary: w r)
  case (Cons t ts)
  let ?rows = "filter (\<lambda>b. br_type b = t) raw"
  have rows: "map_of (up_sidecars w) t = None" "set ?rows = stored (up_catalog w) t" using Cons.prems(4) by auto
  from Cons.prems(1) have "up_bind (compact_one_series e t ?rows) (\<lambda>r.
      up_bind (compact_all e raw ts) (\<lambda>rs. up_of (Inr (r # rs)))) w = (r, w')" by simp
  then show ?case
  proof (cases rule: up_bindE)
    case (stop x)
    note k = compacted_one [OF assms(1) stop(1) rows]
    from series_kept_all [OF k] kept_typed [OF k assms(1) Cons.prems(3)] stop(3) show ?thesis by simp
  next
    case (more one w1)
    note k = compacted_one [OF assms(1) more(1) rows]
    note ty = kept_typed [OF k assms(1) Cons.prems(3)]
    have rest: "\<forall>u\<in>set ts. map_of (up_sidecars w1) u = None \<and> {b \<in> set raw. br_type b = u} = stored (up_catalog w1) u"
      using Cons.prems(2,4) k by (auto simp: series_kept_def)
    from more(2) obtain x where rest_run: "compact_all e raw ts w1 = (x, w')" "(\<exists>y. r = Finished y) \<longrightarrow> (\<exists>y. x = Finished y)"
      by (elim up_bindE) (auto simp: up_of_def)
    from Cons.IH [OF rest_run(1) _ ty rest] Cons.prems(2) series_kept_all [OF k] k rest_run(2) rows(1) show ?thesis
      by (auto simp: series_kept_def) metis
  qed
qed auto

text \<open>
  C10. Compaction loses no bar and invents none: whatever fails and wherever the process dies, in a
  first run or in the run that recovers an earlier crash, each bar is still in its series or staged in the
  sidecar of its series; a run that ends well leaves no sidecar and every bar in the catalog.\<close>

theorem compaction_loses_no_bar:
  assumes "catalog_laws e stored" and "staged_typed w" and "compact_catalog e guard lock w = (r, w')"
  shows "held stored w' = held stored w \<and>
    ((\<exists>rs. r = Finished rs) \<longrightarrow> up_sidecars w' = [] \<and> stored (up_catalog w') = held stored w)"
proof -
  define ts where "ts = sort (remdups (map fst (up_sidecars w)))"
  obtain x w1 where rec: "recover_all e ts w = (x, w1)" by (metis surj_pair)
  note k = recovered_all [OF assms(1,2) rec]
  have "w' = w \<and> (\<forall>rs. r \<noteq> Finished rs) \<or> up_bind (recover_all e ts) (\<lambda>_. compact_read e) w = (r, w')"
    using assms(3) by (cases guard; cases lock; cases "ue_list e")
      (auto simp: compact_catalog_def up_bind_def up_of_def list_sidecars_def ts_def)
  then show ?thesis
  proof
    assume "up_bind (recover_all e ts) (\<lambda>_. compact_read e) w = (r, w')"
    then show ?thesis
    proof (cases rule: up_bindE)
      case (stop y)
      with k rec show ?thesis by simp
    next
      case (more u w2)
      with rec have x: "x = Finished ()" "w2 = w1" by simp_all
      have none: "map_of (up_sidecars w1) t = None" for t
        using k x(1) by (auto simp: ts_def map_of_eq_None_iff)
      from more(2) show ?thesis unfolding compact_read_def x(2)
      proof (cases rule: up_bindE)
        case (stop y)
        with k show ?thesis by (auto simp: up_of_def split: sum.splits)
      next
        case (more raw w2)
        then have w2: "w2 = w1" and raw: "ue_all e (up_catalog w1) = Inr raw" by (auto simp: up_of_def split: sum.splits)
        have o: "distinct (ue_order e (remdups (map br_type raw)))" using assms(1) by (simp add: catalog_laws_def)
        have f: "{b \<in> set raw. br_type b = t} = stored (up_catalog w1) t" for t
          using assms(1) raw by (simp add: catalog_laws_def)
        from compacted_all [OF assms(1) more(2) [unfolded w2] o] k none f have
          c: "held stored w' = held stored w1" "(\<exists>rs. r = Finished rs) \<longrightarrow> (\<forall>t. map_of (up_sidecars w') t = None)" by simp_all
        have "up_sidecars w' = [] \<and> stored (up_catalog w') = held stored w" if "\<exists>rs. r = Finished rs"
        proof -
          from c(2) that have "\<forall>t. map_of (up_sidecars w') t = None" by blast
          then have "map_of (up_sidecars w') = Map.empty" by (intro ext) simp
          then have e: "up_sidecars w' = []" by simp
          then have "held stored w' = stored (up_catalog w')" by (intro ext) (simp add: held_def staged_def)
          with e c(1) k show ?thesis by simp
        qed
        with c(1) k show ?thesis by simp
      qed
    qed
  qed simp
qed

section \<open>A catalog of files\<close>

definition files_of :: "string \<Rightarrow> price_bar list list \<Rightarrow> price_bar list list" where
  "files_of t c = filter (\<lambda>bs. bs \<noteq> []) (map (filter (\<lambda>b. br_type b = t)) c)"

definition file_catalog :: "price_bar list list catalog_api" where
  "file_catalog = \<lparr>ca_intervals = (\<lambda>c t. Inr (map file_span (files_of t c))),
     ca_bars = (\<lambda>c t a b. Inr (concat (files_of t c))),
     ca_write = (\<lambda>c bs. (Inr (), c @ [bs])),
     ca_delete = (\<lambda>c t. (Inr (), map (filter (\<lambda>b. br_type b \<noteq> t)) c))\<rparr>"

text \<open>A delete cut short has deleted nothing yet.\<close>

definition file_upkeep :: "price_bar list list upkeep_env" where
  "file_upkeep = \<lparr>ue_bar = jan_env, ue_api = file_catalog, ue_write = (\<lambda>t. None), ue_read = (\<lambda>t. None), ue_remove = (\<lambda>t. None),
     ue_list = None, ue_all = (\<lambda>c. Inr (concat c)), ue_order = sort, ue_torn = (\<lambda>c t. c)\<rparr>"

definition stored_files :: "price_bar list list \<Rightarrow> string \<Rightarrow> price_bar set" where
  "stored_files c t = {b \<in> set (concat c). br_type b = t}"

lemma file_upkeep_laws: "catalog_laws file_upkeep stored_files"
proof -
  have "concat (files_of t c) = filter (\<lambda>b. br_type b = t) (concat c)" for t c
    by (induction c) (simp_all add: files_of_def)
  then have r: "set (concat (files_of t c)) = stored_files c t" for t c
    by (auto simp: stored_files_def)
  show ?thesis
    unfolding catalog_laws_def file_upkeep_def file_catalog_def upkeep_env.select_convs catalog_api.select_convs
    by (intro conjI allI impI) (auto simp: r simp del: set_concat, auto simp: stored_files_def)
qed

definition old_bar :: price_bar where "old_bar = jan_bar daily_series close_of_5th"
definition new_bar :: price_bar where "new_bar = old_bar \<lparr>br_close := 50, br_low := 50\<rparr>"

text \<open>The bar was stored twice; the process dies in the delete, after the sidecar was staged.\<close>

definition doubled_catalog :: "nat \<Rightarrow> price_bar list list upkeep" where
  "doubled_catalog n = \<lparr>up_catalog = [[old_bar], [old_bar]], up_sidecars = [], up_left = n\<rparr>"

theorem compaction_loses_no_bar_witness:
  "held stored_files (snd (compact_catalog file_upkeep (Inr ()) (Inr ()) (doubled_catalog 1))) = held stored_files (doubled_catalog 1)"
proof -
  obtain r w' where run: "compact_catalog file_upkeep (Inr ()) (Inr ()) (doubled_catalog 1) = (r, w')" by (metis surj_pair)
  have "staged_typed (doubled_catalog 1)" by (simp add: staged_typed_def staged_def doubled_catalog_def)
  from compaction_loses_no_bar [OF file_upkeep_laws this run] run show ?thesis by simp
qed

lemma file_fields:
  "ue_bar file_upkeep = jan_env" "ue_api file_upkeep = file_catalog" "ue_write file_upkeep t = None" "ue_read file_upkeep t = None"
  "ue_remove file_upkeep t = None" "ue_list file_upkeep = None" "ue_all file_upkeep c = Inr (concat c)"
  "ue_order file_upkeep = sort" "ue_torn file_upkeep c t = c"
  "ca_intervals file_catalog c t = Inr (map file_span (files_of t c))"
  "ca_bars file_catalog c t None None = Inr (concat (files_of t c))"
  "ca_write file_catalog c bs = (Inr (), c @ [bs])"
  "ca_delete file_catalog c t = (Inr (), map (filter (\<lambda>b. br_type b \<noteq> t)) c)"
  by (simp_all add: file_upkeep_def file_catalog_def)

lemma dies_in_delete:
  "up_left w = 1 \<Longrightarrow> rewrite_series file_upkeep t bars w =
    (Died, w \<lparr>up_sidecars := AList.update t bars (up_sidecars w), up_left := 0\<rparr>)"
  by (simp add: rewrite_series_def up_bind_def write_sidecar_def delete_series_def disk_effect_def up_of_def file_fields)

lemma rewrite_done:
  assumes "4 \<le> up_left w" and "bars \<noteq> []"
  shows "rewrite_series file_upkeep t bars w =
    (Finished (), \<lparr>up_catalog = map (filter (\<lambda>b. br_type b \<noteq> t)) (up_catalog w) @ [bars],
       up_sidecars = AList.delete t (AList.update t bars (up_sidecars w)), up_left = up_left w - 4\<rparr>)"
proof -
  have "files_of t (map (filter (\<lambda>b. br_type b \<noteq> t)) c) = []" for c
    by (induction c) (simp_all add: files_of_def)
  with assms show ?thesis
    by (cases w) (simp add: rewrite_series_def up_bind_def write_sidecar_def delete_series_def append_series_def remove_sidecar_def
        disk_effect_def up_of_def file_fields append_bars_checked_def Let_def)
qed

text \<open>
  A heal does not know the sidecars. The series is staged, the process dies before the delete, an
  accumulate run then finds the basis shifted, deletes the series and stores the new bar; the next
  compaction folds the sidecar back: the bar of the old basis stands again beside the bar of the
  new one, and the series is refused as divergent.\<close>

theorem recovery_resurrects_wiped_bars:
  "case compact_catalog file_upkeep (Inr ()) (Inr ()) (doubled_catalog 1) of (r1, w1) \<Rightarrow>
   case ca_delete file_catalog (up_catalog w1) daily_series of (_, wiped) \<Rightarrow>
   case ca_write file_catalog wiped [new_bar] of (_, healed) \<Rightarrow>
   case compact_catalog file_upkeep (Inr ()) (Inr ()) (w1 \<lparr>up_catalog := healed, up_left := 9\<rparr>) of (r2, w2) \<Rightarrow>
     r1 = Died \<and> ca_bars file_catalog healed daily_series None None = Inr [new_bar] \<and>
     ca_bars file_catalog (up_catalog w2) daily_series None None = Inr [old_bar, new_bar] \<and>
     (\<exists>rs. r2 = Finished rs \<and> any_refused rs)"
proof -
  have b: "br_type old_bar = daily_series" "br_type new_bar = daily_series" "br_event new_bar = br_event old_bar"
      "br_init new_bar = br_init old_bar" "new_bar \<noteq> old_bar"
    by (simp_all add: old_bar_def new_bar_def jan_bar_def)
  have d: "dedup_bars [old_bar, old_bar] = [old_bar]" "dedup_bars [old_bar, new_bar] = [old_bar, new_bar]"
    using b(5) by (simp_all add: dedup_bars_def)
  have f: "files_of daily_series [[old_bar], [old_bar]] = [[old_bar], [old_bar]]" "files_of daily_series [[], [], [new_bar]] = [[new_bar]]"
      "files_of daily_series [[], [], [], [old_bar, new_bar]] = [[old_bar, new_bar]]"
    by (simp_all add: files_of_def b)
  define w1 where "w1 = \<lparr>up_catalog = [[old_bar], [old_bar]], up_sidecars = [(daily_series, [old_bar])], up_left = 0\<rparr>"
  define w2 where "w2 = \<lparr>up_catalog = [[], [], [], [old_bar, new_bar]], up_sidecars = [], up_left = 5\<rparr>"
  have one: "compact_one_series file_upkeep daily_series [old_bar, old_bar] (doubled_catalog 1) = (Died, w1)"
    by (simp add: compact_one_series_def up_bind_def count_files_def up_of_def file_fields d Let_def dies_in_delete
        doubled_catalog_def w1_def)
  have cat: "up_catalog (doubled_catalog 1) = [[old_bar], [old_bar]]" by (simp add: doubled_catalog_def)
  have ls: "list_sidecars file_upkeep (doubled_catalog 1) = (Finished [], doubled_catalog 1)"
    by (simp add: list_sidecars_def file_fields doubled_catalog_def)
  have read: "compact_read file_upkeep (doubled_catalog 1) = (Died, w1)"
    by (simp add: compact_read_def up_bind_def up_of_def file_fields cat b one del: One_nat_def)
  have run1: "compact_catalog file_upkeep (Inr ()) (Inr ()) (doubled_catalog 1) = (Died, w1)"
    by (simp add: compact_catalog_def up_bind_def up_of_def ls read del: One_nat_def)
  let ?w = "w1 \<lparr>up_catalog := [[], [], [new_bar]], up_left := 9\<rparr>"
  have rec: "recover_sidecar file_upkeep daily_series ?w = (Finished (), w2)"
    by (simp add: recover_sidecar_def up_bind_def read_sidecar_def up_of_def file_fields w1_def f d rewrite_done b w2_def)
  have two: "compact_one_series file_upkeep daily_series [old_bar, new_bar] w2 =
      (Finished \<lparr>cs_bar_type = daily_series, cs_files_before = 1, cs_files_after = 1, cs_bars_before = 2, cs_bars_after = 2,
        cs_outcome = RefusedDivergent\<rparr>, w2)"
    by (simp add: compact_one_series_def up_bind_def count_files_def up_of_def file_fields d Let_def b w2_def f)
  have run2: "compact_catalog file_upkeep (Inr ()) (Inr ()) ?w =
      (Finished [\<lparr>cs_bar_type = daily_series, cs_files_before = 1, cs_files_after = 1, cs_bars_before = 2, cs_bars_after = 2,
        cs_outcome = RefusedDivergent\<rparr>], w2)"
  proof -
    have "list_sidecars file_upkeep ?w = (Finished [daily_series], ?w)" by (simp add: list_sidecars_def file_fields w1_def)
    moreover have "concat (up_catalog w2) = [old_bar, new_bar]" by (simp add: w2_def)
    ultimately show ?thesis
      by (simp add: compact_catalog_def up_bind_def up_of_def rec compact_read_def file_fields b two)
  qed
  have heal: "map (filter (\<lambda>b. br_type b \<noteq> daily_series)) (up_catalog w1) @ [[new_bar]] = [[], [], [new_bar]]"
    by (simp add: w1_def b)
  show ?thesis
    unfolding run1 prod.case file_fields heal run2 by (simp add: f w2_def any_refused_def)
qed

section \<open>A probe across a long holiday\<close>

text \<open>
  The Chuseok of 2025: the exchange was closed from 3 to 9 October, seven calendar days. The gateway
  serves a minute row for each session of the asked window.\<close>

definition oct_dates :: "string list" where
  "oct_dates = [
     ''20250925'', ''20250926'', ''20250927'', ''20250928'', ''20250929'', ''20250930'', ''20251001'', ''20251002'',
     ''20251003'', ''20251004'', ''20251005'', ''20251006'', ''20251007'', ''20251008'', ''20251009'', ''20251010'',
     ''20251011'', ''20251012'', ''20251013'', ''20251014'', ''20251015'', ''20251016'']"

definition oct_format :: "int \<Rightarrow> string" where
  "oct_format d = (if 739519 \<le> d \<and> d \<le> 739540 then oct_dates ! nat (d - 739519) else [])"

definition oct_parse :: "string \<Rightarrow> int option" where
  "oct_parse s = find (\<lambda>d. oct_format d = s) [739519..739540]"

definition oct_sessions :: "int list" where
  "oct_sessions = [739519, 739520, 739523, 739524, 739525, 739526, 739534, 739537, 739538, 739539, 739540]"

definition oct_env :: bar_env where
  "oct_env = jan_env \<lparr>be_ymd := \<lparr>ymd_parse = oct_parse, ymd_format = oct_format\<rparr>\<rparr>"

definition oct_rows :: "string \<Rightarrow> string \<Rightarrow> t8412_row list" where
  "oct_rows a b = map (\<lambda>d. (minute_row_of d) \<lparr>m8_date := oct_format d\<rparr>)
     (filter (\<lambda>d. the (oct_parse a) \<le> d \<and> d \<le> the (oct_parse b)) oct_sessions)"

definition oct_gateway :: "unit minute_fetcher" where
  "oct_gateway = \<lparr>mx_fetch = (\<lambda>w s n a b. (Inr [\<lparr>mg_rows = oct_rows a b, mg_cts_date = [], mg_cts_time = [], mg_cont_key = []\<rparr>], w)),
     mx_label = ''t8412'', mx_per_sec = 1\<rparr>"

lemma find_inverse: "distinct (map f xs) \<Longrightarrow> d \<in> set xs \<Longrightarrow> find (\<lambda>x. f x = f d) xs = Some d"
  by (induction xs) auto

lemma oct_inverse:
  assumes "739519 \<le> d" and "d \<le> 739540"
  shows "oct_parse (oct_format d) = Some d"
proof -
  have "map oct_format [739519..739540] = oct_dates"
    by (simp add: oct_format_def) (simp add: oct_dates_def)
  moreover have "distinct oct_dates" by code_simp
  ultimately have "distinct (map oct_format [739519..739540])" by simp
  moreover have "d \<in> set [739519..739540]" using assms by (simp only: set_upto atLeastAtMost_iff)
  ultimately show ?thesis unfolding oct_parse_def by (rule find_inverse)
qed

lemma oct_trim: "trim (oct_format d) = oct_format d"
proof (rule trim_plain)
  show "plain_char c" if "c \<in> set (oct_format d)" for c
  proof (cases "739519 \<le> d \<and> d \<le> 739540")
    case True
    moreover have "length oct_dates = 22" by (simp add: oct_dates_def)
    ultimately have "oct_format d \<in> set oct_dates" by (auto simp: oct_format_def intro!: nth_mem)
    then have "list_all (list_all plain_char) oct_dates \<Longrightarrow> plain_char c" using that by (auto simp: list_all_iff)
    then show ?thesis by (simp add: oct_dates_def plain_char_def)
  qed (use that in \<open>auto simp: oct_format_def split: if_splits\<close>)
qed

lemma oct_min:
  "page_min oct_env [\<lparr>mg_rows = oct_rows (oct_format a) (oct_format b), mg_cts_date = x, mg_cts_time = y, mg_cont_key = z\<rparr>] =
    min_date (filter (\<lambda>d. a \<le> d \<and> d \<le> b) oct_sessions)"
  if "739519 \<le> a" "a \<le> 739540" "739519 \<le> b" "b \<le> 739540"
proof -
  have "List.map_filter (\<lambda>r. parse_ymd (be_ymd oct_env) (m8_date r))
      (map (\<lambda>d. (minute_row_of d) \<lparr>m8_date := oct_format d\<rparr>) ds) = ds"
    if "\<forall>d\<in>set ds. 739519 \<le> d \<and> d \<le> 739540" for ds
    using that by (induction ds) (simp_all add: List.map_filter_def oct_env_def parse_ymd_def oct_trim oct_inverse)
  then show ?thesis
    using that by (simp add: page_min_def oct_rows_def oct_inverse oct_sessions_def)
qed

text \<open>
  The probe stops at the first window without rows, on the ground that a week always holds a session.
  It does not: from 16 October the second window is the holiday, and the probe reports 10 October as
  the earliest date although the gateway serves every session of September it was never asked for.\<close>

theorem holiday_week_ends_the_probe:
  "probe_minute_lookback oct_env oct_gateway ''005930'' 1 739540 7 400 () = (Val (Some 739534), ()) \<and>
   page_min oct_env (case mx_fetch oct_gateway () ''005930'' 1 (oct_format 739520) (oct_format 739526) of (Inr ps, _) \<Rightarrow> ps | _ \<Rightarrow> []) =
     Some 739520"
proof -
  have fmt: "ymd_format (be_ymd oct_env) d = oct_format d" for d by (simp add: oct_env_def)
  have n: "max (400 :: nat) 1 = Suc (Suc 398)" by simp
  have m: "min_date (filter (\<lambda>d. 739534 \<le> d \<and> d \<le> 739540) oct_sessions) = Some 739534"
      "min_date (filter (\<lambda>d. 739527 \<le> d \<and> d \<le> 739533) oct_sessions) = None"
      "min_date (filter (\<lambda>d. 739520 \<le> d \<and> d \<le> 739526) oct_sessions) = Some 739520"
    by (simp_all add: oct_sessions_def min_date_def)
  have p: "mx_fetch oct_gateway () s n a b =
      (Inr [\<lparr>mg_rows = oct_rows a b, mg_cts_date = [], mg_cts_time = [], mg_cont_key = []\<rparr>], ())" for s n a b
    by (simp add: oct_gateway_def)
  have w: "probe_windows oct_env oct_gateway ''005930'' 1 7 (Suc (Suc k)) 739540 None () = (Val (Some 739534), ())" for k
    by (simp add: Let_def DATE_MIN_def fmt p oct_min m opt_min_def del: One_nat_def)
  have "max (7 :: int) 7 = 7" by simp
  then show ?thesis
    unfolding probe_minute_lookback_def n by (simp only: w) (simp add: p oct_min m del: One_nat_def)
qed

end
