(* ===== verification/Work_Queue.thy ===== *)
theory Work_Queue
  imports Dispatch_Chain
begin

text \<open>
  The work queue of the lab (\<open>adapters/nautilus/lab/src/queue/item.rs\<close>, \<open>store.rs\<close>) and the verbs
  that edit it (\<open>runner/next/verbs.rs\<close>). Every verb reads the whole file, changes the items and
  replaces the file, or refuses and leaves it. serde, RFC 3339 and the file system are arguments.
\<close>

section \<open>Items\<close>

definition QUEUE_SCHEMA_VERSION :: nat where "QUEUE_SCHEMA_VERSION = 1"

datatype work_window = OpenAttended | ClosedWindow | AnyWindow

definition window_parse :: "string \<Rightarrow> string + work_window" where
  "window_parse s =
     (if s = ''open-attended'' then Inr OpenAttended
      else if s = ''closed'' then Inr ClosedWindow
      else if s = ''any'' then Inr AnyWindow
      else Inl (''window '' @ s @ '' not one of open-attended | closed | any''))"

definition window_tag :: "work_window \<Rightarrow> string" where
  "window_tag w = (case w of OpenAttended \<Rightarrow> ''open-attended'' | ClosedWindow \<Rightarrow> ''closed'' | AnyWindow \<Rightarrow> ''any'')"

datatype completion_signal = Explicit | ToolEvent string "string option"

record queue_item =
  qi_schema :: nat
  qi_id :: string
  qi_title :: string
  qi_window :: work_window
  qi_completion :: completion_signal
  qi_added :: string
  qi_deadline :: "string option"
  qi_superseded :: "string option"
  qi_done :: "string option"
  qi_reconcile :: "string option"
  qi_sequence :: "string option"
  qi_priority :: bool
  qi_unblock :: "string option"
  qi_notes :: "string option"
  qi_refs :: "string list"

definition item_new :: "string \<Rightarrow> string \<Rightarrow> work_window \<Rightarrow> completion_signal \<Rightarrow> string \<Rightarrow> queue_item" where
  "item_new i title w c added =
     \<lparr>qi_schema = QUEUE_SCHEMA_VERSION, qi_id = i, qi_title = title, qi_window = w, qi_completion = c, qi_added = added,
      qi_deadline = None, qi_superseded = None, qi_done = None, qi_reconcile = None, qi_sequence = None,
      qi_priority = False, qi_unblock = None, qi_notes = None, qi_refs = []\<rparr>"

definition is_blocked :: "queue_item \<Rightarrow> bool" where
  "is_blocked x = (qi_unblock x \<noteq> None)"

definition unblock_reason :: "queue_item \<Rightarrow> string" where
  "unblock_reason x = (case qi_unblock x of None \<Rightarrow> ''(unrecorded)'' | Some c \<Rightarrow> c)"

datatype fs_meta = IsDir "nat option" | IsFile nat

text \<open>What the process asks: serde, RFC 3339 instants, the file system, the repository root, and how a
  write of the queue file fails.\<close>

record queue_env =
  qe_parse :: "string \<Rightarrow> string + queue_item"
  qe_line :: "queue_item \<Rightarrow> string"
  qe_rfc :: "string \<Rightarrow> int option"
  qe_meta :: "string \<Rightarrow> fs_meta option"
  qe_root :: "string option"
  qe_write :: "string option"

definition item_is_stale :: "queue_env \<Rightarrow> int \<Rightarrow> queue_item \<Rightarrow> string + bool" where
  "item_is_stale e now x =
     (if qi_sequence x \<noteq> None \<or> is_blocked x then Inr False
      else case qi_deadline x of
        None \<Rightarrow> Inr False
      | Some d \<Rightarrow>
          (case qe_rfc e d of
             None \<Rightarrow> Inl (''item '' @ qi_id x @ '': deadline is not RFC3339'')
           | Some t \<Rightarrow> Inr (t < now)))"

definition is_actionable :: "queue_env \<Rightarrow> int \<Rightarrow> queue_item \<Rightarrow> string + bool" where
  "is_actionable e now x =
     (if qi_done x \<noteq> None \<or> qi_superseded x \<noteq> None then Inr False
      else map_sum (\<lambda>m. m) Not (item_is_stale e now x))"

section \<open>Witnesses of completion\<close>

definition artifact_witnesses :: "queue_env \<Rightarrow> string \<Rightarrow> bool" where
  "artifact_witnesses e p =
     (case qe_meta e p of
        Some (IsDir (Some n)) \<Rightarrow> 0 < n
      | Some (IsDir None) \<Rightarrow> False
      | Some (IsFile n) \<Rightarrow> 0 < n
      | None \<Rightarrow> False)"

definition anchored :: "queue_env \<Rightarrow> string \<Rightarrow> string" where
  "anchored e p =
     (if starts_with p ''/'' then p
      else case qe_root e of Some r \<Rightarrow> r @ ''/'' @ p | None \<Rightarrow> p)"

section \<open>The store\<close>

datatype queue_file = NoFile | QueueText "string + string"

datatype transition_outcome = Completed | Reconcile string

definition blank_condition :: "queue_item \<Rightarrow> bool" where
  "blank_condition x = (case qi_unblock x of None \<Rightarrow> False | Some c \<Rightarrow> trim c = [])"

definition read_item :: "queue_env \<Rightarrow> nat \<Rightarrow> string \<Rightarrow> string + queue_item" where
  "read_item e n l =
     (case qe_parse e l of
        Inl m \<Rightarrow> Inl (''queue line '' @ show_nat n @ '': '' @ m)
      | Inr x \<Rightarrow>
          if qi_schema x \<noteq> QUEUE_SCHEMA_VERSION
          then Inl (''queue line '' @ show_nat n @ '': unsupported schema version '' @ show_nat (qi_schema x))
          else if blank_condition x
          then Inl (''queue line '' @ show_nat n @ '': item '' @ qi_id x @ '' is blocked with a blank unblock condition'')
          else Inr x)"

fun read_items :: "queue_env \<Rightarrow> nat \<Rightarrow> string list \<Rightarrow> string + queue_item list" where
  "read_items e n [] = Inr []"
| "read_items e n (l # ls) =
     (if trim l = [] then read_items e (n + 1) ls
      else bind_res (read_item e n l) (\<lambda>x. map_sum (\<lambda>m. m) ((#) x) (read_items e (n + 1) ls)))"

definition read_all :: "queue_env \<Rightarrow> queue_file \<Rightarrow> string + queue_item list" where
  "read_all e f =
     (case f of
        NoFile \<Rightarrow> Inr []
      | QueueText (Inl m) \<Rightarrow> Inl (''reading queue: '' @ m)
      | QueueText (Inr t) \<Rightarrow> read_items e 1 (str_lines t))"

definition queue_text :: "queue_env \<Rightarrow> queue_item list \<Rightarrow> string" where
  "queue_text e xs = concat (map (\<lambda>x. qe_line e x @ [CHR 0x0A]) xs)"

definition marker_holders :: "queue_item list \<Rightarrow> string list" where
  "marker_holders xs = map qi_id (filter qi_priority xs)"

definition queue_save :: "queue_env \<Rightarrow> queue_item list \<Rightarrow> queue_file \<Rightarrow> (string + unit) \<times> queue_file" where
  "queue_save e xs f =
     (case find blank_condition xs of
        Some x \<Rightarrow> (Inl (''item '' @ qi_id x @ '': blocked with an empty unblock condition''), f)
      | None \<Rightarrow>
          if 1 < length (marker_holders xs)
          then (Inl (''refusing to write '' @ show_nat (length (marker_holders xs)) @ '' priority holders ('' @ join '', '' (marker_holders xs) @ '')''), f)
          else case qe_write e of
            Some m \<Rightarrow> (Inl m, f)
          | None \<Rightarrow> (Inr (), QueueText (Inr (queue_text e xs))))"

text \<open>The result of a verb that saved \<open>xs\<close>.\<close>

definition saved :: "queue_env \<Rightarrow> queue_item list \<Rightarrow> 'a \<Rightarrow> queue_file \<Rightarrow> (string + 'a) \<times> queue_file" where
  "saved e xs a f = (case queue_save e xs f of (r, f') \<Rightarrow> (map_sum (\<lambda>m. m) (\<lambda>_. a) r, f'))"

definition with_items ::
  "queue_env \<Rightarrow> queue_file \<Rightarrow> (queue_item list \<Rightarrow> (string + 'a) \<times> queue_file) \<Rightarrow> (string + 'a) \<times> queue_file" where
  "with_items e f k = (case read_all e f of Inl m \<Rightarrow> (Inl m, f) | Inr xs \<Rightarrow> k xs)"

definition find_item :: "string \<Rightarrow> queue_item list \<Rightarrow> queue_item option" where
  "find_item i xs = find (\<lambda>x. qi_id x = i) xs"

text \<open>\<open>find_mut\<close> hands out the first item of the id; what is written through it is \<open>h\<close>.\<close>

fun edit_item :: "string \<Rightarrow> (queue_item \<Rightarrow> queue_item) \<Rightarrow> queue_item list \<Rightarrow> queue_item list" where
  "edit_item i h [] = []"
| "edit_item i h (x # xs) = (if qi_id x = i then h x # xs else x # edit_item i h xs)"

definition no_item :: "string \<Rightarrow> string" where
  "no_item i = ''no queue item with id '' @ i"

section \<open>Transitions\<close>

definition queue_add :: "queue_env \<Rightarrow> queue_item \<Rightarrow> queue_file \<Rightarrow> (string + unit) \<times> queue_file" where
  "queue_add e x f =
     (case Option.bind (qi_deadline x) (\<lambda>d. if qe_rfc e d = None then Some d else None) of
        Some d \<Rightarrow> (Inl (''deadline '' @ d @ '' is not RFC3339''), f)
      | None \<Rightarrow> with_items e f (\<lambda>xs.
          if list_ex (\<lambda>y. qi_id y = qi_id x) xs
          then (Inl (''an item with id '' @ qi_id x @ '' already exists''), f)
          else saved e (xs @ [x]) () f))"

definition declared_artifact :: "queue_item \<Rightarrow> (string \<times> string) option" where
  "declared_artifact x = (case qi_completion x of ToolEvent ev (Some p) \<Rightarrow> Some (p, ev) | _ \<Rightarrow> None)"

definition queue_done :: "queue_env \<Rightarrow> string \<Rightarrow> string \<Rightarrow> queue_file \<Rightarrow> (string + transition_outcome) \<times> queue_file" where
  "queue_done e i now f = with_items e f (\<lambda>xs.
     case find_item i xs of
       None \<Rightarrow> (Inl (no_item i), f)
     | Some x \<Rightarrow>
         if qi_done x \<noteq> None then (Inr Completed, f)
         else if is_blocked x
         then (Inr (Reconcile (''blocked: '' @ unblock_reason x @ ''; `lab-next unblock '' @ i @ ''` first if it really is finished'')), f)
         else case declared_artifact x of
             Some (p, ev) \<Rightarrow>
               if \<not> artifact_witnesses e (anchored e p)
               then (let flag = ''done refused: completion artifact '' @ p @ '' for event '' @ ev @ '' is absent or empty''
                     in saved e (edit_item i (\<lambda>x. x \<lparr>qi_reconcile := Some flag\<rparr>) xs) (Reconcile flag) f)
               else saved e (edit_item i (\<lambda>x. x \<lparr>qi_done := Some now, qi_reconcile := None, qi_priority := False\<rparr>) xs) Completed f
           | None \<Rightarrow>
               saved e (edit_item i (\<lambda>x. x \<lparr>qi_done := Some now, qi_reconcile := None, qi_priority := False\<rparr>) xs) Completed f)"

definition still_open :: "queue_item \<Rightarrow> bool" where
  "still_open x = (qi_done x = None \<and> qi_superseded x = None)"

definition queue_supersede :: "queue_env \<Rightarrow> string \<Rightarrow> string \<Rightarrow> queue_file \<Rightarrow> (string + transition_outcome) \<times> queue_file" where
  "queue_supersede e i by_id f = with_items e f (\<lambda>xs.
     if i = by_id then (Inl (''an item cannot supersede itself ('' @ i @ '')''), f)
     else case find_item i xs of
         None \<Rightarrow> (Inl (no_item i), f)
       | Some x \<Rightarrow>
           if \<not> list_ex (\<lambda>y. qi_id y = by_id) xs
           then (let flag = ''supersede refused: superseding item '' @ by_id @ '' not in queue''
                 in saved e (edit_item i (\<lambda>x. x \<lparr>qi_reconcile := Some flag\<rparr>) xs) (Reconcile flag) f)
           else (let ys = edit_item i (\<lambda>x. x \<lparr>qi_superseded := Some by_id, qi_reconcile := None, qi_priority := False\<rparr>) xs;
                     zs = (if qi_priority x
                           then edit_item by_id (\<lambda>y. if still_open y then y \<lparr>qi_priority := True\<rparr> else y) ys else ys)
                 in saved e zs Completed f))"

definition marker_refusal :: "string \<Rightarrow> queue_item list \<Rightarrow> string option" where
  "marker_refusal i xs =
     (case find_item i xs of
        None \<Rightarrow> Some (no_item i)
      | Some x \<Rightarrow>
          (case (qi_done x, qi_superseded x) of
             (Some d, _) \<Rightarrow> Some (''item '' @ i @ '' completed at '' @ d @ ''; priority marks open work'')
           | (None, Some s) \<Rightarrow> Some (''item '' @ i @ '' was superseded by '' @ s @ ''; set priority on '' @ s)
           | (None, None) \<Rightarrow> None))"

definition move_marker :: "string option \<Rightarrow> queue_item list \<Rightarrow> queue_item list" where
  "move_marker target xs = map (\<lambda>x. x \<lparr>qi_priority := (target = Some (qi_id x))\<rparr>) xs"

definition move_priority :: "queue_env \<Rightarrow> string option \<Rightarrow> queue_file \<Rightarrow> (string + string list) \<times> queue_file" where
  "move_priority e target f = with_items e f (\<lambda>xs.
     case Option.bind target (\<lambda>i. marker_refusal i xs) of
       Some m \<Rightarrow> (Inl m, f)
     | None \<Rightarrow>
         (let cleared = map qi_id (filter (\<lambda>x. target \<noteq> Some (qi_id x) \<and> qi_priority x) xs);
              changed = list_ex (\<lambda>x. qi_priority x \<noteq> (target = Some (qi_id x))) xs
          in if changed then saved e (move_marker target xs) cleared f else (Inr cleared, f)))"

definition set_priority :: "queue_env \<Rightarrow> string \<Rightarrow> queue_file \<Rightarrow> (string + string list) \<times> queue_file" where
  "set_priority e i = move_priority e (Some i)"

definition clear_priority :: "queue_env \<Rightarrow> queue_file \<Rightarrow> (string + string list) \<times> queue_file" where
  "clear_priority e = move_priority e None"

definition queue_block :: "queue_env \<Rightarrow> string \<Rightarrow> string \<Rightarrow> queue_file \<Rightarrow> (string + unit) \<times> queue_file" where
  "queue_block e i c f = with_items e f (\<lambda>xs.
     if find_item i xs = None then (Inl (no_item i), f)
     else saved e (edit_item i (\<lambda>x. x \<lparr>qi_unblock := Some c\<rparr>) xs) () f)"

definition queue_unblock :: "queue_env \<Rightarrow> string \<Rightarrow> queue_file \<Rightarrow> (string + bool) \<times> queue_file" where
  "queue_unblock e i f = with_items e f (\<lambda>xs.
     case find_item i xs of
       None \<Rightarrow> (Inl (no_item i), f)
     | Some x \<Rightarrow>
         if qi_unblock x = None then (Inr False, f)
         else saved e (edit_item i (\<lambda>x. x \<lparr>qi_unblock := None\<rparr>) xs) True f)"

section \<open>The verbs\<close>

text \<open>A verb prints lines and ends with success or failure, or ends with an error.\<close>

type_synonym verb_result = "string + string list \<times> bool"

definition USAGE :: string where
  "USAGE =
     ''usage: lab-next [report] | probe | list [--all] | add --id <id> --title <t> --window '' @
     ''<open-attended|closed|any> [--event <name> [--artifact <path>]] [--deadline <rfc3339>] '' @
     ''[--sequence <name>] [--note <text>] [--ref <path>]... | done <id> | supersede <id> --by <id> | '' @
     ''priority <id> | priority --clear | block <id> --until <condition> | unblock <id>''"

record add_args =
  aa_id :: "string option"
  aa_title :: "string option"
  aa_window :: "work_window option"
  aa_event :: "string option"
  aa_artifact :: "string option"
  aa_deadline :: "string option"
  aa_sequence :: "string option"
  aa_note :: "string option"
  aa_refs :: "string list"

definition no_args :: add_args where
  "no_args = \<lparr>aa_id = None, aa_title = None, aa_window = None, aa_event = None, aa_artifact = None, aa_deadline = None,
     aa_sequence = None, aa_note = None, aa_refs = []\<rparr>"

definition add_arg :: "string \<Rightarrow> string \<Rightarrow> add_args \<Rightarrow> string + add_args" where
  "add_arg flag v a =
     (if flag = ''--id'' then Inr (a \<lparr>aa_id := Some v\<rparr>)
      else if flag = ''--title'' then Inr (a \<lparr>aa_title := Some v\<rparr>)
      else if flag = ''--window'' then map_sum (\<lambda>m. m) (\<lambda>w. a \<lparr>aa_window := Some w\<rparr>) (window_parse v)
      else if flag = ''--event'' then Inr (a \<lparr>aa_event := Some v\<rparr>)
      else if flag = ''--artifact'' then Inr (a \<lparr>aa_artifact := Some v\<rparr>)
      else if flag = ''--deadline'' then Inr (a \<lparr>aa_deadline := Some v\<rparr>)
      else if flag = ''--sequence'' then Inr (a \<lparr>aa_sequence := Some v\<rparr>)
      else if flag = ''--note'' then Inr (a \<lparr>aa_note := Some v\<rparr>)
      else Inr (a \<lparr>aa_refs := aa_refs a @ [v]\<rparr>))"

definition add_flags :: "string list" where
  "add_flags = [''--id'', ''--title'', ''--window'', ''--event'', ''--artifact'', ''--deadline'', ''--sequence'', ''--note'', ''--ref'']"

fun parse_add :: "string list \<Rightarrow> add_args \<Rightarrow> string + add_args" where
  "parse_add [] a = Inr a"
| "parse_add [flag] a =
     (if flag \<in> set add_flags then Inl (flag @ '' requires a value; '' @ USAGE)
      else Inl (''unknown add argument '' @ flag @ ''; '' @ USAGE))"
| "parse_add (flag # v # rest) a =
     (if flag \<in> set add_flags then bind_res (add_arg flag v a) (parse_add rest)
      else Inl (''unknown add argument '' @ flag @ ''; '' @ USAGE))"

definition item_of_args :: "string \<Rightarrow> add_args \<Rightarrow> string + queue_item" where
  "item_of_args now a =
     (case (aa_id a, aa_title a, aa_window a) of
        (None, _, _) \<Rightarrow> Inl (''add requires --id; '' @ USAGE)
      | (_, None, _) \<Rightarrow> Inl (''add requires --title; '' @ USAGE)
      | (_, _, None) \<Rightarrow> Inl (''add requires --window; '' @ USAGE)
      | (Some i, Some title, Some w) \<Rightarrow>
          if aa_artifact a \<noteq> None \<and> aa_event a = None then Inl ''--artifact needs --event''
          else Inr ((item_new i title w (case aa_event a of Some ev \<Rightarrow> ToolEvent ev (aa_artifact a) | None \<Rightarrow> Explicit) now)
            \<lparr>qi_deadline := aa_deadline a, qi_sequence := aa_sequence a, qi_notes := aa_note a, qi_refs := aa_refs a\<rparr>))"

definition run_add :: "queue_env \<Rightarrow> string \<Rightarrow> string list \<Rightarrow> queue_file \<Rightarrow> verb_result \<times> queue_file" where
  "run_add e now args f =
     (case bind_res (parse_add args no_args) (item_of_args now) of
        Inl m \<Rightarrow> (Inl m, f)
      | Inr x \<Rightarrow> apfst (map_sum (\<lambda>m. m) (\<lambda>_. ([''added: '' @ qi_id x @ '' ['' @ window_tag (qi_window x) @ ''] '' @ qi_title x], True)))
          (queue_add e x f))"

definition transition_lines :: "string \<Rightarrow> string \<Rightarrow> transition_outcome \<Rightarrow> string list \<times> bool" where
  "transition_lines ok i r =
     (case r of Completed \<Rightarrow> ([ok], True) | Reconcile flag \<Rightarrow> ([''reconcile: '' @ i @ '' - '' @ flag], False))"

definition run_done :: "queue_env \<Rightarrow> string \<Rightarrow> string list \<Rightarrow> queue_file \<Rightarrow> verb_result \<times> queue_file" where
  "run_done e now args f =
     (case args of
        [i] \<Rightarrow> apfst (map_sum (\<lambda>m. m) (transition_lines (''done: '' @ i) i)) (queue_done e i now f)
      | _ \<Rightarrow> (Inl (''done takes exactly one <id>; '' @ USAGE), f))"

definition run_supersede :: "queue_env \<Rightarrow> string list \<Rightarrow> queue_file \<Rightarrow> verb_result \<times> queue_file" where
  "run_supersede e args f =
     (case args of
        [i, flag, by_id] \<Rightarrow>
          if flag = ''--by'' then apfst (map_sum (\<lambda>m. m) (transition_lines (''superseded: '' @ i @ '' by '' @ by_id) i)) (queue_supersede e i by_id f)
          else (Inl (''supersede takes <id> --by <id>; '' @ USAGE), f)
      | _ \<Rightarrow> (Inl (''supersede takes <id> --by <id>; '' @ USAGE), f))"

definition marker_lines :: "string \<Rightarrow> string list \<Rightarrow> string list \<times> bool" where
  "marker_lines head cleared = (head # (if cleared = [] then [] else [''cleared: '' @ join '', '' cleared]), True)"

definition run_priority :: "queue_env \<Rightarrow> string list \<Rightarrow> queue_file \<Rightarrow> verb_result \<times> queue_file" where
  "run_priority e args f =
     (case args of
        [i] \<Rightarrow>
          if i = ''--clear'' then apfst (map_sum (\<lambda>m. m) (marker_lines ''priority: none'')) (clear_priority e f)
          else if \<not> starts_with i ''--'' then apfst (map_sum (\<lambda>m. m) (marker_lines (''priority: '' @ i))) (set_priority e i f)
          else (Inl (''priority takes <id> or --clear; '' @ USAGE), f)
      | _ \<Rightarrow> (Inl (''priority takes <id> or --clear; '' @ USAGE), f))"

definition run_block :: "queue_env \<Rightarrow> string list \<Rightarrow> queue_file \<Rightarrow> verb_result \<times> queue_file" where
  "run_block e args f =
     (case args of
        [i, flag, c] \<Rightarrow>
          if flag = ''--until'' then apfst (map_sum (\<lambda>m. m) (\<lambda>_. ([''blocked: '' @ i @ '' - until '' @ c], True))) (queue_block e i c f)
          else (Inl (''block takes <id> --until <condition>; '' @ USAGE), f)
      | _ \<Rightarrow> (Inl (''block takes <id> --until <condition>; '' @ USAGE), f))"

definition run_unblock :: "queue_env \<Rightarrow> string list \<Rightarrow> queue_file \<Rightarrow> verb_result \<times> queue_file" where
  "run_unblock e args f =
     (case args of
        [i] \<Rightarrow> apfst (map_sum (\<lambda>m. m) (\<lambda>was. ([''unblocked: '' @ i @ (if was then [] else '' (was not blocked)'')], True))) (queue_unblock e i f)
      | _ \<Rightarrow> (Inl (''unblock takes exactly one <id>; '' @ USAGE), f))"

text \<open>The edit surface. The report and the probe are in \<open>Work_Next\<close>.\<close>

definition run_verb :: "queue_env \<Rightarrow> string \<Rightarrow> string list \<Rightarrow> queue_file \<Rightarrow> verb_result \<times> queue_file" where
  "run_verb e now args f =
     (case args of
        [] \<Rightarrow> (Inl USAGE, f)
      | verb # rest \<Rightarrow>
          if verb = ''add'' then run_add e now rest f
          else if verb = ''done'' then run_done e now rest f
          else if verb = ''supersede'' then run_supersede e rest f
          else if verb = ''priority'' then run_priority e rest f
          else if verb = ''block'' then run_block e rest f
          else if verb = ''unblock'' then run_unblock e rest f
          else (Inl (''unknown subcommand '' @ verb @ ''; '' @ USAGE), f))"

section \<open>A saved queue reads back\<close>

text \<open>What is relied on of serde for an item: one clean line that parses back.\<close>

definition item_codec_ok :: "queue_env \<Rightarrow> queue_item \<Rightarrow> bool" where
  "item_codec_ok e x \<longleftrightarrow> clean_line (qe_line e x) \<and> qe_parse e (qe_line e x) = Inr x"

definition readable_item :: "queue_item \<Rightarrow> bool" where
  "readable_item x \<longleftrightarrow> qi_schema x = QUEUE_SCHEMA_VERSION \<and> \<not> blank_condition x"

definition holds_queue :: "queue_env \<Rightarrow> queue_file \<Rightarrow> queue_item list \<Rightarrow> bool" where
  "holds_queue e f xs \<longleftrightarrow> read_all e f = Inr xs"

lemma queue_text_lines:
  "list_all (\<lambda>x. clean_line (qe_line e x)) xs \<Longrightarrow> str_lines (queue_text e xs) = map (qe_line e) xs \<and> whole_lines (queue_text e xs)"
proof (induction xs rule: rev_induct)
  case Nil
  then show ?case by (simp add: queue_text_def str_lines_def whole_lines_def)
next
  case (snoc x xs)
  then have "str_lines (queue_text e xs) = map (qe_line e) xs" "whole_lines (queue_text e xs)" by simp_all
  moreover have "queue_text e (xs @ [x]) = queue_text e xs @ qe_line e x @ [CHR 0x0A]" by (simp add: queue_text_def)
  ultimately show ?case
    using str_lines_append [of "queue_text e xs" "qe_line e x"] snoc.prems by (simp add: whole_lines_def)
qed

lemma read_items_saved:
  "list_all (item_codec_ok e) xs \<Longrightarrow> list_all readable_item xs \<Longrightarrow> read_items e n (map (qe_line e) xs) = Inr xs"
  by (induction xs arbitrary: n) (simp_all add: item_codec_ok_def readable_item_def read_item_def clean_line_def)

lemma saved_reads_back:
  assumes "list_all (item_codec_ok e) xs" and "list_all readable_item xs"
  shows "read_all e (QueueText (Inr (queue_text e xs))) = Inr xs"
proof -
  have "list_all (\<lambda>x. clean_line (qe_line e x)) xs"
    using assms(1) by (auto simp: list_all_iff item_codec_ok_def)
  with queue_text_lines [of e xs] read_items_saved [OF assms] show ?thesis
    by (simp add: read_all_def)
qed

lemma read_items_readable: "read_items e n ls = Inr xs \<Longrightarrow> list_all readable_item xs"
proof (induction ls arbitrary: n xs)
  case (Cons l ls)
  show ?case
  proof (cases "trim l = []")
    case True
    with Cons show ?thesis by simp
  next
    case False
    with Cons.prems obtain x ys where "read_item e n l = Inr x" "read_items e (n + 1) ls = Inr ys" "xs = x # ys"
      by (cases "read_item e n l"; cases "read_items e (n + 1) ls") auto
    with Cons.IH [of "n + 1" ys] show ?thesis
      by (auto simp: read_item_def readable_item_def split: sum.splits if_splits)
  qed
qed simp

lemma read_readable: "read_all e f = Inr xs \<Longrightarrow> list_all readable_item xs"
  using read_items_readable by (auto simp: read_all_def split: queue_file.splits sum.splits)

section \<open>What no verb can break\<close>

definition good_queue :: "queue_item list \<Rightarrow> bool" where
  "good_queue xs \<longleftrightarrow> list_all readable_item xs \<and> distinct (map qi_id xs) \<and> length (marker_holders xs) \<le> 1 \<and>
     list_all (\<lambda>x. qi_priority x \<longrightarrow> still_open x) xs"

text \<open>The same task: what it is never changes, and neither a completion nor a supersession is taken back.\<close>

definition same_task :: "queue_item \<Rightarrow> queue_item \<Rightarrow> bool" where
  "same_task x y \<longleftrightarrow> qi_schema y = qi_schema x \<and> qi_id y = qi_id x \<and> qi_title y = qi_title x \<and> qi_window y = qi_window x \<and>
     qi_completion y = qi_completion x \<and> qi_added y = qi_added x \<and> qi_deadline y = qi_deadline x \<and>
     qi_sequence y = qi_sequence x \<and> qi_notes y = qi_notes x \<and> qi_refs y = qi_refs x \<and>
     (qi_done x \<noteq> None \<longrightarrow> qi_done y = qi_done x) \<and> (qi_superseded x \<noteq> None \<longrightarrow> qi_superseded y \<noteq> None)"

definition history :: "queue_item list \<Rightarrow> queue_item list \<Rightarrow> bool" where
  "history xs ys \<longleftrightarrow> (\<exists>us new. ys = us @ new \<and> list_all2 same_task xs us)"

lemma same_task_refl [simp]: "same_task x x"
  by (simp add: same_task_def)

lemma same_task_trans: "same_task x y \<Longrightarrow> same_task y z \<Longrightarrow> same_task x z"
  by (auto simp: same_task_def)

lemma history_refl [simp]: "history xs xs"
  unfolding history_def by (intro exI [of _ xs] exI [of _ "[]"]) (simp add: list_all2_refl)

lemma history_map: "list_all2 same_task xs ys \<Longrightarrow> history xs ys"
  by (auto simp: history_def)

lemma history_trans:
  assumes "history xs ys" and "history ys zs"
  shows "history xs zs"
proof -
  obtain us new where ys: "ys = us @ new" "list_all2 same_task xs us" using assms(1) by (auto simp: history_def)
  obtain vs more where zs: "zs = vs @ more" "list_all2 same_task ys vs" using assms(2) by (auto simp: history_def)
  obtain v w where v: "vs = v @ w" "list_all2 same_task us v" using zs(2) ys(1) by (auto simp: list_all2_append1)
  have "list_all2 same_task xs v"
    using ys(2) v(2) by (rule list_all2_trans [rotated]) (rule same_task_trans)
  with zs(1) v(1) show ?thesis unfolding history_def by (intro exI [of _ v] exI [of _ "w @ more"]) simp
qed

lemma edit_ids [simp]: "(\<And>x. qi_id (h x) = qi_id x) \<Longrightarrow> map qi_id (edit_item i h xs) = map qi_id xs"
  by (induction xs) auto

lemma edit_same: "(\<And>x. x \<in> set xs \<Longrightarrow> qi_id x = i \<Longrightarrow> same_task x (h x)) \<Longrightarrow> list_all2 same_task xs (edit_item i h xs)"
  by (induction xs) (auto intro: list_all2_refl)

lemma edit_all:
  "list_all P xs \<Longrightarrow> (\<And>x. x \<in> set xs \<Longrightarrow> qi_id x = i \<Longrightarrow> P x \<Longrightarrow> P (h x)) \<Longrightarrow> list_all P (edit_item i h xs)"
  by (induction xs) auto

lemma edit_holders:
  "(\<And>x. qi_priority (h x) \<longrightarrow> qi_priority x) \<Longrightarrow> (\<And>x. qi_id (h x) = qi_id x) \<Longrightarrow>
    length (marker_holders (edit_item i h xs)) \<le> length (marker_holders xs)"
  by (induction xs) (auto simp: marker_holders_def)

lemma find_edit: "find_item i xs = None \<Longrightarrow> edit_item i h xs = xs"
  by (induction xs) (auto simp: find_item_def split: if_splits)

text \<open>A save keeps the file or writes the items; what it writes has one holder and names every act.\<close>

lemma saved_cases:
  assumes "saved e ys a f = (r, f')"
  obtains "f' = f" "\<exists>m. r = Inl m"
  | "f' = QueueText (Inr (queue_text e ys))" "r = Inr a" "find blank_condition ys = None" "length (marker_holders ys) \<le> 1"
  using assms by (auto simp: saved_def queue_save_def split: option.splits if_splits)

lemma saved_step:
  assumes "\<forall>x. item_codec_ok e x" and "holds_queue e f xs" and "good_queue xs" and "saved e ys a f = (r, f')"
    and "history xs ys" and "list_all (\<lambda>x. qi_schema x = QUEUE_SCHEMA_VERSION) ys" and "distinct (map qi_id ys)"
    and "list_all (\<lambda>x. qi_priority x \<longrightarrow> still_open x) ys"
  shows "\<exists>zs. holds_queue e f' zs \<and> good_queue zs \<and> history xs zs"
  using assms(4)
proof (cases rule: saved_cases)
  case 1
  with assms(2,3) show ?thesis by (auto intro!: exI [of _ xs])
next
  case 2
  have "list_all readable_item ys"
    using assms(6) 2(3) by (auto simp: list_all_iff readable_item_def find_None_iff)
  moreover from this have "holds_queue e f' ys"
    using saved_reads_back [of e ys] assms(1) 2(1) by (simp add: holds_queue_def list_all_iff)
  ultimately show ?thesis using assms(5,7,8) 2(4) by (auto simp: good_queue_def)
qed

lemma good_schema: "good_queue xs \<Longrightarrow> list_all (\<lambda>x. qi_schema x = QUEUE_SCHEMA_VERSION) xs"
  by (auto simp: good_queue_def readable_item_def list_all_iff)

text \<open>The verbs that rewrite one item.\<close>

lemma edit_step:
  assumes "\<forall>x. item_codec_ok e x" and "holds_queue e f xs" and "good_queue xs" and "saved e (edit_item i h xs) a f = (r, f')"
    and h: "\<And>x. x \<in> set xs \<Longrightarrow> qi_id x = i \<Longrightarrow> same_task x (h x)" "\<And>x. qi_id (h x) = qi_id x"
      "\<And>x. qi_priority (h x) \<Longrightarrow> still_open x \<Longrightarrow> still_open (h x)" "\<And>x. qi_priority (h x) \<Longrightarrow> qi_priority x"
  shows "\<exists>zs. holds_queue e f' zs \<and> good_queue zs \<and> history xs zs"
proof (rule saved_step [OF assms(1-4)])
  show "history xs (edit_item i h xs)" using h(1) by (intro history_map edit_same)
  show "list_all (\<lambda>x. qi_schema x = QUEUE_SCHEMA_VERSION) (edit_item i h xs)"
    by (rule edit_all [OF good_schema [OF assms(3)]]) (use h(1) in \<open>auto simp: same_task_def\<close>)
  show "distinct (map qi_id (edit_item i h xs))" using assms(3) h(2) by (simp add: good_queue_def)
  show "list_all (\<lambda>x. qi_priority x \<longrightarrow> still_open x) (edit_item i h xs)"
    by (rule edit_all) (use assms(3) h(3,4) in \<open>auto simp: good_queue_def\<close>)
qed

lemma unchanged_step: "holds_queue e f xs \<Longrightarrow> good_queue xs \<Longrightarrow> \<exists>zs. holds_queue e f zs \<and> good_queue zs \<and> history xs zs"
  by (auto intro!: exI [of _ xs])

lemma item_by_id: "good_queue xs \<Longrightarrow> find_item i xs = Some x \<Longrightarrow> y \<in> set xs \<Longrightarrow> qi_id y = i \<Longrightarrow> y = x"
proof -
  assume g: "good_queue xs" and "find_item i xs = Some x" and y: "y \<in> set xs" "qi_id y = i"
  then have "x \<in> set xs" "qi_id x = i" by (auto simp: find_item_def find_Some_iff)
  with g y show ?thesis by (auto simp: good_queue_def distinct_map dest: inj_onD)
qed

lemma add_step:
  assumes "\<forall>x. item_codec_ok e x" and "holds_queue e f xs" and "good_queue xs" and "queue_add e x f = (r, f')"
    and "qi_schema x = QUEUE_SCHEMA_VERSION" and "qi_priority x \<longrightarrow> still_open x"
  shows "\<exists>zs. holds_queue e f' zs \<and> good_queue zs \<and> history xs zs"
proof -
  have read: "read_all e f = Inr xs" using assms(2) by (simp add: holds_queue_def)
  consider "f' = f" | "saved e (xs @ [x]) () f = (r, f')" "\<forall>y\<in>set xs. qi_id y \<noteq> qi_id x"
    using assms(4) by (auto simp: queue_add_def with_items_def read list_ex_iff split: option.splits if_splits)
  then show ?thesis
  proof cases
    case 2
    show ?thesis
    proof (rule saved_step [OF assms(1-3) 2(1)])
      show "history xs (xs @ [x])" unfolding history_def by (intro exI [of _ xs] exI [of _ "[x]"]) (simp add: list_all2_refl)
    qed (use good_schema [OF assms(3)] assms(3,5,6) 2(2) in \<open>auto simp: good_queue_def\<close>)
  qed (use unchanged_step assms(2,3) in auto)
qed

lemma done_step:
  assumes "\<forall>x. item_codec_ok e x" and "holds_queue e f xs" and "good_queue xs" and "queue_done e i now f = (r, f')"
  shows "\<exists>zs. holds_queue e f' zs \<and> good_queue zs \<and> history xs zs"
proof -
  have read: "read_all e f = Inr xs" using assms(2) by (simp add: holds_queue_def)
  consider "f' = f"
    | flag r' where "saved e (edit_item i (\<lambda>x. x \<lparr>qi_reconcile := Some flag\<rparr>) xs) (Reconcile flag) f = (r', f')"
    | x r' where "find_item i xs = Some x" "qi_done x = None"
      "saved e (edit_item i (\<lambda>x. x \<lparr>qi_done := Some now, qi_reconcile := None, qi_priority := False\<rparr>) xs) Completed f = (r', f')"
    using assms(4) by (auto simp: queue_done_def with_items_def read Let_def split: option.splits if_splits prod.splits)
  then show ?thesis
  proof cases
    case 2
    then show ?thesis
      by (rule edit_step [OF assms(1-3)]) (auto simp: same_task_def still_open_def)
  next
    case 3
    show ?thesis
      by (rule edit_step [OF assms(1-3) 3(3)])
        (use item_by_id [OF assms(3) 3(1)] 3(2) in \<open>auto simp: same_task_def\<close>)
  qed (use unchanged_step assms(2,3) in auto)
qed

lemma supersede_step:
  assumes "\<forall>x. item_codec_ok e x" and "holds_queue e f xs" and "good_queue xs" and "queue_supersede e i b f = (r, f')"
  shows "\<exists>zs. holds_queue e f' zs \<and> good_queue zs \<and> history xs zs"
proof -
  let ?h = "\<lambda>x. x \<lparr>qi_superseded := Some b, qi_reconcile := None, qi_priority := False\<rparr>"
  let ?g = "\<lambda>y. if still_open y then y \<lparr>qi_priority := True\<rparr> else y"
  let ?ys = "edit_item i ?h xs"
  have read: "read_all e f = Inr xs" using assms(2) by (simp add: holds_queue_def)
  consider "f' = f"
    | flag r' where "saved e (edit_item i (\<lambda>x. x \<lparr>qi_reconcile := Some flag\<rparr>) xs) (Reconcile flag) f = (r', f')"
    | r' where "saved e ?ys Completed f = (r', f')"
    | r' where "saved e (edit_item b ?g ?ys) Completed f = (r', f')"
    using assms(4) by (auto simp: queue_supersede_def with_items_def read Let_def split: option.splits if_splits prod.splits)
  then show ?thesis
  proof cases
    case 2
    then show ?thesis
      by (rule edit_step [OF assms(1-3)]) (auto simp: same_task_def still_open_def)
  next
    case 3
    then show ?thesis
      by (rule edit_step [OF assms(1-3)]) (auto simp: same_task_def)
  next
    case 4
    have one: "list_all2 same_task xs ?ys" by (rule edit_same) (simp add: same_task_def)
    have two: "list_all2 same_task ?ys (edit_item b ?g ?ys)" by (rule edit_same) (simp add: same_task_def)
    have open1: "list_all (\<lambda>x. qi_priority x \<longrightarrow> still_open x) ?ys"
      by (rule edit_all) (use assms(3) in \<open>auto simp: good_queue_def\<close>)
    show ?thesis
    proof (rule saved_step [OF assms(1-3) 4])
      show "history xs (edit_item b ?g ?ys)" by (rule history_trans [OF history_map [OF one] history_map [OF two]])
      show "list_all (\<lambda>x. qi_schema x = QUEUE_SCHEMA_VERSION) (edit_item b ?g ?ys)"
        by (intro edit_all good_schema [OF assms(3)]) simp_all
      show "distinct (map qi_id (edit_item b ?g ?ys))" using assms(3) by (simp add: good_queue_def)
      show "list_all (\<lambda>x. qi_priority x \<longrightarrow> still_open x) (edit_item b ?g ?ys)"
        by (rule edit_all [OF open1]) (simp add: still_open_def)
    qed
  qed (use unchanged_step assms(2,3) in auto)
qed

lemma move_step:
  assumes "\<forall>x. item_codec_ok e x" and "holds_queue e f xs" and "good_queue xs" and "move_priority e target f = (r, f')"
  shows "\<exists>zs. holds_queue e f' zs \<and> good_queue zs \<and> history xs zs"
proof -
  have read: "read_all e f = Inr xs" using assms(2) by (simp add: holds_queue_def)
  have "f' = f \<or> (\<exists>(cleared :: string list) r'. saved e (move_marker target xs) cleared f = (r', f')) \<and> Option.bind target (\<lambda>i. marker_refusal i xs) = None"
    using assms(4) by (auto simp: move_priority_def with_items_def read Let_def split: option.splits if_splits)
  then consider "f' = f"
    | cleared :: "string list" and r' where "saved e (move_marker target xs) cleared f = (r', f')" "Option.bind target (\<lambda>i. marker_refusal i xs) = None"
    by blast
  then show ?thesis
  proof cases
    case 2
    show ?thesis
    proof (rule saved_step [OF assms(1-3) 2(1)])
      show "history xs (move_marker target xs)"
        by (intro history_map) (simp add: move_marker_def list_all2_conv_all_nth same_task_def)
      show "list_all (\<lambda>x. qi_schema x = QUEUE_SCHEMA_VERSION) (move_marker target xs)"
        using good_schema [OF assms(3)] by (simp add: move_marker_def list_all_iff)
      show "distinct (map qi_id (move_marker target xs))"
        using assms(3) by (simp add: good_queue_def move_marker_def comp_def)
      have "still_open x" if x: "x \<in> set xs" and t: "target = Some (qi_id x)" for x
      proof -
        obtain y where y: "find_item (qi_id x) xs = Some y" "still_open y"
          using 2(2) t by (auto simp: marker_refusal_def still_open_def split: option.splits)
        with item_by_id [OF assms(3) y(1) x] show ?thesis by simp
      qed
      then show "list_all (\<lambda>x. qi_priority x \<longrightarrow> still_open x) (move_marker target xs)"
        by (auto simp: move_marker_def list_all_iff still_open_def)
    qed
  qed (use unchanged_step assms(2,3) in auto)
qed

lemma block_step:
  assumes "\<forall>x. item_codec_ok e x" and "holds_queue e f xs" and "good_queue xs" and "queue_block e i c f = (r, f')"
  shows "\<exists>zs. holds_queue e f' zs \<and> good_queue zs \<and> history xs zs"
proof -
  have read: "read_all e f = Inr xs" using assms(2) by (simp add: holds_queue_def)
  consider "f' = f" | r' where "saved e (edit_item i (\<lambda>x. x \<lparr>qi_unblock := Some c\<rparr>) xs) () f = (r', f')"
    using assms(4) by (auto simp: queue_block_def with_items_def read split: if_splits)
  then show ?thesis
  proof cases
    case 2
    then show ?thesis
      by (rule edit_step [OF assms(1-3)]) (auto simp: same_task_def still_open_def)
  qed (use unchanged_step assms(2,3) in auto)
qed

lemma unblock_step:
  assumes "\<forall>x. item_codec_ok e x" and "holds_queue e f xs" and "good_queue xs" and "queue_unblock e i f = (r, f')"
  shows "\<exists>zs. holds_queue e f' zs \<and> good_queue zs \<and> history xs zs"
proof -
  have read: "read_all e f = Inr xs" using assms(2) by (simp add: holds_queue_def)
  consider "f' = f" | r' where "saved e (edit_item i (\<lambda>x. x \<lparr>qi_unblock := None\<rparr>) xs) True f = (r', f')"
    using assms(4) by (auto simp: queue_unblock_def with_items_def read split: if_splits option.splits)
  then show ?thesis
  proof cases
    case 2
    then show ?thesis
      by (rule edit_step [OF assms(1-3)]) (auto simp: same_task_def still_open_def)
  qed (use unchanged_step assms(2,3) in auto)
qed

lemma item_of_args_fresh:
  "item_of_args now a = Inr x \<Longrightarrow> qi_schema x = QUEUE_SCHEMA_VERSION \<and> \<not> qi_priority x"
  by (auto simp: item_of_args_def item_new_def split: option.splits if_splits)

lemma verb_step:
  assumes "\<forall>x. item_codec_ok e x" and "holds_queue e f xs" and "good_queue xs"
  shows "\<exists>zs. holds_queue e (snd (run_verb e now args f)) zs \<and> good_queue zs \<and> history xs zs"
proof -
  note u = unchanged_step [OF assms(2,3)]
  have add: "\<exists>zs. holds_queue e (snd (queue_add e x f)) zs \<and> good_queue zs \<and> history xs zs"
    if "bind_res (parse_add rest no_args) (item_of_args now) = Inr x" for rest x
    using add_step [OF assms, of x "fst (queue_add e x f)" "snd (queue_add e x f)"] item_of_args_fresh [of now _ x] that
    by (cases "parse_add rest no_args") auto
  have tr: "\<exists>zs. holds_queue e (snd (queue_done e i now f)) zs \<and> good_queue zs \<and> history xs zs"
      "\<exists>zs. holds_queue e (snd (queue_supersede e i b f)) zs \<and> good_queue zs \<and> history xs zs"
      "\<exists>zs. holds_queue e (snd (move_priority e target f)) zs \<and> good_queue zs \<and> history xs zs"
      "\<exists>zs. holds_queue e (snd (queue_block e i b f)) zs \<and> good_queue zs \<and> history xs zs"
      "\<exists>zs. holds_queue e (snd (queue_unblock e i f)) zs \<and> good_queue zs \<and> history xs zs" for i b target
    using done_step [OF assms] supersede_step [OF assms] move_step [OF assms] block_step [OF assms] unblock_step [OF assms]
    by (metis prod.collapse)+
  let ?r = "\<lambda>f'. \<exists>zs. holds_queue e f' zs \<and> good_queue zs \<and> history xs zs"
  have "?r (snd (run_add e now args f))" for args
    using u add [of args] by (auto simp: run_add_def split: sum.split)
  moreover have "?r (snd (run_done e now args f))" for args
    using u tr(1) by (auto simp: run_done_def split: list.split)
  moreover have "?r (snd (run_supersede e args f))" for args
    using u tr(2) by (auto simp: run_supersede_def split: list.split)
  moreover have "?r (snd (run_priority e args f))" for args
    using u tr(3) by (auto simp: run_priority_def set_priority_def clear_priority_def split: list.split)
  moreover have "?r (snd (run_block e args f))" for args
    using u tr(4) by (auto simp: run_block_def split: list.split)
  moreover have "?r (snd (run_unblock e args f))" for args
    using u tr(5) by (auto simp: run_unblock_def split: list.split)
  ultimately show ?thesis using u by (simp add: run_verb_def split: list.split)
qed

text \<open>
  C29. Whatever command lines edit the queue, valid or not, and however writes fail, the file still reads
  as a queue: identifiers are distinct, at most one item carries the priority marker and that item is
  open, every blocked item names an act; and the history only grows: each earlier item is still there,
  in its place, with its task, its completion and its supersession.\<close>

theorem verbs_keep_the_queue:
  assumes "\<forall>x. item_codec_ok e x" and "holds_queue e f xs" and "good_queue xs"
  shows "\<exists>ys. holds_queue e (fold (\<lambda>(now, args) f. snd (run_verb e now args f)) lines f) ys \<and> good_queue ys \<and> history xs ys"
  using assms(2,3)
proof (induction lines arbitrary: f xs)
  case (Cons l lines)
  obtain now args where l: "l = (now, args)" by (cases l)
  obtain ys where ys: "holds_queue e (snd (run_verb e now args f)) ys" "good_queue ys" "history xs ys"
    using verb_step [OF assms(1) Cons.prems] by blast
  from Cons.IH [OF ys(1,2)] history_trans [OF ys(3)] show ?case unfolding l by auto
qed auto

section \<open>A concrete store\<close>

text \<open>A line of fields: each character as two letters, each field closed by a comma.\<close>

definition hex2 :: "char \<Rightarrow> string" where
  "hex2 c = [char_of (97 + of_char c div 16 :: nat), char_of (97 + of_char c mod 16 :: nat)]"

definition unhex2 :: "char \<Rightarrow> char \<Rightarrow> char" where
  "unhex2 a b = char_of (16 * (of_char a - 97) + (of_char b - 97) :: nat)"

definition put_fields :: "string list \<Rightarrow> string" where
  "put_fields fs = concat (map (\<lambda>s. concat (map hex2 s) @ '','') fs)"

fun get_fields :: "string \<Rightarrow> string \<Rightarrow> string list" where
  "get_fields acc [] = []"
| "get_fields acc [a] = [acc]"
| "get_fields acc (a # b # r) =
     (if a = CHR '','' then acc # get_fields [] (b # r) else get_fields (acc @ [unhex2 a b]) r)"

definition put_option :: "string option \<Rightarrow> string" where
  "put_option x = (case x of None \<Rightarrow> [] | Some s \<Rightarrow> CHR ''x'' # s)"

definition get_option :: "string \<Rightarrow> string option" where
  "get_option s = (case s of [] \<Rightarrow> None | _ # r \<Rightarrow> Some r)"

definition put_item :: "queue_item \<Rightarrow> string list" where
  "put_item x =
     [replicate (qi_schema x) CHR ''s'', qi_id x, qi_title x, window_tag (qi_window x),
      (case qi_completion x of Explicit \<Rightarrow> [] | ToolEvent ev a \<Rightarrow> CHR ''e'' # ev),
      (case qi_completion x of Explicit \<Rightarrow> [] | ToolEvent ev a \<Rightarrow> put_option a),
      qi_added x, put_option (qi_deadline x), put_option (qi_superseded x), put_option (qi_done x),
      put_option (qi_reconcile x), put_option (qi_sequence x), (if qi_priority x then ''p'' else []),
      put_option (qi_unblock x), put_option (qi_notes x)] @ qi_refs x"

definition get_item :: "string list \<Rightarrow> string + queue_item" where
  "get_item fs =
     (if length fs < 15 then Inl ''not an item''
      else case window_parse (fs ! 3) of
        Inl m \<Rightarrow> Inl m
      | Inr win \<Rightarrow> Inr \<lparr>qi_schema = length (fs ! 0), qi_id = fs ! 1, qi_title = fs ! 2, qi_window = win,
          qi_completion = (case fs ! 4 of [] \<Rightarrow> Explicit | _ # name \<Rightarrow> ToolEvent name (get_option (fs ! 5))),
          qi_added = fs ! 6, qi_deadline = get_option (fs ! 7), qi_superseded = get_option (fs ! 8),
          qi_done = get_option (fs ! 9), qi_reconcile = get_option (fs ! 10), qi_sequence = get_option (fs ! 11),
          qi_priority = (fs ! 12 \<noteq> []), qi_unblock = get_option (fs ! 13), qi_notes = get_option (fs ! 14),
          qi_refs = drop 15 fs\<rparr>)"

lemma option_back [simp]: "get_option (put_option x) = x"
  by (cases x) (simp_all add: get_option_def put_option_def)

lemma item_back: "get_item (put_item x) = Inr x"
proof -
  have w: "window_parse (window_tag v) = Inr v" for v by (cases v) (simp_all add: window_parse_def window_tag_def)
  show ?thesis
    by (cases "qi_completion x") (simp_all add: get_item_def put_item_def w)
qed

lemma nibbles: "(of_char c div 16 :: nat) < 16" "(of_char c mod 16 :: nat) < 16"
proof -
  have "(of_char c :: nat) < 256" by simp
  then show "(of_char c div 16 :: nat) < 16" by linarith
qed simp

lemma unhex_hex [simp]: "unhex2 (char_of (97 + of_char c div 16 :: nat)) (char_of (97 + of_char c mod 16 :: nat)) = c"
proof -
  have "(97 + of_char c div 16 :: nat) < 256" "(97 + of_char c mod 16 :: nat) < 256"
    using nibbles [of c] by linarith+
  then have "of_char (char_of (97 + of_char c div 16 :: nat)) = (97 + of_char c div 16 :: nat)"
    "of_char (char_of (97 + of_char c mod 16 :: nat)) = (97 + of_char c mod 16 :: nat)"
    by simp_all
  moreover have "16 * (of_char c div 16) + of_char c mod 16 = (of_char c :: nat)" by simp
  ultimately show ?thesis by (simp add: unhex2_def)
qed

lemma letter_plain:
  assumes "(n :: nat) < 16"
  shows "plain_char (char_of (97 + n)) \<and> char_of (97 + n) \<noteq> CHR '',''"
proof -
  have c: "of_char (char_of (97 + n)) = (97 + n :: nat)" using assms by simp
  then have "char_of (97 + n) \<noteq> CHR '',''" by (auto dest: arg_cong [of _ _ "of_char :: char \<Rightarrow> nat"])
  with c assms show ?thesis by (simp add: plain_char_def)
qed

lemma hex_letters: "c \<in> set (hex2 d) \<Longrightarrow> plain_char c \<and> c \<noteq> CHR '',''"
proof -
  assume "c \<in> set (hex2 d)"
  then show ?thesis
    using nibbles [of d] letter_plain [of "of_char d div 16"] letter_plain [of "of_char d mod 16"] by (auto simp: hex2_def)
qed

lemma get_fields_hex: "get_fields acc (concat (map hex2 s) @ CHR '','' # r) = (acc @ s) # get_fields [] r"
proof (induction s arbitrary: acc)
  case Nil
  then show ?case by (cases r) simp_all
next
  case (Cons c s)
  have "char_of (97 + of_char c div 16 :: nat) \<noteq> CHR '',''"
    using hex_letters [of _ c] by (simp add: hex2_def)
  with Cons.IH [of "acc @ [c]"] show ?case by (simp add: hex2_def)
qed

lemma fields_back: "get_fields [] (put_fields fs) = fs"
proof (induction fs)
  case (Cons f fs)
  have "put_fields (f # fs) = concat (map hex2 f) @ CHR '','' # put_fields fs" by (simp add: put_fields_def)
  with get_fields_hex [of "[]" f "put_fields fs"] Cons.IH show ?case by simp
qed (simp add: put_fields_def)

definition plain_env :: queue_env where
  "plain_env = \<lparr>qe_parse = (\<lambda>l. get_item (get_fields [] l)), qe_line = (\<lambda>x. put_fields (put_item x)),
     qe_rfc = (\<lambda>s. if s = [] then None else Some (int (length s))), qe_meta = (\<lambda>p. None), qe_root = None, qe_write = None\<rparr>"

lemma put_fields_plain: "c \<in> set (put_fields fs) \<Longrightarrow> plain_char c"
  using hex_letters by (auto simp: put_fields_def plain_char_def split: if_splits)

lemma plain_codec_ok: "item_codec_ok plain_env x"
proof -
  let ?l = "put_fields (put_item x)"
  have ne: "?l \<noteq> []" by (simp add: put_item_def put_fields_def)
  have all: "plain_char c" if "c \<in> set ?l" for c using put_fields_plain that by blast
  then have "trim ?l = ?l" by (intro trim_plain) auto
  moreover have "CHR 0x0A \<notin> set ?l" using all [of "CHR 0x0A"] by (auto simp: plain_char_def)
  moreover have "last ?l \<noteq> CHR 0x0D" using all [of "CHR 0x0D"] last_in_set [OF ne] by (auto simp: plain_char_def)
  ultimately show ?thesis
    using ne by (simp add: item_codec_ok_def clean_line_def plain_env_def fields_back item_back)
qed

theorem verbs_keep_the_queue_witness:
  "\<exists>ys. holds_queue plain_env (fold (\<lambda>(now, args) f. snd (run_verb plain_env now args f))
      [(''t1'', [''add'', ''--id'', ''a'', ''--title'', ''x'', ''--window'', ''any'']), (''t2'', [''priority'', ''a'']),
       (''t3'', [''supersede'', ''a'', ''--by'', ''b'']), (''t4'', [''done'', ''a''])] NoFile) ys \<and> good_queue ys"
  using verbs_keep_the_queue [of plain_env NoFile "[]"
      "[(''t1'', [''add'', ''--id'', ''a'', ''--title'', ''x'', ''--window'', ''any'']), (''t2'', [''priority'', ''a'']),
       (''t3'', [''supersede'', ''a'', ''--by'', ''b'']), (''t4'', [''done'', ''a''])]"] plain_codec_ok
  by (auto simp: holds_queue_def read_all_def good_queue_def marker_holders_def)

section \<open>Destructive transitions\<close>

definition completes :: "string \<Rightarrow> queue_item \<Rightarrow> queue_item" where
  "completes now x = x \<lparr>qi_done := Some now, qi_reconcile := None, qi_priority := False\<rparr>"

definition flags :: "string \<Rightarrow> queue_item \<Rightarrow> queue_item" where
  "flags m x = x \<lparr>qi_reconcile := Some m\<rparr>"

lemma witnessed_by:
  "artifact_witnesses e p \<longleftrightarrow> (\<exists>n. 0 < n \<and> qe_meta e p \<in> {Some (IsFile n), Some (IsDir (Some n))})"
  by (auto simp: artifact_witnesses_def split: option.split fs_meta.split)

lemma declared_is: "declared_artifact x = Some (p, ev) \<longleftrightarrow> qi_completion x = ToolEvent ev (Some p)"
  by (auto simp: declared_artifact_def split: completion_signal.split option.split)

text \<open>
  C30. A completion needs evidence. \<open>done\<close> on an open item of a readable queue marks it only when the
  item is not blocked and the artifact its completion declares, if any, is there as a file with at
  least one byte or a directory with at least one entry, and changes nothing else of the file; on an
  item that is done it writes nothing. It refuses an artifact that is absent or empty by flagging the
  item with the reason, and a blocked item without writing anything.\<close>

theorem done_needs_evidence:
  assumes "holds_queue e f xs" and "find_item i xs = Some x" and "queue_done e i now f = (Inr r, f')"
  shows "case r of
      Completed \<Rightarrow>
        qi_done x \<noteq> None \<and> f' = f \<or>
        qi_done x = None \<and> qi_unblock x = None \<and> f' = QueueText (Inr (queue_text e (edit_item i (completes now) xs))) \<and>
          (\<forall>p ev. qi_completion x = ToolEvent ev (Some p) \<longrightarrow>
            (\<exists>n. 0 < n \<and> qe_meta e (anchored e p) \<in> {Some (IsFile n), Some (IsDir (Some n))}))
    | Reconcile m \<Rightarrow>
        qi_done x = None \<and>
        (qi_unblock x \<noteq> None \<and> f' = f \<or>
         qi_unblock x = None \<and> f' = QueueText (Inr (queue_text e (edit_item i (flags m) xs))) \<and>
          (\<exists>p ev. qi_completion x = ToolEvent ev (Some p) \<and>
            qe_meta e (anchored e p) \<in> {None, Some (IsFile 0), Some (IsDir None), Some (IsDir (Some 0))}))"
proof -
  have read: "read_all e f = Inr xs" using assms(1) by (simp add: holds_queue_def)
  have s: "saved e ys a f = (Inr r, f') \<longleftrightarrow>
      r = a \<and> f' = QueueText (Inr (queue_text e ys)) \<and> find blank_condition ys = None \<and> length (marker_holders ys) \<le> 1 \<and> qe_write e = None"
    for ys and a :: transition_outcome
    by (auto simp: saved_def queue_save_def split: option.splits if_splits)
  have none: "qe_meta e p \<in> {None, Some (IsFile 0), Some (IsDir None), Some (IsDir (Some 0))}" if "\<not> artifact_witnesses e p" for p
    using that by (auto simp: artifact_witnesses_def split: option.splits fs_meta.splits)
  have "case r of
      Completed \<Rightarrow>
        qi_done x \<noteq> None \<and> f' = f \<or>
        qi_done x = None \<and> \<not> is_blocked x \<and> f' = QueueText (Inr (queue_text e (edit_item i (completes now) xs))) \<and>
          (\<forall>p ev. declared_artifact x = Some (p, ev) \<longrightarrow> artifact_witnesses e (anchored e p))
    | Reconcile m \<Rightarrow>
        qi_done x = None \<and>
        (is_blocked x \<and> f' = f \<or>
         \<not> is_blocked x \<and> f' = QueueText (Inr (queue_text e (edit_item i (flags m) xs))) \<and>
          (\<exists>p ev. declared_artifact x = Some (p, ev) \<and> \<not> artifact_witnesses e (anchored e p)))"
    using assms(3)
    by (auto simp: queue_done_def with_items_def read assms(2) Let_def s completes_def [abs_def] flags_def [abs_def]
        split: option.splits if_splits prod.splits)
  then show ?thesis
    using none unfolding declared_is is_blocked_def witnessed_by by (cases r) (simp_all, blast+)
qed

definition demo_item :: "string \<Rightarrow> queue_item" where
  "demo_item i = item_new i ''work'' AnyWindow (ToolEvent ''written'' (Some ''out.json'')) ''t0''"

definition demo_file :: "queue_item list \<Rightarrow> queue_file" where
  "demo_file xs = QueueText (Inr (queue_text plain_env xs))"

lemma demo_reads: "list_all readable_item xs \<Longrightarrow> holds_queue plain_env (demo_file xs) xs"
  using saved_reads_back [of plain_env xs] plain_codec_ok by (simp add: holds_queue_def demo_file_def list_all_iff)

lemma demo_readable [simp]: "readable_item (demo_item i)"
  by (simp add: readable_item_def demo_item_def item_new_def blank_condition_def)

lemma demo_fields [simp]:
  "qi_id (demo_item i) = i" "qi_done (demo_item i) = None" "qi_superseded (demo_item i) = None" "qi_unblock (demo_item i) = None"
  "qi_priority (demo_item i) = False" "qi_deadline (demo_item i) = None" "qi_sequence (demo_item i) = None"
  "qi_window (demo_item i) = AnyWindow" "qi_completion (demo_item i) = ToolEvent ''written'' (Some ''out.json'')"
  "qe_write plain_env = None"
  by (simp_all add: demo_item_def item_new_def plain_env_def)

lemma demo_find [simp]: "find_item i [demo_item i] = Some (demo_item i)"
  by (simp add: find_item_def demo_item_def item_new_def)

theorem done_needs_evidence_witness:
  "\<exists>m. queue_done plain_env ''a'' ''t1'' (demo_file [demo_item ''a'']) =
      (Inr (Reconcile m), QueueText (Inr (queue_text plain_env (edit_item ''a'' (flags m) [demo_item ''a'']))))"
proof -
  let ?f = "demo_file [demo_item ''a'']"
  have reads: "holds_queue plain_env ?f [demo_item ''a'']" by (intro demo_reads) simp
  have no: "\<not> artifact_witnesses plain_env p" for p by (simp add: artifact_witnesses_def plain_env_def)
  have d: "\<not> is_blocked (demo_item ''a'')"
      "declared_artifact (demo_item ''a'') = Some (''out.json'', ''written'')"
    by (simp_all add: demo_item_def item_new_def is_blocked_def declared_artifact_def)
  obtain r f' where run: "queue_done plain_env ''a'' ''t1'' ?f = (Inr r, f')"
    using reads no
    by (simp add: queue_done_def with_items_def holds_queue_def d saved_def queue_save_def Let_def marker_holders_def blank_condition_def)
  have absent: "qe_meta plain_env p = None" for p by (simp add: plain_env_def)
  from done_needs_evidence [OF reads demo_find run] d show ?thesis
    by (cases r) (auto simp: run absent is_blocked_def)
qed

lemma holders_edit_off:
  "marker_holders (edit_item i (\<lambda>x. x \<lparr>qi_superseded := Some b, qi_reconcile := None, qi_priority := False\<rparr>) xs) =
    (case find_item i xs of None \<Rightarrow> marker_holders xs | Some x \<Rightarrow> if qi_priority x then remove1 i (marker_holders xs) else marker_holders xs)"
  by (induction xs) (auto simp: marker_holders_def find_item_def split: option.split)

lemma holders_edit_on:
  assumes "marker_holders xs = []" and "find_item b xs = Some y"
  shows "marker_holders (edit_item b (\<lambda>y. if still_open y then y \<lparr>qi_priority := True\<rparr> else y) xs) = (if still_open y then [b] else [])"
  using assms by (induction xs) (auto simp: marker_holders_def find_item_def split: if_splits)

text \<open>
  C35. The marker follows the work: a supersession that completes hands the marker of the item to its
  superseder when that is open, releases it when it is not, and leaves every other holder alone.\<close>

theorem marker_follows_the_work:
  assumes "\<forall>x. item_codec_ok e x" and "holds_queue e f xs" and "good_queue xs"
    and "queue_supersede e i b f = (Inr Completed, f')" and "find_item b xs = Some y"
  shows "\<exists>ys. holds_queue e f' ys \<and>
    marker_holders ys = (if i \<in> set (marker_holders xs) then if still_open y then [b] else [] else marker_holders xs)"
proof -
  let ?h = "\<lambda>x. x \<lparr>qi_superseded := Some b, qi_reconcile := None, qi_priority := False\<rparr>"
  let ?g = "\<lambda>y. if still_open y then y \<lparr>qi_priority := True\<rparr> else y"
  have read: "read_all e f = Inr xs" using assms(2) by (simp add: holds_queue_def)
  have s: "saved e ys a f = (Inr Completed, f') \<longleftrightarrow>
      a = Completed \<and> f' = QueueText (Inr (queue_text e ys)) \<and> find blank_condition ys = None \<and> length (marker_holders ys) \<le> 1 \<and> qe_write e = None"
    for ys a
    by (auto simp: saved_def queue_save_def split: option.splits if_splits)
  obtain x where x: "find_item i xs = Some x" "i \<noteq> b"
      "f' = QueueText (Inr (queue_text e (if qi_priority x then edit_item b ?g (edit_item i ?h xs) else edit_item i ?h xs)))"
    using assms(4) by (auto simp: queue_supersede_def with_items_def read Let_def s split: option.splits if_splits)
  let ?ys = "if qi_priority x then edit_item b ?g (edit_item i ?h xs) else edit_item i ?h xs"
  have r1: "list_all readable_item (edit_item i ?h xs)"
    by (rule edit_all) (use assms(3) in \<open>auto simp: good_queue_def readable_item_def blank_condition_def\<close>)
  have "list_all readable_item (edit_item b ?g (edit_item i ?h xs))"
    by (rule edit_all [OF r1]) (simp add: readable_item_def blank_condition_def)
  with r1 saved_reads_back [of e ?ys] assms(1) x(3) have held: "holds_queue e f' ?ys"
    by (auto simp: holds_queue_def list_all_iff)
  have mem: "i \<in> set (marker_holders xs) \<longleftrightarrow> qi_priority x"
    using item_by_id [OF assms(3) x(1)] x(1) by (auto simp: marker_holders_def find_item_def find_Some_iff)
  have "find_item b (edit_item i ?h xs) = find_item b xs"
    using x(2) by (induction xs) (auto simp: find_item_def)
  with assms(5) have fb: "find_item b (edit_item i ?h xs) = Some y" by simp
  have "remove1 i (marker_holders xs) = []" if "i \<in> set (marker_holders xs)"
    using that assms(3) by (cases "marker_holders xs") (auto simp: good_queue_def)
  with mem holders_edit_off [of i b xs] x(1) have off: "marker_holders (edit_item i ?h xs) = (if qi_priority x then [] else marker_holders xs)"
    by simp
  have "marker_holders ?ys = (if i \<in> set (marker_holders xs) then if still_open y then [b] else [] else marker_holders xs)"
    using mem off holders_edit_on [OF _ fb] by simp
  with held show ?thesis by blast
qed

lemma demo_with: "list_all readable_item xs \<Longrightarrow> with_items plain_env (demo_file xs) k = k xs"
  using demo_reads by (simp add: with_items_def holds_queue_def)

lemma demo_saved:
  "list_all (\<lambda>x. qi_unblock x = None) ys \<Longrightarrow> length (marker_holders ys) \<le> 1 \<Longrightarrow> saved plain_env ys a f = (Inr a, demo_file ys)"
proof -
  assume "list_all (\<lambda>x. qi_unblock x = None) ys" "length (marker_holders ys) \<le> 1"
  moreover from this(1) have "find blank_condition ys = None" by (induction ys) (simp_all add: blank_condition_def)
  ultimately show ?thesis by (simp add: saved_def queue_save_def demo_file_def)
qed

theorem marker_follows_the_work_witness:
  "\<exists>ys. holds_queue plain_env (snd (queue_supersede plain_env ''a'' ''b''
      (demo_file [(demo_item ''a'') \<lparr>qi_priority := True\<rparr>, demo_item ''b'']))) ys \<and> marker_holders ys = [''b'']"
proof -
  let ?xs = "[(demo_item ''a'') \<lparr>qi_priority := True\<rparr>, demo_item ''b'']"
  have r: "list_all readable_item ?xs"
    by (simp add: readable_item_def blank_condition_def demo_item_def item_new_def)
  then have good: "good_queue ?xs" by (simp add: good_queue_def marker_holders_def still_open_def)
  have b: "find_item ''b'' ?xs = Some (demo_item ''b'')" "still_open (demo_item ''b'')"
    by (simp_all add: find_item_def still_open_def)
  have run: "fst (queue_supersede plain_env ''a'' ''b'' (demo_file ?xs)) = Inr Completed"
    by (simp add: queue_supersede_def demo_with [OF r] find_item_def demo_saved marker_holders_def still_open_def)
  have "marker_holders ?xs = [''a'']" by (simp add: marker_holders_def)
  with marker_follows_the_work [OF _ demo_reads [OF r] good _ b(1), of "''a''" "snd (queue_supersede plain_env ''a'' ''b'' (demo_file ?xs))"]
    plain_codec_ok run b(2) show ?thesis by (simp add: prod_eq_iff)
qed

text \<open>
  Supersession may go round: two open items can each be superseded by the other. Both transitions
  complete, and both tasks leave the actionable view for good although nothing replaced them.\<close>

theorem supersession_can_cycle:
  "case queue_supersede plain_env ''a'' ''b'' (demo_file [demo_item ''a'', demo_item ''b'']) of (r1, f1) \<Rightarrow>
   case queue_supersede plain_env ''b'' ''a'' f1 of (r2, f2) \<Rightarrow>
     r1 = Inr Completed \<and> r2 = Inr Completed \<and>
     (\<exists>ys. holds_queue plain_env f2 ys \<and> map qi_id ys = [''a'', ''b''] \<and> list_all (\<lambda>y. is_actionable plain_env now y = Inr False) ys)"
proof -
  let ?a = "(demo_item ''a'') \<lparr>qi_superseded := Some ''b'', qi_reconcile := None\<rparr>"
  let ?b = "(demo_item ''b'') \<lparr>qi_superseded := Some ''a'', qi_reconcile := None\<rparr>"
  have r: "list_all readable_item [demo_item ''a'', demo_item ''b'']" "list_all readable_item [?a, demo_item ''b'']"
      "list_all readable_item [?a, ?b]"
    by (simp_all add: readable_item_def blank_condition_def demo_item_def item_new_def)
  have off: "(demo_item i) \<lparr>qi_superseded := s, qi_reconcile := None, qi_priority := False\<rparr> =
      (demo_item i) \<lparr>qi_superseded := s, qi_reconcile := None\<rparr>" for i s
    by (simp add: demo_item_def item_new_def)
  have one: "queue_supersede plain_env ''a'' ''b'' (demo_file [demo_item ''a'', demo_item ''b'']) =
      (Inr Completed, demo_file [?a, demo_item ''b''])"
    by (simp add: queue_supersede_def demo_with [OF r(1)] find_item_def demo_saved marker_holders_def off)
  have two: "queue_supersede plain_env ''b'' ''a'' (demo_file [?a, demo_item ''b'']) = (Inr Completed, demo_file [?a, ?b])"
    by (simp add: queue_supersede_def demo_with [OF r(2)] find_item_def demo_saved marker_holders_def off)
  show ?thesis
    using demo_reads [OF r(3)] by (simp add: one two) (intro exI [of _ "[?a, ?b]"], simp add: is_actionable_def)
qed

end
