(* ===== verification/Work_Window.thy ===== *)
theory Work_Window
  imports Work_Queue Dispatch_Gate
begin

text \<open>
  The window of the work queue (\<open>adapters/nautilus/lab/src/queue/window.rs\<close>): what a clock and the
  calendar's answers say about now, which items that admits, and when it changes next. An instant is
  its seconds since the epoch, a date its day number.
\<close>

definition OPEN_MIN :: int where "OPEN_MIN = 9 * 60"
definition CLOSE_MIN :: int where "CLOSE_MIN = 15 * 60 + 30"
definition BOUNDARY_SCAN_DAYS :: nat where "BOUNDARY_SCAN_DAYS = 30"

datatype date_evidence = Fact date_fact | EvidenceNotConfigured | EvidenceUnavailable
datatype unknown_reason = ReasonNotConfigured | ReasonUnavailable | OutOfCoverage
datatype closed_reason = ClosureDate | OutsideHours
datatype window_state = KnownClosed closed_reason | PresumedOpen | GenuinelyUnknown unknown_reason
datatype next_boundary = CloseAt int | OpenAt int

definition repair_action :: "unknown_reason \<Rightarrow> string" where
  "repair_action r = (case r of
     ReasonNotConfigured \<Rightarrow> ''set LS_CALENDAR_SNAPSHOT=adapters/nautilus/state/krx.calendar.json - no calendar snapshot path is configured''
   | ReasonUnavailable \<Rightarrow> ''the configured calendar snapshot failed to load - inspect/re-activate adapters/nautilus/state/krx.calendar.json''
   | OutOfCoverage \<Rightarrow> ''the date is outside snapshot coverage - run the calendar refresh chain'')"

definition admits :: "window_state \<Rightarrow> work_window \<Rightarrow> bool" where
  "admits st w =
     (case (st, w) of
        (_, AnyWindow) \<Rightarrow> True
      | (PresumedOpen, OpenAttended) \<Rightarrow> True
      | (KnownClosed _, ClosedWindow) \<Rightarrow> True
      | _ \<Rightarrow> False)"

record chain_step =
  cst_name :: string
  cst_action :: string
  cst_from :: int
  cst_deadline :: int

definition MORNING_CHAIN :: "chain_step list" where
  "MORNING_CHAIN =
     [\<lparr>cst_name = ''source-credentials'', cst_action = ''Step 0'', cst_from = 0, cst_deadline = OPEN_MIN - 1\<rparr>,
      \<lparr>cst_name = ''krx-witness-probe'', cst_action = ''Step 1'', cst_from = 0, cst_deadline = OPEN_MIN - 1\<rparr>,
      \<lparr>cst_name = ''calendar-refresh'', cst_action = ''Steps 2-3'', cst_from = 0, cst_deadline = OPEN_MIN - 1\<rparr>,
      \<lparr>cst_name = ''catalog-advance'', cst_action = ''Step 4'', cst_from = 0, cst_deadline = OPEN_MIN - 1\<rparr>,
      \<lparr>cst_name = ''mount-universe'', cst_action = ''Step 6'', cst_from = OPEN_MIN, cst_deadline = CLOSE_MIN\<rparr>,
      \<lparr>cst_name = ''attended-session'', cst_action = ''Step 7'', cst_from = OPEN_MIN, cst_deadline = CLOSE_MIN\<rparr>,
      \<lparr>cst_name = ''post-close'', cst_action = ''Post-close'', cst_from = CLOSE_MIN + 1, cst_deadline = 24 * 60 - 1\<rparr>]"

definition next_chain_step :: "int \<Rightarrow> chain_step option" where
  "next_chain_step minute = find (\<lambda>s. minute \<le> cst_deadline s) MORNING_CHAIN"

record window_report =
  wr_state :: window_state
  wr_boundary :: "next_boundary option"
  wr_step :: "chain_step option"

text \<open>The date in Seoul, and the instant of a minute of a date there.\<close>

definition kst_day :: "int \<Rightarrow> int" where
  "kst_day now = (now + 32400) div 86400 + 719163"

definition kst_instant :: "int \<Rightarrow> int \<Rightarrow> int" where
  "kst_instant d minute = (d - 719163) * 86400 + minute * 60 - 32400"

fun boundary_scan :: "nat \<Rightarrow> int \<Rightarrow> (int \<Rightarrow> date_fact) \<Rightarrow> next_boundary option" where
  "boundary_scan 0 d fact_for = None"
| "boundary_scan (Suc n) d fact_for =
     (if fact_for d \<noteq> VenueClosed then Some (OpenAt (kst_instant d OPEN_MIN))
      else Option.bind (succ_opt d) (\<lambda>d. boundary_scan n d fact_for))"

definition next_open_boundary :: "int option \<Rightarrow> (int \<Rightarrow> date_fact) \<Rightarrow> next_boundary option" where
  "next_open_boundary from_day fact_for = Option.bind from_day (\<lambda>d. boundary_scan BOUNDARY_SCAN_DAYS d fact_for)"

definition derive_window :: "int \<Rightarrow> date_evidence \<Rightarrow> (int \<Rightarrow> date_fact) \<Rightarrow> window_report" where
  "derive_window now today fact_for =
     (let day = kst_day now; minute = kst_minute now;
          unknown = (\<lambda>r. \<lparr>wr_state = GenuinelyUnknown r, wr_boundary = None, wr_step = None\<rparr>)
      in case today of
           EvidenceNotConfigured \<Rightarrow> unknown ReasonNotConfigured
         | EvidenceUnavailable \<Rightarrow> unknown ReasonUnavailable
         | Fact Unavailable \<Rightarrow> unknown OutOfCoverage
         | Fact VenueClosed \<Rightarrow>
             \<lparr>wr_state = KnownClosed ClosureDate, wr_boundary = next_open_boundary (succ_opt day) fact_for, wr_step = None\<rparr>
         | _ \<Rightarrow>
             if in_time_window now
             then \<lparr>wr_state = PresumedOpen, wr_boundary = Some (CloseAt (kst_instant day (CLOSE_MIN + 1))), wr_step = next_chain_step minute\<rparr>
             else if minute < OPEN_MIN
             then \<lparr>wr_state = KnownClosed OutsideHours, wr_boundary = Some (OpenAt (kst_instant day OPEN_MIN)), wr_step = None\<rparr>
             else \<lparr>wr_state = KnownClosed OutsideHours, wr_boundary = next_open_boundary (succ_opt day) fact_for, wr_step = None\<rparr>)"

section \<open>What a window admits\<close>

text \<open>
  The window fails closed: open work is admitted exactly on a date the calendar does not rule out and
  inside the session hours, closed work exactly on a proven closure or on such a date outside the
  hours; when the calendar cannot answer nothing but window-agnostic work is admitted.\<close>

theorem window_fails_closed:
  "(admits (wr_state (derive_window now today fact_for)) OpenAttended \<longleftrightarrow>
      today \<in> {Fact UnknownDate, Fact TradingSession} \<and> in_time_window now) \<and>
   (admits (wr_state (derive_window now today fact_for)) ClosedWindow \<longleftrightarrow>
      today = Fact VenueClosed \<or> today \<in> {Fact UnknownDate, Fact TradingSession} \<and> \<not> in_time_window now) \<and>
   admits (wr_state (derive_window now today fact_for)) AnyWindow"
  by (cases today; (cases "case today of Fact x \<Rightarrow> x | _ \<Rightarrow> Unavailable")?)
    (auto simp: derive_window_def admits_def Let_def split: date_fact.splits)

section \<open>When it changes\<close>

text \<open>The state at an instant, when the calendar answers by \<open>fact_for\<close>.\<close>

definition state_at :: "(int \<Rightarrow> date_fact) \<Rightarrow> int \<Rightarrow> window_state" where
  "state_at fact_for t = wr_state (derive_window t (Fact (fact_for (kst_day t))) fact_for)"

lemma kst_split: "t = kst_instant (kst_day t) (kst_minute t) + (t + 32400) mod 60"
proof -
  define s where "s = t + 32400"
  have "s mod 86400 mod 60 = s mod 60" by (simp add: mod_mod_cancel)
  moreover have "s mod 86400 div 60 * 60 + s mod 86400 mod 60 = s mod 86400" by (rule div_mult_mod_eq)
  moreover have "s div 86400 * 86400 + s mod 86400 = s" by (rule div_mult_mod_eq)
  ultimately have "s = s div 86400 * 86400 + s mod 86400 div 60 * 60 + s mod 60" by linarith
  then show ?thesis unfolding kst_instant_def kst_day_def kst_minute_def s_def [symmetric] by (simp add: s_def)
qed

lemma kst_minute_bounds: "0 \<le> kst_minute t" "kst_minute t < 1440"
  by (simp_all add: kst_minute_def)

lemma instant_day: "0 \<le> m \<Longrightarrow> m < 1440 \<Longrightarrow> kst_day (kst_instant d m) = d"
  by (simp add: kst_day_def kst_instant_def)

lemma instant_minute: "0 \<le> m \<Longrightarrow> m < 1440 \<Longrightarrow> kst_minute (kst_instant d m) = m"
proof -
  assume m: "0 \<le> m" "m < 1440"
  have "kst_instant d m + 32400 = m * 60 + (d - 719163) * 86400" by (simp add: kst_instant_def)
  then have "(kst_instant d m + 32400) mod 86400 = m * 60 mod 86400" by (metis mod_mult_self1)
  with m show ?thesis by (simp add: kst_minute_def)
qed

lemma kst_order:
  assumes "0 \<le> m" and "m < 1440"
  shows "t < kst_instant d m \<longleftrightarrow> kst_day t < d \<or> kst_day t = d \<and> kst_minute t < m"
proof -
  define D M r where "D = kst_day t" and "M = kst_minute t" and "r = (t + 32400) mod 60"
  have t: "t = (D - 719163) * 86400 + M * 60 - 32400 + r"
    using kst_split [of t] by (simp add: kst_instant_def D_def M_def r_def)
  have b: "0 \<le> M" "M < 1440" "0 \<le> r" "r < 60" using kst_minute_bounds [of t] by (simp_all add: M_def r_def)
  show ?thesis
    unfolding D_def [symmetric] M_def [symmetric] unfolding t kst_instant_def using b assms
    by (cases D d rule: linorder_cases) auto
qed

lemma state_open: "state_at f u = PresumedOpen \<longleftrightarrow> f (kst_day u) \<in> {UnknownDate, TradingSession} \<and> in_time_window u"
  by (cases "f (kst_day u)") (simp_all add: state_at_def derive_window_def Let_def)

lemma state_closed:
  "state_at f u = KnownClosed c \<longleftrightarrow>
    f (kst_day u) = VenueClosed \<and> c = ClosureDate \<or>
    f (kst_day u) \<in> {UnknownDate, TradingSession} \<and> \<not> in_time_window u \<and> c = OutsideHours"
  by (cases "f (kst_day u)") (auto simp: state_at_def derive_window_def Let_def)

lemma scan_finds:
  "boundary_scan n d f = Some b \<Longrightarrow>
    \<exists>k\<ge>d. b = OpenAt (kst_instant k OPEN_MIN) \<and> f k \<noteq> VenueClosed \<and> (\<forall>j\<in>{d..<k}. f j = VenueClosed)"
proof (induction n arbitrary: d)
  case (Suc n)
  show ?case
  proof (cases "f d = VenueClosed")
    case True
    with Suc.prems have "boundary_scan n (d + 1) f = Some b" by (auto simp: succ_opt_def split: if_splits)
    from Suc.IH [OF this] obtain k where k: "d + 1 \<le> k" "b = OpenAt (kst_instant k OPEN_MIN)" "f k \<noteq> VenueClosed"
      "\<forall>j\<in>{d + 1..<k}. f j = VenueClosed" by auto
    have "f j = VenueClosed" if "j \<in> {d..<k}" for j using k(4) True that by (cases "j = d") auto
    with k show ?thesis by (intro exI [of _ k]) auto
  next
    case False
    with Suc.prems show ?thesis by (intro exI [of _ d]) auto
  qed
qed simp

lemma next_open_finds:
  assumes "next_open_boundary (succ_opt d) f = Some b"
  shows "\<exists>k>d. b = OpenAt (kst_instant k OPEN_MIN) \<and> f k \<noteq> VenueClosed \<and> (\<forall>j\<in>{d<..<k}. f j = VenueClosed)"
proof -
  have "boundary_scan BOUNDARY_SCAN_DAYS (d + 1) f = Some b"
    using assms by (auto simp: next_open_boundary_def succ_opt_def split: if_splits)
  from scan_finds [OF this] obtain k where k: "d + 1 \<le> k" "b = OpenAt (kst_instant k OPEN_MIN)" "f k \<noteq> VenueClosed"
    "\<forall>j\<in>{d + 1..<k}. f j = VenueClosed" by auto
  then show ?thesis by (intro exI [of _ k]) auto
qed

text \<open>An opening is right when nothing but closures and the rest of today lies before it.\<close>

lemma opening_is_next:
  assumes "kst_day now \<le> k" and "f k \<noteq> VenueClosed" and "\<forall>j\<in>{kst_day now<..<k}. f j = VenueClosed"
    and now: "kst_day now < k \<and> (f (kst_day now) = VenueClosed \<or> CLOSE_MIN < kst_minute now) \<or> kst_day now = k \<and> kst_minute now < OPEN_MIN"
  shows "now < kst_instant k OPEN_MIN \<and> (\<forall>u. now \<le> u \<and> u < kst_instant k OPEN_MIN \<longrightarrow> state_at f u \<noteq> PresumedOpen) \<and>
    (\<forall>c. state_at f (kst_instant k OPEN_MIN) \<noteq> KnownClosed c)"
proof (intro conjI allI impI)
  have o: "0 \<le> OPEN_MIN" "OPEN_MIN < 1440" by (simp_all add: OPEN_MIN_def)
  show "now < kst_instant k OPEN_MIN" unfolding kst_order [OF o] using now by auto
  show "state_at f u \<noteq> PresumedOpen" if u: "now \<le> u \<and> u < kst_instant k OPEN_MIN" for u
  proof
    assume "state_at f u = PresumedOpen"
    then have p: "f (kst_day u) \<noteq> VenueClosed" "OPEN_MIN \<le> kst_minute u" "kst_minute u \<le> CLOSE_MIN"
      by (auto simp: state_open in_time_window_def OPEN_MIN_def CLOSE_MIN_def)
    have lt: "kst_day u < k" using u p(2) by (auto simp: kst_order [OF o])
    have "\<not> u < kst_instant (kst_day now) (kst_minute now)"
      using u kst_split [of now] pos_mod_sign [of 60 "now + 32400"] by linarith
    then have "kst_day now < kst_day u \<or> kst_day now = kst_day u \<and> kst_minute now \<le> kst_minute u"
      unfolding kst_order [OF kst_minute_bounds] by auto
    with now p lt assms(3) show False by auto
  qed
  show "state_at f (kst_instant k OPEN_MIN) \<noteq> KnownClosed c" for c
    using assms(2) instant_day [OF o] instant_minute [OF o]
    by (auto simp: state_closed in_time_window_def) (simp_all add: OPEN_MIN_def)
qed

text \<open>
  C33. The next boundary is when the state changes: until the announced close the session stays presumed
  open and at that instant it is closed; until the announced opening the session is not open at any
  instant, and at that instant nothing proves it closed.\<close>

theorem boundary_is_the_next_change:
  assumes "wr_boundary (derive_window now (Fact (f (kst_day now))) f) = Some b"
  shows "case b of
      CloseAt t \<Rightarrow> now < t \<and> (\<forall>u. now \<le> u \<and> u < t \<longrightarrow> state_at f u = PresumedOpen) \<and> state_at f t = KnownClosed OutsideHours
    | OpenAt t \<Rightarrow> now < t \<and> (\<forall>u. now \<le> u \<and> u < t \<longrightarrow> state_at f u \<noteq> PresumedOpen) \<and> (\<forall>c. state_at f t \<noteq> KnownClosed c)"
proof -
  let ?d = "kst_day now"
  have later: "case b of CloseAt t \<Rightarrow> False | OpenAt t \<Rightarrow>
      now < t \<and> (\<forall>u. now \<le> u \<and> u < t \<longrightarrow> state_at f u \<noteq> PresumedOpen) \<and> (\<forall>c. state_at f t \<noteq> KnownClosed c)"
    if nb: "next_open_boundary (succ_opt ?d) f = Some b" and out: "f ?d = VenueClosed \<or> CLOSE_MIN < kst_minute now"
  proof -
    obtain k where "?d < k" "b = OpenAt (kst_instant k OPEN_MIN)" "f k \<noteq> VenueClosed" "\<forall>j\<in>{?d<..<k}. f j = VenueClosed"
      using next_open_finds [OF nb] by auto
    with opening_is_next [of now k f] out show ?thesis by auto
  qed
  consider "f ?d = VenueClosed" "next_open_boundary (succ_opt ?d) f = Some b"
    | "f ?d \<in> {UnknownDate, TradingSession}" "in_time_window now" "b = CloseAt (kst_instant ?d (CLOSE_MIN + 1))"
    | "f ?d \<in> {UnknownDate, TradingSession}" "kst_minute now < OPEN_MIN" "b = OpenAt (kst_instant ?d OPEN_MIN)"
    | "CLOSE_MIN < kst_minute now" "next_open_boundary (succ_opt ?d) f = Some b"
    using assms by (cases "f ?d") (auto simp: derive_window_def Let_def in_time_window_def OPEN_MIN_def CLOSE_MIN_def split: if_splits)
  then show ?thesis
  proof cases
    case 1
    with later show ?thesis by (cases b) auto
  next
    case 2
    have c: "0 \<le> CLOSE_MIN + 1" "CLOSE_MIN + 1 < 1440" by (simp_all add: CLOSE_MIN_def)
    let ?t = "kst_instant ?d (CLOSE_MIN + 1)"
    have "now < ?t" unfolding kst_order [OF c] using 2(2) by (simp add: in_time_window_def CLOSE_MIN_def)
    moreover have "state_at f u = PresumedOpen" if "now \<le> u" "u < ?t" for u
    proof -
      have "\<not> u < kst_instant ?d (kst_minute now)"
        using that(1) kst_split [of now] pos_mod_sign [of 60 "now + 32400"] by linarith
      then have "kst_day u = ?d" "kst_minute now \<le> kst_minute u" "kst_minute u < CLOSE_MIN + 1"
        using that(2) unfolding kst_order [OF kst_minute_bounds] kst_order [OF c] by auto
      with 2(1,2) show ?thesis by (simp add: state_open in_time_window_def CLOSE_MIN_def)
    qed
    moreover have "state_at f ?t = KnownClosed OutsideHours"
      using 2(1) instant_day [OF c] instant_minute [OF c] by (simp add: state_closed in_time_window_def) (simp add: CLOSE_MIN_def)
    ultimately show ?thesis using 2(3) by simp
  next
    case 3
    with opening_is_next [of now ?d f] show ?thesis by auto
  next
    case 4
    with later show ?thesis by (cases b) auto
  qed
qed

text \<open>A Friday evening before a closed weekend: the opening is on Monday at nine.\<close>

definition weekdays :: "int \<Rightarrow> date_fact" where
  "weekdays d = (if d mod 7 \<in> {0, 6} then VenueClosed else UnknownDate)"

theorem boundary_is_the_next_change_witness:
  "state_at weekdays (kst_instant 738893 540) \<noteq> KnownClosed OutsideHours \<and>
   wr_boundary (derive_window (kst_instant 738890 1000) (Fact (weekdays 738890)) weekdays) = Some (OpenAt (kst_instant 738893 540))"
proof -
  let ?now = "kst_instant 738890 1000"
  have d: "kst_day ?now = 738890" "kst_minute ?now = 1000"
    by (rule instant_day instant_minute; simp)+
  have "boundary_scan (Suc (Suc (Suc n))) 738891 weekdays = Some (OpenAt (kst_instant 738893 OPEN_MIN))" for n
    by (simp add: weekdays_def succ_opt_def DATE_MAX_def)
  from this [of 27] have "wr_boundary (derive_window ?now (Fact (weekdays (kst_day ?now))) weekdays) = Some (OpenAt (kst_instant 738893 540))"
    by (simp add: derive_window_def Let_def d in_time_window_def weekdays_def next_open_boundary_def BOUNDARY_SCAN_DAYS_def
        succ_opt_def DATE_MAX_def OPEN_MIN_def)
  from boundary_is_the_next_change [OF this] this show ?thesis by (simp add: d)
qed

end
