(* ===== verification/Work_Next.thy ===== *)
theory Work_Next
  imports Work_Window Catalog_Baseline Capital_Ladder
begin

text \<open>
  The entry report of the lab (\<open>adapters/nautilus/lab/src/runner/next.rs\<close>), the readers of in-flight
  sequences (\<open>queue/sequences.rs\<close>) and the resume probe (\<open>runner/next/probe.rs\<close>): what is in flight,
  what to do next, and whether what is in flight could be resumed from what is on disk.
\<close>

section \<open>Sequences in flight\<close>

datatype sequence_kind = SeqTurn | SeqLadder | SeqIngest | SeqGate

definition sequence_tag :: "sequence_kind \<Rightarrow> string" where
  "sequence_tag k = (case k of SeqTurn \<Rightarrow> ''turn'' | SeqLadder \<Rightarrow> ''ladder'' | SeqIngest \<Rightarrow> ''ingest'' | SeqGate \<Rightarrow> ''gate-run'')"

record sequence_report =
  sq_kind :: sequence_kind
  sq_stage :: string
  sq_resume :: string
  sq_detail :: "string list"

text \<open>
  What the files of the stores hold: the dispatch chain, the run registry, the checkpoint (absent, not
  readable, or its JSON), the trials ledger (the candidate and verdict of each record), the stage log.\<close>

datatype trials_file = TrialsAbsent | TrialsRead "string + (string \<times> string) list"

record data_home =
  hm_chain :: dispatch_store
  hm_runs :: lab_home
  hm_checkpoint :: "(string + json) option"

record sequence_stores =
  sx_home :: "data_home option"
  sx_trials :: "trials_file option"
  sx_stage :: "string option"

definition trials_records :: "trials_file \<Rightarrow> string + (string \<times> string) list" where
  "trials_records t = (case t of TrialsAbsent \<Rightarrow> Inr [] | TrialsRead r \<Rightarrow> r)"

definition last_stage_line :: "string \<Rightarrow> string option" where
  "last_stage_line text = map_option trim (find (\<lambda>l. trim l \<noteq> []) (rev (str_lines text)))"

definition governed_turn :: "string option \<Rightarrow> string" where
  "governed_turn candidate =
     (case candidate of
        Some slug \<Rightarrow> ''LS_TURN_CANDIDATE='' @ slug @ '' lab-research turn governed''
      | None \<Rightarrow> ''lab-research turn governed (set LS_TURN_CANDIDATE=<slug>)'')"

definition turn_sequence :: "sequence_stores \<Rightarrow> sequence_report option" where
  "turn_sequence s =
     (let aborted = (case sx_home s of None \<Rightarrow> [] | Some h \<Rightarrow> aborted_runs (hm_runs h));
          last_stage = Option.bind (sx_stage s) last_stage_line;
          residue = map (\<lambda>i. ''aborted run residue: runs/.tmp-'' @ i) aborted;
          (candidate, looks) =
            (case sx_trials s of
               None \<Rightarrow> (None, [])
             | Some t \<Rightarrow>
                 (case trials_records t of
                    Inl m \<Rightarrow> (None, [''trials ledger unreadable: '' @ m])
                  | Inr rs \<Rightarrow>
                      if rs = [] then (None, [])
                      else (Some (fst (last rs)), [''last trials-ledger look: candidate '' @ fst (last rs) @ '', verdict '' @ snd (last rs)])))
      in if aborted = [] \<and> last_stage = None then None
         else Some \<lparr>sq_kind = SeqTurn,
           sq_stage = (case last_stage of
               Some l \<Rightarrow> ''last recorded stage: '' @ l @ '' (stage log)''
             | None \<Rightarrow> ''aborted mid-run before finalize (no stage log recorded)''),
           sq_resume = governed_turn candidate, sq_detail = residue @ looks\<rparr>)"

definition engaged_fallback :: "chain_state \<Rightarrow> string list \<Rightarrow> sequence_report option" where
  "engaged_fallback st detail =
     (if cs_kill st
      then Some \<lparr>sq_kind = SeqLadder, sq_stage = ''kill switch ENGAGED - session dispatches refused until cleared'',
        sq_resume = ''clear deliberately after understanding the trip: lab-live --clear-killswitch'', sq_detail = detail\<rparr>
      else None)"

text \<open>The run registry: a finalized run is a directory of its name, an aborted one its staging entry.\<close>

definition run_finalized :: "lab_home \<Rightarrow> string \<Rightarrow> bool" where
  "run_finalized h i = ((i, True) \<in> set (lh_entries h))"

definition run_aborted :: "lab_home \<Rightarrow> string \<Rightarrow> bool" where
  "run_aborted h i = (tmp_prefix @ i \<in> fst ` set (lh_entries h))"

definition valid_ladder :: "data_home \<Rightarrow> chain_state \<Rightarrow> string \<Rightarrow> string list \<Rightarrow> sequence_report option" where
  "valid_ladder h st today switch =
     (let detail = switch @ [''chain authorizes rung '' @ show_nat (cs_rung st)]
      in case mount_authz st today of
           Ready i chain_rung effective_rung \<Rightarrow>
             Some \<lparr>sq_kind = SeqLadder,
               sq_stage = ''session-dispatch '' @ i @ '' green and unconsumed (chain rung '' @ show_nat chain_rung @
                 '', effective rung '' @ show_nat effective_rung @ '')'',
               sq_resume = ''mount the attended session: lab-live --mount'', sq_detail = detail\<rparr>
         | Consumed \<Rightarrow>
             (case cs_last st of
                None \<Rightarrow> engaged_fallback st detail
              | Some l \<Rightarrow>
                  (let run_id = ld_run_id l;
                       residue = (case run_id of
                           Some r \<Rightarrow> if run_aborted (hm_runs h) r then [''aborted run residue: runs/.tmp-'' @ r] else []
                         | None \<Rightarrow> [])
                   in if (case run_id of Some r \<Rightarrow> run_finalized (hm_runs h) r | None \<Rightarrow> False) then engaged_fallback st detail
                      else Some \<lparr>sq_kind = SeqLadder,
                        sq_stage = ''session-dispatch '' @ ld_id l @ '' consumed by run '' @ (case run_id of Some r \<Rightarrow> r | None \<Rightarrow> ''<unrecorded>'') @
                          '' - no finalized run recorded'',
                        sq_resume = ''inspect the mounted session outcome, then lab-live --rung-report; a new session needs a fresh lab-live --dispatch'',
                        sq_detail = detail @ residue\<rparr>))
         | mount_authz.Expired \<Rightarrow>
             (case cs_last st of
                None \<Rightarrow> engaged_fallback st detail
              | Some l \<Rightarrow> Some \<lparr>sq_kind = SeqLadder,
                  sq_stage = ''session-dispatch '' @ ld_id l @ '' green but expired (dispatched '' @ ld_date l @ '')'',
                  sq_resume = ''re-dispatch today: lab-live --dispatch'', sq_detail = detail\<rparr>)
         | NoAuthz \<Rightarrow> engaged_fallback st detail)"

definition ladder_sequence :: "chain_codec \<Rightarrow> data_home \<Rightarrow> string \<Rightarrow> sequence_report option" where
  "ladder_sequence c h today =
     (if ds_file (hm_chain h) = chain_file.Absent then None
      else let st = chain_load c (hm_chain h);
               switch = (if cs_kill st then [''kill switch ENGAGED - clear via lab-live --clear-killswitch''] else [])
           in case cs_status st of
                NoChain \<Rightarrow> None
              | Defective why \<Rightarrow> Some \<lparr>sq_kind = SeqLadder, sq_stage = ''fail-closed rung 0 - chain defective: '' @ why,
                  sq_resume = ''repair by epoch rollover: lab-live --reregister'', sq_detail = switch\<rparr>
              | Valid \<Rightarrow> valid_ladder h st today switch)"

definition string_entries :: "json \<Rightarrow> string \<Rightarrow> (string \<times> json) list" where
  "string_entries v k = (case jget v k of Some (JObj m) \<Rightarrow> m | _ \<Rightarrow> [])"

definition ingest_sequence :: "data_home \<Rightarrow> sequence_report option" where
  "ingest_sequence h =
     (case hm_checkpoint h of
        None \<Rightarrow> None
      | Some (Inl m) \<Rightarrow> Some \<lparr>sq_kind = SeqIngest, sq_stage = ''ingest checkpoint unreadable: '' @ m,
          sq_resume = ''inspect the checkpoint (never hand-repair; re-run ls-ingest only once it reads)'', sq_detail = []\<rparr>
      | Some (Inr v) \<Rightarrow>
          (let watermarks = List.map_filter (\<lambda>(k, d). as_str d) (string_entries v ''watermarks'');
               stage = (if watermarks = [] then ''checkpoint present, no coverage watermarks recorded yet''
                 else show_nat (length watermarks) @ '' series watermarked; coverage frontier '' @ Min (set watermarks) @ ''..'' @
                   Max (set watermarks));
               shifted = sort (map (\<lambda>(k, d). ''basis-shift mark pending heal (appends refused): '' @ k @ '' (detected '' @
                 (case as_str d of Some t \<Rightarrow> t | None \<Rightarrow> ''?'') @ '')'') (string_entries v ''shifted''))
           in Some \<lparr>sq_kind = SeqIngest, sq_stage = stage, sq_resume = ''resume accumulate: ls-ingest'', sq_detail = shifted\<rparr>))"

definition read_sequences :: "chain_codec \<Rightarrow> sequence_stores \<Rightarrow> string \<Rightarrow> sequence_report list" where
  "read_sequences c s today =
     (case turn_sequence s of None \<Rightarrow> [] | Some r \<Rightarrow> [r]) @
     (case sx_home s of
        None \<Rightarrow> []
      | Some h \<Rightarrow> (case ladder_sequence c h today of None \<Rightarrow> [] | Some r \<Rightarrow> [r]) @
                  (case ingest_sequence h of None \<Rightarrow> [] | Some r \<Rightarrow> [r]))"

section \<open>The gate's status text\<close>

text \<open>\<open>split_whitespace\<close>: \<open>skip\<close> counts the bytes left of a white-space character.\<close>

fun words_from :: "nat \<Rightarrow> string \<Rightarrow> string \<Rightarrow> string list" where
  "words_from skip acc [] = (if acc = [] then [] else [acc])"
| "words_from (Suc skip) acc (ch # cs) = words_from skip acc cs"
| "words_from 0 acc (ch # cs) =
     (case find (\<lambda>w. prefix w (ch # cs)) white_space of
        Some w \<Rightarrow> (if acc = [] then [] else [acc]) @ words_from (length w - 1) [] cs
      | None \<Rightarrow> words_from 0 (acc @ [ch]) cs)"

definition split_whitespace :: "string \<Rightarrow> string list" where
  "split_whitespace s = words_from 0 [] s"

record gate_scan =
  gs_total :: nat
  gs_done :: nat
  gs_failed :: "string list"
  gs_next :: "string option"

definition gate_field :: "string \<Rightarrow> string \<times> string \<Rightarrow> string \<times> string" where
  "gate_field field ns =
     (case strip_prefix ''name='' field of
        Some v \<Rightarrow> (v, snd ns)
      | None \<Rightarrow> (case strip_prefix ''status='' field of Some v \<Rightarrow> (fst ns, v) | None \<Rightarrow> ns))"

definition gate_line :: "string \<Rightarrow> gate_scan \<Rightarrow> gate_scan" where
  "gate_line l g =
     (case strip_prefix ''next='' l of
        Some rest \<Rightarrow> g \<lparr>gs_next := Some (trim rest)\<rparr>
      | None \<Rightarrow>
          if \<not> starts_with l ''step='' then g
          else let (name, status) = fold gate_field (split_whitespace l) ([], []);
                   g' = g \<lparr>gs_total := gs_total g + 1\<rparr>
               in if status = ''done'' then g' \<lparr>gs_done := gs_done g + 1\<rparr>
                  else if status = ''failed'' then g' \<lparr>gs_failed := gs_failed g @ [name]\<rparr>
                  else g')"

definition scan_gate :: "string \<Rightarrow> gate_scan" where
  "scan_gate text = fold gate_line (str_lines text) \<lparr>gs_total = 0, gs_done = 0, gs_failed = [], gs_next = None\<rparr>"

definition parse_gate_status :: "string \<Rightarrow> sequence_report option" where
  "parse_gate_status text =
     (let g = scan_gate text
      in case gs_next g of
           None \<Rightarrow> None
         | Some step \<Rightarrow>
             if step = ''none'' \<or> gs_done g = 0 \<and> gs_failed g = [] then None
             else Some \<lparr>sq_kind = SeqGate,
               sq_stage = ''resumable at step '' @ step @ '' ('' @ show_nat (gs_done g) @ ''/'' @ show_nat (gs_total g) @ '' done)'',
               sq_resume = ''make gate-run (resumes at '' @ step @ '')'',
               sq_detail = map (\<lambda>n. ''step '' @ n @ '' recorded FAILED - the resume re-runs from it'') (gs_failed g)\<rparr>)"

section \<open>Reconciliation before an offer\<close>

definition parse_deadline :: "queue_env \<Rightarrow> queue_item \<Rightarrow> int option" where
  "parse_deadline e x = Option.bind (qi_deadline x) (qe_rfc e)"

definition deadline_passed :: "queue_env \<Rightarrow> int \<Rightarrow> queue_item \<Rightarrow> bool" where
  "deadline_passed e now x = (\<not> is_blocked x \<and> (case parse_deadline e x of None \<Rightarrow> False | Some d \<Rightarrow> d < now))"

text \<open>The first pass closes what a declared artifact now witnesses.\<close>

fun auto_close :: "queue_env \<Rightarrow> int \<Rightarrow> string \<Rightarrow> queue_item list \<Rightarrow> queue_file \<Rightarrow> (string + string list) \<times> queue_file" where
  "auto_close e now stamp [] f = (Inr [], f)"
| "auto_close e now stamp (x # xs) f =
     (case is_actionable e now x of
        Inl m \<Rightarrow> (Inl m, f)
      | Inr a \<Rightarrow>
          if \<not> a \<or> is_blocked x then auto_close e now stamp xs f
          else case declared_artifact x of
              None \<Rightarrow> auto_close e now stamp xs f
            | Some (p, ev) \<Rightarrow>
                if \<not> artifact_witnesses e (anchored e p) then auto_close e now stamp xs f
                else case queue_done e (qi_id x) stamp f of
                    (Inl m, f') \<Rightarrow> (Inl m, f')
                  | (Inr r, f') \<Rightarrow>
                      (let line = (case r of
                           Completed \<Rightarrow> ''  auto-closed: '' @ qi_id x @ '' (artifact '' @ p @ '' present - event '' @ ev @ '')''
                         | Reconcile flag \<Rightarrow> ''  confirm: '' @ qi_id x @ '' - '' @ flag)
                       in apfst (map_sum (\<lambda>m. m) ((#) line)) (auto_close e now stamp xs f')))"

definition confirm_why :: "queue_env \<Rightarrow> int \<Rightarrow> queue_item \<Rightarrow> string option" where
  "confirm_why e now x =
     (case qi_reconcile x of
        Some flag \<Rightarrow> Some (''reconcile flag: '' @ flag)
      | None \<Rightarrow>
          if deadline_passed e now x
          then Some (''past its recorded deadline '' @ (case qi_deadline x of Some d \<Rightarrow> d | None \<Rightarrow> ''?''))
          else None)"

text \<open>The second pass asks about explicit items: on a terminal, \<open>tty\<close> is what is typed for an item.\<close>

fun confirm_items ::
  "queue_env \<Rightarrow> int \<Rightarrow> string \<Rightarrow> (string \<Rightarrow> string) option \<Rightarrow> queue_item list \<Rightarrow> queue_file \<Rightarrow> (string + string list) \<times> queue_file" where
  "confirm_items e now stamp tty [] f = (Inr [], f)"
| "confirm_items e now stamp tty (x # xs) f =
     (case is_actionable e now x of
        Inl m \<Rightarrow> (Inl m, f)
      | Inr a \<Rightarrow>
          if \<not> a \<or> is_blocked x \<or> qi_completion x \<noteq> Explicit then confirm_items e now stamp tty xs f
          else case confirm_why e now x of
              None \<Rightarrow> confirm_items e now stamp tty xs f
            | Some why \<Rightarrow>
                (case tty of
                   None \<Rightarrow> apfst (map_sum (\<lambda>m. m) ((#) (''  confirm: '' @ qi_id x @ '' - done? close with `lab-next done '' @ qi_id x @
                       ''` or leave queued ('' @ why @ '')''))) (confirm_items e now stamp tty xs f)
                 | Some typed \<Rightarrow>
                     if eq_ignore_case (trim (typed (qi_id x))) ''y''
                     then case queue_done e (qi_id x) stamp f of
                         (Inl m, f') \<Rightarrow> (Inl m, f')
                       | (Inr _, f') \<Rightarrow> apfst (map_sum (\<lambda>m. m) ((#) (''  closed: '' @ qi_id x @ '' (operator confirmed done)'')))
                           (confirm_items e now stamp tty xs f')
                     else apfst (map_sum (\<lambda>m. m) ((#) (''  kept: '' @ qi_id x @ '' (operator says still open; '' @ why @ '')'')))
                       (confirm_items e now stamp tty xs f)))"

definition reconcile_queue ::
  "queue_env \<Rightarrow> int \<Rightarrow> string \<Rightarrow> (string \<Rightarrow> string) option \<Rightarrow> queue_file \<Rightarrow> (string + string list) \<times> queue_file" where
  "reconcile_queue e now stamp tty f = with_items e f (\<lambda>xs.
     case auto_close e now stamp xs f of
       (Inl m, f') \<Rightarrow> (Inl m, f')
     | (Inr ls, f') \<Rightarrow> apfst (map_sum (\<lambda>m. m) ((@) ls)) (confirm_items e now stamp tty xs f'))"

section \<open>The report\<close>

text \<open>The queue order: the holder of the marker, then dated items by deadline, then file order.\<close>

definition by_priority_then_deadline :: "queue_env \<Rightarrow> queue_item \<Rightarrow> int list" where
  "by_priority_then_deadline e x =
     [if qi_priority x then 0 else 1, (case parse_deadline e x of Some _ \<Rightarrow> 0 | None \<Rightarrow> 1),
      (case parse_deadline e x of Some d \<Rightarrow> d | None \<Rightarrow> 0)]"

text \<open>What the program asks of its surroundings, once.\<close>

record report_env =
  rn_now :: int
  rn_stamp :: string
  rn_tty :: "(string \<Rightarrow> string) option"
  rn_calendar :: loaded_calendar
  rn_chain :: chain_codec
  rn_stores :: sequence_stores
  rn_gate :: "string + string"
  rn_time :: "int \<Rightarrow> string"

definition rn_secs :: "report_env \<Rightarrow> int" where
  "rn_secs r = rn_now r div 10 ^ 9"

definition today_evidence :: "loaded_calendar \<Rightarrow> int \<Rightarrow> date_evidence" where
  "today_evidence l now =
     (case l of
        NotConfigured \<Rightarrow> EvidenceNotConfigured
      | CalendarUnavailable _ \<Rightarrow> EvidenceUnavailable
      | Available _ \<Rightarrow>
          (case loaded_view l now of
             Some v \<Rightarrow> Fact (date_fact_from_view (Some v) (kst_date now))
           | None \<Rightarrow> EvidenceUnavailable))"

definition report_window :: "report_env \<Rightarrow> window_report" where
  "report_window r =
     derive_window (rn_secs r) (today_evidence (rn_calendar r) (rn_now r))
       (date_fact_from_view (loaded_view (rn_calendar r) (rn_now r)))"

definition gate_sequence :: "string + string \<Rightarrow> sequence_report option" where
  "gate_sequence g = (case g of Inl _ \<Rightarrow> None | Inr text \<Rightarrow> parse_gate_status text)"

definition all_sequences :: "report_env \<Rightarrow> sequence_report list" where
  "all_sequences r = read_sequences (rn_chain r) (rn_stores r) (cd_kst (rn_chain r) (rn_secs r)) @
     (case gate_sequence (rn_gate r) of None \<Rightarrow> [] | Some g \<Rightarrow> [g])"

definition sequence_window :: "sequence_report \<Rightarrow> work_window" where
  "sequence_window s = (if sq_kind s = SeqLadder \<and> contains (sq_resume s) ''--mount'' then OpenAttended else ClosedWindow)"

fun classify_items :: "queue_env \<Rightarrow> int \<Rightarrow> window_state \<Rightarrow> queue_item list \<Rightarrow> string + queue_item list \<times> queue_item list \<times> bool" where
  "classify_items e now st [] = Inr ([], [], False)"
| "classify_items e now st (x # xs) =
     bind_res (is_actionable e now x) (\<lambda>a.
     map_sum (\<lambda>m. m) (\<lambda>(standing, eligible, open_unblocked).
         if \<not> a then (standing, eligible, open_unblocked)
         else if is_blocked x then (x # standing, eligible, open_unblocked)
         else (standing, if admits st (qi_window x) then x # eligible else eligible, True))
       (classify_items e now st xs))"

record work_plan =
  wp_window :: window_report
  wp_active :: "sequence_report list"
  wp_paused :: "sequence_report list"
  wp_standing :: "queue_item list"
  wp_eligible :: "queue_item list"
  wp_open :: bool

definition report_plan :: "queue_env \<Rightarrow> report_env \<Rightarrow> queue_item list \<Rightarrow> string + work_plan" where
  "report_plan e r xs =
     (let w = report_window r; sequences = all_sequences r; now_admits = (\<lambda>s. admits (wr_state w) (sequence_window s))
      in map_sum (\<lambda>m. m) (\<lambda>(standing, eligible, open_unblocked).
           \<lparr>wp_window = w, wp_active = filter now_admits sequences, wp_paused = filter (\<lambda>s. \<not> now_admits s) sequences,
            wp_standing = sort_key (by_priority_then_deadline e) standing, wp_eligible = sort_key (by_priority_then_deadline e) eligible, wp_open = open_unblocked\<rparr>)
         (classify_items e (rn_now r) (wr_state w) xs))"

datatype offer = OfferSequence sequence_report | OfferItem queue_item | AllBlocked queue_item | RunRepair | NoneEligible

text \<open>The top offer, and the items left for the queue section.\<close>

definition top_offer :: "work_plan \<Rightarrow> offer \<times> queue_item list" where
  "top_offer p =
     (case (wp_active p, wp_eligible p, wp_open p, wp_standing p) of
        (s # _, items, _, _) \<Rightarrow> (OfferSequence s, items)
      | ([], x # items, _, _) \<Rightarrow> (OfferItem x, items)
      | ([], [], False, h # _) \<Rightarrow> (AllBlocked h, [])
      | _ \<Rightarrow> (case wr_state (wp_window p) of GenuinelyUnknown _ \<Rightarrow> RunRepair | _ \<Rightarrow> NoneEligible, []))"

definition item_head :: "queue_item \<Rightarrow> string" where
  "item_head x = ''  '' @ qi_id x @ '' ['' @ window_tag (qi_window x) @ ''] '' @ qi_title x @
     (case qi_deadline x of Some d \<Rightarrow> '' (deadline '' @ d @ '')'' | None \<Rightarrow> []) @
     (case qi_sequence x of Some s \<Rightarrow> '' (paused sequence '' @ s @ '')'' | None \<Rightarrow> [])"

definition refs_and_notes :: "queue_item \<Rightarrow> string list" where
  "refs_and_notes x =
     (if qi_refs x = [] then [] else [''    refs: '' @ join '', '' (qi_refs x)]) @
     (case qi_notes x of Some n \<Rightarrow> [''    note: '' @ n] | None \<Rightarrow> [])"

definition item_lines :: "queue_item \<Rightarrow> string list" where
  "item_lines x =
     [item_head x,
      ''    run: '' @ (case qi_completion x of
          Explicit \<Rightarrow> ''do the titled work, then close it: lab-next done '' @ qi_id x
        | ToolEvent ev (Some p) \<Rightarrow> ''do the titled work; auto-closes once event '' @ ev @ '' writes '' @ p @
            '' (or close it: lab-next done '' @ qi_id x @ '')''
        | ToolEvent ev None \<Rightarrow> ''do the titled work, then close it after event '' @ ev @ '': lab-next done '' @ qi_id x)] @
     refs_and_notes x"

definition standing_lines :: "queue_item \<Rightarrow> string list" where
  "standing_lines x = [item_head x, ''    blocked: '' @ unblock_reason x] @ refs_and_notes x"

definition sequence_lines :: "work_window option \<Rightarrow> sequence_report \<Rightarrow> string list" where
  "sequence_lines needs s =
     [(case needs of
         None \<Rightarrow> ''  '' @ sequence_tag (sq_kind s) @ '' '' @ sq_stage s
       | Some w \<Rightarrow> ''  [paused] '' @ sequence_tag (sq_kind s) @ '' '' @ sq_stage s @ '' (needs '' @ window_tag w @ '' window)''),
      ''    resume: '' @ sq_resume s] @ map (\<lambda>d. ''    note: '' @ d) (sq_detail s)"

definition window_line :: "(int \<Rightarrow> string) \<Rightarrow> window_report \<Rightarrow> string" where
  "window_line time w =
     (let boundary = (case wr_boundary w of
          Some (CloseAt t) \<Rightarrow> ''; next boundary close '' @ time t
        | Some (OpenAt t) \<Rightarrow> ''; next boundary open '' @ time t
        | None \<Rightarrow> [])
      in case wr_state w of
           PresumedOpen \<Rightarrow> ''window: presumed-open (inside the 09:00-15:30 KST session window'' @ boundary @ '')''
         | KnownClosed ClosureDate \<Rightarrow> ''window: known-closed (proven closure date'' @ boundary @ '')''
         | KnownClosed OutsideHours \<Rightarrow> ''window: known-closed (outside the 09:00-15:30 KST session window'' @ boundary @ '')''
         | GenuinelyUnknown why \<Rightarrow> ''window: genuinely-unknown ('' @
             (case why of
                ReasonNotConfigured \<Rightarrow> ''no calendar snapshot configured''
              | ReasonUnavailable \<Rightarrow> ''the configured calendar snapshot failed to load''
              | OutOfCoverage \<Rightarrow> ''today is outside snapshot coverage'') @ ''; fail closed)'')"

definition offer_lines :: "offer \<Rightarrow> string list" where
  "offer_lines x =
     (case x of
        OfferSequence s \<Rightarrow> ''next:'' # sequence_lines None s
      | OfferItem i \<Rightarrow> ''next:'' # item_lines i
      | AllBlocked h \<Rightarrow> [''next: none offerable - every open item is standing work; when '' @ unblock_reason h @ '': lab-next unblock '' @ qi_id h]
      | RunRepair \<Rightarrow> [''next: none eligible - run the repair action above, or queue window-agnostic work: lab-next add --window any'']
      | NoneEligible \<Rightarrow> [''next: none eligible in this window - queue work with: lab-next add''])"

definition clock_text :: "int \<Rightarrow> string" where
  "clock_text m =
     (let two = (\<lambda>n. if n < 10 then ''0'' @ show_nat (nat n) else show_nat (nat n)) in two (m div 60) @ '':'' @ two (m mod 60))"

definition report_lines :: "(int \<Rightarrow> string) \<Rightarrow> string list \<Rightarrow> work_plan \<Rightarrow> string list" where
  "report_lines time reconciled p =
     (let (best, remaining) = top_offer p; w = wp_window p
      in [window_line time w] @
         (case wr_state w of GenuinelyUnknown why \<Rightarrow> [''repair: '' @ repair_action why] | _ \<Rightarrow> []) @
         (case wr_step w of Some s \<Rightarrow> [''attended chain: '' @ cst_name s @ '' - '' @ cst_action s @ '' (deadline '' @
            clock_text (cst_deadline s) @ '' KST)''] | None \<Rightarrow> []) @
         (if wp_active p = [] \<and> wp_paused p = [] then [''in-flight: none'']
          else ''in-flight:'' # concat (map (sequence_lines None) (wp_active p)) @
            concat (map (\<lambda>s. sequence_lines (Some (sequence_window s)) s) (wp_paused p))) @
         (if reconciled = [] then [] else ''reconciled:'' # reconciled) @
         (if wp_standing p = [] then [] else ''standing:'' # concat (map standing_lines (wp_standing p))) @
         offer_lines best @
         (if remaining = [] then [''queue: none''] else ''queue:'' # concat (map item_lines remaining)))"

definition run_report :: "queue_env \<Rightarrow> report_env \<Rightarrow> string list \<Rightarrow> queue_file \<Rightarrow> verb_result \<times> queue_file" where
  "run_report e r args f =
     (if args \<noteq> [] then (Inl (''report takes no arguments; '' @ USAGE), f)
      else case reconcile_queue e (rn_now r) (rn_stamp r) (rn_tty r) f of
        (Inl m, f') \<Rightarrow> (Inl m, f')
      | (Inr reconciled, f') \<Rightarrow>
          (map_sum (\<lambda>m. m) (\<lambda>p. (report_lines (rn_time r) reconciled p, True))
             (bind_res (read_all e f') (report_plan e r)), f'))"

section \<open>Lists\<close>

definition list_line :: "queue_item \<Rightarrow> string" where
  "list_line x = item_head x @ (case qi_reconcile x of Some flag \<Rightarrow> '' [reconcile: '' @ flag @ '']'' | None \<Rightarrow> [])"

datatype list_section = ListActionable | ListDone | ListSuperseded | ListStale

definition list_section_of :: "queue_env \<Rightarrow> int \<Rightarrow> queue_item \<Rightarrow> string + list_section" where
  "list_section_of e now x = map_sum (\<lambda>m. m) (\<lambda>a.
     if a then ListActionable else if qi_done x \<noteq> None then ListDone
     else if qi_superseded x \<noteq> None then ListSuperseded else ListStale) (is_actionable e now x)"

fun sections_of :: "queue_env \<Rightarrow> int \<Rightarrow> queue_item list \<Rightarrow> string + (list_section \<times> queue_item) list" where
  "sections_of e now [] = Inr []"
| "sections_of e now (x # xs) =
     bind_res (list_section_of e now x) (\<lambda>s. map_sum (\<lambda>m. m) ((#) (s, x)) (sections_of e now xs))"

definition in_section :: "list_section \<Rightarrow> (list_section \<times> queue_item) list \<Rightarrow> queue_item list" where
  "in_section s ps = map snd (filter (\<lambda>(t, x). t = s) ps)"

definition section_lines :: "string \<Rightarrow> (queue_item \<Rightarrow> string) \<Rightarrow> queue_item list \<Rightarrow> string list" where
  "section_lines head ending xs = (head @ '': '' @ show_nat (length xs)) # map (\<lambda>x. list_line x @ ending x) xs"

definition run_list :: "queue_env \<Rightarrow> int \<Rightarrow> string list \<Rightarrow> queue_file \<Rightarrow> verb_result \<times> queue_file" where
  "run_list e now args f =
     (if args \<noteq> [] \<and> args \<noteq> [''--all''] then (Inl (''unknown list arguments; '' @ USAGE), f)
      else (map_sum (\<lambda>m. m) (\<lambda>ps.
          (section_lines ''actionable'' (\<lambda>x. []) (in_section ListActionable ps) @
           (if args = [] then []
            else section_lines ''done'' (\<lambda>x. '' (done '' @ (case qi_done x of Some d \<Rightarrow> d | None \<Rightarrow> ''?'') @ '')'') (in_section ListDone ps) @
              section_lines ''superseded'' (\<lambda>x. '' (superseded by '' @ (case qi_superseded x of Some d \<Rightarrow> d | None \<Rightarrow> ''?'') @ '')'')
                (in_section ListSuperseded ps) @
              section_lines ''stale'' (\<lambda>x. '' (deadline passed)'') (in_section ListStale ps)), True))
        (bind_res (read_all e f) (sections_of e now)), f))"

section \<open>The resume probe\<close>

datatype probe_leg = LegOk string string | LegFail string

definition leg_of :: "sequence_report \<Rightarrow> probe_leg" where
  "leg_of r = LegOk (sq_stage r) (sq_resume r)"

definition probe_turn :: "sequence_stores \<Rightarrow> probe_leg" where
  "probe_turn s =
     (case turn_sequence s of
        Some r \<Rightarrow> leg_of r
      | None \<Rightarrow>
          (case sx_trials s of
             None \<Rightarrow> LegFail ''no trials ledger configured, and no stage log or aborted-run residue anywhere''
           | Some TrialsAbsent \<Rightarrow> LegFail ''trials ledger absent (and no stage log or aborted-run residue)''
           | Some (TrialsRead (Inl m)) \<Rightarrow> LegFail (''trials ledger present but unreadable: '' @ m)
           | Some (TrialsRead (Inr rs)) \<Rightarrow>
               if rs = [] then LegOk ''no in-flight turn - trials ledger readable (no looks recorded)'' (governed_turn None)
               else LegOk (''no in-flight turn - trials ledger readable, last look candidate '' @ fst (last rs) @ '' verdict '' @ snd (last rs))
                 (governed_turn (Some (fst (last rs))))))"

definition probe_ladder :: "chain_codec \<Rightarrow> sequence_stores \<Rightarrow> string \<Rightarrow> probe_leg" where
  "probe_ladder c s today =
     (case sx_home s of
        None \<Rightarrow> LegFail ''LS_DATA_HOME not configured - dispatch/chain.jsonl unreachable''
      | Some h \<Rightarrow>
          if ds_file (hm_chain h) = chain_file.Absent then LegFail ''dispatch chain absent''
          else case ladder_sequence c h today of
              Some r \<Rightarrow> leg_of r
            | None \<Rightarrow>
                (case cs_status (chain_load c (hm_chain h)) of
                   Defective why \<Rightarrow> LegOk (''fail-closed rung 0 - chain defective: '' @ why)
                     ''repair by epoch rollover: lab-live --reregister (attended)''
                 | _ \<Rightarrow> LegOk (''chain readable - authorizes rung '' @ show_nat (cs_rung (chain_load c (hm_chain h))) @
                     ''; no session prep in flight'') ''start a new prep: lab-live --dispatch''))"

definition probe_ingest :: "sequence_stores \<Rightarrow> probe_leg" where
  "probe_ingest s =
     (case sx_home s of
        None \<Rightarrow> LegFail ''LS_DATA_HOME not configured - catalog/ingest-checkpoint.json unreachable''
      | Some h \<Rightarrow>
          (case hm_checkpoint h of
             None \<Rightarrow> LegFail ''ingest checkpoint absent''
           | Some (Inl m) \<Rightarrow> LegFail (''ingest checkpoint present but unreadable: '' @ m)
           | Some (Inr v) \<Rightarrow>
               (case ingest_sequence h of
                  Some r \<Rightarrow> leg_of r
                | None \<Rightarrow> LegFail ''ingest checkpoint vanished mid-probe'')))"

definition first_next :: "string \<Rightarrow> string option" where
  "first_next text = map_option trim (map_option the (find (\<lambda>x. x \<noteq> None) (map (strip_prefix ''next='') (str_lines text))))"

definition probe_gate :: "string + string \<Rightarrow> probe_leg" where
  "probe_gate g =
     (case g of
        Inl what \<Rightarrow> LegFail what
      | Inr text \<Rightarrow>
          (case parse_gate_status text of
             Some r \<Rightarrow> leg_of r
           | None \<Rightarrow>
               (case first_next text of
                  None \<Rightarrow> LegFail ''gate --status output unparseable (no next= line)''
                | Some step \<Rightarrow>
                    if step = ''none'' then LegOk ''gate state readable - all steps done (gate green)'' ''make gate-run (a fresh run re-verifies)''
                    else LegOk (''gate state readable - no steps done (fresh or fully invalidated); next step '' @ step)
                      (''make gate-run (runs from '' @ step @ '')''))))"

definition leg_line :: "string \<times> probe_leg \<Rightarrow> string" where
  "leg_line x = (case x of
     (name, LegOk stage resume) \<Rightarrow> ''ok['' @ name @ ''] stage: '' @ stage @ ''; resume: '' @ resume
   | (name, LegFail what) \<Rightarrow> ''FAIL['' @ name @ ''] missing: '' @ what)"

definition leg_row :: "string \<times> probe_leg \<Rightarrow> json" where
  "leg_row x = (case x of
     (name, LegOk stage resume) \<Rightarrow>
       JObj [(''resume'', JStr resume), (''sequence'', JStr name), (''stage'', JStr stage), (''verdict'', JStr ''ok'')]
   | (name, LegFail what) \<Rightarrow> JObj [(''missing'', JStr what), (''sequence'', JStr name), (''verdict'', JStr ''fail'')])"

definition is_ok :: "probe_leg \<Rightarrow> bool" where
  "is_ok x = (case x of LegOk _ _ \<Rightarrow> True | LegFail _ \<Rightarrow> False)"

definition probe_legs :: "report_env \<Rightarrow> (string \<times> probe_leg) list" where
  "probe_legs r =
     [(''turn'', probe_turn (rn_stores r)), (''ladder'', probe_ladder (rn_chain r) (rn_stores r) (cd_kst (rn_chain r) (rn_secs r))),
      (''ingest'', probe_ingest (rn_stores r)), (''gate-run'', probe_gate (rn_gate r))]"

definition probe_report :: "report_env \<Rightarrow> json" where
  "probe_report r =
     JObj [(''all_pass'', JBool (list_all (\<lambda>x. is_ok (snd x)) (probe_legs r))), (''probed_utc'', JStr (rn_time r (rn_secs r))),
       (''sequences'', JArr (map leg_row (probe_legs r))), (''version'', JNum ''1'' ''1'')]"

text \<open>\<open>save\<close> writes the report; nothing else is written.\<close>

definition run_probe :: "report_env \<Rightarrow> (json \<Rightarrow> string option) \<Rightarrow> string list \<Rightarrow> verb_result" where
  "run_probe r save args =
     (if args \<noteq> [] then Inl (''probe takes no arguments; '' @ USAGE)
      else case save (probe_report r) of
        Some m \<Rightarrow> Inl m
      | None \<Rightarrow>
          (let pass = list_all (\<lambda>x. is_ok (snd x)) (probe_legs r)
           in Inr (map leg_line (probe_legs r) @ [if pass then ''probe: PASS'' else ''probe: FAIL''], pass)))"

text \<open>The subcommands.\<close>

definition next_dispatch ::
  "queue_env \<Rightarrow> report_env \<Rightarrow> (json \<Rightarrow> string option) \<Rightarrow> string list \<Rightarrow> queue_file \<Rightarrow> verb_result \<times> queue_file" where
  "next_dispatch e r save args f =
     (case args of
        [] \<Rightarrow> run_report e r [] f
      | verb # rest \<Rightarrow>
          if verb = ''report'' then run_report e r rest f
          else if verb = ''probe'' then (run_probe r save rest, f)
          else if verb = ''list'' then run_list e (rn_now r) rest f
          else run_verb e (rn_stamp r) args f)"

section \<open>What is offered\<close>

lemma classify_is:
  assumes "classify_items e now st xs = Inr (standing, eligible, open_unblocked)"
  shows "standing = filter (\<lambda>x. is_actionable e now x = Inr True \<and> is_blocked x) xs \<and>
    eligible = filter (\<lambda>x. is_actionable e now x = Inr True \<and> \<not> is_blocked x \<and> admits st (qi_window x)) xs \<and>
    (open_unblocked \<longleftrightarrow> (\<exists>x\<in>set xs. is_actionable e now x = Inr True \<and> \<not> is_blocked x))"
  using assms
proof (induction xs arbitrary: standing eligible open_unblocked)
  case (Cons x xs)
  then obtain a s el u where "is_actionable e now x = Inr a" "classify_items e now st xs = Inr (s, el, u)"
    by (cases "is_actionable e now x"; cases "classify_items e now st xs") auto
  with Cons.prems Cons.IH [of s el u] show ?case by (auto split: if_splits)
qed simp

text \<open>
  What the report should show, stated apart from how it is computed: the instants work of a window may
  be done (a session runs from 9:00:00 to 15:30:59 in Seoul on a date the calendar does not rule out),
  the items that are still to be done, and the order of the queue: the holder of the marker first, what
  has a deadline before what has none, the earlier deadline first.\<close>

definition admitted_now :: "report_env \<Rightarrow> work_window \<Rightarrow> bool" where
  "admitted_now r win =
     (let today = today_evidence (rn_calendar r) (rn_now r);
          may_trade = (today = Fact UnknownDate \<or> today = Fact TradingSession);
          second = (rn_now r div 10 ^ 9 + 9 * 3600) mod 86400;
          in_session = (9 * 3600 \<le> second \<and> second < 15 * 3600 + 31 * 60)
      in case win of
           AnyWindow \<Rightarrow> True
         | OpenAttended \<Rightarrow> may_trade \<and> in_session
         | ClosedWindow \<Rightarrow> today = Fact VenueClosed \<or> may_trade \<and> \<not> in_session)"

definition sequence_admitted :: "report_env \<Rightarrow> sequence_report \<Rightarrow> bool" where
  "sequence_admitted r s =
     (if sq_kind s = SeqLadder \<and> contains (sq_resume s) ''--mount'' then admitted_now r OpenAttended
      else admitted_now r ClosedWindow)"

definition to_do :: "queue_env \<Rightarrow> int \<Rightarrow> queue_item \<Rightarrow> bool" where
  "to_do e now x =
     (qi_done x = None \<and> qi_superseded x = None \<and>
      (qi_sequence x \<noteq> None \<or> qi_unblock x \<noteq> None \<or>
       (case qi_deadline x of
          None \<Rightarrow> True
        | Some d \<Rightarrow> (case qe_rfc e d of None \<Rightarrow> False | Some t \<Rightarrow> now \<le> t))))"

definition goes_before :: "queue_env \<Rightarrow> queue_item \<Rightarrow> queue_item \<Rightarrow> bool" where
  "goes_before e x y =
     (if qi_priority x \<noteq> qi_priority y then qi_priority x
      else case (Option.bind (qi_deadline x) (qe_rfc e), Option.bind (qi_deadline y) (qe_rfc e)) of
             (Some s, Some t) \<Rightarrow> s \<le> t
           | (None, Some _) \<Rightarrow> False
           | (_, None) \<Rightarrow> True)"

text \<open>A list holds the items of the queue that pass a test, in that order, and in file order among equals.\<close>

definition shows_in_order :: "queue_env \<Rightarrow> queue_item list \<Rightarrow> (queue_item \<Rightarrow> bool) \<Rightarrow> queue_item list \<Rightarrow> bool" where
  "shows_in_order e xs ok ys \<longleftrightarrow> mset ys = filter_mset ok (mset xs) \<and> sorted_wrt (goes_before e) ys \<and>
     (\<forall>x. let level = (\<lambda>y. goes_before e x y \<and> goes_before e y x) in filter level ys = filter level (filter ok xs))"

lemma before_is_key: "goes_before e x y \<longleftrightarrow> by_priority_then_deadline e x \<le> by_priority_then_deadline e y"
  by (auto simp: goes_before_def by_priority_then_deadline_def parse_deadline_def split: option.splits)

lemma sorted_shows: "shows_in_order e xs ok (sort_key (by_priority_then_deadline e) (filter ok xs))"
proof -
  let ?k = "by_priority_then_deadline e"
  have "goes_before e = (\<lambda>x y. ?k x \<le> ?k y)" by (intro ext) (rule before_is_key)
  then have "sorted_wrt (goes_before e) (sort_key ?k (filter ok xs))"
    using sorted_sort_key [of ?k "filter ok xs"] by (simp add: sorted_map)
  moreover have "(\<lambda>y. goes_before e x y \<and> goes_before e y x) = (\<lambda>y. ?k y = ?k x)" for x
    by (auto simp: before_is_key)
  ultimately show ?thesis
    unfolding shows_in_order_def Let_def by (simp add: sort_key_stable)
qed

lemma actionable_is: "is_actionable e now x = Inr True \<longleftrightarrow> to_do e now x"
  by (auto simp: is_actionable_def to_do_def item_is_stale_def is_blocked_def split: option.splits)

lemma in_session_is:
  "in_time_window t \<longleftrightarrow> 9 * 3600 \<le> (t + 9 * 3600) mod 86400 \<and> (t + 9 * 3600) mod 86400 < 15 * 3600 + 31 * 60"
proof -
  define s where "s = (t + 9 * 3600) mod 86400"
  have "9 * 60 \<le> s div 60 \<longleftrightarrow> 9 * 3600 \<le> s" "s div 60 \<le> 15 * 60 + 30 \<longleftrightarrow> s < 15 * 3600 + 31 * 60" by arith+
  then show ?thesis by (simp add: in_time_window_def kst_minute_def s_def)
qed

lemma admits_is: "admits (wr_state (report_window r)) = admitted_now r"
proof
  fix win
  show "admits (wr_state (report_window r)) win = admitted_now r win"
    using window_fails_closed [of "rn_secs r" "today_evidence (rn_calendar r) (rn_now r)" "date_fact_from_view (loaded_view (rn_calendar r) (rn_now r))"]
    by (cases win) (simp_all add: report_window_def admitted_now_def in_session_is rn_secs_def Let_def)
qed

lemma sequence_admits_is: "admits (wr_state (report_window r)) (sequence_window s) = sequence_admitted r s"
  by (simp add: admits_is sequence_window_def sequence_admitted_def)

lemma window_unknown:
  "(\<exists>u. wr_state (report_window r) = GenuinelyUnknown u) \<longleftrightarrow>
    today_evidence (rn_calendar r) (rn_now r) \<in> {EvidenceNotConfigured, EvidenceUnavailable, Fact Unavailable}"
  by (auto simp: report_window_def derive_window_def Let_def split: date_evidence.splits date_fact.splits)

lemma find_filter: "find ok xs = (case filter ok xs of [] \<Rightarrow> None | x # _ \<Rightarrow> Some x)"
  by (induction xs) auto

text \<open>
  C31. The report shows the work that can be done now. Blocked items that are still to be done stand in
  one list, whatever the window; items that are not blocked are the offer or in the queue when the
  window admits them, and are shown nowhere when it does not. Both lists are in the order of the queue,
  and of the file among equals. The offer is the first sequence the window admits; without one it is
  the first item; without either it is the advice that all is blocked when every item to be done is,
  and else a repair exactly when the calendar cannot answer for today.\<close>

theorem report_offers_what_the_window_admits:
  assumes "report_plan e r xs = Inr p" and "top_offer p = (best, remaining)"
  shows "shows_in_order e xs (\<lambda>x. to_do e (rn_now r) x \<and> qi_unblock x \<noteq> None) (wp_standing p) \<and>
    shows_in_order e xs (\<lambda>x. to_do e (rn_now r) x \<and> qi_unblock x = None \<and> admitted_now r (qi_window x))
      (case best of OfferItem x \<Rightarrow> x # remaining | _ \<Rightarrow> remaining) \<and>
    (let first = find (sequence_admitted r) (all_sequences r);
         blocked = (wp_standing p \<noteq> [] \<and> (\<forall>x\<in>set xs. to_do e (rn_now r) x \<longrightarrow> qi_unblock x \<noteq> None));
         unknown = (today_evidence (rn_calendar r) (rn_now r) \<in> {EvidenceNotConfigured, EvidenceUnavailable, Fact Unavailable})
     in case best of
          OfferSequence s \<Rightarrow> first = Some s
        | OfferItem x \<Rightarrow> first = None
        | AllBlocked h \<Rightarrow> first = None \<and> remaining = [] \<and> blocked \<and> h = hd (wp_standing p)
        | RunRepair \<Rightarrow> first = None \<and> remaining = [] \<and> \<not> blocked \<and> unknown
        | NoneEligible \<Rightarrow> first = None \<and> remaining = [] \<and> \<not> blocked \<and> \<not> unknown)"
proof -
  let ?w = "report_window r" and ?now = "rn_now r"
  let ?standing = "filter (\<lambda>x. to_do e ?now x \<and> qi_unblock x \<noteq> None) xs"
  let ?eligible = "filter (\<lambda>x. to_do e ?now x \<and> qi_unblock x = None \<and> admitted_now r (qi_window x)) xs"
  obtain standing eligible u where c: "classify_items e ?now (wr_state ?w) xs = Inr (standing, eligible, u)"
    using assms(1) by (cases "classify_items e ?now (wr_state ?w) xs") (auto simp: report_plan_def Let_def)
  have k: "standing = ?standing" "eligible = ?eligible" "u \<longleftrightarrow> (\<exists>x\<in>set xs. to_do e ?now x \<and> qi_unblock x = None)"
    using classify_is [OF c] by (simp_all add: actionable_is is_blocked_def admits_is)
  have p: "wp_window p = ?w" "wp_active p = filter (sequence_admitted r) (all_sequences r)"
      "wp_standing p = sort_key (by_priority_then_deadline e) ?standing"
      "wp_eligible p = sort_key (by_priority_then_deadline e) ?eligible" "wp_open p = u"
    using assms(1) c k(1,2) by (auto simp: report_plan_def Let_def sequence_admits_is)
  have shown: "(case best of OfferItem x \<Rightarrow> x # remaining | _ \<Rightarrow> remaining) = wp_eligible p"
    using assms(2) by (auto simp: top_offer_def split: list.splits bool.splits window_state.splits)
  have first: "find (sequence_admitted r) (all_sequences r) = (case wp_active p of [] \<Rightarrow> None | s # _ \<Rightarrow> Some s)"
    unfolding p(2) by (rule find_filter)
  have blocked: "(\<forall>x\<in>set xs. to_do e ?now x \<longrightarrow> qi_unblock x \<noteq> None) \<longleftrightarrow> \<not> wp_open p"
    unfolding p(5) k(3) by auto
  have unknown: "today_evidence (rn_calendar r) ?now \<in> {EvidenceNotConfigured, EvidenceUnavailable, Fact Unavailable} \<longleftrightarrow>
      (\<exists>x. wr_state (wp_window p) = GenuinelyUnknown x)"
    unfolding p(1) window_unknown ..
  have "let first = find (sequence_admitted r) (all_sequences r);
         blocked = (wp_standing p \<noteq> [] \<and> (\<forall>x\<in>set xs. to_do e ?now x \<longrightarrow> qi_unblock x \<noteq> None));
         unknown = (today_evidence (rn_calendar r) ?now \<in> {EvidenceNotConfigured, EvidenceUnavailable, Fact Unavailable})
     in case best of
          OfferSequence s \<Rightarrow> first = Some s
        | OfferItem x \<Rightarrow> first = None
        | AllBlocked h \<Rightarrow> first = None \<and> remaining = [] \<and> blocked \<and> h = hd (wp_standing p)
        | RunRepair \<Rightarrow> first = None \<and> remaining = [] \<and> \<not> blocked \<and> unknown
        | NoneEligible \<Rightarrow> first = None \<and> remaining = [] \<and> \<not> blocked \<and> \<not> unknown"
    unfolding blocked unknown first Let_def using assms(2)
    by (auto simp: top_offer_def split: list.splits bool.splits window_state.splits)
  with sorted_shows [of e xs] show ?thesis unfolding shown p(3,4) by simp
qed

section \<open>What reconciliation closes\<close>

definition closable :: "queue_env \<Rightarrow> int \<Rightarrow> queue_item \<Rightarrow> bool" where
  "closable e now x \<longleftrightarrow> is_actionable e now x = Inr True \<and> \<not> is_blocked x \<and>
     (case declared_artifact x of Some (p, ev) \<Rightarrow> artifact_witnesses e (anchored e p) | None \<Rightarrow> False)"

lemma confirm_without_tty: "confirm_items e now stamp None xs f = (r, f') \<Longrightarrow> f' = f"
  by (induction xs arbitrary: r) (auto simp: apfst_def map_prod_def split: sum.splits if_splits option.splits prod.splits)

lemma edit_middle: "qi_id x \<notin> qi_id ` set us \<Longrightarrow> edit_item (qi_id x) h (us @ x # zs) = us @ h x # zs"
  by (induction us) auto

lemma find_middle: "qi_id x \<notin> qi_id ` set us \<Longrightarrow> find_item (qi_id x) (us @ x # zs) = Some x"
  by (induction us) (auto simp: find_item_def)

lemma done_closes:
  assumes "\<forall>x. item_codec_ok e x" and "qe_write e = None" and "holds_queue e f (us @ x # zs)" and "good_queue (us @ x # zs)"
    and "closable e now x"
  shows "\<exists>f'. queue_done e (qi_id x) stamp f = (Inr Completed, f') \<and> holds_queue e f' (us @ completes stamp x # zs) \<and>
    good_queue (us @ completes stamp x # zs)"
proof -
  let ?ys = "us @ completes stamp x # zs" and ?f = "QueueText (Inr (queue_text e (us @ completes stamp x # zs)))"
  have fresh: "qi_id x \<notin> qi_id ` set us" using assms(4) by (auto simp: good_queue_def)
  have read: "read_all e f = Inr (us @ x # zs)" using assms(3) by (simp add: holds_queue_def)
  from assms(5) obtain p ev where x: "qi_done x = None" "\<not> is_blocked x" "declared_artifact x = Some (p, ev)"
      "artifact_witnesses e (anchored e p)"
    by (auto simp: closable_def is_actionable_def split: option.splits if_splits)
  have "list_all readable_item ?ys"
    using assms(4) by (auto simp: good_queue_def readable_item_def blank_condition_def completes_def)
  then have blank: "find blank_condition ?ys = None" by (auto simp: find_None_iff list_all_iff readable_item_def)
  have "length (marker_holders ?ys) \<le> length (marker_holders (us @ x # zs))"
    by (simp add: marker_holders_def completes_def)
  with assms(4) have one: "length (marker_holders ?ys) \<le> 1" by (simp add: good_queue_def)
  have "queue_done e (qi_id x) stamp f = saved e ?ys Completed f"
    using x by (simp add: queue_done_def with_items_def read find_middle [OF fresh] edit_middle [OF fresh] completes_def)
  also have "\<dots> = (Inr Completed, ?f)" using blank one assms(2) by (simp add: saved_def queue_save_def)
  finally have run: "queue_done e (qi_id x) stamp f = (Inr Completed, ?f)" .
  have held: "holds_queue e ?f ?ys"
    using saved_reads_back [of e ?ys] assms(1) \<open>list_all readable_item ?ys\<close> by (simp add: holds_queue_def list_all_iff)
  moreover obtain ws where "holds_queue e ?f ws" "good_queue ws"
    using done_step [OF assms(1,3,4) run] by auto
  ultimately have "good_queue ?ys" by (simp add: holds_queue_def)
  with run held show ?thesis by blast
qed

lemma auto_close_closes:
  assumes "\<forall>x. item_codec_ok e x" and "qe_write e = None"
    and "holds_queue e f (us @ zs)" and "good_queue (us @ zs)" and "auto_close e now stamp zs f = (Inr ls, f')"
  shows "holds_queue e f' (us @ map (\<lambda>x. if closable e now x then completes stamp x else x) zs)"
  using assms(3-)
proof (induction zs arbitrary: us f ls)
  case (Cons x zs)
  let ?g = "\<lambda>x. if closable e now x then completes stamp x else x"
  obtain a where a: "is_actionable e now x = Inr a"
    using Cons.prems(3) by (cases "is_actionable e now x") auto
  show ?case
  proof (cases "closable e now x")
    case True
    from done_closes [OF assms(1,2) Cons.prems(1,2) True] obtain f1 where f1:
      "queue_done e (qi_id x) stamp f = (Inr Completed, f1)" "holds_queue e f1 ((us @ [completes stamp x]) @ zs)"
      "good_queue ((us @ [completes stamp x]) @ zs)" by auto
    have "\<exists>ls'. auto_close e now stamp zs f1 = (Inr ls', f')"
      using Cons.prems(3) True f1(1) a
      by (cases "auto_close e now stamp zs f1"; cases "fst (auto_close e now stamp zs f1)")
        (auto simp: closable_def Let_def split: option.splits)
    with Cons.IH [OF f1(2,3)] True show ?thesis by auto
  next
    case False
    have "auto_close e now stamp zs f = (Inr ls, f')"
      using Cons.prems(3) False a by (auto simp: closable_def split: option.splits prod.splits if_splits)
    with Cons.IH [of f "us @ [x]" ls] Cons.prems(1,2) False show ?thesis by auto
  qed
qed simp

text \<open>
  C32. Without a terminal the sit-down reconciliation closes exactly the items whose work is witnessed: those
  actionable and not blocked whose declared artifact exists and is not empty. Every other item, the
  blocked ones above all, is left as it was, in its place.\<close>

theorem reconciliation_closes_the_witnessed:
  assumes "\<forall>x. item_codec_ok e x" and "qe_write e = None" and "holds_queue e f xs" and "good_queue xs"
    and "reconcile_queue e now stamp None f = (Inr ls, f')"
  shows "holds_queue e f' (map (\<lambda>x. if closable e now x then completes stamp x else x) xs)"
proof -
  have "read_all e f = Inr xs" using assms(3) by (simp add: holds_queue_def)
  with assms(5) obtain l1 f1 where "auto_close e now stamp xs f = (Inr l1, f1)" "\<exists>r. confirm_items e now stamp None xs f1 = (r, f')"
    by (auto simp: reconcile_queue_def with_items_def apfst_def map_prod_def split: prod.splits sum.splits)
  moreover from this(2) have "f' = f1" using confirm_without_tty by blast
  ultimately show ?thesis using auto_close_closes [OF assms(1,2), of f "[]" xs now stamp l1 f1] assms(3,4) by simp
qed

section \<open>The ladder leg\<close>

lemma walk_valid: "cs_kill (chain_load c st) \<Longrightarrow> cs_status (chain_load c st) = Valid"
  by (auto simp: chain_load_def suspended_def split: sum.splits if_splits option.splits)

text \<open>
  C34. An engaged kill switch is never hidden: whatever state the preparation of a session is in, the
  ladder leg reports, and its first note says that the switch is engaged.\<close>

theorem engaged_switch_is_reported:
  assumes "cs_kill (chain_load c (hm_chain h))" and "ds_file (hm_chain h) \<noteq> chain_file.Absent"
  shows "\<exists>r d. ladder_sequence c h today = Some r \<and>
    sq_detail r = ''kill switch ENGAGED - clear via lab-live --clear-killswitch'' # d"
proof -
  have v: "cs_status (chain_load c (hm_chain h)) = Valid" by (rule walk_valid [OF assms(1)])
  show ?thesis
    using assms
    by (auto simp: ladder_sequence_def v Let_def valid_ladder_def engaged_fallback_def split: mount_authz.splits option.splits)
qed

section \<open>What the probe demonstrates\<close>

lemma gate_line_next: "gs_next (gate_line l g) \<noteq> None \<longleftrightarrow> strip_prefix ''next='' l \<noteq> None \<or> gs_next g \<noteq> None"
  by (auto simp: gate_line_def Let_def split: option.splits prod.splits)

lemma scan_next: "gs_next (scan_gate text) \<noteq> None \<longleftrightarrow> (\<exists>l\<in>set (str_lines text). strip_prefix ''next='' l \<noteq> None)"
proof -
  have "gs_next (fold gate_line ls g) \<noteq> None \<longleftrightarrow> (\<exists>l\<in>set ls. strip_prefix ''next='' l \<noteq> None) \<or> gs_next g \<noteq> None" for ls g
    using gate_line_next by (induction ls arbitrary: g) auto
  then show ?thesis by (simp add: scan_gate_def)
qed

lemma first_next_some: "first_next t0 \<noteq> None \<longleftrightarrow> gs_next (scan_gate t0) \<noteq> None"
proof -
  have "find (\<lambda>x. x \<noteq> None) xs \<noteq> None \<longleftrightarrow> (\<exists>x\<in>set xs. x \<noteq> None)" for xs :: "string option list"
    by (induction xs) auto
  then show ?thesis unfolding scan_next by (simp add: first_next_def)
qed

lemma gate_leg: "is_ok (probe_gate g) \<longleftrightarrow> (\<exists>t0. g = Inr t0 \<and> gs_next (scan_gate t0) \<noteq> None)"
proof (cases g)
  case (Inr t0)
  show ?thesis
  proof (cases "parse_gate_status t0")
    case None
    then show ?thesis using Inr first_next_some [of t0] by (auto simp: probe_gate_def is_ok_def split: option.splits)
  next
    case (Some r)
    then have "gs_next (scan_gate t0) \<noteq> None" by (auto simp: parse_gate_status_def Let_def split: option.splits)
    with Some Inr show ?thesis by (simp add: probe_gate_def is_ok_def leg_of_def)
  qed
qed (simp add: probe_gate_def is_ok_def)

text \<open>
  The probe passes exactly when each store is there and reads: the turn leg by what is in flight or by a
  readable trials ledger, the ladder leg by a chain file whatever its verdict, the ingest leg by a
  checkpoint that parses, the gate leg by a status text that names a next step. An idle repository passes.\<close>

theorem probe_passes_on_readable_stores:
  "(\<exists>ls. run_probe r save [] = Inr (ls, True)) \<longleftrightarrow>
     save (probe_report r) = None \<and>
     (turn_sequence (rn_stores r) \<noteq> None \<or> (\<exists>rs. sx_trials (rn_stores r) = Some (TrialsRead (Inr rs)))) \<and>
     (\<exists>h. sx_home (rn_stores r) = Some h \<and> ds_file (hm_chain h) \<noteq> chain_file.Absent \<and> (\<exists>v. hm_checkpoint h = Some (Inr v))) \<and>
     (\<exists>text. rn_gate r = Inr text \<and> (\<exists>l\<in>set (str_lines text). strip_prefix ''next='' l \<noteq> None))"
proof -
  let ?s = "rn_stores r"
  have turn: "is_ok (probe_turn ?s) \<longleftrightarrow> turn_sequence ?s \<noteq> None \<or> (\<exists>rs. sx_trials ?s = Some (TrialsRead (Inr rs)))"
    by (auto simp: probe_turn_def is_ok_def leg_of_def split: option.splits trials_file.splits sum.splits)
  have ladder: "is_ok (probe_ladder c ?s today) \<longleftrightarrow> (\<exists>h. sx_home ?s = Some h \<and> ds_file (hm_chain h) \<noteq> chain_file.Absent)" for c today
    by (auto simp: probe_ladder_def is_ok_def leg_of_def split: option.splits chain_status.splits)
  have ingest: "is_ok (probe_ingest ?s) \<longleftrightarrow> (\<exists>h v. sx_home ?s = Some h \<and> hm_checkpoint h = Some (Inr v))"
    by (auto simp: probe_ingest_def ingest_sequence_def is_ok_def leg_of_def Let_def split: option.splits sum.splits)
  have "list_all (\<lambda>x. is_ok (snd x)) (probe_legs r) \<longleftrightarrow>
      is_ok (probe_turn ?s) \<and> is_ok (probe_ladder (rn_chain r) ?s (cd_kst (rn_chain r) (rn_secs r))) \<and> is_ok (probe_ingest ?s) \<and>
      is_ok (probe_gate (rn_gate r))"
    by (simp add: probe_legs_def)
  moreover have "(\<exists>ls. run_probe r save [] = Inr (ls, True)) \<longleftrightarrow>
      save (probe_report r) = None \<and> list_all (\<lambda>x. is_ok (snd x)) (probe_legs r)"
    by (auto simp: run_probe_def Let_def split: option.splits)
  ultimately show ?thesis
    unfolding turn ladder ingest gate_leg scan_next by auto
qed

text \<open>
  The one step of a sequence that needs the open, attended window is to mount a session: the ladder leg
  asks for it exactly when the chain holds a green dispatch of today that is not consumed.\<close>

theorem only_a_mount_needs_the_open_window:
  assumes "ladder_sequence c h today = Some r"
  shows "sequence_window r = OpenAttended \<longleftrightarrow>
    cs_status (chain_load c (hm_chain h)) = Valid \<and> (\<exists>i a b. mount_authz (chain_load c (hm_chain h)) today = mount_authz.Ready i a b)"
proof -
  have no: "\<not> contains ''clear deliberately after understanding the trip: lab-live --clear-killswitch'' ''--mount''"
    "\<not> contains ''inspect the mounted session outcome, then lab-live --rung-report; a new session needs a fresh lab-live --dispatch'' ''--mount''"
    "\<not> contains ''re-dispatch today: lab-live --dispatch'' ''--mount''"
    "\<not> contains ''repair by epoch rollover: lab-live --reregister'' ''--mount''"
    and yes: "contains ''mount the attended session: lab-live --mount'' ''--mount''"
    unfolding contains_def by code_simp+
  show ?thesis
    using assms no yes
    by (auto simp: ladder_sequence_def Let_def valid_ladder_def engaged_fallback_def sequence_window_def
        split: chain_status.splits mount_authz.splits option.splits if_splits)
qed

section \<open>Instances\<close>

definition no_runs :: lab_home where
  "no_runs = \<lparr>lh_entries = [], lh_manifest = (\<lambda>i. None), lh_dq = (\<lambda>i. None), lh_perf = (\<lambda>i. None), lh_report = (\<lambda>i. Inr None)\<rparr>"

text \<open>A registered chain on which the kill switch was engaged, and one with a dispatch of today.\<close>

definition ex_tripped :: chain_record where
  "ex_tripped = ex_record ''2026-07-16-0001'' ''2026-07-16-0000'' 1
     (SafetyTrip \<lparr>st_trip = KillSwitch, st_action = Engage, st_run_id = None, st_detail = []\<rparr>)"

definition switch_codec :: chain_codec where
  "switch_codec = ex_codec \<lparr>cd_parse := (\<lambda>l. if l = ''2026-07-16-0000'' then Some ex_genesis else Some ex_tripped)\<rparr>"

definition two_records :: data_home where
  "two_records = \<lparr>hm_chain = ex_store (''2026-07-16-0000'' @ newline @ ''2026-07-16-0001'' @ newline), hm_runs = no_runs,
     hm_checkpoint = None\<rparr>"

lemma two_lines: "raw_lines (hm_chain two_records) = Inr [''2026-07-16-0000'', ''2026-07-16-0001'']"
  by (simp add: two_records_def raw_lines_def ex_store_def str_lines_def strip_cr_def newline_def)

lemma switch_loaded: "chain_load switch_codec (hm_chain two_records) = walk [ex_genesis, ex_tripped]"
proof -
  have "verify_links switch_codec 0 None [ex_genesis, ex_tripped] = None"
    by (simp add: switch_codec_def ex_tripped_def ex_defs opens_epoch_def)
  moreover have "parse_all switch_codec 0 [''2026-07-16-0000'', ''2026-07-16-0001''] = Inr [ex_genesis, ex_tripped]"
    by (simp add: switch_codec_def)
  ultimately show ?thesis by (simp add: chain_load_def two_lines del: verify_links.simps parse_all.simps)
qed

theorem engaged_switch_is_reported_witness: "ladder_sequence switch_codec two_records ''2026-07-16'' \<noteq> None"
proof -
  have "cs_kill (chain_load switch_codec (hm_chain two_records))"
    by (simp add: switch_loaded walk_def walk_step_def ex_tripped_def ex_defs suspended_def)
  moreover have "ds_file (hm_chain two_records) \<noteq> chain_file.Absent" by (simp add: two_records_def ex_store_def)
  ultimately show ?thesis using engaged_switch_is_reported [of switch_codec two_records "''2026-07-16''"] by auto
qed

lemma dispatch_loaded: "chain_load ex_codec (hm_chain two_records) = walk [ex_genesis, ex_dispatch]"
proof -
  have "parse_all ex_codec 0 [''2026-07-16-0000'', ''2026-07-16-0001''] = Inr [ex_genesis, ex_dispatch]"
    by (simp add: ex_codec_def)
  then show ?thesis by (simp add: chain_load_def two_lines ex_links del: verify_links.simps parse_all.simps)
qed

theorem only_a_mount_needs_the_open_window_witness:
  "\<exists>r. ladder_sequence ex_codec two_records ''2026-07-16'' = Some r \<and> sequence_window r = OpenAttended"
proof -
  have ready: "mount_authz (walk [ex_genesis, ex_dispatch]) ''2026-07-16'' = mount_authz.Ready ''2026-07-16-0001'' 1 1"
    by (simp add: mount_authz_def walk_def walk_step_def ex_defs suspended_def RUNG_MIN_def)
  have "ds_file (hm_chain two_records) \<noteq> chain_file.Absent" by (simp add: two_records_def ex_store_def)
  moreover have "cs_status (walk [ex_genesis, ex_dispatch]) = Valid" by simp
  ultimately obtain r where r: "ladder_sequence ex_codec two_records ''2026-07-16'' = Some r"
    using ready by (simp add: ladder_sequence_def dispatch_loaded Let_def valid_ladder_def)
  with only_a_mount_needs_the_open_window [OF r] ready show ?thesis by (auto simp: dispatch_loaded)
qed

text \<open>A repository with nothing configured, and one open item.\<close>

definition bare_env :: report_env where
  "bare_env = \<lparr>rn_now = 0, rn_stamp = ''t1'', rn_tty = None, rn_calendar = NotConfigured, rn_chain = ex_codec,
     rn_stores = \<lparr>sx_home = None, sx_trials = None, sx_stage = None\<rparr>, rn_gate = Inl ''absent'', rn_time = (\<lambda>t. [])\<rparr>"

theorem report_offers_what_the_window_admits_witness:
  "\<exists>p. report_plan plain_env bare_env [demo_item ''a''] = Inr p \<and> wp_standing p = [] \<and>
     top_offer p = (OfferItem (demo_item ''a''), []) \<and>
     shows_in_order plain_env [demo_item ''a''] (\<lambda>x. to_do plain_env 0 x \<and> qi_unblock x = None \<and> admitted_now bare_env (qi_window x))
       [demo_item ''a'']"
proof -
  have act: "is_actionable plain_env (rn_now bare_env) (demo_item ''a'') = Inr True"
    by (simp add: is_actionable_def item_is_stale_def is_blocked_def)
  have nb: "\<not> is_blocked (demo_item ''a'')" by (simp add: is_blocked_def)
  have w: "admits (wr_state (report_window bare_env)) (qi_window (demo_item ''a''))"
    by (simp add: report_window_def bare_env_def today_evidence_def derive_window_def Let_def admits_def)
  have seq: "all_sequences bare_env = []"
    by (simp add: all_sequences_def bare_env_def read_sequences_def turn_sequence_def gate_sequence_def)
  obtain p where p: "report_plan plain_env bare_env [demo_item ''a''] = Inr p" "wp_active p = []" "wp_eligible p = [demo_item ''a'']"
    using act nb w by (simp add: report_plan_def Let_def seq)
  have top: "top_offer p = (OfferItem (demo_item ''a''), [])" by (simp add: top_offer_def p)
  have now: "rn_now bare_env = 0" by (simp add: bare_env_def)
  note all = report_offers_what_the_window_admits [OF p(1) top]
  have "mset (wp_standing p) = {#}" using all nb by (simp add: shows_in_order_def is_blocked_def)
  moreover have "shows_in_order plain_env [demo_item ''a'']
      (\<lambda>x. to_do plain_env 0 x \<and> qi_unblock x = None \<and> admitted_now bare_env (qi_window x)) [demo_item ''a'']"
    using all unfolding now by simp
  ultimately show ?thesis using p(1) top by simp
qed

definition written_env :: queue_env where
  "written_env = plain_env \<lparr>qe_meta := (\<lambda>p. Some (IsFile 3))\<rparr>"

theorem reconciliation_closes_the_witnessed_witness:
  "holds_queue written_env (snd (reconcile_queue written_env 0 ''t1'' None (demo_file [demo_item ''a''])))
     [completes ''t1'' (demo_item ''a'')]"
proof -
  let ?f = "demo_file [demo_item ''a'']"
  have codec: "\<forall>x. item_codec_ok written_env x"
    using plain_codec_ok by (simp add: item_codec_ok_def written_env_def)
  have "read_items written_env n ls = read_items plain_env n ls" for n ls
    by (induction ls arbitrary: n) (simp_all add: read_item_def written_env_def)
  then have reads: "holds_queue written_env ?f [demo_item ''a'']"
    using demo_reads [of "[demo_item ''a'']"] by (simp add: holds_queue_def read_all_def demo_file_def)
  have good: "good_queue [demo_item ''a'']" by (simp add: good_queue_def marker_holders_def)
  have wr: "qe_write written_env = None" by (simp add: written_env_def)
  have cl: "closable written_env 0 (demo_item ''a'')"
    by (simp add: closable_def is_actionable_def item_is_stale_def is_blocked_def declared_artifact_def artifact_witnesses_def written_env_def)
  from done_closes [OF codec wr _ _ cl, of ?f "[]" "[]" "''t1''"] reads good obtain f' where
    d: "queue_done written_env ''a'' ''t1'' ?f = (Inr Completed, f')" by auto
  have "\<exists>ls f'. reconcile_queue written_env 0 ''t1'' None ?f = (Inr ls, f')"
    using reads cl d
    by (auto simp: reconcile_queue_def with_items_def holds_queue_def closable_def Let_def split: option.splits)
  then obtain ls f'' where run: "reconcile_queue written_env 0 ''t1'' None ?f = (Inr ls, f'')" by blast
  from reconciliation_closes_the_witnessed [OF codec wr reads good run] cl run show ?thesis by simp
qed

end
