(* ===== verification/Spec2Isabelle.thy ===== *)
theory Spec2Isabelle
  imports Order_Race Order_Map Poll Preflight Client_Config Krx_Rules Numeric_Parse Safety_Envelope
    Calendar_Diagnostics Catalog_Baseline Ingest_Backfill Catalog_Upkeep Work_Next
begin

text \<open>
  A model of the Rust SDK for the LS securities gateway and of the trading adapter and the live-trading
  lab built on it: how orders are sent, how history is ingested, how a live session is let trade. Paths are relative to \<open>src/\<close>.

  \<^bold>\<open>The program.\<close> The SDK (\<open>crates/ls-core\<close>, \<open>crates/ls-sdk\<close>) sends typed requests to a broker's
  HTTP gateway: it validates a request against declared constraints, holds an OAuth token, limits
  rates, retries reads, sends an order at most once, remembers accepted orders for a deduplication
  window, and reconciles an order of unknown fate against the gateway's list of orders. The
  adapter (\<open>adapters/nautilus/src\<close>) prices orders on the exchange's tick grid, tracks each order's
  chain of exchange numbers, and turns two redundant sources of fill information into executions
  that are emitted once; its ingest fills a catalog of bars from the
  gateway's charts, governed by a calendar of sessions and a checkpoint of what is attested. The lab (\<open>adapters/nautilus/lab/src\<close>) lets a live session trade only behind a
  hash-linked file of records, the dispatch chain: a gate of checks writes a dispatch to it, a mount
  consumes the dispatch, a ladder of capital rungs rises on evidence and falls on limit events, and a
  watchdog tears a session down and records the trip. Between sessions a queue of work items and a report
  of what is in flight tell the operator what to do next.

  \<^bold>\<open>Theories, bottom up.\<close>
  \<^item> \<open>Prelude\<close>, \<open>F64\<close>, \<open>Json\<close>: the parts of Rust's library the source uses (UTF-8 strings, trimming,
    decimal parsing, 64-bit integers, doubles, \<open>serde_json\<close> values).
  \<^item> \<open>Ls_Error\<close>: error enums and response-code predicates (\<open>ls-core/src/error.rs\<close>, \<open>error_catalog.rs\<close>).
  \<^item> \<open>Client_Config\<close>: environments, configuration from variables, defaults, validated construction
    (\<open>config.rs\<close>, \<open>config_resolve.rs\<close>, \<open>rate_limiter.rs\<close>, \<open>client.rs\<close>).
  \<^item> \<open>Preflight\<close>: request constraints, validation, generation of invalid variants (\<open>preflight.rs\<close>).
  \<^item> \<open>Order_Dedup\<close>: the response cache with time to live and the reservations (\<open>order_dedup.rs\<close>).
  \<^item> \<open>Transport\<close>: the client's state, the outside world, tokens (\<open>auth.rs\<close>, \<open>endpoint_policy\<close>).
  \<^item> \<open>Inner\<close>: one attempt and its verdict, retried reads, single-shot orders, page collection
    (\<open>inner.rs\<close>, \<open>pagination.rs\<close>); \<open>Order_Race\<close>: the same order path under interleaving.
  \<^item> \<open>Reconcile\<close>, \<open>Order_Map\<close>: reconciliation (\<open>ls-sdk/src/orders\<close>) and the adapter's reading of
    its results (\<open>adapters/nautilus/src/orders/map.rs\<close>).
  \<^item> \<open>Numeric_Parse\<close>, \<open>Krx_Rules\<close>: the adapter's parsers and price guard, the exchange's tick rules.
  \<^item> \<open>Order_Chain\<close>, \<open>Fill_Ledger\<close>, \<open>Poll\<close>: chains of order numbers, the fill ledger, the poll lane
    and its bounded drive (\<open>adapters/nautilus/src/orders\<close>).

  \<^item> \<open>Scrub\<close>, \<open>Advisory_Lock\<close>: masking of secrets and the lock files (\<open>scrub.rs\<close>, \<open>lock.rs\<close> of the
    adapter).
  \<^item> \<open>Dispatch_Chain\<close>: records, append, verification, epoch rollover, what a mount may use
    (\<open>dispatch/chain.rs\<close>); \<open>Dispatch_Gate\<close>: the operator's nonce, the checks, deferrals and the verdict
    (\<open>checks.rs\<close>, \<open>nonce.rs\<close>); \<open>Live_Mount\<close>: mounting, registration, the kill switch
    (\<open>runner/live/mount.rs\<close>, \<open>shared.rs\<close>).
  \<^item> \<open>F64_Ops\<close>, \<open>Capital_Ladder\<close>: pre-registered values, readiness, limit events, de-escalation and
    escalation (\<open>prereg.rs\<close>, \<open>readiness.rs\<close>, \<open>ladder.rs\<close>); \<open>Dispatch_Run\<close>: one \<open>--dispatch\<close> from
    the loaded chain to the recorded verdict (\<open>mount.rs\<close>).
  \<^item> \<open>Safety_Envelope\<close>: the watchdog's ticks, trips and teardown, the rehearsal's trip ledger
    (\<open>runner/watchdog.rs\<close>, \<open>shared.rs\<close>, \<open>rehearsal.rs\<close>, \<open>recovery.rs\<close>).

  \<^item> \<open>Krx_Calendar\<close>: the calendar library (\<open>nautilus-ls-calendar/src\<close>): snapshots and their identities,
    loading, queries as of an instant, freshness, reconciliation of evidence, the witness rule;
    \<open>Calendar_Startup\<close>: the snapshot a process runs under (\<open>calendar.rs\<close> of the adapter);
    \<open>Calendar_Diagnostics\<close>: what of it is printed; \<open>Catalog_Baseline\<close>: the freshness of a catalog as a
    dispatch reads it (\<open>runner/live/mount.rs\<close>).
  \<^item> \<open>Ingest_Gate\<close>: what the calendar lets a run fetch, skip and attest (\<open>CalendarGate\<close> in
    \<open>ingest/mod.rs\<close>); \<open>Checkpoint\<close>: watermarks, completed ranges, gaps, marks, pruning and migration
    (\<open>ingest/checkpoint.rs\<close>); \<open>Ingest_Budget\<close>: the spend ledger and the pacer (\<open>budget.rs\<close>,
    \<open>pacer.rs\<close>).
  \<^item> \<open>Ingest_Bars\<close>: bars from chart rows, the daily and minute collectors with their page cursors, the
    trim against coverage, the checked append; \<open>Ingest_Windows\<close>: the walk set and its windows
    (\<open>reference/pit_walk.rs\<close>), the backfill plan, one window's pull (\<open>ingest/backfill.rs\<close>).
  \<^item> \<open>Ingest_Accumulate\<close>: a run over all series: detection of a shifted price basis, heal, append,
    range and re-base runs; \<open>Ingest_Cases\<close>: runs against a concrete gateway and catalog.
  \<^item> \<open>Ingest_Backfill\<close>: a backfill session and the completeness report; \<open>Catalog_Upkeep\<close>: the guard of
    frozen catalogs, compaction and its crash recovery, the look-back probe (\<open>ingest/mod.rs\<close>).

  \<^item> \<open>Work_Queue\<close>: items, the store and the verbs that edit it (\<open>queue/item.rs\<close>, \<open>queue/store.rs\<close>,
    \<open>runner/next/verbs.rs\<close>); \<open>Work_Window\<close>: which work the hour and the calendar admit and when
    that changes (\<open>queue/window.rs\<close>); \<open>Work_Next\<close>: sequences in flight, reconciliation, the report
    and its offer, the lists, the resume probe (\<open>queue/sequences.rs\<close>, \<open>runner/next.rs\<close>,
    \<open>runner/next/probe.rs\<close>).

  \<^bold>\<open>What is shown.\<close> Orders: one request per call, verdicts that never overstate the answer, replay from
  the cache, absence proven before a retry is called safe, executions emitted once. Live sessions: a
  verified chain, a gate that is green exactly when its items are, authority used once, a teardown
  that happens once and leaves the client silent. Ingest: the calendar's answers are proofs over its
  rows, a plan is the established prefix of its span, a watermark attests only what was fetched,
  recorded or proven closed, an unmarked home is whole, compaction keeps every bar. Work queue: no verb
  loses or reopens work, the marker follows the work, what is offered is what the window admits. Where the code
  does something else than its comments say, a theorem states what it does.

  \<^bold>\<open>Correspondence.\<close> A struct is a record, an enum a datatype, a hash map an association list, an
  \<open>i64\<close> an \<open>int\<close> with \<open>wrap64\<close> or saturation where the source has it. A fallible call returns a sum,
  \<open>Inl\<close> the error; a call that may panic returns an option of it. The gateway and the clocks are
  arbitrary functions of the history (record \<open>env\<close>), so every theorem holds for any behaviour of
  the gateway. Serializers derived by \<open>serde\<close> are the functions of a \<open>codec\<close>; the digest, the
  Unicode tables, URL parsing, the embedded schemas and the error catalog are arguments. For the lab
  the \<open>chain_codec\<close> holds the record serializer, SHA-256 and the Seoul date; the registry of runs is a
  record \<open>lab_home\<close> of what its files parse to; the environment, the calendar's answer and the gateway
  probes are inputs of a dispatch; a session is the four operations the teardown calls. For the ingest
  a date is a day number, printed and parsed by a \<open>ymd_codec\<close>; the queue's
  items, instants and files are read through a \<open>queue_env\<close>; the catalog library is a
  \<open>catalog_api\<close> (intervals, bars, write, delete), the gateway a fetcher over an abstract world;
  a panic is a value, and compaction carries the number of effects left before the process dies.

  \<^bold>\<open>Interfaces.\<close> The deduplication cache is used through the locale \<open>ttl_cache\<close> and the order
  chain through \<open>ordno_index\<close>, a session to tear down through \<open>teardown_session\<close>; each is interpreted
  on the model's own operations.

  \<^bold>\<open>Bounds.\<close> Retries are bounded by three, the drive by two re-polls, a collection by the configured
  page limit, a window's pull and the probe by their caps: each is structural recursion on the code's
  own counter, and the queue of split minute ranges ends by a measure, so no fuel is added.

  \<^bold>\<open>Not modelled.\<close> The WebSocket tasks, the reading and writing of parquet files and of instrument
  definitions, the tools that refresh the calendar and the universe, the environment look-ups of the entry report
  and its gate script, the lab's strategies, backtests and
  reports, its asynchronous session loop, writes that fail, metadata and repository tooling; logging, tracing and redacted \<open>Debug\<close> output; \<open>governor\<close>'s waiting (a wait is
  recorded as a charge); timing of backoff and pacing. Message texts no code reads are shortened.
\<close>

end
